(* ===== verification/Vsl_Prelude.thy ===== *)
theory Vsl_Prelude
  imports Main "HOL-Library.Word" "HOL-Library.Char_ord" "HOL-Library.List_Lexorder"
begin

text \<open>
  The prelude of the development: the character classes of the C locale that the compiler's
  hand-written scanners call (\<open>std::isdigit\<close> and its kin on an \<open>unsigned char\<close>), the
  decimal printing of \<open>std::to_string\<close>, the machine integer types the sources name, the
  collections of facts the component theories extend, and generic lemmas on lists shared by
  several components.
\<close>

section \<open>Collections\<close>

named_theorems lex_frame \<open>what an operation of the lexer leaves unchanged\<close>
named_theorems lex_pos \<open>how far an operation of the lexer moves the cursor\<close>
named_theorems parser_safe \<open>contracts of parsers, as introduction rules\<close>

section \<open>Machine integers\<close>

type_synonym int64 = "64 word"

text \<open>The largest value of \<open>long long\<close>, \<open>LLONG_MAX\<close>, and the least one.\<close>

abbreviation LLONG_MAX :: int where
  "LLONG_MAX \<equiv> 9223372036854775807"

abbreviation LLONG_MIN :: int where
  "LLONG_MIN \<equiv> - 9223372036854775808"

section \<open>Characters\<close>

abbreviation NUL :: char where "NUL \<equiv> CHR 0x00"
abbreviation TAB :: char where "TAB \<equiv> CHR 0x09"
abbreviation LF :: char where "LF \<equiv> CHR 0x0A"
abbreviation CR :: char where "CR \<equiv> CHR 0x0D"
abbreviation SPACE :: char where "SPACE \<equiv> CHR 0x20"
abbreviation DQUOTE :: char where "DQUOTE \<equiv> CHR 0x22"
abbreviation HASH :: char where "HASH \<equiv> CHR 0x23"
abbreviation SQUOTE :: char where "SQUOTE \<equiv> CHR 0x27"
abbreviation BACKSLASH :: char where "BACKSLASH \<equiv> CHR 0x5C"
abbreviation UNDERSCORE :: char where "UNDERSCORE \<equiv> CHR 0x5F"
abbreviation LCURLY :: char where "LCURLY \<equiv> CHR 0x7B"
abbreviation RCURLY :: char where "RCURLY \<equiv> CHR 0x7D"

definition code :: "char \<Rightarrow> nat" where
  "code c = of_char c"

definition isdigit :: "char \<Rightarrow> bool" where
  "isdigit c \<longleftrightarrow> 48 \<le> code c \<and> code c \<le> 57"

definition isalpha :: "char \<Rightarrow> bool" where
  "isalpha c \<longleftrightarrow> 65 \<le> code c \<and> code c \<le> 90 \<or> 97 \<le> code c \<and> code c \<le> 122"

definition isalnum :: "char \<Rightarrow> bool" where
  "isalnum c \<longleftrightarrow> isalpha c \<or> isdigit c"

definition isxdigit :: "char \<Rightarrow> bool" where
  "isxdigit c \<longleftrightarrow> isdigit c \<or> 65 \<le> code c \<and> code c \<le> 70 \<or> 97 \<le> code c \<and> code c \<le> 102"

definition isspace :: "char \<Rightarrow> bool" where
  "isspace c \<longleftrightarrow> c = SPACE \<or> 9 \<le> code c \<and> code c \<le> 13"

lemmas char_class_defs = code_def isdigit_def isalpha_def isalnum_def isxdigit_def isspace_def

lemma isalnum_imp [simp]:
  "isdigit c \<Longrightarrow> isalnum c"
  "isalpha c \<Longrightarrow> isalnum c"
  by (simp_all add: isalnum_def)

lemma isdigit_not_isalpha: "isdigit c \<Longrightarrow> \<not> isalpha c"
  by (auto simp: isdigit_def isalpha_def)

text \<open>The value of a hexadecimal digit, as \<open>strtoul(_, nullptr, 16)\<close> reads it.\<close>

definition hexValue :: "char \<Rightarrow> nat" where
  "hexValue c =
     (if isdigit c then code c - 48
      else if 97 \<le> code c then code c - 87
      else code c - 55)"

definition strtoul16 :: "string \<Rightarrow> nat" where
  "strtoul16 cs = foldl (\<lambda>acc c. 16 * acc + hexValue c) 0 cs"

section \<open>Printing of numbers\<close>

definition digitChar :: "nat \<Rightarrow> char" where
  "digitChar d = char_of (48 + d)"

fun showNat :: "nat \<Rightarrow> string" where
  "showNat n = (if n < 10 then [digitChar n] else showNat (n div 10) @ [digitChar (n mod 10)])"

declare showNat.simps [simp del]

definition to_string :: "int \<Rightarrow> string" where
  "to_string i = (if i < 0 then CHR ''-'' # showNat (nat (- i)) else showNat (nat i))"

lemma isdigit_digitChar: "d < 10 \<Longrightarrow> isdigit (digitChar d)"
  by (simp add: isdigit_def digitChar_def code_def of_char_of)

lemma showNat_digits: "list_all isdigit (showNat n)"
proof (induction n rule: showNat.induct)
  case (1 n)
  then show ?case
    by (subst showNat.simps) (simp add: isdigit_digitChar)
qed

lemma showNat_nonempty: "showNat n \<noteq> []"
  by (subst showNat.simps) simp

text \<open>The value of a string of decimal digits; it inverts \<^const>\<open>showNat\<close>.\<close>

definition decimalValue :: "string \<Rightarrow> nat" where
  "decimalValue cs = foldl (\<lambda>acc c. 10 * acc + (code c - 48)) 0 cs"

lemma decimalValue_snoc: "decimalValue (cs @ [c]) = 10 * decimalValue cs + (code c - 48)"
  by (simp add: decimalValue_def)

lemma decimalValue_showNat: "decimalValue (showNat n) = n"
proof (induction n rule: showNat.induct)
  case (1 n)
  show ?case
  proof (cases "n < 10")
    case True
    then show ?thesis
      by (subst showNat.simps) (simp add: decimalValue_def digitChar_def code_def of_char_of)
  next
    case False
    then show ?thesis
      using 1 by (subst showNat.simps)
        (simp add: decimalValue_snoc digitChar_def code_def of_char_of)
  qed
qed

section \<open>Lists\<close>

lemma drop_eq_Cons_nth: "i < length xs \<Longrightarrow> drop i xs = xs ! i # drop (Suc i) xs"
  by (simp add: Cons_nth_drop_Suc)

text \<open>The part of a list between two positions.\<close>

definition substr :: "nat \<Rightarrow> nat \<Rightarrow> 'a list \<Rightarrow> 'a list" where
  "substr i j xs = take (j - i) (drop i xs)"

lemma substr_self [simp]: "substr i i xs = []"
  by (simp add: substr_def)

lemma substr_Suc: "i < j \<Longrightarrow> i < length xs \<Longrightarrow> substr i j xs = xs ! i # substr (Suc i) j xs"
  by (simp add: substr_def drop_eq_Cons_nth take_Cons')

lemma substr_snoc: "i \<le> j \<Longrightarrow> j < length xs \<Longrightarrow> substr i (Suc j) xs = substr i j xs @ [xs ! j]"
  by (simp add: substr_def Suc_diff_le take_Suc_conv_app_nth)

lemma length_substr: "i \<le> j \<Longrightarrow> j \<le> length xs \<Longrightarrow> length (substr i j xs) = j - i"
  by (simp add: substr_def)

lemma substr_append:
  assumes "i \<le> j" and "j \<le> k"
  shows "substr i k xs = substr i j xs @ substr j k xs"
proof -
  have "k - i = (j - i) + (k - j)" and "drop (j - i) (drop i xs) = drop j xs"
    using assms by simp_all
  then show ?thesis by (simp only: substr_def take_add)
qed

end
