(* ===== verification/Diagnostics.thy ===== *)
theory Diagnostics
  imports Vsl_Prelude
begin

text \<open>
  Diagnostics (\<^verbatim>\<open>include/diagnostic.h\<close>): the structure every compiler error inherits from, its
  clang-style rendering, and the error classes of the front end that are thin wrappers of it
  (\<^verbatim>\<open>LexError\<close>, \<^verbatim>\<open>IndentationError\<close>, \<^verbatim>\<open>ParseError\<close>).
\<close>

datatype Severity = Error | Warning

record Diagnostic =
  d_severity :: Severity
  d_message :: string
  d_hint :: string
  d_filename :: string
  d_line :: int
  d_col :: int
  d_endLine :: int
  d_endCol :: int
  d_source_line :: string

text \<open>\<^verbatim>\<open>Diagnostic::format\<close>.\<close>

definition diagFormat :: "Diagnostic \<Rightarrow> string" where
  "diagFormat d =
    (let sev_str = (if d_severity d = Error then ''error'' else ''warning'');
         result = d_filename d @ '':'' @ to_string (d_line d) @ '':'' @ to_string (d_col d) @
                  '': '' @ sev_str @ '': '' @ d_message d;
         result = (if d_source_line d \<noteq> [] then
                     (let nspaces = (if d_col d > 1 then d_col d - 1 else 0)
                      in result @ [LF] @ d_source_line d @ [LF] @ replicate (nat nspaces) SPACE @ ''^'')
                   else result);
         result = (if d_hint d \<noteq> [] then result @ [LF] @ ''hint: '' @ d_hint d else result)
     in result)"

text \<open>
  \<^verbatim>\<open>what()\<close> returns the string that \<^verbatim>\<open>buildWhat\<close> stored at construction; no field is assigned
  afterwards in the front end, so it is the format of the record.
\<close>

definition diagWhat :: "Diagnostic \<Rightarrow> string" where
  "diagWhat d = diagFormat d"

text \<open>The constructor shared by \<^verbatim>\<open>LexError\<close> and \<^verbatim>\<open>ParseError\<close>, with its default arguments.\<close>

definition mkLexError :: "string \<Rightarrow> string \<Rightarrow> int \<Rightarrow> int \<Rightarrow> Diagnostic" where
  "mkLexError msg file ln col =
     \<lparr>d_severity = Error, d_message = msg, d_hint = '''', d_filename = file, d_line = ln, d_col = col,
      d_endLine = 0, d_endCol = 0, d_source_line = ''''\<rparr>"

definition mkParseError :: "string \<Rightarrow> string \<Rightarrow> int \<Rightarrow> int \<Rightarrow> Diagnostic" where
  "mkParseError msg file ln col =
     \<lparr>d_severity = Error, d_message = msg, d_hint = '''', d_filename = file, d_line = ln, d_col = col,
      d_endLine = 0, d_endCol = 0, d_source_line = ''''\<rparr>"

text \<open>
  The exceptions a lexer run can throw, by dynamic type: \<^verbatim>\<open>IndentationError\<close> is a subclass of
  \<^verbatim>\<open>LexError\<close> and \<^verbatim>\<open>tokenize\<close> catches it first.
\<close>

datatype lex_exn = LexError Diagnostic | IndentationError Diagnostic

fun lexDiag :: "lex_exn \<Rightarrow> Diagnostic" where
  "lexDiag (LexError d) = d"
| "lexDiag (IndentationError d) = d"

lemma mkLexError_sel [simp]:
  "d_line (mkLexError msg file ln col) = ln"
  "d_col (mkLexError msg file ln col) = col"
  "d_message (mkLexError msg file ln col) = msg"
  "d_filename (mkLexError msg file ln col) = file"
  "d_severity (mkLexError msg file ln col) = Error"
  by (simp_all add: mkLexError_def)

lemma mkParseError_sel [simp]:
  "d_line (mkParseError msg file ln col) = ln"
  "d_col (mkParseError msg file ln col) = col"
  "d_message (mkParseError msg file ln col) = msg"
  by (simp_all add: mkParseError_def)

text \<open>
  The plain rendering, which every lexer and parser error has: it determines the caret line only
  through the source line, and begins with the position an editor jumps to.
\<close>

lemma diagFormat_plain:
  "diagFormat (mkLexError msg file ln col) =
     file @ '':'' @ to_string ln @ '':'' @ to_string col @ '': error: '' @ msg"
  by (simp add: diagFormat_def mkLexError_def)

end
