(* ===== verification/Tokens.thy ===== *)
theory Tokens
  imports Diagnostics
begin

text \<open>
  Tokens (\<^verbatim>\<open>include/token.h\<close>): the enumeration of everything the lexer can produce,
  the token structure, and the printable names behind the \<^verbatim>\<open>--tokens\<close> flag.
\<close>

section \<open>Token types\<close>

datatype (plugins only: size) TokenType =
    INT_LITERAL | FLOAT_LITERAL | STRING_LITERAL | FSTRING_LITERAL | BOOL_LITERAL | NULL_LITERAL
     | IDENTIFIER | ERROR | KW_DEFINE | KW_INIT | KW_CLASS | KW_IF | KW_ELSIF | KW_ELSE | KW_FOR
     | KW_WHILE | KW_IN | KW_RETURN | KW_BREAK | KW_CONTINUE | KW_PASS | KW_AND | KW_OR | KW_NOT
     | KW_TRUE | KW_FALSE | KW_NULL | KW_IMPORT | KW_FROM | KW_TRY | KW_CATCH | KW_FINALLY
     | KW_THROW | KW_THIS | KW_LAMBDA | KW_EXTENDS | KW_IMPLEMENTS | KW_INTERFACE | KW_SUPER
     | KW_ASSERT | KW_DEL | KW_WITH | KW_AS | KW_MATCH | KW_CASE | KW_ENUM | KW_YIELD | KW_GO
     | KW_CHAN | KW_CONST | KW_SEND | PLUS | MINUS | STAR | SLASH | DOUBLE_SLASH | PERCENT
     | DOUBLE_STAR | ASSIGN | EQ | NEQ | LT | GT | LTE | GTE | ARROW | DOT | PLUS_EQ | MINUS_EQ
     | STAR_EQ | SLASH_EQ | DOUBLE_SLASH_EQ | PERCENT_EQ | DOUBLE_STAR_EQ | AMP_EQ | PIPE_EQ
     | CARET_EQ | LSHIFT_EQ | RSHIFT_EQ | AMP | PIPE | CARET | TILDE | LSHIFT | RSHIFT | LPAREN
     | RPAREN | LBRACKET | RBRACKET | LBRACE | RBRACE | COMMA | COLON | ELLIPSIS | AT | QUESTION
     | DOUBLE_QUESTION | WALRUS | NEWLINE | INDENT | DEDENT | END_OF_FILE

section \<open>Tokens\<close>

record Token =
  tk_type :: TokenType
  tk_lexeme :: string
  tk_line :: int
  tk_column :: int

definition makeToken :: "TokenType \<Rightarrow> string \<Rightarrow> int \<Rightarrow> int \<Rightarrow> Token" where
  "makeToken t lx ln col = \<lparr>tk_type = t, tk_lexeme = lx, tk_line = ln, tk_column = col\<rparr>"

lemma makeToken_sel [simp]:
  "tk_type (makeToken t lx ln col) = t"
  "tk_lexeme (makeToken t lx ln col) = lx"
  "tk_line (makeToken t lx ln col) = ln"
  "tk_column (makeToken t lx ln col) = col"
  by (simp_all add: makeToken_def)

section \<open>Printable names\<close>

text \<open>
  The \<^verbatim>\<open>switch\<close> of the source; the last clause is its \<^verbatim>\<open>default\<close>.
\<close>

definition tokenTypeToString :: "TokenType \<Rightarrow> string" where
  "tokenTypeToString t =
    (case t of
       INT_LITERAL \<Rightarrow> ''INT_LITERAL'' | FLOAT_LITERAL \<Rightarrow> ''FLOAT_LITERAL'' | STRING_LITERAL \<Rightarrow> ''STRING_LITERAL''
     | FSTRING_LITERAL \<Rightarrow> ''FSTRING_LITERAL'' | BOOL_LITERAL \<Rightarrow> ''BOOL_LITERAL'' | NULL_LITERAL \<Rightarrow> ''NULL_LITERAL''
     | IDENTIFIER \<Rightarrow> ''IDENTIFIER'' | ERROR \<Rightarrow> ''ERROR'' | KW_DEFINE \<Rightarrow> ''KW_DEFINE''
     | KW_INIT \<Rightarrow> ''KW_INIT'' | KW_CLASS \<Rightarrow> ''KW_CLASS'' | KW_IF \<Rightarrow> ''KW_IF''
     | KW_ELSIF \<Rightarrow> ''KW_ELSIF'' | KW_ELSE \<Rightarrow> ''KW_ELSE'' | KW_FOR \<Rightarrow> ''KW_FOR''
     | KW_WHILE \<Rightarrow> ''KW_WHILE'' | KW_IN \<Rightarrow> ''KW_IN'' | KW_RETURN \<Rightarrow> ''KW_RETURN''
     | KW_BREAK \<Rightarrow> ''KW_BREAK'' | KW_CONTINUE \<Rightarrow> ''KW_CONTINUE'' | KW_PASS \<Rightarrow> ''KW_PASS''
     | KW_AND \<Rightarrow> ''KW_AND'' | KW_OR \<Rightarrow> ''KW_OR'' | KW_NOT \<Rightarrow> ''KW_NOT''
     | KW_TRUE \<Rightarrow> ''KW_TRUE'' | KW_FALSE \<Rightarrow> ''KW_FALSE'' | KW_NULL \<Rightarrow> ''KW_NULL''
     | KW_IMPORT \<Rightarrow> ''KW_IMPORT'' | KW_FROM \<Rightarrow> ''KW_FROM'' | KW_TRY \<Rightarrow> ''KW_TRY''
     | KW_CATCH \<Rightarrow> ''KW_CATCH'' | KW_FINALLY \<Rightarrow> ''KW_FINALLY'' | KW_THROW \<Rightarrow> ''KW_THROW''
     | KW_THIS \<Rightarrow> ''KW_THIS'' | KW_LAMBDA \<Rightarrow> ''KW_LAMBDA'' | KW_EXTENDS \<Rightarrow> ''KW_EXTENDS''
     | KW_IMPLEMENTS \<Rightarrow> ''KW_IMPLEMENTS'' | KW_INTERFACE \<Rightarrow> ''KW_INTERFACE'' | KW_SUPER \<Rightarrow> ''KW_SUPER''
     | KW_ASSERT \<Rightarrow> ''KW_ASSERT'' | KW_DEL \<Rightarrow> ''KW_DEL'' | KW_WITH \<Rightarrow> ''KW_WITH''
     | KW_AS \<Rightarrow> ''KW_AS'' | KW_MATCH \<Rightarrow> ''KW_MATCH'' | KW_CASE \<Rightarrow> ''KW_CASE''
     | KW_ENUM \<Rightarrow> ''KW_ENUM'' | KW_YIELD \<Rightarrow> ''KW_YIELD'' | KW_GO \<Rightarrow> ''KW_GO''
     | KW_CHAN \<Rightarrow> ''KW_CHAN'' | KW_CONST \<Rightarrow> ''KW_CONST'' | KW_SEND \<Rightarrow> ''KW_SEND''
     | PLUS \<Rightarrow> ''PLUS'' | MINUS \<Rightarrow> ''MINUS'' | STAR \<Rightarrow> ''STAR''
     | SLASH \<Rightarrow> ''SLASH'' | DOUBLE_SLASH \<Rightarrow> ''DOUBLE_SLASH'' | PERCENT \<Rightarrow> ''PERCENT''
     | DOUBLE_STAR \<Rightarrow> ''DOUBLE_STAR'' | ASSIGN \<Rightarrow> ''ASSIGN'' | EQ \<Rightarrow> ''EQ''
     | NEQ \<Rightarrow> ''NEQ'' | LT \<Rightarrow> ''LT'' | GT \<Rightarrow> ''GT''
     | LTE \<Rightarrow> ''LTE'' | GTE \<Rightarrow> ''GTE'' | ARROW \<Rightarrow> ''ARROW''
     | DOT \<Rightarrow> ''DOT'' | PLUS_EQ \<Rightarrow> ''PLUS_EQ'' | MINUS_EQ \<Rightarrow> ''MINUS_EQ''
     | STAR_EQ \<Rightarrow> ''STAR_EQ'' | SLASH_EQ \<Rightarrow> ''SLASH_EQ'' | DOUBLE_SLASH_EQ \<Rightarrow> ''DOUBLE_SLASH_EQ''
     | PERCENT_EQ \<Rightarrow> ''PERCENT_EQ'' | DOUBLE_STAR_EQ \<Rightarrow> ''DOUBLE_STAR_EQ'' | AMP_EQ \<Rightarrow> ''AMP_EQ''
     | PIPE_EQ \<Rightarrow> ''PIPE_EQ'' | CARET_EQ \<Rightarrow> ''CARET_EQ'' | LSHIFT_EQ \<Rightarrow> ''LSHIFT_EQ''
     | RSHIFT_EQ \<Rightarrow> ''RSHIFT_EQ'' | AMP \<Rightarrow> ''AMP'' | PIPE \<Rightarrow> ''PIPE''
     | CARET \<Rightarrow> ''CARET'' | TILDE \<Rightarrow> ''TILDE'' | LSHIFT \<Rightarrow> ''LSHIFT''
     | RSHIFT \<Rightarrow> ''RSHIFT'' | LPAREN \<Rightarrow> ''LPAREN'' | RPAREN \<Rightarrow> ''RPAREN''
     | LBRACKET \<Rightarrow> ''LBRACKET'' | RBRACKET \<Rightarrow> ''RBRACKET'' | LBRACE \<Rightarrow> ''LBRACE''
     | RBRACE \<Rightarrow> ''RBRACE'' | COMMA \<Rightarrow> ''COMMA'' | COLON \<Rightarrow> ''COLON''
     | ELLIPSIS \<Rightarrow> ''ELLIPSIS'' | AT \<Rightarrow> ''AT'' | QUESTION \<Rightarrow> ''QUESTION''
     | NEWLINE \<Rightarrow> ''NEWLINE'' | INDENT \<Rightarrow> ''INDENT'' | DEDENT \<Rightarrow> ''DEDENT''
     | END_OF_FILE \<Rightarrow> ''END_OF_FILE''
     | _ \<Rightarrow> ''UNKNOWN'')"

definition tokenTypeName :: "TokenType \<Rightarrow> string" where
  "tokenTypeName t = tokenTypeToString t"

definition tokenToString :: "Token \<Rightarrow> string" where
  "tokenToString tok =
     tokenTypeToString (tk_type tok) @ '' '' @ [SQUOTE] @ tk_lexeme tok @ [SQUOTE] @ '' '' @
     to_string (tk_line tok) @ '':'' @ to_string (tk_column tok)"

end
