(* ===== verification/Cursor.thy ===== *)
theory Cursor
  imports Vsl_Prelude
begin

text \<open>
  The interface of a scanner's cursor. The hand-written scanners of the compiler never touch their
  input but through three operations: the current offset, the end test and the step to the next
  element. \<open>scans\<close> relates a state to those it reaches by guarded steps; the locale states the laws
  the three operations promise and proves, once, what every scanning routine then keeps: it never
  moves backwards, never leaves the input, and always reaches its next state by a determined number
  of steps. The lexer interprets it on its own \<^verbatim>\<open>isAtEnd\<close> and \<^verbatim>\<open>advance\<close>.
\<close>

inductive scans :: "('s \<Rightarrow> bool) \<Rightarrow> ('s \<Rightarrow> 's) \<Rightarrow> 's \<Rightarrow> 's \<Rightarrow> bool"
  for at_end :: "'s \<Rightarrow> bool" and adv :: "'s \<Rightarrow> 's" where
  scans_refl: "scans at_end adv s s"
| scans_step: "scans at_end adv s t \<Longrightarrow> \<not> at_end t \<Longrightarrow> scans at_end adv s (adv t)"

lemma scans_once: "\<not> at_end s \<Longrightarrow> scans at_end adv s (adv s)"
  by (rule scans_step [OF scans_refl])

lemma scans_trans:
  assumes "scans at_end adv s t" and "scans at_end adv t u"
  shows "scans at_end adv s u"
  using assms(2,1) by (induction) (auto intro: scans.intros)

lemma scans_stepI: "\<not> at_end s \<Longrightarrow> scans at_end adv (adv s) t \<Longrightarrow> scans at_end adv s t"
  by (blast intro: scans_trans scans_once)

text \<open>What one guarded step keeps, every scan keeps.\<close>

lemma scans_invariant:
  assumes "scans at_end adv s t" and "P s" and "\<And>u. P u \<Longrightarrow> \<not> at_end u \<Longrightarrow> P (adv u)"
  shows "P t"
  using assms(1,2) by induction (auto intro: assms(3))

locale cursor =
  fixes off :: "'s \<Rightarrow> nat"
    and len :: "'s \<Rightarrow> nat"
    and at_end :: "'s \<Rightarrow> bool"
    and adv :: "'s \<Rightarrow> 's"
  assumes at_end_iff: "at_end s \<longleftrightarrow> len s \<le> off s"
    and off_adv: "\<not> at_end s \<Longrightarrow> off (adv s) = Suc (off s)"
    and len_adv: "len (adv s) = len s"
begin

lemma scans_len: "scans at_end adv s t \<Longrightarrow> len t = len s"
  by (induction rule: scans.induct) (simp_all add: len_adv)

lemma scans_off: "scans at_end adv s t \<Longrightarrow> off s \<le> off t"
  by (induction rule: scans.induct) (auto simp: off_adv)

lemma scans_in_bounds: "scans at_end adv s t \<Longrightarrow> off s \<le> len s \<Longrightarrow> off t \<le> len s"
proof (induction rule: scans.induct)
  case scans_refl
  then show ?case by simp
next
  case (scans_step s t)
  have "off t < len t" using scans_step.hyps(2) by (simp add: at_end_iff)
  then show ?case
    using scans_step scans_len [OF scans_step.hyps(1)] by (simp add: off_adv)
qed

lemma scans_funpow: "scans at_end adv s t \<Longrightarrow> t = (adv ^^ (off t - off s)) s"
proof (induction rule: scans.induct)
  case scans_refl
  then show ?case by simp
next
  case (scans_step s t)
  then have "off (adv t) - off s = Suc (off t - off s)"
    using scans_off [of s t] by (auto simp: off_adv)
  with scans_step show ?case by simp
qed

text \<open>Two scans from one state that stop at the same offset have reached the same state.\<close>

lemma scans_determined:
  "scans at_end adv s t \<Longrightarrow> scans at_end adv s u \<Longrightarrow> off t = off u \<Longrightarrow> t = u"
  using scans_funpow by metis

lemma scans_remaining: "scans at_end adv s t \<Longrightarrow> len t - off t \<le> len s - off s"
  using scans_off scans_len by (metis diff_le_mono2)

lemma remaining_adv: "\<not> at_end s \<Longrightarrow> len (adv s) - off (adv s) < len s - off s"
  by (simp add: off_adv len_adv at_end_iff)

lemma scans_adv_off: "\<not> at_end s \<Longrightarrow> scans at_end adv (adv s) t \<Longrightarrow> off s < off t"
  using scans_off [of "adv s" t] by (simp add: off_adv)

end

end
