(* ===== verification/Lexer.thy ===== *)
theory Lexer
  imports Tokens Cursor
begin

text \<open>
  The lexer (\<^verbatim>\<open>include/lexer.h\<close>, \<^verbatim>\<open>src/lexer.cpp\<close>), operation by operation. A \<^verbatim>\<open>Lexer\<close> object is a
  record passed along explicitly; an operation that can throw returns the exception or its value
  together with the state the object is left in, since \<^verbatim>\<open>tokenize\<close> catches exceptions and goes on
  from there. The cursor is a byte offset into the source, as in the code.
\<close>

section \<open>The lexer object\<close>

record Lexer =
  lx_source :: string
  lx_filename :: string
  lx_pos :: nat
  lx_line :: int
  lx_column :: int
  lx_atLineStart :: bool
  lx_indentStack :: "int list"
  lx_errors :: "Diagnostic list"

subsection \<open>The keyword table\<close>

definition keywordTable :: "(string \<times> TokenType) list" where
  "keywordTable =
    [(''define'', KW_DEFINE), (''init'', KW_INIT), (''class'', KW_CLASS), (''if'', KW_IF),
     (''elsif'', KW_ELSIF), (''else'', KW_ELSE), (''for'', KW_FOR), (''while'', KW_WHILE),
     (''in'', KW_IN), (''return'', KW_RETURN), (''break'', KW_BREAK), (''continue'', KW_CONTINUE),
     (''pass'', KW_PASS), (''and'', KW_AND), (''or'', KW_OR), (''not'', KW_NOT),
     (''true'', KW_TRUE), (''false'', KW_FALSE), (''null'', KW_NULL), (''import'', KW_IMPORT),
     (''from'', KW_FROM), (''try'', KW_TRY), (''catch'', KW_CATCH), (''finally'', KW_FINALLY),
     (''throw'', KW_THROW), (''this'', KW_THIS), (''extends'', KW_EXTENDS),
     (''implements'', KW_IMPLEMENTS), (''interface'', KW_INTERFACE), (''super'', KW_SUPER),
     (''assert'', KW_ASSERT), (''del'', KW_DEL), (''with'', KW_WITH), (''as'', KW_AS),
     (''match'', KW_MATCH), (''case'', KW_CASE), (''enum'', KW_ENUM), (''yield'', KW_YIELD),
     (''go'', KW_GO), (''chan'', KW_CHAN), (''const'', KW_CONST)]"

subsection \<open>Normalisation of the leading whitespace\<close>

text \<open>
  The loop of \<^verbatim>\<open>normalizeIndentation\<close> over the characters, with its two local variables
  \<^verbatim>\<open>atLineStart\<close> and \<^verbatim>\<open>spaces\<close> as arguments; what it appends to \<^verbatim>\<open>result\<close> is what the equation
  puts in front of the recursive call.
\<close>

fun normLoop :: "bool \<Rightarrow> nat \<Rightarrow> string \<Rightarrow> string" where
  "normLoop als sp [] = []"
| "normLoop als sp (c # cs) =
    (if als then
       if c = SPACE then
         (if Suc sp = 4 then TAB # normLoop True 0 cs else normLoop True (Suc sp) cs)
       else if c = TAB then
         (if sp > 0 then (if sp \<le> 2 then replicate sp SPACE else [TAB]) else []) @
         TAB # normLoop True 0 cs
       else
         (if sp > 0 then [TAB] else []) @ c # normLoop False 0 cs
     else if c = LF then c # normLoop True 0 cs
     else c # normLoop False sp cs)"

definition normalizeIndentation :: "string \<Rightarrow> string" where
  "normalizeIndentation source = normLoop True 0 source"

definition mkLexer :: "string \<Rightarrow> string \<Rightarrow> Lexer" where
  "mkLexer source filename =
     \<lparr>lx_source = normalizeIndentation source, lx_filename = filename, lx_pos = 0, lx_line = 1,
      lx_column = 1, lx_atLineStart = True, lx_indentStack = [0], lx_errors = []\<rparr>"

subsection \<open>Character-level helpers\<close>

definition isAtEnd :: "Lexer \<Rightarrow> bool" where
  "isAtEnd l \<longleftrightarrow> length (lx_source l) \<le> lx_pos l"

definition peek :: "Lexer \<Rightarrow> char" where
  "peek l = (if isAtEnd l then NUL else lx_source l ! lx_pos l)"

definition peekNext :: "Lexer \<Rightarrow> char" where
  "peekNext l =
     (if length (lx_source l) \<le> lx_pos l + 1 then NUL else lx_source l ! (lx_pos l + 1))"

text \<open>
  \<^verbatim>\<open>advance\<close>, split into the state it leaves and the character it returns. Every call in the code is
  guarded by the end test (explicitly or through a \<^verbatim>\<open>peek\<close> that compared unequal to NUL).
\<close>

definition adv :: "Lexer \<Rightarrow> Lexer" where
  "adv l =
     (let c = peek l; l = l\<lparr>lx_pos := lx_pos l + 1\<rparr>
      in if c = LF then l\<lparr>lx_line := lx_line l + 1, lx_column := 1\<rparr>
         else l\<lparr>lx_column := lx_column l + 1\<rparr>)"

definition advance :: "Lexer \<Rightarrow> char \<times> Lexer" where
  "advance l = (peek l, adv l)"

definition matches :: "char \<Rightarrow> Lexer \<Rightarrow> bool" where
  "matches expected l \<longleftrightarrow> \<not> isAtEnd l \<and> lx_source l ! lx_pos l = expected"

text \<open>\<^verbatim>\<open>if (match(e)) yes; no\<close>: the test consumes the character when it succeeds.\<close>

definition ifMatch :: "char \<Rightarrow> (Lexer \<Rightarrow> 'a) \<Rightarrow> (Lexer \<Rightarrow> 'a) \<Rightarrow> Lexer \<Rightarrow> 'a" where
  "ifMatch e yes no l = (if matches e l then yes (adv l) else no l)"

definition errorAt :: "string \<Rightarrow> int \<Rightarrow> int \<Rightarrow> Lexer \<Rightarrow> (lex_exn + 'a) \<times> Lexer" where
  "errorAt msg ln col l = (Inl (LexError (mkLexError msg (lx_filename l) ln col)), l)"

definition error :: "string \<Rightarrow> Lexer \<Rightarrow> (lex_exn + 'a) \<times> Lexer" where
  "error msg l = errorAt msg (lx_line l) (lx_column l) l"

text \<open>Sequencing of operations that may throw.\<close>

definition bindL :: "(lex_exn + 'a) \<times> Lexer \<Rightarrow> ('a \<Rightarrow> Lexer \<Rightarrow> (lex_exn + 'b) \<times> Lexer) \<Rightarrow>
    (lex_exn + 'b) \<times> Lexer" where
  "bindL r f = (case r of (Inl e, l) \<Rightarrow> (Inl e, l) | (Inr x, l) \<Rightarrow> f x l)"

lemma bindL_simps [simp]:
  "bindL (Inl e, l) f = (Inl e, l)"
  "bindL (Inr x, l) f = f x l"
  by (simp_all add: bindL_def)

subsection \<open>The cursor laws\<close>

abbreviation lscans :: "Lexer \<Rightarrow> Lexer \<Rightarrow> bool" where
  "lscans \<equiv> scans isAtEnd adv"

lemma adv_sel [simp, lex_frame]:
  "lx_source (adv l) = lx_source l"
  "lx_filename (adv l) = lx_filename l"
  "lx_atLineStart (adv l) = lx_atLineStart l"
  "lx_indentStack (adv l) = lx_indentStack l"
  "lx_errors (adv l) = lx_errors l"
  "lx_pos (adv l) = Suc (lx_pos l)"
  by (simp_all add: adv_def Let_def)

interpretation lexcur: cursor lx_pos "\<lambda>l. length (lx_source l)" isAtEnd adv
  by unfold_locales (simp_all add: isAtEnd_def)

lemma lscans_frame [lex_frame]:
  assumes "lscans l l'"
  shows "lx_source l' = lx_source l" "lx_filename l' = lx_filename l"
    "lx_atLineStart l' = lx_atLineStart l" "lx_indentStack l' = lx_indentStack l"
    "lx_errors l' = lx_errors l"
  using assms by (induction rule: scans.induct) simp_all

subsection \<open>Scanning loops\<close>

text \<open>\<^verbatim>\<open>while (!isAtEnd() && p(peek())) advance();\<close>\<close>

function skipWhile :: "(char \<Rightarrow> bool) \<Rightarrow> Lexer \<Rightarrow> Lexer" where
  "skipWhile p l = (if \<not> isAtEnd l \<and> p (peek l) then skipWhile p (adv l) else l)"
  by pat_completeness auto
termination
  by (relation "measure (\<lambda>(p, l). length (lx_source l) - lx_pos l)")
    (auto intro!: lexcur.remaining_adv [simplified])

text \<open>\<^verbatim>\<open>while (!isAtEnd() && p(peek())) value += advance();\<close>\<close>

function collectWhile :: "(char \<Rightarrow> bool) \<Rightarrow> string \<Rightarrow> Lexer \<Rightarrow> string \<times> Lexer" where
  "collectWhile p value l =
    (if \<not> isAtEnd l \<and> p (peek l) then
       (case advance l of (c, l) \<Rightarrow> collectWhile p (value @ [c]) l)
     else (value, l))"
  by pat_completeness auto
termination
  by (relation "measure (\<lambda>(p, v, l). length (lx_source l) - lx_pos l)")
    (auto simp: advance_def intro!: lexcur.remaining_adv [simplified])

declare skipWhile.simps [simp del] collectWhile.simps [simp del]

lemma skipWhile_scans: "lscans l (skipWhile p l)"
proof (induction p l rule: skipWhile.induct)
  case (1 p l)
  then show ?case
    by (subst skipWhile.simps) (auto intro: scans_refl scans_stepI)
qed

lemma collectWhile_scans: "lscans l (snd (collectWhile p v l))"
proof (induction p v l rule: collectWhile.induct)
  case (1 p v l)
  then show ?case
    by (subst collectWhile.simps) (auto simp: advance_def intro: scans_refl scans_stepI)
qed

text \<open>
  Composition: an operation that scans, followed by one that scans from where it stopped. The facts
  about every routine below are collected in \<open>lex_pos\<close>.
\<close>

lemma errorAt_snd [simp]: "snd (errorAt msg ln col l) = l" "snd (error msg l) = l"
  by (simp_all add: error_def errorAt_def)

lemma bindL_scans:
  assumes "lscans l (snd r)"
    and "\<And>x l'. lscans l l' \<Longrightarrow> r = (Inr x, l') \<Longrightarrow> lscans l' (snd (f x l'))"
  shows "lscans l (snd (bindL r f))"
proof (cases r)
  case (Pair y l')
  then show ?thesis
    using assms by (cases y) (auto intro: scans_trans)
qed

subsection \<open>Whitespace and comments\<close>

definition skipWhitespace :: "Lexer \<Rightarrow> Lexer" where
  "skipWhitespace l = skipWhile (\<lambda>c. c = SPACE \<or> c = TAB \<or> c = CR) l"

definition skipSingleLineComment :: "Lexer \<Rightarrow> Lexer" where
  "skipSingleLineComment l = skipWhile (\<lambda>c. c \<noteq> LF) l"

text \<open>
  The test for the closing marker looks three bytes ahead, and the marker ends the comment at its
  first occurrence.
\<close>

definition atCloseMarker :: "Lexer \<Rightarrow> bool" where
  "atCloseMarker l \<longleftrightarrow>
     peek l = HASH \<and> peekNext l = HASH \<and> lx_pos l + 2 < length (lx_source l) \<and>
     lx_source l ! (lx_pos l + 2) = HASH"

function skipToClose :: "Lexer \<Rightarrow> bool \<times> Lexer" where
  "skipToClose l =
    (if isAtEnd l then (False, l)
     else if atCloseMarker l then (True, adv (adv (adv l)))
     else skipToClose (adv l))"
  by pat_completeness auto
termination
  by (relation "measure (\<lambda>l. length (lx_source l) - lx_pos l)")
    (auto intro!: lexcur.remaining_adv [simplified])

declare skipToClose.simps [simp del]

definition skipMultiLineComment :: "Lexer \<Rightarrow> (lex_exn + unit) \<times> Lexer" where
  "skipMultiLineComment l =
    (let startLine = lx_line l; startCol = lx_column l - 3
     in case skipToClose l of
          (True, l) \<Rightarrow> (Inr (), l)
        | (False, l) \<Rightarrow> errorAt ''Unterminated multi-line comment'' startLine startCol l)"

subsection \<open>Indentation\<close>

text \<open>The loop that counts the leading tabs and throws at a space.\<close>

function countTabs :: "int \<Rightarrow> Lexer \<Rightarrow> (lex_exn + int) \<times> Lexer" where
  "countTabs n l =
    (if \<not> isAtEnd l \<and> (peek l = TAB \<or> peek l = SPACE) then
       (if peek l = SPACE then
          (Inl (IndentationError (mkLexError ''Visuall uses tabs for indentation, not spaces''
             (lx_filename l) (lx_line l) (lx_column l))), l)
        else countTabs (n + 1) (adv l))
     else (Inr n, l))"
  by pat_completeness auto
termination
  by (relation "measure (\<lambda>(n, l). length (lx_source l) - lx_pos l)")
    (auto intro!: lexcur.remaining_adv [simplified])

declare countTabs.simps [simp del]

text \<open>
  The loop that pops the levels deeper than the new one, one DEDENT token per pop. \<^verbatim>\<open>top()\<close> of an empty
  stack is undefined in C++; the stack always keeps the level 0 at its bottom (\<open>stack_ok\<close> below), so
  the first equation is never used.
\<close>

fun popDeeper :: "int \<Rightarrow> Token \<Rightarrow> int list \<Rightarrow> Token list \<Rightarrow> int list \<times> Token list" where
  "popDeeper tabCount tok [] tokens = ([], tokens)"
| "popDeeper tabCount tok (lvl # stack) tokens =
    (if tabCount < lvl then popDeeper tabCount tok stack (tokens @ [tok])
     else (lvl # stack, tokens))"

definition handleIndentation :: "Lexer \<Rightarrow> Token list \<Rightarrow> (lex_exn + unit) \<times> Lexer \<times> Token list" where
  "handleIndentation l tokens =
    (let indentStartLine = lx_line l; indentStartCol = lx_column l
     in case countTabs 0 l of
          (Inl e, l) \<Rightarrow> (Inl e, l, tokens)
        | (Inr tabCount, l) \<Rightarrow>
            if isAtEnd l \<or> peek l = LF then (Inr (), l, tokens)
            else if peek l = HASH then (Inr (), l, tokens)
            else
              (let currentIndent = hd (lx_indentStack l)
               in if tabCount > currentIndent then
                    (Inr (), l\<lparr>lx_indentStack := tabCount # lx_indentStack l\<rparr>,
                     tokens @ [makeToken INDENT ''<INDENT>'' indentStartLine indentStartCol])
                  else if tabCount < currentIndent then
                    (case popDeeper tabCount
                            (makeToken DEDENT ''<DEDENT>'' indentStartLine indentStartCol)
                            (lx_indentStack l) tokens of
                       (stack, tokens) \<Rightarrow>
                         (let l = l\<lparr>lx_indentStack := stack\<rparr>
                          in if tabCount \<noteq> hd stack then
                               (case errorAt ''inconsistent indentation level''
                                       indentStartLine indentStartCol l of
                                  (r, l) \<Rightarrow> (r, l, tokens))
                             else (Inr (), l, tokens)))
                  else (Inr (), l, tokens)))"

subsection \<open>String literals\<close>

text \<open>Encoding of a code point as UTF-8; \<^verbatim>\<open>static_cast<char>\<close> keeps the low byte.\<close>

definition byte :: "nat \<Rightarrow> char" where
  "byte n = char_of n"

text \<open>The branches of the \<^verbatim>\<open>\\u\<close> escape.\<close>

definition encodeBMP :: "nat \<Rightarrow> string" where
  "encodeBMP c =
    (if c \<le> 0x7F then [byte c]
     else if c \<le> 0x7FF then
       [byte (or 0xC0 (drop_bit 6 c)), byte (or 0x80 (and c 0x3F))]
     else
       [byte (or 0xE0 (drop_bit 12 c)), byte (or 0x80 (and (drop_bit 6 c) 0x3F)),
        byte (or 0x80 (and c 0x3F))])"

text \<open>The branches of the \<^verbatim>\<open>\\U\<close> escape.\<close>

definition encodeUtf8 :: "nat \<Rightarrow> string" where
  "encodeUtf8 c =
    (if c \<le> 0x7F then [byte c]
     else if c \<le> 0x7FF then
       [byte (or 0xC0 (drop_bit 6 c)), byte (or 0x80 (and c 0x3F))]
     else if c \<le> 0xFFFF then
       [byte (or 0xE0 (drop_bit 12 c)), byte (or 0x80 (and (drop_bit 6 c) 0x3F)),
        byte (or 0x80 (and c 0x3F))]
     else
       [byte (or 0xF0 (drop_bit 18 c)), byte (or 0x80 (and (drop_bit 12 c) 0x3F)),
        byte (or 0x80 (and (drop_bit 6 c) 0x3F)), byte (or 0x80 (and c 0x3F))])"

text \<open>At most \<open>n\<close> hexadecimal digits (the \<^verbatim>\<open>\\x\<close> escape), and exactly \<open>n\<close> of them.\<close>

fun hexUpTo :: "nat \<Rightarrow> string \<Rightarrow> Lexer \<Rightarrow> string \<times> Lexer" where
  "hexUpTo 0 hex l = (hex, l)"
| "hexUpTo (Suc n) hex l =
    (if \<not> isAtEnd l \<and> isxdigit (peek l) then
       (case advance l of (c, l) \<Rightarrow> hexUpTo n (hex @ [c]) l)
     else (hex, l))"

fun hexExactly :: "nat \<Rightarrow> string \<Rightarrow> string \<Rightarrow> Lexer \<Rightarrow> (lex_exn + string) \<times> Lexer" where
  "hexExactly 0 msg hex l = (Inr hex, l)"
| "hexExactly (Suc n) msg hex l =
    (if isAtEnd l \<or> \<not> isxdigit (peek l) then error msg l
     else (case advance l of (c, l) \<Rightarrow> hexExactly n msg (hex @ [c]) l))"

definition surrogate :: "nat \<Rightarrow> bool" where
  "surrogate c \<longleftrightarrow> 0xD800 \<le> c \<and> c \<le> 0xDFFF"

definition surrogateMsg :: "nat \<Rightarrow> string" where
  "surrogateMsg c = ''invalid unicode escape: surrogate codepoint U+'' @ to_string (int c) @
     '' is not a valid character''"

definition escapeX :: "Lexer \<Rightarrow> (lex_exn + string) \<times> Lexer" where
  "escapeX l =
    (case hexUpTo 2 [] l of (hex, l) \<Rightarrow>
       if hex = [] then
         error (''malformed hex escape: expected hex digit(s) after '' @ [BACKSLASH] @ ''x'') l
       else (Inr [byte (strtoul16 hex)], l))"

definition escapeu :: "Lexer \<Rightarrow> (lex_exn + string) \<times> Lexer" where
  "escapeu l =
    bindL (hexExactly 4
        (''malformed unicode escape: expected 4 hex digits after '' @ [BACKSLASH] @ ''u'') [] l)
      (\<lambda>hex l. let c = strtoul16 hex
               in if surrogate c then error (surrogateMsg c) l
                  else (Inr (encodeBMP c), l))"

definition escapeU :: "Lexer \<Rightarrow> (lex_exn + string) \<times> Lexer" where
  "escapeU l =
    bindL (hexExactly 8
        (''malformed unicode escape: expected 8 hex digits after '' @ [BACKSLASH] @ ''U'') [] l)
      (\<lambda>hex l. let c = strtoul16 hex
               in if c > 0x10FFFF then
                    error (''invalid unicode escape: codepoint U+'' @ to_string (int c) @
                           '' exceeds U+10FFFF'') l
                  else if surrogate c then error (surrogateMsg c) l
                  else (Inr (encodeUtf8 c), l))"

text \<open>
  The \<^verbatim>\<open>switch\<close> on the character after the backslash: what it appends to the value.
\<close>

definition escapeChar :: "char \<Rightarrow> Lexer \<Rightarrow> (lex_exn + string) \<times> Lexer" where
  "escapeChar esc l =
    (if esc = CHR ''n'' then (Inr [LF], l)
     else if esc = CHR ''t'' then (Inr [TAB], l)
     else if esc = CHR ''r'' then (Inr [CR], l)
     else if esc = BACKSLASH then (Inr [BACKSLASH], l)
     else if esc = SQUOTE then (Inr [SQUOTE], l)
     else if esc = DQUOTE then (Inr [DQUOTE], l)
     else if esc = CHR ''0'' then (Inr [NUL], l)
     else if esc = CHR ''a'' then (Inr [CHR 0x07], l)
     else if esc = CHR ''b'' then (Inr [CHR 0x08], l)
     else if esc = CHR ''f'' then (Inr [CHR 0x0C], l)
     else if esc = CHR ''v'' then (Inr [CHR 0x0B], l)
     else if esc = CHR ''e'' then (Inr [CHR 0x1B], l)
     else if esc = CHR ''x'' then escapeX l
     else if esc = CHR ''u'' then escapeu l
     else if esc = CHR ''U'' then escapeU l
     else (Inr [BACKSLASH, esc], l))"

lemma hexUpTo_scans: "lscans l (snd (hexUpTo n hex l))"
  by (induction n hex l rule: hexUpTo.induct)
    (auto simp: advance_def intro: scans_refl scans_stepI)

lemma hexExactly_scans: "lscans l (snd (hexExactly n msg hex l))"
  by (induction n msg hex l rule: hexExactly.induct)
    (auto simp: advance_def error_def errorAt_def intro: scans_refl scans_stepI)

lemma escapeChar_scans: "lscans l (snd (escapeChar esc l))"
proof -
  have x: "lscans l (snd (escapeX l))"
    using hexUpTo_scans [of l 2 "[]"]
    by (auto simp: escapeX_def error_def errorAt_def split: prod.splits)
  have u: "lscans l (snd (escapeu l))"
    unfolding escapeu_def by (rule bindL_scans) (simp_all add: hexExactly_scans Let_def scans_refl)
  have U: "lscans l (snd (escapeU l))"
    unfolding escapeU_def by (rule bindL_scans) (simp_all add: hexExactly_scans Let_def scans_refl)
  show ?thesis
    using x u U by (simp add: escapeChar_def scans_refl)
qed

text \<open>The bytes left after a routine that scans from the next character are fewer.\<close>

lemma remaining_scans:
  assumes "\<not> isAtEnd l" and "lscans (adv l) l'"
  shows "length (lx_source l') - lx_pos l' < length (lx_source l) - lx_pos l"
  using lexcur.scans_remaining [OF assms(2)] lexcur.remaining_adv [OF assms(1)] by linarith

lemma remaining_escape:
  assumes "(x, l') = escapeChar esc (adv (adv l))" and "\<not> isAtEnd l" and "\<not> isAtEnd (adv l)"
  shows "length (lx_source l') - lx_pos l' < length (lx_source l) - lx_pos l"
proof (rule remaining_scans [OF assms(2)])
  have "lscans (adv (adv l)) l'"
    using escapeChar_scans [of "adv (adv l)" esc] assms(1) by (metis snd_conv)
  then show "lscans (adv l) l'" using assms(3) by (rule scans_stepI [rotated])
qed

function lexStringLoop :: "char \<Rightarrow> int \<Rightarrow> int \<Rightarrow> string \<Rightarrow> Lexer \<Rightarrow> (lex_exn + string) \<times> Lexer" where
  "lexStringLoop delimiter startLine startCol value l =
    (if \<not> isAtEnd l \<and> peek l \<noteq> delimiter then
       if peek l = LF then errorAt ''Unterminated string literal'' startLine startCol l
       else if peek l = BACKSLASH then
         (let l = adv l
          in if isAtEnd l then errorAt ''Unterminated string literal'' startLine startCol l
             else (case advance l of (esc, l) \<Rightarrow>
                    (case escapeChar esc l of
                       (Inl e, l) \<Rightarrow> (Inl e, l)
                     | (Inr cs, l) \<Rightarrow>
                         lexStringLoop delimiter startLine startCol (value @ cs) l)))
       else (case advance l of (c, l) \<Rightarrow>
              lexStringLoop delimiter startLine startCol (value @ [c]) l)
     else (Inr value, l))"
  by pat_completeness auto
termination
  by (relation "measure (\<lambda>(d, sl, sc, v, l). length (lx_source l) - lx_pos l)")
    (auto simp: advance_def dest: remaining_escape, auto simp: isAtEnd_def)

declare lexStringLoop.simps [simp del]

definition lexString :: "char \<Rightarrow> Lexer \<Rightarrow> (lex_exn + Token) \<times> Lexer" where
  "lexString delimiter l =
    (let startLine = lx_line l; startCol = lx_column l - 1
     in bindL (lexStringLoop delimiter startLine startCol [] l)
          (\<lambda>value l. if isAtEnd l then errorAt ''Unterminated string literal'' startLine startCol l
                     else (Inr (makeToken STRING_LITERAL value startLine startCol), adv l)))"

subsection \<open>F-string literals\<close>

text \<open>The inner loop, up to the closing brace, and the outer loop, up to the delimiter.\<close>

function braceLoop :: "char \<Rightarrow> int \<Rightarrow> int \<Rightarrow> string \<Rightarrow> Lexer \<Rightarrow> (lex_exn + string) \<times> Lexer" where
  "braceLoop delimiter braceLine braceCol raw l =
    (if \<not> isAtEnd l \<and> peek l \<noteq> RCURLY then
       if peek l = LF \<or> peek l = delimiter then
         errorAt (''Unclosed '' @ [SQUOTE, LCURLY, SQUOTE] @ '' in f-string'') braceLine braceCol l
       else (case advance l of (c, l) \<Rightarrow> braceLoop delimiter braceLine braceCol (raw @ [c]) l)
     else (Inr raw, l))"
  by pat_completeness auto
termination
  by (relation "measure (\<lambda>(d, sl, sc, v, l). length (lx_source l) - lx_pos l)")
    (auto simp: advance_def isAtEnd_def)

declare braceLoop.simps [simp del]

lemma braceLoop_scans: "lscans l (snd (braceLoop d bl bc raw l))"
proof (induction d bl bc raw l rule: braceLoop.induct)
  case (1 d bl bc raw l)
  then show ?case
    by (subst braceLoop.simps) (auto simp: advance_def intro: scans_refl scans_stepI)
qed

definition lexBrace :: "char \<Rightarrow> string \<Rightarrow> Lexer \<Rightarrow> (lex_exn + string) \<times> Lexer" where
  "lexBrace delimiter raw l =
    (case advance l of (c, l) \<Rightarrow>
       (let braceLine = lx_line l; braceCol = lx_column l - 1
        in bindL (braceLoop delimiter braceLine braceCol (raw @ [c]) l)
             (\<lambda>raw l. if isAtEnd l then
                        errorAt (''Unclosed '' @ [SQUOTE, LCURLY, SQUOTE] @ '' in f-string'')
                          braceLine braceCol l
                      else (case advance l of (c, l) \<Rightarrow> (Inr (raw @ [c]), l)))))"

lemma lexBrace_scans: "lscans (adv l) (snd (lexBrace d raw l))"
  unfolding lexBrace_def advance_def Let_def prod.case
  by (rule bindL_scans) (auto simp: braceLoop_scans intro: scans_refl scans_once)

lemma remaining_brace:
  assumes "(x, l') = lexBrace d raw l" and "\<not> isAtEnd l"
  shows "length (lx_source l') - lx_pos l' < length (lx_source l) - lx_pos l"
  using remaining_scans [OF assms(2)] lexBrace_scans [of l d raw] assms(1) by (metis snd_conv)

function lexFStringLoop :: "char \<Rightarrow> int \<Rightarrow> int \<Rightarrow> string \<Rightarrow> Lexer \<Rightarrow> (lex_exn + string) \<times> Lexer" where
  "lexFStringLoop delimiter startLine startCol raw l =
    (if \<not> isAtEnd l \<and> peek l \<noteq> delimiter then
       if peek l = LF then errorAt ''Unterminated f-string literal'' startLine startCol l
       else if peek l = BACKSLASH then
         (case advance l of (b, l) \<Rightarrow>
            if isAtEnd l then errorAt ''Unterminated f-string literal'' startLine startCol l
            else (case advance l of (esc, l) \<Rightarrow>
                   lexFStringLoop delimiter startLine startCol (raw @ [b, esc]) l))
       else if peek l = LCURLY then
         (case lexBrace delimiter raw l of
            (Inl e, l) \<Rightarrow> (Inl e, l)
          | (Inr raw, l) \<Rightarrow> lexFStringLoop delimiter startLine startCol raw l)
       else (case advance l of (c, l) \<Rightarrow>
              lexFStringLoop delimiter startLine startCol (raw @ [c]) l)
     else (Inr raw, l))"
  by pat_completeness auto
termination
  by (relation "measure (\<lambda>(d, sl, sc, v, l). length (lx_source l) - lx_pos l)")
    (auto simp: advance_def dest: remaining_brace, auto simp: isAtEnd_def)

declare lexFStringLoop.simps [simp del]

definition lexFString :: "char \<Rightarrow> Lexer \<Rightarrow> (lex_exn + Token) \<times> Lexer" where
  "lexFString delimiter l =
    (let startLine = lx_line l; startCol = lx_column l - 2
     in bindL (lexFStringLoop delimiter startLine startCol [CHR ''f'', delimiter] l)
          (\<lambda>raw l. if isAtEnd l then errorAt ''Unterminated f-string literal'' startLine startCol l
                   else (case advance l of (c, l) \<Rightarrow>
                          (Inr (makeToken FSTRING_LITERAL (raw @ [c]) startLine startCol), l))))"

subsection \<open>Numbers\<close>

text \<open>Digits and separators; the underscores are consumed but not kept.\<close>

function collectDigits :: "string \<Rightarrow> Lexer \<Rightarrow> string \<times> Lexer" where
  "collectDigits value l =
    (if \<not> isAtEnd l \<and> (isdigit (peek l) \<or> peek l = UNDERSCORE) then
       if peek l = UNDERSCORE then collectDigits value (adv l)
       else (case advance l of (c, l) \<Rightarrow> collectDigits (value @ [c]) l)
     else (value, l))"
  by pat_completeness auto
termination
  by (relation "measure (\<lambda>(v, l). length (lx_source l) - lx_pos l)")
    (auto simp: advance_def isAtEnd_def)

declare collectDigits.simps [simp del]

text \<open>The optional fraction and the optional exponent: the flag \<^verbatim>\<open>isFloat\<close> and the lexeme so far.\<close>

definition lexFraction :: "int \<Rightarrow> int \<Rightarrow> string \<Rightarrow> Lexer \<Rightarrow> (lex_exn + bool \<times> string) \<times> Lexer" where
  "lexFraction startLine startCol value l =
    (if \<not> isAtEnd l \<and> peek l = CHR ''.'' \<and> isdigit (peekNext l) then
       (case advance l of (c, l) \<Rightarrow>
          (case collectDigits (value @ [c]) l of (value, l) \<Rightarrow>
             if \<not> isAtEnd l \<and> peek l = CHR ''.'' then
               errorAt ''Malformed numeric literal'' startLine startCol l
             else (Inr (True, value), l)))
     else (Inr (False, value), l))"

definition lexExponent ::
    "int \<Rightarrow> int \<Rightarrow> bool \<times> string \<Rightarrow> Lexer \<Rightarrow> (lex_exn + bool \<times> string) \<times> Lexer" where
  "lexExponent startLine startCol fv l =
    (case fv of (isFloat, value) \<Rightarrow>
       if \<not> isAtEnd l \<and> (peek l = CHR ''e'' \<or> peek l = CHR ''E'') then
         (case advance l of (c, l) \<Rightarrow>
            (case (if \<not> isAtEnd l \<and> (peek l = CHR ''+'' \<or> peek l = CHR ''-'')
                   then (case advance l of (s, l) \<Rightarrow> (value @ [c, s], l))
                   else (value @ [c], l)) of
               (value, l) \<Rightarrow>
                 if isAtEnd l \<or> \<not> isdigit (peek l) then
                   errorAt ''Invalid numeric literal: expected digit after exponent''
                     startLine startCol l
                 else (case collectWhile isdigit value l of (value, l) \<Rightarrow> (Inr (True, value), l))))
       else (Inr (isFloat, value), l))"

definition lexNumber :: "Lexer \<Rightarrow> (lex_exn + Token) \<times> Lexer" where
  "lexNumber l =
    (let startLine = lx_line l; startCol = lx_column l - 1
     in case collectDigits [lx_source l ! (lx_pos l - 1)] l of (value, l) \<Rightarrow>
          bindL (bindL (lexFraction startLine startCol value l) (lexExponent startLine startCol))
            (\<lambda>(isFloat, value) l.
               (Inr (makeToken (if isFloat then FLOAT_LITERAL else INT_LITERAL) value
                       startLine startCol), l)))"

subsection \<open>Identifiers and keywords\<close>

definition wordType :: "string \<Rightarrow> TokenType" where
  "wordType value =
    (case map_of keywordTable value of
       Some kwType \<Rightarrow>
         if kwType = KW_TRUE \<or> kwType = KW_FALSE then BOOL_LITERAL
         else if kwType = KW_NULL then NULL_LITERAL
         else kwType
     | None \<Rightarrow> IDENTIFIER)"

definition lexIdentifierOrKeyword :: "Lexer \<Rightarrow> Token \<times> Lexer" where
  "lexIdentifierOrKeyword l =
    (let startLine = lx_line l; startCol = lx_column l - 1
     in case collectWhile (\<lambda>c. isalnum c \<or> c = UNDERSCORE) [lx_source l ! (lx_pos l - 1)] l of
          (value, l) \<Rightarrow> (makeToken (wordType value) value startLine startCol, l))"

subsection \<open>Operators and delimiters\<close>

text \<open>An unexpected character is recorded as an error and lexed as an ERROR token; nothing is thrown.\<close>

definition unexpected :: "char \<Rightarrow> int \<Rightarrow> int \<Rightarrow> Lexer \<Rightarrow> Token \<times> Lexer" where
  "unexpected c ln col l =
     (makeToken ERROR [c] ln col,
      l\<lparr>lx_errors := lx_errors l @
          [mkLexError (''Unexpected character '' @ [SQUOTE, c, SQUOTE]) (lx_filename l) ln col]\<rparr>)"

definition lexOperator :: "char \<Rightarrow> int \<Rightarrow> int \<Rightarrow> Lexer \<Rightarrow> Token \<times> Lexer" where
  "lexOperator c ln col =
    (let tok = (\<lambda>t lx l. (makeToken t lx ln col, l)) in
     if c = CHR ''+'' then ifMatch (CHR ''='') (tok PLUS_EQ ''+='') (tok PLUS ''+'')
     else if c = CHR ''-'' then
       ifMatch (CHR ''>'') (tok ARROW ''->'') (ifMatch (CHR ''='') (tok MINUS_EQ ''-='') (tok MINUS ''-''))
     else if c = CHR ''*'' then
       ifMatch (CHR ''*'')
         (ifMatch (CHR ''='') (tok DOUBLE_STAR_EQ ''**='') (tok DOUBLE_STAR ''**''))
         (ifMatch (CHR ''='') (tok STAR_EQ ''*='') (tok STAR ''*''))
     else if c = CHR ''/'' then
       ifMatch (CHR ''/'')
         (ifMatch (CHR ''='') (tok DOUBLE_SLASH_EQ ''//='') (tok DOUBLE_SLASH ''//''))
         (ifMatch (CHR ''='') (tok SLASH_EQ ''/='') (tok SLASH ''/''))
     else if c = CHR ''%'' then ifMatch (CHR ''='') (tok PERCENT_EQ ''%='') (tok PERCENT ''%'')
     else if c = CHR ''='' then ifMatch (CHR ''='') (tok EQ ''=='') (tok ASSIGN ''='')
     else if c = CHR ''!'' then ifMatch (CHR ''='') (tok NEQ ''!='') (unexpected c ln col)
     else if c = CHR ''<'' then
       ifMatch (CHR ''<'')
         (ifMatch (CHR ''='') (tok LSHIFT_EQ ''<<='') (tok LSHIFT ''<<''))
         (ifMatch (CHR ''-'') (tok KW_SEND ''<-'')
           (ifMatch (CHR ''='') (tok LTE ''<='') (tok LT ''<'')))
     else if c = CHR ''>'' then
       ifMatch (CHR ''>'')
         (ifMatch (CHR ''='') (tok RSHIFT_EQ ''>>='') (tok RSHIFT ''>>''))
         (ifMatch (CHR ''='') (tok GTE ''>='') (tok GT ''>''))
     else if c = CHR ''('' then tok LPAREN ''(''
     else if c = CHR '')'' then tok RPAREN '')''
     else if c = CHR ''['' then tok LBRACKET ''[''
     else if c = CHR '']'' then tok RBRACKET '']''
     else if c = LCURLY then tok LBRACE [LCURLY]
     else if c = RCURLY then tok RBRACE [RCURLY]
     else if c = CHR '','' then tok COMMA '',''
     else if c = CHR '':'' then ifMatch (CHR ''='') (tok WALRUS '':='') (tok COLON '':'')
     else if c = CHR ''~'' then tok TILDE ''~''
     else if c = CHR ''&'' then ifMatch (CHR ''='') (tok AMP_EQ ''&='') (tok AMP ''&'')
     else if c = CHR ''|'' then ifMatch (CHR ''='') (tok PIPE_EQ ''|='') (tok PIPE ''|'')
     else if c = CHR ''^'' then ifMatch (CHR ''='') (tok CARET_EQ ''^='') (tok CARET ''^'')
     else if c = CHR ''.'' then
       (\<lambda>l. if \<not> isAtEnd l \<and> peek l = CHR ''.'' \<and> peekNext l = CHR ''.''
            then tok ELLIPSIS ''...'' (adv (adv l)) else tok DOT ''.'' l)
     else if c = CHR ''@'' then tok AT ''@''
     else if c = CHR ''?'' then ifMatch (CHR ''?'') (tok DOUBLE_QUESTION ''??'') (tok QUESTION ''?'')
     else unexpected c ln col)"

section \<open>The main loop\<close>

text \<open>How the \<^verbatim>\<open>try\<close> block of one iteration ends when it does not throw.\<close>

datatype flow = Fall | Continue | Break

text \<open>Steps 2 to 9 of the loop: one item of the line.\<close>

definition emit :: "Token list \<Rightarrow> (lex_exn + Token) \<times> Lexer \<Rightarrow> (lex_exn + flow) \<times> Lexer \<times> Token list" where
  "emit tokens r =
    (case r of (Inl e, l) \<Rightarrow> (Inl e, l, tokens) | (Inr t, l) \<Rightarrow> (Inr Continue, l, tokens @ [t]))"

definition lexNewline :: "Lexer \<Rightarrow> Token list \<Rightarrow> (lex_exn + flow) \<times> Lexer \<times> Token list" where
  "lexNewline l tokens =
    (let nl = lx_line l; nc = lx_column l; l = adv l;
         tokens = (if tokens \<noteq> [] \<and> tk_type (last tokens) \<notin> {NEWLINE, INDENT, DEDENT}
                   then tokens @ [makeToken NEWLINE [BACKSLASH, CHR ''n''] nl nc] else tokens)
     in (Inr Continue, l\<lparr>lx_atLineStart := True\<rparr>, tokens))"

definition lexComment :: "Lexer \<Rightarrow> Token list \<Rightarrow> (lex_exn + flow) \<times> Lexer \<times> Token list" where
  "lexComment l tokens =
    (if peekNext l = HASH then
       (let l = adv (adv l)
        in if \<not> isAtEnd l \<and> peek l = HASH then
             (case skipMultiLineComment (adv l) of
                (Inl e, l) \<Rightarrow> (Inl e, l, tokens)
              | (Inr _, l) \<Rightarrow> (Inr Continue, l, tokens))
           else (Inr Continue, skipSingleLineComment l, tokens))
     else (Inr Continue, skipSingleLineComment (adv l), tokens))"

definition lexItem :: "Lexer \<Rightarrow> Token list \<Rightarrow> (lex_exn + flow) \<times> Lexer \<times> Token list" where
  "lexItem l tokens =
    (let c = peek l in
     if c = SPACE \<or> c = TAB \<or> c = CR then (Inr Continue, skipWhitespace l, tokens)
     else if c = LF then lexNewline l tokens
     else let tokLine = lx_line l; tokCol = lx_column l in
     if c = HASH then lexComment l tokens
     else if c = CHR ''f'' \<and> (peekNext l = DQUOTE \<or> peekNext l = SQUOTE) then
       (case advance (adv l) of (q, l) \<Rightarrow> emit tokens (lexFString q l))
     else if c = DQUOTE \<or> c = SQUOTE then emit tokens (lexString c (adv l))
     else if isdigit c then emit tokens (lexNumber (adv l))
     else if isalpha c \<or> c = UNDERSCORE then
       (case lexIdentifierOrKeyword (adv l) of (t, l) \<Rightarrow> (Inr Continue, l, tokens @ [t]))
     else (case lexOperator c tokLine tokCol (adv l) of (t, l) \<Rightarrow> (Inr Fall, l, tokens @ [t])))"

text \<open>The whole \<^verbatim>\<open>try\<close> block: indentation first, at the start of a line.\<close>

definition tokenizeTry :: "Lexer \<Rightarrow> Token list \<Rightarrow> (lex_exn + flow) \<times> Lexer \<times> Token list" where
  "tokenizeTry l tokens =
    (if lx_atLineStart l then
       (case handleIndentation (l\<lparr>lx_atLineStart := False\<rparr>) tokens of
          (Inl e, l, tokens) \<Rightarrow> (Inl e, l, tokens)
        | (Inr _, l, tokens) \<Rightarrow>
            if isAtEnd l then (Inr Break, l, tokens)
            else if peek l = LF then (Inr Continue, l, tokens)
            else lexItem l tokens)
     else lexItem l tokens)"

text \<open>
  The two handlers. Both record the error and push an ERROR token at its position; the first skips
  the rest of the line, the second makes sure at least one byte is consumed. The exception kept for
  the end of the run is the first one.
\<close>

definition recover :: "nat \<Rightarrow> lex_exn \<Rightarrow> Lexer \<Rightarrow> Token list \<Rightarrow> Lexer \<times> Token list" where
  "recover startPos e l tokens =
    (case e of
       IndentationError d \<Rightarrow>
         (skipWhile (\<lambda>c. c \<noteq> LF)
            (l\<lparr>lx_errors := lx_errors l @
                [mkLexError (diagWhat d) (d_filename d) (d_line d) (d_col d)]\<rparr>),
          tokens @ [makeToken ERROR ''<indent-error>'' (d_line d) (d_col d)])
     | LexError d \<Rightarrow>
         (let l = l\<lparr>lx_errors := lx_errors l @ [d]\<rparr>
          in (if lx_pos l = startPos \<and> \<not> isAtEnd l then adv l else l,
              tokens @ [makeToken ERROR ''<lex-error>'' (d_line d) (d_col d)])))"

text \<open>The guard at the end of an iteration that did not \<^verbatim>\<open>continue\<close>.\<close>

definition guardProgress :: "Lexer \<Rightarrow> Lexer \<Rightarrow> Lexer" where
  "guardProgress l0 l =
    (if lx_pos l = lx_pos l0 \<and> lx_line l = lx_line l0 \<and> lx_column l = lx_column l0 \<and> \<not> isAtEnd l
     then adv l else l)"

definition tokenizeStep ::
    "Lexer \<Rightarrow> Token list \<Rightarrow> lex_exn option \<Rightarrow> bool \<times> Lexer \<times> Token list \<times> lex_exn option" where
  "tokenizeStep l tokens firstError =
    (case tokenizeTry l tokens of
       (Inl e, l', tokens) \<Rightarrow>
         (case recover (lx_pos l) e l' tokens of (l', tokens) \<Rightarrow>
            (True, guardProgress l l', tokens,
             case firstError of None \<Rightarrow> Some e | Some e0 \<Rightarrow> Some e0))
     | (Inr Break, l', tokens) \<Rightarrow> (False, l', tokens, firstError)
     | (Inr Continue, l', tokens) \<Rightarrow> (True, l', tokens, firstError)
     | (Inr Fall, l', tokens) \<Rightarrow> (True, guardProgress l l', tokens, firstError))"

section \<open>Progress\<close>

text \<open>
  The operations above also write the flag, the indentation stack and the error list. \<open>spot l\<close>
  forgets these three fields; \<open>goes l l'\<close> says that the cursor part of the object has scanned from
  one state to the other. Every operation satisfies it, whatever else it writes.
\<close>

definition spot :: "Lexer \<Rightarrow> Lexer" where
  "spot l = l\<lparr>lx_atLineStart := False, lx_indentStack := [], lx_errors := []\<rparr>"

abbreviation goes :: "Lexer \<Rightarrow> Lexer \<Rightarrow> bool" where
  "goes l l' \<equiv> lscans (spot l) (spot l')"

lemma spot_update [simp]:
  "spot (l\<lparr>lx_atLineStart := b\<rparr>) = spot l"
  "spot (l\<lparr>lx_indentStack := st\<rparr>) = spot l"
  "spot (l\<lparr>lx_errors := es\<rparr>) = spot l"
  by (simp_all add: spot_def)

lemma spot_sel [simp]:
  "lx_source (spot l) = lx_source l" "lx_filename (spot l) = lx_filename l"
  "lx_pos (spot l) = lx_pos l" "lx_line (spot l) = lx_line l" "lx_column (spot l) = lx_column l"
  "isAtEnd (spot l) = isAtEnd l" "peek (spot l) = peek l"
  by (simp_all add: spot_def isAtEnd_def peek_def)

lemma spot_adv: "spot (adv l) = adv (spot l)"
  by (simp add: adv_def Let_def) (simp add: spot_def)

lemma isAtEnd_update [simp]:
  "isAtEnd (l\<lparr>lx_atLineStart := b\<rparr>) = isAtEnd l"
  "isAtEnd (l\<lparr>lx_indentStack := st\<rparr>) = isAtEnd l"
  "isAtEnd (l\<lparr>lx_errors := es\<rparr>) = isAtEnd l"
  by (simp_all add: isAtEnd_def)

lemma goes_refl: "goes l l"
  by (rule scans_refl)

lemma goes_trans: "goes l m \<Longrightarrow> goes m n \<Longrightarrow> goes l n"
  by (rule scans_trans)

lemma lscans_goes: "lscans l l' \<Longrightarrow> goes l l'"
  by (induction rule: scans.induct) (auto simp: spot_adv intro: scans.intros)

lemma goes_adv: "\<not> isAtEnd l \<Longrightarrow> goes l (adv l)"
  by (simp add: spot_adv scans_once)

lemma goes_source: "goes l l' \<Longrightarrow> lx_source l' = lx_source l"
  using lscans_frame(1) [of "spot l" "spot l'"] by simp

lemma goes_pos: "goes l l' \<Longrightarrow> lx_pos l \<le> lx_pos l'"
  using lexcur.scans_off [of "spot l" "spot l'"] by simp

lemma goes_bounds: "goes l l' \<Longrightarrow> lx_pos l \<le> length (lx_source l) \<Longrightarrow> lx_pos l' \<le> length (lx_source l)"
  using lexcur.scans_in_bounds [of "spot l" "spot l'"] by simp

lemma skipWhile_goes: "goes l (skipWhile p l)"
  by (rule lscans_goes [OF skipWhile_scans])

lemma skipWhile_step: "\<not> isAtEnd l \<Longrightarrow> p (peek l) \<Longrightarrow> skipWhile p l = skipWhile p (adv l)"
  by (subst skipWhile.simps) simp

text \<open>Routines that scan, in the form in which \<open>lexItem\<close> meets them.\<close>

lemma skipToClose_scans: "lscans l (snd (skipToClose l))"
proof (induction l rule: skipToClose.induct)
  case (1 l)
  show ?case
  proof (cases "\<not> isAtEnd l \<and> atCloseMarker l")
    case True
    then have "\<not> isAtEnd (adv l)" "\<not> isAtEnd (adv (adv l))"
      by (auto simp: atCloseMarker_def isAtEnd_def)
    with True show ?thesis
      by (subst skipToClose.simps) (auto intro: scans.intros)
  next
    case False
    with 1 show ?thesis
      by (subst skipToClose.simps) (auto intro: scans_refl scans_stepI)
  qed
qed

lemma skipMultiLineComment_scans: "lscans l (snd (skipMultiLineComment l))"
  using skipToClose_scans [of l]
  by (auto simp: skipMultiLineComment_def Let_def split: prod.splits bool.splits)

lemma lexStringLoop_scans: "lscans l (snd (lexStringLoop d sl sc v l))"
proof (induction d sl sc v l rule: lexStringLoop.induct)
  case (1 d sl sc v l)
  have esc: "lscans l (snd (lexStringLoop d sl sc w l'))"
    if "\<not> isAtEnd l" "\<not> isAtEnd (adv l)" "escapeChar e (adv (adv l)) = (Inr cs, l')"
      "lscans l' (snd (lexStringLoop d sl sc w l'))" for e cs l' w
    using escapeChar_scans [of "adv (adv l)" e] that
    by (auto intro: scans_stepI scans_trans)
  have err: "lscans l l'" if "\<not> isAtEnd l" "\<not> isAtEnd (adv l)" "escapeChar e (adv (adv l)) = (Inl x, l')"
    for e x l'
    using escapeChar_scans [of "adv (adv l)" e] that by (auto intro: scans_stepI)
  from 1 show ?case
    by (subst lexStringLoop.simps)
      (auto simp: advance_def Let_def scans_refl scans_once scans_stepI
        split: prod.splits sum.splits intro: esc err)
qed

lemma lexFStringLoop_scans: "lscans l (snd (lexFStringLoop d sl sc v l))"
proof (induction d sl sc v l rule: lexFStringLoop.induct)
  case (1 d sl sc v l)
  have brace: "lscans l l'" if "\<not> isAtEnd l" "lexBrace d v l = (x, l')" for x l'
    using lexBrace_scans [of l d v] that by (auto intro: scans_stepI)
  from 1 show ?case
    by (subst lexFStringLoop.simps)
      (auto simp: advance_def Let_def scans_refl scans_once scans_stepI
        split: prod.splits sum.splits intro: brace scans_trans [OF brace])
qed

lemma collectDigits_scans: "lscans l (snd (collectDigits v l))"
proof (induction v l rule: collectDigits.induct)
  case (1 v l)
  then show ?case
    by (subst collectDigits.simps) (auto simp: advance_def scans_refl scans_stepI)
qed

lemma lexString_scans: "lscans l (snd (lexString d l))"
  unfolding lexString_def Let_def
  by (rule bindL_scans) (auto simp: lexStringLoop_scans scans_refl scans_once)

lemma lexFString_scans: "lscans l (snd (lexFString d l))"
  unfolding lexFString_def Let_def
  by (rule bindL_scans) (auto simp: lexFStringLoop_scans advance_def scans_refl scans_once)

lemma lexFraction_scans: "lscans l (snd (lexFraction sl sc v l))"
  using collectDigits_scans [of "adv l" "v @ [peek l]"]
  by (auto simp: lexFraction_def advance_def scans_refl intro: scans_stepI split: prod.splits)

lemma lexExponent_scans: "lscans l (snd (lexExponent sl sc fv l))"
proof -
  have "lscans (adv l) (snd (collectWhile p v (adv l)))"
    "\<not> isAtEnd (adv l) \<Longrightarrow> lscans (adv l) (snd (collectWhile p v (adv (adv l))))" for p v
    using collectWhile_scans by (auto intro: scans_stepI)
  then show ?thesis
    by (auto simp: lexExponent_def advance_def scans_refl scans_once scans_stepI Let_def
        split: prod.splits) (metis scans_stepI snd_conv scans_refl)+
qed

lemma lexNumber_scans: "lscans l (snd (lexNumber l))"
proof -
  have "lscans l (snd (bindL (bindL (lexFraction sl sc v m) (lexExponent sl sc)) f))"
    if "lscans l m" "\<And>x l'. snd (f x l') = l'" for sl sc v m and f :: "_ \<Rightarrow> _ \<Rightarrow> (lex_exn + Token) \<times> Lexer"
    using that lexFraction_scans lexExponent_scans
    by (intro scans_trans [OF that(1)] bindL_scans) (auto simp: scans_refl)
  then show ?thesis
    using collectDigits_scans [of l "[lx_source l ! (lx_pos l - 1)]"]
    unfolding lexNumber_def Let_def by (auto split: prod.splits)
qed

lemma lexIdentifierOrKeyword_scans: "lscans l (snd (lexIdentifierOrKeyword l))"
  using collectWhile_scans
  by (auto simp: lexIdentifierOrKeyword_def Let_def split: prod.splits) (metis snd_conv)

lemma matches_not_end: "matches e l \<Longrightarrow> \<not> isAtEnd l"
  by (simp add: matches_def)

lemma ifMatch_goes:
  assumes "\<not> isAtEnd l \<Longrightarrow> goes (adv l) (snd (yes (adv l)))" and "goes l (snd (no l))"
  shows "goes l (snd (ifMatch e yes no l))"
  using assms by (auto simp: ifMatch_def matches_not_end intro: goes_trans [OF goes_adv])

lemma unexpected_goes: "goes l (snd (unexpected c ln col l))"
  by (simp add: unexpected_def goes_refl)

lemma if_goes:
  "goes l (snd (p l)) \<Longrightarrow> goes l (snd (q l)) \<Longrightarrow> goes l (snd ((if b then p else q) l))"
  by simp

lemma token_goes: "goes l (snd ((\<lambda>l. (t, l)) l))"
  by (simp add: goes_refl)

lemma ellipsis_goes:
  "goes l (snd ((\<lambda>l. if \<not> isAtEnd l \<and> peek l = CHR ''.'' \<and> peekNext l = CHR ''.''
                      then (t, adv (adv l)) else (u, l)) l))"
proof -
  have "goes l (adv (adv l))" if "\<not> isAtEnd l" "peekNext l = CHR ''.''"
  proof -
    have "\<not> isAtEnd (adv l)"
      using that by (auto simp: peekNext_def isAtEnd_def split: if_splits)
    with that(1) show ?thesis by (blast intro: goes_trans goes_adv)
  qed
  then show ?thesis by (simp add: goes_refl)
qed

lemma lexOperator_goes: "goes l (snd (lexOperator c ln col l))"
  unfolding lexOperator_def Let_def
  by (intro if_goes ifMatch_goes token_goes unexpected_goes ellipsis_goes)

lemma lexComment_goes:
  assumes "\<not> isAtEnd l" and "lexComment l tokens = (r, l', tokens')"
  shows "goes (adv l) l'"
proof -
  have nxt: "\<not> isAtEnd (adv l)" if "peekNext l = HASH"
    using that by (auto simp: peekNext_def isAtEnd_def split: if_splits)
  have multi: "goes (adv l) m" if "peekNext l = HASH" "\<not> isAtEnd (adv (adv l))"
    "skipMultiLineComment (adv (adv (adv l))) = (x, m)" for x m
    using skipMultiLineComment_scans [of "adv (adv (adv l))"] that nxt
    by (simp add: lscans_goes scans_stepI)
  show ?thesis
    using assms(2) nxt
    by (auto simp: lexComment_def Let_def skipSingleLineComment_def skipWhile_goes
        intro: multi goes_trans [OF goes_adv] split: if_splits prod.splits sum.splits)
qed

lemma emit_goes:
  "emit tokens r = (x, l', tokens') \<Longrightarrow> lscans l (snd r) \<Longrightarrow> goes l l'"
  by (auto simp: emit_def intro: lscans_goes split: prod.splits sum.splits)

lemma lexItem_goes:
  assumes "\<not> isAtEnd l" and "lexItem l tokens = (r, l', tokens')"
  shows "goes (adv l) l'"
proof -
  have f: "lscans (adv l) (snd (lexFString q (adv (adv l))))" if "peekNext l \<noteq> NUL" for q
    using that by (auto simp: peekNext_def isAtEnd_def intro!: scans_stepI lexFString_scans split: if_splits)
  have ws: "goes (adv l) (skipWhitespace l)" if "peek l = SPACE \<or> peek l = TAB \<or> peek l = CR"
    using that assms(1) skipWhile_step [of l] skipWhile_goes by (simp add: skipWhitespace_def)
  show ?thesis
    using assms(2) lexIdentifierOrKeyword_scans [of "adv l"]
      lexOperator_goes [of "adv l" "peek l" "lx_line l" "lx_column l"]
    by (auto simp: lexItem_def Let_def lexNewline_def advance_def goes_refl
        dest: lexComment_goes [OF assms(1)] emit_goes [OF _ lexString_scans]
          emit_goes [OF _ lexNumber_scans] emit_goes [OF _ f]
        intro: ws lscans_goes split: if_splits prod.splits)
qed

lemma countTabs_scans: "lscans l (snd (countTabs n l))"
proof (induction n l rule: countTabs.induct)
  case (1 n l)
  then show ?case
    by (subst countTabs.simps) (auto intro: scans_refl scans_stepI)
qed

lemma handleIndentation_goes:
  assumes "handleIndentation l tokens = (r, l', tokens')"
  shows "goes l l'" and "lx_atLineStart l' = lx_atLineStart l"
proof -
  obtain x m where m: "countTabs 0 l = (x, m)" by (cases "countTabs 0 l")
  then have "lscans l m" using countTabs_scans [of l 0] by simp
  then have "goes l m" and "lx_atLineStart m = lx_atLineStart l"
    by (auto intro: lscans_goes dest: lscans_frame)
  then show "goes l l'" and "lx_atLineStart l' = lx_atLineStart l"
    using assms m
    by (auto simp: handleIndentation_def Let_def errorAt_def split: sum.splits if_splits prod.splits)
qed

lemma tokenizeTry_goes:
  assumes "\<not> isAtEnd l" and "tokenizeTry l tokens = (r, l', tokens')"
  shows "goes l l'"
proof (cases "lx_atLineStart l")
  case True
  obtain x m toks where m: "handleIndentation (l\<lparr>lx_atLineStart := False\<rparr>) tokens = (x, m, toks)"
    by (metis prod_cases3)
  then have lm: "goes l m" using handleIndentation_goes(1) [OF m] by simp
  moreover have "goes m l'" if "\<not> isAtEnd m" "lexItem m toks = (r, l', tokens')"
    using that by (blast intro: goes_trans goes_adv lexItem_goes)
  ultimately show ?thesis
    using assms True m
    by (auto simp: tokenizeTry_def goes_refl intro: goes_trans split: sum.splits if_splits)
next
  case False
  with assms show ?thesis
    by (auto simp: tokenizeTry_def intro: goes_trans goes_adv lexItem_goes)
qed

lemma recover_goes: "recover sp e l tokens = (l', tokens') \<Longrightarrow> goes l l'"
proof (cases e)
  case (IndentationError d)
  then show "recover sp e l tokens = (l', tokens') \<Longrightarrow> goes l l'"
    using skipWhile_goes [of "l\<lparr>lx_errors := es\<rparr>" for es] by (auto simp: recover_def)
next
  case (LexError d)
  then show "recover sp e l tokens = (l', tokens') \<Longrightarrow> goes l l'"
    using goes_adv [of "l\<lparr>lx_errors := es\<rparr>" for es]
    by (auto simp: recover_def Let_def goes_refl split: if_splits)
qed

lemma guardProgress_goes: "goes l (guardProgress l0 l)"
  by (simp add: guardProgress_def goes_adv goes_refl)

lemma tokenizeStep_goes:
  assumes "\<not> isAtEnd l" and "tokenizeStep l tokens fe = (go, l', tokens', fe')"
  shows "goes l l'"
proof -
  obtain r m toks where m: "tokenizeTry l tokens = (r, m, toks)" by (metis prod_cases3)
  then have "goes l m" using assms(1) by (blast intro: tokenizeTry_goes)
  then show ?thesis
    using assms(2) m
    by (auto simp: tokenizeStep_def split: sum.splits flow.splits prod.splits)
      (blast intro: goes_trans guardProgress_goes recover_goes)+
qed

text \<open>The termination measure of the main loop: bytes left, and whether the line start is pending.\<close>

definition pending :: "Lexer \<Rightarrow> nat" where
  "pending l = 2 * (length (lx_source l) - lx_pos l) + (if lx_atLineStart l then 1 else 0)"

lemma goes_pending:
  assumes "goes l l'" and "lx_pos l < lx_pos l' \<or> lx_atLineStart l \<and> \<not> lx_atLineStart l'"
    and "\<not> isAtEnd l"
  shows "pending l' < pending l"
proof -
  have "lx_pos l \<le> lx_pos l'" and "lx_source l' = lx_source l"
    and "lx_pos l' \<le> length (lx_source l)" and "lx_pos l < length (lx_source l)"
    using assms goes_pos goes_source goes_bounds by (auto simp: isAtEnd_def)
  then show ?thesis using assms(2) by (auto simp: pending_def)
qed

lemma lexItem_advances:
  assumes "\<not> isAtEnd l" and "lexItem l tokens = (r, l', tokens')"
  shows "lx_pos l < lx_pos l'"
  using goes_pos [OF lexItem_goes [OF assms]] by simp

text \<open>
  Every iteration makes progress: it consumes a byte, or it clears the pending line start. This is
  what the two guards of the source are for.
\<close>

lemma tokenizeTry_progress:
  assumes "\<not> isAtEnd l" and "tokenizeTry l tokens = (r, l', tokens')"
  shows "lx_pos l < lx_pos l' \<or> lx_atLineStart l \<and> \<not> lx_atLineStart l'"
proof (cases "lx_atLineStart l")
  case True
  obtain x m toks where m: "handleIndentation (l\<lparr>lx_atLineStart := False\<rparr>) tokens = (x, m, toks)"
    by (metis prod_cases3)
  have "lx_pos l \<le> lx_pos m" and "\<not> lx_atLineStart m"
    using goes_pos [of l m] handleIndentation_goes [OF m] by simp_all
  moreover have "lx_pos m < lx_pos l'" if "\<not> isAtEnd m" "lexItem m toks = (r, l', tokens')"
    using that by (rule lexItem_advances)
  ultimately show ?thesis
    using assms True m by (auto simp: tokenizeTry_def split: sum.splits if_splits)
next
  case False
  with assms show ?thesis by (auto simp: tokenizeTry_def lexItem_advances)
qed

lemma recover_atLineStart: "recover sp e l tokens = (l', tokens') \<Longrightarrow> lx_atLineStart l' = lx_atLineStart l"
  using lscans_frame(3) [OF skipWhile_scans]
  by (auto simp: recover_def Let_def split: lex_exn.splits if_splits)

lemma guardProgress_atLineStart: "lx_atLineStart (guardProgress l0 l) = lx_atLineStart l"
  by (simp add: guardProgress_def)

lemma tokenizeStep_pending:
  assumes "\<not> isAtEnd l" and "tokenizeStep l tokens fe = (go, l', tokens', fe')"
  shows "pending l' < pending l"
proof -
  obtain r m toks where m: "tokenizeTry l tokens = (r, m, toks)" by (metis prod_cases3)
  have "goes m l'" and "lx_atLineStart l' = lx_atLineStart m"
    using assms(2) m
    by (auto simp: tokenizeStep_def guardProgress_atLineStart guardProgress_goes goes_refl
        split: sum.splits flow.splits prod.splits dest: recover_atLineStart
        intro: goes_trans [OF recover_goes guardProgress_goes])
  then show ?thesis
    using tokenizeTry_progress [OF assms(1) m] tokenizeTry_goes [OF assms(1) m] goes_pos [of m l'] assms(1)
    by (intro goes_pending) (auto intro: goes_trans)
qed

section \<open>tokenize\<close>

function tokenizeLoop ::
    "Lexer \<Rightarrow> Token list \<Rightarrow> lex_exn option \<Rightarrow> Lexer \<times> Token list \<times> lex_exn option" where
  "tokenizeLoop l tokens firstError =
    (if isAtEnd l then (l, tokens, firstError)
     else (case tokenizeStep l tokens firstError of (go, l, tokens, firstError) \<Rightarrow>
             if go then tokenizeLoop l tokens firstError else (l, tokens, firstError)))"
  by pat_completeness auto
termination
  by (relation "measure (\<lambda>(l, tokens, fe). pending l)") (auto dest: tokenizeStep_pending [OF _ sym])

declare tokenizeLoop.simps [simp del]

text \<open>The levels still open at the end of the input.\<close>

fun flushDedents :: "Token \<Rightarrow> int list \<Rightarrow> Token list \<Rightarrow> int list \<times> Token list" where
  "flushDedents tok [] tokens = ([], tokens)"
| "flushDedents tok (lvl # stack) tokens =
    (if lvl > 0 then flushDedents tok stack (tokens @ [tok]) else (lvl # stack, tokens))"

text \<open>
  A run ends with the token vector, by rethrowing the first error, or by the failure of the
  assertion on the number of tokens.
\<close>

datatype tokenized = Tokens "Token list" | Thrown lex_exn | AssertionFailed

definition tokenize :: "Lexer \<Rightarrow> tokenized \<times> Lexer" where
  "tokenize l =
    (case tokenizeLoop (l\<lparr>lx_errors := []\<rparr>) [] None of (l, tokens, firstError) \<Rightarrow>
       if \<not> length tokens \<le> length (lx_source l) * 2 + 1 then (AssertionFailed, l)
       else
         (case flushDedents (makeToken DEDENT ''<DEDENT>'' (lx_line l) (lx_column l))
                 (lx_indentStack l) tokens of (stack, tokens) \<Rightarrow>
            (let l = l\<lparr>lx_indentStack := stack\<rparr>;
                 tokens = tokens @ [makeToken END_OF_FILE [] (lx_line l) (lx_column l)]
             in case firstError of Some e \<Rightarrow> (Thrown e, l) | None \<Rightarrow> (Tokens tokens, l))))"

text \<open>The usual call: a fresh lexer over a source text.\<close>

definition lexSource :: "string \<Rightarrow> string \<Rightarrow> tokenized" where
  "lexSource source filename = fst (tokenize (mkLexer source filename))"

end
