(* ===== verification/Lexer_Spec.thy ===== *)
theory Lexer_Spec
  imports Lexer
begin

text \<open>
  What a run of the lexer does, as a step relation on the object and its token vector: it skips
  input, emits a content token for the input it consumed, opens an indentation level, closes one, or
  records an error together with an ERROR token. \<open>tokenizeStep_refines\<close> shows that every iteration
  of the main loop is a sequence of such steps; the invariants of the token stream then follow by
  rule induction on the relation.
\<close>

section \<open>Source positions\<close>

datatype SrcPos = SrcPos (sp_line: int) (sp_col: int)

instantiation SrcPos :: linorder
begin

definition less_eq_SrcPos :: "SrcPos \<Rightarrow> SrcPos \<Rightarrow> bool" where
  "less_eq_SrcPos a b \<longleftrightarrow> sp_line a < sp_line b \<or> sp_line a = sp_line b \<and> sp_col a \<le> sp_col b"

definition less_SrcPos :: "SrcPos \<Rightarrow> SrcPos \<Rightarrow> bool" where
  "less_SrcPos a b \<longleftrightarrow> sp_line a < sp_line b \<or> sp_line a = sp_line b \<and> sp_col a < sp_col b"

instance
  by standard (auto simp: less_eq_SrcPos_def less_SrcPos_def SrcPos.expand)

end

definition tokPos :: "Token \<Rightarrow> SrcPos" where
  "tokPos t = SrcPos (tk_line t) (tk_column t)"

definition lexPos :: "Lexer \<Rightarrow> SrcPos" where
  "lexPos l = SrcPos (lx_line l) (lx_column l)"

definition diagPos :: "Diagnostic \<Rightarrow> SrcPos" where
  "diagPos d = SrcPos (d_line d) (d_col d)"

lemma tokPos_make [simp]: "tokPos (makeToken t lx ln col) = SrcPos ln col"
  by (simp add: tokPos_def)

lemma lexPos_spot [simp]: "lexPos (spot l) = lexPos l"
  by (simp add: lexPos_def)

lemma lexPos_update [simp]:
  "lexPos (l\<lparr>lx_atLineStart := b\<rparr>) = lexPos l"
  "lexPos (l\<lparr>lx_indentStack := st\<rparr>) = lexPos l"
  "lexPos (l\<lparr>lx_errors := es\<rparr>) = lexPos l"
  by (simp_all add: lexPos_def)

lemma lexPos_adv: "lexPos l \<le> lexPos (adv l)"
  by (simp add: lexPos_def adv_def Let_def less_eq_SrcPos_def)

lemma goes_lexPos: "goes l l' \<Longrightarrow> lexPos l \<le> lexPos l'"
proof -
  have "lexPos a \<le> lexPos b" if "lscans a b" for a b
    using that by induction (auto intro: order.trans lexPos_adv)
  then show "goes l l' \<Longrightarrow> lexPos l \<le> lexPos l'" by fastforce
qed

text \<open>The coordinates of a byte offset, and the claim that the object's counters are those of its own.\<close>

definition lineAt :: "string \<Rightarrow> nat \<Rightarrow> int" where
  "lineAt s p = 1 + int (count_list (take p s) LF)"

definition colAt :: "string \<Rightarrow> nat \<Rightarrow> int" where
  "colAt s p = 1 + int (length (takeWhile (\<lambda>c. c \<noteq> LF) (rev (take p s))))"

definition located :: "Lexer \<Rightarrow> bool" where
  "located l \<longleftrightarrow> lexPos l = SrcPos (lineAt (lx_source l) (lx_pos l)) (colAt (lx_source l) (lx_pos l))"

lemma located_spot [simp]: "located (spot l) = located l"
  by (simp add: located_def)

lemma located_adv: "located l \<Longrightarrow> \<not> isAtEnd l \<Longrightarrow> located (adv l)"
  by (auto simp: located_def lexPos_def lineAt_def colAt_def isAtEnd_def peek_def adv_def Let_def
      take_Suc_conv_app_nth)

lemma located_goes: "goes l l' \<Longrightarrow> located l \<Longrightarrow> located l'"
  using scans_invariant [of isAtEnd adv "spot l" "spot l'" located] located_adv by simp

section \<open>The indentation stack\<close>

text \<open>Strictly decreasing from the top down to the base level 0, which is never popped.\<close>

definition stack_ok :: "int list \<Rightarrow> bool" where
  "stack_ok st \<longleftrightarrow> st \<noteq> [] \<and> last st = 0 \<and> sorted_wrt (>) st"

lemma stack_ok_base: "stack_ok [0]"
  by (simp add: stack_ok_def)

lemma stack_ok_push: "stack_ok st \<Longrightarrow> hd st < n \<Longrightarrow> stack_ok (n # st)"
  by (cases st) (auto simp: stack_ok_def)

lemma stack_ok_hd: "stack_ok st \<Longrightarrow> 0 \<le> hd st"
  by (cases st) (auto simp: stack_ok_def split: if_splits, metis last_in_set less_imp_le)

lemma stack_ok_pop: "stack_ok st \<Longrightarrow> 0 < hd st \<Longrightarrow> stack_ok (tl st) \<and> hd (tl st) < hd st"
  by (cases st; cases "tl st") (auto simp: stack_ok_def)

section \<open>Content tokens\<close>

text \<open>Fixed spellings: the operators and delimiters.\<close>

definition opTable :: "(TokenType \<times> string) list" where
  "opTable =
    [(PLUS_EQ, ''+=''), (PLUS, ''+''), (ARROW, ''->''), (MINUS_EQ, ''-=''), (MINUS, ''-''),
     (DOUBLE_STAR_EQ, ''**=''), (DOUBLE_STAR, ''**''), (STAR_EQ, ''*=''), (STAR, ''*''),
     (DOUBLE_SLASH_EQ, ''//=''), (DOUBLE_SLASH, ''//''), (SLASH_EQ, ''/=''), (SLASH, ''/''),
     (PERCENT_EQ, ''%=''), (PERCENT, ''%''), (EQ, ''==''), (ASSIGN, ''=''), (NEQ, ''!=''),
     (LSHIFT_EQ, ''<<=''), (LSHIFT, ''<<''), (KW_SEND, ''<-''), (LTE, ''<=''), (LT, ''<''),
     (RSHIFT_EQ, ''>>=''), (RSHIFT, ''>>''), (GTE, ''>=''), (GT, ''>''),
     (LPAREN, ''(''), (RPAREN, '')''), (LBRACKET, ''[''), (RBRACKET, '']''),
     (LBRACE, [LCURLY]), (RBRACE, [RCURLY]), (COMMA, '',''), (WALRUS, '':=''), (COLON, '':''),
     (TILDE, ''~''), (AMP_EQ, ''&=''), (AMP, ''&''), (PIPE_EQ, ''|=''), (PIPE, ''|''),
     (CARET_EQ, ''^=''), (CARET, ''^''), (ELLIPSIS, ''...''), (DOT, ''.''), (AT, ''@''),
     (DOUBLE_QUESTION, ''??''), (QUESTION, ''?'')]"

definition wordChar :: "char \<Rightarrow> bool" where
  "wordChar c \<longleftrightarrow> isalnum c \<or> c = UNDERSCORE"

definition isWord :: "string \<Rightarrow> bool" where
  "isWord w \<longleftrightarrow> w \<noteq> [] \<and> (isalpha (hd w) \<or> hd w = UNDERSCORE) \<and> list_all wordChar w"

definition isFString :: "string \<Rightarrow> bool" where
  "isFString w \<longleftrightarrow> (\<exists>q body. (q = DQUOTE \<or> q = SQUOTE) \<and> w = CHR ''f'' # q # body @ [q])"

text \<open>The shape of a content token: its type determines what its lexeme looks like.\<close>

definition wellShaped :: "Token \<Rightarrow> bool" where
  "wellShaped t \<longleftrightarrow>
    (case tk_type t of
       INT_LITERAL \<Rightarrow> tk_lexeme t \<noteq> [] \<and> list_all isdigit (tk_lexeme t)
     | FLOAT_LITERAL \<Rightarrow> tk_lexeme t \<noteq> [] \<and> isdigit (hd (tk_lexeme t))
     | STRING_LITERAL \<Rightarrow> True
     | FSTRING_LITERAL \<Rightarrow> isFString (tk_lexeme t)
     | NEWLINE \<Rightarrow> tk_lexeme t = [BACKSLASH, CHR ''n'']
     | _ \<Rightarrow> (tk_type t, tk_lexeme t) \<in> set opTable \<or>
            isWord (tk_lexeme t) \<and> tk_type t = wordType (tk_lexeme t))"

definition structural :: "TokenType set" where
  "structural = {INDENT, DEDENT, ERROR, END_OF_FILE}"

text \<open>
  The types whose lexeme is the source text itself: not numbers (separators are dropped), not
  strings (escapes are decoded), not newlines.
\<close>

definition verbatim :: "TokenType set" where
  "verbatim = - {INT_LITERAL, FLOAT_LITERAL, STRING_LITERAL, NEWLINE}"

definition consumed :: "Lexer \<Rightarrow> Lexer \<Rightarrow> string" where
  "consumed l l' = substr (lx_pos l) (lx_pos l') (lx_source l)"

definition contentToken :: "Lexer \<Rightarrow> Lexer \<Rightarrow> Token \<Rightarrow> bool" where
  "contentToken l l' t \<longleftrightarrow>
     tokPos t = lexPos l \<and> wellShaped t \<and> tk_type t \<notin> structural \<and>
     (tk_type t \<in> verbatim \<longrightarrow> tk_lexeme t = consumed l l')"

section \<open>The step relation\<close>

inductive lexes :: "Lexer \<times> Token list \<Rightarrow> Lexer \<times> Token list \<Rightarrow> bool" where
  skip: "goes l l' \<Longrightarrow> lx_indentStack l' = lx_indentStack l \<Longrightarrow> lx_errors l' = lx_errors l \<Longrightarrow>
    lexes (l, ts) (l', ts)"
| item: "goes l l' \<Longrightarrow> lx_pos l < lx_pos l' \<Longrightarrow> lx_indentStack l' = lx_indentStack l \<Longrightarrow>
    lx_errors l' = lx_errors l \<Longrightarrow> contentToken l l' t \<Longrightarrow> lexes (l, ts) (l', ts @ [t])"
| indent: "goes l l' \<Longrightarrow> lx_pos l < lx_pos l' \<Longrightarrow> hd (lx_indentStack l) < n \<Longrightarrow>
    lx_indentStack l' = n # lx_indentStack l \<Longrightarrow> lx_errors l' = lx_errors l \<Longrightarrow>
    lexes (l, ts) (l', ts @ [makeToken INDENT ''<INDENT>'' (lx_line l) (lx_column l)])"
| dedent: "0 < hd (lx_indentStack l) \<Longrightarrow>
    lexes (l, ts) (l\<lparr>lx_indentStack := tl (lx_indentStack l)\<rparr>,
      ts @ [makeToken DEDENT ''<DEDENT>'' (lx_line l) (lx_column l)])"
| fault: "goes l m \<Longrightarrow> goes m l' \<Longrightarrow> lx_pos l < lx_pos l' \<Longrightarrow> diagPos d = lexPos m \<Longrightarrow>
    lx_indentStack l' = lx_indentStack l \<Longrightarrow> lx_errors l' = lx_errors l @ [d] \<Longrightarrow>
    lexes (l, ts) (l', ts @ [makeToken ERROR w (d_line d) (d_col d)])"

inductive_cases lexesE: "lexes (l, ts) (l', ts')"

abbreviation runs :: "Lexer \<times> Token list \<Rightarrow> Lexer \<times> Token list \<Rightarrow> bool" where
  "runs \<equiv> lexes\<^sup>*\<^sup>*"

section \<open>What the literal lexers consume\<close>

lemma consumed_refl [simp]: "consumed l l = []"
  by (simp add: consumed_def)

lemma consumed_step:
  assumes "\<not> isAtEnd l" and "goes (adv l) l'"
  shows "consumed l l' = peek l # consumed (adv l) l'"
  using assms goes_pos [OF assms(2)]
  by (simp add: consumed_def isAtEnd_def peek_def substr_Suc)

lemma collectWhile_consumed:
  "collectWhile p v l = (v', l') \<Longrightarrow> v' = v @ consumed l l' \<and> list_all p (consumed l l')"
proof (induction p v l rule: collectWhile.induct)
  case (1 p v l)
  show ?case
  proof (cases "\<not> isAtEnd l \<and> p (peek l)")
    case True
    then have c: "collectWhile p (v @ [peek l]) (adv l) = (v', l')"
      using 1(2) by (subst (asm) collectWhile.simps) (simp add: advance_def)
    moreover have "goes (adv l) l'"
      using collectWhile_scans [of "adv l" p "v @ [peek l]"] c by (simp add: lscans_goes)
    ultimately show ?thesis
      using 1(1) True by (simp add: advance_def consumed_step)
  next
    case False
    then show ?thesis
      using 1(2) by (subst (asm) collectWhile.simps) auto
  qed
qed

lemma collectDigits_value:
  "collectDigits v l = (v', l') \<Longrightarrow> \<exists>w. v' = v @ w \<and> list_all isdigit w"
proof (induction v l rule: collectDigits.induct)
  case (1 v l)
  then show ?case
    by (subst (asm) (3) collectDigits.simps)
      (fastforce simp: advance_def split: if_splits)
qed

lemma braceLoop_consumed:
  "braceLoop d bl bc raw l = (Inr raw', l') \<Longrightarrow> raw' = raw @ consumed l l'"
proof (induction d bl bc raw l rule: braceLoop.induct)
  case (1 d bl bc raw l)
  show ?case
  proof (cases "\<not> isAtEnd l \<and> peek l \<noteq> RCURLY")
    case True
    then have c: "braceLoop d bl bc (raw @ [peek l]) (adv l) = (Inr raw', l')" and
        n: "\<not> (peek l = LF \<or> peek l = d)"
      using 1(2) by (subst (asm) braceLoop.simps, auto simp: advance_def errorAt_def split: if_splits)+
    moreover have "goes (adv l) l'"
      using braceLoop_scans [of "adv l" d bl bc "raw @ [peek l]"] c by (simp add: lscans_goes)
    ultimately show ?thesis
      using 1(1) True by (simp add: advance_def consumed_step)
  next
    case False
    then show ?thesis
      using 1(2) by (subst (asm) braceLoop.simps) auto
  qed
qed

lemma consumed_trans:
  "goes l m \<Longrightarrow> goes m l' \<Longrightarrow> consumed l l' = consumed l m @ consumed m l'"
  using goes_pos [of l m] goes_pos [of m l'] goes_source [of l m]
  by (simp add: consumed_def substr_append [of "lx_pos l" "lx_pos m" "lx_pos l'"])

lemma consumed_adv: "\<not> isAtEnd l \<Longrightarrow> consumed l (adv l) = [peek l]"
  by (simp add: consumed_step goes_refl)

lemma consumed_snoc: "goes l m \<Longrightarrow> \<not> isAtEnd m \<Longrightarrow> consumed l (adv m) = consumed l m @ [peek m]"
  using consumed_trans [of l m "adv m"] by (simp add: goes_adv consumed_adv)

lemma lexBrace_consumed:
  assumes "lexBrace d raw l = (Inr raw', l')" and "\<not> isAtEnd l"
  shows "raw' = raw @ consumed l l'"
proof -
  obtain raw1 m where m: "braceLoop d (lx_line (adv l)) (lx_column (adv l) - 1) (raw @ [peek l]) (adv l)
      = (Inr raw1, m)" and e: "\<not> isAtEnd m" "raw' = raw1 @ [peek m]" "l' = adv m"
    using assms(1)
    by (auto simp: lexBrace_def advance_def Let_def bindL_def errorAt_def split: prod.splits sum.splits if_splits)
  have g: "goes (adv l) m"
    using braceLoop_scans [of "adv l" d "lx_line (adv l)" "lx_column (adv l) - 1" "raw @ [peek l]"] m
    by (simp add: lscans_goes)
  have "raw1 = raw @ [peek l] @ consumed (adv l) m"
    using braceLoop_consumed [OF m] by simp
  also have "[peek l] @ consumed (adv l) m = consumed l m"
    using assms(2) g by (simp add: consumed_step)
  finally show ?thesis
    using e consumed_snoc [OF goes_trans [OF goes_adv [OF assms(2)] g] e(1)] by simp
qed

lemma lexFStringLoop_goes: "lexFStringLoop d sl sc raw l = (r, l') \<Longrightarrow> goes l l'"
  using lexFStringLoop_scans [of l d sl sc raw] by (simp add: lscans_goes)

lemma lexFStringLoop_consumed:
  "lexFStringLoop d sl sc raw l = (Inr raw', l') \<Longrightarrow> raw' = raw @ consumed l l'"
proof (induction d sl sc raw l rule: lexFStringLoop.induct)
  case (1 d sl sc raw l)
  let ?go = "\<not> isAtEnd l \<and> peek l \<noteq> d"
  consider (stop) "\<not> ?go" | (escape) ?go "peek l \<noteq> LF" "peek l = BACKSLASH"
    | (brace) ?go "peek l \<noteq> LF" "peek l \<noteq> BACKSLASH" "peek l = LCURLY"
    | (plain) ?go "peek l \<noteq> LF" "peek l \<noteq> BACKSLASH" "peek l \<noteq> LCURLY" | (newline) ?go "peek l = LF"
    by blast
  then show ?case
  proof cases
    case stop
    then show ?thesis using 1(4) by (subst (asm) lexFStringLoop.simps) auto
  next
    case newline
    then show ?thesis using 1(4) by (subst (asm) lexFStringLoop.simps) (auto simp: errorAt_def)
  next
    case escape
    then have rest: "\<not> isAtEnd (adv l)"
      "lexFStringLoop d sl sc (raw @ [peek l, peek (adv l)]) (adv (adv l)) = (Inr raw', l')"
      using 1(4)
      by (subst (asm) lexFStringLoop.simps, auto simp: advance_def errorAt_def split: if_splits)+
    then show ?thesis
      using 1(1) escape lexFStringLoop_goes [OF rest(2)]
      by (simp add: advance_def consumed_step goes_trans [OF goes_adv])
  next
    case brace
    then obtain raw1 m where m: "lexBrace d raw l = (Inr raw1, m)"
      "lexFStringLoop d sl sc raw1 m = (Inr raw', l')"
      using 1(4)
      by (subst (asm) lexFStringLoop.simps) (auto split: prod.splits sum.splits)
    have "goes l m"
      using brace(1) lexBrace_scans [of l d raw] m(1) by (auto intro: goes_trans goes_adv lscans_goes)
    then have "consumed l l' = consumed l m @ consumed m l'"
      by (rule consumed_trans) (rule lexFStringLoop_goes [OF m(2)])
    then show ?thesis
      using 1(2) brace m lexBrace_consumed [OF m(1)] by simp
  next
    case plain
    then have rest: "lexFStringLoop d sl sc (raw @ [peek l]) (adv l) = (Inr raw', l')"
      using 1(4) by (subst (asm) lexFStringLoop.simps) (auto simp: advance_def)
    then show ?thesis
      using 1(3) plain lexFStringLoop_goes [OF rest] by (simp add: advance_def consumed_step)
  qed
qed

section \<open>Where the lexers fault\<close>

text \<open>
  An exception of a literal lexer is a \<^verbatim>\<open>LexError\<close>, thrown at a position between the start of the
  literal and the place where the cursor is left.
\<close>

definition faultsFrom :: "Lexer \<Rightarrow> (lex_exn + 'a) \<times> Lexer \<Rightarrow> bool" where
  "faultsFrom l r \<longleftrightarrow>
     (\<forall>e l'. r = (Inl e, l') \<longrightarrow>
        (\<exists>d m. e = LexError d \<and> goes l m \<and> goes m l' \<and> diagPos d = lexPos m))"

lemma faults_Inr [simp]: "faultsFrom l (Inr x, l')"
  by (simp add: faultsFrom_def)

lemma faults_errorAt: "lexPos l = SrcPos ln col \<Longrightarrow> goes l l' \<Longrightarrow> faultsFrom l (errorAt msg ln col l')"
  by (auto simp: faultsFrom_def errorAt_def diagPos_def intro: goes_refl)

lemma faults_error: "goes l l' \<Longrightarrow> faultsFrom l (error msg l')"
  by (auto simp: faultsFrom_def error_def errorAt_def diagPos_def lexPos_def intro: goes_refl)

lemma faults_mono: "goes l m \<Longrightarrow> faultsFrom m r \<Longrightarrow> faultsFrom l r"
proof -
  assume g: "goes l m" and f: "faultsFrom m r"
  show "faultsFrom l r"
    unfolding faultsFrom_def
  proof (intro allI impI)
    fix e l' assume "r = (Inl e, l')"
    then obtain d k where "e = LexError d" "goes m k" "goes k l'" "diagPos d = lexPos k"
      using f unfolding faultsFrom_def by blast
    then show "\<exists>d m. e = LexError d \<and> goes l m \<and> goes m l' \<and> diagPos d = lexPos m"
      using goes_trans [OF g] by blast
  qed
qed

lemma faults_bindL:
  assumes "faultsFrom l r" and "\<And>x m. r = (Inr x, m) \<Longrightarrow> faultsFrom l (f x m)"
  shows "faultsFrom l (bindL r f)"
proof (cases r)
  case (Pair y m)
  then show ?thesis using assms by (cases y) (auto simp: faultsFrom_def)
qed

lemma hexExactly_faults: "goes l0 l \<Longrightarrow> faultsFrom l0 (hexExactly n msg hex l)"
proof (induction n msg hex l rule: hexExactly.induct)
  case (2 n msg hex l)
  have "goes l0 (adv l)" if "\<not> isAtEnd l" using 2(2) goes_adv [OF that] by (rule goes_trans)
  then show ?case using 2 by (simp add: advance_def faults_error)
qed simp

lemma hexExactly_goes: "hexExactly n msg hex l = (r, l') \<Longrightarrow> goes l l'"
  using hexExactly_scans [of l n msg hex] by (simp add: lscans_goes)

lemma escapeChar_faults:
  assumes "goes l0 l"
  shows "faultsFrom l0 (escapeChar esc l)"
proof -
  have to: "goes l0 m" if "hexExactly n msg hex l = (r, m)" for n msg hex r m
    using assms hexExactly_goes [OF that] by (rule goes_trans)
  have x: "faultsFrom l0 (escapeX l)"
    using goes_trans [OF assms lscans_goes [OF hexUpTo_scans [of l 2 "[]"]]]
    by (auto simp: escapeX_def intro: faults_error split: prod.splits)
  have u: "faultsFrom l0 (escapeu l)"
    unfolding escapeu_def Let_def
    by (rule faults_bindL) (auto intro!: hexExactly_faults faults_error assms to)
  have U: "faultsFrom l0 (escapeU l)"
    unfolding escapeU_def Let_def
    by (rule faults_bindL) (auto intro!: hexExactly_faults faults_error assms to)
  show ?thesis using x u U by (simp add: escapeChar_def)
qed

lemma lexStringLoop_faults:
  "lexPos l0 = SrcPos sl sc \<Longrightarrow> goes l0 l \<Longrightarrow> faultsFrom l0 (lexStringLoop d sl sc v l)"
proof (induction d sl sc v l rule: lexStringLoop.induct)
  case (1 d sl sc v l)
  have a: "goes l0 (adv l)" if "\<not> isAtEnd l" using 1(4) goes_adv [OF that] by (rule goes_trans)
  have aa: "goes l0 (adv (adv l))" if "\<not> isAtEnd l" "\<not> isAtEnd (adv l)"
    using a [OF that(1)] goes_adv [OF that(2)] by (rule goes_trans)
  have esc: "goes l0 m" if "\<not> isAtEnd l" "\<not> isAtEnd (adv l)" "escapeChar e (adv (adv l)) = (r, m)" for e r m
    using goes_trans [OF aa [OF that(1,2)] lscans_goes [OF escapeChar_scans [of "adv (adv l)" e]]] that(3)
    by simp
  have esc_f: "faultsFrom l0 (Inl x, m)" if "\<not> isAtEnd l" "\<not> isAtEnd (adv l)"
    "escapeChar e (adv (adv l)) = (Inl x, m)" for e x m
    using escapeChar_faults [OF aa [OF that(1,2)], of e] that(3) by (simp add: faultsFrom_def)
  show ?case
    using 1(1-3) a esc esc_f
    by (subst lexStringLoop.simps)
      (auto simp: advance_def Let_def split: prod.splits sum.splits
        intro: faults_errorAt [OF 1(3) a] faults_errorAt [OF 1(3) 1(4)])
qed

text \<open>The contract of a literal lexer started at \<open>l\<close>: a content token of the input it consumed, or a fault.\<close>

definition yields :: "Lexer \<Rightarrow> (lex_exn + Token) \<times> Lexer \<Rightarrow> bool" where
  "yields l r \<longleftrightarrow> faultsFrom l r \<and> (\<forall>t l'. r = (Inr t, l') \<longrightarrow> contentToken l l' t)"

lemma yields_bindL:
  assumes "faultsFrom l r" and "\<And>x m. r = (Inr x, m) \<Longrightarrow> yields l (f x m)"
  shows "yields l (bindL r f)"
proof (cases r)
  case (Pair y m)
  then show ?thesis using assms by (cases y) (auto simp: yields_def faultsFrom_def)
qed

lemma yields_errorAt: "lexPos l = SrcPos ln col \<Longrightarrow> goes l l' \<Longrightarrow> yields l (errorAt msg ln col l')"
  unfolding yields_def by (simp add: faults_errorAt) (simp add: errorAt_def)

lemma yields_token: "contentToken l l' t \<Longrightarrow> yields l (Inr t, l')"
  by (simp add: yields_def)

lemma adv_pos:
  assumes "peek l \<noteq> LF"
  shows "lx_line (adv l) = lx_line l" and "lx_column (adv l) = lx_column l + 1"
  using assms by (simp_all add: adv_def Let_def)

lemma source_prev: "\<not> isAtEnd l \<Longrightarrow> lx_source l ! lx_pos l = peek l"
  by (simp add: peek_def)

lemma peek_adv: "peek (adv l) \<noteq> NUL \<Longrightarrow> \<not> isAtEnd (adv l)"
  by (auto simp: peek_def split: if_splits)

lemma lexString_yields:
  assumes "\<not> isAtEnd l" and "peek l \<noteq> LF"
  shows "yields l (lexString q (adv l))"
proof -
  note p = adv_pos [OF assms(2)]
  have pos: "lexPos l = SrcPos (lx_line (adv l)) (lx_column (adv l) - 1)"
    by (simp add: p lexPos_def)
  note g = goes_adv [OF assms(1)]
  have to: "goes l m" if "lexStringLoop q sl sc [] (adv l) = (r, m)" for sl sc r m
    using goes_trans [OF g lscans_goes [OF lexStringLoop_scans [of "adv l" q sl sc "[]"]]] that by simp
  show ?thesis
    unfolding lexString_def Let_def
    by (rule yields_bindL [OF lexStringLoop_faults [OF pos g]])
      (auto simp: contentToken_def wellShaped_def structural_def verbatim_def makeToken_def tokPos_def pos
        intro!: yields_errorAt yields_token to)
qed

lemma braceLoop_faults:
  "lexPos k = SrcPos sl sc \<Longrightarrow> goes l0 k \<Longrightarrow> goes k l \<Longrightarrow> faultsFrom l0 (braceLoop d sl sc v l)"
proof (induction d sl sc v l rule: braceLoop.induct)
  case (1 d sl sc v l)
  have a: "goes k (adv l)" if "\<not> isAtEnd l" using 1(4) goes_adv [OF that] by (rule goes_trans)
  show ?case
    using 1(1-3) a
    by (subst braceLoop.simps)
      (auto simp: advance_def intro: faults_mono [OF 1(3)] faults_errorAt [OF 1(2) 1(4)])
qed

lemma lexBrace_faults:
  assumes "\<not> isAtEnd l" and "peek l \<noteq> LF"
  shows "faultsFrom l (lexBrace d raw l)"
proof -
  note p = adv_pos [OF assms(2)]
  have pos: "lexPos l = SrcPos (lx_line (adv l)) (lx_column (adv l) - 1)"
    by (simp add: p lexPos_def)
  note g = goes_adv [OF assms(1)]
  have to: "goes l m" if "braceLoop d sl sc w (adv l) = (r, m)" for sl sc r m w
    using goes_trans [OF g lscans_goes [OF braceLoop_scans [of "adv l" d sl sc w]]] that by simp
  show ?thesis
    unfolding lexBrace_def advance_def Let_def prod.case
    by (rule faults_bindL [OF braceLoop_faults [OF pos goes_refl g]])
      (auto intro!: faults_errorAt pos to)
qed

lemma lexFStringLoop_faults:
  "lexPos l0 = SrcPos sl sc \<Longrightarrow> goes l0 l \<Longrightarrow> faultsFrom l0 (lexFStringLoop d sl sc raw l)"
proof (induction d sl sc raw l rule: lexFStringLoop.induct)
  case (1 d sl sc raw l)
  have a: "goes l0 (adv l)" if "\<not> isAtEnd l" using 1(5) goes_adv [OF that] by (rule goes_trans)
  have aa: "goes l0 (adv (adv l))" if "\<not> isAtEnd l" "\<not> isAtEnd (adv l)"
    using a [OF that(1)] goes_adv [OF that(2)] by (rule goes_trans)
  have br: "goes l0 m" if "\<not> isAtEnd l" "lexBrace d raw l = (r, m)" for r m
    using goes_trans [OF a [OF that(1)] lscans_goes [OF lexBrace_scans [of l d raw]]] that(2)
    by simp
  have br_f: "faultsFrom l0 (Inl x, m)" if "\<not> isAtEnd l" "peek l = LCURLY" "lexBrace d raw l = (Inl x, m)"
    for x m
    using faults_mono [OF 1(5) lexBrace_faults [of l d raw]] that by (simp add: faultsFrom_def)
  show ?case
    using 1(1-4) a aa br br_f
    by (subst lexFStringLoop.simps)
      (auto simp: advance_def Let_def split: prod.splits sum.splits
        intro: faults_errorAt [OF 1(4) a] faults_errorAt [OF 1(4) 1(5)])
qed

lemma lexFStringLoop_stops:
  "lexFStringLoop d sl sc raw l = (Inr raw', l') \<Longrightarrow> isAtEnd l' \<or> peek l' = d"
proof (induction d sl sc raw l rule: lexFStringLoop.induct)
  case (1 d sl sc raw l)
  show ?case
    by (rule 1(4) [unfolded lexFStringLoop.simps [of d sl sc raw l], elim_format])
      (use 1(1-3) in \<open>auto simp: advance_def errorAt_def split: if_splits prod.splits sum.splits\<close>)
qed

lemma lexFString_yields:
  assumes "\<not> isAtEnd l" and "\<not> isAtEnd (adv l)" and "peek l = CHR ''f''" and "peek (adv l) = q"
    and "q = DQUOTE \<or> q = SQUOTE"
  shows "yields l (lexFString q (adv (adv l)))"
proof -
  let ?l = "adv (adv l)"
  have "peek l \<noteq> LF" "peek (adv l) \<noteq> LF" using assms(3-5) by auto
  then have pos: "lexPos l = SrcPos (lx_line ?l) (lx_column ?l - 2)"
    by (simp add: adv_pos lexPos_def)
  have g: "goes l ?l" by (rule goes_trans [OF goes_adv [OF assms(1)] goes_adv [OF assms(2)]])
  have two: "consumed l ?l = [CHR ''f'', q]"
    using assms(1-4) by (simp add: consumed_step goes_adv goes_refl consumed_adv)
  have to: "goes l m" if "lexFStringLoop q sl sc w ?l = (r, m)" for sl sc w r m
    using goes_trans [OF g lexFStringLoop_goes [OF that]] .
  have tok: "contentToken l (adv m) (makeToken FSTRING_LITERAL (raw @ [peek m]) (lx_line ?l) (lx_column ?l - 2))"
    if "lexFStringLoop q (lx_line ?l) (lx_column ?l - 2) [CHR ''f'', q] ?l = (Inr raw, m)" "\<not> isAtEnd m" for raw m
  proof -
    have raw: "raw = CHR ''f'' # q # consumed ?l m" using lexFStringLoop_consumed [OF that(1)] by simp
    have "consumed l m = CHR ''f'' # q # consumed ?l m"
      using consumed_trans [OF g lexFStringLoop_goes [OF that(1)]] two by simp
    then have c: "raw @ [peek m] = consumed l (adv m)"
      using consumed_snoc [OF to [OF that(1)] that(2)] raw by simp
    have "peek m = q" using lexFStringLoop_stops [OF that(1)] that(2) by simp
    then have "isFString (raw @ [peek m])" using raw assms(5) by (auto simp: isFString_def)
    with c show ?thesis
      by (simp add: contentToken_def wellShaped_def structural_def pos makeToken_def tokPos_def)
  qed
  show ?thesis
    unfolding lexFString_def Let_def advance_def prod.case
    by (rule yields_bindL [OF lexFStringLoop_faults [OF pos g]])
      (auto simp: pos intro!: yields_errorAt yields_token to tok)
qed

lemma lexFraction_faults:
  assumes "lexPos l0 = SrcPos sl sc" and "goes l0 l"
  shows "faultsFrom l0 (lexFraction sl sc v l)"
proof -
  have "goes l0 m" if "\<not> isAtEnd l" "collectDigits w (adv l) = (v', m)" for w v' m
    using goes_trans [OF goes_trans [OF assms(2) goes_adv [OF that(1)]]
        lscans_goes [OF collectDigits_scans [of "adv l" w]]] that(2) by simp
  then show ?thesis
    by (auto simp: lexFraction_def advance_def split: prod.splits intro!: faults_errorAt [OF assms(1)])
qed

lemma lexExponent_faults:
  assumes "lexPos l0 = SrcPos sl sc" and "goes l0 l"
  shows "faultsFrom l0 (lexExponent sl sc fv l)"
proof -
  have a: "goes l0 (adv l)" if "\<not> isAtEnd l" using assms(2) goes_adv [OF that] by (rule goes_trans)
  have aa: "goes l0 (adv (adv l))" if "\<not> isAtEnd l" "\<not> isAtEnd (adv l)"
    using a [OF that(1)] goes_adv [OF that(2)] by (rule goes_trans)
  show ?thesis
    by (auto simp: lexExponent_def advance_def split: prod.splits intro!: faults_errorAt [OF assms(1)] a aa)
qed

lemma lexFraction_value:
  "lexFraction sl sc v l = (Inr (fl, v'), l') \<Longrightarrow> (\<exists>w. v' = v @ w) \<and> (\<not> fl \<longrightarrow> v' = v)"
  by (fastforce simp: lexFraction_def advance_def errorAt_def split: if_splits prod.splits
      dest: collectDigits_value)

lemma lexExponent_value:
  "lexExponent sl sc (fl, v) l = (Inr (fl', v'), l') \<Longrightarrow> (\<exists>w. v' = v @ w) \<and> (\<not> fl' \<longrightarrow> v' = v \<and> \<not> fl)"
  by (fastforce simp: lexExponent_def advance_def errorAt_def split: if_splits prod.splits
      dest: collectWhile_consumed)

lemma lexNumber_yields:
  assumes "\<not> isAtEnd l" and "isdigit (peek l)"
  shows "yields l (lexNumber (adv l))"
proof -
  have "peek l \<noteq> LF" using assms(2) by (auto simp: char_class_defs)
  note p = adv_pos [OF this]
  have pos: "lexPos l = SrcPos (lx_line (adv l)) (lx_column (adv l) - 1)"
    by (simp add: p lexPos_def)
  obtain v m where v: "collectDigits [peek l] (adv l) = (v, m)" by fastforce
  have g: "goes l m"
    using goes_trans [OF goes_adv [OF assms(1)] lscans_goes [OF collectDigits_scans [of "adv l" "[peek l]"]]] v
    by simp
  obtain w where w: "v = peek l # w" "list_all isdigit w" using collectDigits_value [OF v] by auto
  let ?r = "lexFraction (lx_line (adv l)) (lx_column (adv l) - 1) v m"
  have tok: "contentToken l l' (makeToken (if fl then FLOAT_LITERAL else INT_LITERAL) v'
      (lx_line (adv l)) (lx_column (adv l) - 1))"
    if "?r = (Inr (fl1, v1), m1)"
      "lexExponent (lx_line (adv l)) (lx_column (adv l) - 1) (fl1, v1) m1 = (Inr (fl, v'), m2)"
    for fl1 v1 m1 fl v' m2 l'
    using lexFraction_value [OF that(1)] lexExponent_value [OF that(2)] w assms(2)
    by (auto simp: contentToken_def wellShaped_def structural_def verbatim_def pos)
  have fr: "goes l m1" if "?r = (x, m1)" for x m1
    using goes_trans [OF g lscans_goes [OF lexFraction_scans [of m]]] that by (metis snd_conv)
  have f: "faultsFrom l (bindL ?r (lexExponent (lx_line (adv l)) (lx_column (adv l) - 1)))"
    by (rule faults_bindL [OF lexFraction_faults [OF pos g]]) (rule lexExponent_faults [OF pos fr])
  have tok2: "contentToken l l' (makeToken (if fl then FLOAT_LITERAL else INT_LITERAL) v'
      (lx_line (adv l)) (lx_column (adv l) - 1))"
    if "bindL ?r (lexExponent (lx_line (adv l)) (lx_column (adv l) - 1)) = (Inr (fl, v'), m2)"
    for fl v' m2 l'
    using that tok by (auto simp: bindL_def split: prod.splits sum.splits split del: if_split)
  show ?thesis
    using v source_prev [OF assms(1)]
    by (auto simp: lexNumber_def Let_def intro!: yields_bindL [OF f] yields_token tok2
        split del: if_split)
qed

lemma wordType_not:
  "wordType w \<notin> structural" "wordType w \<in> verbatim"
  "wordType w \<noteq> INT_LITERAL" "wordType w \<noteq> FLOAT_LITERAL" "wordType w \<noteq> STRING_LITERAL"
  "wordType w \<noteq> FSTRING_LITERAL" "wordType w \<noteq> NEWLINE"
proof -
  have "P (wordType w)" if "P IDENTIFIER" "P BOOL_LITERAL" "P NULL_LITERAL"
    "list_all (\<lambda>(k, t). P t) keywordTable" for P
    using that by (auto simp: wordType_def list_all_iff dest!: map_of_SomeD split: option.splits)
  from this [of "\<lambda>t. t \<notin> structural \<and> t \<in> verbatim \<and> t \<noteq> FSTRING_LITERAL"]
  have "wordType w \<notin> structural \<and> wordType w \<in> verbatim \<and> wordType w \<noteq> FSTRING_LITERAL"
    by (simp add: keywordTable_def structural_def verbatim_def)
  then show "wordType w \<notin> structural" "wordType w \<in> verbatim"
    "wordType w \<noteq> INT_LITERAL" "wordType w \<noteq> FLOAT_LITERAL" "wordType w \<noteq> STRING_LITERAL"
    "wordType w \<noteq> FSTRING_LITERAL" "wordType w \<noteq> NEWLINE"
    by (auto simp: verbatim_def)
qed

lemma wellShaped_word:
  assumes "isWord w" shows "wellShaped (makeToken (wordType w) w ln col)"
  using assms wordType_not(3-7) [of w] by (cases "wordType w") (simp_all add: wellShaped_def)

lemma lexIdentifier_yields:
  assumes "\<not> isAtEnd l" and "isalpha (peek l) \<or> peek l = UNDERSCORE"
    and "lexIdentifierOrKeyword (adv l) = (t, l')"
  shows "contentToken l l' t"
proof -
  have "peek l \<noteq> LF" using assms(2) by (auto simp: char_class_defs)
  note p = adv_pos [OF this]
  obtain v where v: "collectWhile (\<lambda>c. isalnum c \<or> c = UNDERSCORE) [peek l] (adv l) = (v, l')"
    and t: "t = makeToken (wordType v) v (lx_line (adv l)) (lx_column (adv l) - 1)"
    using assms(3) source_prev [OF assms(1)]
    by (auto simp: lexIdentifierOrKeyword_def Let_def split: prod.splits)
  have g: "goes (adv l) l'"
    using lscans_goes [OF collectWhile_scans [of "adv l" _ "[peek l]"]] v by (metis snd_conv)
  have c: "v = consumed l l'"
    using collectWhile_consumed [OF v] consumed_step [OF assms(1) g] by simp
  have "isWord v"
    using collectWhile_consumed [OF v] assms(2)
    by (auto simp: isWord_def wordChar_def [abs_def])
  then show ?thesis
    using t c wellShaped_word [of v] wordType_not(1,2) [of v]
    by (auto simp: contentToken_def p lexPos_def)
qed

subsection \<open>Operators\<close>

text \<open>
  \<open>lexOperator\<close> after the first character: it yields a spelling of the table that is what was
  consumed, or an ERROR token with the error recorded at the place of the character.
\<close>

definition spelled :: "Lexer \<Rightarrow> string \<Rightarrow> Lexer \<Rightarrow> bool" where
  "spelled l0 w l \<longleftrightarrow> goes l0 l \<and> consumed l0 l = w \<and> lx_indentStack l = lx_indentStack l0 \<and>
     lx_errors l = lx_errors l0 \<and> lx_atLineStart l = lx_atLineStart l0"

definition opResult :: "Lexer \<Rightarrow> Token \<times> Lexer \<Rightarrow> bool" where
  "opResult l0 r \<longleftrightarrow>
    (case r of (t, l) \<Rightarrow>
       (\<exists>ty w. t = makeToken ty w (lx_line l0) (lx_column l0) \<and> (ty, w) \<in> set opTable \<and> spelled l0 w l) \<or>
       (\<exists>w d m. t = makeToken ERROR w (lx_line l0) (lx_column l0) \<and> diagPos d = lexPos l0 \<and>
          goes l0 m \<and> l = m\<lparr>lx_errors := lx_errors l0 @ [d]\<rparr> \<and> lx_indentStack m = lx_indentStack l0 \<and>
          lx_atLineStart m = lx_atLineStart l0))"

lemma spelled_adv: "spelled l0 w l \<Longrightarrow> \<not> isAtEnd l \<Longrightarrow> spelled l0 (w @ [peek l]) (adv l)"
  by (auto simp: spelled_def consumed_snoc intro: goes_trans [OF _ goes_adv])

lemma opResult_ifMatch:
  assumes "spelled l0 w l"
    and "\<And>l. spelled l0 (w @ [e]) l \<Longrightarrow> opResult l0 (yes l)"
    and "opResult l0 (no l)"
  shows "opResult l0 (ifMatch e yes no l)"
proof (cases "matches e l")
  case True
  then have "\<not> isAtEnd l" "peek l = e" by (auto simp: matches_def peek_def)
  then have "spelled l0 (w @ [e]) (adv l)" using spelled_adv [OF assms(1)] by auto
  then show ?thesis using True assms(2) by (simp add: ifMatch_def)
next
  case False
  then show ?thesis using assms(3) by (simp add: ifMatch_def)
qed

lemma opResult_if:
  "(b \<Longrightarrow> opResult l0 (p l)) \<Longrightarrow> (\<not> b \<Longrightarrow> opResult l0 (q l)) \<Longrightarrow> opResult l0 ((if b then p else q) l)"
  by simp

lemma opResult_token:
  assumes "spelled l0 v l" and "v = w" and "(ty, w) \<in> set opTable"
  shows "opResult l0 ((\<lambda>l. (makeToken ty w (lx_line l0) (lx_column l0), l)) l)"
  using assms by (auto simp: opResult_def)

lemma opResult_unexpected:
  assumes "spelled l0 w l"
  shows "opResult l0 (unexpected c (lx_line l0) (lx_column l0) l)"
proof -
  let ?d = "mkLexError (''Unexpected character '' @ [SQUOTE, c, SQUOTE]) (lx_filename l) (lx_line l0) (lx_column l0)"
  have "diagPos ?d = lexPos l0" by (simp add: diagPos_def lexPos_def)
  then show ?thesis
    using assms unfolding opResult_def unexpected_def spelled_def prod.case
    by (intro disjI2 exI [of _ "[c]"] exI [of _ ?d] exI [of _ l]) simp
qed

lemma opResult_ellipsis:
  assumes "spelled l0 v l" and "v = ''.''"
  shows "opResult l0 ((\<lambda>l. if \<not> isAtEnd l \<and> peek l = CHR ''.'' \<and> peekNext l = CHR ''.''
     then (\<lambda>l. (makeToken ELLIPSIS ''...'' (lx_line l0) (lx_column l0), l)) (adv (adv l))
     else (\<lambda>l. (makeToken DOT ''.'' (lx_line l0) (lx_column l0), l)) l) l)"
proof (cases "\<not> isAtEnd l \<and> peek l = CHR ''.'' \<and> peekNext l = CHR ''.''")
  case True
  then have n: "\<not> isAtEnd (adv l)" "peek (adv l) = CHR ''.''"
    by (auto simp: peekNext_def isAtEnd_def peek_def split: if_splits)
  have "spelled l0 (v @ [peek l] @ [peek (adv l)]) (adv (adv l))"
    using spelled_adv [OF spelled_adv [OF assms(1)] n(1)] True by simp
  then have "opResult l0 ((\<lambda>l. (makeToken ELLIPSIS ''...'' (lx_line l0) (lx_column l0), l)) (adv (adv l)))"
    by (rule opResult_token) (simp_all add: True n assms(2) opTable_def)
  then show ?thesis using True by presburger
next
  case False
  have "opResult l0 ((\<lambda>l. (makeToken DOT ''.'' (lx_line l0) (lx_column l0), l)) l)"
    using assms by (rule opResult_token) (simp add: opTable_def)
  with False show ?thesis by presburger
qed

lemma lexOperator_result:
  assumes "spelled l0 [c] l"
  shows "opResult l0 (lexOperator c (lx_line l0) (lx_column l0) l)"
  unfolding lexOperator_def Let_def
  by (insert assms)
    (rule opResult_if | (rule opResult_ifMatch, assumption) | (rule opResult_unexpected, assumption)
     | (rule opResult_ellipsis, assumption) | (rule opResult_token, assumption)
     | (simp add: opTable_def; fail))+

lemma opTable_types:
  assumes "(ty, w) \<in> set opTable"
  shows "ty \<notin> structural" "wellShaped (makeToken ty w ln col)"
proof -
  have "list_all (\<lambda>(ty, w). ty \<notin> structural \<and>
      ty \<notin> {INT_LITERAL, FLOAT_LITERAL, STRING_LITERAL, FSTRING_LITERAL, NEWLINE}) opTable"
    by (simp add: opTable_def structural_def)
  with assms have n: "ty \<notin> structural" "ty \<notin> {INT_LITERAL, FLOAT_LITERAL, STRING_LITERAL, FSTRING_LITERAL, NEWLINE}"
    by (auto simp: list_all_iff)
  then show "ty \<notin> structural" "wellShaped (makeToken ty w ln col)"
    using assms by (auto simp: wellShaped_def split: TokenType.splits)
qed

section \<open>One iteration is a sequence of steps\<close>

text \<open>
  A run that ends in an exception: steps up to a state \<open>l1\<close>, then input consumed up to where the
  exception left the cursor, its position in between. The error is not recorded yet.
\<close>

definition throws :: "Lexer \<times> Token list \<Rightarrow> lex_exn \<Rightarrow> Lexer \<times> Token list \<Rightarrow> bool" where
  "throws s e s' \<longleftrightarrow>
     (\<exists>l1 m. runs s (l1, snd s') \<and> goes l1 m \<and> goes m (fst s') \<and> diagPos (lexDiag e) = lexPos m \<and>
        lx_indentStack (fst s') = lx_indentStack l1 \<and> lx_errors (fst s') = lx_errors l1 \<and>
        (lx_pos l1 < lx_pos (fst s') \<or>
         (\<exists>d. e = IndentationError d) \<and> \<not> isAtEnd (fst s') \<and> peek (fst s') \<noteq> LF))"

lemma runs_skip:
  "goes l l' \<Longrightarrow> lx_indentStack l' = lx_indentStack l \<Longrightarrow> lx_errors l' = lx_errors l \<Longrightarrow> runs (l, ts) (l', ts)"
  by (rule r_into_rtranclp) (rule lexes.skip)

lemma throws_trans: "runs s s1 \<Longrightarrow> throws s1 e s' \<Longrightarrow> throws s e s'"
  unfolding throws_def by (metis (no_types, lifting) rtranclp_trans)

lemma throwsI:
  assumes "\<not> isAtEnd l" and "goes (adv l) l'" and "goes l m" and "goes m l'"
    and "diagPos (lexDiag e) = lexPos m"
    and "lx_indentStack l' = lx_indentStack l" and "lx_errors l' = lx_errors l"
  shows "throws (l, ts) e (l', ts)"
  using assms goes_pos [OF assms(2)] unfolding throws_def
  by (intro exI [of _ l] exI [of _ m]) auto

text \<open>A literal lexer that keeps its contract, inside \<open>emit\<close>.\<close>

lemma emit_refines:
  assumes "yields l (r, l')" and "\<not> isAtEnd l" and "goes (adv l) l'"
    and frame: "lx_indentStack l' = lx_indentStack l" "lx_errors l' = lx_errors l"
    and "emit ts (r, l') = (x, m, ts')"
  shows "(case x of Inr _ \<Rightarrow> runs (l, ts) (m, ts') | Inl e \<Rightarrow> throws (l, ts) e (m, ts'))"
proof (cases r)
  case (Inl e)
  then obtain d k where "e = LexError d" "goes l k" "goes k l'" "diagPos d = lexPos k"
    using assms(1) unfolding yields_def faultsFrom_def by blast
  then show ?thesis
    using assms Inl throwsI [of l l' k e ts] by (auto simp: emit_def)
next
  case (Inr t)
  then have "contentToken l l' t" using assms(1) by (simp add: yields_def)
  moreover have "lx_pos l < lx_pos l'" using goes_pos [OF assms(3)] by simp
  ultimately have "lexes (l, ts) (l', ts @ [t])"
    using frame goes_trans [OF goes_adv [OF assms(2)] assms(3)] by (intro lexes.item) auto
  then show ?thesis using assms(6) Inr by (auto simp: emit_def)
qed

lemma lscans_frame2: "lscans l l' \<Longrightarrow> lx_indentStack l' = lx_indentStack l" "lscans l l' \<Longrightarrow> lx_errors l' = lx_errors l"
  by (auto dest: lscans_frame)

lemma skipToClose_pos: "skipToClose l = (b, l') \<Longrightarrow> goes l l'"
  using skipToClose_scans [of l] by (simp add: lscans_goes)

lemma lexComment_refines:
  assumes "\<not> isAtEnd l" and "peek l = HASH" and "lexComment l ts = (x, l', ts')"
  shows "(case x of Inr _ \<Rightarrow> runs (l, ts) (l', ts') | Inl e \<Rightarrow> throws (l, ts) e (l', ts'))"
proof -
  have g: "goes (adv l) l'" by (rule lexComment_goes [OF assms(1,3)])
  have all: "goes l l'" using goes_adv [OF assms(1)] g by (rule goes_trans)
  have frame: "lx_indentStack l' = lx_indentStack l" "lx_errors l' = lx_errors l" "ts' = ts"
    using assms(3) lscans_frame [OF skipWhile_scans] lscans_frame [OF skipMultiLineComment_scans]
    by (auto simp: lexComment_def Let_def skipSingleLineComment_def split: if_splits prod.splits sum.splits)
      (metis adv_sel(4,5) snd_conv)+
  show ?thesis
  proof (cases x)
    case (Inr f)
    then show ?thesis using runs_skip [OF all frame(1,2)] frame(3) by simp
  next
    case (Inl e)
    then have c: "peekNext l = HASH" "\<not> isAtEnd (adv (adv l))" "peek (adv (adv l)) = HASH"
      "skipMultiLineComment (adv (adv (adv l))) = (Inl e, l')"
      using assms(3) by (auto simp: lexComment_def Let_def split: if_splits prod.splits sum.splits)
    have n: "\<not> isAtEnd (adv l)" "peek (adv l) = HASH"
      using c(1) by (auto simp: peekNext_def isAtEnd_def peek_def split: if_splits)
    have "lexPos l = SrcPos (lx_line (adv (adv (adv l)))) (lx_column (adv (adv (adv l))) - 3)"
      using assms(2) n(2) c(3) by (simp add: adv_pos lexPos_def)
    moreover obtain msg where "lexDiag e = mkLexError msg (lx_filename l') (lx_line (adv (adv (adv l))))
        (lx_column (adv (adv (adv l))) - 3)"
      using c(4) by (auto simp: skipMultiLineComment_def Let_def errorAt_def split: prod.splits bool.splits)
    ultimately have "diagPos (lexDiag e) = lexPos l" by (simp add: diagPos_def)
    then show ?thesis
      using throwsI [OF assms(1) g goes_refl all _ frame(1,2)] Inl frame(3) by simp
  qed
qed

lemma lexItem_refines:
  assumes "\<not> isAtEnd l" and "lexItem l ts = (x, l', ts')"
  shows "(case x of Inr _ \<Rightarrow> runs (l, ts) (l', ts') | Inl e \<Rightarrow> throws (l, ts) e (l', ts'))"
proof -
  have g: "goes (adv l) l'" by (rule lexItem_goes [OF assms])
  have all: "goes l l'" using goes_adv [OF assms(1)] g by (rule goes_trans)
  have pos: "lx_pos l < lx_pos l'" by (rule lexItem_advances [OF assms])
  consider (ws) "peek l = SPACE \<or> peek l = TAB \<or> peek l = CR" | (nl) "peek l = LF" | (hash) "peek l = HASH"
    | (fstr) "peek l = CHR ''f''" "peekNext l = DQUOTE \<or> peekNext l = SQUOTE"
    | (str) "peek l = DQUOTE \<or> peek l = SQUOTE" | (num) "isdigit (peek l)"
    | (word) "isalpha (peek l) \<or> peek l = UNDERSCORE" "\<not> (peek l = CHR ''f'' \<and> (peekNext l = DQUOTE \<or> peekNext l = SQUOTE))"
    | (op) "\<not> (peek l = SPACE \<or> peek l = TAB \<or> peek l = CR \<or> peek l = LF \<or> peek l = HASH \<or>
        peek l = CHR ''f'' \<and> (peekNext l = DQUOTE \<or> peekNext l = SQUOTE) \<or> peek l = DQUOTE \<or> peek l = SQUOTE \<or>
        isdigit (peek l) \<or> isalpha (peek l) \<or> peek l = UNDERSCORE)"
    by blast
  then show ?thesis
  proof cases
    case ws
    then have "x = Inr Continue" "l' = skipWhitespace l" "ts' = ts"
      using assms(2) by (auto simp: lexItem_def Let_def)
    moreover have "lx_indentStack (skipWhitespace l) = lx_indentStack l" "lx_errors (skipWhitespace l) = lx_errors l"
      using lscans_frame [OF skipWhile_scans] by (auto simp: skipWhitespace_def)
    ultimately show ?thesis using runs_skip [OF all] by simp
  next
    case nl
    then have e: "lexNewline l ts = (x, l', ts')" using assms(2) by (simp add: lexItem_def Let_def)
    then have x: "x = Inr Continue" "l' = (adv l)\<lparr>lx_atLineStart := True\<rparr>" by (auto simp: lexNewline_def Let_def)
    let ?t = "makeToken NEWLINE [BACKSLASH, CHR ''n''] (lx_line l) (lx_column l)"
    have "lexes (l, ts) (l', ts @ [?t])"
      using all pos x(2)
      by (intro lexes.item) (auto simp: contentToken_def wellShaped_def structural_def verbatim_def lexPos_def)
    moreover have "lexes (l, ts) (l', ts)" using all x(2) by (intro lexes.skip) simp_all
    moreover have "ts' = ts \<or> ts' = ts @ [?t]" using e by (auto simp: lexNewline_def Let_def split: if_splits)
    ultimately show ?thesis using x(1) by auto
  next
    case hash
    then have "lexComment l ts = (x, l', ts')" using assms(2) by (simp add: lexItem_def Let_def)
    then show ?thesis using assms(1) hash by (intro lexComment_refines) simp_all
  next
    case fstr
    have n: "\<not> isAtEnd (adv l)" "peek (adv l) = peekNext l"
      using fstr(2) by (auto simp: peekNext_def isAtEnd_def peek_def split: if_splits)
    obtain r m where r: "lexFString (peek (adv l)) (adv (adv l)) = (r, m)" by fastforce
    then have e: "emit ts (r, m) = (x, l', ts')"
      using assms(2) fstr n(2) by (auto simp: lexItem_def Let_def advance_def)
    have s: "lscans (adv l) m" using lexFString_scans [of "adv (adv l)" "peek (adv l)"] r n(1) by (simp add: scans_stepI)
    have "yields l (r, m)"
      using lexFString_yields [OF assms(1) n(1) fstr(1) refl] fstr(2) n(2) r by simp
    from emit_refines [OF this assms(1) lscans_goes [OF s] _ _ e] lscans_frame [OF s]
    show ?thesis by simp
  next
    case str
    obtain r m where r: "lexString (peek l) (adv l) = (r, m)" by fastforce
    then have e: "emit ts (r, m) = (x, l', ts')"
      using assms(2) str by (auto simp: lexItem_def Let_def)
    have s: "lscans (adv l) m" using lexString_scans [of "adv l" "peek l"] r by simp
    have "yields l (r, m)" using lexString_yields [OF assms(1), of "peek l"] str r by auto
    from emit_refines [OF this assms(1) lscans_goes [OF s] _ _ e] lscans_frame [OF s]
    show ?thesis by simp
  next
    case num
    obtain r m where r: "lexNumber (adv l) = (r, m)" by fastforce
    have "peek l \<notin> {SPACE, TAB, CR, LF, HASH, CHR ''f'', DQUOTE, SQUOTE}"
      using num by (auto simp: char_class_defs)
    with r have e: "emit ts (r, m) = (x, l', ts')"
      using assms(2) num by (simp add: lexItem_def Let_def)
    have s: "lscans (adv l) m" using lexNumber_scans [of "adv l"] r by simp
    have "yields l (r, m)" using lexNumber_yields [OF assms(1) num] r by simp
    from emit_refines [OF this assms(1) lscans_goes [OF s] _ _ e] lscans_frame [OF s]
    show ?thesis by simp
  next
    case word
    obtain t m where r: "lexIdentifierOrKeyword (adv l) = (t, m)" by fastforce
    then have e: "x = Inr Continue" "l' = m" "ts' = ts @ [t]"
      using assms(2) word isdigit_not_isalpha [of "peek l"]
      by (auto simp: lexItem_def Let_def char_class_defs split: if_splits)
    have "lscans (adv l) m" using lexIdentifierOrKeyword_scans [of "adv l"] r by simp
    then show ?thesis
      using lexes.item [OF all pos _ _ lexIdentifier_yields [OF assms(1) word(1) r [folded e(2)]], of ts] e
        lscans_frame [of "adv l" m]
      by auto
  next
    case op
    obtain t m where r: "lexOperator (peek l) (lx_line l) (lx_column l) (adv l) = (t, m)" by fastforce
    then have e: "x = Inr Fall" "l' = m" "ts' = ts @ [t]"
      using assms(2) op by (auto simp: lexItem_def Let_def split: if_splits)
    have "spelled l [peek l] (adv l)"
      using assms(1) by (simp add: spelled_def goes_adv consumed_adv)
    from lexOperator_result [OF this] r have "opResult l (t, m)" by simp
    then consider (tok) ty w where "t = makeToken ty w (lx_line l) (lx_column l)" "(ty, w) \<in> set opTable" "spelled l w m"
      | (bad) w d k where "t = makeToken ERROR w (lx_line l) (lx_column l)" "diagPos d = lexPos l"
          "goes l k" "m = k\<lparr>lx_errors := lx_errors l @ [d]\<rparr>" "lx_indentStack k = lx_indentStack l"
      by (auto simp: opResult_def)
    then have "lexes (l, ts) (l', ts @ [t])"
    proof cases
      case tok
      then have "contentToken l m t"
        using opTable_types [OF tok(2)] by (auto simp: contentToken_def spelled_def lexPos_def)
      then show ?thesis using tok(3) all pos e(2) by (intro lexes.item) (auto simp: spelled_def)
    next
      case bad
      then have d: "d_line d = lx_line l" "d_col d = lx_column l" by (simp_all add: diagPos_def lexPos_def)
      have "lexes (l, ts) (l', ts @ [makeToken ERROR w (d_line d) (d_col d)])"
        using bad all pos e(2) by (intro lexes.fault [OF goes_refl]) simp_all
      then show ?thesis using bad(1) d by simp
    qed
    then show ?thesis using e by auto
  qed
qed

subsection \<open>Indentation\<close>

lemma countTabs_value: "countTabs n l = (Inr k, l') \<Longrightarrow> k = n + int (lx_pos l') - int (lx_pos l)"
proof (induction n l rule: countTabs.induct)
  case (1 n l)
  then show ?case
    by (subst (asm) (2) countTabs.simps) (auto split: if_splits)
qed

lemma countTabs_fault:
  "countTabs n l = (Inl e, l') \<Longrightarrow>
     (\<exists>d. e = IndentationError d \<and> diagPos d = lexPos l') \<and> \<not> isAtEnd l' \<and> peek l' = SPACE"
proof (induction n l rule: countTabs.induct)
  case (1 n l)
  then show ?case
    by (subst (asm) (2) countTabs.simps) (auto simp: diagPos_def lexPos_def split: if_splits)
qed

text \<open>The pops are DEDENT steps, as long as there is a level deeper than the new one.\<close>

lemma popDeeper_runs:
  assumes "stack_ok st" and "0 \<le> n"
    and "popDeeper n (makeToken DEDENT ''<DEDENT>'' (lx_line l) (lx_column l)) st ts = (st', ts')"
  shows "runs (l\<lparr>lx_indentStack := st\<rparr>, ts) (l\<lparr>lx_indentStack := st'\<rparr>, ts') \<and> stack_ok st' \<and> hd st' \<le> n"
  using assms
proof (induction st arbitrary: ts)
  case Nil
  then show ?case by (simp add: stack_ok_def)
next
  case (Cons lvl st)
  let ?t = "makeToken DEDENT ''<DEDENT>'' (lx_line l) (lx_column l)"
  show ?case
  proof (cases "n < lvl")
    case True
    then have "stack_ok st" using stack_ok_pop [OF Cons.prems(1)] Cons.prems(2) by simp
    then have "runs (l\<lparr>lx_indentStack := st\<rparr>, ts @ [?t]) (l\<lparr>lx_indentStack := st'\<rparr>, ts') \<and> stack_ok st' \<and> hd st' \<le> n"
      using Cons.IH [of "ts @ [?t]"] Cons.prems(2,3) True by simp
    moreover have "lexes (l\<lparr>lx_indentStack := lvl # st\<rparr>, ts) (l\<lparr>lx_indentStack := st\<rparr>, ts @ [?t])"
      using lexes.dedent [of "l\<lparr>lx_indentStack := lvl # st\<rparr>" ts] True Cons.prems(2) by simp
    ultimately show ?thesis by (meson converse_rtranclp_into_rtranclp)
  next
    case False
    then show ?thesis using Cons.prems by auto
  qed
qed

lemma handleIndentation_refines:
  assumes "stack_ok (lx_indentStack l)" and "handleIndentation l ts = (x, l', ts')"
  shows "(case x of Inr _ \<Rightarrow> runs (l, ts) (l', ts') | Inl e \<Rightarrow> throws (l, ts) e (l', ts'))"
proof -
  obtain c m where m: "countTabs 0 l = (c, m)" by fastforce
  have s: "lscans l m" using countTabs_scans [of l 0] m by simp
  note g = lscans_goes [OF s] and frame = lscans_frame [OF s]
  show ?thesis
  proof (cases c)
    case (Inl e)
    then have x: "x = Inl e" "l' = m" "ts' = ts" using assms(2) m by (auto simp: handleIndentation_def)
    obtain d where d: "e = IndentationError d" "diagPos d = lexPos m" "\<not> isAtEnd m" "peek m = SPACE"
      using countTabs_fault [of 0 l e m] m Inl by auto
    then have "throws (l, ts) e (m, ts)"
      unfolding throws_def using g frame
      by (intro exI [of _ l] exI [of _ m]) (simp add: goes_refl)
    then show ?thesis using x by simp
  next
    case (Inr n)
    have n: "n = int (lx_pos m) - int (lx_pos l)" using countTabs_value [of 0 l n m] m Inr by simp
    then have n0: "0 \<le> n" using goes_pos [OF g] by simp
    have hd0: "0 \<le> hd (lx_indentStack l)" using assms(1) by (rule stack_ok_hd)
    have quiet: "runs (l, ts) (m, ts)" using runs_skip [OF g] frame by simp
    consider (blank) "isAtEnd m \<or> peek m = LF \<or> peek m = HASH"
      | (deeper) "\<not> (isAtEnd m \<or> peek m = LF \<or> peek m = HASH)" "hd (lx_indentStack l) < n"
      | (same) "\<not> (isAtEnd m \<or> peek m = LF \<or> peek m = HASH)" "n = hd (lx_indentStack l)"
      | (shallower) "\<not> (isAtEnd m \<or> peek m = LF \<or> peek m = HASH)" "n < hd (lx_indentStack l)"
      by linarith
    then show ?thesis
    proof cases
      case blank
      then have "x = Inr () \<and> l' = m \<and> ts' = ts"
        using assms(2) m Inr by (simp add: handleIndentation_def Let_def split: if_splits)
      then show ?thesis using quiet by simp
    next
      case same
      then show ?thesis using assms(2) m Inr quiet frame by (auto simp: handleIndentation_def Let_def)
    next
      case deeper
      then have x: "x = Inr ()" "l' = m\<lparr>lx_indentStack := n # lx_indentStack l\<rparr>"
        "ts' = ts @ [makeToken INDENT ''<INDENT>'' (lx_line l) (lx_column l)]"
        using assms(2) m Inr frame by (auto simp: handleIndentation_def Let_def)
      have "lexes (l, ts) (l', ts')"
        unfolding x(3) using x(2) g n hd0 deeper(2) frame by (intro lexes.indent [of l l' n ts]) simp_all
      then show ?thesis using x(1) by auto
    next
      case shallower
      obtain st tks where p: "popDeeper n (makeToken DEDENT ''<DEDENT>'' (lx_line l) (lx_column l))
          (lx_indentStack l) ts = (st, tks)" by fastforce
      from popDeeper_runs [OF assms(1) n0 p]
      have r: "runs (l, ts) (l\<lparr>lx_indentStack := st\<rparr>, tks)" and ok: "stack_ok st" "hd st \<le> n" by simp_all
      have l': "l' = m\<lparr>lx_indentStack := st\<rparr>" "ts' = tks"
        and x: "x = (if n \<noteq> hd st then Inl (LexError (mkLexError ''inconsistent indentation level''
            (lx_filename m) (lx_line l) (lx_column l))) else Inr ())"
        using assms(2) m Inr shallower p frame(2,4)
        by (auto simp: handleIndentation_def Let_def errorAt_def split: if_splits)
      have skip: "runs (l\<lparr>lx_indentStack := st\<rparr>, tks) (l', ts')"
        using l' g frame by (simp add: runs_skip)
      show ?thesis
      proof (cases "n = hd st")
        case True
        then show ?thesis using x r skip by simp
      next
        case False
        then have "lx_pos l < lx_pos m" using n ok stack_ok_hd [OF ok(1)] by simp
        then have "throws (l, ts) (LexError (mkLexError ''inconsistent indentation level''
            (lx_filename m) (lx_line l) (lx_column l))) (l', ts')"
          unfolding throws_def using r l' g frame
          by (intro exI [of _ "l\<lparr>lx_indentStack := st\<rparr>"]) (simp add: goes_refl diagPos_def lexPos_def)
        then show ?thesis using x False by simp
      qed
    qed
  qed
qed

subsection \<open>The iteration\<close>

lemma lexes_stack_ok:
  "lexes (l, ts) (l', ts') \<Longrightarrow> stack_ok (lx_indentStack l) \<Longrightarrow> stack_ok (lx_indentStack l')"
  by (erule lexesE) (auto simp: stack_ok_push stack_ok_pop)

lemma runs_stack_ok:
  "runs (l, ts) (l', ts') \<Longrightarrow> stack_ok (lx_indentStack l) \<Longrightarrow> stack_ok (lx_indentStack l')"
  by (induction rule: rtranclp_induct2) (auto dest: lexes_stack_ok)

lemma tokenizeTry_refines:
  assumes "\<not> isAtEnd l" and "stack_ok (lx_indentStack l)" and "tokenizeTry l ts = (x, l', ts')"
  shows "(case x of Inr _ \<Rightarrow> runs (l, ts) (l', ts') | Inl e \<Rightarrow> throws (l, ts) e (l', ts'))"
proof (cases "lx_atLineStart l")
  case True
  let ?l = "l\<lparr>lx_atLineStart := False\<rparr>"
  have start: "runs (l, ts) (?l, ts)" by (rule runs_skip) (simp_all add: goes_refl)
  obtain c m tks where m: "handleIndentation ?l ts = (c, m, tks)" by (metis prod_cases3)
  have h: "(case c of Inr _ \<Rightarrow> runs (l, ts) (m, tks) | Inl e \<Rightarrow> throws (l, ts) e (m, tks))"
    using handleIndentation_refines [OF _ m] assms(2) start
    by (cases c) (auto intro: throws_trans)
  show ?thesis
  proof (cases c)
    case (Inl e)
    then show ?thesis using assms(3) True m h by (auto simp: tokenizeTry_def)
  next
    case (Inr u)
    with h have h: "runs (l, ts) (m, tks)" by simp
    show ?thesis
    proof (cases "isAtEnd m \<or> peek m = LF")
      case True
      then show ?thesis using assms(3) \<open>lx_atLineStart l\<close> m Inr h
        by (auto simp: tokenizeTry_def split: if_splits)
    next
      case False
      then have "lexItem m tks = (x, l', ts')"
        using assms(3) \<open>lx_atLineStart l\<close> m Inr by (simp add: tokenizeTry_def)
      with False h show ?thesis
        using lexItem_refines [of m tks x l' ts'] by (cases x) (auto intro: throws_trans)
    qed
  qed
next
  case False
  then show ?thesis using assms lexItem_refines by (simp add: tokenizeTry_def)
qed

lemma recover_refines:
  assumes "throws (l, ts) e (l', ts')" and "recover sp e l' ts' = (l'', ts'')"
  shows "runs (l, ts) (l'', ts'')"
proof -
  obtain l1 m where r: "runs (l, ts) (l1, ts')" and g: "goes l1 m" "goes m l'"
    and d: "diagPos (lexDiag e) = lexPos m"
    and frame: "lx_indentStack l' = lx_indentStack l1" "lx_errors l' = lx_errors l1"
    and pos: "lx_pos l1 < lx_pos l' \<or> (\<exists>d. e = IndentationError d) \<and> \<not> isAtEnd l' \<and> peek l' \<noteq> LF"
    using assms(1) by (auto simp: throws_def)
  have g'': "goes m l''" using g(2) recover_goes [OF assms(2)] by (rule goes_trans)
  have stk: "lx_indentStack l'' = lx_indentStack l1"
    using assms(2) frame(1) lscans_frame [OF skipWhile_scans]
    by (auto simp: recover_def Let_def split: lex_exn.splits if_splits)
  have p2: "lx_pos l' \<le> lx_pos l''" using goes_pos [OF recover_goes [OF assms(2)]] .
  have "lexes (l1, ts') (l'', ts'')"
  proof (cases e)
    case (LexError e')
    then have "lx_errors l'' = lx_errors l1 @ [e']" "ts'' = ts' @ [makeToken ERROR ''<lex-error>'' (d_line e') (d_col e')]"
      using assms(2) frame(2) by (auto simp: recover_def Let_def split: if_splits)
    then show ?thesis using g(1) g'' d LexError stk pos p2 by (auto intro!: lexes.fault)
  next
    case (IndentationError e')
    let ?d = "mkLexError (diagWhat e') (d_filename e') (d_line e') (d_col e')"
    have e: "lx_errors l'' = lx_errors l1 @ [?d]" "ts'' = ts' @ [makeToken ERROR ''<indent-error>'' (d_line ?d) (d_col ?d)]"
      using assms(2) frame(2) IndentationError lscans_frame(5) [OF skipWhile_scans]
      by (auto simp: recover_def)
    have "lx_pos l1 < lx_pos l''"
    proof (cases "lx_pos l1 < lx_pos l'")
      case False
      let ?k = "l'\<lparr>lx_errors := lx_errors l' @ [?d]\<rparr>"
      have "\<not> isAtEnd ?k" "peek ?k \<noteq> LF" using pos False by (auto simp: peek_def)
      then have "l'' = skipWhile (\<lambda>c. c \<noteq> LF) (adv ?k)"
        using assms(2) IndentationError skipWhile_step [of ?k] by (simp add: recover_def)
      then have "lx_pos l' < lx_pos l''" using goes_pos [OF skipWhile_goes [of "adv ?k" "\<lambda>c. c \<noteq> LF"]] by simp
      then show ?thesis using goes_pos [OF goes_trans [OF g]] by simp
    qed (use p2 in simp)
    moreover have "diagPos ?d = lexPos m" using d IndentationError by (simp add: diagPos_def)
    ultimately show ?thesis
      unfolding e(2) using g(1) g'' stk e(1) by (intro lexes.fault)
  qed
  with r show ?thesis by (rule rtranclp.rtrancl_into_rtrancl)
qed

lemma guardProgress_refines: "runs s (l, ts) \<Longrightarrow> runs s (guardProgress l0 l, ts)"
  by (erule rtranclp.rtrancl_into_rtrancl, rule lexes.skip [OF guardProgress_goes])
    (simp_all add: guardProgress_def)

lemma tokenizeStep_refines:
  assumes "\<not> isAtEnd l" and "stack_ok (lx_indentStack l)" and "tokenizeStep l ts fe = (go, l', ts', fe')"
  shows "runs (l, ts) (l', ts')"
proof -
  obtain x m tks where m: "tokenizeTry l ts = (x, m, tks)" by (metis prod_cases3)
  from tokenizeTry_refines [OF assms(1,2) m] show ?thesis
    using assms(3) m
    by (auto simp: tokenizeStep_def split: sum.splits flow.splits prod.splits
        intro: guardProgress_refines dest: recover_refines)
qed

lemma tokenizeLoop_refines:
  "stack_ok (lx_indentStack l) \<Longrightarrow> tokenizeLoop l ts fe = (l', ts', fe') \<Longrightarrow> runs (l, ts) (l', ts')"
proof (induction l ts fe arbitrary: l' ts' fe' rule: tokenizeLoop.induct)
  case (1 l ts fe)
  show ?case
  proof (cases "isAtEnd l")
    case True
    then show ?thesis using 1(3) by (subst (asm) tokenizeLoop.simps) simp
  next
    case False
    obtain go m tks fe1 where m: "tokenizeStep l ts fe = (go, m, tks, fe1)" by (metis prod_cases4)
    have r: "runs (l, ts) (m, tks)" by (rule tokenizeStep_refines [OF False 1(2) m])
    show ?thesis
    proof (cases go)
      case True
      then have "tokenizeLoop m tks fe1 = (l', ts', fe')"
        using 1(3) m False by (subst (asm) tokenizeLoop.simps) simp
      then have "runs (m, tks) (l', ts')"
        using 1(1) [OF False m [symmetric] refl refl True] runs_stack_ok [OF r 1(2)] by simp
      with r show ?thesis by (rule rtranclp_trans)
    next
      case False
      then show ?thesis using 1(3) m r \<open>\<not> isAtEnd l\<close> by (subst (asm) tokenizeLoop.simps) simp
    qed
  qed
qed

end
