(* ===== verification/Lexer_Props.thy ===== *)
theory Lexer_Props
  imports Lexer_Spec
begin

text \<open>
  The guarantees of a run of the lexer, by rule induction on the step relation: where tokens stand,
  how INDENT and DEDENT nest, how many tokens there are, which errors are recorded, and what the
  lexeme of a token can be.
\<close>

section \<open>The invariant of the token stream\<close>

definition coords :: "string \<Rightarrow> nat \<Rightarrow> SrcPos" where
  "coords src p = SrcPos (lineAt src p) (colAt src p)"

text \<open>A token that stands at an offset of the source and, if its lexeme is verbatim, spells the input there.\<close>

definition placed :: "string \<Rightarrow> Token \<Rightarrow> bool" where
  "placed src t \<longleftrightarrow>
     (\<exists>p \<le> length src. tokPos t = coords src p \<and>
        (tk_type t \<notin> structural \<longrightarrow> wellShaped t \<and>
           (tk_type t \<in> verbatim \<longrightarrow> (\<exists>q \<le> length src. p \<le> q \<and> tk_lexeme t = substr p q src))))"

text \<open>The nesting depth after a token sequence, undefined when a DEDENT closes nothing.\<close>

fun nesting :: "nat \<Rightarrow> Token list \<Rightarrow> nat option" where
  "nesting d [] = Some d"
| "nesting d (t # ts) =
    (if tk_type t = INDENT then nesting (Suc d) ts
     else if tk_type t = DEDENT then (case d of 0 \<Rightarrow> None | Suc d \<Rightarrow> nesting d ts)
     else nesting d ts)"

lemma nesting_append: "nesting d (xs @ ys) = Option.bind (nesting d xs) (\<lambda>e. nesting e ys)"
  by (induction d xs rule: nesting.induct) (auto split: nat.splits)

definition errorTokens :: "Token list \<Rightarrow> Token list" where
  "errorTokens ts = filter (\<lambda>t. tk_type t = ERROR) ts"

definition streamInv :: "string \<Rightarrow> Lexer \<Rightarrow> Token list \<Rightarrow> bool" where
  "streamInv src l ts \<longleftrightarrow>
     lx_source l = src \<and> lx_pos l \<le> length src \<and> located l \<and> stack_ok (lx_indentStack l) \<and>
     sorted (map tokPos ts) \<and> list_all (\<lambda>t. tokPos t \<le> lexPos l) ts \<and> list_all (placed src) ts \<and>
     list_all (\<lambda>t. tk_type t \<noteq> END_OF_FILE) ts \<and>
     nesting 0 ts = Some (length (lx_indentStack l) - 1) \<and>
     length ts + (length (lx_indentStack l) - 1) \<le> 2 * lx_pos l \<and>
     map diagPos (lx_errors l) = map tokPos (errorTokens ts)"

lemma streamInv_start:
  assumes "l = (mkLexer src f)\<lparr>lx_errors := []\<rparr>"
  shows "streamInv (normalizeIndentation src) l []"
  using assms
  by (simp add: streamInv_def mkLexer_def located_def lexPos_def lineAt_def colAt_def stack_ok_base errorTokens_def)

lemma streamInv_goes:
  assumes "streamInv src l ts" and "goes l l'"
  shows "lx_source l' = src" "lx_pos l' \<le> length src" "located l'" "lexPos l \<le> lexPos l'" "lx_pos l \<le> lx_pos l'"
    "lexPos l' = coords src (lx_pos l')"
proof -
  show *: "lx_source l' = src" and "lx_pos l' \<le> length src" and "located l'" "lexPos l \<le> lexPos l'" "lx_pos l \<le> lx_pos l'"
    using assms goes_source goes_bounds located_goes goes_lexPos goes_pos by (auto simp: streamInv_def)
  then show "lexPos l' = coords src (lx_pos l')" by (simp add: located_def coords_def)
qed

lemma stack_ok_length: "stack_ok st \<Longrightarrow> 0 < length st"
  by (simp add: stack_ok_def)

text \<open>What a step that appends one token has to show.\<close>

lemma streamInv_append:
  assumes inv: "streamInv src l ts" and g: "goes l m" "goes m l'" and t: "tokPos t = lexPos m"
    and pl: "placed src t" and eof: "tk_type t \<noteq> END_OF_FILE"
    and stk: "stack_ok (lx_indentStack l')"
    and nest: "nesting (length (lx_indentStack l) - 1) [t] = Some (length (lx_indentStack l') - 1)"
    and len: "length (lx_indentStack l') + 2 * lx_pos l + 1 \<le> length (lx_indentStack l) + 2 * lx_pos l'"
    and err: "map diagPos (lx_errors l') = map diagPos (lx_errors l) @ map tokPos (errorTokens [t])"
  shows "streamInv src l' (ts @ [t])"
proof -
  have mono: "tokPos u \<le> lexPos l'" if "tokPos u \<le> lexPos l" for u
    using that goes_lexPos [OF g(1)] goes_lexPos [OF g(2)] by (meson order.trans)
  have "sorted (map tokPos (ts @ [t]))"
    using inv t goes_lexPos [OF g(1)] by (auto simp: streamInv_def sorted_append list_all_iff)
  moreover have "list_all (\<lambda>u. tokPos u \<le> lexPos l') (ts @ [t])"
    using inv t goes_lexPos [OF g(2)] mono by (auto simp: streamInv_def list_all_iff)
  moreover have "length (ts @ [t]) + (length (lx_indentStack l') - 1) \<le> 2 * lx_pos l'"
  proof -
    have "length ts + (length (lx_indentStack l) - 1) \<le> 2 * lx_pos l" and "0 < length (lx_indentStack l)"
      using inv stack_ok_length by (auto simp: streamInv_def simp del: length_greater_0_conv)
    then show ?thesis using len stack_ok_length [OF stk] unfolding length_append list.size by arith
  qed
  ultimately show ?thesis
    using inv streamInv_goes [OF inv goes_trans [OF g]] pl eof stk nest err
    by (simp add: streamInv_def nesting_append errorTokens_def)
qed

lemma placed_structural:
  "streamInv src l ts \<Longrightarrow> goes l m \<Longrightarrow> tokPos t = lexPos m \<Longrightarrow> tk_type t \<in> structural \<Longrightarrow> placed src t"
  using streamInv_goes [of src l ts m] unfolding placed_def
  by (intro exI [of _ "lx_pos m"]) auto

lemma placed_content:
  assumes "streamInv src l ts" and "goes l l'" and "contentToken l l' t"
  shows "placed src t"
  using assms streamInv_goes [OF assms(1) goes_refl] streamInv_goes [OF assms(1,2)]
  unfolding placed_def contentToken_def consumed_def
  by (intro exI [of _ "lx_pos l"]) auto

lemma lexes_streamInv:
  assumes "lexes (l, ts) (l', ts')" and inv: "streamInv src l ts"
  shows "streamInv src l' ts'"
  using assms(1)
proof cases
  case skip
  then show ?thesis
    using inv streamInv_goes [OF inv skip(2)] by (auto simp: streamInv_def list_all_iff intro: order.trans)
next
  case (item t)
  then have "tk_type t \<notin> structural" "tokPos t = lexPos l" by (auto simp: contentToken_def)
  then show ?thesis
    unfolding item(1) using inv item
    by (intro streamInv_append [OF inv goes_refl item(2)] placed_content [OF inv item(2)])
      (auto simp: streamInv_def structural_def errorTokens_def)
next
  case (indent n)
  have "stack_ok (n # lx_indentStack l)" using inv indent(4) by (auto simp: streamInv_def stack_ok_push)
  then show ?thesis
    unfolding indent(1) using inv indent stack_ok_length [of "lx_indentStack l"]
    by (intro streamInv_append [OF inv goes_refl indent(2)] placed_structural [OF inv goes_refl])
      (auto simp: streamInv_def structural_def errorTokens_def lexPos_def)
next
  case dedent
  have ok: "stack_ok (lx_indentStack l)" using inv by (simp add: streamInv_def)
  note pop = stack_ok_pop [OF ok dedent(3)]
  obtain n st where st: "lx_indentStack l = n # st" "st \<noteq> []"
    using ok pop by (cases "lx_indentStack l") (auto simp: stack_ok_def)
  have "goes l l'" using dedent(1) by (simp add: goes_refl)
  then show ?thesis
    unfolding dedent(2) using inv dedent(1) st pop
    by (intro streamInv_append [OF inv goes_refl] placed_structural [OF inv goes_refl])
      (auto simp: streamInv_def structural_def errorTokens_def lexPos_def neq_Nil_conv)
next
  case (fault m d w)
  then show ?thesis
    unfolding fault(1) using inv
    by (intro streamInv_append [OF inv fault(2,3)] placed_structural [OF inv fault(2)])
      (auto simp: streamInv_def structural_def errorTokens_def lexPos_def diagPos_def)
qed

lemma runs_streamInv: "runs (l, ts) (l', ts') \<Longrightarrow> streamInv src l ts \<Longrightarrow> streamInv src l' ts'"
  by (induction rule: rtranclp_induct2) (auto dest: lexes_streamInv)

section \<open>The end of a run\<close>

lemma flushDedents_spec:
  "stack_ok st \<Longrightarrow> flushDedents tok st ts = ([0], ts @ replicate (length st - 1) tok)"
proof (induction st arbitrary: ts)
  case Nil
  then show ?case by (simp add: stack_ok_def)
next
  case (Cons n st)
  show ?case
  proof (cases "st = []")
    case True
    then show ?thesis using Cons.prems by (simp add: stack_ok_def)
  next
    case False
    then have "last st \<in> set st" by (rule last_in_set)
    moreover from False have "last st = 0" using Cons.prems by (simp add: stack_ok_def)
    ultimately have "0 < n" using Cons.prems by (auto simp: stack_ok_def)
    moreover from this have "stack_ok st" using stack_ok_pop [OF Cons.prems] by simp
    moreover have "length st = Suc (length st - 1)" using False by (cases st) auto
    ultimately show ?thesis using Cons.IH [of "ts @ [tok]"]
      by (metis (no_types, lifting) append.assoc append_Cons append_Nil diff_Suc_1 flushDedents.simps(2)
          length_Cons replicate_Suc)
  qed
qed

lemma nesting_replicate:
  "tk_type t = DEDENT \<Longrightarrow> nesting n (replicate n t) = Some 0"
  by (induction n) auto

lemma tokenizeLoop_inv:
  assumes "tokenizeLoop ((mkLexer src f)\<lparr>lx_errors := []\<rparr>) [] None = (l, ts, fe)"
  shows "streamInv (normalizeIndentation src) l ts"
proof (rule runs_streamInv)
  show "runs ((mkLexer src f)\<lparr>lx_errors := []\<rparr>, []) (l, ts)"
    using assms by (rule tokenizeLoop_refines [rotated]) (simp add: mkLexer_def stack_ok_base)
  show "streamInv (normalizeIndentation src) ((mkLexer src f)\<lparr>lx_errors := []\<rparr>) []"
    by (rule streamInv_start) simp
qed

text \<open>
  A returned token vector: the stream of the main loop, the DEDENT tokens that close the open levels
  and the end marker, all at the final position.
\<close>

definition closeStream :: "Lexer \<Rightarrow> Token list \<Rightarrow> Token list" where
  "closeStream l ts =
     ts @ replicate (length (lx_indentStack l) - 1) (makeToken DEDENT ''<DEDENT>'' (lx_line l) (lx_column l)) @
     [makeToken END_OF_FILE [] (lx_line l) (lx_column l)]"

lemma tokenize_run:
  assumes "tokenizeLoop (lx\<lparr>lx_errors := []\<rparr>) [] None = (l, ts, fe)" and "streamInv src l ts"
  shows "tokenize lx =
    (case fe of None \<Rightarrow> Tokens (closeStream l ts) | Some e \<Rightarrow> Thrown e, l\<lparr>lx_indentStack := [0]\<rparr>)"
proof -
  have "length ts \<le> length (lx_source l) * 2 + 1" and "stack_ok (lx_indentStack l)"
    using assms(2) by (auto simp: streamInv_def)
  then show ?thesis
    using assms(1) by (auto simp: tokenize_def flushDedents_spec closeStream_def split: option.splits)
qed

lemma tokenize_TokensE:
  assumes "tokenize (mkLexer src f) = (Tokens ts, l')"
  obtains l ts0 where "streamInv (normalizeIndentation src) l ts0" "ts = closeStream l ts0"
    "lx_errors l' = lx_errors l"
    "tokenizeLoop ((mkLexer src f)\<lparr>lx_errors := []\<rparr>) [] None = (l, ts0, None)"
proof -
  obtain l ts0 fe where r: "tokenizeLoop ((mkLexer src f)\<lparr>lx_errors := []\<rparr>) [] None = (l, ts0, fe)"
    by (metis prod_cases3)
  note inv = tokenizeLoop_inv [OF r]
  from that [OF inv _ _] tokenize_run [OF r inv] assms r show thesis
    by (cases fe) (auto split: option.splits)
qed

lemma lexSource_TokensE:
  assumes "lexSource src f = Tokens ts"
  obtains l ts0 where "streamInv (normalizeIndentation src) l ts0" "ts = closeStream l ts0"
    "tokenizeLoop ((mkLexer src f)\<lparr>lx_errors := []\<rparr>) [] None = (l, ts0, None)"
  using assms unfolding lexSource_def by (metis prod.collapse tokenize_TokensE)

lemma closeStream_sel:
  assumes "streamInv src l ts"
  shows "sorted (map tokPos (closeStream l ts))" and "list_all (placed src) (closeStream l ts)"
    and "errorTokens (closeStream l ts) = errorTokens ts"
    and "nesting 0 (closeStream l ts) = Some 0"
proof -
  have p: "placed src t" if "tokPos t = lexPos l" "tk_type t \<in> structural" for t
    using placed_structural [OF assms goes_refl] that by simp
  show "sorted (map tokPos (closeStream l ts))"
    using assms by (auto simp: streamInv_def closeStream_def sorted_append list_all_iff lexPos_def)
  show "list_all (placed src) (closeStream l ts)"
    using assms p by (auto simp: streamInv_def closeStream_def list_all_iff lexPos_def structural_def)
  show "errorTokens (closeStream l ts) = errorTokens ts"
    by (auto simp: closeStream_def errorTokens_def)
  show "nesting 0 (closeStream l ts) = Some 0"
    using assms by (simp add: streamInv_def closeStream_def nesting_append nesting_replicate)
qed

section \<open>Evaluation\<close>

text \<open>The equations that run the lexer on a concrete text, and two runs the witnesses below share.\<close>

lemmas lexer_eval =
  lexSource_def tokenize_def mkLexer_def normalizeIndentation_def tokenizeLoop.simps tokenizeStep_def
  tokenizeTry_def lexItem_def handleIndentation_def countTabs.simps isAtEnd_def peek_def peekNext_def
  adv_def advance_def lexIdentifierOrKeyword_def collectWhile.simps skipWhitespace_def skipWhile.simps
  lexNewline_def lexComment_def lexOperator_def ifMatch_def matches_def unexpected_def guardProgress_def
  emit_def lexNumber_def collectDigits.simps lexFraction_def lexExponent_def lexString_def
  lexStringLoop.simps escapeChar_def errorAt_def error_def recover_def wordType_def keywordTable_def
  isdigit_def isalpha_def isalnum_def code_def Let_def

lemma lex_block:
  "lexSource (''if x:'' @ [LF, TAB] @ ''y'' @ [LF]) ''m.vsl'' = Tokens
    [makeToken KW_IF ''if'' 1 1, makeToken IDENTIFIER ''x'' 1 4, makeToken COLON '':'' 1 5,
     makeToken NEWLINE [BACKSLASH, CHR ''n''] 1 6, makeToken INDENT ''<INDENT>'' 2 1,
     makeToken IDENTIFIER ''y'' 2 2, makeToken NEWLINE [BACKSLASH, CHR ''n''] 2 3,
     makeToken DEDENT ''<DEDENT>'' 3 1, makeToken END_OF_FILE [] 3 1]"
  by (simp add: lexer_eval)

lemma lex_bad:
  "fst (tokenize (mkLexer ''a!'' ''m.vsl'')) = Tokens
    [makeToken IDENTIFIER ''a'' 1 1, makeToken ERROR ''!'' 1 2, makeToken END_OF_FILE [] 1 3]"
  by (simp add: lexer_eval)

section \<open>Properties\<close>

text \<open>
  C1. The guards of the main loop work: a run of the lexer always ends, and the assertion of
  \<^verbatim>\<open>tokenize\<close> on the number of tokens never fails, whatever the source text is.
\<close>

theorem lexSource_no_assertion: "lexSource src f \<noteq> AssertionFailed"
proof -
  obtain l ts fe where r: "tokenizeLoop ((mkLexer src f)\<lparr>lx_errors := []\<rparr>) [] None = (l, ts, fe)"
    by (metis prod_cases3)
  show ?thesis
    using tokenize_run [OF r tokenizeLoop_inv [OF r]]
    by (auto simp: lexSource_def split: option.splits)
qed

text \<open>
  C2. The layout tokens of a returned vector are well nested: no DEDENT closes a level that no INDENT
  opened, every INDENT is closed, and the vector ends with its only END_OF_FILE token.
\<close>

theorem lexSource_layout:
  assumes "lexSource src f = Tokens ts"
  shows "nesting 0 ts = Some 0 \<and>
    (\<exists>us t. ts = us @ [t] \<and> tk_type t = END_OF_FILE \<and> list_all (\<lambda>u. tk_type u \<noteq> END_OF_FILE) us)"
proof -
  from assms obtain l ts0 where s: "streamInv (normalizeIndentation src) l ts0" "ts = closeStream l ts0"
    by (rule lexSource_TokensE)
  have "\<exists>us t. ts = us @ [t] \<and> tk_type t = END_OF_FILE \<and> list_all (\<lambda>u. tk_type u \<noteq> END_OF_FILE) us"
    using s unfolding closeStream_def
    by (intro exI [of _ "ts0 @ replicate _ _"] exI [of _ "makeToken END_OF_FILE [] (lx_line l) (lx_column l)"])
      (auto simp: streamInv_def list_all_iff)
  with s show ?thesis by (simp add: closeStream_sel)
qed

lemma lexSource_layout_witness:
  "\<exists>ts. lexSource (''if x:'' @ [LF, TAB] @ ''y'' @ [LF]) ''m.vsl'' = Tokens ts \<and> nesting 0 ts = Some 0"
  using lexSource_layout [OF lex_block] lex_block by blast

text \<open>
  C3. Every token of a returned vector carries the line and column of a byte offset of the normalised
  source, and the tokens stand in source order.
\<close>

theorem lexSource_positions:
  assumes "lexSource src f = Tokens ts"
  shows "sorted (map tokPos ts) \<and>
    list_all (\<lambda>t. \<exists>p \<le> length (normalizeIndentation src).
      tokPos t = SrcPos (lineAt (normalizeIndentation src) p) (colAt (normalizeIndentation src) p)) ts"
proof -
  from assms obtain l ts0 where s: "streamInv (normalizeIndentation src) l ts0" "ts = closeStream l ts0"
    by (rule lexSource_TokensE)
  then have "list_all (placed (normalizeIndentation src)) ts" by (simp add: closeStream_sel)
  then have "list_all (\<lambda>t. \<exists>p \<le> length (normalizeIndentation src). tokPos t = coords (normalizeIndentation src) p) ts"
    by (rule list.pred_mono_strong) (auto simp: placed_def)
  then show ?thesis using s by (simp add: closeStream_sel coords_def)
qed

lemma lexSource_positions_witness:
  "\<exists>ts. lexSource (''if x:'' @ [LF, TAB] @ ''y'' @ [LF]) ''m.vsl'' = Tokens ts \<and> sorted (map tokPos ts)"
  using lexSource_positions [OF lex_block] lex_block by blast

text \<open>
  C4. The type of a token determines the shape of its lexeme: integers are digits, operators have the
  one spelling of their type, keywords and identifiers are words classified by the keyword table. The
  lexeme of every token except numbers, strings and newlines is the source text at its position.
\<close>

theorem lexSource_lexemes:
  assumes "lexSource src f = Tokens ts" and "t \<in> set ts" and "tk_type t \<notin> structural"
  shows "wellShaped t \<and> (tk_type t \<in> verbatim \<longrightarrow>
    (\<exists>p q. tokPos t = coords (normalizeIndentation src) p \<and> tk_lexeme t = substr p q (normalizeIndentation src)))"
proof -
  from assms(1) obtain l ts0 where s: "streamInv (normalizeIndentation src) l ts0" "ts = closeStream l ts0"
    by (rule lexSource_TokensE)
  then have "list_all (placed (normalizeIndentation src)) ts" by (simp add: closeStream_sel)
  then show ?thesis using assms(2,3) unfolding list_all_iff placed_def by blast
qed

lemma lexSource_lexemes_witness:
  "wellShaped (makeToken IDENTIFIER ''x'' 1 4)"
  using lexSource_lexemes [OF lex_block, of "makeToken IDENTIFIER ''x'' 1 4"]
  by (simp add: structural_def)

text \<open>
  Error recovery reports every error exactly once: the errors recorded in the lexer object are, in
  order, the positions of the ERROR tokens of the vector.
\<close>

theorem tokenize_errors:
  assumes "tokenize (mkLexer src f) = (Tokens ts, l)"
  shows "map diagPos (lx_errors l) = map tokPos (filter (\<lambda>t. tk_type t = ERROR) ts)"
proof -
  from assms obtain m ts0 where "streamInv (normalizeIndentation src) m ts0" "ts = closeStream m ts0"
    "lx_errors l = lx_errors m"
    by (rule tokenize_TokensE)
  then show ?thesis
    using closeStream_sel(3) [of "normalizeIndentation src" m ts0]
    by (simp add: streamInv_def errorTokens_def)
qed

lemma tokenize_errors_witness:
  "map diagPos (lx_errors (snd (tokenize (mkLexer ''a!'' ''m.vsl'')))) = [SrcPos 1 2]"
proof -
  have "tokenize (mkLexer ''a!'' ''m.vsl'') = (Tokens
      [makeToken IDENTIFIER ''a'' 1 1, makeToken ERROR ''!'' 1 2, makeToken END_OF_FILE [] 1 3],
      snd (tokenize (mkLexer ''a!'' ''m.vsl'')))"
    using lex_bad by (metis prod.collapse)
  from tokenize_errors [OF this] show ?thesis by simp
qed

end
