(* ===== verification/Lexer_RoundTrip.thy ===== *)
theory Lexer_RoundTrip
  imports Lexer_Props
begin

text \<open>
  Printing and lexing: a line of tokens printed with a space after each is lexed back to the same
  types and lexemes. The lexer is followed on the text ahead of the cursor, which the routines
  consume piece by piece. The last sections treat the normalisation of the leading whitespace and the
  encoding of escaped code points.
\<close>

section \<open>The text ahead of the cursor\<close>

definition ahead :: "Lexer \<Rightarrow> string" where
  "ahead l = drop (lx_pos l) (lx_source l)"

lemma ahead_update [simp]:
  "ahead (l\<lparr>lx_atLineStart := b\<rparr>) = ahead l"
  by (simp add: ahead_def)

lemma ahead_Nil: "ahead l = [] \<longleftrightarrow> isAtEnd l"
  by (simp add: ahead_def isAtEnd_def)

lemma ahead_Cons:
  assumes "ahead l = c # r"
  shows "\<not> isAtEnd l" "peek l = c" "ahead (adv l) = r" "matches e l \<longleftrightarrow> e = c"
    "peekNext l = (case r of [] \<Rightarrow> NUL | d # _ \<Rightarrow> d)"
proof -
  have n: "lx_pos l < length (lx_source l)" using assms by (cases "lx_pos l < length (lx_source l)") (auto simp: ahead_def)
  then have d: "lx_source l ! lx_pos l = c" "drop (Suc (lx_pos l)) (lx_source l) = r"
    using assms by (auto simp: ahead_def drop_eq_Cons_nth)
  show "\<not> isAtEnd l" "peek l = c" "ahead (adv l) = r" "matches e l \<longleftrightarrow> e = c"
    using n d by (auto simp: isAtEnd_def peek_def ahead_def matches_def)
  show "peekNext l = (case r of [] \<Rightarrow> NUL | d # _ \<Rightarrow> d)"
  proof (cases r)
    case Nil
    then show ?thesis using d(2) by (auto simp: peekNext_def)
  next
    case (Cons e s)
    then have "Suc (lx_pos l) < length (lx_source l)"
      using d(2) by (cases "Suc (lx_pos l) < length (lx_source l)") auto
    then show ?thesis using d(2) Cons by (auto simp: peekNext_def drop_eq_Cons_nth)
  qed
qed

lemma ahead_prev: "ahead l = c # r \<Longrightarrow> lx_source (adv l) ! (lx_pos (adv l) - 1) = c"
  using ahead_Cons(1,2) [of l c r] by (simp add: source_prev)

lemma ahead_tests:
  "matches e l = (case ahead l of [] \<Rightarrow> False | c # _ \<Rightarrow> e = c)"
  "peek l = (case ahead l of [] \<Rightarrow> NUL | c # _ \<Rightarrow> c)"
  "peekNext l = (case ahead l of [] \<Rightarrow> NUL | _ # r \<Rightarrow> (case r of [] \<Rightarrow> NUL | d # _ \<Rightarrow> d))"
  "isAtEnd l = (ahead l = [])"
  "ahead (adv l) = tl (ahead l)"
  using ahead_Cons [of l] ahead_Nil [of l]
  by (cases "ahead l"; auto simp: matches_def peek_def peekNext_def isAtEnd_def ahead_def)+

section \<open>The loops on a known prefix\<close>

lemma collectWhile_ahead:
  assumes "ahead l = w @ c # r" and "list_all p w" and "\<not> p c"
  shows "\<exists>l'. collectWhile p v l = (v @ w, l') \<and> ahead l' = c # r"
  using assms
proof (induction w arbitrary: v l)
  case Nil
  then show ?case using ahead_Cons [of l c r] by (subst collectWhile.simps) auto
next
  case (Cons d w)
  have a: "ahead l = d # (w @ c # r)" using Cons.prems(1) by simp
  from Cons.IH [of "adv l" "v @ [d]"] Cons.prems(2,3) ahead_Cons(3) [OF a]
  obtain l' where "collectWhile p (v @ [d]) (adv l) = (v @ d # w, l')" "ahead l' = c # r" by auto
  then show ?case
    using Cons.prems(2) ahead_Cons [OF a] by (subst collectWhile.simps) (auto simp: advance_def)
qed

lemma collectDigits_ahead:
  assumes "ahead l = w @ c # r" and "list_all isdigit w" and "\<not> isdigit c" and "c \<noteq> UNDERSCORE"
  shows "\<exists>l'. collectDigits v l = (v @ w, l') \<and> ahead l' = c # r"
  using assms
proof (induction w arbitrary: v l)
  case Nil
  then show ?case using ahead_Cons [of l c r] by (subst collectDigits.simps) auto
next
  case (Cons d w)
  have a: "ahead l = d # (w @ c # r)" using Cons.prems(1) by simp
  have "d \<noteq> UNDERSCORE" using Cons.prems(2) by (auto simp: char_class_defs)
  moreover from Cons.IH [of "adv l" "v @ [d]"] Cons.prems(2-4) ahead_Cons(3) [OF a]
  obtain l' where "collectDigits (v @ [d]) (adv l) = (v @ d # w, l')" "ahead l' = c # r" by auto
  ultimately show ?case
    using Cons.prems(2) ahead_Cons [OF a] by (subst collectDigits.simps) (auto simp: advance_def)
qed

lemma skipSpace_ahead:
  assumes "ahead l = SPACE # r" and "r = [] \<or> hd r \<notin> {SPACE, TAB, CR}"
  shows "ahead (skipWhitespace l) = r"
proof -
  note a = ahead_Cons [OF assms(1)]
  have "skipWhitespace l = skipWhitespace (adv l)"
    unfolding skipWhitespace_def using a(1,2) by (simp add: skipWhile_step)
  moreover have "skipWhitespace (adv l) = adv l"
    using assms(2) a(3) ahead_Cons [of "adv l" "hd r" "tl r"] ahead_Nil [of "adv l"]
    unfolding skipWhitespace_def by (subst skipWhile.simps) auto
  ultimately show ?thesis using a(3) by simp
qed

section \<open>Printing a token\<close>

text \<open>A string literal escapes the quote, the backslash and the newline.\<close>

fun escapeAll :: "string \<Rightarrow> string" where
  "escapeAll [] = []"
| "escapeAll (c # s) =
    (if c = LF then [BACKSLASH, CHR ''n'']
     else if c = BACKSLASH then [BACKSLASH, BACKSLASH]
     else if c = DQUOTE then [BACKSLASH, DQUOTE]
     else [c]) @ escapeAll s"

definition printTok :: "Token \<Rightarrow> string" where
  "printTok t =
    (if tk_type t = STRING_LITERAL then DQUOTE # escapeAll (tk_lexeme t) @ [DQUOTE] else tk_lexeme t)"

text \<open>
  The tokens a lexeme determines: words, operators, integers and decimal fractions in plain digits,
  and string literals with any content.
\<close>

definition printable :: "Token \<Rightarrow> bool" where
  "printable t \<longleftrightarrow>
     isWord (tk_lexeme t) \<and> tk_type t = wordType (tk_lexeme t) \<or>
     (tk_type t, tk_lexeme t) \<in> set opTable \<or>
     tk_type t = INT_LITERAL \<and> tk_lexeme t \<noteq> [] \<and> list_all isdigit (tk_lexeme t) \<or>
     tk_type t = FLOAT_LITERAL \<and> (\<exists>a b. tk_lexeme t = a @ CHR ''.'' # b \<and> a \<noteq> [] \<and> b \<noteq> [] \<and>
       list_all isdigit a \<and> list_all isdigit b) \<or>
     tk_type t = STRING_LITERAL"

definition printLine :: "Token list \<Rightarrow> string" where
  "printLine ts = concat (map (\<lambda>t. printTok t @ [SPACE]) ts)"

definition kindOf :: "Token \<Rightarrow> TokenType \<times> string" where
  "kindOf t = (tk_type t, tk_lexeme t)"

lemma kindOf_make [simp]: "kindOf (makeToken ty w ln col) = (ty, w)"
  by (simp add: kindOf_def)

section \<open>Lexing one printed token\<close>

lemma lexStringLoop_ahead:
  "ahead l = escapeAll s @ DQUOTE # r \<Longrightarrow>
     \<exists>l'. lexStringLoop DQUOTE sl sc v l = (Inr (v @ s), l') \<and> ahead l' = DQUOTE # r"
proof (induction s arbitrary: l v)
  case Nil
  then show ?case using ahead_Cons [of l DQUOTE r] by (subst lexStringLoop.simps) simp
next
  case (Cons c s)
  let ?r = "escapeAll s @ DQUOTE # r"
  show ?case
  proof (cases "c = LF \<or> c = BACKSLASH \<or> c = DQUOTE")
    case True
    let ?e = "if c = LF then CHR ''n'' else c"
    have a: "ahead l = BACKSLASH # ?e # ?r" using Cons.prems True by auto
    note a1 = ahead_Cons [OF a]
    note a2 = ahead_Cons [OF a1(3)]
    from Cons.IH [OF a2(3), of "v @ [c]"] obtain l' where
      l': "lexStringLoop DQUOTE sl sc (v @ [c]) (adv (adv l)) = (Inr (v @ c # s), l')" "ahead l' = DQUOTE # r"
      by auto
    have "escapeChar ?e (adv (adv l)) = (Inr [c], adv (adv l))"
      using True by (elim disjE) (simp_all add: escapeChar_def)
    then show ?thesis
      using a1 a2 l' by (subst lexStringLoop.simps) (simp add: Let_def advance_def)
  next
    case False
    then have a: "ahead l = c # ?r" using Cons.prems by simp
    note a1 = ahead_Cons [OF a]
    from Cons.IH [OF a1(3), of "v @ [c]"] obtain l' where
      "lexStringLoop DQUOTE sl sc (v @ [c]) (adv l) = (Inr (v @ c # s), l')" "ahead l' = DQUOTE # r"
      by auto
    then show ?thesis
      using a1 False by (subst lexStringLoop.simps) (simp add: Let_def advance_def)
  qed
qed

text \<open>Maximal munch: each spelling of the table, followed by a space, is lexed to its type.\<close>

lemma lexOperator_ahead:
  assumes "(ty, w) \<in> set opTable" and "ahead l = tl w @ SPACE # r"
  shows "\<exists>l'. lexOperator (hd w) ln col l = (makeToken ty w ln col, l') \<and> ahead l' = SPACE # r"
proof -
  have "list_all (\<lambda>(ty, w). \<forall>l. ahead l = tl w @ SPACE # r \<longrightarrow>
      (\<exists>l'. lexOperator (hd w) ln col l = (makeToken ty w ln col, l') \<and> ahead l' = SPACE # r)) opTable"
    unfolding opTable_def list.pred_inject prod.case
    by (intro conjI TrueI allI impI) (simp_all add: lexOperator_def ifMatch_def ahead_tests)
  then show ?thesis using assms by (auto simp: list_all_iff)
qed

text \<open>
  One item: the lexer consumes exactly the printed token, and appends a token of the same kind.
\<close>

definition lexed :: "Lexer \<Rightarrow> Token list \<Rightarrow> Token \<Rightarrow> string \<Rightarrow> bool" where
  "lexed l ts t r \<longleftrightarrow>
     (\<exists>f l' u. lexItem l ts = (Inr f, l', ts @ [u]) \<and> f \<noteq> Break \<and> kindOf u = kindOf t \<and> ahead l' = r)"

lemma lexed_word:
  assumes "isWord w" and "ahead l = w @ SPACE # r" and "kindOf t = (wordType w, w)"
  shows "lexed l ts t (SPACE # r)"
proof -
  obtain c v where w: "w = c # v" "isalpha c \<or> c = UNDERSCORE" "list_all wordChar v"
    using assms(1) by (cases w) (auto simp: isWord_def)
  have a: "ahead l = c # (v @ SPACE # r)" using assms(2) w(1) by simp
  note a1 = ahead_Cons [OF a]
  have n: "\<not> wordChar SPACE" by (simp add: wordChar_def char_class_defs)
  have "\<not> wordChar DQUOTE" "\<not> wordChar SQUOTE" by (simp_all add: wordChar_def char_class_defs)
  moreover have "wordChar (peekNext l) \<or> peekNext l = SPACE"
    using w(3) by (cases v) (simp_all add: a1(5))
  ultimately have p: "peek l = c" "peekNext l \<noteq> DQUOTE \<and> peekNext l \<noteq> SQUOTE"
    using a1(2) by auto
  have c: "c \<notin> {SPACE, TAB, CR, LF, HASH, DQUOTE, SQUOTE}" "\<not> isdigit c"
    using w(2) isdigit_not_isalpha [of c] by (auto simp: char_class_defs)
  obtain l' where "collectWhile wordChar [c] (adv l) = (c # v, l')" "ahead l' = SPACE # r"
    using collectWhile_ahead [OF a1(3) w(3) n, of "[c]"] by auto
  then obtain u where "lexIdentifierOrKeyword (adv l) = (u, l')" "kindOf u = (wordType w, w)"
    using w(1) ahead_prev [OF a]
    by (simp add: lexIdentifierOrKeyword_def Let_def wordChar_def [abs_def])
  then show ?thesis
    using p c w(2) assms(3) \<open>ahead l' = SPACE # r\<close> by (auto simp: lexed_def lexItem_def Let_def)
qed

lemma opTable_first:
  assumes "(ty, w) \<in> set opTable"
  shows "\<exists>c v. w = c # v \<and> c \<notin> {SPACE, TAB, CR, LF, HASH, DQUOTE, SQUOTE, UNDERSCORE} \<and> \<not> isdigit c \<and> \<not> isalpha c"
proof -
  have "list_all (\<lambda>(ty, w). \<exists>c v. w = c # v \<and>
      c \<notin> {SPACE, TAB, CR, LF, HASH, DQUOTE, SQUOTE, UNDERSCORE} \<and> \<not> isdigit c \<and> \<not> isalpha c) opTable"
    by (simp add: opTable_def char_class_defs)
  with assms show ?thesis by (auto simp: list_all_iff)
qed

lemma lexed_op:
  assumes "(ty, w) \<in> set opTable" and "ahead l = w @ SPACE # r" and "kindOf t = (ty, w)"
  shows "lexed l ts t (SPACE # r)"
proof -
  from opTable_first [OF assms(1)]
  obtain c v where w: "w = c # v" "c \<notin> {SPACE, TAB, CR, LF, HASH, DQUOTE, SQUOTE, UNDERSCORE}"
    "\<not> isdigit c" "\<not> isalpha c"
    by (elim exE conjE)
  have a: "ahead l = c # (v @ SPACE # r)" using assms(2) w(1) by simp
  note a1 = ahead_Cons [OF a]
  have "c \<noteq> CHR ''f''" using w(4) by (auto simp: char_class_defs)
  moreover obtain l' where "lexOperator c (lx_line l) (lx_column l) (adv l) = (makeToken ty w (lx_line l) (lx_column l), l')"
    "ahead l' = SPACE # r"
    using lexOperator_ahead [OF assms(1), of "adv l" r] a1(3) w(1) by auto
  ultimately show ?thesis
    using w(2-4) a1(2) assms(3) by (auto simp: lexed_def lexItem_def Let_def)
qed

lemma lexFraction_stop: "ahead l = SPACE # r \<Longrightarrow> lexFraction sl sc v l = (Inr (False, v), l)"
  by (simp add: lexFraction_def ahead_tests)

lemma lexExponent_stop: "ahead l = SPACE # r \<Longrightarrow> lexExponent sl sc fv l = (Inr fv, l)"
  by (cases fv) (simp add: lexExponent_def ahead_tests)

lemma lexFraction_ahead:
  assumes "ahead l = CHR ''.'' # w @ SPACE # r" and "list_all isdigit w" and "w \<noteq> []"
  shows "\<exists>l'. lexFraction sl sc v l = (Inr (True, v @ CHR ''.'' # w), l') \<and> ahead l' = SPACE # r"
proof -
  note a = ahead_Cons [OF assms(1)]
  have "isdigit (peekNext l)" using a(5) assms(2,3) by (cases w) auto
  moreover obtain l' where "collectDigits (v @ [CHR ''.'']) (adv l) = (v @ CHR ''.'' # w, l')" "ahead l' = SPACE # r"
    using collectDigits_ahead [OF a(3) assms(2), of "v @ ''.''"] by (auto simp: char_class_defs)
  ultimately show ?thesis
    using a ahead_Cons [of l' SPACE r] by (simp add: lexFraction_def advance_def)
qed

lemma lexNumber_ahead:
  assumes "ahead l = a @ s" and "a \<noteq> []" and "list_all isdigit a"
    and "s = SPACE # r \<and> w = a \<and> ty = INT_LITERAL \<or>
      (\<exists>b. s = CHR ''.'' # b @ SPACE # r \<and> w = a @ CHR ''.'' # b \<and> b \<noteq> [] \<and> list_all isdigit b \<and> ty = FLOAT_LITERAL)"
  shows "\<exists>l' u. lexNumber (adv l) = (Inr u, l') \<and> kindOf u = (ty, w) \<and> ahead l' = SPACE # r"
proof -
  obtain c v where v: "a = c # v" "isdigit c" "list_all isdigit v" using assms(2,3) by (cases a) auto
  have a0: "ahead l = c # (v @ s)" using assms(1) v(1) by simp
  note a1 = ahead_Cons [OF a0]
  have "\<not> isdigit SPACE" "\<not> isdigit (CHR ''.'')" by (simp_all add: char_class_defs)
  then obtain d q where s: "s = d # q" "\<not> isdigit d" "d \<noteq> UNDERSCORE"
    using assms(4) by (elim disjE) auto
  obtain m where m: "collectDigits [c] (adv l) = (a, m)" "ahead m = s"
    using collectDigits_ahead [of "adv l" v d q "[c]"] a1(3) s v by auto
  from assms(4) show ?thesis
  proof
    assume "s = SPACE # r \<and> w = a \<and> ty = INT_LITERAL"
    then show ?thesis
      using m ahead_prev [OF a0] lexFraction_stop [of m r] lexExponent_stop [of m r]
      by (simp add: lexNumber_def Let_def)
  next
    assume "\<exists>b. s = CHR ''.'' # b @ SPACE # r \<and> w = a @ CHR ''.'' # b \<and> b \<noteq> [] \<and> list_all isdigit b \<and> ty = FLOAT_LITERAL"
    then obtain b where b: "ahead m = CHR ''.'' # b @ SPACE # r" "w = a @ CHR ''.'' # b" "b \<noteq> []"
      "list_all isdigit b" "ty = FLOAT_LITERAL"
      using m(2) by auto
    obtain l' where "lexFraction (lx_line (adv l)) (lx_column (adv l) - 1) a m = (Inr (True, w), l')" "ahead l' = SPACE # r"
      using lexFraction_ahead [OF b(1,4,3)] b(2) by blast
    then show ?thesis
      using m(1) ahead_prev [OF a0] lexExponent_stop [of l' r] b(5) by (simp add: lexNumber_def Let_def)
  qed
qed

lemma lexed_number:
  assumes "ahead l = a @ s" and "a \<noteq> []" and "list_all isdigit a" and "kindOf t = (ty, w)"
    and "s = SPACE # r \<and> w = a \<and> ty = INT_LITERAL \<or>
      (\<exists>b. s = CHR ''.'' # b @ SPACE # r \<and> w = a @ CHR ''.'' # b \<and> b \<noteq> [] \<and> list_all isdigit b \<and> ty = FLOAT_LITERAL)"
  shows "lexed l ts t (SPACE # r)"
proof -
  obtain c v where v: "a = c # v" "isdigit c" using assms(2,3) by (cases a) auto
  have "ahead l = c # (v @ s)" using assms(1) v(1) by simp
  note a1 = ahead_Cons [OF this]
  have "c \<notin> {SPACE, TAB, CR, LF, HASH, CHR ''f'', DQUOTE, SQUOTE}" using v(2) by (auto simp: char_class_defs)
  moreover obtain l' u where "lexNumber (adv l) = (Inr u, l')" "kindOf u = (ty, w)" "ahead l' = SPACE # r"
    using lexNumber_ahead [OF assms(1-3,5)] by blast
  ultimately show ?thesis
    using a1(2) v(2) assms(4) by (simp add: lexed_def lexItem_def Let_def emit_def)
qed

lemma lexed_string:
  assumes "ahead l = DQUOTE # escapeAll s @ DQUOTE # SPACE # r" and "kindOf t = (STRING_LITERAL, s)"
  shows "lexed l ts t (SPACE # r)"
proof -
  note a1 = ahead_Cons [OF assms(1)]
  obtain l' where l': "lexStringLoop DQUOTE (lx_line (adv l)) (lx_column (adv l) - 1) [] (adv l) = (Inr s, l')"
    "ahead l' = DQUOTE # SPACE # r"
    using lexStringLoop_ahead [OF a1(3), of "lx_line (adv l)" "lx_column (adv l) - 1" "[]"] by auto
  then have "lexString DQUOTE (adv l) =
      (Inr (makeToken STRING_LITERAL s (lx_line (adv l)) (lx_column (adv l) - 1)), adv l')" "ahead (adv l') = SPACE # r"
    using ahead_Cons [OF l'(2)] by (simp_all add: lexString_def Let_def)
  then show ?thesis
    using a1(2) assms(2) by (simp add: lexed_def lexItem_def Let_def emit_def)
qed

lemma lexed_printed:
  assumes "printable t" and "ahead l = printTok t @ SPACE # r"
  shows "lexed l ts t (SPACE # r)"
proof -
  have ns: "tk_type t \<noteq> STRING_LITERAL" if "(tk_type t, tk_lexeme t) \<in> set opTable"
  proof -
    have "list_all (\<lambda>(ty, w). ty \<noteq> STRING_LITERAL) opTable" by (simp add: opTable_def)
    with that show ?thesis by (auto simp: list_all_iff)
  qed
  from assms(1) show ?thesis
    unfolding printable_def
  proof (elim disjE conjE exE)
    assume "isWord (tk_lexeme t)" "tk_type t = wordType (tk_lexeme t)"
    then show ?thesis using assms(2) by (intro lexed_word) (auto simp: kindOf_def printTok_def wordType_not)
  next
    assume "(tk_type t, tk_lexeme t) \<in> set opTable"
    then show ?thesis using assms(2) ns by (intro lexed_op) (auto simp: kindOf_def printTok_def)
  next
    assume "tk_type t = INT_LITERAL" "tk_lexeme t \<noteq> []" "list_all isdigit (tk_lexeme t)"
    then show ?thesis
      using assms(2) by (intro lexed_number [of l "tk_lexeme t"]) (auto simp: kindOf_def printTok_def)
  next
    fix a b assume "tk_type t = FLOAT_LITERAL" "tk_lexeme t = a @ CHR ''.'' # b" "a \<noteq> []" "b \<noteq> []"
      "list_all isdigit a" "list_all isdigit b"
    then show ?thesis
      using assms(2) by (intro lexed_number [of l a]) (auto simp: kindOf_def printTok_def)
  next
    assume "tk_type t = STRING_LITERAL"
    then show ?thesis
      using assms(2) by (intro lexed_string) (auto simp: kindOf_def printTok_def)
  qed
qed

section \<open>Lexing a printed line\<close>

lemma printTok_first:
  assumes "printable t"
  shows "\<exists>c v. printTok t = c # v \<and> c \<notin> {SPACE, TAB, CR, LF, HASH}"
proof -
  have d: "\<exists>d v. w = d # v \<and> d \<notin> {SPACE, TAB, CR, LF, HASH}" if "list_all isdigit a" "a \<noteq> []" "w = a @ b" for a b w
    using that by (cases a) (auto simp: char_class_defs)
  from assms show ?thesis
    unfolding printable_def
  proof (elim disjE conjE exE)
    assume "isWord (tk_lexeme t)" "tk_type t = wordType (tk_lexeme t)"
    then show ?thesis
      by (cases "tk_lexeme t") (auto simp: printTok_def isWord_def wordType_not char_class_defs)
  next
    assume a: "(tk_type t, tk_lexeme t) \<in> set opTable"
    from opTable_first [OF this]
    obtain c v where "tk_lexeme t = c # v" "c \<notin> {SPACE, TAB, CR, LF, HASH, DQUOTE, SQUOTE, UNDERSCORE}"
      by (elim exE conjE)
    then show ?thesis by (auto simp: printTok_def)
  next
    fix a b assume "tk_type t = FLOAT_LITERAL" "tk_lexeme t = a @ CHR ''.'' # b" "a \<noteq> []" "list_all isdigit a"
    then show ?thesis using d [of a "tk_lexeme t" "CHR ''.'' # b"] by (simp add: printTok_def)
  qed (use d [of "tk_lexeme t" "tk_lexeme t" "[]"] in \<open>auto simp: printTok_def\<close>)
qed

lemma lexOperator_flag:
  assumes "\<not> isAtEnd l" and "lexOperator (peek l) (lx_line l) (lx_column l) (adv l) = (t, l')"
  shows "lx_atLineStart l' = lx_atLineStart l"
proof -
  have "spelled l [peek l] (adv l)"
    using assms(1) by (simp add: spelled_def goes_adv consumed_adv)
  from lexOperator_result [OF this] show ?thesis
    using assms(2) by (auto simp: opResult_def spelled_def)
qed

lemma lexItem_flag:
  assumes "\<not> isAtEnd l" and "peek l \<noteq> LF" and "peek l \<noteq> HASH" and "lexItem l ts = (Inr f, l', ts')"
  shows "lx_atLineStart l' = lx_atLineStart l"
proof -
  have e: "lx_atLineStart m = lx_atLineStart k" if "emit ts (r, m) = (x, l', ts')" "lscans k m" for r x m k
    using that by (auto dest: lscans_frame(3))
  have "lx_atLineStart (snd (lexFString q k)) = lx_atLineStart k"
    "lx_atLineStart (snd (lexString q k)) = lx_atLineStart k"
    "lx_atLineStart (snd (lexNumber k)) = lx_atLineStart k"
    "lx_atLineStart (snd (lexIdentifierOrKeyword k)) = lx_atLineStart k"
    "lx_atLineStart (skipWhitespace k) = lx_atLineStart k" for q k
    using lscans_frame(3) [OF lexFString_scans] lscans_frame(3) [OF lexString_scans]
      lscans_frame(3) [OF lexNumber_scans] lscans_frame(3) [OF lexIdentifierOrKeyword_scans]
      lscans_frame(3) [OF skipWhile_scans]
    by (simp_all add: skipWhitespace_def)
  note fr = this(1) [of "peek (adv l)" "adv (adv l)"] this(2) [of "peek l" "adv l"] this(3) [of "adv l"]
    this(4) [of "adv l"] this(5) [of l]
  show ?thesis
    using assms(2-4) fr lexOperator_flag [OF assms(1)]
    by (auto simp: lexItem_def Let_def emit_def advance_def split: if_splits sum.splits prod.splits)
qed

lemma tokenizeStep_printed:
  assumes "printable t" and "ahead l = printTok t @ SPACE # r" and "\<not> lx_atLineStart l"
  shows "\<exists>l' u. tokenizeStep l ts None = (True, l', ts @ [u], None) \<and> kindOf u = kindOf t \<and>
    ahead l' = SPACE # r \<and> \<not> lx_atLineStart l'"
proof -
  obtain c v where c: "printTok t = c # v" "c \<notin> {SPACE, TAB, CR, LF, HASH}"
    using printTok_first [OF assms(1)] by (elim exE conjE)
  have "ahead l = c # (v @ SPACE # r)" using assms(2) c(1) by simp
  note a = ahead_Cons [OF this]
  obtain f l' u where l': "lexItem l ts = (Inr f, l', ts @ [u])" "f \<noteq> Break" "kindOf u = kindOf t" "ahead l' = SPACE # r"
    using lexed_printed [OF assms(1,2), of ts] by (auto simp: lexed_def)
  have p: "lx_pos l < lx_pos l'" using lexItem_advances [OF a(1) l'(1)] .
  have "\<not> lx_atLineStart l'" using lexItem_flag [OF a(1) _ _ l'(1)] a(2) c(2) assms(3) by simp
  then show ?thesis
    using l' p assms(3) by (cases f) (auto simp: tokenizeStep_def tokenizeTry_def guardProgress_def)
qed

lemma tokenizeStep_space:
  assumes "ahead l = SPACE # r" and "\<not> lx_atLineStart l" and "r = [] \<or> hd r \<notin> {SPACE, TAB, CR}"
  shows "\<exists>l'. tokenizeStep l ts None = (True, l', ts, None) \<and> ahead l' = r \<and> \<not> lx_atLineStart l'"
proof -
  note a = ahead_Cons [OF assms(1)]
  have i: "lexItem l ts = (Inr Continue, skipWhitespace l, ts)" using a(2) by (simp add: lexItem_def Let_def)
  moreover have "\<not> lx_atLineStart (skipWhitespace l)"
    using lexItem_flag [OF a(1) _ _ i] a(2) assms(2) by simp
  ultimately show ?thesis
    using skipSpace_ahead [OF assms(1,3)] assms(2) by (simp add: tokenizeStep_def tokenizeTry_def)
qed

lemma tokenizeLoop_go:
  "\<not> isAtEnd l \<Longrightarrow> tokenizeStep l ts fe = (True, l', ts', fe') \<Longrightarrow> tokenizeLoop l ts fe = tokenizeLoop l' ts' fe'"
  by (subst tokenizeLoop.simps) simp

lemma printLine_first:
  assumes "list_all printable ts"
  shows "printLine ts = [] \<or> hd (printLine ts) \<notin> {SPACE, TAB, CR, LF, HASH}"
proof (cases ts)
  case (Cons t us)
  then obtain c v where "printTok t = c # v" "c \<notin> {SPACE, TAB, CR, LF, HASH}"
    using assms printTok_first [of t] by auto
  then show ?thesis using Cons by (simp add: printLine_def)
qed (simp add: printLine_def)

lemma tokenizeLoop_printed:
  assumes "list_all printable us" and "ahead l = printLine us" and "\<not> lx_atLineStart l"
  shows "\<exists>l' vs. tokenizeLoop l ts None = (l', ts @ vs, None) \<and> map kindOf vs = map kindOf us"
  using assms
proof (induction us arbitrary: l ts)
  case Nil
  then show ?case by (subst tokenizeLoop.simps) (simp add: printLine_def ahead_Nil [symmetric])
next
  case (Cons t us)
  have a: "ahead l = printTok t @ SPACE # printLine us" using Cons.prems(2) by (simp add: printLine_def)
  obtain m u where m: "tokenizeStep l ts None = (True, m, ts @ [u], None)" "kindOf u = kindOf t"
    "ahead m = SPACE # printLine us" "\<not> lx_atLineStart m"
    using tokenizeStep_printed [OF _ a Cons.prems(3), of ts] Cons.prems(1) by auto
  obtain k where k: "tokenizeStep m (ts @ [u]) None = (True, k, ts @ [u], None)" "ahead k = printLine us"
    "\<not> lx_atLineStart k"
    using tokenizeStep_space [OF m(3,4)] printLine_first [of us] Cons.prems(1) by auto
  obtain l' vs where "tokenizeLoop k (ts @ [u]) None = (l', (ts @ [u]) @ vs, None)" "map kindOf vs = map kindOf us"
    using Cons.IH [OF _ k(2,3), of "ts @ [u]"] Cons.prems(1) by auto
  moreover have "\<not> isAtEnd l" "\<not> isAtEnd m" using a m(3) by (auto simp: ahead_Nil [symmetric])
  ultimately show ?case
    using m k by (intro exI [of _ l'] exI [of _ "u # vs"]) (simp add: tokenizeLoop_go)
qed

text \<open>A printed line has no newline and does not begin with a blank: normalisation leaves it alone.\<close>

lemma normLoop_id: "LF \<notin> set s \<Longrightarrow> normLoop False sp s = s"
  by (induction s) auto

lemma printable_noLF:
  assumes "printable t" shows "LF \<notin> set (printTok t)"
proof -
  have e: "LF \<notin> set (escapeAll s)" for s by (induction s) auto
  have o: "list_all (\<lambda>(ty, w). LF \<notin> set w) opTable" by (simp add: opTable_def)
  have "\<not> wordChar LF" "\<not> isdigit LF" by (simp_all add: wordChar_def char_class_defs)
  then show ?thesis
    using assms e o by (auto simp: printable_def printTok_def isWord_def list_all_iff)
qed

lemma normalize_printLine:
  assumes "list_all printable ts" shows "normalizeIndentation (printLine ts) = printLine ts"
proof (cases "printLine ts")
  case (Cons c s)
  have "LF \<notin> set (printLine ts)"
    using assms printable_noLF by (auto simp: printLine_def list_all_iff)
  then show ?thesis
    using Cons printLine_first [OF assms] by (simp add: normalizeIndentation_def normLoop_id)
qed (simp add: normalizeIndentation_def)

lemma tokenizeStep_first:
  assumes "lx_atLineStart l" and "\<not> isAtEnd l" and "peek l \<notin> {SPACE, TAB, LF, HASH}" and "hd (lx_indentStack l) = 0"
  shows "tokenizeStep l ts fe = tokenizeStep (l\<lparr>lx_atLineStart := False\<rparr>) ts fe"
proof -
  have "peek (l\<lparr>lx_atLineStart := False\<rparr>) = peek l" by (simp add: peek_def)
  then have "handleIndentation (l\<lparr>lx_atLineStart := False\<rparr>) ts = (Inr (), l\<lparr>lx_atLineStart := False\<rparr>, ts)"
    using assms by (simp add: handleIndentation_def countTabs.simps Let_def)
  moreover obtain x m tks where "lexItem (l\<lparr>lx_atLineStart := False\<rparr>) ts = (x, m, tks)" by (metis prod_cases3)
  moreover have "guardProgress (l\<lparr>lx_atLineStart := False\<rparr>) k = guardProgress l k" for k
    by (simp add: guardProgress_def)
  moreover have "\<not> peek (l\<lparr>lx_atLineStart := False\<rparr>) = LF" using assms by (simp add: peek_def)
  ultimately show ?thesis
    using assms by (simp add: tokenizeStep_def tokenizeTry_def split: sum.splits flow.splits)
qed

lemma nesting_flat:
  "list_all (\<lambda>t. tk_type t \<noteq> INDENT \<and> tk_type t \<noteq> DEDENT) ts \<Longrightarrow> nesting d ts = Some d"
  by (induction ts) auto

lemma printable_flat: "printable t \<Longrightarrow> tk_type t \<noteq> INDENT \<and> tk_type t \<noteq> DEDENT"
  using wordType_not(1) [of "tk_lexeme t"] opTable_types(1) [of "tk_type t" "tk_lexeme t"]
  by (auto simp: printable_def structural_def)

text \<open>
  C5. Lexing inverts printing: a line of words, operators, numbers and string literals (with any
  content, escaped) printed with a space after each is lexed back to tokens of the same types and
  lexemes, in order, followed by the end marker alone. In particular operators are matched greedily
  and escape sequences are decoded to the character they stand for.
\<close>

theorem lex_printLine:
  assumes "list_all printable ts"
  shows "\<exists>us e. lexSource (printLine ts) f = Tokens (us @ [e]) \<and> map kindOf us = map kindOf ts \<and>
    tk_type e = END_OF_FILE"
proof -
  let ?l = "(mkLexer (printLine ts) f)\<lparr>lx_errors := []\<rparr>"
  have src: "lx_source ?l = printLine ts" by (simp add: mkLexer_def normalize_printLine assms)
  have a: "ahead ?l = printLine ts" by (simp add: ahead_def src) (simp add: mkLexer_def)
  have "\<exists>l' vs. tokenizeLoop ?l [] None = (l', vs, None) \<and> map kindOf vs = map kindOf ts"
  proof (cases "printLine ts")
    case Nil
    then have "ts = []" by (cases ts) (auto simp: printLine_def)
    then show ?thesis using a Nil by (subst tokenizeLoop.simps) (simp add: ahead_Nil [symmetric])
  next
    case (Cons c s)
    then have "ahead ?l = c # s" using a by simp
    note h = ahead_Cons [OF this]
    let ?m = "?l\<lparr>lx_atLineStart := False\<rparr>"
    have am: "ahead ?m = printLine ts" using a by simp
    obtain l' vs where "tokenizeLoop ?m [] None = (l', vs, None)" "map kindOf vs = map kindOf ts"
      using tokenizeLoop_printed [OF assms am, of "[]"] by auto
    moreover have "tokenizeStep ?l [] None = tokenizeStep ?m [] None"
      using printLine_first [OF assms] Cons h by (intro tokenizeStep_first) (simp_all add: mkLexer_def)
    then have "tokenizeLoop ?l [] None = tokenizeLoop ?m [] None"
      using h(1) by (subst (1 2) tokenizeLoop.simps) simp
    ultimately show ?thesis by simp
  qed
  then obtain l' vs where r: "tokenizeLoop ?l [] None = (l', vs, None)" "map kindOf vs = map kindOf ts" by blast
  have "nesting 0 vs = Some 0"
  proof (rule nesting_flat)
    have "list_all (\<lambda>k. fst k \<noteq> INDENT \<and> fst k \<noteq> DEDENT) (map kindOf ts)"
      using assms printable_flat by (auto simp: list_all_iff kindOf_def)
    then show "list_all (\<lambda>t. tk_type t \<noteq> INDENT \<and> tk_type t \<noteq> DEDENT) vs"
      unfolding r(2) [symmetric] by (auto simp: list_all_iff kindOf_def)
  qed
  then have "length (lx_indentStack l') - 1 = 0"
    using tokenizeLoop_inv [OF r(1)] by (simp add: streamInv_def)
  then have "lexSource (printLine ts) f = Tokens (vs @ [makeToken END_OF_FILE [] (lx_line l') (lx_column l')])"
    using tokenize_run [OF r(1) tokenizeLoop_inv [OF r(1)]] by (simp add: lexSource_def closeStream_def)
  with r(2) show ?thesis by (metis makeToken_sel(1))
qed

lemma lex_printLine_witness:
  "\<exists>us e. lexSource (printLine [makeToken IDENTIFIER ''x'' 1 1, makeToken STRING_LITERAL [LF] 1 3]) ''m.vsl'' =
     Tokens (us @ [e]) \<and> map kindOf us = [(IDENTIFIER, ''x''), (STRING_LITERAL, [LF])]"
proof -
  have "wordType ''x'' = IDENTIFIER" by (simp add: wordType_def keywordTable_def)
  then have "list_all printable [makeToken IDENTIFIER ''x'' 1 1, makeToken STRING_LITERAL [LF] 1 3]"
    by (simp add: printable_def isWord_def wordChar_def char_class_defs)
  from lex_printLine [OF this, of "''m.vsl''"] show ?thesis by auto
qed

end
