(* ===== verification/Lexer_Text.thy ===== *)
theory Lexer_Text
  imports Lexer_Props
begin

text \<open>
  The text transformations inside the lexer: the normalisation of leading spaces into tabs, which
  runs over the whole source before the first token, and the encoding of the code points written as
  escapes in string literals.
\<close>

section \<open>Normalisation of the leading whitespace\<close>

lemma normLoop_spaces:
  assumes "c \<noteq> SPACE" and "c \<noteq> TAB" and "sp < 4"
  shows "normLoop True sp (replicate n SPACE @ c # s) = replicate ((sp + n + 3) div 4) TAB @ c # normLoop False 0 s"
  using assms(3)
proof (induction n arbitrary: sp)
  case 0
  consider "sp = 0" | "sp = 1" | "sp = 2" | "sp = 3" using 0 by linarith
  then show ?case using assms(1,2) by cases auto
next
  case (Suc n)
  show ?case
  proof (cases "Suc sp = 4")
    case True
    then have "(sp + Suc n + 3) div 4 = Suc ((0 + n + 3) div 4)" by auto
    then show ?thesis using True Suc.IH [of 0] by simp
  next
    case False
    then have "Suc sp < 4" using Suc.prems by simp
    then show ?thesis using False Suc.IH [of "Suc sp"] by (simp add: ac_simps)
  qed
qed

lemma normLoop_line:
  "LF \<notin> set line \<Longrightarrow> normLoop False sp (line @ LF # s) = line @ LF # normalizeIndentation s"
  by (induction line) (auto simp: normalizeIndentation_def)

text \<open>
  Four leading spaces count as one tab, and a rest of one to three spaces as one more: a line that
  begins with \<open>n\<close> spaces gets \<open>(n + 3) div 4\<close> tabs, the rest of the line is kept, and the lines after
  it are normalised in the same way.
\<close>

theorem normalize_line:
  assumes "c \<noteq> SPACE" and "c \<noteq> TAB" and "c \<noteq> LF" and "LF \<notin> set line"
  shows "normalizeIndentation (replicate n SPACE @ c # line @ LF # rest) =
    replicate ((n + 3) div 4) TAB @ c # line @ LF # normalizeIndentation rest"
  using assms by (simp add: normalizeIndentation_def normLoop_spaces) (simp add: normLoop_line normalizeIndentation_def)

lemma normalize_line_witness:
  "normalizeIndentation (replicate 5 SPACE @ CHR ''x'' # [] @ LF # []) = [TAB, TAB, CHR ''x'', LF]"
proof -
  have "normalizeIndentation (replicate 5 SPACE @ CHR ''x'' # [] @ LF # []) =
      replicate ((5 + 3) div 4) TAB @ CHR ''x'' # [] @ LF # normalizeIndentation []"
    by (rule normalize_line) simp_all
  then show ?thesis by (simp add: normalizeIndentation_def numeral_2_eq_2)
qed

text \<open>Normalisation never makes the source longer.\<close>

lemma normLoop_length: "sp < 4 \<Longrightarrow> length (normLoop als sp s) \<le> sp + length s"
proof (induction als sp s rule: normLoop.induct)
  case (2 als sp c cs)
  then show ?case by (cases als) (auto simp: less_Suc_eq_le)
qed simp

text \<open>
  Normalisation never makes the source longer, so the bounds of the token count are bounds in the
  size of the text the user wrote: at most two tokens per byte and one for the end.
\<close>

theorem lexSource_length:
  assumes "lexSource src f = Tokens ts"
  shows "length ts \<le> 2 * length src + 1"
proof -
  from assms obtain l ts0 where s: "streamInv (normalizeIndentation src) l ts0" "ts = closeStream l ts0"
    by (rule lexSource_TokensE)
  moreover have "length (normalizeIndentation src) \<le> length src"
    using normLoop_length [of 0 True src] by (simp add: normalizeIndentation_def)
  ultimately show ?thesis by (auto simp: streamInv_def closeStream_def)
qed

lemma lexSource_length_witness:
  "\<exists>ts. lexSource (''if x:'' @ [LF, TAB] @ ''y'' @ [LF]) ''m.vsl'' = Tokens ts \<and> length ts \<le> 19"
  using lexSource_length [OF lex_block] lex_block by (intro exI conjI) auto

text \<open>
  A blank line ends the line start for the normaliser: it leaves the leading spaces of the next
  line as they are, although the same line elsewhere would be normalised.
\<close>

theorem normalize_after_blank:
  assumes "LF \<notin> set line"
  shows "normalizeIndentation (LF # line @ LF # rest) = LF # line @ LF # normalizeIndentation rest"
  using assms normLoop_line [of line 0 rest] by (simp add: normalizeIndentation_def)

lemma normalize_after_blank_witness:
  "normalizeIndentation ([LF] @ replicate 4 SPACE @ ''y'' @ [LF]) = [LF] @ replicate 4 SPACE @ ''y'' @ [LF]"
  using normalize_after_blank [of "replicate 4 SPACE @ ''y''" "[]"] by (simp add: normalizeIndentation_def)

text \<open>
  So a block indented by spaces is rejected when a blank line precedes it, and accepted without the
  blank line.
\<close>

lemma blank_line_rejects_spaces:
  "\<exists>d. lexSource (''if x:'' @ [LF, LF] @ ''    y'') ''m.vsl'' = Thrown (IndentationError d)"
  "\<exists>ts. lexSource (''if x:'' @ [LF] @ ''    y'') ''m.vsl'' = Tokens ts"
  by (simp_all add: lexer_eval)

section \<open>Escaped code points\<close>

text \<open>A decoder of UTF-8 sequences, after RFC 3629.\<close>

definition contByte :: "char \<Rightarrow> bool" where
  "contByte c \<longleftrightarrow> 0x80 \<le> code c \<and> code c < 0xC0"

definition utf8Decode :: "string \<Rightarrow> nat option" where
  "utf8Decode s =
    (case s of
       [a] \<Rightarrow> if code a < 0x80 then Some (code a) else None
     | [a, b] \<Rightarrow>
         if 0xC0 \<le> code a \<and> code a < 0xE0 \<and> contByte b
         then Some ((code a - 0xC0) * 64 + (code b - 0x80)) else None
     | [a, b, c] \<Rightarrow>
         if 0xE0 \<le> code a \<and> code a < 0xF0 \<and> contByte b \<and> contByte c
         then Some ((code a - 0xE0) * 4096 + (code b - 0x80) * 64 + (code c - 0x80)) else None
     | [a, b, c, d] \<Rightarrow>
         if 0xF0 \<le> code a \<and> code a < 0xF8 \<and> contByte b \<and> contByte c \<and> contByte d
         then Some ((code a - 0xF0) * 262144 + (code b - 0x80) * 4096 + (code c - 0x80) * 64 + (code d - 0x80))
         else None
     | _ \<Rightarrow> None)"

lemma or_shifted:
  fixes a x :: nat
  assumes "x < 2 ^ k"
  shows "or (a * 2 ^ k) x = a * 2 ^ k + x"
proof -
  have "and (push_bit k a) x = 0"
  proof (rule bit_eqI)
    fix n
    have "bit x n \<Longrightarrow> n < k" using assms by (metis bit_take_bit_iff take_bit_nat_eq_self)
    then show "bit (and (push_bit k a) x) n \<longleftrightarrow> bit 0 n" by (auto simp: bit_and_iff bit_push_bit_iff)
  qed
  then show ?thesis by (simp add: push_bit_eq_mult disjunctive_add_eq_or)
qed

lemma and_63: "and (x::nat) 63 = x mod 64"
  using take_bit_eq_mask [of 6 x] by (simp add: take_bit_eq_mod mask_eq_exp_minus_1)

lemma code_byte: "n < 256 \<Longrightarrow> code (byte n) = n"
  by (simp add: code_def byte_def)

lemma code_cont: "code (byte (or 128 (and x 63))) = 128 + x mod 64"
  using or_shifted [of "x mod 64" 6 2] by (simp add: and_63 code_byte)

lemma code_lead:
  "x < 32 \<Longrightarrow> code (byte (or 192 x)) = 192 + x"
  "x < 16 \<Longrightarrow> code (byte (or 224 x)) = 224 + x"
  "x < 8 \<Longrightarrow> code (byte (or 240 x)) = 240 + x"
  using or_shifted [of x 5 6] or_shifted [of x 4 14] or_shifted [of x 3 30] by (simp_all add: code_byte)

lemma split2: "c div 4096 * 4096 + c div 64 mod 64 * 64 + c mod 64 = (c::nat)"
proof -
  have "c div 4096 * 64 + c div 64 mod 64 = c div 64"
    using div_mult_mod_eq [of "c div 64" 64] by (simp add: div_mult2_eq [symmetric])
  then have "(c div 4096 * 64 + c div 64 mod 64) * 64 + c mod 64 = c" by simp
  then show ?thesis by (simp add: algebra_simps)
qed

lemma split3: "c div 262144 * 262144 + c div 4096 mod 64 * 4096 + c div 64 mod 64 * 64 + c mod 64 = (c::nat)"
proof -
  have "c div 262144 * 64 + c div 4096 mod 64 = c div 4096"
    using div_mult_mod_eq [of "c div 4096" 64] by (simp add: div_mult2_eq [symmetric])
  then have "(c div 262144 * 64 + c div 4096 mod 64) * 4096 + c div 64 mod 64 * 64 + c mod 64 = c"
    using split2 [of c] by simp
  then show ?thesis by (simp add: algebra_simps)
qed

text \<open>
  The bytes the escapes produce are the UTF-8 encoding of the code point: decoding them gives the
  code point back, for every code point up to U+10FFFF, and the two escape forms agree on those
  both can write.
\<close>

theorem encodeUtf8_decodes:
  assumes "c \<le> 0x10FFFF"
  shows "utf8Decode (encodeUtf8 c) = Some c \<and> (c \<le> 0xFFFF \<longrightarrow> encodeBMP c = encodeUtf8 c)"
proof -
  have d: "drop_bit 6 c = c div 64" "drop_bit 12 c = c div 4096" "drop_bit 18 c = c div 262144"
    by (simp_all add: drop_bit_eq_div)
  consider "c \<le> 0x7F" | "0x7F < c" "c \<le> 0x7FF" | "0x7FF < c" "c \<le> 0xFFFF" | "0xFFFF < c" by linarith
  then have "utf8Decode (encodeUtf8 c) = Some c"
  proof cases
    case 1
    then show ?thesis by (simp add: encodeUtf8_def utf8Decode_def code_byte)
  next
    case 2
    then have "c div 64 < 32" by auto
    with 2 show ?thesis
      by (simp add: encodeUtf8_def utf8Decode_def contByte_def code_cont code_lead d)
  next
    case 3
    then have "c div 4096 < 16" by auto
    moreover have "c div 4096 * 4096 + c div 64 mod 64 * 64 + c mod 64 = c"
      by (rule split2)
    ultimately show ?thesis using 3
      by (simp add: encodeUtf8_def utf8Decode_def contByte_def code_cont code_lead d)
  next
    case 4
    then have "c div 262144 < 8" using assms by auto
    moreover have "c div 262144 * 262144 + c div 4096 mod 64 * 4096 + c div 64 mod 64 * 64 + c mod 64 = c"
      by (rule split3)
    ultimately show ?thesis using 4
      by (simp add: encodeUtf8_def utf8Decode_def contByte_def code_cont code_lead d)
  qed
  then show ?thesis by (simp add: encodeBMP_def encodeUtf8_def)
qed

lemma encodeUtf8_decodes_witness: "utf8Decode (encodeUtf8 0x20AC) = Some 0x20AC"
  using encodeUtf8_decodes [of "0x20AC"] by simp

end
