(* ===== verification/Ast.thy ===== *)
theory Ast
  imports Vsl_Prelude
begin

text \<open>
  The syntax tree (\<^verbatim>\<open>include/ast.h\<close>): one constructor per node class, its fields in the order of the
  class, preceded by the source range every node carries. Owned pointers that may be null are
  options. A node the parser gives no position keeps the zeros it was constructed with.
\<close>

section \<open>Source ranges\<close>

record Node =
  n_line :: int
  n_column :: int
  n_endLine :: int
  n_endCol :: int

definition node0 :: Node where
  "node0 = \<lparr>n_line = 0, n_column = 0, n_endLine = 0, n_endCol = 0\<rparr>"

section \<open>Expressions\<close>

text \<open>
  The value of a floating-point literal is kept as the exact decimal it was written as,
  \<open>mantissa * 10 ^ exponent\<close>; the rounding to a \<^verbatim>\<open>double\<close> is not modelled.
\<close>

datatype decimal = Decimal (mantissa: nat) (exponent: int)

datatype BinOp =
    Add | Sub | Mul | Div | IntDiv | Mod | Pow
  | Eq | Neq | Lt | Gt | Lte | Gte
  | And | Or | In | NotIn
  | BitAnd | BitOr | BitXor | Shl | Shr
  | NullCoalesce

datatype UnaryOp = Neg | Not | BitNot

datatype CaptureInfo = CaptureInfo (ci_name: string) (ci_byReference: bool)

datatype Expr =
    IntLiteral Node int64
  | FloatLiteral Node decimal
  | StringLiteral Node string
  | FStringLiteral Node string
  | FStringExpr Node "FStringPart list"
  | BoolLiteral Node bool
  | NullLiteral Node
  | Identifier Node string
  | ThisExpr Node
  | SuperExpr Node
  | BinaryExpr Node BinOp Expr Expr
  | UnaryExpr Node UnaryOp Expr
  | CallExpr Node Expr "Expr list" "string list"
  | MemberExpr Node Expr string
  | IndexExpr Node Expr Expr
  | LambdaExpr Node "string list" Expr "CaptureInfo list"
  | ListExpr Node "Expr list"
  | DictExpr Node "(Expr \<times> Expr) list"
  | TupleExpr Node "Expr list"
  | TernaryExpr Node Expr Expr Expr
  | SliceExpr Node Expr "Expr option" "Expr option" "Expr option"
  | ListComprehension Node Expr string Expr "Expr option"
  | DictComprehension Node Expr Expr string Expr "Expr option"
  | SpreadExpr Node Expr
  | DictSpreadExpr Node Expr
  | WalrusExpr Node string Expr
  | GoExpr Node Expr "Expr list"
  | ChanRecvExpr Node Expr
and FStringPart = LitPart string | ExprPart Expr

fun exprNode :: "Expr \<Rightarrow> Node" where
  "exprNode (IntLiteral n _) = n"
| "exprNode (FloatLiteral n _) = n"
| "exprNode (StringLiteral n _) = n"
| "exprNode (FStringLiteral n _) = n"
| "exprNode (FStringExpr n _) = n"
| "exprNode (BoolLiteral n _) = n"
| "exprNode (NullLiteral n) = n"
| "exprNode (Identifier n _) = n"
| "exprNode (ThisExpr n) = n"
| "exprNode (SuperExpr n) = n"
| "exprNode (BinaryExpr n _ _ _) = n"
| "exprNode (UnaryExpr n _ _) = n"
| "exprNode (CallExpr n _ _ _) = n"
| "exprNode (MemberExpr n _ _) = n"
| "exprNode (IndexExpr n _ _) = n"
| "exprNode (LambdaExpr n _ _ _) = n"
| "exprNode (ListExpr n _) = n"
| "exprNode (DictExpr n _) = n"
| "exprNode (TupleExpr n _) = n"
| "exprNode (TernaryExpr n _ _ _) = n"
| "exprNode (SliceExpr n _ _ _ _) = n"
| "exprNode (ListComprehension n _ _ _ _) = n"
| "exprNode (DictComprehension n _ _ _ _ _) = n"
| "exprNode (SpreadExpr n _) = n"
| "exprNode (DictSpreadExpr n _) = n"
| "exprNode (WalrusExpr n _ _) = n"
| "exprNode (GoExpr n _ _) = n"
| "exprNode (ChanRecvExpr n _) = n"

section \<open>Statements\<close>

datatype Param = Param
  (pm_name: string)
  (pm_typeAnnotation: string)
  (pm_defaultValue: "Expr option")
  (pm_isVariadic: bool)
  (pm_isKwargs: bool)

datatype MethodSignature = MethodSignature
  (ms_name: string)
  (ms_params: "Param list")
  (ms_returnType: string)

text \<open>
  The parts of a function header besides the body: name, type parameters, their bounds (a map from
  parameter to bound, as an association list), parameters, return type, decorators, and the three
  fields of the C interface.
\<close>

datatype FuncHead = FuncHead
  (fh_name: string)
  (fh_typeParams: "string list")
  (fh_typeParamBounds: "(string \<times> string) list")
  (fh_params: "Param list")
  (fh_returnType: string)
  (fh_decorators: "Expr list")
  (fh_isExtern: bool)
  (fh_externLibName: string)
  (fh_isVariadicCFunc: bool)

datatype ClassHead = ClassHead
  (ch_name: string)
  (ch_baseClass: "string option")
  (ch_extraBases: "string list")
  (ch_interfaces: "string list")
  (ch_typeParams: "string list")
  (ch_typeParamBounds: "(string \<times> string) list")

datatype Stmt =
    ExprStmt Node Expr
  | AssignStmt Node Expr Expr "Expr list" string
  | ConstStmt Node string Expr string
  | TupleUnpackStmt Node "string list" Expr
  | ReturnStmt Node "Expr option"
  | BreakStmt Node
  | ContinueStmt Node
  | PassStmt Node
  | ChanSendStmt Node Expr Expr
  | FuncDef Node FuncHead "Stmt list"
  | ClassDef Node ClassHead "Stmt list"
  | InitDef Node "Param list" "Stmt list"
  | EnumDef Node string "string list"
  | IfStmt Node Expr "Stmt list" "(Expr \<times> Stmt list) list" "Stmt list"
  | ForStmt Node string "string list" Expr "Stmt list" "Stmt list"
  | WhileStmt Node Expr "Stmt list" "Stmt list"
  | ThrowStmt Node "Expr option"
  | YieldStmt Node "Expr option"
  | AssertStmt Node Expr "Expr option"
  | DelStmt Node Expr
  | WithStmt Node Expr string "Stmt list"
  | TryStmt Node "Stmt list" "CatchClause list" "Stmt list"
  | ImportStmt Node string
  | FromImportStmt Node string "string list"
  | MatchStmt Node Expr "MatchCase list"
  | InterfaceDef Node string "MethodSignature list"
and CatchClause = CatchClause string string "Stmt list"
and MatchCase = MatchCase "Expr option" "Expr option" "Stmt list"

fun stmtNode :: "Stmt \<Rightarrow> Node" where
  "stmtNode (ExprStmt n _) = n"
| "stmtNode (AssignStmt n _ _ _ _) = n"
| "stmtNode (ConstStmt n _ _ _) = n"
| "stmtNode (TupleUnpackStmt n _ _) = n"
| "stmtNode (ReturnStmt n _) = n"
| "stmtNode (BreakStmt n) = n"
| "stmtNode (ContinueStmt n) = n"
| "stmtNode (PassStmt n) = n"
| "stmtNode (ChanSendStmt n _ _) = n"
| "stmtNode (FuncDef n _ _) = n"
| "stmtNode (ClassDef n _ _) = n"
| "stmtNode (InitDef n _ _) = n"
| "stmtNode (EnumDef n _ _) = n"
| "stmtNode (IfStmt n _ _ _ _) = n"
| "stmtNode (ForStmt n _ _ _ _ _) = n"
| "stmtNode (WhileStmt n _ _ _) = n"
| "stmtNode (ThrowStmt n _) = n"
| "stmtNode (YieldStmt n _) = n"
| "stmtNode (AssertStmt n _ _) = n"
| "stmtNode (DelStmt n _) = n"
| "stmtNode (WithStmt n _ _ _) = n"
| "stmtNode (TryStmt n _ _ _) = n"
| "stmtNode (ImportStmt n _) = n"
| "stmtNode (FromImportStmt n _ _) = n"
| "stmtNode (MatchStmt n _ _) = n"
| "stmtNode (InterfaceDef n _ _) = n"

primrec setStmtNode :: "Node \<Rightarrow> Stmt \<Rightarrow> Stmt" where
  "setStmtNode n (ExprStmt _ e) = ExprStmt n e"
| "setStmtNode n (AssignStmt _ t v ex ta) = AssignStmt n t v ex ta"
| "setStmtNode n (ConstStmt _ x v ta) = ConstStmt n x v ta"
| "setStmtNode n (TupleUnpackStmt _ ts v) = TupleUnpackStmt n ts v"
| "setStmtNode n (ReturnStmt _ v) = ReturnStmt n v"
| "setStmtNode n (BreakStmt _) = BreakStmt n"
| "setStmtNode n (ContinueStmt _) = ContinueStmt n"
| "setStmtNode n (PassStmt _) = PassStmt n"
| "setStmtNode n (ChanSendStmt _ c v) = ChanSendStmt n c v"
| "setStmtNode n (FuncDef _ h b) = FuncDef n h b"
| "setStmtNode n (ClassDef _ h b) = ClassDef n h b"
| "setStmtNode n (InitDef _ ps b) = InitDef n ps b"
| "setStmtNode n (EnumDef _ x ms) = EnumDef n x ms"
| "setStmtNode n (IfStmt _ c t es e) = IfStmt n c t es e"
| "setStmtNode n (ForStmt _ x xs i b e) = ForStmt n x xs i b e"
| "setStmtNode n (WhileStmt _ c b e) = WhileStmt n c b e"
| "setStmtNode n (ThrowStmt _ e) = ThrowStmt n e"
| "setStmtNode n (YieldStmt _ v) = YieldStmt n v"
| "setStmtNode n (AssertStmt _ c m) = AssertStmt n c m"
| "setStmtNode n (DelStmt _ t) = DelStmt n t"
| "setStmtNode n (WithStmt _ e x b) = WithStmt n e x b"
| "setStmtNode n (TryStmt _ b cs f) = TryStmt n b cs f"
| "setStmtNode n (ImportStmt _ m) = ImportStmt n m"
| "setStmtNode n (FromImportStmt _ m xs) = FromImportStmt n m xs"
| "setStmtNode n (MatchStmt _ e cs) = MatchStmt n e cs"
| "setStmtNode n (InterfaceDef _ x ms) = InterfaceDef n x ms"

lemma stmtNode_set [simp]: "stmtNode (setStmtNode n s) = n"
  by (cases s) simp_all

datatype Program = Program (pr_node: Node) (pr_statements: "Stmt list")

end
