(* ===== verification/Clone.thy ===== *)
theory Clone
  imports Ast
begin

text \<open>
  \<^verbatim>\<open>cloneExpr\<close> (\<^verbatim>\<open>src/parser.cpp\<close>): the deep copy the parser uses where a desugaring needs an operand
  twice. It copies the line and the column of each node, not the end of its range; it has no case for
  f-strings, which fall through to the null literal at its end, and its call case does not copy the
  type arguments.
\<close>

definition startOnly :: "Node \<Rightarrow> Node" where
  "startOnly n = node0\<lparr>n_line := n_line n, n_column := n_column n\<rparr>"

primrec cloneExpr :: "Expr \<Rightarrow> Expr" where
  "cloneExpr (IntLiteral n v) = IntLiteral (startOnly n) v"
| "cloneExpr (FloatLiteral n v) = FloatLiteral (startOnly n) v"
| "cloneExpr (StringLiteral n v) = StringLiteral (startOnly n) v"
| "cloneExpr (FStringLiteral n r) = FStringLiteral (startOnly n) r"
| "cloneExpr (BoolLiteral n v) = BoolLiteral (startOnly n) v"
| "cloneExpr (NullLiteral n) = NullLiteral (startOnly n)"
| "cloneExpr (Identifier n x) = Identifier (startOnly n) x"
| "cloneExpr (ThisExpr n) = ThisExpr (startOnly n)"
| "cloneExpr (SuperExpr n) = SuperExpr (startOnly n)"
| "cloneExpr (BinaryExpr n op l r) = BinaryExpr (startOnly n) op (cloneExpr l) (cloneExpr r)"
| "cloneExpr (UnaryExpr n op e) = UnaryExpr (startOnly n) op (cloneExpr e)"
| "cloneExpr (CallExpr n c args typeArgs) = CallExpr (startOnly n) (cloneExpr c) (map cloneExpr args) []"
| "cloneExpr (MemberExpr n e m) = MemberExpr (startOnly n) (cloneExpr e) m"
| "cloneExpr (IndexExpr n e i) = IndexExpr (startOnly n) (cloneExpr e) (cloneExpr i)"
| "cloneExpr (ListExpr n es) = ListExpr (startOnly n) (map cloneExpr es)"
| "cloneExpr (DictExpr n kvs) = DictExpr (startOnly n) (map (map_prod cloneExpr cloneExpr) kvs)"
| "cloneExpr (TupleExpr n es) = TupleExpr (startOnly n) (map cloneExpr es)"
| "cloneExpr (TernaryExpr n c t e) = TernaryExpr (startOnly n) (cloneExpr c) (cloneExpr t) (cloneExpr e)"
| "cloneExpr (LambdaExpr n ps b cs) = LambdaExpr (startOnly n) ps (cloneExpr b) []"
| "cloneExpr (SliceExpr n e a b c) =
    SliceExpr (startOnly n) (cloneExpr e) (map_option cloneExpr a) (map_option cloneExpr b)
      (map_option cloneExpr c)"
| "cloneExpr (ListComprehension n b x i c) =
    ListComprehension (startOnly n) (cloneExpr b) x (cloneExpr i) (map_option cloneExpr c)"
| "cloneExpr (DictComprehension n k v x i c) =
    DictComprehension (startOnly n) (cloneExpr k) (cloneExpr v) x (cloneExpr i) (map_option cloneExpr c)"
| "cloneExpr (SpreadExpr n e) = SpreadExpr (startOnly n) (cloneExpr e)"
| "cloneExpr (DictSpreadExpr n e) = DictSpreadExpr (startOnly n) (cloneExpr e)"
| "cloneExpr (WalrusExpr n x e) = WalrusExpr (startOnly n) x (cloneExpr e)"
| "cloneExpr (GoExpr n c args) = GoExpr (startOnly n) (cloneExpr c) (map cloneExpr args)"
| "cloneExpr (ChanRecvExpr n e) = ChanRecvExpr (startOnly n) (cloneExpr e)"
| "cloneExpr (FStringExpr n parts) = NullLiteral (startOnly n)"

section \<open>What a copy keeps\<close>

text \<open>
  Two expressions that differ only in what the copy drops: the source ranges and the captures, which
  a later phase fills in.
\<close>

primrec stripExpr :: "Expr \<Rightarrow> Expr" and stripPart :: "FStringPart \<Rightarrow> FStringPart" where
  "stripExpr (IntLiteral n v) = IntLiteral node0 v"
| "stripExpr (FloatLiteral n v) = FloatLiteral node0 v"
| "stripExpr (StringLiteral n v) = StringLiteral node0 v"
| "stripExpr (FStringLiteral n r) = FStringLiteral node0 r"
| "stripExpr (BoolLiteral n v) = BoolLiteral node0 v"
| "stripExpr (NullLiteral n) = NullLiteral node0"
| "stripExpr (Identifier n x) = Identifier node0 x"
| "stripExpr (ThisExpr n) = ThisExpr node0"
| "stripExpr (SuperExpr n) = SuperExpr node0"
| "stripExpr (BinaryExpr n op l r) = BinaryExpr node0 op (stripExpr l) (stripExpr r)"
| "stripExpr (UnaryExpr n op e) = UnaryExpr node0 op (stripExpr e)"
| "stripExpr (CallExpr n c args typeArgs) = CallExpr node0 (stripExpr c) (map stripExpr args) typeArgs"
| "stripExpr (MemberExpr n e m) = MemberExpr node0 (stripExpr e) m"
| "stripExpr (IndexExpr n e i) = IndexExpr node0 (stripExpr e) (stripExpr i)"
| "stripExpr (ListExpr n es) = ListExpr node0 (map stripExpr es)"
| "stripExpr (DictExpr n kvs) = DictExpr node0 (map (map_prod stripExpr stripExpr) kvs)"
| "stripExpr (TupleExpr n es) = TupleExpr node0 (map stripExpr es)"
| "stripExpr (TernaryExpr n c t e) = TernaryExpr node0 (stripExpr c) (stripExpr t) (stripExpr e)"
| "stripExpr (LambdaExpr n ps b cs) = LambdaExpr node0 ps (stripExpr b) []"
| "stripExpr (SliceExpr n e a b c) =
    SliceExpr node0 (stripExpr e) (map_option stripExpr a) (map_option stripExpr b) (map_option stripExpr c)"
| "stripExpr (ListComprehension n b x i c) =
    ListComprehension node0 (stripExpr b) x (stripExpr i) (map_option stripExpr c)"
| "stripExpr (DictComprehension n k v x i c) =
    DictComprehension node0 (stripExpr k) (stripExpr v) x (stripExpr i) (map_option stripExpr c)"
| "stripExpr (SpreadExpr n e) = SpreadExpr node0 (stripExpr e)"
| "stripExpr (DictSpreadExpr n e) = DictSpreadExpr node0 (stripExpr e)"
| "stripExpr (WalrusExpr n x e) = WalrusExpr node0 x (stripExpr e)"
| "stripExpr (GoExpr n c args) = GoExpr node0 (stripExpr c) (map stripExpr args)"
| "stripExpr (ChanRecvExpr n e) = ChanRecvExpr node0 (stripExpr e)"
| "stripExpr (FStringExpr n parts) = FStringExpr node0 (map stripPart parts)"
| "stripPart (LitPart s) = LitPart s"
| "stripPart (ExprPart e) = ExprPart (stripExpr e)"

text \<open>The expressions the copy is faithful on: no f-string and no call with type arguments inside.\<close>

primrec copyable :: "Expr \<Rightarrow> bool" where
  "copyable (IntLiteral n v) = True"
| "copyable (FloatLiteral n v) = True"
| "copyable (StringLiteral n v) = True"
| "copyable (FStringLiteral n r) = True"
| "copyable (BoolLiteral n v) = True"
| "copyable (NullLiteral n) = True"
| "copyable (Identifier n x) = True"
| "copyable (ThisExpr n) = True"
| "copyable (SuperExpr n) = True"
| "copyable (BinaryExpr n op l r) = (copyable l \<and> copyable r)"
| "copyable (UnaryExpr n op e) = copyable e"
| "copyable (CallExpr n c args typeArgs) = (copyable c \<and> list_all id (map copyable args) \<and> typeArgs = [])"
| "copyable (MemberExpr n e m) = copyable e"
| "copyable (IndexExpr n e i) = (copyable e \<and> copyable i)"
| "copyable (ListExpr n es) = list_all id (map copyable es)"
| "copyable (DictExpr n kvs) = list_all (\<lambda>(a, b). a \<and> b) (map (map_prod copyable copyable) kvs)"
| "copyable (TupleExpr n es) = list_all id (map copyable es)"
| "copyable (TernaryExpr n c t e) = (copyable c \<and> copyable t \<and> copyable e)"
| "copyable (LambdaExpr n ps b cs) = copyable b"
| "copyable (SliceExpr n e a b c) =
    (copyable e \<and> pred_option id (map_option copyable a) \<and> pred_option id (map_option copyable b) \<and>
     pred_option id (map_option copyable c))"
| "copyable (ListComprehension n b x i c) =
    (copyable b \<and> copyable i \<and> pred_option id (map_option copyable c))"
| "copyable (DictComprehension n k v x i c) =
    (copyable k \<and> copyable v \<and> copyable i \<and> pred_option id (map_option copyable c))"
| "copyable (SpreadExpr n e) = copyable e"
| "copyable (DictSpreadExpr n e) = copyable e"
| "copyable (WalrusExpr n x e) = copyable e"
| "copyable (GoExpr n c args) = (copyable c \<and> list_all id (map copyable args))"
| "copyable (ChanRecvExpr n e) = copyable e"
| "copyable (FStringExpr n parts) = False"

lemma map_prod_iff:
  assumes "\<And>kv x. kv \<in> set kvs \<Longrightarrow> x \<in> Basic_BNFs.fsts kv \<Longrightarrow> f x = g x \<longleftrightarrow> p x"
    and "\<And>kv x. kv \<in> set kvs \<Longrightarrow> x \<in> Basic_BNFs.snds kv \<Longrightarrow> f x = g x \<longleftrightarrow> p x"
  shows "map (map_prod f f) kvs = map (map_prod g g) kvs \<longleftrightarrow> list_all (\<lambda>(a, b). a \<and> b) (map (map_prod p p) kvs)"
proof -
  have "f a = g a \<longleftrightarrow> p a" "f b = g b \<longleftrightarrow> p b" if "(a, b) \<in> set kvs" for a b
    using assms(1) [OF that, of a] assms(2) [OF that, of b]
    by (simp_all add: Basic_BNFs.fsts.simps Basic_BNFs.snds.simps)
  then show ?thesis by (fastforce simp: list_all_iff)
qed

lemma strip_clone: "stripExpr (cloneExpr e) = stripExpr e \<longleftrightarrow> copyable e"
proof (induction e rule: Expr.induct [where ?P2.0 = "\<lambda>_. True"])
  case (DictExpr n kvs)
  then show ?case
    using map_prod_iff [of kvs "\<lambda>x. stripExpr (cloneExpr x)" stripExpr copyable]
    by (simp add: map_prod.compositionality comp_def)
qed (auto simp: list_all_iff option.pred_set option.map_comp comp_def split: option.splits
  simp: map_option_case)

text \<open>
  C8. A copy is the expression it was made of, up to source ranges and captures, exactly when no
  f-string and no call with type arguments occurs in it: on any other expression the copy differs. It
  always starts where the expression starts.
\<close>

theorem cloneExpr_faithful:
  "(stripExpr (cloneExpr e) = stripExpr e \<longleftrightarrow> copyable e) \<and>
   n_line (exprNode (cloneExpr e)) = n_line (exprNode e) \<and> n_column (exprNode (cloneExpr e)) = n_column (exprNode e)"
  by (cases e) (simp_all add: strip_clone [symmetric] startOnly_def node0_def)

end
