(* ===== verification/Parser_Core.thy ===== *)
theory Parser_Core
  imports Lexer_Text Clone
begin

text \<open>
  The token level of the parser (\<^verbatim>\<open>include/parser.h\<close>, \<^verbatim>\<open>src/parser.cpp\<close>) and the contracts of parsing
  routines. A routine maps the parser object to its result and the object it leaves behind: an
  exception does not restore the position. Undefined behaviour of C++ (an index out of range, a null
  dereference, a failing assertion) is an outcome of its own, so that its absence can be stated.
\<close>

section \<open>Results\<close>

record Parser =
  ps_tokens :: "Token list"
  ps_filename :: string
  ps_pos :: nat

datatype ub = OutOfRange | NullDeref | AssertFailed

text \<open>
  How a routine ends without a value: with a \<^verbatim>\<open>ParseError\<close>; with a lexer error, which the lexing of the
  expressions inside an f-string can throw; in undefined behaviour; or because the fuel of a
  recursion was too small, which the theorems on fuel exclude.
\<close>

datatype exn = ParseError Diagnostic | LexErr lex_exn | Undefined ub | OutOfFuel

type_synonym 'a parser = "Parser \<Rightarrow> (exn + 'a) \<times> Parser"

definition ret :: "'a \<Rightarrow> 'a parser" where
  "ret x s = (Inr x, s)"

definition raise :: "exn \<Rightarrow> 'a parser" where
  "raise e s = (Inl e, s)"

definition bnd :: "'a parser \<Rightarrow> ('a \<Rightarrow> 'b parser) \<Rightarrow> 'b parser" where
  "bnd p f s = (case p s of (Inl e, s) \<Rightarrow> (Inl e, s) | (Inr x, s) \<Rightarrow> f x s)"

definition andThen :: "'a parser \<Rightarrow> 'b parser \<Rightarrow> 'b parser" where
  "andThen p q = bnd p (\<lambda>_. q)"

definition getPos :: "nat parser" where
  "getPos s = (Inr (ps_pos s), s)"

definition setPos :: "nat \<Rightarrow> unit parser" where
  "setPos k s = (Inr (), s\<lparr>ps_pos := k\<rparr>)"

text \<open>
  A \<^verbatim>\<open>while\<close> loop whose body either stops, leaving the loop variables as they were, or goes on with new
  ones. The number of iterations is bounded by the tokens that are left: \<open>safe_loop\<close> shows that the
  bound is never reached, because each iteration that goes on has consumed a token.
\<close>

primrec whileP :: "nat \<Rightarrow> ('a \<Rightarrow> 'a option parser) \<Rightarrow> 'a \<Rightarrow> 'a parser" where
  "whileP 0 step acc = raise OutOfFuel"
| "whileP (Suc n) step acc =
     bnd (step acc) (\<lambda>r. case r of None \<Rightarrow> ret acc | Some acc \<Rightarrow> whileP n step acc)"

definition loop :: "('a \<Rightarrow> 'a option parser) \<Rightarrow> 'a \<Rightarrow> 'a parser" where
  "loop step acc s = whileP (Suc (length (ps_tokens s) - ps_pos s)) step acc s"

section \<open>Token helpers\<close>

text \<open>\<^verbatim>\<open>tokens_[i]\<close>, undefined out of range.\<close>

definition tokenAt :: "nat \<Rightarrow> Token parser" where
  "tokenAt i s = (if i < length (ps_tokens s) then (Inr (ps_tokens s ! i), s) else (Inl (Undefined OutOfRange), s))"

definition current :: "Token parser" where
  "current = bnd getPos tokenAt"

definition isAtEnd :: "bool parser" where
  "isAtEnd = bnd current (\<lambda>c. ret (tk_type c = END_OF_FILE))"

text \<open>\<^verbatim>\<open>tokens_[pos_ - 1]\<close>: at position 0 the unsigned index wraps around and is out of range.\<close>

definition lastConsumed :: "Token parser" where
  "lastConsumed = bnd getPos (\<lambda>p. if p = 0 then raise (Undefined OutOfRange) else tokenAt (p - 1))"

definition previous :: "Token parser" where
  "previous = bnd getPos (\<lambda>p. if p = 0 then raise (Undefined AssertFailed) else lastConsumed)"

definition advance :: "Token parser" where
  "advance = bnd isAtEnd (\<lambda>e. bnd getPos (\<lambda>p.
     andThen (if e then ret () else setPos (p + 1)) lastConsumed))"

definition check :: "TokenType \<Rightarrow> bool parser" where
  "check type = bnd isAtEnd (\<lambda>e. if e then ret False else bnd current (\<lambda>c. ret (tk_type c = type)))"

definition matchTok :: "TokenType \<Rightarrow> bool parser" where
  "matchTok type = bnd (check type) (\<lambda>b. if b then andThen advance (ret True) else ret False)"

definition errorAt :: "Token \<Rightarrow> string \<Rightarrow> 'a parser" where
  "errorAt tok msg s = (Inl (ParseError (mkParseError msg (ps_filename s) (tk_line tok) (tk_column tok))), s)"

definition error :: "string \<Rightarrow> 'a parser" where
  "error msg = bnd current (\<lambda>c. errorAt c msg)"

definition expect :: "TokenType \<Rightarrow> string \<Rightarrow> Token parser" where
  "expect type msg = bnd (check type) (\<lambda>b. if b then advance else error msg)"

definition skipNewlines :: "unit parser" where
  "skipNewlines = loop (\<lambda>_. bnd (check NEWLINE) (\<lambda>b. if b then andThen advance (ret (Some ())) else ret None)) ()"

definition synchronize :: "unit parser" where
  "synchronize =
     bnd (loop (\<lambda>done. if done then ret None else
            bnd isAtEnd (\<lambda>e. if e then ret None else
            bnd current (\<lambda>c. if tk_type c = NEWLINE \<or> tk_type c = DEDENT
              then andThen advance (ret (Some True)) else andThen advance (ret (Some False))))) False)
       (\<lambda>_. ret ())"

text \<open>The idioms of the routines: a test that consumes, a test that looks, the lexeme of an expected token.\<close>

definition whenMatch :: "TokenType \<Rightarrow> 'a parser \<Rightarrow> 'a parser \<Rightarrow> 'a parser" where
  "whenMatch type yes no = bnd (matchTok type) (\<lambda>b. if b then yes else no)"

definition whenCheck :: "TokenType \<Rightarrow> 'a parser \<Rightarrow> 'a parser \<Rightarrow> 'a parser" where
  "whenCheck type yes no = bnd (check type) (\<lambda>b. if b then yes else no)"

definition name :: "TokenType \<Rightarrow> string \<Rightarrow> string parser" where
  "name type msg = bnd (expect type msg) (\<lambda>t. ret (tk_lexeme t))"

text \<open>\<^verbatim>\<open>do { item } while (match(COMMA))\<close>, collecting the items.\<close>

definition commaList :: "'a parser \<Rightarrow> 'a list parser" where
  "commaList item = bnd item (\<lambda>x.
     loop (\<lambda>xs. whenMatch COMMA (bnd item (\<lambda>y. ret (Some (xs @ [y])))) (ret None)) [x])"

text \<open>
  \<^verbatim>\<open>int ln = current().line, col = current().column;\<close> and the range of a node from there to the last
  token consumed.
\<close>

definition here :: "(int \<Rightarrow> int \<Rightarrow> 'a parser) \<Rightarrow> 'a parser" where
  "here f = bnd current (\<lambda>c. f (tk_line c) (tk_column c))"

definition finish :: "int \<Rightarrow> int \<Rightarrow> (Node \<Rightarrow> 'a) \<Rightarrow> 'a parser" where
  "finish ln col mk = bnd previous (\<lambda>p.
     ret (mk \<lparr>n_line = ln, n_column = col, n_endLine = tk_line p, n_endCol = tk_column p\<rparr>))"

section \<open>Contracts\<close>

text \<open>
  A token vector as the lexer makes it: it ends with END_OF_FILE, and an f-string has its prefix and
  its first quote. \<open>reach s0 s\<close>: the parser has moved from \<open>s0\<close> to \<open>s\<close> over the same tokens.
\<close>

definition tokens_ok :: "Token list \<Rightarrow> bool" where
  "tokens_ok ts \<longleftrightarrow> ts \<noteq> [] \<and> tk_type (last ts) = END_OF_FILE \<and>
     list_all (\<lambda>t. tk_type t = FSTRING_LITERAL \<longrightarrow> 2 \<le> length (tk_lexeme t)) ts"

definition wf :: "Parser \<Rightarrow> bool" where
  "wf s \<longleftrightarrow> tokens_ok (ps_tokens s) \<and> ps_pos s < length (ps_tokens s)"

definition reach :: "Parser \<Rightarrow> Parser \<Rightarrow> bool" where
  "reach s0 s \<longleftrightarrow> wf s \<and> ps_tokens s = ps_tokens s0 \<and> ps_filename s = ps_filename s0 \<and> ps_pos s0 \<le> ps_pos s"

text \<open>The ways of ending that are not defects of the program text around the routine.\<close>

definition benign :: "exn \<Rightarrow> bool" where
  "benign e \<longleftrightarrow> (case e of ParseError _ \<Rightarrow> True | LexErr _ \<Rightarrow> True | Undefined u \<Rightarrow> u = NullDeref | OutOfFuel \<Rightarrow> False)"

definition safe :: "Parser \<Rightarrow> 'a parser \<Rightarrow> Parser \<Rightarrow> ('a \<Rightarrow> Parser \<Rightarrow> bool) \<Rightarrow> bool" where
  "safe s0 p s Q \<longleftrightarrow>
     (case p s of (Inl e, s') \<Rightarrow> reach s0 s' \<and> benign e | (Inr x, s') \<Rightarrow> reach s0 s' \<and> Q x s')"

text \<open>A routine that consumes at least one token when it succeeds.\<close>

definition strict :: "'a parser \<Rightarrow> Parser \<Rightarrow> bool" where
  "strict p s \<longleftrightarrow> safe s p s (\<lambda>_ s'. ps_pos s < ps_pos s')"

lemma reach_refl: "wf s \<Longrightarrow> reach s s"
  by (simp add: reach_def)

lemma reach_trans: "reach a b \<Longrightarrow> reach b c \<Longrightarrow> reach a c"
  by (auto simp: reach_def)

lemma reach_wf: "reach a b \<Longrightarrow> wf b"
  by (simp add: reach_def)

lemma safe_weaken:
  "safe s0 p s Q \<Longrightarrow> (\<And>x s'. reach s0 s' \<Longrightarrow> Q x s' \<Longrightarrow> Q' x s') \<Longrightarrow> safe s0 p s Q'"
  by (auto simp: safe_def split: prod.splits sum.splits)

lemma safe_anchor:
  assumes "safe s p s Q" and "reach s0 s" and "\<And>x s'. reach s0 s' \<Longrightarrow> reach s s' \<Longrightarrow> Q x s' \<Longrightarrow> Q' x s'"
  shows "safe s0 p s Q'"
  using assms by (auto simp: safe_def split: prod.splits sum.splits intro: reach_trans)

lemma safe_ret: "reach s0 s \<Longrightarrow> Q x s \<Longrightarrow> safe s0 (ret x) s Q"
  by (simp add: safe_def ret_def)

lemma safe_raise: "reach s0 s \<Longrightarrow> benign e \<Longrightarrow> safe s0 (raise e) s Q"
  by (simp add: safe_def raise_def)

lemma safe_bnd: "safe s0 p s (\<lambda>x s'. safe s0 (f x) s' Q) \<Longrightarrow> safe s0 (bnd p f) s Q"
  by (auto simp: safe_def bnd_def split: prod.splits sum.splits)

lemma safe_andThen: "safe s0 p s (\<lambda>x s'. safe s0 q s' Q) \<Longrightarrow> safe s0 (andThen p q) s Q"
  by (simp add: andThen_def safe_bnd)

lemma safe_if:
  "(b \<Longrightarrow> safe s0 p s Q) \<Longrightarrow> (\<not> b \<Longrightarrow> safe s0 q s Q) \<Longrightarrow> safe s0 (if b then p else q) s Q"
  by simp

lemma safe_option:
  "(m = None \<Longrightarrow> safe s0 p s Q) \<Longrightarrow> (\<And>x. m = Some x \<Longrightarrow> safe s0 (f x) s Q) \<Longrightarrow>
     safe s0 (case m of None \<Rightarrow> p | Some x \<Rightarrow> f x) s Q"
  by (cases m) simp_all

lemma safe_prod: "(\<And>a b. m = (a, b) \<Longrightarrow> safe s0 (f a b) s Q) \<Longrightarrow> safe s0 (case m of (a, b) \<Rightarrow> f a b) s Q"
  by (cases m) simp

lemma safe_getPos: "reach s0 s \<Longrightarrow> Q (ps_pos s) s \<Longrightarrow> safe s0 getPos s Q"
  by (simp add: safe_def getPos_def)

lemma safe_setPos:
  assumes "reach s0 s" and "ps_pos s0 \<le> k" and "k \<le> ps_pos s"
    and "reach s0 (s\<lparr>ps_pos := k\<rparr>) \<Longrightarrow> Q () (s\<lparr>ps_pos := k\<rparr>)"
  shows "safe s0 (setPos k) s Q"
  using assms by (auto simp: safe_def setPos_def reach_def wf_def)

subsection \<open>The token helpers\<close>

definition tok :: "Parser \<Rightarrow> Token" where
  "tok s = ps_tokens s ! ps_pos s"

lemma reach_bound: "reach s0 s \<Longrightarrow> ps_pos s < length (ps_tokens s)"
  unfolding reach_def wf_def by blast

text \<open>The last token is END_OF_FILE, so there is a next token where the current one is another.\<close>

lemma reach_next:
  assumes "reach s0 s" and "tk_type (tok s) \<noteq> END_OF_FILE"
  shows "Suc (ps_pos s) < length (ps_tokens s)" and "reach s0 (s\<lparr>ps_pos := Suc (ps_pos s)\<rparr>)"
proof -
  have w: "ps_tokens s \<noteq> []" "tk_type (last (ps_tokens s)) = END_OF_FILE" "ps_pos s < length (ps_tokens s)"
    using assms(1) by (auto simp: reach_def wf_def tokens_ok_def)
  have "ps_pos s \<noteq> length (ps_tokens s) - 1"
    using w assms(2) by (auto simp: tok_def last_conv_nth)
  then show "Suc (ps_pos s) < length (ps_tokens s)" using w(3) by linarith
  then show "reach s0 (s\<lparr>ps_pos := Suc (ps_pos s)\<rparr>)" using assms(1) by (auto simp: reach_def wf_def)
qed

lemma current_eq: "reach s0 s \<Longrightarrow> current s = (Inr (tok s), s)"
  using reach_bound [of s0 s] by (simp add: current_def bnd_def getPos_def tokenAt_def tok_def)

lemma isAtEnd_eq: "reach s0 s \<Longrightarrow> isAtEnd s = (Inr (tk_type (tok s) = END_OF_FILE), s)"
  by (simp add: isAtEnd_def bnd_def current_eq ret_def)

lemma check_eq:
  "reach s0 s \<Longrightarrow> check t s = (Inr (tk_type (tok s) \<noteq> END_OF_FILE \<and> tk_type (tok s) = t), s)"
  by (simp add: check_def bnd_def isAtEnd_eq current_eq ret_def)

lemma lastConsumed_eq:
  "reach s0 s \<Longrightarrow> 0 < ps_pos s \<Longrightarrow> lastConsumed s = (Inr (ps_tokens s ! (ps_pos s - 1)), s)"
  using reach_bound [of s0 s] by (simp add: lastConsumed_def bnd_def getPos_def tokenAt_def)

lemma previous_eq:
  "reach s0 s \<Longrightarrow> 0 < ps_pos s \<Longrightarrow> previous s = (Inr (ps_tokens s ! (ps_pos s - 1)), s)"
  by (simp add: previous_def bnd_def getPos_def lastConsumed_eq)

lemma advance_eq:
  assumes "reach s0 s" and "tk_type (tok s) \<noteq> END_OF_FILE"
  shows "advance s = (Inr (tok s), s\<lparr>ps_pos := Suc (ps_pos s)\<rparr>)"
  using lastConsumed_eq [OF reach_next(2) [OF assms]] isAtEnd_eq [OF assms(1)] assms(2)
  by (simp add: advance_def bnd_def andThen_def getPos_def setPos_def tok_def)

lemma advance_end:
  assumes "reach s0 s" and "tk_type (tok s) = END_OF_FILE" and "0 < ps_pos s"
  shows "advance s = (Inr (ps_tokens s ! (ps_pos s - 1)), s)"
  using lastConsumed_eq [OF assms(1,3)] isAtEnd_eq [OF assms(1)] assms(2)
  by (simp add: advance_def bnd_def andThen_def getPos_def ret_def)

lemma safe_current: "reach s0 s \<Longrightarrow> Q (tok s) s \<Longrightarrow> safe s0 current s Q"
  by (simp add: safe_def current_eq)

lemma safe_isAtEnd: "reach s0 s \<Longrightarrow> Q (tk_type (tok s) = END_OF_FILE) s \<Longrightarrow> safe s0 isAtEnd s Q"
  by (simp add: safe_def isAtEnd_eq)

lemma safe_check:
  assumes "reach s0 s" and "tk_type (tok s) = t \<Longrightarrow> t \<noteq> END_OF_FILE \<Longrightarrow> Q True s"
    and "Q False s"
  shows "safe s0 (check t) s Q"
  using assms by (cases "tk_type (tok s) = t \<and> t \<noteq> END_OF_FILE") (auto simp: safe_def check_eq)

lemma safe_previous:
  assumes "reach s0 s" and "0 < ps_pos s" and "\<And>t. t \<in> set (ps_tokens s) \<Longrightarrow> Q t s"
  shows "safe s0 previous s Q"
  using assms reach_bound [of s0 s] by (simp add: safe_def previous_eq)

lemma safe_advance:
  assumes "reach s0 s" and "tk_type (tok s) \<noteq> END_OF_FILE"
    and "\<And>s'. reach s0 s' \<Longrightarrow> ps_pos s < ps_pos s' \<Longrightarrow> Q (tok s) s'"
  shows "safe s0 advance s Q"
  using assms reach_next(2) [OF assms(1,2)] by (simp add: safe_def advance_eq)

lemma safe_advance_any:
  assumes "reach s0 s" and "0 < ps_pos s"
    and "\<And>x s'. reach s0 s' \<Longrightarrow> ps_pos s \<le> ps_pos s' \<Longrightarrow> Q x s'"
  shows "safe s0 advance s Q"
  using assms reach_next(2) [of s0 s]
  by (cases "tk_type (tok s) = END_OF_FILE") (simp_all add: safe_def advance_eq advance_end)

lemma safe_matchTok:
  assumes "reach s0 s"
    and "\<And>s'. reach s0 s' \<Longrightarrow> ps_pos s < ps_pos s' \<Longrightarrow> tk_type (tok s) = t \<Longrightarrow> t \<noteq> END_OF_FILE \<Longrightarrow>
      s' = s\<lparr>ps_pos := Suc (ps_pos s)\<rparr> \<Longrightarrow> Q True s'"
    and "Q False s"
  shows "safe s0 (matchTok t) s Q"
  unfolding matchTok_def using assms reach_next [OF assms(1)]
  by (intro safe_bnd safe_check [OF assms(1)] safe_if safe_andThen)
    (auto simp: safe_def advance_eq ret_def)

lemma safe_whenMatch:
  assumes "reach s0 s"
    and "\<And>s'. reach s0 s' \<Longrightarrow> ps_pos s < ps_pos s' \<Longrightarrow> safe s0 yes s' Q"
    and "safe s0 no s Q"
  shows "safe s0 (whenMatch t yes no) s Q"
  unfolding whenMatch_def using assms by (intro safe_bnd safe_matchTok) simp_all

lemma safe_whenCheck:
  assumes "reach s0 s" and "tk_type (tok s) = t \<Longrightarrow> t \<noteq> END_OF_FILE \<Longrightarrow> safe s0 yes s Q" and "safe s0 no s Q"
  shows "safe s0 (whenCheck t yes no) s Q"
  unfolding whenCheck_def using assms by (intro safe_bnd safe_check) simp_all

lemma safe_errorAt: "reach s0 s \<Longrightarrow> safe s0 (errorAt t msg) s Q"
  by (simp add: safe_def errorAt_def benign_def)

lemma safe_error: "reach s0 s \<Longrightarrow> safe s0 (error msg) s Q"
  unfolding error_def by (intro safe_bnd safe_current safe_errorAt)

lemma safe_expect:
  assumes "reach s0 s"
    and "\<And>x s'. reach s0 s' \<Longrightarrow> ps_pos s < ps_pos s' \<Longrightarrow> Q x s'"
  shows "safe s0 (expect t msg) s Q"
  unfolding expect_def using assms
  by (intro safe_bnd safe_check safe_if safe_advance safe_error) auto

lemma safe_name:
  assumes "reach s0 s"
    and "\<And>x s'. reach s0 s' \<Longrightarrow> ps_pos s < ps_pos s' \<Longrightarrow> Q x s'"
  shows "safe s0 (name t msg) s Q"
  unfolding name_def using assms by (intro safe_bnd safe_expect safe_ret) auto

lemma safe_here:
  assumes "reach s0 s" and "\<And>ln col. safe s0 (f ln col) s Q"
  shows "safe s0 (here f) s Q"
  unfolding here_def using assms by (intro safe_bnd safe_current) auto

lemma safe_finish:
  assumes "reach s0 s" and "0 < ps_pos s" and "\<And>n. Q (mk n) s"
  shows "safe s0 (finish ln col mk) s Q"
  unfolding finish_def using assms by (intro safe_bnd safe_previous safe_ret) auto

text \<open>
  The loop rule: an iteration that goes on consumes a token, and one that stops gives none back. The
  bound on the iterations is then never reached.
\<close>

lemma safe_whileP:
  assumes "reach s0 s" and "length (ps_tokens s) - ps_pos s < n" and "I acc s"
    and "\<And>acc s'. reach s0 s' \<Longrightarrow> ps_pos s \<le> ps_pos s' \<Longrightarrow> I acc s' \<Longrightarrow>
      safe s0 (step acc) s' (\<lambda>r s''. case r of
          None \<Rightarrow> ps_pos s' \<le> ps_pos s'' \<and> P acc s''
        | Some acc \<Rightarrow> ps_pos s' < ps_pos s'' \<and> I acc s'')"
  shows "safe s0 (whileP n step acc) s (\<lambda>x s'. ps_pos s \<le> ps_pos s' \<and> P x s')"
  using assms
proof (induction n arbitrary: acc s)
  case 0
  then show ?case by simp
next
  case (Suc n)
  have "safe s0 (case r of None \<Rightarrow> ret acc | Some a \<Rightarrow> whileP n step a) s' (\<lambda>x s'. ps_pos s \<le> ps_pos s' \<and> P x s')"
    if "reach s0 s'"
      "case r of None \<Rightarrow> ps_pos s \<le> ps_pos s' \<and> P acc s' | Some acc \<Rightarrow> ps_pos s < ps_pos s' \<and> I acc s'" for r s'
  proof (cases r)
    case None
    then show ?thesis using that by (auto intro: safe_ret)
  next
    case (Some a)
    then have p: "ps_pos s < ps_pos s'" "I a s'" using that(2) by simp_all
    have "length (ps_tokens s') - ps_pos s' < n"
      using Suc.prems(1,2) that(1) p(1) reach_bound [OF that(1)] by (auto simp: reach_def)
    then have "safe s0 (whileP n step a) s' (\<lambda>x s''. ps_pos s' \<le> ps_pos s'' \<and> P x s'')"
      using Suc.prems(4) p by (intro Suc.IH that(1)) auto
    then show ?thesis using Some p by (auto elim!: safe_weaken)
  qed
  with Suc.prems(4) [OF Suc.prems(1) order.refl Suc.prems(3)] show ?case
    by (auto intro!: safe_bnd elim!: safe_weaken)
qed

lemma safe_loop_inv:
  assumes "reach s0 s" and "I acc s"
    and "\<And>acc s'. reach s0 s' \<Longrightarrow> ps_pos s \<le> ps_pos s' \<Longrightarrow> I acc s' \<Longrightarrow>
      safe s0 (step acc) s' (\<lambda>r s''. case r of
          None \<Rightarrow> ps_pos s' \<le> ps_pos s'' \<and> P acc s''
        | Some acc \<Rightarrow> ps_pos s' < ps_pos s'' \<and> I acc s'')"
    and "\<And>x s'. reach s0 s' \<Longrightarrow> ps_pos s \<le> ps_pos s' \<Longrightarrow> P x s' \<Longrightarrow> Q x s'"
  shows "safe s0 (loop step acc) s Q"
proof -
  have "safe s0 (whileP (Suc (length (ps_tokens s) - ps_pos s)) step acc) s (\<lambda>x s'. ps_pos s \<le> ps_pos s' \<and> P x s')"
    using assms(3) by (intro safe_whileP [where I = I] assms(1,2)) simp_all
  then have "safe s0 (loop step acc) s (\<lambda>x s'. ps_pos s \<le> ps_pos s' \<and> P x s')"
    by (simp add: safe_def loop_def)
  then show ?thesis by (rule safe_weaken) (simp add: assms(4))
qed

lemma safe_loop:
  assumes "reach s0 s"
    and "\<And>acc s'. reach s0 s' \<Longrightarrow> ps_pos s \<le> ps_pos s' \<Longrightarrow>
      safe s0 (step acc) s' (\<lambda>r s''. if r = None then ps_pos s' \<le> ps_pos s'' else ps_pos s' < ps_pos s'')"
    and "\<And>x s'. reach s0 s' \<Longrightarrow> ps_pos s \<le> ps_pos s' \<Longrightarrow> Q x s'"
  shows "safe s0 (loop step acc) s Q"
  using assms(3)
  by (intro safe_loop_inv [where I = "\<lambda>_ _. True" and P = "\<lambda>_ _. True", OF assms(1)] safe_weaken [OF assms(2)])
    (auto split: option.splits if_splits)

lemma safe_skipNewlines:
  assumes "reach s0 s" and "\<And>s'. reach s0 s' \<Longrightarrow> ps_pos s \<le> ps_pos s' \<Longrightarrow> Q () s'"
  shows "safe s0 skipNewlines s Q"
  unfolding skipNewlines_def
  by (rule safe_loop [OF assms(1)])
    (auto intro!: safe_bnd safe_check safe_if safe_andThen safe_advance safe_ret assms(2))

lemma safe_synchronize:
  assumes "reach s0 s" and "\<And>s'. reach s0 s' \<Longrightarrow> ps_pos s \<le> ps_pos s' \<Longrightarrow> Q () s'"
  shows "safe s0 synchronize s Q"
  unfolding synchronize_def
  by (rule safe_bnd, rule safe_loop [OF assms(1)])
    (auto intro!: safe_bnd safe_isAtEnd safe_current safe_if safe_andThen safe_advance safe_ret assms(2))

text \<open>An item that consumes a token, and the list of such items.\<close>

lemma safe_commaList:
  assumes "reach s0 s"
    and item: "\<And>s'. reach s0 s' \<Longrightarrow> ps_pos s \<le> ps_pos s' \<Longrightarrow> safe s0 item s' (\<lambda>_ s''. ps_pos s' < ps_pos s'')"
    and "\<And>x s'. reach s0 s' \<Longrightarrow> ps_pos s < ps_pos s' \<Longrightarrow> Q x s'"
  shows "safe s0 (commaList item) s Q"
proof -
  have step: "safe s0 (whenMatch COMMA (bnd item (\<lambda>y. ret (Some (xs @ [y])))) (ret None)) s'
      (\<lambda>r s''. if r = None then ps_pos s' \<le> ps_pos s'' else ps_pos s' < ps_pos s'')"
    if "reach s0 s'" "ps_pos s \<le> ps_pos s'" for xs s'
    using that
    by (intro safe_whenMatch safe_bnd safe_weaken [OF item] safe_ret) auto
  have rest: "safe s0 (loop (\<lambda>xs. whenMatch COMMA (bnd item (\<lambda>y. ret (Some (xs @ [y])))) (ret None)) [x]) s' Q"
    if "reach s0 s'" "ps_pos s < ps_pos s'" for x s'
    using that by (intro safe_loop [OF that(1)] step assms(3)) simp_all
  show ?thesis
    unfolding commaList_def
    by (intro safe_bnd safe_weaken [OF item [OF assms(1)]] rest) simp_all
qed

end
