(* ===== verification/Parser_Fuel.thy ===== *)
theory Parser_Fuel
  imports Parser_Core
begin

text \<open>
  Recursion of the parser. The routines of one recursive family are given with the recursive calls
  as a parameter; tying the knot takes a fuel. This theory states, once, what the three families
  (types, expressions, statements) need for the fuel to be invisible: the routines are monotone in
  their recursive calls, and a routine that may rely on the calls it makes on smaller inputs keeps
  its contract. Then enough fuel always gives a result, more fuel gives the same one, and the result
  satisfies the recursion equations of the source.
\<close>

section \<open>Approximation\<close>

definition below :: "'a parser \<Rightarrow> 'a parser \<Rightarrow> bool" where
  "below p q \<longleftrightarrow> (\<forall>s. fst (p s) = Inl OutOfFuel \<or> p s = q s)"

lemma below_refl [parser_safe]: "below p p"
  by (simp add: below_def)

lemma below_outOfFuel: "below (raise OutOfFuel) q"
  by (simp add: below_def raise_def)

lemma belowD: "below p q \<Longrightarrow> fst (p s) \<noteq> Inl OutOfFuel \<Longrightarrow> p s = q s"
  by (auto simp: below_def)

lemma below_bnd:
  assumes "below p q" and "\<And>x. below (f x) (g x)"
  shows "below (bnd p f) (bnd q g)"
  unfolding below_def
proof
  fix s
  show "fst (bnd p f s) = Inl OutOfFuel \<or> bnd p f s = bnd q g s"
  proof (cases "fst (p s) = Inl OutOfFuel")
    case True
    then show ?thesis by (cases "p s") (simp add: bnd_def)
  next
    case False
    then have "p s = q s" using assms(1) by (auto simp: below_def)
    then show ?thesis using assms(2) by (auto simp: bnd_def below_def split: prod.splits sum.splits)
  qed
qed

lemma below_andThen: "below p q \<Longrightarrow> below p' q' \<Longrightarrow> below (andThen p p') (andThen q q')"
  unfolding andThen_def by (intro below_bnd)

lemma below_if:
  "(b \<Longrightarrow> below p q) \<Longrightarrow> (\<not> b \<Longrightarrow> below p' q') \<Longrightarrow> below (if b then p else p') (if b then q else q')"
  by simp

lemma below_option:
  "below p q \<Longrightarrow> (\<And>x. below (f x) (g x)) \<Longrightarrow>
     below (case m of None \<Rightarrow> p | Some x \<Rightarrow> f x) (case m of None \<Rightarrow> q | Some x \<Rightarrow> g x)"
  by (cases m) simp_all

lemma below_prod:
  "(\<And>a b. below (f a b) (g a b)) \<Longrightarrow> below (case m of (a, b) \<Rightarrow> f a b) (case m of (a, b) \<Rightarrow> g a b)"
  by (cases m) simp

lemma below_whileP: "(\<And>acc. below (f acc) (g acc)) \<Longrightarrow> below (whileP n f acc) (whileP n g acc)"
  by (induction n arbitrary: acc) (auto intro!: below_bnd below_option below_refl)

lemma below_loop: "(\<And>acc. below (f acc) (g acc)) \<Longrightarrow> below (loop f acc) (loop g acc)"
proof -
  assume "\<And>acc. below (f acc) (g acc)"
  then have "below (whileP n f acc) (whileP n g acc)" for n by (rule below_whileP)
  then show ?thesis unfolding below_def loop_def by blast
qed

lemma below_when:
  "below p q \<Longrightarrow> below p' q' \<Longrightarrow> below (whenMatch t p p') (whenMatch t q q')"
  "below p q \<Longrightarrow> below p' q' \<Longrightarrow> below (whenCheck t p p') (whenCheck t q q')"
  unfolding whenMatch_def whenCheck_def by (intro below_bnd below_refl below_if; assumption)+

lemma below_commaList: "below p q \<Longrightarrow> below (commaList p) (commaList q)"
  unfolding commaList_def by (intro below_bnd below_loop below_when below_refl; assumption)

lemma below_here: "(\<And>ln col. below (f ln col) (g ln col)) \<Longrightarrow> below (here f) (here g)"
  unfolding here_def by (intro below_bnd below_refl; assumption)

lemmas below_intros = below_bnd below_andThen below_if below_option below_prod below_loop below_when
  below_commaList below_here

section \<open>Tying the knot\<close>

primrec knot :: "(('e \<Rightarrow> 'a parser) \<Rightarrow> 'e \<Rightarrow> 'a parser) \<Rightarrow> nat \<Rightarrow> 'e \<Rightarrow> 'a parser" where
  "knot F 0 = (\<lambda>e. raise OutOfFuel)"
| "knot F (Suc n) = F (knot F n)"

text \<open>The fuel of a call is the size of its input.\<close>

definition run :: "(Parser \<Rightarrow> nat) \<Rightarrow> (('e \<Rightarrow> 'a parser) \<Rightarrow> 'e \<Rightarrow> 'a parser) \<Rightarrow> 'e \<Rightarrow> 'a parser" where
  "run need F e s = knot F (Suc (need s)) e s"

text \<open>What a routine may assume of its recursive calls: the contract, on smaller inputs.\<close>

definition callable :: "(Parser \<Rightarrow> nat) \<Rightarrow> ('e \<Rightarrow> 'a parser) \<Rightarrow> Parser \<Rightarrow> bool" where
  "callable need rec s \<longleftrightarrow> (\<forall>e s'. wf s' \<longrightarrow> need s' < need s \<longrightarrow> strict (rec e) s')"

locale recursive =
  fixes need :: "Parser \<Rightarrow> nat"
    and F :: "('e \<Rightarrow> 'a parser) \<Rightarrow> 'e \<Rightarrow> 'a parser"
  assumes need_le: "reach s s' \<Longrightarrow> need s' \<le> need s"
    and need_less: "reach s s' \<Longrightarrow> ps_pos s < ps_pos s' \<Longrightarrow> need s' < need s"
    and F_mono: "(\<And>e. below (r e) (r' e)) \<Longrightarrow> below (F r e) (F r' e)"
    and F_strict: "wf s \<Longrightarrow> callable need r s \<Longrightarrow> strict (F r e) s"
begin

lemma knot_strict: "wf s \<Longrightarrow> need s < n \<Longrightarrow> strict (knot F n e) s"
proof (induction n arbitrary: e s)
  case 0
  then show ?case by simp
next
  case (Suc n)
  have "callable need (knot F n) s"
    unfolding callable_def using Suc by auto
  then show ?case using F_strict [OF Suc.prems(1)] by simp
qed

lemma knot_Suc: "below (knot F n e) (knot F (Suc n) e)"
proof (induction n arbitrary: e)
  case 0
  then show ?case by (simp add: below_outOfFuel)
next
  case (Suc n)
  then show ?case using F_mono by simp
qed

lemma below_trans: "below p q \<Longrightarrow> below q r \<Longrightarrow> below p r"
  unfolding below_def by metis

lemma knot_mono: "m \<le> n \<Longrightarrow> below (knot F m e) (knot F n e)"
proof (induction n)
  case (Suc n)
  then show ?case using below_trans [OF _ knot_Suc] by (cases "m = Suc n") (auto intro: below_refl)
qed (simp add: below_refl)

lemma strict_returns: "strict p s \<Longrightarrow> fst (p s) \<noteq> Inl OutOfFuel"
  by (auto simp: strict_def safe_def benign_def split: prod.splits sum.splits)

text \<open>Enough fuel gives a result, and more fuel the same.\<close>

theorem run_strict: "wf s \<Longrightarrow> strict (run need F e) s"
  using knot_strict [of s "Suc (need s)" e] by (simp add: run_def strict_def safe_def)

theorem run_fuel:
  assumes "wf s" and "need s < n"
  shows "knot F n e s = run need F e s"
proof -
  have "fst (knot F (Suc (need s)) e s) \<noteq> Inl OutOfFuel"
    using assms(1) by (intro strict_returns knot_strict) simp_all
  then have "knot F (Suc (need s)) e s = knot F n e s"
    using assms(2) by (intro belowD knot_mono) simp_all
  then show ?thesis by (simp only: run_def)
qed

text \<open>The recursion equations: the fuel has disappeared.\<close>

theorem run_unfold:
  assumes "wf s"
  shows "run need F e s = F (run need F) e s"
proof -
  define r where "r = (\<lambda>e s'. if wf s' \<and> need s' < need s then run need F e s' else raise OutOfFuel s')"
  have "callable need r s"
    unfolding callable_def
  proof (intro allI impI)
    fix e s' assume "wf s'" "need s' < need s"
    then show "strict (r e) s'" using run_strict [of s' e] by (simp add: r_def strict_def safe_def)
  qed
  then have ok: "fst (F r e s) \<noteq> Inl OutOfFuel"
    using assms by (intro strict_returns F_strict)
  have "below (r e) (run need F e)" for e
    by (auto simp: below_def r_def raise_def)
  then have "F r e s = F (run need F) e s"
    using ok by (intro belowD F_mono)
  moreover have "below (r e) (knot F (need s) e)" for e
    using run_fuel by (auto simp: below_def r_def raise_def)
  then have "F r e s = F (knot F (need s)) e s"
    using ok by (intro belowD F_mono)
  ultimately show ?thesis by (simp add: run_def)
qed

text \<open>The contract of a call from inside the family, and from a caller outside it.\<close>

lemma callable_reach: "callable need r s \<Longrightarrow> reach s s' \<Longrightarrow> callable need r s'"
  using need_le by (fastforce simp: callable_def)

lemma safe_rec:
  assumes "callable need r s" and "reach s s'" and "ps_pos s < ps_pos s'"
    and "\<And>x s''. reach s s'' \<Longrightarrow> ps_pos s' < ps_pos s'' \<Longrightarrow> Q x s''"
  shows "safe s (r e) s' Q"
proof -
  have "strict (r e) s'"
    using assms(1,2) need_less [OF assms(2,3)] reach_wf [OF assms(2)] by (simp add: callable_def)
  then show ?thesis
    unfolding strict_def by (rule safe_anchor [OF _ assms(2)]) (rule assms(4))
qed

lemma safe_run:
  assumes "reach s0 s" and "\<And>x s'. reach s0 s' \<Longrightarrow> ps_pos s < ps_pos s' \<Longrightarrow> Q x s'"
  shows "safe s0 (run need F e) s Q"
  using run_strict [OF reach_wf [OF assms(1)], of e] assms(2)
  unfolding strict_def by (elim safe_anchor [OF _ assms(1)]) auto

end

end
