(* ===== verification/Parser_Types.thy ===== *)
theory Parser_Types
  imports Parser_Fuel
begin

text \<open>
  Type annotations: \<^verbatim>\<open>parseTypeAnnotation\<close>, which builds the text of a type. The recursive calls are the
  parameter \<open>rec\<close>; the knot is tied at the end.
\<close>

definition remaining :: "Parser \<Rightarrow> nat" where
  "remaining s = length (ps_tokens s) - ps_pos s"

text \<open>\<^verbatim>\<open>T\<close>, then \<^verbatim>\<open>, T\<close> as long as there is a comma, appended with commas in between.\<close>

definition typeList :: "string parser \<Rightarrow> string \<Rightarrow> string parser" where
  "typeList item prefix = bnd item (\<lambda>t.
     loop (\<lambda>result. whenMatch COMMA
             (bnd item (\<lambda>t. ret (Some (result @ '','' @ t)))) (ret None)) (prefix @ t))"

text \<open>
  A function type is tried first: the parameter types, then the closing parenthesis and the arrow. The
  result is the text or nothing, when the tokens after the parameters are not those of a function type.
\<close>

definition functionType :: "(unit \<Rightarrow> string parser) \<Rightarrow> string option parser" where
  "functionType rec =
     andThen advance
      (bnd (whenCheck RPAREN (ret ''('') (typeList (rec ()) ''('')) (\<lambda>result.
        whenMatch RPAREN
          (whenMatch ARROW
             (bnd (rec ()) (\<lambda>t. ret (Some (result @ '')->'' @ t))))
             (ret None))
          (ret None)))"

definition baseType :: "(unit \<Rightarrow> string parser) \<Rightarrow> string parser" where
  "baseType rec =
     bnd (whenMatch NULL_LITERAL (ret ''null'') (name IDENTIFIER ''Expected type name'')) (\<lambda>result.
     bnd (whenMatch LBRACKET
            (bnd (typeList (rec ()) (result @ ''['')) (\<lambda>result.
              andThen (expect RBRACKET (''Expected '' @ [SQUOTE] @ '']'' @ [SQUOTE] @ '' in type annotation''))
                (ret (result @ '']''))))
            (ret result)) (\<lambda>result.
     bnd (whenMatch PIPE (bnd (rec ()) (\<lambda>t. ret (result @ ''|'' @ t))) (ret result)) (\<lambda>result.
     bnd (whenMatch QUESTION (ret (result @ ''|null'')) (ret result)) (\<lambda>result.
     whenMatch STAR (ret (result @ ''*'')) (ret result)))))"

text \<open>The rest after the attempt at a function type: a channel type or a base type.\<close>

definition plainType :: "(unit \<Rightarrow> string parser) \<Rightarrow> string parser" where
  "plainType rec =
     whenMatch KW_CHAN (bnd (rec ()) (\<lambda>inner. ret (''chan['' @ inner @ '']''))) (baseType rec)"

definition typeF :: "(unit \<Rightarrow> string parser) \<Rightarrow> unit \<Rightarrow> string parser" where
  "typeF rec u =
     whenMatch QUESTION
       (bnd (rec ()) (\<lambda>result. ret (result @ ''|null'')))
       (whenCheck LPAREN
          (bnd getPos (\<lambda>savedPos.
           bnd (functionType rec) (\<lambda>r. case r of
               Some result \<Rightarrow> ret result
             | None \<Rightarrow> andThen (setPos savedPos) (plainType rec))))
          (plainType rec))"

section \<open>The contract\<close>

lemma below_typeF: "(\<And>e. below (r e) (r' e)) \<Longrightarrow> below (typeF r u) (typeF r' u)"
  unfolding typeF_def functionType_def plainType_def baseType_def typeList_def
  by (intro below_intros below_refl; assumption)

lemma remaining_le: "reach s s' \<Longrightarrow> remaining s' \<le> remaining s"
  by (auto simp: reach_def remaining_def)

lemma remaining_less: "reach s s' \<Longrightarrow> ps_pos s < ps_pos s' \<Longrightarrow> remaining s' < remaining s"
  using reach_bound [of s s'] by (auto simp: reach_def remaining_def)

lemma strict_rec:
  assumes "callable need r s" and "reach s s'" and "need s' < need s"
    and "\<And>x s''. reach s s'' \<Longrightarrow> ps_pos s' < ps_pos s'' \<Longrightarrow> Q x s''"
  shows "safe s (r e) s' Q"
proof -
  have "strict (r e) s'" using assms(1,3) reach_wf [OF assms(2)] by (simp add: callable_def)
  then show ?thesis
    unfolding strict_def by (rule safe_anchor [OF _ assms(2)]) (rule assms(4))
qed

lemma safe_typeList:
  assumes "reach s0 s"
    and item: "\<And>s'. reach s0 s' \<Longrightarrow> ps_pos s \<le> ps_pos s' \<Longrightarrow> safe s0 item s' (\<lambda>_ s''. ps_pos s' < ps_pos s'')"
    and "\<And>x s'. reach s0 s' \<Longrightarrow> ps_pos s < ps_pos s' \<Longrightarrow> Q x s'"
  shows "safe s0 (typeList item prefix) s Q"
proof -
  have step: "safe s0 (whenMatch COMMA (bnd item (\<lambda>t. ret (Some (acc @ '','' @ t)))) (ret None)) s'
      (\<lambda>r s''. if r = None then ps_pos s' \<le> ps_pos s'' else ps_pos s' < ps_pos s'')"
    if "reach s0 s'" "ps_pos s \<le> ps_pos s'" for acc s'
    using that by (intro safe_whenMatch safe_bnd safe_weaken [OF item] safe_ret) auto
  have rest: "safe s0 (loop (\<lambda>acc. whenMatch COMMA (bnd item (\<lambda>t. ret (Some (acc @ '','' @ t)))) (ret None)) x) s' Q"
    if "reach s0 s'" "ps_pos s < ps_pos s'" for x s'
    using that by (intro safe_loop [OF that(1)] step assms(3)) simp_all
  show ?thesis
    unfolding typeList_def by (intro safe_bnd safe_weaken [OF item [OF assms(1)]] rest) simp_all
qed

lemma reach_back: "reach s s' \<Longrightarrow> s'\<lparr>ps_pos := ps_pos s\<rparr> = s"
  by (cases s; cases s') (auto simp: reach_def)

lemma strict_typeF:
  assumes "wf s" and "callable remaining r s"
  shows "strict (typeF r u) s"
proof -
  have s: "reach s s" using assms(1) by (rule reach_refl)
  have rec: "safe s (r ()) s' Q" if "reach s s'" "ps_pos s < ps_pos s'"
    "\<And>x s''. reach s s'' \<Longrightarrow> ps_pos s' < ps_pos s'' \<Longrightarrow> Q x s''" for s' Q
    using strict_rec [OF assms(2) that(1) remaining_less [OF that(1,2)]] that(3) by blast
  have fn: "safe s (functionType r) s (\<lambda>x s'. x \<noteq> None \<longrightarrow> ps_pos s < ps_pos s')"
    if "tk_type (tok s) \<noteq> END_OF_FILE"
    unfolding functionType_def using that s
    by (intro safe_andThen safe_advance safe_bnd safe_whenCheck safe_typeList rec safe_whenMatch safe_ret) auto
  have plain: "safe s (plainType r) s (\<lambda>_ s'. ps_pos s < ps_pos s')"
    unfolding plainType_def baseType_def
    by (intro safe_whenMatch safe_bnd safe_name safe_typeList rec safe_andThen safe_expect safe_ret s) auto
  have retry: "safe s (andThen (setPos (ps_pos s)) (plainType r)) s' (\<lambda>_ s''. ps_pos s < ps_pos s'')"
    if "reach s s'" for s'
    using that plain by (intro safe_andThen safe_setPos) (simp_all add: reach_back [OF that] reach_def)
  show ?thesis
    unfolding strict_def typeF_def
    by (intro safe_whenMatch safe_whenCheck safe_bnd safe_getPos rec safe_ret s plain
        safe_weaken [OF fn] safe_option retry) auto
qed

interpretation types: recursive remaining typeF
  by unfold_locales (simp_all add: remaining_le remaining_less below_typeF strict_typeF)

definition parseTypeAnnotation :: "string parser" where
  "parseTypeAnnotation = run remaining typeF ()"

lemma safe_parseTypeAnnotation:
  assumes "reach s0 s" and "\<And>x s'. reach s0 s' \<Longrightarrow> ps_pos s < ps_pos s' \<Longrightarrow> Q x s'"
  shows "safe s0 parseTypeAnnotation s Q"
  unfolding parseTypeAnnotation_def using assms by (rule types.safe_run)

lemma parseTypeAnnotation_unfold:
  "wf s \<Longrightarrow> parseTypeAnnotation s = typeF (\<lambda>_. parseTypeAnnotation) () s"
  using types.run_unfold [of s "()"] by (simp add: parseTypeAnnotation_def)

end
