(* ===== verification/Parser_Literals.thy ===== *)
theory Parser_Literals
  imports Parser_Fuel
begin

text \<open>
  Literals in \<^verbatim>\<open>parsePrimary\<close>: the conversions \<^verbatim>\<open>std::stoll\<close> and \<^verbatim>\<open>std::stod\<close> with the exceptions the parser
  catches, and the scan of the content of an f-string.
\<close>

section \<open>Number conversion\<close>

datatype conversion = InvalidArgument | OutOfRangeArgument

text \<open>
  \<^verbatim>\<open>std::stoll\<close> in base 10: white space, an optional sign, and the longest prefix of digits, at least
  one; the value has to fit into 64 bits.
\<close>

definition splitSign :: "string \<Rightarrow> bool \<times> string" where
  "splitSign s =
    (case s of
       [] \<Rightarrow> (False, [])
     | c # r \<Rightarrow> if c = CHR ''-'' then (True, r) else if c = CHR ''+'' then (False, r) else (False, c # r))"

definition stoll :: "string \<Rightarrow> conversion + int64" where
  "stoll s =
    (case splitSign (dropWhile isspace s) of (neg, r) \<Rightarrow>
       let digits = takeWhile isdigit r;
           v = (if neg then - int (decimalValue digits) else int (decimalValue digits))
       in if digits = [] then Inl InvalidArgument
          else if v < LLONG_MIN \<or> LLONG_MAX < v then Inl OutOfRangeArgument
          else Inr (word_of_int v))"

text \<open>
  \<^verbatim>\<open>std::stod\<close> on the lexeme of a FLOAT_LITERAL, which begins with a digit and continues with an
  optional fraction and an optional exponent: the exact decimal value. White space, signs,
  hexadecimals and names, which \<^verbatim>\<open>strtod\<close> also reads, do not begin such a lexeme. Its range error is
  an overflow, or (as in glibc) a result that is tiny after rounding and not exact.
\<close>

definition exponentPart :: "string \<Rightarrow> int" where
  "exponentPart s =
    (case s of
       [] \<Rightarrow> 0
     | c # r \<Rightarrow>
         if c = CHR ''e'' \<or> c = CHR ''E'' then
           (case splitSign r of (neg, r) \<Rightarrow>
              let v = int (decimalValue (takeWhile isdigit r)) in if neg then - v else v)
         else 0)"

definition decimalPrefix :: "string \<Rightarrow> decimal option" where
  "decimalPrefix s =
    (let ip = takeWhile isdigit s; r = dropWhile isdigit s;
         fp = (case r of c # r' \<Rightarrow> if c = CHR ''.'' then takeWhile isdigit r' else [] | [] \<Rightarrow> []);
         r = (case r of c # r' \<Rightarrow> if c = CHR ''.'' then dropWhile isdigit r' else r | [] \<Rightarrow> [])
     in if ip = [] \<and> fp = [] then None
        else Some (Decimal (decimalValue (ip @ fp)) (exponentPart r - int (length fp))))"

definition overflows :: "decimal \<Rightarrow> bool" where
  "overflows d =
    (let limit = 2 ^ 1024 - 2 ^ 970 :: nat; k = nat \<bar>exponent d\<bar>
     in if 0 \<le> exponent d then limit \<le> mantissa d * 10 ^ k else limit * 10 ^ k \<le> mantissa d)"

definition underflows :: "decimal \<Rightarrow> bool" where
  "underflows d =
    (let k = nat \<bar>exponent d\<bar>
     in exponent d < 0 \<and> mantissa d * 2 ^ 1076 < 10 ^ k * (2 ^ 54 - 1) \<and>
        \<not> (10 ^ k :: nat) dvd mantissa d * 2 ^ 1074)"

definition stod :: "string \<Rightarrow> conversion + decimal" where
  "stod s =
    (case decimalPrefix s of
       None \<Rightarrow> Inl InvalidArgument
     | Some d \<Rightarrow> if overflows d \<or> underflows d then Inl OutOfRangeArgument else Inr d)"

text \<open>The two handlers of each conversion.\<close>

definition orFail :: "string \<Rightarrow> string \<Rightarrow> int \<Rightarrow> int \<Rightarrow> conversion + 'a \<Rightarrow> 'a parser" where
  "orFail tooLarge invalid ln col r s =
    (case r of
       Inr v \<Rightarrow> (Inr v, s)
     | Inl OutOfRangeArgument \<Rightarrow> (Inl (ParseError (mkParseError tooLarge (ps_filename s) ln col)), s)
     | Inl InvalidArgument \<Rightarrow> (Inl (ParseError (mkParseError invalid (ps_filename s) ln col)), s))"

lemma safe_orFail:
  "reach s0 s \<Longrightarrow> (\<And>v. Q v s) \<Longrightarrow> safe s0 (orFail a b ln col r) s Q"
  by (auto simp: orFail_def safe_def benign_def split: sum.splits conversion.splits)

lemma takeWhile_digits:
  assumes "list_all isdigit a"
  shows "takeWhile isdigit a = a" and "dropWhile isdigit a = []"
  using assms by (auto simp: list_all_iff)

text \<open>
  An integer literal within the range of \<^verbatim>\<open>long long\<close> has its value; a larger one is rejected, not
  wrapped.
\<close>

theorem stoll_digits:
  assumes "ds \<noteq> []" and "list_all isdigit ds"
  shows "stoll ds =
    (if int (decimalValue ds) \<le> LLONG_MAX then Inr (word_of_int (int (decimalValue ds))) else Inl OutOfRangeArgument)"
proof -
  obtain c r where c: "ds = c # r" "isdigit c" using assms by (cases ds) auto
  have "\<not> isspace c" "c \<noteq> CHR ''-''" "c \<noteq> CHR ''+''" using c(2) by (auto simp: char_class_defs)
  moreover have "splitSign ds = (False, ds)" using calculation c(1) by (simp add: splitSign_def)
  moreover have "dropWhile isspace ds = ds" using calculation(1) c(1) by simp
  ultimately show ?thesis
    using assms(1) by (simp add: stoll_def Let_def takeWhile_digits [OF assms(2)])
qed

lemma stoll_digits_witness:
  "stoll ''9223372036854775808'' = Inl OutOfRangeArgument \<and> stoll ''42'' = Inr 42"
  using stoll_digits [of "''9223372036854775808''"] stoll_digits [of "''42''"]
  by (simp add: decimalValue_def char_class_defs)

lemma takeWhile_digits_append:
  "list_all isdigit a \<Longrightarrow> \<not> isdigit c \<Longrightarrow> takeWhile isdigit (a @ c # b) = a \<and> dropWhile isdigit (a @ c # b) = c # b"
  by (auto simp: list_all_iff takeWhile_append2 dropWhile_append2)

lemma decimalPrefix_fraction:
  assumes "a \<noteq> []" and "list_all isdigit a" and "list_all isdigit b"
  shows "decimalPrefix (a @ CHR ''.'' # b) = Some (Decimal (decimalValue (a @ b)) (- int (length b)))"
proof -
  have "\<not> isdigit (CHR ''.'')" by (simp add: char_class_defs)
  then show ?thesis
    using assms(1) takeWhile_digits_append [OF assms(2), of "CHR ''.''" b]
    by (simp add: decimalPrefix_def Let_def exponentPart_def takeWhile_digits [OF assms(3)])
qed

section \<open>F-strings\<close>

text \<open>
  The scan of the content between the quotes: what has been collected of the current literal and the
  parts so far. The text between braces is handed to \<open>sub\<close>, which lexes and parses it.
\<close>

definition fstringEscape :: "char \<Rightarrow> string" where
  "fstringEscape c =
    (if c = CHR ''n'' then [LF]
     else if c = CHR ''t'' then [TAB]
     else if c = BACKSLASH then [BACKSLASH]
     else if c = SQUOTE then [SQUOTE]
     else if c = DQUOTE then [DQUOTE]
     else if c = LCURLY then [LCURLY]
     else if c = RCURLY then [RCURLY]
     else [BACKSLASH, c])"

definition flushLiteral :: "string \<Rightarrow> FStringPart list \<Rightarrow> FStringPart list" where
  "flushLiteral lit parts = (if lit \<noteq> [] then parts @ [LitPart lit] else parts)"

function fstringParts :: "(string \<Rightarrow> Expr parser) \<Rightarrow> string \<Rightarrow> FStringPart list \<Rightarrow> string \<Rightarrow> FStringPart list parser" where
  "fstringParts sub lit parts [] = ret (flushLiteral lit parts)"
| "fstringParts sub lit parts (c # cs) =
    (if c = BACKSLASH \<and> cs \<noteq> [] then fstringParts sub (lit @ fstringEscape (hd cs)) parts (tl cs)
     else if c = LCURLY then
       (let exprText = takeWhile (\<lambda>c. c \<noteq> RCURLY) cs; rest = tl (dropWhile (\<lambda>c. c \<noteq> RCURLY) cs)
        in bnd (sub exprText) (\<lambda>e.
             fstringParts sub [] (flushLiteral lit parts @ [ExprPart e]) rest))
     else fstringParts sub (lit @ [c]) parts cs)"
  by pat_completeness auto
termination
  by (relation "measure (\<lambda>(sub, lit, parts, s). length s)")
    (auto simp: less_Suc_eq_le intro: order.trans [OF diff_le_self length_dropWhile_le])

declare fstringParts.simps(2) [simp del]

text \<open>
  The content: \<^verbatim>\<open>raw.substr(2, raw.size() - 3)\<close>, which throws when there is no second character.
\<close>

definition fstringContent :: "string \<Rightarrow> string parser" where
  "fstringContent raw =
    (if length raw < 2 then raise (Undefined OutOfRange) else ret (take (length raw - 3) (drop 2 raw)))"

text \<open>A new lexer and a new parser on the text of the expression; the state of the outer parser stays.\<close>

definition subParse :: "Expr parser \<Rightarrow> string \<Rightarrow> Expr parser" where
  "subParse p exprText s =
    (case lexSource exprText (ps_filename s) of
       Thrown e \<Rightarrow> (Inl (LexErr e), s)
     | AssertionFailed \<Rightarrow> (Inl (Undefined AssertFailed), s)
     | Tokens ts \<Rightarrow> (fst (p \<lparr>ps_tokens = ts, ps_filename = ps_filename s, ps_pos = 0\<rparr>), s))"

lemma below_subParse: "below p q \<Longrightarrow> below (subParse p t) (subParse q t)"
  by (auto simp: below_def subParse_def split: tokenized.splits)

lemma below_fstringParts:
  "(\<And>t. below (f t) (g t)) \<Longrightarrow> below (fstringParts f lit parts s) (fstringParts g lit parts s)"
proof (induction f lit parts s rule: fstringParts.induct)
  case (1 sub lit parts)
  then show ?case by (simp add: below_refl)
next
  case (2 sub lit parts c cs)
  show ?case
    unfolding fstringParts.simps(2) Let_def
    by (intro below_if below_bnd 2(4); (rule 2(1) | rule 2(2) [OF _ _ refl refl] | rule 2(3)); (assumption | rule 2(4)))
qed

text \<open>A part of the content that is handed to \<open>sub\<close> is shorter than the content.\<close>

lemma safe_fstringParts:
  assumes "\<And>t. length t < n \<Longrightarrow> safe s0 (sub t) s (\<lambda>_ s'. s' = s)" and "reach s0 s"
  shows "length content \<le> n \<Longrightarrow> safe s0 (fstringParts sub lit parts content) s (\<lambda>_ s'. s' = s)"
proof (induction content arbitrary: lit parts rule: length_induct)
  case (1 content)
  show ?case
  proof (cases content)
    case Nil
    then show ?thesis using assms(2) by (auto intro: safe_ret)
  next
    case (Cons c cs)
    let ?t = "takeWhile (\<lambda>c. c \<noteq> RCURLY) cs" and ?r = "tl (dropWhile (\<lambda>c. c \<noteq> RCURLY) cs)"
    have t: "length ?t < n" using 1(2) Cons length_takeWhile_le [of "\<lambda>c. c \<noteq> RCURLY" cs] by simp
    have r: "length ?r < length content" "length (tl cs) < length content" "length cs < length content"
      using Cons length_dropWhile_le [of "\<lambda>c. c \<noteq> RCURLY" cs] by auto
    have IH: "safe s0 (fstringParts sub lit parts x) s (\<lambda>_ s'. s' = s)" if "length x < length content" for lit parts x
      using 1 that by auto
    have "safe s0 (bnd (sub ?t) (\<lambda>e. fstringParts sub [] (flushLiteral lit parts @ [ExprPart e]) ?r)) s (\<lambda>_ s'. s' = s)"
      by (rule safe_bnd, rule safe_weaken [OF assms(1) [OF t]]) (auto intro: IH r)
    then show ?thesis
      unfolding Cons fstringParts.simps(2) Let_def by (intro safe_if IH) (use r Cons in auto)
  qed
qed

end
