(* ===== verification/Parser_Expr.thy ===== *)
theory Parser_Expr
  imports Parser_Types Parser_Literals
begin

text \<open>
  Expressions: one definition per routine of the precedence chain, from \<^verbatim>\<open>parseExpression\<close> down to
  \<^verbatim>\<open>parsePrimary\<close>. The chain is not recursive; the calls that go back up are the parameter \<open>rec\<close>, one
  entry per routine that is called so.
\<close>

datatype entry = EExpression | EOr | EUnary | ENot

type_synonym exprRec = "entry \<Rightarrow> Expr parser"

section \<open>Primary expressions\<close>

definition quoted :: "string \<Rightarrow> string" where
  "quoted s = [SQUOTE] @ s @ [SQUOTE]"

definition parseIntLiteral :: "int \<Rightarrow> int \<Rightarrow> Expr parser" where
  "parseIntLiteral ln col =
     bnd previous (\<lambda>p.
     bnd (orFail ''Integer literal is too large'' ''Invalid integer literal'' ln col (stoll (tk_lexeme p))) (\<lambda>v.
     finish ln col (\<lambda>n. IntLiteral n v)))"

definition parseFloatLiteral :: "int \<Rightarrow> int \<Rightarrow> Expr parser" where
  "parseFloatLiteral ln col =
     bnd previous (\<lambda>p.
     bnd (orFail ''Float literal is too large'' ''Invalid float literal'' ln col (stod (tk_lexeme p))) (\<lambda>v.
     finish ln col (\<lambda>n. FloatLiteral n v)))"

definition parseFString :: "exprRec \<Rightarrow> int \<Rightarrow> int \<Rightarrow> Expr parser" where
  "parseFString rec ln col =
     bnd previous (\<lambda>p.
     bnd (fstringContent (tk_lexeme p)) (\<lambda>content.
     bnd (fstringParts (subParse (rec EExpression)) [] [] content) (\<lambda>parts.
     finish ln col (\<lambda>n. FStringExpr n parts))))"

text \<open>After an opening parenthesis: the empty tuple, a tuple, or a parenthesised expression.\<close>

definition parseParen :: "exprRec \<Rightarrow> int \<Rightarrow> int \<Rightarrow> Expr parser" where
  "parseParen rec ln col =
     whenMatch RPAREN
       (finish ln col (\<lambda>n. TupleExpr n []))
       (bnd (rec EExpression) (\<lambda>first.
          whenMatch COMMA
            (bnd (whenCheck RPAREN (ret []) (commaList (rec EExpression))) (\<lambda>more.
               andThen (expect RPAREN (''Expected '' @ quoted '')'' @ '' to close tuple''))
                 (finish ln col (\<lambda>n. TupleExpr n (first # more)))))
            (andThen (expect RPAREN (''Expected '' @ quoted '')'')) (ret first))))"

text \<open>\<^verbatim>\<open>for var in iterable if condition\<close>, after the \<^verbatim>\<open>for\<close> has been seen, up to the closing token.\<close>

definition parseComprehension ::
    "exprRec \<Rightarrow> TokenType \<Rightarrow> string \<Rightarrow> (string \<Rightarrow> Expr \<Rightarrow> Expr option \<Rightarrow> Expr parser) \<Rightarrow> Expr parser" where
  "parseComprehension rec close msg k =
     andThen advance
       (bnd (name IDENTIFIER ''Expected loop variable in comprehension'') (\<lambda>var.
        andThen (expect KW_IN (''Expected '' @ quoted ''in'' @ '' in comprehension''))
       (bnd (rec EOr) (\<lambda>iterable.
        bnd (whenMatch KW_IF (bnd (rec EOr) (\<lambda>c. ret (Some c))) (ret None)) (\<lambda>condition.
        andThen (expect close msg) (k var iterable condition))))))"

text \<open>\<^verbatim>\<open>while (match(COMMA)) { if (check(close)) break; item }\<close>: a list that allows a trailing comma.\<close>

definition trailingList :: "TokenType \<Rightarrow> 'a parser \<Rightarrow> 'a list \<Rightarrow> 'a list parser" where
  "trailingList close item =
     loop (\<lambda>xs. whenMatch COMMA
       (whenCheck close (ret None) (bnd item (\<lambda>x. ret (Some (xs @ [x])))))
       (ret None))"

definition parseList :: "exprRec \<Rightarrow> int \<Rightarrow> int \<Rightarrow> Expr parser" where
  "parseList rec ln col =
     whenCheck RBRACKET
       (andThen advance (finish ln col (\<lambda>n. ListExpr n [])))
       (bnd (rec EExpression) (\<lambda>first.
          whenCheck KW_FOR
            (parseComprehension rec RBRACKET (''Expected '' @ quoted '']'' @ '' after list comprehension'')
               (\<lambda>var iterable condition.
                  finish ln col (\<lambda>n. ListComprehension n first var iterable condition)))
            (bnd (trailingList RBRACKET (rec EExpression) [first]) (\<lambda>elements.
               andThen (expect RBRACKET (''Expected '' @ quoted '']''))
                 (finish ln col (\<lambda>n. ListExpr n elements))))))"

definition parseEntry :: "exprRec \<Rightarrow> (Expr \<times> Expr) parser" where
  "parseEntry rec =
     bnd (rec EExpression) (\<lambda>key.
     andThen (expect COLON (''Expected '' @ quoted '':'' @ '' in dict entry''))
     (bnd (rec EExpression) (\<lambda>val. ret (key, val))))"

definition parseDict :: "exprRec \<Rightarrow> int \<Rightarrow> int \<Rightarrow> Expr parser" where
  "parseDict rec ln col =
     whenCheck RBRACE
       (andThen advance (finish ln col (\<lambda>n. DictExpr n [])))
       (bnd (parseEntry rec) (\<lambda>first. case first of (firstKey, firstVal) \<Rightarrow>
          whenCheck KW_FOR
            (parseComprehension rec RBRACE (''Expected '' @ quoted [RCURLY] @ '' after dict comprehension'')
               (\<lambda>var iterable condition.
                  finish ln col (\<lambda>n. DictComprehension n firstKey firstVal var iterable condition)))
            (bnd (trailingList RBRACE (parseEntry rec) [(firstKey, firstVal)]) (\<lambda>entries.
               andThen (expect RBRACE (''Expected '' @ quoted [RCURLY]))
                 (finish ln col (\<lambda>n. DictExpr n entries))))))"

definition parsePrimary :: "exprRec \<Rightarrow> Expr parser" where
  "parsePrimary rec =
     here (\<lambda>ln col.
       whenMatch INT_LITERAL (parseIntLiteral ln col)
      (whenMatch FLOAT_LITERAL (parseFloatLiteral ln col)
      (whenMatch STRING_LITERAL
         (bnd previous (\<lambda>p. finish ln col (\<lambda>n. StringLiteral n (tk_lexeme p))))
      (whenMatch FSTRING_LITERAL (parseFString rec ln col)
      (whenMatch BOOL_LITERAL
         (bnd previous (\<lambda>p. finish ln col (\<lambda>n. BoolLiteral n (tk_lexeme p = ''true''))))
      (whenMatch NULL_LITERAL (finish ln col (\<lambda>n. NullLiteral n))
      (whenMatch STAR
         (bnd (rec EUnary) (\<lambda>operand. finish ln col (\<lambda>n. SpreadExpr n operand)))
      (whenMatch DOUBLE_STAR
         (bnd (rec EUnary) (\<lambda>operand. finish ln col (\<lambda>n. DictSpreadExpr n operand)))
      (whenMatch KW_THIS (finish ln col (\<lambda>n. ThisExpr n))
      (whenMatch KW_SUPER (finish ln col (\<lambda>n. SuperExpr n))
      (whenMatch IDENTIFIER
         (bnd previous (\<lambda>p. finish ln col (\<lambda>n. Identifier n (tk_lexeme p))))
      (whenMatch LPAREN (parseParen rec ln col)
      (whenMatch LBRACKET (parseList rec ln col)
      (whenMatch LBRACE (parseDict rec ln col)
      (bnd current (\<lambda>c. error (''Expected expression, got '' @ quoted (tk_lexeme c))))))))))))))))))"

section \<open>Postfix expressions\<close>

text \<open>The arguments of a call, after its opening parenthesis.\<close>

definition parseArgs :: "exprRec \<Rightarrow> Expr list parser" where
  "parseArgs rec =
     bnd (whenCheck RPAREN (ret []) (commaList (rec EExpression))) (\<lambda>args.
     andThen (expect RPAREN (''Expected '' @ quoted '')'' @ '' after arguments'')) (ret args))"

text \<open>
  The attempt at generic type arguments: the identifiers between the angle brackets, if what follows
  is an argument list, and nothing otherwise; the caller then goes back.
\<close>

definition typeArgsStep :: "bool \<times> string list \<Rightarrow> (bool \<times> string list) option parser" where
  "typeArgsStep acc =
    (case acc of (isGenericCall, typeArgs) \<Rightarrow>
       if \<not> isGenericCall then ret None
       else whenMatch COMMA
              (whenCheck IDENTIFIER
                 (bnd advance (\<lambda>t. ret (Some (True, typeArgs @ [tk_lexeme t]))))
                 (ret (Some (False, typeArgs))))
              (ret None))"

definition parseTypeArgs :: "string list option parser" where
  "parseTypeArgs =
     andThen advance
       (whenCheck IDENTIFIER
          (bnd advance (\<lambda>t.
           bnd (loop typeArgsStep (True, [tk_lexeme t])) (\<lambda>(isGenericCall, typeArgs).
             if isGenericCall then
               whenMatch GT
                 (whenCheck LPAREN (andThen advance (ret (Some typeArgs))) (ret None))
                 (ret None)
             else ret None)))
          (ret None))"

text \<open>An index or a slice, after its opening bracket.\<close>

definition optExpr :: "exprRec \<Rightarrow> Expr option parser" where
  "optExpr rec = bnd (rec EExpression) (\<lambda>e. ret (Some e))"

definition parseSlice :: "exprRec \<Rightarrow> int \<Rightarrow> int \<Rightarrow> Expr \<Rightarrow> Expr option \<Rightarrow> Expr parser" where
  "parseSlice rec sliceLn sliceCol expr startExpr =
     andThen advance
      (bnd (whenCheck COLON (ret None) (whenCheck RBRACKET (ret None) (optExpr rec))) (\<lambda>stopExpr.
       bnd (whenMatch COLON (whenCheck RBRACKET (ret None) (optExpr rec)) (ret None)) (\<lambda>stepExpr.
       andThen (expect RBRACKET (''Expected '' @ quoted '']'' @ '' after slice''))
         (ret (SliceExpr (node0\<lparr>n_line := sliceLn, n_column := sliceCol\<rparr>) expr startExpr stopExpr stepExpr)))))"

definition parseIndex :: "exprRec \<Rightarrow> Expr \<Rightarrow> Expr parser" where
  "parseIndex rec expr =
     bnd previous (\<lambda>p.
     bnd (whenCheck COLON (ret None) (whenCheck RBRACKET (ret None) (optExpr rec))) (\<lambda>startExpr.
     whenCheck COLON
       (parseSlice rec (tk_line p) (tk_column p) expr startExpr)
       (case startExpr of
          None \<Rightarrow> error ''Expected expression in index''
        | Some e \<Rightarrow>
            andThen (expect RBRACKET (''Expected '' @ quoted '']'' @ '' after index''))
              (ret (IndexExpr node0 expr e)))))"

definition postfixStep :: "exprRec \<Rightarrow> Expr \<Rightarrow> Expr option parser" where
  "postfixStep rec expr =
     whenMatch LPAREN
       (bnd (parseArgs rec) (\<lambda>args. ret (Some (CallExpr node0 expr args []))))
    (whenMatch DOT
       (bnd (whenMatch KW_INIT (ret ''init'') (name IDENTIFIER ''Expected member name'')) (\<lambda>member.
          ret (Some (MemberExpr node0 expr member))))
    (whenCheck LT
       (bnd getPos (\<lambda>saved.
        bnd parseTypeArgs (\<lambda>r. case r of
            Some typeArgs \<Rightarrow>
              bnd (parseArgs rec) (\<lambda>args. ret (Some (CallExpr node0 expr args typeArgs)))
          | None \<Rightarrow> andThen (setPos saved) (ret None))))
    (whenMatch LBRACKET
       (bnd (parseIndex rec expr) (\<lambda>e. ret (Some e)))
       (ret None))))"

definition parsePostfix :: "exprRec \<Rightarrow> Expr parser" where
  "parsePostfix rec = bnd (parsePrimary rec) (loop (postfixStep rec))"

section \<open>Operators\<close>

definition parsePower :: "exprRec \<Rightarrow> Expr parser" where
  "parsePower rec =
     bnd (parsePostfix rec) (\<lambda>base.
       whenMatch DOUBLE_STAR
         (bnd (rec EUnary) (\<lambda>exp. ret (BinaryExpr node0 Pow base exp)))
         (ret base))"

definition parseUnary :: "exprRec \<Rightarrow> Expr parser" where
  "parseUnary rec =
     whenMatch MINUS (bnd (rec EUnary) (\<lambda>operand. ret (UnaryExpr node0 Neg operand)))
    (whenMatch TILDE (bnd (rec EUnary) (\<lambda>operand. ret (UnaryExpr node0 BitNot operand)))
    (whenMatch KW_SEND (bnd (rec EUnary) (\<lambda>chan. ret (ChanRecvExpr node0 chan)))
    (parsePower rec)))"

text \<open>
  A left-associative level: \<^verbatim>\<open>match\<close> the operators of the level in order, and combine. The node is built
  by \<open>mk\<close>, since the levels differ in the range they give it.
\<close>

primrec matchOp :: "(TokenType \<times> BinOp) list \<Rightarrow> BinOp option parser" where
  "matchOp [] = ret None"
| "matchOp (x # ops) = whenMatch (fst x) (ret (Some (snd x))) (matchOp ops)"

definition leftAssoc ::
    "(TokenType \<times> BinOp) list \<Rightarrow> (BinOp \<Rightarrow> Expr \<Rightarrow> Expr \<Rightarrow> Expr parser) \<Rightarrow> Expr parser \<Rightarrow> Expr parser" where
  "leftAssoc ops mk operand =
     bnd operand (loop (\<lambda>left.
       bnd (matchOp ops) (\<lambda>op. case op of
           None \<Rightarrow> ret None
         | Some op \<Rightarrow> bnd operand (\<lambda>right. bnd (mk op left right) (\<lambda>e. ret (Some e))))))"

definition binary :: "BinOp \<Rightarrow> Expr \<Rightarrow> Expr \<Rightarrow> Expr parser" where
  "binary op left right = ret (BinaryExpr node0 op left right)"

definition parseMulDiv :: "exprRec \<Rightarrow> Expr parser" where
  "parseMulDiv rec =
     leftAssoc [(STAR, Mul), (SLASH, Div), (DOUBLE_SLASH, IntDiv), (PERCENT, Mod)] binary (parseUnary rec)"

definition parseAddSub :: "exprRec \<Rightarrow> Expr parser" where
  "parseAddSub rec = leftAssoc [(PLUS, Add), (MINUS, Sub)] binary (parseMulDiv rec)"

subsection \<open>Chained comparisons\<close>

definition compOps :: "(TokenType \<times> BinOp) list" where
  "compOps = [(EQ, Eq), (NEQ, Neq), (LT, Lt), (GT, Gt), (LTE, Lte), (GTE, Gte), (KW_IN, In)]"

definition nextIs :: "TokenType \<Rightarrow> bool parser" where
  "nextIs type s =
     (Inr (ps_pos s + 1 < length (ps_tokens s) \<and> tk_type (ps_tokens s ! (ps_pos s + 1)) = type), s)"

definition tryMatchCompOp :: "BinOp option parser" where
  "tryMatchCompOp =
     bnd (matchOp compOps) (\<lambda>op. case op of
         Some op \<Rightarrow> ret (Some op)
       | None \<Rightarrow>
           whenCheck KW_NOT
             (bnd (nextIs KW_IN) (\<lambda>b.
                if b then andThen advance (andThen advance (ret (Some NotIn))) else ret None))
             (ret None))"

text \<open>
  The chain of the comparisons \<open>op i\<close> between neighbouring operands, joined by \<^verbatim>\<open>AND\<close> from the left. Each
  operand but the first and the last occurs twice; the left comparison gets a copy.
\<close>

fun chainFrom :: "Expr \<Rightarrow> Expr list \<Rightarrow> BinOp list \<Rightarrow> Expr" where
  "chainFrom result (a # b # es) (op # ops) =
     chainFrom
       (BinaryExpr node0 And result
          (BinaryExpr node0 op a (if ops = [] then b else cloneExpr b)))
       (b # es) ops"
| "chainFrom result _ _ = result"

definition compareChain :: "Expr list \<Rightarrow> BinOp list \<Rightarrow> Expr" where
  "compareChain operands ops =
    (if ops = [] then operands ! 0
     else if length ops = 1 then BinaryExpr node0 (ops ! 0) (operands ! 0) (operands ! 1)
     else chainFrom (BinaryExpr node0 (ops ! 0) (operands ! 0) (cloneExpr (operands ! 1)))
            (tl operands) (tl ops))"

definition parseComparison :: "exprRec \<Rightarrow> Expr parser" where
  "parseComparison rec =
     bnd (parseAddSub rec) (\<lambda>first.
     bnd (loop (\<lambda>(operands, ops).
            bnd tryMatchCompOp (\<lambda>op. case op of
                None \<Rightarrow> ret None
              | Some op \<Rightarrow> bnd (parseAddSub rec) (\<lambda>e. ret (Some (operands @ [e], ops @ [op])))))
          ([first], [])) (\<lambda>(operands, ops).
     ret (compareChain operands ops)))"

definition parseShift :: "exprRec \<Rightarrow> Expr parser" where
  "parseShift rec = leftAssoc [(LSHIFT, Shl), (RSHIFT, Shr)] binary (parseComparison rec)"

definition parseBitAnd :: "exprRec \<Rightarrow> Expr parser" where
  "parseBitAnd rec = leftAssoc [(AMP, BitAnd)] binary (parseShift rec)"

definition parseBitXor :: "exprRec \<Rightarrow> Expr parser" where
  "parseBitXor rec = leftAssoc [(CARET, BitXor)] binary (parseBitAnd rec)"

definition parseBitOr :: "exprRec \<Rightarrow> Expr parser" where
  "parseBitOr rec = leftAssoc [(PIPE, BitOr)] binary (parseBitXor rec)"

definition parseNot :: "exprRec \<Rightarrow> Expr parser" where
  "parseNot rec =
     whenMatch KW_NOT (bnd (rec ENot) (\<lambda>operand. ret (UnaryExpr node0 Not operand))) (parseBitOr rec)"

definition parseAnd :: "exprRec \<Rightarrow> Expr parser" where
  "parseAnd rec = leftAssoc [(KW_AND, And)] binary (parseNot rec)"

definition parseOr :: "exprRec \<Rightarrow> Expr parser" where
  "parseOr rec = leftAssoc [(KW_OR, Or)] binary (parseAnd rec)"

definition parseNullCoalesce :: "exprRec \<Rightarrow> Expr parser" where
  "parseNullCoalesce rec =
     leftAssoc [(DOUBLE_QUESTION, NullCoalesce)]
       (\<lambda>op left right.
          finish (n_line (exprNode left)) (n_column (exprNode left)) (\<lambda>n. BinaryExpr n op left right))
       (parseOr rec)"

text \<open>
  The ternary reads \<^verbatim>\<open>cond->line\<close> and \<^verbatim>\<open>cond->column\<close> after \<^verbatim>\<open>cond\<close> has been moved into the node: the
  pointer is null by then.
\<close>

definition derefMoved :: "(int \<times> int) parser" where
  "derefMoved = raise (Undefined NullDeref)"

definition parseTernary :: "exprRec \<Rightarrow> Expr parser" where
  "parseTernary rec =
     bnd (parseNullCoalesce rec) (\<lambda>expr.
       whenMatch KW_IF
         (bnd (parseNullCoalesce rec) (\<lambda>cond.
          andThen (expect KW_ELSE (''Expected '' @ quoted ''else'' @ '' in ternary expression''))
         (bnd (parseNullCoalesce rec) (\<lambda>alt.
          bnd derefMoved (\<lambda>(ln, col).
            ret (TernaryExpr (node0\<lparr>n_line := ln, n_column := col\<rparr>) cond expr alt))))))
         (ret expr))"

definition parseExpressionF :: "exprRec \<Rightarrow> Expr parser" where
  "parseExpressionF rec =
     whenCheck IDENTIFIER
       (bnd getPos (\<lambda>saved.
        bnd advance (\<lambda>t.
          whenMatch ARROW
            (bnd (rec EExpression) (\<lambda>body. ret (LambdaExpr node0 [tk_lexeme t] body [])))
         (whenMatch WALRUS
            (bnd (rec EExpression) (\<lambda>val.
               finish (n_line (exprNode val)) (n_column (exprNode val))
                 (\<lambda>n. WalrusExpr n (tk_lexeme t) val)))
         (andThen (setPos saved) (parseTernary rec))))))
       (parseTernary rec)"

text \<open>The routines that are called from below, by entry.\<close>

definition exprF :: "exprRec \<Rightarrow> exprRec" where
  "exprF rec e =
    (case e of
       EExpression \<Rightarrow> parseExpressionF rec
     | EOr \<Rightarrow> parseOr rec
     | EUnary \<Rightarrow> parseUnary rec
     | ENot \<Rightarrow> parseNot rec)"

section \<open>Monotonicity\<close>

lemma below_leftAssoc:
  assumes "below p q" shows "below (leftAssoc ops mk p) (leftAssoc ops mk q)"
  unfolding leftAssoc_def using assms by (intro below_intros below_refl)

lemma below_primary:
  assumes "\<And>e. below (r e) (r' e)" shows "below (parsePrimary r) (parsePrimary r')"
  unfolding parsePrimary_def parseFString_def parseParen_def parseList_def parseDict_def
    parseEntry_def parseComprehension_def trailingList_def
  by (intro below_intros below_refl below_fstringParts below_subParse assms)

lemma below_unary:
  assumes "\<And>e. below (r e) (r' e)" shows "below (parseUnary r) (parseUnary r')"
  unfolding parseUnary_def parsePower_def parsePostfix_def postfixStep_def parseIndex_def parseSlice_def
    parseArgs_def optExpr_def
  by (intro below_intros below_refl below_primary assms)

lemma below_comparison:
  assumes "\<And>e. below (r e) (r' e)" shows "below (parseComparison r) (parseComparison r')"
  unfolding parseComparison_def parseAddSub_def parseMulDiv_def
  by (intro below_intros below_refl below_leftAssoc below_unary assms)

lemma below_not:
  assumes "\<And>e. below (r e) (r' e)" shows "below (parseNot r) (parseNot r')"
  unfolding parseNot_def parseBitOr_def parseBitXor_def parseBitAnd_def parseShift_def
  by (intro below_intros below_refl below_leftAssoc below_comparison assms)

lemma below_or:
  assumes "\<And>e. below (r e) (r' e)" shows "below (parseOr r) (parseOr r')"
  unfolding parseOr_def parseAnd_def by (intro below_leftAssoc below_not assms)

lemma below_exprF:
  assumes "\<And>e. below (r e) (r' e)" shows "below (exprF r e) (exprF r' e)"
proof (cases e)
  case EExpression
  have "below (parseTernary r) (parseTernary r')"
    unfolding parseTernary_def parseNullCoalesce_def
    by (intro below_intros below_refl below_leftAssoc below_or assms)
  then show ?thesis
    unfolding EExpression exprF_def entry.case parseExpressionF_def
    by (intro below_intros below_refl assms)
qed (simp_all add: exprF_def below_or below_unary below_not assms)

section \<open>The contract\<close>

text \<open>
  The size of an input: the tokens left, and a bound on the nesting of f-strings inside the tokens. The
  expressions in an f-string are lexed from a text shorter than the longest f-string, which gives at
  most twice as many tokens as it has bytes.
\<close>

definition maxF :: "Token list \<Rightarrow> nat" where
  "maxF ts = foldr (\<lambda>t m. if tk_type t = FSTRING_LITERAL then max (length (tk_lexeme t)) m else m) ts 0"

definition exprNeed :: "Parser \<Rightarrow> nat" where
  "exprNeed s = remaining s + maxF (ps_tokens s) * (maxF (ps_tokens s) + 1)"

lemma maxF_ge: "t \<in> set ts \<Longrightarrow> tk_type t = FSTRING_LITERAL \<Longrightarrow> length (tk_lexeme t) \<le> maxF ts"
  unfolding maxF_def by (induction ts) auto

lemma maxF_le: "(\<And>t. t \<in> set ts \<Longrightarrow> tk_type t = FSTRING_LITERAL \<Longrightarrow> length (tk_lexeme t) \<le> n) \<Longrightarrow> maxF ts \<le> n"
  unfolding maxF_def by (induction ts) auto

lemma exprNeed_le: "reach s s' \<Longrightarrow> exprNeed s' \<le> exprNeed s"
  using remaining_le [of s s'] by (simp add: exprNeed_def reach_def)

lemma exprNeed_less: "reach s s' \<Longrightarrow> ps_pos s < ps_pos s' \<Longrightarrow> exprNeed s' < exprNeed s"
  using remaining_less [of s s'] by (simp add: exprNeed_def reach_def)

lemma lexSource_tokens:
  assumes "lexSource src f = Tokens ts"
  shows "tokens_ok ts" and "length ts \<le> 2 * length src + 1" and "maxF ts \<le> length src"
proof -
  let ?n = "normalizeIndentation src"
  have n: "length ?n \<le> length src"
    using normLoop_length [of 0 True src] by (simp add: normalizeIndentation_def)
  from assms obtain l ts0 where s: "streamInv ?n l ts0" "ts = closeStream l ts0"
    by (rule lexSource_TokensE)
  have placed: "placed ?n t" if "t \<in> set ts" for t
    using closeStream_sel(2) [OF s(1)] s(2) that by (auto simp: list_all_iff)
  have f: "2 \<le> length (tk_lexeme t) \<and> length (tk_lexeme t) \<le> length src"
    if "t \<in> set ts" "tk_type t = FSTRING_LITERAL" for t
  proof -
    have "isFString (tk_lexeme t)" and "\<exists>p q. p \<le> length ?n \<and> q \<le> length ?n \<and> p \<le> q \<and> tk_lexeme t = substr p q ?n"
      using placed [OF that(1)] that(2) by (auto simp: placed_def wellShaped_def structural_def verbatim_def)
    then obtain p q where "q \<le> length ?n" "tk_lexeme t = substr p q ?n" by blast
    then have "length (tk_lexeme t) \<le> length src" using n by (simp add: substr_def)
    moreover have "2 \<le> length (tk_lexeme t)" using \<open>isFString (tk_lexeme t)\<close> by (auto simp: isFString_def)
    ultimately show ?thesis by simp
  qed
  then show "tokens_ok ts" using s(2) by (auto simp: tokens_ok_def closeStream_def list_all_iff)
  show "length ts \<le> 2 * length src + 1"
    using s n by (auto simp: streamInv_def closeStream_def)
  show "maxF ts \<le> length src" using f by (auto intro: maxF_le)
qed

lemma lexSource_cases: "(\<exists>ts. lexSource src f = Tokens ts) \<or> (\<exists>e. lexSource src f = Thrown e)"
proof -
  obtain l ts fe where q: "tokenizeLoop ((mkLexer src f)\<lparr>lx_errors := []\<rparr>) [] None = (l, ts, fe)"
    by (metis prod_cases3)
  from tokenize_run [OF q tokenizeLoop_inv [OF q]] show ?thesis
    by (auto simp: lexSource_def split: option.splits)
qed

text \<open>A routine that consumes a token when it succeeds, from any state reached from \<open>s0\<close>.\<close>

definition consumes :: "Parser \<Rightarrow> 'a parser \<Rightarrow> bool" where
  "consumes s0 p \<longleftrightarrow> (\<forall>s. reach s0 s \<longrightarrow> safe s0 p s (\<lambda>_ s'. ps_pos s < ps_pos s'))"

lemma safe_consumes:
  assumes "consumes s0 p" and "reach s0 s" and "\<And>x s'. reach s0 s' \<Longrightarrow> ps_pos s < ps_pos s' \<Longrightarrow> Q x s'"
  shows "safe s0 p s Q"
  using assms(1,2) unfolding consumes_def by (blast intro: safe_weaken assms(3))

lemma consumes_strict: "consumes s p \<Longrightarrow> wf s \<Longrightarrow> strict p s"
  by (simp add: consumes_def strict_def reach_refl)

lemma safe_subParse:
  assumes "callable exprNeed r s0" and "reach s0 s" and "t \<in> set (ps_tokens s)" and "tk_type t = FSTRING_LITERAL"
    and "length text < length (tk_lexeme t)"
  shows "safe s0 (subParse (r e) text) s (\<lambda>_ s'. s' = s)"
proof (cases "lexSource text (ps_filename s)")
  case (Thrown x)
  then show ?thesis using assms(2) by (simp add: subParse_def safe_def benign_def)
next
  case AssertionFailed
  then show ?thesis using lexSource_cases [of "text" "ps_filename s"] by simp
next
  case (Tokens ts)
  let ?s = "\<lparr>ps_tokens = ts, ps_filename = ps_filename s, ps_pos = 0\<rparr>"
  note ok = lexSource_tokens [OF Tokens]
  have "ts \<noteq> []" using ok(1) by (simp add: tokens_ok_def)
  then have w: "wf ?s" using ok(1) by (simp add: wf_def)
  let ?m = "maxF (ps_tokens s)"
  have m: "length text < ?m" using maxF_ge [OF assms(3,4)] assms(5) by simp
  have "exprNeed ?s \<le> 2 * length text + 1 + length text * (length text + 1)"
    using ok(2,3) mult_le_mono [OF ok(3), of "maxF ts + 1" "length text + 1"]
    by (simp add: exprNeed_def remaining_def)
  also have "\<dots> < 1 + (length text + 1) * (length text + 2)" by (simp add: algebra_simps)
  also have "\<dots> \<le> 1 + ?m * (?m + 1)" using m mult_le_mono [of "length text + 1" ?m "length text + 2" "?m + 1"] by simp
  also have "\<dots> \<le> exprNeed s" using reach_bound [OF assms(2)] by (simp add: exprNeed_def remaining_def)
  finally have "exprNeed ?s < exprNeed s0" using exprNeed_le [OF assms(2)] by simp
  then have "strict (r e) ?s" using assms(1) w by (simp add: callable_def)
  then show ?thesis
    using Tokens assms(2) unfolding strict_def
    by (auto simp: safe_def subParse_def split: prod.splits sum.splits)
qed


text \<open>A routine that runs after a token has been consumed, and gives none back.\<close>

definition continues :: "Parser \<Rightarrow> 'a parser \<Rightarrow> bool" where
  "continues s0 p \<longleftrightarrow>
     (\<forall>s. reach s0 s \<longrightarrow> ps_pos s0 < ps_pos s \<longrightarrow> safe s0 p s (\<lambda>_ s'. ps_pos s \<le> ps_pos s'))"

lemma safe_continues:
  assumes "continues s0 p" and "reach s0 s" and "ps_pos s0 < ps_pos s"
    and "\<And>x s'. reach s0 s' \<Longrightarrow> ps_pos s \<le> ps_pos s' \<Longrightarrow> Q x s'"
  shows "safe s0 p s Q"
  using assms(1-3) unfolding continues_def by (blast intro: safe_weaken assms(4))

lemma safe_up:
  assumes "callable exprNeed r s0" and "reach s0 s" and "ps_pos s0 < ps_pos s"
    and "\<And>x s'. reach s0 s' \<Longrightarrow> ps_pos s < ps_pos s' \<Longrightarrow> Q x s'"
  shows "safe s0 (r e) s Q"
  using strict_rec [OF assms(1,2) exprNeed_less [OF assms(2,3)]] assms(4) by blast

lemma reach_le: "reach s0 s \<Longrightarrow> ps_pos s0 \<le> ps_pos s"
  by (simp add: reach_def)

lemma safe_trailingList:
  assumes "reach s0 s"
    and item: "\<And>s'. reach s0 s' \<Longrightarrow> ps_pos s \<le> ps_pos s' \<Longrightarrow> safe s0 item s' (\<lambda>_ s''. ps_pos s' < ps_pos s'')"
    and "\<And>x s'. reach s0 s' \<Longrightarrow> ps_pos s \<le> ps_pos s' \<Longrightarrow> Q x s'"
  shows "safe s0 (trailingList close item xs) s Q"
  unfolding trailingList_def
  by (rule safe_loop [OF assms(1) _ assms(3)])
    (intro safe_whenMatch safe_whenCheck safe_bnd safe_weaken [OF item] safe_ret; auto)

lemma safe_optExpr:
  assumes "callable exprNeed r s0" and "reach s0 s" and "ps_pos s0 < ps_pos s"
    and "\<And>x s'. reach s0 s' \<Longrightarrow> ps_pos s < ps_pos s' \<Longrightarrow> Q x s'"
  shows "safe s0 (optExpr r) s Q"
  unfolding optExpr_def by (intro safe_bnd safe_up [OF assms(1-3)] safe_ret assms(4))

lemma continues_paren: "callable exprNeed r s0 \<Longrightarrow> continues s0 (parseParen r ln col)"
  unfolding continues_def parseParen_def
  by (intro allI impI safe_whenMatch safe_whenCheck safe_bnd safe_andThen safe_expect safe_finish
      safe_commaList safe_up [where r = r] safe_ret; auto)

lemma continues_comprehension:
  assumes "callable exprNeed r s0" and "\<And>v i c. continues s0 (k v i c)"
  shows "reach s0 s \<Longrightarrow> ps_pos s0 < ps_pos s \<Longrightarrow> tk_type (tok s) \<noteq> END_OF_FILE \<Longrightarrow>
    safe s0 (parseComprehension r close msg k) s (\<lambda>_ s'. ps_pos s \<le> ps_pos s')"
  unfolding parseComprehension_def
  by (intro safe_whenMatch safe_bnd safe_andThen safe_expect safe_advance safe_name
      safe_up [OF assms(1)] safe_continues [OF assms(2)] safe_ret; auto)

lemma continues_finish: "continues s0 (finish ln col mk)"
  unfolding continues_def by (intro allI impI safe_finish) auto

lemma continues_list: "callable exprNeed r s0 \<Longrightarrow> continues s0 (parseList r ln col)"
  unfolding continues_def parseList_def
  by (intro allI impI safe_whenCheck safe_bnd safe_andThen safe_expect safe_advance safe_finish
      safe_weaken [OF continues_comprehension [where r = r]] continues_finish
      safe_trailingList safe_up [where r = r] safe_ret; auto)

lemma safe_entry:
  assumes "callable exprNeed r s0" and "reach s0 s" and "ps_pos s0 < ps_pos s"
    and "\<And>x s'. reach s0 s' \<Longrightarrow> ps_pos s < ps_pos s' \<Longrightarrow> Q x s'"
  shows "safe s0 (parseEntry r) s Q"
  unfolding parseEntry_def using assms
  by (intro safe_bnd safe_andThen safe_expect safe_up [where r = r] safe_ret; auto)

lemma continues_dict: "callable exprNeed r s0 \<Longrightarrow> continues s0 (parseDict r ln col)"
  unfolding continues_def parseDict_def
  by (intro allI impI safe_whenCheck safe_bnd safe_prod safe_andThen safe_expect safe_advance safe_finish
      safe_weaken [OF continues_comprehension [where r = r]] continues_finish
      safe_trailingList safe_entry [where r = r] safe_ret; auto)

lemma safe_literal:
  assumes "reach s0 s" and "0 < ps_pos s" and "\<And>x. Q x s"
  shows "safe s0 (parseIntLiteral ln col) s Q" and "safe s0 (parseFloatLiteral ln col) s Q"
  unfolding parseIntLiteral_def parseFloatLiteral_def
  by (intro safe_bnd safe_previous safe_orFail safe_finish assms; simp)+

text \<open>The f-string token is the last one consumed; its content leaves out three of its bytes.\<close>

lemma safe_parseFString:
  assumes r: "callable exprNeed r s0" and "reach s0 s" and "tk_type (tok s) = FSTRING_LITERAL"
    and "reach s0 s'" and s': "s' = s\<lparr>ps_pos := Suc (ps_pos s)\<rparr>" and Q: "\<And>x. Q x s'"
  shows "safe s0 (parseFString r ln col) s' Q"
proof -
  let ?t = "tok s" and ?c = "take (length (tk_lexeme (tok s)) - 3) (drop 2 (tk_lexeme (tok s)))"
  have t: "?t \<in> set (ps_tokens s')" using reach_bound [OF assms(2)] s' by (simp add: tok_def)
  then have two: "2 \<le> length (tk_lexeme ?t)"
    using assms(3) reach_wf [OF assms(4)] by (auto simp: wf_def tokens_ok_def list_all_iff)
  have content: "safe s0 (fstringContent (tk_lexeme ?t)) s' (\<lambda>x s''. x = ?c \<and> s'' = s')"
    using two assms(4) by (simp add: fstringContent_def safe_def ret_def)
  have c: "length w < length (tk_lexeme ?t)" if "length w < length ?c" for w :: string
    using that by simp
  have parts: "safe s0 (fstringParts (subParse (r EExpression)) [] [] ?c) s' (\<lambda>_ s''. s'' = s')"
    by (rule safe_fstringParts [where n = "length ?c", OF safe_subParse [OF r assms(4) t assms(3) c] assms(4)]) auto
  have "previous s' = (Inr ?t, s')"
    using previous_eq [OF assms(4)] s' by (simp add: tok_def)
  then have prev: "safe s0 previous s' (\<lambda>x s''. x = ?t \<and> s'' = s')"
    using assms(4) by (simp add: safe_def)
  have "0 < ps_pos s'" using s' by simp
  then have 1: "safe s0 (finish ln col mk) s' Q" for mk using assms(4) Q by (intro safe_finish)
  have 2: "safe s0 (bnd (fstringParts (subParse (r EExpression)) [] [] ?c) (\<lambda>x. finish ln col (mk x))) s' Q" for mk
    by (rule safe_bnd, rule safe_weaken [OF parts]) (simp add: 1)
  have 3: "safe s0 (bnd (fstringContent (tk_lexeme ?t)) (\<lambda>c.
      bnd (fstringParts (subParse (r EExpression)) [] [] c) (\<lambda>x. finish ln col (mk x)))) s' Q" for mk
    by (rule safe_bnd, rule safe_weaken [OF content]) (simp add: 2)
  show ?thesis
    unfolding parseFString_def by (rule safe_bnd, rule safe_weaken [OF prev]) (simp add: 3)
qed

text \<open>The primary expressions.\<close>

lemma consumes_primary: "callable exprNeed r s0 \<Longrightarrow> consumes s0 (parsePrimary r)"
proof -
  assume r: "callable exprNeed r s0"
  have fstr: "safe s0 (whenMatch FSTRING_LITERAL (parseFString r ln col) no) s (\<lambda>_ s'. ps_pos s < ps_pos s')"
    if "reach s0 s" "safe s0 no s (\<lambda>_ s'. ps_pos s < ps_pos s')" for ln col no s
    unfolding whenMatch_def using that
    by (intro safe_bnd safe_matchTok) (auto intro: safe_parseFString [OF r that(1)])
  show ?thesis
    unfolding consumes_def parsePrimary_def using r
    by (intro allI impI safe_here fstr safe_whenMatch safe_bnd safe_previous safe_finish safe_literal
        safe_continues [OF continues_paren] safe_continues [OF continues_list] safe_continues [OF continues_dict]
        safe_up [OF r] safe_current safe_error; auto simp: reach_le intro: le_less_trans [OF reach_le])
qed


lemma safe_parseArgs:
  assumes "callable exprNeed r s0" and "reach s0 s" and "ps_pos s0 < ps_pos s"
    and "\<And>x s'. reach s0 s' \<Longrightarrow> ps_pos s < ps_pos s' \<Longrightarrow> Q x s'"
  shows "safe s0 (parseArgs r) s Q"
  unfolding parseArgs_def using assms
  by (intro safe_bnd safe_whenCheck safe_commaList safe_andThen safe_expect safe_up [where r = r] safe_ret; auto)

lemma safe_parseTypeArgs:
  assumes "reach s0 s" and "tk_type (tok s) \<noteq> END_OF_FILE"
    and "\<And>x s'. reach s0 s' \<Longrightarrow> ps_pos s < ps_pos s' \<Longrightarrow> Q x s'"
  shows "safe s0 parseTypeArgs s Q"
proof -
  have step: "safe s0 (typeArgsStep acc) s'
      (\<lambda>x s''. if x = None then ps_pos s' \<le> ps_pos s'' else ps_pos s' < ps_pos s'')" if "reach s0 s'" for acc s'
    unfolding typeArgsStep_def using that
    by (intro safe_prod safe_if safe_whenMatch safe_whenCheck safe_bnd safe_advance safe_ret; auto)
  show ?thesis
    unfolding parseTypeArgs_def using assms
    by (intro safe_andThen safe_whenCheck safe_advance safe_bnd safe_loop step safe_prod safe_if safe_whenMatch safe_ret; auto)
qed

lemma safe_parseIndex:
  assumes "callable exprNeed r s0" and "reach s0 s" and "ps_pos s0 < ps_pos s"
    and "\<And>x s'. reach s0 s' \<Longrightarrow> ps_pos s < ps_pos s' \<Longrightarrow> Q x s'"
  shows "safe s0 (parseIndex r e) s Q"
proof -
  note opt = safe_optExpr [OF assms(1)]
  have slice: "safe s0 (parseSlice r ln col e x) s' (\<lambda>_ s''. ps_pos s' < ps_pos s'')"
    if "reach s0 s'" "ps_pos s \<le> ps_pos s'" "tk_type (tok s') \<noteq> END_OF_FILE" for ln col x s'
    unfolding parseSlice_def using that assms(3)
    by (intro safe_bnd safe_whenCheck opt safe_andThen safe_advance safe_expect safe_whenMatch safe_ret; simp)
  have first: "safe s0 (whenCheck COLON (ret None) (whenCheck RBRACKET (ret None) (optExpr r))) s
      (\<lambda>_ s'. ps_pos s \<le> ps_pos s')"
    by (intro safe_whenCheck opt safe_ret assms(2,3); simp)
  have last: "safe s0 (case x of None \<Rightarrow> error m | Some e' \<Rightarrow> andThen (expect RBRACKET m') (ret (f e'))) s' Q"
    if "reach s0 s'" "ps_pos s \<le> ps_pos s'" for x m m' f s'
    using that by (intro safe_option safe_andThen safe_expect safe_error safe_ret assms(4); simp)
  show ?thesis
    unfolding parseIndex_def using assms(3)
    by (intro safe_bnd safe_previous assms(2) safe_weaken [OF first] safe_whenCheck safe_weaken [OF slice]
        last assms(4); simp)
qed

lemma safe_postfixStep:
  assumes r: "callable exprNeed r s0" and s: "reach s0 s" "ps_pos s0 < ps_pos s"
  shows "safe s0 (postfixStep r e) s
    (\<lambda>x s'. if x = None then ps_pos s \<le> ps_pos s' else ps_pos s < ps_pos s')"
proof -
  have retry: "safe s0 (andThen (setPos (ps_pos s)) (ret None)) s'
      (\<lambda>x s'. if x = None then ps_pos s \<le> ps_pos s' else ps_pos s < ps_pos s')"
    if "reach s0 s'" "ps_pos s < ps_pos s'" for s'
    using that s by (intro safe_andThen safe_setPos safe_ret) (auto simp: reach_def)
  show ?thesis
    unfolding postfixStep_def using s
    by (intro safe_whenMatch safe_whenCheck safe_bnd safe_getPos safe_parseArgs [OF r] safe_parseTypeArgs
        safe_parseIndex [OF r] safe_name safe_option retry safe_ret; auto)
qed

lemma consumes_postfix: "callable exprNeed r s0 \<Longrightarrow> consumes s0 (parsePostfix r)"
  unfolding consumes_def parsePostfix_def
  by (intro allI impI safe_bnd safe_consumes [OF consumes_primary [of r]] safe_loop safe_postfixStep [where r = r];
      auto intro: order.strict_trans1 [OF reach_le])

lemma consumes_unary: "callable exprNeed r s0 \<Longrightarrow> consumes s0 (parseUnary r)"
  unfolding consumes_def parseUnary_def parsePower_def
  by (intro allI impI safe_whenMatch safe_bnd safe_consumes [OF consumes_postfix [of r]] safe_up [where r = r] safe_ret;
      auto intro: order.strict_trans1 [OF reach_le])

lemma safe_matchOp:
  assumes "reach s0 s" and "\<And>x s'. reach s0 s' \<Longrightarrow> ps_pos s < ps_pos s' \<Longrightarrow> Q (Some x) s'" and "Q None s"
  shows "safe s0 (matchOp ops) s Q"
  by (induction ops) (auto intro!: safe_whenMatch safe_ret assms)

lemma consumes_leftAssoc:
  assumes "consumes s0 p"
    and mk: "\<And>op a b s. reach s0 s \<Longrightarrow> 0 < ps_pos s \<Longrightarrow> safe s0 (mk op a b) s (\<lambda>_ s'. s' = s)"
  shows "consumes s0 (leftAssoc ops mk p)"
  unfolding consumes_def leftAssoc_def
  by (intro allI impI safe_bnd safe_consumes [OF assms(1)] safe_loop safe_matchOp safe_option
      safe_weaken [OF mk] safe_ret; auto)

lemma consumes_binary: "consumes s0 p \<Longrightarrow> consumes s0 (leftAssoc ops binary p)"
  by (rule consumes_leftAssoc) (auto simp: binary_def intro: safe_ret)

lemma safe_tryMatchCompOp:
  assumes "reach s0 s" and "\<And>x s'. reach s0 s' \<Longrightarrow> ps_pos s < ps_pos s' \<Longrightarrow> Q (Some x) s'" and "Q None s"
  shows "safe s0 tryMatchCompOp s Q"
proof -
  let ?b = "ps_pos s + 1 < length (ps_tokens s) \<and> tk_type (ps_tokens s ! (ps_pos s + 1)) = KW_IN"
  have "safe s0 (if ?b then andThen advance (andThen advance (ret (Some NotIn))) else ret None) s Q"
    if "tk_type (tok s) = KW_NOT"
    using that assms by (intro safe_if safe_andThen safe_advance safe_advance_any safe_ret; auto)
  then have notIn: "safe s0 (bnd (nextIs KW_IN) (\<lambda>b. if b then andThen advance (andThen advance (ret (Some NotIn))) else ret None)) s Q"
    if "tk_type (tok s) = KW_NOT"
    using that assms(1) by (intro safe_bnd) (simp add: safe_def nextIs_def)
  have "safe s0 (whenCheck KW_NOT (bnd (nextIs KW_IN) (\<lambda>b.
      if b then andThen advance (andThen advance (ret (Some NotIn))) else ret None)) (ret None)) s Q"
    using assms by (intro safe_whenCheck notIn safe_ret) auto
  then show ?thesis
    unfolding tryMatchCompOp_def using assms
    by (intro safe_bnd safe_matchOp safe_option safe_ret; auto)
qed

lemma consumes_comparison: "callable exprNeed r s0 \<Longrightarrow> consumes s0 (parseComparison r)"
proof -
  assume "callable exprNeed r s0"
  then have "consumes s0 (parseAddSub r)"
    unfolding parseAddSub_def parseMulDiv_def by (intro consumes_binary consumes_unary)
  note operand = safe_consumes [OF this]
  show ?thesis
    unfolding consumes_def parseComparison_def
    by (intro allI impI safe_bnd operand safe_loop safe_prod safe_tryMatchCompOp safe_option safe_ret; auto)
qed

lemma consumes_not:
  assumes r: "callable exprNeed r s0" shows "consumes s0 (parseNot r)"
proof -
  have "consumes s0 (parseBitOr r)"
    unfolding parseBitOr_def parseBitXor_def parseBitAnd_def parseShift_def
    using r by (intro consumes_binary consumes_comparison)
  note operand = safe_consumes [OF this]
  show ?thesis
    unfolding consumes_def parseNot_def
    by (intro allI impI safe_whenMatch safe_bnd operand safe_up [OF r] safe_ret;
        auto intro: order.strict_trans1 [OF reach_le])
qed

lemma consumes_or: "callable exprNeed r s0 \<Longrightarrow> consumes s0 (parseOr r)"
  unfolding parseOr_def parseAnd_def by (intro consumes_binary consumes_not)

lemma consumes_nullCoalesce: "callable exprNeed r s0 \<Longrightarrow> consumes s0 (parseNullCoalesce r)"
  unfolding parseNullCoalesce_def by (intro consumes_leftAssoc consumes_or safe_finish) auto

lemma consumes_ternary: "callable exprNeed r s0 \<Longrightarrow> consumes s0 (parseTernary r)"
  unfolding consumes_def parseTernary_def derefMoved_def
  by (intro allI impI safe_bnd safe_whenMatch safe_andThen safe_expect
      safe_consumes [OF consumes_nullCoalesce [of r]] safe_raise safe_ret; auto simp: benign_def)


lemma consumes_expression: "callable exprNeed r s0 \<Longrightarrow> consumes s0 (parseExpressionF r)"
proof -
  assume r: "callable exprNeed r s0"
  note ternary = safe_consumes [OF consumes_ternary [OF r]]
  have retry: "safe s0 (andThen (setPos (ps_pos s)) (parseTernary r)) s' (\<lambda>_ s'. ps_pos s < ps_pos s')"
    if "reach s0 s" "reach s0 s'" "ps_pos s < ps_pos s'" for s s'
  proof -
    have "s'\<lparr>ps_pos := ps_pos s\<rparr> = s" using that(1,2) by (cases s; cases s') (auto simp: reach_def)
    then show ?thesis
      using that by (intro safe_andThen safe_setPos) (auto simp: reach_le intro: ternary)
  qed
  show ?thesis
    unfolding consumes_def parseExpressionF_def
    by (intro allI impI safe_whenCheck safe_bnd safe_getPos safe_advance safe_whenMatch safe_up [OF r] safe_finish
        retry ternary safe_ret; auto intro: order.strict_trans1 [OF reach_le])
qed

lemma strict_exprF: "wf s \<Longrightarrow> callable exprNeed r s \<Longrightarrow> strict (exprF r e) s"
  by (cases e) (simp_all add: exprF_def consumes_strict consumes_expression consumes_or consumes_unary consumes_not)

interpretation exprs: recursive exprNeed exprF
  by unfold_locales (simp_all add: exprNeed_le exprNeed_less below_exprF strict_exprF)

section \<open>The parser of expressions\<close>

definition exprRun :: exprRec where
  "exprRun = run exprNeed exprF"

definition parseExpression :: "Expr parser" where
  "parseExpression = exprRun EExpression"

text \<open>\<^verbatim>\<open>parseNullCoalesce\<close> is also called from the patterns of \<^verbatim>\<open>match\<close>.\<close>

definition parsePattern :: "Expr parser" where
  "parsePattern = parseNullCoalesce exprRun"

lemma callable_exprRun: "callable exprNeed exprRun s"
  by (simp add: callable_def exprRun_def exprs.run_strict)

lemma safe_parseExpression:
  assumes "reach s0 s" and "\<And>x s'. reach s0 s' \<Longrightarrow> ps_pos s < ps_pos s' \<Longrightarrow> Q x s'"
  shows "safe s0 parseExpression s Q"
  unfolding parseExpression_def exprRun_def using assms by (rule exprs.safe_run)

lemma safe_parsePattern:
  assumes "reach s0 s" and "\<And>x s'. reach s0 s' \<Longrightarrow> ps_pos s < ps_pos s' \<Longrightarrow> Q x s'"
  shows "safe s0 parsePattern s Q"
  unfolding parsePattern_def
  by (rule safe_consumes [OF consumes_nullCoalesce [OF callable_exprRun] assms])

text \<open>The recursion equation of the source, with no fuel.\<close>

lemma exprRun_unfold: "wf s \<Longrightarrow> exprRun e s = exprF exprRun e s"
  unfolding exprRun_def by (rule exprs.run_unfold)

end
