(* ===== verification/Parser_Stmt.thy ===== *)
theory Parser_Stmt
  imports Parser_Expr "HOL-Library.AList"
begin

text \<open>
  Statements: one definition per routine, and \<^verbatim>\<open>parse\<close> with its recovery from errors. The routines
  recur only through the statements of a block; that call is the parameter \<open>rec\<close>.
\<close>

type_synonym stmtRec = "unit \<Rightarrow> Stmt parser"

section \<open>Blocks and lists\<close>

text \<open>
  A block: the inline no-op, or the statements between INDENT and DEDENT. The node of the no-op has a
  start only.
\<close>

definition blockStep :: "stmtRec \<Rightarrow> Stmt list \<Rightarrow> Stmt list option parser" where
  "blockStep rec body =
     whenCheck DEDENT (ret None)
       (bnd isAtEnd (\<lambda>e. if e then ret None else
          bnd (rec ()) (\<lambda>st. andThen skipNewlines (ret (Some (body @ [st]))))))"

definition indentedOpen :: "string \<Rightarrow> string \<Rightarrow> unit parser" where
  "indentedOpen newlineMsg indentMsg =
     andThen (expect NEWLINE newlineMsg)
    (andThen skipNewlines
    (andThen (expect INDENT indentMsg) skipNewlines))"

definition parseBlock :: "stmtRec \<Rightarrow> Stmt list parser" where
  "parseBlock rec =
     whenCheck ELLIPSIS
       (here (\<lambda>ln col.
          andThen advance
         (andThen (matchTok NEWLINE)
           (ret [PassStmt (node0\<lparr>n_line := ln, n_column := col\<rparr>)]))))
       (andThen (indentedOpen ''Expected newline before indented block'' ''Expected indented block'')
         (bnd (loop (blockStep rec) []) (\<lambda>body.
            andThen (expect DEDENT ''Expected end of indented block'') (ret body))))"

definition colonBlock :: "stmtRec \<Rightarrow> string \<Rightarrow> Stmt list parser" where
  "colonBlock rec after = andThen (expect COLON (''Expected '' @ quoted '':'' @ '' after '' @ after)) (parseBlock rec)"

definition elseBlock :: "stmtRec \<Rightarrow> string \<Rightarrow> Stmt list parser" where
  "elseBlock rec after = whenMatch KW_ELSE (colonBlock rec after) (ret [])"

text \<open>
  The type parameters of a function or class. \<^verbatim>\<open>typeParamBounds[tp] = bound\<close> overwrites the bound of an
  earlier parameter with the same name.
\<close>

definition typeParam :: "(string \<times> string option) parser" where
  "typeParam =
     bnd (name IDENTIFIER ''Expected type parameter'') (\<lambda>tp.
       whenMatch COLON
         (bnd (name IDENTIFIER ''Expected bound type'') (\<lambda>b. ret (tp, Some b)))
         (ret (tp, None)))"

definition boundsOf :: "(string \<times> string option) list \<Rightarrow> (string \<times> string) list" where
  "boundsOf tps =
     foldl (\<lambda>m (tp, b). case b of None \<Rightarrow> m | Some b \<Rightarrow> AList.update tp b m) [] tps"

definition parseTypeParams :: "(string \<times> string option) list parser" where
  "parseTypeParams =
     whenMatch LT
       (bnd (commaList typeParam) (\<lambda>tps.
          andThen (expect GT (''Expected '' @ quoted ''>'' @ '' after type parameters'')) (ret tps)))
       (ret [])"

text \<open>
  One round of the parameter loop: the parameters so far and whether a C variadic was seen; the flag
  in front tells that the loop breaks.
\<close>

type_synonym paramAcc = "bool \<times> Param list \<times> bool"

definition paramName :: "(string \<times> bool \<times> bool) parser" where
  "paramName =
     whenMatch DOUBLE_STAR
       (bnd (name IDENTIFIER (''Expected parameter name after '' @ quoted ''**'')) (\<lambda>x. ret (x, False, True)))
    (whenMatch STAR
       (bnd (name IDENTIFIER (''Expected parameter name after '' @ quoted ''*'')) (\<lambda>x. ret (x, True, False)))
       (bnd (name IDENTIFIER ''Expected parameter name'') (\<lambda>x. ret (x, False, False))))"

definition parseParam :: "Param parser" where
  "parseParam =
     bnd paramName (\<lambda>(x, isVariadic, isKwargs).
     bnd (whenMatch COLON parseTypeAnnotation (ret [])) (\<lambda>typeAnnotation.
     bnd (whenMatch ASSIGN (bnd parseExpression (\<lambda>e. ret (Some e))) (ret None)) (\<lambda>defaultValue.
     ret (Param x typeAnnotation defaultValue isVariadic isKwargs))))"

definition paramStep :: "Param list \<Rightarrow> bool \<Rightarrow> paramAcc parser" where
  "paramStep params isVariadicC =
     whenMatch ELLIPSIS
       (whenCheck RPAREN
          (ret (True, params, True))
          (error (''C variadic '' @ quoted ''...'' @ '' must be the last parameter in the list'')))
       (bnd parseParam (\<lambda>p. ret (False, params @ [p], isVariadicC)))"

definition parseParamList :: "(Param list \<times> bool) parser" where
  "parseParamList =
     andThen (expect LPAREN (''Expected '' @ quoted ''('' @ '' for parameter list''))
      (bnd (whenCheck RPAREN
             (ret (True, [], False))
             (bnd (paramStep [] False)
                (loop (\<lambda>(done, params, isVariadicC).
                   if done then ret None
                   else whenMatch COMMA
                          (bnd (paramStep params isVariadicC) (\<lambda>acc. ret (Some acc)))
                          (ret None)))))
           (\<lambda>(done, params, isVariadicC).
         andThen (expect RPAREN (''Expected '' @ quoted '')'' @ '' after parameters''))
           (ret (params, isVariadicC))))"

section \<open>Definitions of functions and types\<close>

text \<open>The decorator \<^verbatim>\<open>@extern\<close> or \<^verbatim>\<open>@extern("lib")\<close>; a later one overwrites the library.\<close>

definition externStep :: "bool \<times> string \<Rightarrow> Expr \<Rightarrow> bool \<times> string" where
  "externStep acc dec =
    (case dec of
       Identifier _ x \<Rightarrow> if x = ''extern'' then (True, snd acc) else acc
     | CallExpr _ callee args _ \<Rightarrow>
         (case callee of
            Identifier _ x \<Rightarrow>
              if x = ''extern'' \<and> length args = 1
              then (case hd args of StringLiteral _ v \<Rightarrow> (True, v) | _ \<Rightarrow> acc)
              else acc
          | _ \<Rightarrow> acc)
     | _ \<Rightarrow> acc)"

definition externOf :: "Expr list \<Rightarrow> bool \<times> string" where
  "externOf decorators = foldl externStep (False, []) decorators"

definition externBody :: "unit parser" where
  "externBody =
     whenMatch COLON
       (andThen (expect ELLIPSIS (''Expected '' @ quoted ''...'' @ '' body for extern function''))
         (andThen (matchTok NEWLINE) (ret ())))
       (ret ())"

definition parseFuncDef :: "stmtRec \<Rightarrow> Expr list \<Rightarrow> Stmt parser" where
  "parseFuncDef rec decorators =
     here (\<lambda>ln col.
       case externOf decorators of (isExtern, externLibName) \<Rightarrow>
         andThen advance
        (bnd (name IDENTIFIER ''Expected function name'') (\<lambda>fn.
         bnd parseTypeParams (\<lambda>tps.
         bnd parseParamList (\<lambda>(params, isVariadicC).
         bnd (whenMatch ARROW parseTypeAnnotation (ret [])) (\<lambda>retType.
         if isExtern then
           andThen externBody
             (finish ln col (\<lambda>n. FuncDef n
                (FuncHead fn (map fst tps) (boundsOf tps) params retType decorators True externLibName isVariadicC) []))
         else
           bnd (colonBlock rec ''function signature'') (\<lambda>body.
             finish ln col (\<lambda>n. FuncDef n
                (FuncHead fn (map fst tps) (boundsOf tps) params retType decorators False [] isVariadicC) body))))))))"

definition parseInitDef :: "stmtRec \<Rightarrow> Stmt parser" where
  "parseInitDef rec =
     here (\<lambda>ln col.
       andThen advance
      (bnd parseParamList (\<lambda>(params, _).
       bnd (colonBlock rec ''init signature'') (\<lambda>body.
       finish ln col (\<lambda>n. InitDef n params body)))))"

definition baseName :: "string parser" where
  "baseName = name IDENTIFIER ''Expected base class name''"

text \<open>The bases of a class: after \<^verbatim>\<open>extends\<close>, or in parentheses, where a trailing comma is allowed.\<close>

definition parseBases :: "(string option \<times> string list) parser" where
  "parseBases =
     whenMatch KW_EXTENDS
       (bnd (commaList baseName) (\<lambda>bs. ret (Some (hd bs), tl bs)))
       (bnd current (\<lambda>c.
          if tk_type c = LPAREN then
            andThen advance
             (bnd current (\<lambda>c.
              bnd (if tk_type c \<noteq> RPAREN then
                     bnd baseName (\<lambda>b.
                     bnd (loop (\<lambda>extra. whenMatch COMMA
                            (bnd current (\<lambda>c. if tk_type c = RPAREN then ret None
                               else bnd baseName (\<lambda>x. ret (Some (extra @ [x])))))
                            (ret None)) []) (\<lambda>extra.
                     ret (Some b, extra)))
                   else ret (None, [])) (\<lambda>bases.
              andThen (expect RPAREN (''Expected '' @ quoted '')'' @ '' after base classes'')) (ret bases))))
          else ret (None, [])))"

definition parseClassDef :: "stmtRec \<Rightarrow> Stmt parser" where
  "parseClassDef rec =
     here (\<lambda>ln col.
       andThen advance
      (bnd (name IDENTIFIER ''Expected class name'') (\<lambda>cn.
       bnd parseTypeParams (\<lambda>tps.
       bnd parseBases (\<lambda>(baseClass, extraBases).
       bnd (whenMatch KW_IMPLEMENTS (commaList (name IDENTIFIER ''Expected interface name'')) (ret [])) (\<lambda>interfaces.
       bnd (colonBlock rec ''class header'') (\<lambda>body.
       finish ln col (\<lambda>n. ClassDef n
         (ClassHead cn baseClass extraBases interfaces (map fst tps) (boundsOf tps)) body))))))))"

text \<open>
  The members of an enum. \<^verbatim>\<open>check(END_OF_FILE)\<close> never holds, because \<^verbatim>\<open>check\<close> is false at the end; a
  missing DEDENT is then reported as a missing member name.
\<close>

definition enumStep :: "string list \<Rightarrow> string list option parser" where
  "enumStep members =
     whenCheck DEDENT (ret None)
    (whenCheck END_OF_FILE (ret None)
    (andThen skipNewlines
    (whenCheck DEDENT (ret None)
    (whenCheck END_OF_FILE (ret None)
    (bnd (name IDENTIFIER ''Expected enum member name'') (\<lambda>m.
      andThen skipNewlines (ret (Some (members @ [m])))))))))"

definition parseEnumDef :: "Stmt parser" where
  "parseEnumDef =
     here (\<lambda>ln col.
       andThen advance
      (bnd (name IDENTIFIER ''Expected enum name'') (\<lambda>en.
       andThen (expect COLON (''Expected '' @ quoted '':'' @ '' after enum name''))
      (andThen (expect NEWLINE (''Expected newline after '' @ quoted '':''))
      (andThen (expect INDENT ''Expected indented block for enum body'')
      (bnd (loop enumStep []) (\<lambda>members.
       andThen (expect DEDENT ''Expected dedent after enum body'')
         (finish ln col (\<lambda>n. EnumDef n en members)))))))))"

definition methodStep :: "MethodSignature list \<Rightarrow> MethodSignature list option parser" where
  "methodStep methods =
     whenCheck DEDENT (ret None)
       (bnd isAtEnd (\<lambda>e. if e then ret None else
          andThen (expect KW_DEFINE ''Expected method declaration in interface'')
         (bnd (name IDENTIFIER ''Expected method name'') (\<lambda>mn.
          bnd parseParamList (\<lambda>(params, _).
          bnd (whenMatch ARROW parseTypeAnnotation (ret [])) (\<lambda>retType.
          andThen (matchTok NEWLINE)
         (andThen skipNewlines
           (ret (Some (methods @ [MethodSignature mn params retType]))))))))))"

definition parseInterfaceDef :: "Stmt parser" where
  "parseInterfaceDef =
     here (\<lambda>ln col.
       andThen advance
      (bnd (name IDENTIFIER ''Expected interface name'') (\<lambda>nm.
       andThen (expect COLON (''Expected '' @ quoted '':'' @ '' after interface name''))
      (andThen (indentedOpen ''Expected newline before indented block'' ''Expected indented block'')
      (bnd (loop methodStep []) (\<lambda>methods.
       andThen (expect DEDENT ''Expected end of interface block'')
         (finish ln col (\<lambda>n. InterfaceDef n nm methods))))))))"

section \<open>Compound statements\<close>

definition elsifStep :: "stmtRec \<Rightarrow> (Expr \<times> Stmt list) list \<Rightarrow> (Expr \<times> Stmt list) list option parser" where
  "elsifStep rec elsifs =
     whenCheck KW_ELSIF
       (andThen advance
       (bnd parseExpression (\<lambda>ec.
        bnd (colonBlock rec ''elsif condition'') (\<lambda>eb.
        andThen skipNewlines (ret (Some (elsifs @ [(ec, eb)])))))))
       (ret None)"

definition parseIfStmt :: "stmtRec \<Rightarrow> Stmt parser" where
  "parseIfStmt rec =
     here (\<lambda>ln col.
       andThen advance
      (bnd parseExpression (\<lambda>cond.
       bnd (colonBlock rec ''if condition'') (\<lambda>thenBody.
       andThen skipNewlines
      (bnd (loop (elsifStep rec) []) (\<lambda>elsifs.
       bnd (elseBlock rec ''else'') (\<lambda>elseBody.
       finish ln col (\<lambda>n. IfStmt n cond thenBody elsifs elseBody))))))))"

definition parseForStmt :: "stmtRec \<Rightarrow> Stmt parser" where
  "parseForStmt rec =
     here (\<lambda>ln col.
       andThen advance
      (bnd (name IDENTIFIER ''Expected loop variable'') (\<lambda>firstVar.
       bnd (loop (\<lambda>xs. whenMatch COMMA
              (bnd (name IDENTIFIER ''Expected identifier in for-loop variable list'') (\<lambda>x. ret (Some (xs @ [x]))))
              (ret None)) []) (\<lambda>extraVars.
       andThen (expect KW_IN (''Expected '' @ quoted ''in'' @ '' in for loop''))
      (bnd parseExpression (\<lambda>iter.
       bnd (colonBlock rec ''for header'') (\<lambda>body.
       bnd (elseBlock rec (quoted ''else'')) (\<lambda>elseBranch.
       finish ln col (\<lambda>n. ForStmt n firstVar
         (if extraVars \<noteq> [] then firstVar # extraVars else []) iter body elseBranch)))))))))"

definition parseWhileStmt :: "stmtRec \<Rightarrow> Stmt parser" where
  "parseWhileStmt rec =
     here (\<lambda>ln col.
       andThen advance
      (bnd parseExpression (\<lambda>cond.
       bnd (colonBlock rec ''while condition'') (\<lambda>body.
       bnd (elseBlock rec (quoted ''else'')) (\<lambda>elseBranch.
       finish ln col (\<lambda>n. WhileStmt n cond body elseBranch))))))"

text \<open>\<^verbatim>\<open>as\<close> is accepted as a keyword and as an identifier.\<close>

definition catchVar :: "string parser" where
  "catchVar =
     bnd (check KW_AS) (\<lambda>k.
     bnd (if k then ret True
          else whenCheck IDENTIFIER (bnd current (\<lambda>c. ret (tk_lexeme c = ''as''))) (ret False)) (\<lambda>isAs.
     if isAs then andThen advance (name IDENTIFIER (''Expected variable name after '' @ quoted ''as''))
     else ret []))"

definition catchStep :: "stmtRec \<Rightarrow> CatchClause list \<Rightarrow> CatchClause list option parser" where
  "catchStep rec catches =
     whenCheck KW_CATCH
       (andThen advance
       (bnd (whenCheck IDENTIFIER
              (bnd advance (\<lambda>t. bnd catchVar (\<lambda>x. ret (tk_lexeme t, x))))
              (ret ([], []))) (\<lambda>(exceptionType, varName).
        bnd (colonBlock rec ''catch'') (\<lambda>body.
        andThen skipNewlines (ret (Some (catches @ [CatchClause exceptionType varName body])))))))
       (ret None)"

definition parseTryStmt :: "stmtRec \<Rightarrow> Stmt parser" where
  "parseTryStmt rec =
     here (\<lambda>ln col.
       andThen advance
      (bnd (colonBlock rec ''try'') (\<lambda>tryBody.
       andThen skipNewlines
      (bnd (loop (catchStep rec) []) (\<lambda>catches.
       bnd (whenMatch KW_FINALLY (colonBlock rec ''finally'') (ret [])) (\<lambda>finallyBody.
       finish ln col (\<lambda>n. TryStmt n tryBody catches finallyBody)))))))"

definition parseWithStmt :: "stmtRec \<Rightarrow> Stmt parser" where
  "parseWithStmt rec =
     here (\<lambda>ln col.
       andThen advance
      (bnd parseExpression (\<lambda>expr.
       bnd (whenCheck KW_AS
              (andThen advance
                (name IDENTIFIER (''Expected variable name after '' @ quoted ''as'' @ '' in with statement'')))
              (ret [])) (\<lambda>asName.
       bnd (colonBlock rec ''with expression'') (\<lambda>body.
       finish ln col (\<lambda>n. WithStmt n expr asName body))))))"

text \<open>A case: the wildcard or a pattern, which cannot be a ternary, and an optional guard.\<close>

definition casePattern :: "Expr option parser" where
  "casePattern =
     bnd (whenCheck IDENTIFIER (bnd current (\<lambda>c. ret (tk_lexeme c = ''_''))) (ret False)) (\<lambda>wildcard.
     if wildcard then andThen advance (ret None)
     else bnd parsePattern (\<lambda>p. ret (Some p)))"

definition caseStep :: "stmtRec \<Rightarrow> MatchCase list \<Rightarrow> MatchCase list option parser" where
  "caseStep rec cases =
     whenCheck DEDENT (ret None)
       (bnd isAtEnd (\<lambda>e. if e then ret None else
          andThen (expect KW_CASE (''Expected '' @ quoted ''case'' @ '' in match body''))
         (bnd casePattern (\<lambda>pattern.
          bnd (whenMatch KW_IF (bnd parseExpression (\<lambda>g. ret (Some g))) (ret None)) (\<lambda>guard.
          bnd (colonBlock rec ''case pattern'') (\<lambda>body.
          andThen skipNewlines (ret (Some (cases @ [MatchCase pattern guard body])))))))))"

definition parseMatchStmt :: "stmtRec \<Rightarrow> Stmt parser" where
  "parseMatchStmt rec =
     here (\<lambda>ln col.
       andThen advance
      (bnd parseExpression (\<lambda>subject.
       andThen (expect COLON (''Expected '' @ quoted '':'' @ '' after match expression''))
      (andThen (indentedOpen ''Expected newline after match:'' ''Expected indented block for match'')
      (bnd (loop (caseStep rec) []) (\<lambda>cases.
       andThen (expect DEDENT ''Expected end of match block'')
         (finish ln col (\<lambda>n. MatchStmt n subject cases))))))))"


section \<open>Simple statements\<close>

text \<open>
  The optional operand of \<^verbatim>\<open>return\<close> and \<^verbatim>\<open>yield\<close>: absent before NEWLINE and DEDENT. The test for
  END_OF_FILE in between is always false.
\<close>

definition optionalOperand :: "Expr option parser" where
  "optionalOperand =
     whenCheck NEWLINE (ret None)
    (whenCheck END_OF_FILE (ret None)
    (whenCheck DEDENT (ret None)
    (bnd parseExpression (\<lambda>e. ret (Some e)))))"

definition parseReturnStmt :: "Stmt parser" where
  "parseReturnStmt =
     here (\<lambda>ln col. andThen advance (bnd optionalOperand (\<lambda>v. finish ln col (\<lambda>n. ReturnStmt n v))))"

definition parseYieldStmt :: "Stmt parser" where
  "parseYieldStmt =
     here (\<lambda>ln col. andThen advance (bnd optionalOperand (\<lambda>v. finish ln col (\<lambda>n. YieldStmt n v))))"

definition parseThrowStmt :: "Stmt parser" where
  "parseThrowStmt =
     here (\<lambda>ln col.
       andThen advance
      (bnd current (\<lambda>c.
         if tk_type c \<in> {NEWLINE, DEDENT, END_OF_FILE} then finish ln col (\<lambda>n. ThrowStmt n None)
         else bnd parseExpression (\<lambda>e. finish ln col (\<lambda>n. ThrowStmt n (Some e))))))"

definition parseAssertStmt :: "Stmt parser" where
  "parseAssertStmt =
     here (\<lambda>ln col.
       andThen advance
      (bnd parseExpression (\<lambda>cond.
       bnd (whenMatch COMMA (bnd parseExpression (\<lambda>e. ret (Some e))) (ret None)) (\<lambda>msg.
       finish ln col (\<lambda>n. AssertStmt n cond msg)))))"

definition parseDelStmt :: "Stmt parser" where
  "parseDelStmt =
     here (\<lambda>ln col. andThen advance (bnd parseExpression (\<lambda>target. finish ln col (\<lambda>n. DelStmt n target))))"

definition parseImportStmt :: "Stmt parser" where
  "parseImportStmt =
     here (\<lambda>ln col.
       andThen advance
      (bnd (name IDENTIFIER ''Expected module name'') (\<lambda>m.
       bnd (loop (\<lambda>md. whenMatch DOT
              (bnd (name IDENTIFIER (''Expected module name after '' @ quoted ''.'')) (\<lambda>x. ret (Some (md @ ''.'' @ x))))
              (ret None)) m) (\<lambda>md.
       finish ln col (\<lambda>n. ImportStmt n md)))))"

definition parseFromImportStmt :: "Stmt parser" where
  "parseFromImportStmt =
     here (\<lambda>ln col.
       andThen advance
      (bnd (name IDENTIFIER ''Expected module name'') (\<lambda>md.
       andThen (expect KW_IMPORT (''Expected '' @ quoted ''import'' @ '' after module name''))
      (bnd (commaList (name IDENTIFIER ''Expected import name'')) (\<lambda>names.
       finish ln col (\<lambda>n. FromImportStmt n md names))))))"

text \<open>The nodes of \<^verbatim>\<open>break\<close> and \<^verbatim>\<open>continue\<close> have a start only.\<close>

definition parseBreakStmt :: "Stmt parser" where
  "parseBreakStmt = here (\<lambda>ln col. andThen advance (ret (BreakStmt (node0\<lparr>n_line := ln, n_column := col\<rparr>))))"

definition parseContinueStmt :: "Stmt parser" where
  "parseContinueStmt = here (\<lambda>ln col. andThen advance (ret (ContinueStmt (node0\<lparr>n_line := ln, n_column := col\<rparr>))))"

definition parsePassStmt :: "Stmt parser" where
  "parsePassStmt = here (\<lambda>ln col. andThen advance (finish ln col (\<lambda>n. PassStmt n)))"

definition parseConstDecl :: "Stmt parser" where
  "parseConstDecl =
     here (\<lambda>ln col.
       andThen advance
      (bnd (name IDENTIFIER ''Expected constant name'') (\<lambda>x.
       bnd (whenMatch COLON parseTypeAnnotation (ret [])) (\<lambda>typeAnn.
       andThen (expect ASSIGN (''Expected '' @ quoted ''='' @ '' in const declaration''))
      (bnd parseExpression (\<lambda>v.
       finish ln col (\<lambda>n. ConstStmt n x v typeAnn)))))))"

definition parseDecorated :: "stmtRec \<Rightarrow> Stmt parser" where
  "parseDecorated rec =
     bnd (loop (\<lambda>decorators. whenCheck AT
            (andThen advance
            (bnd parseExpression (\<lambda>e.
             andThen (matchTok NEWLINE) (andThen skipNewlines (ret (Some (decorators @ [e])))))))
            (ret None)) []) (\<lambda>decorators.
     whenCheck KW_DEFINE (parseFuncDef rec decorators)
       (error (''Expected '' @ quoted ''define'' @ '' after decorator(s)'')))"

text \<open>
  The operand of \<^verbatim>\<open>go\<close>: of a call, the callee and the arguments are taken (its type arguments are
  dropped); any other expression is called with no arguments. The statement around has no position.
\<close>

definition goParts :: "Expr \<Rightarrow> Expr \<times> Expr list" where
  "goParts e = (case e of CallExpr _ callee args _ \<Rightarrow> (callee, args) | _ \<Rightarrow> (e, []))"

definition parseGoStmt :: "Stmt parser" where
  "parseGoStmt =
     here (\<lambda>ln col.
       andThen advance
      (bnd parseExpression (\<lambda>e.
       case goParts e of (callee, args) \<Rightarrow>
         finish ln col (\<lambda>n. ExprStmt node0 (GoExpr n callee args)))))"

subsection \<open>Expression statements and assignments\<close>

definition identName :: "Expr \<Rightarrow> string option" where
  "identName e = (case e of Identifier _ x \<Rightarrow> Some x | _ \<Rightarrow> None)"

text \<open>
  \<^verbatim>\<open>x : T = e\<close>. Without the assignment the type annotation is consumed and forgotten, and the statement
  goes on as if it had not been there.
\<close>

definition typedDecl :: "int \<Rightarrow> int \<Rightarrow> Expr \<Rightarrow> Stmt option parser" where
  "typedDecl ln col expr =
    (if identName expr = None then ret None
     else whenMatch COLON
       (bnd parseTypeAnnotation (\<lambda>typeAnn.
          whenMatch ASSIGN
            (bnd parseExpression (\<lambda>v.
             finish ln col (\<lambda>n. Some (AssignStmt n expr v [] typeAnn))))
            (ret None)))
       (ret None))"

definition tupleUnpack :: "int \<Rightarrow> int \<Rightarrow> Expr \<Rightarrow> Stmt parser" where
  "tupleUnpack ln col expr =
    (case identName expr of
       None \<Rightarrow> error ''Expected identifier in unpacking target''
     | Some x \<Rightarrow>
         bnd (commaList (name IDENTIFIER ''Expected identifier in unpacking target'')) (\<lambda>xs.
         andThen (expect ASSIGN (''Expected '' @ quoted ''='' @ '' after unpacking targets''))
        (bnd parseExpression (\<lambda>v.
         finish ln col (\<lambda>n. TupleUnpackStmt n (x # xs) v)))))"

definition augOps :: "(TokenType \<times> BinOp) list" where
  "augOps =
    [(PLUS_EQ, Add), (MINUS_EQ, Sub), (STAR_EQ, Mul), (SLASH_EQ, Div), (DOUBLE_SLASH_EQ, IntDiv),
     (PERCENT_EQ, Mod), (DOUBLE_STAR_EQ, Pow), (AMP_EQ, BitAnd), (PIPE_EQ, BitOr), (CARET_EQ, BitXor),
     (LSHIFT_EQ, Shl), (RSHIFT_EQ, Shr)]"

text \<open>\<^verbatim>\<open>x op= e\<close> becomes \<^verbatim>\<open>x = x op e\<close>, with a copy of the target on the right.\<close>

definition augmented :: "int \<Rightarrow> int \<Rightarrow> Expr \<Rightarrow> BinOp \<Rightarrow> Stmt parser" where
  "augmented ln col expr op =
     bnd parseExpression (\<lambda>rhs.
     finish ln col (\<lambda>n. AssignStmt n expr
       (BinaryExpr (node0\<lparr>n_line := ln, n_column := col\<rparr>) op (cloneExpr expr) rhs) [] []))"

text \<open>\<^verbatim>\<open>a = b = e\<close>: all but the last expression are targets.\<close>

definition chainedAssign :: "int \<Rightarrow> int \<Rightarrow> Expr \<Rightarrow> Stmt parser" where
  "chainedAssign ln col expr =
     bnd parseExpression (\<lambda>v.
     bnd (loop (\<lambda>(extras, v). whenMatch ASSIGN
            (bnd parseExpression (\<lambda>v'. ret (Some (extras @ [v], v'))))
            (ret None)) ([], v)) (\<lambda>(extras, v).
     finish ln col (\<lambda>n. AssignStmt n expr v extras [])))"

definition parseExpressionStatement :: "Stmt parser" where
  "parseExpressionStatement =
     here (\<lambda>ln col.
     bnd parseExpression (\<lambda>expr.
       whenMatch KW_SEND
         (bnd parseExpression (\<lambda>v. finish ln col (\<lambda>n. ChanSendStmt n expr v)))
      (bnd (typedDecl ln col expr) (\<lambda>decl. case decl of
           Some st \<Rightarrow> ret st
         | None \<Rightarrow>
             whenMatch COMMA (tupleUnpack ln col expr)
            (bnd (matchOp augOps) (\<lambda>op. case op of
                 Some op \<Rightarrow> augmented ln col expr op
               | None \<Rightarrow> whenMatch ASSIGN (chainedAssign ln col expr)
                   (finish ln col (\<lambda>n. ExprStmt n expr))))))))"

section \<open>Dispatch\<close>

text \<open>The routine for the type of the token at the start of a statement.\<close>

definition dispatch :: "stmtRec \<Rightarrow> TokenType \<Rightarrow> Stmt parser" where
  "dispatch rec t =
    (case t of
       KW_DEFINE \<Rightarrow> parseFuncDef rec []
     | KW_INIT \<Rightarrow> parseInitDef rec
     | KW_CLASS \<Rightarrow> parseClassDef rec
     | KW_INTERFACE \<Rightarrow> parseInterfaceDef
     | KW_ENUM \<Rightarrow> parseEnumDef
     | KW_YIELD \<Rightarrow> parseYieldStmt
     | KW_GO \<Rightarrow> parseGoStmt
     | KW_IF \<Rightarrow> parseIfStmt rec
     | KW_FOR \<Rightarrow> parseForStmt rec
     | KW_WHILE \<Rightarrow> parseWhileStmt rec
     | KW_RETURN \<Rightarrow> parseReturnStmt
     | KW_TRY \<Rightarrow> parseTryStmt rec
     | KW_THROW \<Rightarrow> parseThrowStmt
     | KW_ASSERT \<Rightarrow> parseAssertStmt
     | KW_DEL \<Rightarrow> parseDelStmt
     | KW_WITH \<Rightarrow> parseWithStmt rec
     | KW_MATCH \<Rightarrow> parseMatchStmt rec
     | KW_IMPORT \<Rightarrow> parseImportStmt
     | KW_FROM \<Rightarrow> parseFromImportStmt
     | KW_BREAK \<Rightarrow> parseBreakStmt
     | KW_CONTINUE \<Rightarrow> parseContinueStmt
     | KW_CONST \<Rightarrow> parseConstDecl
     | AT \<Rightarrow> parseDecorated rec
     | ELLIPSIS \<Rightarrow> parsePassStmt
     | _ \<Rightarrow> parseExpressionStatement)"

definition statementF :: "stmtRec \<Rightarrow> stmtRec" where
  "statementF rec u = andThen skipNewlines (bnd current (\<lambda>c. dispatch rec (tk_type c)))"


section \<open>Monotonicity\<close>

lemma below_parseBlock:
  assumes "\<And>e. below (r e) (r' e)" shows "below (parseBlock r) (parseBlock r')"
  unfolding parseBlock_def blockStep_def by (intro below_intros below_refl assms)

lemma below_bodies:
  assumes "\<And>e. below (r e) (r' e)"
  shows "below (colonBlock r m) (colonBlock r' m)" and "below (elseBlock r m) (elseBlock r' m)"
  unfolding elseBlock_def colonBlock_def by (intro below_intros below_refl below_parseBlock assms)+

lemma below_definitions:
  assumes "\<And>e. below (r e) (r' e)"
  shows "below (parseFuncDef r ds) (parseFuncDef r' ds)" and "below (parseInitDef r) (parseInitDef r')"
    and "below (parseClassDef r) (parseClassDef r')"
  unfolding parseFuncDef_def parseInitDef_def parseClassDef_def
  by (intro below_intros below_refl below_bodies assms)+

lemma below_compound:
  assumes "\<And>e. below (r e) (r' e)"
  shows "below (parseIfStmt r) (parseIfStmt r')" and "below (parseForStmt r) (parseForStmt r')"
    and "below (parseWhileStmt r) (parseWhileStmt r')" and "below (parseTryStmt r) (parseTryStmt r')"
    and "below (parseWithStmt r) (parseWithStmt r')" and "below (parseMatchStmt r) (parseMatchStmt r')"
    and "below (parseDecorated r) (parseDecorated r')"
  unfolding parseIfStmt_def elsifStep_def parseForStmt_def parseWhileStmt_def parseTryStmt_def catchStep_def
    parseWithStmt_def parseMatchStmt_def caseStep_def parseDecorated_def
  by (intro below_intros below_refl below_bodies below_definitions assms)+

lemma below_statementF:
  assumes "\<And>e. below (r e) (r' e)" shows "below (statementF r u) (statementF r' u)"
proof -
  have "below (dispatch r t) (dispatch r' t)" for t
    unfolding dispatch_def by (cases t) (simp_all add: below_refl below_definitions below_compound assms)
  then show ?thesis unfolding statementF_def by (intro below_intros below_refl)
qed

section \<open>The contract\<close>

text \<open>The parts of statements, from the state where they begin.\<close>

lemma safe_statement:
  assumes "callable remaining r s0" and "reach s0 s" and "ps_pos s0 < ps_pos s"
    and "\<And>x s'. reach s0 s' \<Longrightarrow> ps_pos s < ps_pos s' \<Longrightarrow> Q x s'"
  shows "safe s0 (r e) s Q"
  using strict_rec [OF assms(1,2) remaining_less [OF assms(2,3)]] assms(4) by blast

lemma safe_indentedOpen:
  assumes "reach s0 s" and "\<And>x s'. reach s0 s' \<Longrightarrow> ps_pos s < ps_pos s' \<Longrightarrow> Q x s'"
  shows "safe s0 (indentedOpen m m') s Q"
  unfolding indentedOpen_def using assms(1)
  by (intro safe_andThen safe_expect safe_skipNewlines assms(2); simp)

lemma safe_parseBlock:
  assumes "callable remaining r s0" and "reach s0 s"
    and "\<And>x s'. reach s0 s' \<Longrightarrow> ps_pos s < ps_pos s' \<Longrightarrow> Q x s'"
  shows "safe s0 (parseBlock r) s Q"
proof -
  have step: "safe s0 (blockStep r acc) s'
      (\<lambda>x s''. if x = None then ps_pos s' \<le> ps_pos s'' else ps_pos s' < ps_pos s'')"
    if "reach s0 s'" "ps_pos s0 < ps_pos s'" for acc s'
    unfolding blockStep_def using that
    by (intro safe_whenCheck safe_bnd safe_isAtEnd safe_if safe_statement [OF assms(1)] safe_andThen safe_skipNewlines safe_ret; simp)
  have pass: "safe s0 (here (\<lambda>ln col. andThen advance (andThen (matchTok NEWLINE) (ret (f ln col))))) s Q"
    if "tk_type (tok s) \<noteq> END_OF_FILE" for f
    using that assms(2) by (intro safe_here safe_andThen safe_advance safe_matchTok safe_ret assms(3); simp)
  show ?thesis
    unfolding parseBlock_def using assms(2) reach_le [OF assms(2)]
    by (intro safe_whenCheck pass safe_andThen safe_bnd safe_indentedOpen safe_loop step safe_expect safe_ret assms(3); simp)
qed

lemma safe_colonBlock:
  assumes "callable remaining r s0" and "reach s0 s"
    and "\<And>x s'. reach s0 s' \<Longrightarrow> ps_pos s < ps_pos s' \<Longrightarrow> Q x s'"
  shows "safe s0 (colonBlock r m) s Q"
  unfolding colonBlock_def
  by (intro safe_andThen safe_expect safe_parseBlock [OF assms(1)] assms(2,3); simp)

lemma safe_elseBlock:
  assumes "callable remaining r s0" and "reach s0 s"
    and "\<And>x s'. reach s0 s' \<Longrightarrow> ps_pos s \<le> ps_pos s' \<Longrightarrow> Q x s'"
  shows "safe s0 (elseBlock r m) s Q"
  unfolding elseBlock_def
  by (intro safe_whenMatch safe_colonBlock [OF assms(1)] safe_ret assms(2,3); simp)

lemma safe_parseTypeParams:
  assumes "reach s0 s" and "\<And>x s'. reach s0 s' \<Longrightarrow> ps_pos s \<le> ps_pos s' \<Longrightarrow> Q x s'"
  shows "safe s0 parseTypeParams s Q"
proof -
  have item: "safe s0 typeParam s' (\<lambda>_ s''. ps_pos s' < ps_pos s'')" if "reach s0 s'" for s'
    unfolding typeParam_def using that by (intro safe_bnd safe_name safe_whenMatch safe_ret; simp)
  show ?thesis
    unfolding parseTypeParams_def
    by (intro safe_whenMatch safe_bnd safe_commaList item safe_andThen safe_expect safe_ret assms; simp)
qed

lemma safe_optional:
  assumes "reach s0 s" and "\<And>x s'. reach s0 s' \<Longrightarrow> ps_pos s \<le> ps_pos s' \<Longrightarrow> Q x s'"
  shows "safe s0 (whenMatch t parseTypeAnnotation (ret d)) s Q"
  by (intro safe_whenMatch safe_parseTypeAnnotation safe_ret assms; simp)

lemma safe_optionalExpr:
  assumes "reach s0 s" and "\<And>x s'. reach s0 s' \<Longrightarrow> ps_pos s \<le> ps_pos s' \<Longrightarrow> Q x s'"
  shows "safe s0 (whenMatch t (bnd parseExpression (\<lambda>e. ret (Some e))) (ret None)) s Q"
  by (intro safe_whenMatch safe_bnd safe_parseExpression safe_ret assms; simp)

lemma safe_paramStep:
  assumes "reach s0 s" and "\<And>x s'. reach s0 s' \<Longrightarrow> ps_pos s < ps_pos s' \<Longrightarrow> Q x s'"
  shows "safe s0 (paramStep ps v) s Q"
proof -
  have param: "safe s0 paramName s (\<lambda>_ s'. ps_pos s < ps_pos s')"
    unfolding paramName_def by (intro safe_whenMatch safe_bnd safe_name safe_ret assms(1); simp)
  show ?thesis
    unfolding paramStep_def parseParam_def
    by (intro safe_whenMatch safe_whenCheck safe_error safe_bnd safe_weaken [OF param] safe_prod safe_optional
        safe_optionalExpr safe_ret assms; simp)
qed

lemma safe_parseParamList:
  assumes "reach s0 s" and "\<And>x s'. reach s0 s' \<Longrightarrow> ps_pos s < ps_pos s' \<Longrightarrow> Q x s'"
  shows "safe s0 parseParamList s Q"
  unfolding parseParamList_def
  by (intro safe_andThen safe_expect safe_bnd safe_whenCheck safe_paramStep safe_loop safe_prod safe_if safe_whenMatch
      safe_ret assms; simp)

text \<open>A routine entered at a token of its own, which it consumes.\<close>

definition opens :: "Parser \<Rightarrow> 'a parser \<Rightarrow> bool" where
  "opens s0 p \<longleftrightarrow>
     (\<forall>s. reach s0 s \<longrightarrow> tk_type (tok s) \<noteq> END_OF_FILE \<longrightarrow> safe s0 p s (\<lambda>_ s'. ps_pos s < ps_pos s'))"

text \<open>Most routines: note the start, consume the first token, and go on.\<close>

lemma opens_advance:
  assumes "\<And>ln col k s'. reach s0 s' \<Longrightarrow> k < ps_pos s' \<Longrightarrow>
    safe s0 (f ln col) s' (\<lambda>_ s''. k < ps_pos s'')"
  shows "opens s0 (here (\<lambda>ln col. andThen advance (f ln col)))"
  unfolding opens_def
proof (intro allI impI)
  fix s assume s: "reach s0 s" "tk_type (tok s) \<noteq> END_OF_FILE"
  have "safe s0 (andThen advance (f ln col)) s (\<lambda>_ s'. ps_pos s < ps_pos s')" for ln col
    by (rule safe_andThen, rule safe_advance [OF s], rule assms)
  then show "safe s0 (here (\<lambda>ln col. andThen advance (f ln col))) s (\<lambda>_ s'. ps_pos s < ps_pos s')"
    by (rule safe_here [OF s(1)])
qed


lemma safe_opens:
  assumes "opens s0 p" and "reach s0 s" and "tk_type (tok s) \<noteq> END_OF_FILE"
    and "\<And>x s'. reach s0 s' \<Longrightarrow> ps_pos s < ps_pos s' \<Longrightarrow> Q x s'"
  shows "safe s0 p s Q"
  using assms(1-3) unfolding opens_def by (blast intro: safe_weaken assms(4))

lemma safe_externBody:
  assumes "reach s0 s" and "\<And>x s'. reach s0 s' \<Longrightarrow> ps_pos s \<le> ps_pos s' \<Longrightarrow> Q x s'"
  shows "safe s0 externBody s Q"
  unfolding externBody_def
  by (intro safe_whenMatch safe_andThen safe_expect safe_matchTok safe_ret assms; simp)

lemma opens_funcDef:
  assumes r: "callable remaining r s0" shows "opens s0 (parseFuncDef r ds)"
proof (cases "externOf ds")
  case (Pair isExtern lib)
  show ?thesis
    unfolding parseFuncDef_def Pair prod.case
    by (rule opens_advance)
      (intro safe_bnd safe_name safe_parseTypeParams safe_parseParamList safe_prod safe_optional safe_if safe_andThen
        safe_externBody safe_colonBlock [OF r] safe_finish; simp)
qed

lemma opens_initDef: "callable remaining r s0 \<Longrightarrow> opens s0 (parseInitDef r)"
  unfolding parseInitDef_def
  by (rule opens_advance)
    (intro safe_bnd safe_parseParamList safe_prod safe_colonBlock [where r = r] safe_finish; simp)

lemma safe_parseBases:
  assumes "reach s0 s" and "\<And>x s'. reach s0 s' \<Longrightarrow> ps_pos s \<le> ps_pos s' \<Longrightarrow> Q x s'"
  shows "safe s0 parseBases s Q"
proof -
  have list: "safe s0 (bnd baseName (\<lambda>b. bnd (loop (\<lambda>extra. whenMatch COMMA
      (bnd current (\<lambda>c. if tk_type c = RPAREN then ret None else bnd baseName (\<lambda>x. ret (Some (extra @ [x])))))
      (ret None)) []) (\<lambda>extra. ret (Some b, extra)))) s' (\<lambda>_ s''. ps_pos s' \<le> ps_pos s'')"
    if "reach s0 s'" for s'
    unfolding baseName_def using that
    by (intro safe_bnd safe_name safe_loop safe_whenMatch safe_current safe_if safe_ret; simp)
  show ?thesis
    unfolding parseBases_def
  proof (intro safe_whenMatch safe_bnd safe_current safe_if safe_ret safe_andThen assms(1))
    show "safe s0 (commaList baseName) s' (\<lambda>x s'. safe s0 (ret (Some (hd x), tl x)) s' Q)"
      if "reach s0 s'" "ps_pos s < ps_pos s'" for s'
      unfolding baseName_def by (intro safe_commaList safe_name safe_ret that assms(2)) (use that in simp_all)
    show "safe s0 advance s (\<lambda>x s'. safe s0 (bnd current (\<lambda>c.
        bnd (if tk_type c \<noteq> RPAREN then bnd baseName (\<lambda>b. bnd (loop (\<lambda>extra. whenMatch COMMA
            (bnd current (\<lambda>c. if tk_type c = RPAREN then ret None else bnd baseName (\<lambda>x. ret (Some (extra @ [x])))))
            (ret None)) []) (\<lambda>extra. ret (Some b, extra))) else ret (None, []))
          (\<lambda>bases. andThen (expect RPAREN m) (ret bases)))) s' Q)"
      if "tk_type (tok s) = LPAREN" for m
      using that
      by (intro safe_advance assms(1) safe_bnd safe_current safe_if safe_weaken [OF list] safe_andThen safe_expect safe_ret
          assms(2); simp)
  qed (simp_all add: assms)
qed

lemma opens_classDef: "callable remaining r s0 \<Longrightarrow> opens s0 (parseClassDef r)"
  unfolding parseClassDef_def
  by (rule opens_advance)
    (intro safe_bnd safe_name safe_parseTypeParams safe_parseBases safe_prod safe_whenMatch safe_commaList
      safe_colonBlock [where r = r] safe_finish safe_ret; simp)

lemma opens_enumDef: "opens s0 parseEnumDef"
proof -
  have step: "safe s0 (enumStep ms) s (\<lambda>x s'. if x = None then ps_pos s \<le> ps_pos s' else ps_pos s < ps_pos s')"
    if "reach s0 s" for ms s
    unfolding enumStep_def using that
    by (intro safe_whenCheck safe_andThen safe_skipNewlines safe_bnd safe_name safe_ret; simp)
  show ?thesis
    unfolding parseEnumDef_def
    by (rule opens_advance)
      (intro safe_bnd safe_name safe_andThen safe_expect safe_loop step safe_finish; simp)
qed

lemma opens_interfaceDef: "opens s0 parseInterfaceDef"
proof -
  have step: "safe s0 (methodStep ms) s (\<lambda>x s'. if x = None then ps_pos s \<le> ps_pos s' else ps_pos s < ps_pos s')"
    if "reach s0 s" for ms s
    unfolding methodStep_def using that
    by (intro safe_whenCheck safe_bnd safe_isAtEnd safe_if safe_andThen safe_expect safe_name safe_parseParamList
        safe_prod safe_optional safe_matchTok safe_skipNewlines safe_ret; simp)
  show ?thesis
    unfolding parseInterfaceDef_def
    by (rule opens_advance)
      (intro safe_bnd safe_name safe_andThen safe_expect safe_indentedOpen safe_loop step safe_finish; simp)
qed


text \<open>Compound statements.\<close>

lemma opens_ifStmt:
  assumes r: "callable remaining r s0" shows "opens s0 (parseIfStmt r)"
proof -
  have step: "safe s0 (elsifStep r es) s (\<lambda>x s'. if x = None then ps_pos s \<le> ps_pos s' else ps_pos s < ps_pos s')"
    if "reach s0 s" for es s
    unfolding elsifStep_def using that
    by (intro safe_whenCheck safe_andThen safe_advance safe_bnd safe_parseExpression safe_colonBlock [OF r]
        safe_skipNewlines safe_ret; simp)
  show ?thesis
    unfolding parseIfStmt_def
    by (rule opens_advance)
      (intro safe_bnd safe_parseExpression safe_colonBlock [OF r] safe_andThen safe_skipNewlines safe_loop step
        safe_elseBlock [OF r] safe_finish; simp)
qed

lemma opens_forStmt: "callable remaining r s0 \<Longrightarrow> opens s0 (parseForStmt r)"
  unfolding parseForStmt_def
  by (rule opens_advance)
    (intro safe_bnd safe_name safe_loop safe_whenMatch safe_andThen safe_expect safe_parseExpression
      safe_colonBlock [where r = r] safe_elseBlock [where r = r] safe_finish safe_ret; simp)

lemma opens_whileStmt: "callable remaining r s0 \<Longrightarrow> opens s0 (parseWhileStmt r)"
  unfolding parseWhileStmt_def
  by (rule opens_advance)
    (intro safe_bnd safe_parseExpression safe_colonBlock [where r = r] safe_elseBlock [where r = r] safe_finish; simp)

lemma safe_catchVar:
  assumes "reach s0 s" and "\<And>x s'. reach s0 s' \<Longrightarrow> ps_pos s \<le> ps_pos s' \<Longrightarrow> Q x s'"
  shows "safe s0 catchVar s Q"
proof -
  have isAs: "safe s0 (if k then ret True else whenCheck IDENTIFIER (bnd current (\<lambda>c. ret (f c))) (ret False)) s
      (\<lambda>x s'. s' = s \<and> (x \<longrightarrow> tk_type (tok s) \<noteq> END_OF_FILE))"
    if "k \<Longrightarrow> tk_type (tok s) \<noteq> END_OF_FILE" for k f
    using that assms(1) by (intro safe_if safe_ret safe_whenCheck safe_bnd safe_current; simp)
  have rest: "safe s0 (bnd (if k then ret True else whenCheck IDENTIFIER (bnd current (\<lambda>c. ret (f c))) (ret False))
      (\<lambda>b. if b then andThen advance (name IDENTIFIER m) else ret [])) s Q"
    if "k \<Longrightarrow> tk_type (tok s) \<noteq> END_OF_FILE" for k f m
    using that assms(1)
    by (intro safe_bnd safe_weaken [OF isAs] safe_if safe_andThen safe_advance safe_name safe_ret; simp add: assms(2))
  show ?thesis
    unfolding catchVar_def using assms(1) by (intro safe_bnd safe_check rest; simp)
qed

lemma opens_tryStmt:
  assumes r: "callable remaining r s0" shows "opens s0 (parseTryStmt r)"
proof -
  have step: "safe s0 (catchStep r cs) s (\<lambda>x s'. if x = None then ps_pos s \<le> ps_pos s' else ps_pos s < ps_pos s')"
    if "reach s0 s" for cs s
    unfolding catchStep_def using that
    by (intro safe_whenCheck safe_andThen safe_advance safe_bnd safe_catchVar safe_prod safe_colonBlock [OF r]
        safe_skipNewlines safe_ret; simp)
  show ?thesis
    unfolding parseTryStmt_def
    by (rule opens_advance)
      (intro safe_bnd safe_colonBlock [OF r] safe_andThen safe_skipNewlines safe_loop step safe_whenMatch
        safe_finish safe_ret; simp)
qed

lemma opens_withStmt: "callable remaining r s0 \<Longrightarrow> opens s0 (parseWithStmt r)"
  unfolding parseWithStmt_def
  by (rule opens_advance)
    (intro safe_bnd safe_parseExpression safe_whenCheck safe_andThen safe_advance safe_name
      safe_colonBlock [where r = r] safe_finish safe_ret; simp)

lemma safe_casePattern:
  assumes "reach s0 s" and "\<And>x s'. reach s0 s' \<Longrightarrow> ps_pos s < ps_pos s' \<Longrightarrow> Q x s'"
  shows "safe s0 casePattern s Q"
proof -
  have wild: "safe s0 (whenCheck IDENTIFIER (bnd current (\<lambda>c. ret (tk_lexeme c = ''_''))) (ret False)) s
      (\<lambda>x s'. s' = s \<and> (x \<longrightarrow> tk_type (tok s) \<noteq> END_OF_FILE))"
    using assms(1) by (intro safe_ret safe_whenCheck safe_bnd safe_current; simp)
  show ?thesis
    unfolding casePattern_def
    by (intro safe_bnd safe_weaken [OF wild] safe_if safe_andThen safe_advance safe_parsePattern safe_ret;
        simp add: assms)
qed

lemma opens_matchStmt:
  assumes r: "callable remaining r s0" shows "opens s0 (parseMatchStmt r)"
proof -
  have step: "safe s0 (caseStep r cs) s (\<lambda>x s'. if x = None then ps_pos s \<le> ps_pos s' else ps_pos s < ps_pos s')"
    if "reach s0 s" for cs s
    unfolding caseStep_def using that
    by (intro safe_whenCheck safe_bnd safe_isAtEnd safe_if safe_andThen safe_expect safe_casePattern safe_optionalExpr
        safe_colonBlock [OF r] safe_skipNewlines safe_ret; simp)
  show ?thesis
    unfolding parseMatchStmt_def
    by (rule opens_advance)
      (intro safe_bnd safe_parseExpression safe_andThen safe_expect safe_indentedOpen safe_loop step safe_finish; simp)
qed

text \<open>Simple statements.\<close>

lemma safe_optionalOperand:
  assumes "reach s0 s" and "\<And>x s'. reach s0 s' \<Longrightarrow> ps_pos s \<le> ps_pos s' \<Longrightarrow> Q x s'"
  shows "safe s0 optionalOperand s Q"
  unfolding optionalOperand_def
  by (intro safe_whenCheck safe_bnd safe_parseExpression safe_ret assms; simp)

lemma opens_simple:
  "opens s0 parseReturnStmt" "opens s0 parseYieldStmt" "opens s0 parseThrowStmt" "opens s0 parseAssertStmt"
  "opens s0 parseDelStmt" "opens s0 parseImportStmt" "opens s0 parseFromImportStmt" "opens s0 parseBreakStmt"
  "opens s0 parseContinueStmt" "opens s0 parsePassStmt" "opens s0 parseConstDecl" "opens s0 parseGoStmt"
  unfolding parseReturnStmt_def parseYieldStmt_def parseThrowStmt_def parseAssertStmt_def parseDelStmt_def
    parseImportStmt_def parseFromImportStmt_def parseBreakStmt_def parseContinueStmt_def parsePassStmt_def
    parseConstDecl_def parseGoStmt_def
  by (rule opens_advance;
      intro safe_bnd safe_optionalOperand safe_current safe_if safe_parseExpression safe_optionalExpr safe_name
        safe_loop safe_whenMatch safe_andThen safe_expect safe_commaList safe_optional safe_prod safe_finish safe_ret;
      simp)+

lemma safe_typedDecl:
  assumes "reach s0 s" and "0 < ps_pos s" and "\<And>x s'. reach s0 s' \<Longrightarrow> ps_pos s \<le> ps_pos s' \<Longrightarrow> Q x s'"
  shows "safe s0 (typedDecl ln col e) s Q"
  unfolding typedDecl_def using assms(2)
  by (intro safe_if safe_whenMatch safe_bnd safe_parseTypeAnnotation safe_parseExpression safe_finish safe_ret assms(1,3);
      simp)

lemma safe_assignments:
  assumes "reach s0 s" and "\<And>x s'. reach s0 s' \<Longrightarrow> ps_pos s < ps_pos s' \<Longrightarrow> Q x s'"
  shows "safe s0 (tupleUnpack ln col e) s Q" and "safe s0 (augmented ln col e op) s Q"
    and "safe s0 (chainedAssign ln col e) s Q"
  unfolding tupleUnpack_def augmented_def chainedAssign_def
  by (intro safe_option safe_error safe_bnd safe_commaList safe_name safe_andThen safe_expect safe_parseExpression
      safe_loop safe_prod safe_whenMatch safe_finish safe_ret assms; simp)+

lemma consumes_expressionStatement: "consumes s0 parseExpressionStatement"
  unfolding consumes_def parseExpressionStatement_def
  by (intro allI impI safe_here safe_bnd safe_parseExpression safe_whenMatch safe_typedDecl safe_option safe_assignments
      safe_matchOp safe_finish safe_ret; simp)

lemma opens_decorated:
  assumes r: "callable remaining r s0" and "reach s0 s" and "tk_type (tok s) = AT"
  shows "safe s0 (parseDecorated r) s (\<lambda>_ s'. ps_pos s < ps_pos s')"
  unfolding parseDecorated_def using assms(2)
  by (intro safe_bnd safe_loop safe_whenCheck safe_andThen safe_advance safe_parseExpression safe_matchTok
      safe_skipNewlines safe_opens [OF opens_funcDef [OF r]] safe_error safe_ret; simp)

lemma strict_statementF:
  assumes "wf s" and r: "callable remaining r s" shows "strict (statementF r u) s"
proof -
  note family = opens_simple opens_interfaceDef opens_enumDef opens_funcDef [OF r] opens_initDef [OF r]
    opens_classDef [OF r] opens_ifStmt [OF r] opens_forStmt [OF r] opens_whileStmt [OF r] opens_tryStmt [OF r]
    opens_withStmt [OF r] opens_matchStmt [OF r]
  have "safe s (dispatch r (tk_type (tok s'))) s' (\<lambda>_ s''. ps_pos s' < ps_pos s'')" if "reach s s'" for s'
    unfolding dispatch_def using that
    by (cases "tk_type (tok s')")
      (auto intro: family [THEN safe_opens, OF that] opens_decorated [OF r that]
        safe_consumes [OF consumes_expressionStatement that])
  note go = safe_weaken [OF this]
  show ?thesis
    unfolding strict_def statementF_def
    by (intro safe_andThen safe_skipNewlines reach_refl assms(1) safe_bnd safe_current go; simp)
qed

interpretation stmts: recursive remaining statementF
  by unfold_locales (simp_all add: remaining_le remaining_less below_statementF strict_statementF)

definition parseStatement :: "Stmt parser" where
  "parseStatement = run remaining statementF ()"

lemma safe_parseStatement:
  assumes "reach s0 s" and "\<And>x s'. reach s0 s' \<Longrightarrow> ps_pos s < ps_pos s' \<Longrightarrow> Q x s'"
  shows "safe s0 parseStatement s Q"
  unfolding parseStatement_def using assms by (rule stmts.safe_run)

lemma parseStatement_unfold:
  "wf s \<Longrightarrow> parseStatement s = statementF (\<lambda>_. parseStatement) () s"
  using stmts.run_unfold [of s "()"] by (simp add: parseStatement_def)

end
