(* ===== verification/Parser_Top.thy ===== *)
theory Parser_Top
  imports Parser_Stmt
begin

text \<open>
  \<^verbatim>\<open>Parser::parse\<close>: the statements of a file, with recovery at the next line after an error, and what the
  parser as a whole guarantees.
\<close>

section \<open>The top level\<close>

text \<open>\<^verbatim>\<open>catch (const ParseError&)\<close>: other exceptions pass through.\<close>

definition catchParse :: "'a parser \<Rightarrow> (Diagnostic \<Rightarrow> 'a parser) \<Rightarrow> 'a parser" where
  "catchParse p h s = (case p s of (Inl (ParseError d), s') \<Rightarrow> h d s' | r \<Rightarrow> r)"

text \<open>The end of the last token, at least one column wide: the range of a node with no end of its own.\<close>

definition tokenEnd :: "Token \<Rightarrow> int" where
  "tokenEnd p = tk_column p + max 1 (int (length (tk_lexeme p)))"

definition pinEnd :: "Stmt \<Rightarrow> Stmt parser" where
  "pinEnd stmt =
    (if n_endLine (stmtNode stmt) = 0 then
       bnd previous (\<lambda>p.
         ret (setStmtNode ((stmtNode stmt)\<lparr>n_endLine := tk_line p, n_endCol := tokenEnd p\<rparr>) stmt))
     else ret stmt)"

definition parseItem :: "Stmt list \<times> Diagnostic list \<Rightarrow> (Stmt list \<times> Diagnostic list) option parser" where
  "parseItem acc =
    (case acc of (stmts, errors) \<Rightarrow>
       bnd isAtEnd (\<lambda>e. if e then ret None else
         bnd (catchParse
                (bnd parseStatement (\<lambda>st. bnd (pinEnd st) (\<lambda>st. ret (stmts @ [st], errors))))
                (\<lambda>d. andThen synchronize (ret (stmts, errors @ [d])))) (\<lambda>acc.
         andThen skipNewlines (ret (Some acc)))))"

text \<open>The statements and the errors of a whole file; the errors are what \<^verbatim>\<open>errors()\<close> returns afterwards.\<close>

definition parseItems :: "(Stmt list \<times> Diagnostic list) parser" where
  "parseItems = andThen skipNewlines (loop parseItem ([], []))"

definition parse :: "Program parser" where
  "parse =
     bnd parseItems (\<lambda>(stmts, errors).
       if errors \<noteq> [] then raise (ParseError (hd errors))
       else bnd getPos (\<lambda>k.
         if 0 < k then
           bnd previous (\<lambda>p.
             ret (Program (if 0 < tk_line p then node0\<lparr>n_endLine := tk_line p, n_endCol := tokenEnd p\<rparr> else node0) stmts))
         else ret (Program node0 stmts)))"

definition mkParser :: "Token list \<Rightarrow> string \<Rightarrow> Parser" where
  "mkParser tokens filename = \<lparr>ps_tokens = tokens, ps_filename = filename, ps_pos = 0\<rparr>"

text \<open>From the text to the tree, as the driver and the language server do it.\<close>

definition parseSource :: "string \<Rightarrow> string \<Rightarrow> exn + Program" where
  "parseSource source filename =
    (case lexSource source filename of
       Thrown e \<Rightarrow> Inl (LexErr e)
     | AssertionFailed \<Rightarrow> Inl (Undefined AssertFailed)
     | Tokens ts \<Rightarrow> fst (parse (mkParser ts filename)))"

section \<open>The contract of the top level\<close>

text \<open>
  Recovery makes progress: an error that consumed nothing leaves the parser before the end, where
  \<^verbatim>\<open>synchronize\<close> skips a token.
\<close>

lemma synchronize_progress:
  assumes "reach s0 s" and "tk_type (tok s) \<noteq> END_OF_FILE"
  shows "safe s0 synchronize s (\<lambda>_ s'. ps_pos s < ps_pos s')"
proof -
  define step where "step = (\<lambda>done. if done then ret None else
      bnd isAtEnd (\<lambda>e. if e then ret None else
      bnd current (\<lambda>c. if tk_type c = NEWLINE \<or> tk_type c = DEDENT
        then andThen advance (ret (Some True)) else andThen advance (ret (Some False)))))"
  have step: "safe s0 (step acc) s' (\<lambda>r s''. if r = None then ps_pos s' \<le> ps_pos s'' else ps_pos s' < ps_pos s'')"
    if "reach s0 s'" for acc s'
    unfolding step_def using that
    by (intro safe_if safe_bnd safe_isAtEnd safe_current safe_andThen safe_advance safe_ret; simp)
  have first: "safe s0 (step False) s (\<lambda>r s'. r \<noteq> None \<and> ps_pos s < ps_pos s')"
    unfolding step_def using assms
    by (intro safe_if safe_bnd safe_isAtEnd safe_current safe_andThen safe_advance safe_ret; simp)
  have rest: "safe s0 (case r of None \<Rightarrow> ret False | Some acc \<Rightarrow> whileP (length (ps_tokens s) - ps_pos s) step acc) s'
      (\<lambda>_ s''. ps_pos s < ps_pos s'')" if "reach s0 s'" "r \<noteq> None \<and> ps_pos s < ps_pos s'" for r s'
  proof -
    have len: "length (ps_tokens s') - ps_pos s' < length (ps_tokens s) - ps_pos s"
      using that reach_bound [OF that(1)] assms(1) by (auto simp: reach_def)
    have "safe s0 (whileP (length (ps_tokens s) - ps_pos s) step acc) s' (\<lambda>_ s''. ps_pos s' \<le> ps_pos s'' \<and> True)" for acc
      by (rule safe_whileP [where I = "\<lambda>_ _. True" and P = "\<lambda>_ _. True", OF that(1) len TrueI])
        (auto intro: safe_weaken [OF step] split: option.splits)
    note this [THEN safe_weaken]
    then show ?thesis using that(2) by auto
  qed
  then have "safe s0 (whileP (Suc (length (ps_tokens s) - ps_pos s)) step False) s (\<lambda>_ s''. ps_pos s < ps_pos s'')"
    unfolding whileP.simps by (intro safe_bnd safe_weaken [OF first]) simp_all
  then have "safe s0 (loop step False) s (\<lambda>_ s''. ps_pos s < ps_pos s'')"
    by (simp only: safe_def loop_def)
  then show ?thesis
    unfolding synchronize_def step_def by (intro safe_bnd) (auto intro: safe_ret elim!: safe_weaken)
qed

text \<open>
  What holds between the statements of a file: nothing is pending, the statements all have an end, and
  every error has been recorded.
\<close>

definition ended :: "Stmt \<Rightarrow> bool" where
  "ended st \<longleftrightarrow> n_endLine (stmtNode st) \<noteq> 0"

definition lined :: "Token list \<Rightarrow> bool" where
  "lined ts \<longleftrightarrow> list_all (\<lambda>t. 1 \<le> tk_line t) ts"

lemma safe_catchParse:
  assumes "safe s0 p s Q" and "\<And>d s'. reach s0 s' \<Longrightarrow> p s = (Inl (ParseError d), s') \<Longrightarrow> safe s0 (h d) s' Q"
  shows "safe s0 (catchParse p h) s Q"
  using assms unfolding safe_def catchParse_def by (auto split: prod.splits sum.splits exn.splits)


lemma lined_reach: "reach s0 s \<Longrightarrow> lined (ps_tokens s) \<longleftrightarrow> lined (ps_tokens s0)"
  by (simp add: reach_def)

lemma safe_pinEnd:
  assumes "reach s0 s" and "0 < ps_pos s"
  shows "safe s0 (pinEnd st) s (\<lambda>st s'. s' = s \<and> (lined (ps_tokens s0) \<longrightarrow> ended st))"
  unfolding pinEnd_def
  by (intro safe_if safe_bnd safe_previous safe_ret assms)
    (use lined_reach [OF assms(1)] in \<open>auto simp: ended_def lined_def list_all_iff\<close>)

definition between :: "Parser \<Rightarrow> Stmt list \<times> Diagnostic list \<Rightarrow> bool" where
  "between s0 acc \<longleftrightarrow> lined (ps_tokens s0) \<longrightarrow> list_all ended (fst acc)"

lemma safe_parseItem:
  assumes "reach s0 s" and "between s0 acc"
  shows "safe s0 (parseItem acc) s (\<lambda>r s'. case r of
      None \<Rightarrow> ps_pos s \<le> ps_pos s' \<and> between s0 acc \<and> tk_type (tok s') = END_OF_FILE
    | Some acc \<Rightarrow> ps_pos s < ps_pos s' \<and> between s0 acc)"
proof (cases acc)
  case (Pair stmts errors)
  let ?p = "bnd parseStatement (\<lambda>st. bnd (pinEnd st) (\<lambda>st. ret (stmts @ [st], errors)))"
  let ?h = "\<lambda>d. andThen synchronize (ret (stmts, errors @ [d]))"
  have ok: "safe s0 ?p s (\<lambda>acc s'. ps_pos s < ps_pos s' \<and> between s0 acc)"
    using assms Pair
    by (intro safe_bnd safe_parseStatement safe_weaken [OF safe_pinEnd] safe_ret) (auto simp: between_def)
  have recover: "safe s0 (?h d) s' (\<lambda>acc s'. ps_pos s < ps_pos s' \<and> between s0 acc)"
    if e: "tk_type (tok s) \<noteq> END_OF_FILE" and s': "reach s0 s'" "?p s = (Inl x, s')" for d x s'
  proof (cases "ps_pos s < ps_pos s'")
    case True
    then show ?thesis
      using assms(2) Pair by (intro safe_andThen safe_synchronize s'(1) safe_ret) (auto simp: between_def)
  next
    case False
    have "safe s ?p s (\<lambda>_ _. True)"
      by (intro safe_bnd safe_parseStatement safe_weaken [OF safe_pinEnd] safe_ret reach_refl reach_wf [OF assms(1)]) simp_all
    then have "reach s s'" using s'(2) by (simp add: safe_def)
    then have "tok s' = tok s" using False by (auto simp: reach_def tok_def)
    then show ?thesis
      using \<open>reach s s'\<close> e assms(2) Pair
      by (intro safe_andThen safe_weaken [OF synchronize_progress] s'(1) safe_ret) (auto simp: between_def reach_def)
  qed
  have item: "safe s0 (catchParse ?p ?h) s (\<lambda>acc s'. ps_pos s < ps_pos s' \<and> between s0 acc)"
    if "tk_type (tok s) \<noteq> END_OF_FILE"
    using ok recover [OF that] by (rule safe_catchParse)
  show ?thesis
    unfolding parseItem_def Pair prod.case using assms Pair
    by (intro safe_bnd safe_isAtEnd safe_if safe_weaken [OF item] safe_andThen safe_skipNewlines safe_ret) simp_all
qed

lemma safe_parseItems:
  assumes "reach s0 s"
    and "\<And>acc s'. reach s0 s' \<Longrightarrow> between s0 acc \<Longrightarrow> tk_type (tok s') = END_OF_FILE \<Longrightarrow> Q acc s'"
  shows "safe s0 parseItems s Q"
  unfolding parseItems_def
  by (intro safe_andThen safe_skipNewlines assms(1)
      safe_loop_inv [where I = "\<lambda>acc _. between s0 acc" and P = "\<lambda>acc s'. between s0 acc \<and> tk_type (tok s') = END_OF_FILE"]
      safe_parseItem)
    (auto simp: between_def intro: assms(2))

lemma safe_parse:
  assumes "reach s0 s"
    and "\<And>p s'. reach s0 s' \<Longrightarrow> lined (ps_tokens s0) \<longrightarrow> list_all ended (pr_statements p) \<Longrightarrow>
      tk_type (tok s') = END_OF_FILE \<Longrightarrow> Q p s'"
  shows "safe s0 parse s Q"
  unfolding parse_def
  by (intro safe_bnd safe_parseItems assms(1) safe_prod safe_if safe_raise safe_getPos safe_previous safe_ret assms(2))
    (simp_all add: benign_def between_def)

lemma lexSource_lined:
  assumes "lexSource src f = Tokens ts" shows "lined ts"
proof -
  from assms obtain l ts0 where s: "streamInv (normalizeIndentation src) l ts0" "ts = closeStream l ts0"
    by (rule lexSource_TokensE)
  then have "list_all (placed (normalizeIndentation src)) ts" by (simp add: closeStream_sel)
  then show ?thesis
    unfolding lined_def by (rule list.pred_mono_strong) (auto simp: placed_def coords_def lineAt_def tokPos_def)
qed

lemma lexSource_wf: "lexSource src f = Tokens ts \<Longrightarrow> wf (mkParser ts f)"
  using lexSource_tokens(1) [of src f ts] by (auto simp: wf_def mkParser_def tokens_ok_def)

end
