(* ===== verification/Parser_Props.thy ===== *)
theory Parser_Props
  imports Parser_Top
begin

text \<open>
  Properties of the parser: it always ends and reads the whole file, its fuel is invisible, and the
  desugarings it performs mean what they should.
\<close>

section \<open>Evaluation\<close>

text \<open>
  The equations that evaluate the parser on concrete tokens. A routine is unfolded only where it is
  applied to a state.
\<close>

lemmas parser_full =
    ret_def raise_def bnd_def getPos_def setPos_def loop_def tokenAt_def Parser_Core.errorAt_def run_def
    remaining_def splitSign_def stoll_def exponentPart_def decimalPrefix_def overflows_def underflows_def stod_def
    orFail_def fstringEscape_def flushLiteral_def subParse_def quoted_def compOps_def nextIs_def compareChain_def
    exprNeed_def boundsOf_def externStep_def externOf_def goParts_def identName_def augOps_def
    catchParse_def tokenEnd_def mkParser_def parseSource_def knot.simps fstringParts.simps

lemmas parser_app = exprRun_def [THEN fun_cong]
    andThen_def [THEN fun_cong] current_def [THEN fun_cong] Parser_Core.isAtEnd_def [THEN fun_cong]
    lastConsumed_def [THEN fun_cong] previous_def [THEN fun_cong] Parser_Core.advance_def [THEN fun_cong]
    check_def [THEN fun_cong] matchTok_def [THEN fun_cong] Parser_Core.error_def [THEN fun_cong]
    expect_def [THEN fun_cong] skipNewlines_def [THEN fun_cong] synchronize_def [THEN fun_cong]
    whenMatch_def [THEN fun_cong] whenCheck_def [THEN fun_cong] name_def [THEN fun_cong]
    commaList_def [THEN fun_cong] here_def [THEN fun_cong] finish_def [THEN fun_cong] typeList_def [THEN fun_cong]
    functionType_def [THEN fun_cong] baseType_def [THEN fun_cong] plainType_def [THEN fun_cong]
    typeF_def [THEN fun_cong] parseTypeAnnotation_def [THEN fun_cong] fstringContent_def [THEN fun_cong]
    parseIntLiteral_def [THEN fun_cong] parseFloatLiteral_def [THEN fun_cong] parseFString_def [THEN fun_cong]
    parseParen_def [THEN fun_cong] parseComprehension_def [THEN fun_cong] trailingList_def [THEN fun_cong]
    parseList_def [THEN fun_cong] parseEntry_def [THEN fun_cong] parseDict_def [THEN fun_cong]
    parsePrimary_def [THEN fun_cong] parseArgs_def [THEN fun_cong] typeArgsStep_def [THEN fun_cong]
    parseTypeArgs_def [THEN fun_cong] optExpr_def [THEN fun_cong] parseSlice_def [THEN fun_cong]
    parseIndex_def [THEN fun_cong] postfixStep_def [THEN fun_cong] parsePostfix_def [THEN fun_cong]
    parsePower_def [THEN fun_cong] parseUnary_def [THEN fun_cong] leftAssoc_def [THEN fun_cong]
    binary_def [THEN fun_cong] parseMulDiv_def [THEN fun_cong] parseAddSub_def [THEN fun_cong]
    tryMatchCompOp_def [THEN fun_cong] parseComparison_def [THEN fun_cong] parseShift_def [THEN fun_cong]
    parseBitAnd_def [THEN fun_cong] parseBitXor_def [THEN fun_cong] parseBitOr_def [THEN fun_cong]
    parseNot_def [THEN fun_cong] parseAnd_def [THEN fun_cong] parseOr_def [THEN fun_cong]
    parseNullCoalesce_def [THEN fun_cong] derefMoved_def [THEN fun_cong] parseTernary_def [THEN fun_cong]
    parseExpressionF_def [THEN fun_cong] exprF_def [THEN fun_cong] parseExpression_def [THEN fun_cong]
    parsePattern_def [THEN fun_cong] blockStep_def [THEN fun_cong] indentedOpen_def [THEN fun_cong]
    parseBlock_def [THEN fun_cong] colonBlock_def [THEN fun_cong] elseBlock_def [THEN fun_cong]
    typeParam_def [THEN fun_cong] parseTypeParams_def [THEN fun_cong] paramName_def [THEN fun_cong]
    parseParam_def [THEN fun_cong] paramStep_def [THEN fun_cong] parseParamList_def [THEN fun_cong]
    externBody_def [THEN fun_cong] parseFuncDef_def [THEN fun_cong] parseInitDef_def [THEN fun_cong]
    baseName_def [THEN fun_cong] parseBases_def [THEN fun_cong] parseClassDef_def [THEN fun_cong]
    enumStep_def [THEN fun_cong] parseEnumDef_def [THEN fun_cong] methodStep_def [THEN fun_cong]
    parseInterfaceDef_def [THEN fun_cong] elsifStep_def [THEN fun_cong] parseIfStmt_def [THEN fun_cong]
    parseForStmt_def [THEN fun_cong] parseWhileStmt_def [THEN fun_cong] catchVar_def [THEN fun_cong]
    catchStep_def [THEN fun_cong] parseTryStmt_def [THEN fun_cong] parseWithStmt_def [THEN fun_cong]
    casePattern_def [THEN fun_cong] caseStep_def [THEN fun_cong] parseMatchStmt_def [THEN fun_cong]
    optionalOperand_def [THEN fun_cong] parseReturnStmt_def [THEN fun_cong] parseYieldStmt_def [THEN fun_cong]
    parseThrowStmt_def [THEN fun_cong] parseAssertStmt_def [THEN fun_cong] parseDelStmt_def [THEN fun_cong]
    parseImportStmt_def [THEN fun_cong] parseFromImportStmt_def [THEN fun_cong] parseBreakStmt_def [THEN fun_cong]
    parseContinueStmt_def [THEN fun_cong] parsePassStmt_def [THEN fun_cong] parseConstDecl_def [THEN fun_cong]
    parseDecorated_def [THEN fun_cong] parseGoStmt_def [THEN fun_cong] typedDecl_def [THEN fun_cong]
    tupleUnpack_def [THEN fun_cong] augmented_def [THEN fun_cong] chainedAssign_def [THEN fun_cong]
    parseExpressionStatement_def [THEN fun_cong] dispatch_def [THEN fun_cong] statementF_def [THEN fun_cong]
    parseStatement_def [THEN fun_cong] pinEnd_def [THEN fun_cong] parseItem_def [THEN fun_cong]
    parseItems_def [THEN fun_cong] parse_def [THEN fun_cong]

lemmas parser_eval = parser_full parser_app decimalValue_def char_class_defs

section \<open>Properties\<close>

lemma parseSource_ends:
  "case parseSource src f of Inr p \<Rightarrow> list_all ended (pr_statements p) | Inl e \<Rightarrow> benign e"
proof (cases "lexSource src f")
  case (Tokens ts)
  note w = lexSource_wf [OF Tokens] and lined = lexSource_lined [OF Tokens]
  have "safe (mkParser ts f) parse (mkParser ts f) (\<lambda>p _. list_all ended (pr_statements p))"
    using lined by (intro safe_parse reach_refl w) (simp add: mkParser_def)
  then show ?thesis
    by (auto simp: parseSource_def Tokens safe_def split: prod.splits sum.splits)
qed (use lexSource_cases [of src f] in \<open>auto simp: parseSource_def benign_def\<close>)


text \<open>
  C7. A program is returned only when the parser has reached the end of the token vector: nothing of a
  file is left out.
\<close>

theorem parse_reaches_end:
  assumes "lexSource src f = Tokens ts" and "parse (mkParser ts f) = (Inr p, s)"
  shows "ps_tokens s = ts \<and> ps_pos s < length ts \<and> tk_type (ts ! ps_pos s) = END_OF_FILE"
proof -
  have "safe (mkParser ts f) parse (mkParser ts f) (\<lambda>_ s. tk_type (tok s) = END_OF_FILE)"
    by (intro safe_parse reach_refl lexSource_wf [OF assms(1)])
  then show ?thesis using assms(2) reach_bound by (auto simp: safe_def reach_def mkParser_def tok_def wf_def)
qed


definition exampleTokens :: "Token list" where
  "exampleTokens =
    [makeToken IDENTIFIER ''x'' 1 1, makeToken ASSIGN ''='' 1 3, makeToken IDENTIFIER ''y'' 1 5,
     makeToken NEWLINE [BACKSLASH, CHR ''n''] 1 6, makeToken END_OF_FILE [] 2 1]"

lemma lex_example: "lexSource (''x = y'' @ [LF]) ''m.vsl'' = Tokens exampleTokens"
  by (simp add: lexer_eval exampleTokens_def)

text \<open>The tokens by index: the vector itself stays folded during the evaluation.\<close>

lemma exampleTokens_nth:
  "length exampleTokens = Suc (Suc (Suc (Suc (Suc 0))))"
  "exampleTokens ! 0 = makeToken IDENTIFIER ''x'' 1 1"
  "exampleTokens ! Suc 0 = makeToken ASSIGN ''='' 1 3"
  "exampleTokens ! Suc (Suc 0) = makeToken IDENTIFIER ''y'' 1 5"
  "exampleTokens ! Suc (Suc (Suc 0)) = makeToken NEWLINE [BACKSLASH, CHR ''n''] 1 6"
  "exampleTokens ! Suc (Suc (Suc (Suc 0))) = makeToken END_OF_FILE [] 2 1"
  "maxF exampleTokens = 0"
  "exampleTokens \<noteq> []"
  by (simp_all add: exampleTokens_def maxF_def)

lemma parse_example:
  "parse (mkParser exampleTokens ''m.vsl'') =
     (Inr (Program (node0\<lparr>n_endLine := 1, n_endCol := 8\<rparr>)
        [AssignStmt \<lparr>n_line = 1, n_column = 1, n_endLine = 1, n_endCol = 5\<rparr>
           (Identifier \<lparr>n_line = 1, n_column = 1, n_endLine = 1, n_endCol = 1\<rparr> ''x'')
           (Identifier \<lparr>n_line = 1, n_column = 5, n_endLine = 1, n_endCol = 5\<rparr> ''y'') [] []]),
      \<lparr>ps_tokens = exampleTokens, ps_filename = ''m.vsl'', ps_pos = 4\<rparr>)"
  by (simp add: parser_eval exampleTokens_nth)

lemma parse_reaches_end_witness: "tk_type (exampleTokens ! 4) = END_OF_FILE"
  using parse_reaches_end [OF lex_example parse_example] by simp

text \<open>
  The fuel and the bounds on loops are invisible: on a well-formed state the routines satisfy the
  recursion equations of the source, with the recursive calls being the routines themselves.
\<close>

theorem parser_equations:
  assumes "wf s"
  shows "parseStatement s = statementF (\<lambda>_. parseStatement) () s \<and>
    exprRun e s = exprF exprRun e s \<and>
    parseTypeAnnotation s = typeF (\<lambda>_. parseTypeAnnotation) () s"
  using assms parseStatement_unfold exprRun_unfold parseTypeAnnotation_unfold by simp

lemma parser_equations_witness:
  "parseStatement (mkParser exampleTokens ''m.vsl'') = statementF (\<lambda>_. parseStatement) () (mkParser exampleTokens ''m.vsl'')"
  using parser_equations [of "mkParser exampleTokens ''m.vsl''"]
  by (simp add: wf_def tokens_ok_def mkParser_def exampleTokens_def)

text \<open>
  C17. A type parameter is bound by its last annotation: the bounds the parser stores are those of the
  map that the assignments build.
\<close>

theorem boundsOf_last:
  "map_of (boundsOf tps) = map_of (rev (List.map_filter (\<lambda>(tp, b). map_option (Pair tp) b) tps))"
proof (induction tps rule: rev_induct)
  case Nil
  then show ?case by (simp add: boundsOf_def map_filter_def)
next
  case (snoc x tps)
  then show ?case
    by (cases x) (auto simp: boundsOf_def map_filter_def update_conv' split: option.splits)
qed

text \<open>
  A chain of comparisons is the conjunction, from the left, of the comparisons of neighbouring
  operands; the operands in the middle occur in two of them.
\<close>

definition comparisons :: "Expr list \<Rightarrow> BinOp list \<Rightarrow> Expr list" where
  "comparisons es ops = map (\<lambda>(op, a, b). BinaryExpr node0 op a b) (zip ops (zip es (tl es)))"

definition conjunction :: "Expr list \<Rightarrow> Expr" where
  "conjunction cs = foldl (BinaryExpr node0 And) (hd cs) (tl cs)"

lemma conjunction_strip:
  "stripExpr (conjunction (c # cs)) = foldl (BinaryExpr node0 And) (stripExpr c) (map stripExpr cs)"
  by (induction cs rule: rev_induct) (simp_all add: conjunction_def)

lemma chainFrom_conjunction:
  assumes "length es = Suc (length ops)" and "list_all copyable es"
  shows "stripExpr (chainFrom c es ops) = foldl (BinaryExpr node0 And) (stripExpr c) (map stripExpr (comparisons es ops))"
  using assms
proof (induction ops arbitrary: c es)
  case Nil
  then show ?case by (cases es) (auto simp: comparisons_def)
next
  case (Cons op ops)
  then obtain a b es' where "es = a # b # es'" by (metis length_Suc_conv)
  with Cons show ?case by (simp add: comparisons_def strip_clone [THEN iffD2])
qed

theorem compareChain_conjunction:
  assumes "length es = Suc (length ops)" and "ops \<noteq> []" and "list_all copyable es"
  shows "stripExpr (compareChain es ops) = stripExpr (conjunction (comparisons es ops))"
proof -
  obtain op ops' where ops: "ops = op # ops'" using assms(2) by (cases ops) auto
  then obtain a b es' where es: "es = a # b # es'" using assms(1) by (metis length_Suc_conv)
  show ?thesis
    using chainFrom_conjunction [of "b # es'" ops'] assms ops es
    by (cases ops') (simp_all add: compareChain_def comparisons_def conjunction_strip strip_clone [THEN iffD2])
qed


lemma compareChain_conjunction_witness:
  "stripExpr (compareChain [Identifier node0 ''a'', Identifier node0 ''b'', Identifier node0 ''c''] [Lt, Lte]) =
   BinaryExpr node0 And
     (BinaryExpr node0 Lt (Identifier node0 ''a'') (Identifier node0 ''b''))
     (BinaryExpr node0 Lte (Identifier node0 ''b'') (Identifier node0 ''c''))"
  using compareChain_conjunction [of "[Identifier node0 ''a'', Identifier node0 ''b'', Identifier node0 ''c'']" "[Lt, Lte]"]
  by (simp add: comparisons_def conjunction_def)

text \<open>At the end of the tokens every test of a token fails, and there is no expression.\<close>

lemma check_end:
  assumes "wf s" and "tk_type (tok s) = END_OF_FILE"
  shows "check t s = (Inr False, s)" and "matchTok t s = (Inr False, s)"
    and "whenMatch t p q s = q s" and "whenCheck t p q s = q s" and "current s = (Inr (tok s), s)"
  using check_eq [OF reach_refl [OF assms(1)], of t] assms(2) current_eq [OF reach_refl [OF assms(1)]]
  by (auto simp: matchTok_def whenMatch_def whenCheck_def bnd_def ret_def)

lemma parseExpression_end:
  assumes "wf s" and "tk_type (tok s) = END_OF_FILE"
  shows "parseExpression s = errorAt (tok s) (''Expected expression, got '' @ quoted (tk_lexeme (tok s))) s"
proof -
  note rules = bnd_def ret_def check_end [OF assms]
  have primary: "parsePrimary exprRun s = errorAt (tok s) (''Expected expression, got '' @ quoted (tk_lexeme (tok s))) s"
    by (simp add: parsePrimary_def here_def Parser_Core.error_def rules)
  have fail: "leftAssoc ops mk p s = (Inl e, s)" if "p s = (Inl e, s)" for ops mk p e
    using that by (simp add: leftAssoc_def bnd_def)
  obtain e where e: "parsePrimary exprRun s = (Inl e, s)" using primary by (simp add: Parser_Core.errorAt_def)
  have "parseUnary exprRun s = (Inl e, s)"
    using e by (simp add: parseUnary_def parsePower_def parsePostfix_def rules)
  then have "parseComparison exprRun s = (Inl e, s)"
    by (simp add: parseComparison_def parseAddSub_def parseMulDiv_def fail bnd_def [of "leftAssoc _ _ _"])
  then have "parseNot exprRun s = (Inl e, s)"
    by (simp add: parseNot_def parseBitOr_def parseBitXor_def parseBitAnd_def parseShift_def fail rules)
  then have "parseNullCoalesce exprRun s = (Inl e, s)"
    by (simp add: parseNullCoalesce_def parseOr_def parseAnd_def fail)
  then have "parseExpressionF exprRun s = (Inl e, s)"
    by (simp add: parseExpressionF_def parseTernary_def rules)
  then have "parseExpression s = (Inl e, s)"
    using exprRun_unfold [OF assms(1), of EExpression] by (simp add: parseExpression_def exprF_def)
  then show ?thesis using e primary by simp
qed

text \<open>
  A \<^verbatim>\<open>return\<close> or \<^verbatim>\<open>yield\<close> without operand that is the last token of the file is rejected: the test
  for the end of the file in its routine never succeeds, and the missing operand is reported there.
\<close>

theorem return_at_end:
  assumes "wf s" and "tk_type (tok s) \<in> {KW_RETURN, KW_YIELD}"
    and "tk_type (ps_tokens s ! Suc (ps_pos s)) = END_OF_FILE"
  shows "\<exists>d. parseStatement s = (Inl (ParseError d), s\<lparr>ps_pos := Suc (ps_pos s)\<rparr>) \<and>
    diagPos d = tokPos (ps_tokens s ! Suc (ps_pos s))"
proof -
  let ?s = "s\<lparr>ps_pos := Suc (ps_pos s)\<rparr>"
  note refl = reach_refl [OF assms(1)]
  have t: "tk_type (tok s) \<noteq> END_OF_FILE" "tk_type (tok s) \<noteq> NEWLINE" using assms(2) by auto
  have s': "wf ?s" "tk_type (tok ?s) = END_OF_FILE"
    using reach_wf [OF reach_next(2) [OF refl t(1)]] assms(3) by (simp_all add: tok_def)
  have skip: "skipNewlines s = (Inr (), s)"
    using t check_eq [OF refl, of NEWLINE] by (simp add: skipNewlines_def loop_def bnd_def ret_def)
  have cur: "current s = (Inr (tok s), s)" and adv: "Parser_Core.advance s = (Inr (tok s), ?s)"
    using current_eq [OF refl] advance_eq [OF refl t(1)] by simp_all
  have "optionalOperand ?s = errorAt (tok ?s) (''Expected expression, got '' @ quoted (tk_lexeme (tok ?s))) ?s"
    using parseExpression_end [OF s']
    by (simp add: optionalOperand_def check_end(4) [OF s'] bnd_def Parser_Core.errorAt_def)
  then have "parseStatement s = errorAt (tok ?s) (''Expected expression, got '' @ quoted (tk_lexeme (tok ?s))) ?s"
    using assms(2) parseStatement_unfold [OF assms(1)]
    by (auto simp: statementF_def andThen_def bnd_def skip cur adv dispatch_def parseReturnStmt_def parseYieldStmt_def
        here_def Parser_Core.errorAt_def)
  then show ?thesis
    by (auto simp: Parser_Core.errorAt_def mkParseError_def diagPos_def tokPos_def tok_def)
qed

lemma return_at_end_witness:
  "\<exists>d s. parseStatement (mkParser [makeToken KW_RETURN ''return'' 1 1, makeToken END_OF_FILE [] 1 7] ''m.vsl'') = (Inl (ParseError d), s) \<and>
     diagPos d = SrcPos 1 7"
  using return_at_end [of "mkParser [makeToken KW_RETURN ''return'' 1 1, makeToken END_OF_FILE [] 1 7] ''m.vsl''"]
  by (auto simp: wf_def tokens_ok_def mkParser_def tok_def tokPos_def)

end
