(* ===== verification/Scopes.thy ===== *)
theory Scopes
  imports Vsl_Prelude
begin

text \<open>
  The scope stack both name analyses of the compiler rely on: the capture analysis keeps a stack of name
  sets (\<^verbatim>\<open>src/capture_analyzer.cpp\<close>), the type checker a stack of symbol scopes
  (\<^verbatim>\<open>include/typechecker.h\<close>). The interface is a locale over the names each scope declares,
  innermost first; its client lemmas say that a walk that pushes a scope, declares in it and pops it
  again leaves the stack as it was. The second part threads state through lists of visits.
\<close>

section \<open>The interface\<close>

type_synonym names = "string set"

locale scope_stack =
  fixes inv :: "'s \<Rightarrow> bool"
    and view :: "'s \<Rightarrow> names list"
    and push :: "'s \<Rightarrow> 's"
    and pop :: "'s \<Rightarrow> 's"
    and define_name :: "string \<Rightarrow> 's \<Rightarrow> 's"
    and defined :: "'s \<Rightarrow> string \<Rightarrow> bool"
  assumes inv_push: "inv s \<Longrightarrow> inv (push s)"
    and inv_pop: "inv s \<Longrightarrow> inv (pop s)"
    and inv_define: "inv s \<Longrightarrow> inv (define_name x s)"
    and view_push: "inv s \<Longrightarrow> view (push s) = {} # view s"
    and view_pop: "inv s \<Longrightarrow> view (pop s) = tl (view s)"
    and view_define: "inv s \<Longrightarrow> view (define_name x s) = (case view s of [] \<Rightarrow> [] | d # ds \<Rightarrow> insert x d # ds)"
    and defined_view: "inv s \<Longrightarrow> defined s x \<longleftrightarrow> (\<exists>d\<in>set (view s). x \<in> d)"
begin

text \<open>A step is framed when it changes nothing but the innermost scope, which it only extends.\<close>

definition framed :: "'s \<Rightarrow> 's \<Rightarrow> bool" where
  "framed s s' \<longleftrightarrow> inv s' \<and> tl (view s') = tl (view s) \<and> length (view s') = length (view s) \<and>
     (view s \<noteq> [] \<longrightarrow> hd (view s) \<subseteq> hd (view s'))"

lemma framed_refl: "inv s \<Longrightarrow> framed s s"
  by (simp add: framed_def)

lemma framed_inv: "framed s s' \<Longrightarrow> inv s'"
  by (simp add: framed_def)

lemma framed_define: "inv s \<Longrightarrow> framed s (define_name x s)"
  by (auto simp: framed_def view_define inv_define split: list.split)

lemma framed_trans:
  assumes "framed a b" and "framed b c"
  shows "framed a c"
  unfolding framed_def
proof (intro conjI impI)
  show "inv c" and "tl (view c) = tl (view a)" and "length (view c) = length (view a)"
    using assms by (simp_all add: framed_def)
  assume "view a \<noteq> []"
  then have "view b \<noteq> []"
    using assms by (metis framed_def length_0_conv)
  with \<open>view a \<noteq> []\<close> show "hd (view a) \<subseteq> hd (view c)"
    using assms unfolding framed_def by (meson order_trans)
qed

text \<open>What happens between entering a scope and leaving it cannot be seen afterwards.\<close>

lemma framed_scope:
  assumes "inv s" and "framed (push s) s'"
  shows "view (pop s') = view s \<and> framed s (pop s')"
proof -
  have "view (pop s') = view s" and "inv (pop s')"
    using assms by (simp_all add: framed_def view_pop view_push inv_pop)
  then show ?thesis
    by (simp add: framed_def)
qed

lemma defined_scope: "inv s \<Longrightarrow> framed (push s) s' \<Longrightarrow> defined (pop s') x \<longleftrightarrow> defined s x"
  using framed_scope [of s s'] by (simp add: framed_def defined_view)

lemma defined_framed:
  assumes "inv s" and "framed s s'" and "defined s x"
  shows "defined s' x"
  using assms unfolding framed_def
  by (cases "view s"; cases "view s'") (auto simp: defined_view)

lemma defined_define: "inv s \<Longrightarrow> view s \<noteq> [] \<Longrightarrow> defined (define_name x s) y \<longleftrightarrow> y = x \<or> defined s y"
  by (cases "view s") (auto simp: defined_view view_define inv_define)

lemma defined_push: "inv s \<Longrightarrow> defined (push s) x \<longleftrightarrow> defined s x"
  by (auto simp: defined_view view_push inv_push)

end

section \<open>Visits in sequence\<close>

text \<open>Visiting the elements of a list in order, each visit returning its result and the new state.\<close>

fun visitAll :: "('s \<Rightarrow> 'a \<times> 's) list \<Rightarrow> 's \<Rightarrow> 'a list \<times> 's" where
  "visitAll [] s = ([], s)"
| "visitAll (f # fs) s =
     (let (x, s) = f s; (xs, s) = visitAll fs s in (x # xs, s))"

fun visitOpt :: "('s \<Rightarrow> 'a \<times> 's) option \<Rightarrow> 's \<Rightarrow> 'a option \<times> 's" where
  "visitOpt None s = (None, s)"
| "visitOpt (Some f) s = (let (x, s) = f s in (Some x, s))"

fun visitPair :: "('s \<Rightarrow> 'a \<times> 's) \<times> ('s \<Rightarrow> 'b \<times> 's) \<Rightarrow> 's \<Rightarrow> ('a \<times> 'b) \<times> 's" where
  "visitPair (f, g) s = (let (x, s) = f s; (y, s) = g s in ((x, y), s))"

text \<open>An invariant relation between the states before and after is kept by a list of visits.\<close>

lemma visitAll_rel:
  assumes "\<And>f s. f \<in> set fs \<Longrightarrow> R s (snd (f s))"
    and "\<And>s. R s s" and "\<And>a b c. R a b \<Longrightarrow> R b c \<Longrightarrow> R a c"
  shows "R s (snd (visitAll fs s))"
  using assms(1)
proof (induction fs arbitrary: s)
  case (Cons f fs)
  have "R s (snd (f s))" and "R (snd (f s)) (snd (visitAll fs (snd (f s))))"
    using Cons by simp_all
  then show ?case
    using assms(3) by (simp add: split_beta)
qed (simp add: assms(2))

lemma visitAll_length: "length (fst (visitAll fs s)) = length fs"
  by (induction fs arbitrary: s) (simp_all add: split_beta)

text \<open>Visits that only change the state.\<close>

definition inTurn :: "('s \<Rightarrow> 's) list \<Rightarrow> 's \<Rightarrow> 's" where
  "inTurn fs = fold id fs"

lemma inTurn_simps [simp]:
  "inTurn [] st = st"
  "inTurn (f # fs) st = inTurn fs (f st)"
  "inTurn (fs @ gs) st = inTurn gs (inTurn fs st)"
  by (simp_all add: inTurn_def)

lemma inTurn_fold:
  assumes "\<And>x st. x \<in> set xs \<Longrightarrow> f x st = fold g (h x) st"
  shows "inTurn (map f xs) st = fold g (concat (map h xs)) st"
  using assms by (induction xs arbitrary: st) simp_all

lemma inTurn_rel:
  assumes "\<And>st. R st st" and "\<And>a b c. R a b \<Longrightarrow> R b c \<Longrightarrow> R a c"
    and "\<And>f st. f \<in> set fs \<Longrightarrow> R st (f st)"
  shows "R st (inTurn fs st)"
  using assms(3)
proof (induction fs arbitrary: st)
  case (Cons f fs)
  then show ?case
    using assms(2) [of st "f st"] by simp
qed (simp add: assms(1))

end
