(* ===== verification/Capture_Analyzer.thy ===== *)
theory Capture_Analyzer
  imports Scopes Ast
begin

text \<open>
  The capture analysis (\<^verbatim>\<open>src/capture_analyzer.cpp\<close>): it walks the program with a stack of the names
  each open scope declares and writes into every lambda the list of the names it captures. The sets of
  the code are hash sets; the order in which one is traversed is a parameter, \<open>iter\<close>, and the analysis is
  shown not to depend on it. The tree is returned with the captures filled in, where the code writes them
  into the nodes.
\<close>

section \<open>State\<close>

text \<open>Both stacks have their innermost element first.\<close>

record Cap =
  scopes :: "names list"
  byRefCandidatesStack :: "names list"

definition cap0 :: Cap where
  "cap0 = \<lparr>scopes = [], byRefCandidatesStack = []\<rparr>"

definition pushScope :: "Cap \<Rightarrow> Cap" where
  "pushScope st = st\<lparr>scopes := {} # scopes st\<rparr>"

definition popScope :: "Cap \<Rightarrow> Cap" where
  "popScope st = (case scopes st of [] \<Rightarrow> st | d # ds \<Rightarrow> st\<lparr>scopes := ds\<rparr>)"

definition defineName :: "string \<Rightarrow> Cap \<Rightarrow> Cap" where
  "defineName x st = (case scopes st of [] \<Rightarrow> st | d # ds \<Rightarrow> st\<lparr>scopes := insert x d # ds\<rparr>)"

definition isDefined :: "Cap \<Rightarrow> string \<Rightarrow> bool" where
  "isDefined st x \<longleftrightarrow> list_ex (\<lambda>d. x \<in> d) (scopes st)"

definition isByRefCandidate :: "Cap \<Rightarrow> string \<Rightarrow> bool" where
  "isByRefCandidate st x = (case byRefCandidatesStack st of [] \<Rightarrow> False | d # ds \<Rightarrow> x \<in> d)"

interpretation cap: scope_stack "\<lambda>_. True" scopes pushScope popScope defineName isDefined
  by unfold_locales
    (auto simp: pushScope_def popScope_def defineName_def isDefined_def list_ex_iff split: list.split)

section \<open>Expressions\<close>

text \<open>
  What a lambda does with one name that occurs free in its body: a name of an open scope becomes a
  capture, any other is reported to the enclosing expression.
\<close>

definition captureInfo :: "Cap \<Rightarrow> string \<Rightarrow> CaptureInfo" where
  "captureInfo st x = CaptureInfo x (isByRefCandidate st x)"

definition captureName :: "Cap \<Rightarrow> string \<Rightarrow> CaptureInfo list \<times> names \<Rightarrow> CaptureInfo list \<times> names" where
  "captureName st x p =
     (if isDefined st x then (fst p @ [captureInfo st x], snd p) else (fst p, insert x (snd p)))"

definition captureNames :: "(names \<Rightarrow> string list) \<Rightarrow> Cap \<Rightarrow> names \<Rightarrow> names \<Rightarrow> CaptureInfo list \<times> names" where
  "captureNames iter st bodyVars freeVars =
     map_prod (sort_key ci_name) id (fold (captureName st) (iter bodyVars) ([], freeVars))"

text \<open>
  The names seen so far are the state of the walk. F-strings, \<open>go\<close> and channel receives have no case: the
  names in them are not collected and the lambdas in them not visited.
\<close>

primrec analyzeExpr :: "(names \<Rightarrow> string list) \<Rightarrow> Cap \<Rightarrow> Expr \<Rightarrow> names \<Rightarrow> Expr \<times> names" where
  "analyzeExpr iter st (IntLiteral n v) fv = (IntLiteral n v, fv)"
| "analyzeExpr iter st (FloatLiteral n v) fv = (FloatLiteral n v, fv)"
| "analyzeExpr iter st (StringLiteral n v) fv = (StringLiteral n v, fv)"
| "analyzeExpr iter st (FStringLiteral n r) fv = (FStringLiteral n r, fv)"
| "analyzeExpr iter st (FStringExpr n parts) fv = (FStringExpr n parts, fv)"
| "analyzeExpr iter st (BoolLiteral n v) fv = (BoolLiteral n v, fv)"
| "analyzeExpr iter st (NullLiteral n) fv = (NullLiteral n, fv)"
| "analyzeExpr iter st (Identifier n x) fv = (Identifier n x, insert x fv)"
| "analyzeExpr iter st (ThisExpr n) fv = (ThisExpr n, fv)"
| "analyzeExpr iter st (SuperExpr n) fv = (SuperExpr n, fv)"
| "analyzeExpr iter st (LambdaExpr n ps b cs) fv =
    (let (b, bodyVars) = analyzeExpr iter st b {};
         (caps, fv) = captureNames iter st (bodyVars - set ps) fv
     in (LambdaExpr n ps b caps, fv))"
| "analyzeExpr iter st (BinaryExpr n op l r) fv =
    (let (l, fv) = analyzeExpr iter st l fv; (r, fv) = analyzeExpr iter st r fv in (BinaryExpr n op l r, fv))"
| "analyzeExpr iter st (UnaryExpr n op e) fv = (let (e, fv) = analyzeExpr iter st e fv in (UnaryExpr n op e, fv))"
| "analyzeExpr iter st (CallExpr n c args ts) fv =
    (let (c, fv) = analyzeExpr iter st c fv; (args, fv) = visitAll (map (analyzeExpr iter st) args) fv
     in (CallExpr n c args ts, fv))"
| "analyzeExpr iter st (MemberExpr n e m) fv = (let (e, fv) = analyzeExpr iter st e fv in (MemberExpr n e m, fv))"
| "analyzeExpr iter st (IndexExpr n e i) fv =
    (let (e, fv) = analyzeExpr iter st e fv; (i, fv) = analyzeExpr iter st i fv in (IndexExpr n e i, fv))"
| "analyzeExpr iter st (TernaryExpr n c t e) fv =
    (let (c, fv) = analyzeExpr iter st c fv; (t, fv) = analyzeExpr iter st t fv; (e, fv) = analyzeExpr iter st e fv
     in (TernaryExpr n c t e, fv))"
| "analyzeExpr iter st (ListExpr n es) fv =
    (let (es, fv) = visitAll (map (analyzeExpr iter st) es) fv in (ListExpr n es, fv))"
| "analyzeExpr iter st (DictExpr n kvs) fv =
    (let (kvs, fv) = visitAll (map visitPair (map (map_prod (analyzeExpr iter st) (analyzeExpr iter st)) kvs)) fv
     in (DictExpr n kvs, fv))"
| "analyzeExpr iter st (TupleExpr n es) fv =
    (let (es, fv) = visitAll (map (analyzeExpr iter st) es) fv in (TupleExpr n es, fv))"
| "analyzeExpr iter st (SpreadExpr n e) fv = (let (e, fv) = analyzeExpr iter st e fv in (SpreadExpr n e, fv))"
| "analyzeExpr iter st (DictSpreadExpr n e) fv = (let (e, fv) = analyzeExpr iter st e fv in (DictSpreadExpr n e, fv))"
| "analyzeExpr iter st (WalrusExpr n x e) fv = (let (e, fv) = analyzeExpr iter st e fv in (WalrusExpr n x e, fv))"
| "analyzeExpr iter st (ListComprehension n b x i c) fv =
    (let (i, fv) = analyzeExpr iter st i fv; (b, bodyVars) = analyzeExpr iter st b {};
         (c, bodyVars) = visitOpt (map_option (analyzeExpr iter st) c) bodyVars
     in (ListComprehension n b x i c, fv \<union> (bodyVars - {x})))"
| "analyzeExpr iter st (DictComprehension n k v x i c) fv =
    (let (i, fv) = analyzeExpr iter st i fv; (k, bodyVars) = analyzeExpr iter st k {};
         (v, bodyVars) = analyzeExpr iter st v bodyVars;
         (c, bodyVars) = visitOpt (map_option (analyzeExpr iter st) c) bodyVars
     in (DictComprehension n k v x i c, fv \<union> (bodyVars - {x})))"
| "analyzeExpr iter st (SliceExpr n e a b c) fv =
    (let (e, fv) = analyzeExpr iter st e fv; (a, fv) = visitOpt (map_option (analyzeExpr iter st) a) fv;
         (b, fv) = visitOpt (map_option (analyzeExpr iter st) b) fv;
         (c, fv) = visitOpt (map_option (analyzeExpr iter st) c) fv
     in (SliceExpr n e a b c, fv))"
| "analyzeExpr iter st (GoExpr n c args) fv = (GoExpr n c args, fv)"
| "analyzeExpr iter st (ChanRecvExpr n e) fv = (ChanRecvExpr n e, fv)"

section \<open>Statements\<close>

text \<open>
  The names assigned at least twice among the statements of one list, which a lambda there captures by
  reference.
\<close>

fun assignedName :: "Stmt \<Rightarrow> string option" where
  "assignedName (AssignStmt n (Identifier m x) v ex ta) = Some x"
| "assignedName s = None"

definition byRefCandidates :: "Stmt list \<Rightarrow> names" where
  "byRefCandidates stmts =
     (let names = List.map_filter assignedName stmts in {x \<in> set names. count_list names x \<ge> 2})"

definition pushCandidates :: "names \<Rightarrow> Cap \<Rightarrow> Cap" where
  "pushCandidates c st = st\<lparr>byRefCandidatesStack := c # byRefCandidatesStack st\<rparr>"

definition popCandidates :: "Cap \<Rightarrow> Cap" where
  "popCandidates st = st\<lparr>byRefCandidatesStack := tl (byRefCandidatesStack st)\<rparr>"

text \<open>The walk over a statement list, given the visits of its statements.\<close>

definition walkList :: "Stmt list \<Rightarrow> (Cap \<Rightarrow> 'a \<times> Cap) list \<Rightarrow> Cap \<Rightarrow> 'a list \<times> Cap" where
  "walkList stmts visits st =
     map_prod id popCandidates (visitAll visits (pushCandidates (byRefCandidates stmts) st))"

definition walkScope :: "string list \<Rightarrow> Stmt list \<Rightarrow> (Cap \<Rightarrow> 'a \<times> Cap) list \<Rightarrow> Cap \<Rightarrow> 'a list \<times> Cap" where
  "walkScope names stmts visits st =
     map_prod id popScope (walkList stmts visits (fold defineName names (pushScope st)))"

definition exprIn :: "(names \<Rightarrow> string list) \<Rightarrow> Expr \<Rightarrow> Cap \<Rightarrow> Expr" where
  "exprIn iter e st = fst (analyzeExpr iter st e {})"

fun walkElsif :: "(names \<Rightarrow> string list) \<Rightarrow> Expr \<times> Stmt list \<Rightarrow> Expr \<times> (Cap \<Rightarrow> 'a \<times> Cap) list \<Rightarrow> Cap \<Rightarrow>
    (Expr \<times> 'a list) \<times> Cap" where
  "walkElsif iter (c, b) (_, visits) st =
     (let c = exprIn iter c st; (b, st) = walkScope [] b visits st in ((c, b), st))"

primrec analyzeStmt :: "(names \<Rightarrow> string list) \<Rightarrow> Stmt \<Rightarrow> Cap \<Rightarrow> Stmt \<times> Cap"
  and analyzeCatch :: "(names \<Rightarrow> string list) \<Rightarrow> CatchClause \<Rightarrow> Cap \<Rightarrow> CatchClause \<times> Cap" where
  "analyzeStmt iter (AssignStmt n t v ex ta) st =
    (let st = (case t of Identifier m x \<Rightarrow> defineName x st | _ \<Rightarrow> st)
     in (AssignStmt n t (exprIn iter v st) ex ta, st))"
| "analyzeStmt iter (ExprStmt n e) st = (ExprStmt n (exprIn iter e st), st)"
| "analyzeStmt iter (FuncDef n h b) st =
    (let (b, st) = walkScope (map pm_name (fh_params h)) b (map (analyzeStmt iter) b) (defineName (fh_name h) st)
     in (FuncDef n h b, st))"
| "analyzeStmt iter (ClassDef n h b) st =
    (let (b, st) = walkScope [''this'', ''super''] b (map (analyzeStmt iter) b) (defineName (ch_name h) st)
     in (ClassDef n h b, st))"
| "analyzeStmt iter (InitDef n ps b) st =
    (let (b, st) = walkScope (map pm_name ps) b (map (analyzeStmt iter) b) st in (InitDef n ps b, st))"
| "analyzeStmt iter (IfStmt n c t es el) st =
    (let c = exprIn iter c st;
         (t, st) = walkScope [] t (map (analyzeStmt iter) t) st;
         (es, st) = visitAll (map2 (walkElsif iter) es (map (map_prod id (map (analyzeStmt iter))) es)) st;
         (el, st) = (if el = [] then ([], st) else walkScope [] el (map (analyzeStmt iter) el) st)
     in (IfStmt n c t es el, st))"
| "analyzeStmt iter (ForStmt n x xs i b el) st =
    (let i = exprIn iter i st; (b, st) = walkScope [x] b (map (analyzeStmt iter) b) st
     in (ForStmt n x xs i b el, st))"
| "analyzeStmt iter (WhileStmt n c b el) st =
    (let c = exprIn iter c st; (b, st) = walkScope [] b (map (analyzeStmt iter) b) st
     in (WhileStmt n c b el, st))"
| "analyzeStmt iter (ReturnStmt n v) st = (ReturnStmt n (map_option (\<lambda>e. exprIn iter e st) v), st)"
| "analyzeStmt iter (TryStmt n b cs f) st =
    (let (b, st) = walkScope [] b (map (analyzeStmt iter) b) st;
         (cs, st) = visitAll (map (analyzeCatch iter) cs) st;
         (f, st) = (if f = [] then ([], st) else walkScope [] f (map (analyzeStmt iter) f) st)
     in (TryStmt n b cs f, st))"
| "analyzeStmt iter (ThrowStmt n e) st = (ThrowStmt n (map_option (\<lambda>e. exprIn iter e st) e), st)"
| "analyzeStmt iter (TupleUnpackStmt n ts v) st =
    (TupleUnpackStmt n ts (exprIn iter v st), fold defineName ts st)"
| "analyzeStmt iter (ConstStmt n x v ta) st = (ConstStmt n x v ta, st)"
| "analyzeStmt iter (BreakStmt n) st = (BreakStmt n, st)"
| "analyzeStmt iter (ContinueStmt n) st = (ContinueStmt n, st)"
| "analyzeStmt iter (PassStmt n) st = (PassStmt n, st)"
| "analyzeStmt iter (ChanSendStmt n c v) st = (ChanSendStmt n c v, st)"
| "analyzeStmt iter (EnumDef n x ms) st = (EnumDef n x ms, st)"
| "analyzeStmt iter (YieldStmt n v) st = (YieldStmt n v, st)"
| "analyzeStmt iter (AssertStmt n c m) st = (AssertStmt n c m, st)"
| "analyzeStmt iter (DelStmt n t) st = (DelStmt n t, st)"
| "analyzeStmt iter (WithStmt n e x b) st = (WithStmt n e x b, st)"
| "analyzeStmt iter (ImportStmt n m) st = (ImportStmt n m, st)"
| "analyzeStmt iter (FromImportStmt n m xs) st = (FromImportStmt n m xs, st)"
| "analyzeStmt iter (MatchStmt n e cs) st = (MatchStmt n e cs, st)"
| "analyzeStmt iter (InterfaceDef n x ms) st = (InterfaceDef n x ms, st)"
| "analyzeCatch iter (CatchClause ty x b) st =
    (let (b, st) = walkScope (if x = [] then [] else [x]) b (map (analyzeStmt iter) b) st
     in (CatchClause ty x b, st))"

definition analyzeStmtList :: "(names \<Rightarrow> string list) \<Rightarrow> Stmt list \<Rightarrow> Cap \<Rightarrow> Stmt list \<times> Cap" where
  "analyzeStmtList iter stmts = walkList stmts (map (analyzeStmt iter) stmts)"

section \<open>Programs\<close>

fun declaredName :: "Stmt \<Rightarrow> string option" where
  "declaredName (FuncDef n h b) = Some (fh_name h)"
| "declaredName (ClassDef n h b) = Some (ch_name h)"
| "declaredName s = None"

definition analyzeCaptures :: "(names \<Rightarrow> string list) \<Rightarrow> Program \<Rightarrow> Cap \<Rightarrow> Program \<times> Cap" where
  "analyzeCaptures iter p st =
     (let st = fold defineName (''print'' # List.map_filter declaredName (pr_statements p)) (pushScope st);
          (stmts, st) = analyzeStmtList iter (pr_statements p) st
      in (Program (pr_node p) stmts, popScope st))"

end
