(* ===== verification/Ast_Induct.thy ===== *)
theory Ast_Induct
  imports Ast
begin

text \<open>
  Induction over the syntax tree with the sub-terms named through the lists and pairs that hold them: one
  predicate over all expressions, and one over all statements.
\<close>

lemma expr_induct [case_names IntLiteral FloatLiteral StringLiteral FStringLiteral FStringExpr BoolLiteral
    NullLiteral Identifier ThisExpr SuperExpr BinaryExpr UnaryExpr CallExpr MemberExpr IndexExpr LambdaExpr
    ListExpr DictExpr TupleExpr TernaryExpr SliceExpr ListComprehension DictComprehension SpreadExpr
    DictSpreadExpr WalrusExpr GoExpr ChanRecvExpr]:
  assumes "\<And>n v. P (IntLiteral n v)"
    and "\<And>n v. P (FloatLiteral n v)"
    and "\<And>n v. P (StringLiteral n v)"
    and "\<And>n v. P (FStringLiteral n v)"
    and "\<And>n parts. (\<And>e. ExprPart e \<in> set parts \<Longrightarrow> P e) \<Longrightarrow> P (FStringExpr n parts)"
    and "\<And>n v. P (BoolLiteral n v)"
    and "\<And>n. P (NullLiteral n)"
    and "\<And>n x. P (Identifier n x)"
    and "\<And>n. P (ThisExpr n)"
    and "\<And>n. P (SuperExpr n)"
    and "\<And>n op l r. P l \<Longrightarrow> P r \<Longrightarrow> P (BinaryExpr n op l r)"
    and "\<And>n op e. P e \<Longrightarrow> P (UnaryExpr n op e)"
    and "\<And>n c args ts. P c \<Longrightarrow> (\<And>e. e \<in> set args \<Longrightarrow> P e) \<Longrightarrow> P (CallExpr n c args ts)"
    and "\<And>n e m. P e \<Longrightarrow> P (MemberExpr n e m)"
    and "\<And>n e i. P e \<Longrightarrow> P i \<Longrightarrow> P (IndexExpr n e i)"
    and "\<And>n ps b cs. P b \<Longrightarrow> P (LambdaExpr n ps b cs)"
    and "\<And>n es. (\<And>e. e \<in> set es \<Longrightarrow> P e) \<Longrightarrow> P (ListExpr n es)"
    and "\<And>n kvs. (\<And>k v. (k, v) \<in> set kvs \<Longrightarrow> P k) \<Longrightarrow> (\<And>k v. (k, v) \<in> set kvs \<Longrightarrow> P v) \<Longrightarrow> P (DictExpr n kvs)"
    and "\<And>n es. (\<And>e. e \<in> set es \<Longrightarrow> P e) \<Longrightarrow> P (TupleExpr n es)"
    and "\<And>n c t e. P c \<Longrightarrow> P t \<Longrightarrow> P e \<Longrightarrow> P (TernaryExpr n c t e)"
    and "\<And>n e a b c. P e \<Longrightarrow> (\<And>x. a = Some x \<Longrightarrow> P x) \<Longrightarrow> (\<And>x. b = Some x \<Longrightarrow> P x) \<Longrightarrow>
      (\<And>x. c = Some x \<Longrightarrow> P x) \<Longrightarrow> P (SliceExpr n e a b c)"
    and "\<And>n b x i c. P b \<Longrightarrow> P i \<Longrightarrow> (\<And>y. c = Some y \<Longrightarrow> P y) \<Longrightarrow> P (ListComprehension n b x i c)"
    and "\<And>n k v x i c. P k \<Longrightarrow> P v \<Longrightarrow> P i \<Longrightarrow> (\<And>y. c = Some y \<Longrightarrow> P y) \<Longrightarrow> P (DictComprehension n k v x i c)"
    and "\<And>n e. P e \<Longrightarrow> P (SpreadExpr n e)"
    and "\<And>n e. P e \<Longrightarrow> P (DictSpreadExpr n e)"
    and "\<And>n x e. P e \<Longrightarrow> P (WalrusExpr n x e)"
    and "\<And>n c args. P c \<Longrightarrow> (\<And>e. e \<in> set args \<Longrightarrow> P e) \<Longrightarrow> P (GoExpr n c args)"
    and "\<And>n e. P e \<Longrightarrow> P (ChanRecvExpr n e)"
  shows "P e"
proof (induction e rule: Expr.induct [where ?P2.0 = "\<lambda>p. \<forall>e. p = ExprPart e \<longrightarrow> P e"])
  case (DictExpr n kvs)
  then have "P a" and "P b" if "(a, b) \<in> set kvs" for a b
    using that by (auto simp: Basic_BNFs.fsts.simps Basic_BNFs.snds.simps)
  then show ?case
    by (intro assms)
qed (auto intro: assms)

lemma stmt_induct [case_names ExprStmt AssignStmt ConstStmt TupleUnpackStmt ReturnStmt BreakStmt ContinueStmt
    PassStmt ChanSendStmt FuncDef ClassDef InitDef EnumDef IfStmt ForStmt WhileStmt ThrowStmt YieldStmt
    AssertStmt DelStmt WithStmt TryStmt ImportStmt FromImportStmt MatchStmt InterfaceDef]:
  assumes "\<And>n e. P (ExprStmt n e)"
    and "\<And>n t v ex ta. P (AssignStmt n t v ex ta)"
    and "\<And>n x v ta. P (ConstStmt n x v ta)"
    and "\<And>n ts v. P (TupleUnpackStmt n ts v)"
    and "\<And>n v. P (ReturnStmt n v)"
    and "\<And>n. P (BreakStmt n)"
    and "\<And>n. P (ContinueStmt n)"
    and "\<And>n. P (PassStmt n)"
    and "\<And>n c v. P (ChanSendStmt n c v)"
    and "\<And>n h b. (\<And>s. s \<in> set b \<Longrightarrow> P s) \<Longrightarrow> P (FuncDef n h b)"
    and "\<And>n h b. (\<And>s. s \<in> set b \<Longrightarrow> P s) \<Longrightarrow> P (ClassDef n h b)"
    and "\<And>n ps b. (\<And>s. s \<in> set b \<Longrightarrow> P s) \<Longrightarrow> P (InitDef n ps b)"
    and "\<And>n x ms. P (EnumDef n x ms)"
    and "\<And>n c t es el. (\<And>s. s \<in> set t \<Longrightarrow> P s) \<Longrightarrow> (\<And>c b s. (c, b) \<in> set es \<Longrightarrow> s \<in> set b \<Longrightarrow> P s) \<Longrightarrow>
      (\<And>s. s \<in> set el \<Longrightarrow> P s) \<Longrightarrow> P (IfStmt n c t es el)"
    and "\<And>n x xs i b el. (\<And>s. s \<in> set b \<Longrightarrow> P s) \<Longrightarrow> (\<And>s. s \<in> set el \<Longrightarrow> P s) \<Longrightarrow> P (ForStmt n x xs i b el)"
    and "\<And>n c b el. (\<And>s. s \<in> set b \<Longrightarrow> P s) \<Longrightarrow> (\<And>s. s \<in> set el \<Longrightarrow> P s) \<Longrightarrow> P (WhileStmt n c b el)"
    and "\<And>n e. P (ThrowStmt n e)"
    and "\<And>n v. P (YieldStmt n v)"
    and "\<And>n c m. P (AssertStmt n c m)"
    and "\<And>n t. P (DelStmt n t)"
    and "\<And>n e x b. (\<And>s. s \<in> set b \<Longrightarrow> P s) \<Longrightarrow> P (WithStmt n e x b)"
    and "\<And>n b cs f. (\<And>s. s \<in> set b \<Longrightarrow> P s) \<Longrightarrow>
      (\<And>ty x b s. CatchClause ty x b \<in> set cs \<Longrightarrow> s \<in> set b \<Longrightarrow> P s) \<Longrightarrow>
      (\<And>s. s \<in> set f \<Longrightarrow> P s) \<Longrightarrow> P (TryStmt n b cs f)"
    and "\<And>n m. P (ImportStmt n m)"
    and "\<And>n m xs. P (FromImportStmt n m xs)"
    and "\<And>n e cs. (\<And>p g b s. MatchCase p g b \<in> set cs \<Longrightarrow> s \<in> set b \<Longrightarrow> P s) \<Longrightarrow> P (MatchStmt n e cs)"
    and "\<And>n x ms. P (InterfaceDef n x ms)"
  shows "P s"
proof (induction s rule: Stmt.induct
    [where ?P2.0 = "\<lambda>c. \<forall>ty x b. c = CatchClause ty x b \<longrightarrow> (\<forall>s\<in>set b. P s)"
       and ?P3.0 = "\<lambda>c. \<forall>p g b. c = MatchCase p g b \<longrightarrow> (\<forall>s\<in>set b. P s)"])
  case (IfStmt n c t es el)
  then have "P s" if "(c, b) \<in> set es" and "s \<in> set b" for c b s
    using that by (auto simp: Basic_BNFs.snds.simps)
  then show ?case
    using IfStmt by (intro assms)
next
  case (TryStmt n b cs f)
  then show ?case
    by (intro assms) blast+
next
  case (MatchStmt n e cs)
  then show ?case
    by (intro assms) blast
qed (auto intro: assms)

end
