(* ===== verification/Capture_Props.thy ===== *)
theory Capture_Props
  imports Capture_Analyzer Ast_Induct
begin

text \<open>
  What the capture analysis computes: the names an expression reports and the tree with its captures as functions,
  its independence of the order in which hash sets are traversed, the scope discipline, and the captures of a
  lambda in terms of the free variables of its body.
\<close>

section \<open>Reference definition\<close>

text \<open>
  The names the walk over an expression reports to what encloses it, and the tree with the captures it fills in.
  Both follow the walk case by case; what the captures mean is stated below against the free variables of the
  expression.
\<close>

primrec reportedNames :: "(string \<Rightarrow> bool) \<Rightarrow> Expr \<Rightarrow> names" where
  "reportedNames D (IntLiteral n v) = {}"
| "reportedNames D (FloatLiteral n v) = {}"
| "reportedNames D (StringLiteral n v) = {}"
| "reportedNames D (FStringLiteral n r) = {}"
| "reportedNames D (FStringExpr n parts) = {}"
| "reportedNames D (BoolLiteral n v) = {}"
| "reportedNames D (NullLiteral n) = {}"
| "reportedNames D (Identifier n x) = {x}"
| "reportedNames D (ThisExpr n) = {}"
| "reportedNames D (SuperExpr n) = {}"
| "reportedNames D (LambdaExpr n ps b cs) = {x \<in> reportedNames D b - set ps. \<not> D x}"
| "reportedNames D (BinaryExpr n op l r) = reportedNames D l \<union> reportedNames D r"
| "reportedNames D (UnaryExpr n op e) = reportedNames D e"
| "reportedNames D (CallExpr n c args ts) = reportedNames D c \<union> \<Union> (set (map (reportedNames D) args))"
| "reportedNames D (MemberExpr n e m) = reportedNames D e"
| "reportedNames D (IndexExpr n e i) = reportedNames D e \<union> reportedNames D i"
| "reportedNames D (TernaryExpr n c t e) = reportedNames D c \<union> reportedNames D t \<union> reportedNames D e"
| "reportedNames D (ListExpr n es) = \<Union> (set (map (reportedNames D) es))"
| "reportedNames D (DictExpr n kvs) =
    \<Union> (set (map (\<lambda>(a, b). a \<union> b) (map (map_prod (reportedNames D) (reportedNames D)) kvs)))"
| "reportedNames D (TupleExpr n es) = \<Union> (set (map (reportedNames D) es))"
| "reportedNames D (SpreadExpr n e) = reportedNames D e"
| "reportedNames D (DictSpreadExpr n e) = reportedNames D e"
| "reportedNames D (WalrusExpr n x e) = reportedNames D e"
| "reportedNames D (ListComprehension n b x i c) =
    reportedNames D i \<union> (reportedNames D b \<union> case_option {} id (map_option (reportedNames D) c) - {x})"
| "reportedNames D (DictComprehension n k v x i c) =
    reportedNames D i \<union> (reportedNames D k \<union> reportedNames D v \<union> case_option {} id (map_option (reportedNames D) c) - {x})"
| "reportedNames D (SliceExpr n e a b c) =
    reportedNames D e \<union> case_option {} id (map_option (reportedNames D) a) \<union>
    case_option {} id (map_option (reportedNames D) b) \<union> case_option {} id (map_option (reportedNames D) c)"
| "reportedNames D (GoExpr n c args) = {}"
| "reportedNames D (ChanRecvExpr n e) = {}"

text \<open>The captures of a lambda: the declared ones among the free names of its body, sorted.\<close>

definition capturesOf :: "Cap \<Rightarrow> names \<Rightarrow> CaptureInfo list" where
  "capturesOf st S = map (captureInfo st) (sorted_list_of_set {x \<in> S. isDefined st x})"

primrec withCaptures :: "Cap \<Rightarrow> Expr \<Rightarrow> Expr" where
  "withCaptures st (IntLiteral n v) = IntLiteral n v"
| "withCaptures st (FloatLiteral n v) = FloatLiteral n v"
| "withCaptures st (StringLiteral n v) = StringLiteral n v"
| "withCaptures st (FStringLiteral n r) = FStringLiteral n r"
| "withCaptures st (FStringExpr n parts) = FStringExpr n parts"
| "withCaptures st (BoolLiteral n v) = BoolLiteral n v"
| "withCaptures st (NullLiteral n) = NullLiteral n"
| "withCaptures st (Identifier n x) = Identifier n x"
| "withCaptures st (ThisExpr n) = ThisExpr n"
| "withCaptures st (SuperExpr n) = SuperExpr n"
| "withCaptures st (LambdaExpr n ps b cs) =
    LambdaExpr n ps (withCaptures st b) (capturesOf st (reportedNames (isDefined st) b - set ps))"
| "withCaptures st (BinaryExpr n op l r) = BinaryExpr n op (withCaptures st l) (withCaptures st r)"
| "withCaptures st (UnaryExpr n op e) = UnaryExpr n op (withCaptures st e)"
| "withCaptures st (CallExpr n c args ts) = CallExpr n (withCaptures st c) (map (withCaptures st) args) ts"
| "withCaptures st (MemberExpr n e m) = MemberExpr n (withCaptures st e) m"
| "withCaptures st (IndexExpr n e i) = IndexExpr n (withCaptures st e) (withCaptures st i)"
| "withCaptures st (TernaryExpr n c t e) =
    TernaryExpr n (withCaptures st c) (withCaptures st t) (withCaptures st e)"
| "withCaptures st (ListExpr n es) = ListExpr n (map (withCaptures st) es)"
| "withCaptures st (DictExpr n kvs) = DictExpr n (map (map_prod (withCaptures st) (withCaptures st)) kvs)"
| "withCaptures st (TupleExpr n es) = TupleExpr n (map (withCaptures st) es)"
| "withCaptures st (SpreadExpr n e) = SpreadExpr n (withCaptures st e)"
| "withCaptures st (DictSpreadExpr n e) = DictSpreadExpr n (withCaptures st e)"
| "withCaptures st (WalrusExpr n x e) = WalrusExpr n x (withCaptures st e)"
| "withCaptures st (ListComprehension n b x i c) =
    ListComprehension n (withCaptures st b) x (withCaptures st i) (map_option (withCaptures st) c)"
| "withCaptures st (DictComprehension n k v x i c) =
    DictComprehension n (withCaptures st k) (withCaptures st v) x (withCaptures st i)
      (map_option (withCaptures st) c)"
| "withCaptures st (SliceExpr n e a b c) =
    SliceExpr n (withCaptures st e) (map_option (withCaptures st) a) (map_option (withCaptures st) b)
      (map_option (withCaptures st) c)"
| "withCaptures st (GoExpr n c args) = GoExpr n c args"
| "withCaptures st (ChanRecvExpr n e) = ChanRecvExpr n e"

section \<open>The walk computes it\<close>

text \<open>A traversal order lists every element of a finite set once.\<close>

definition enumerates :: "(names \<Rightarrow> string list) \<Rightarrow> bool" where
  "enumerates iter \<longleftrightarrow> (\<forall>S. finite S \<longrightarrow> distinct (iter S) \<and> set (iter S) = S)"

lemma finite_reportedNames: "finite (reportedNames D e)"
  by (induction e rule: Expr.induct [where ?P2.0 = "\<lambda>_. True"])
    (auto simp: Basic_BNFs.fsts.simps Basic_BNFs.snds.simps split: option.split)

lemma fold_captureName:
  "fold (captureName st) xs (cs, fv) =
    (cs @ map (captureInfo st) (filter (isDefined st) xs), fv \<union> {x \<in> set xs. \<not> isDefined st x})"
  by (induction xs arbitrary: cs fv) (auto simp: captureName_def)

lemma ci_name_captureInfo [simp]: "ci_name (captureInfo st x) = x"
  by (simp add: captureInfo_def)

lemma insort_captures:
  "insort_key ci_name (captureInfo st x) (map (captureInfo st) xs) = map (captureInfo st) (insort x xs)"
  by (induction xs) simp_all

lemma sort_key_captures: "sort_key ci_name (map (captureInfo st) xs) = map (captureInfo st) (sort xs)"
  by (induction xs) (simp_all add: insort_captures)

lemma captureNames_eq:
  assumes "enumerates iter" and "finite S"
  shows "captureNames iter st S fv = (capturesOf st S, fv \<union> {x \<in> S. \<not> isDefined st x})"
proof -
  have "distinct (iter S)" and "set (iter S) = S"
    using assms by (auto simp: enumerates_def)
  then have "sort (filter (isDefined st) (iter S)) = sorted_list_of_set {x \<in> S. isDefined st x}"
    by (metis distinct_filter set_filter sorted_list_of_set_sort_remdups remdups_id_iff_distinct)
  then show ?thesis
    using \<open>set (iter S) = S\<close>
    by (simp add: captureNames_def fold_captureName sort_key_captures capturesOf_def)
qed

lemma visitAll_expr:
  assumes "\<And>e fv. e \<in> set es \<Longrightarrow> f e fv = (g e, fv \<union> h e)"
  shows "visitAll (map f es) fv = (map g es, fv \<union> \<Union> (set (map h es)))"
  using assms by (induction es arbitrary: fv) (auto simp: Un_assoc)

lemma analyzeExpr_eq:
  assumes "enumerates iter"
  shows "analyzeExpr iter st e fv = (withCaptures st e, fv \<union> reportedNames (isDefined st) e)"
proof (induction e arbitrary: fv rule: Expr.induct [where ?P2.0 = "\<lambda>_. True"])
  case (DictExpr n kvs)
  have "visitAll (map visitPair (map (map_prod (analyzeExpr iter st) (analyzeExpr iter st)) kvs)) fv =
    (map (map_prod (withCaptures st) (withCaptures st)) kvs,
     fv \<union> \<Union> (set (map (\<lambda>(a, b). a \<union> b) (map (map_prod (reportedNames (isDefined st)) (reportedNames (isDefined st))) kvs))))" for fv
    using visitAll_expr [of kvs "\<lambda>p. visitPair (map_prod (analyzeExpr iter st) (analyzeExpr iter st) p)"
        "map_prod (withCaptures st) (withCaptures st)"
        "\<lambda>(a, b). reportedNames (isDefined st) a \<union> reportedNames (isDefined st) b"] DictExpr
    by (fastforce simp: comp_def split_beta Basic_BNFs.fsts.simps Basic_BNFs.snds.simps)
  then show ?case by (simp del: map_map)
next
  case (SliceExpr n e a b c)
  then show ?case by (cases a; cases b; cases c) (simp_all add: Un_ac)
next
  case (ListComprehension n b x i c)
  then show ?case by (cases c) auto
next
  case (DictComprehension n k v x i c)
  then show ?case by (cases c) auto
qed (auto simp: visitAll_expr [where g = "withCaptures st" and h = "reportedNames (isDefined st)"] Un_ac
  captureNames_eq [OF assms] finite_reportedNames)

lemma exprIn_eq: "enumerates iter \<Longrightarrow> exprIn iter e st = withCaptures st e"
  by (simp add: exprIn_def analyzeExpr_eq)

lemma analyzeExpr_frees: "enumerates iter \<Longrightarrow> snd (analyzeExpr iter st e fv) = fv \<union> reportedNames (isDefined st) e"
  by (simp add: analyzeExpr_eq)

text \<open>The captures already in a tree have no influence.\<close>

lemma reportedNames_withCaptures [simp]: "reportedNames D (withCaptures st e) = reportedNames D e"
  by (induction e rule: Expr.induct [where ?P2.0 = "\<lambda>_. True"])
    (auto simp: comp_def Basic_BNFs.fsts.simps Basic_BNFs.snds.simps split: option.split cong: image_cong)

lemma withCaptures_withCaptures [simp]: "withCaptures st (withCaptures st' e) = withCaptures st e"
  by (induction e rule: Expr.induct [where ?P2.0 = "\<lambda>_. True"])
    (auto simp: comp_def option.map_comp Basic_BNFs.fsts.simps Basic_BNFs.snds.simps intro!: option.map_cong)

section \<open>Scopes\<close>

text \<open>
  The names a statement declares in the scope it stands in. Everything else it does to the stacks it
  undoes again, so that its effect on them is to declare these names, in order.
\<close>

fun declares :: "Stmt \<Rightarrow> string list" where
  "declares (AssignStmt n (Identifier m x) v ex ta) = [x]"
| "declares (FuncDef n h b) = [fh_name h]"
| "declares (ClassDef n h b) = [ch_name h]"
| "declares (TupleUnpackStmt n ts v) = ts"
| "declares s = []"

lemma candidates_fold_define [simp]: "byRefCandidatesStack (fold defineName xs st) = byRefCandidatesStack st"
  by (induction xs arbitrary: st) (simp_all add: defineName_def split: list.split)

lemma define_candidates:
  "fold defineName xs (st\<lparr>byRefCandidatesStack := c\<rparr>) = (fold defineName xs st)\<lparr>byRefCandidatesStack := c\<rparr>"
proof (induction xs arbitrary: st)
  case (Cons x xs)
  have "defineName x (st\<lparr>byRefCandidatesStack := c\<rparr>) = (defineName x st)\<lparr>byRefCandidatesStack := c\<rparr>"
    by (simp add: defineName_def split: list.split)
  then show ?case
    using Cons by simp
qed simp

lemma pop_fold_push: "popScope (fold defineName xs (pushScope st)) = st"
proof -
  have "scopes (popScope (fold defineName xs (st\<lparr>scopes := d # scopes st\<rparr>))) = scopes st" for d
    by (induction xs arbitrary: d) (simp_all add: popScope_def defineName_def)
  moreover have "byRefCandidatesStack (popScope (fold defineName xs (pushScope st))) = byRefCandidatesStack st"
    by (simp add: popScope_def split: list.split) (simp add: pushScope_def)
  ultimately show ?thesis
    by (simp add: pushScope_def)
qed

lemma visitAll_effect:
  assumes "\<And>s st. s \<in> set b \<Longrightarrow> snd (f s st) = fold defineName (declares s) st"
  shows "snd (visitAll (map f b) st) = fold defineName (concat (map declares b)) st"
  using assms by (induction b arbitrary: st) (simp_all add: split_beta)

lemma walkList_effect:
  assumes "\<And>s st. s \<in> set b \<Longrightarrow> snd (f s st) = fold defineName (declares s) st"
  shows "snd (walkList b (map f b) st) = fold defineName (concat (map declares b)) st"
  by (simp add: walkList_def pushCandidates_def popCandidates_def define_candidates visitAll_effect [OF assms])

lemma walkScope_effect:
  assumes "\<And>s st. s \<in> set b \<Longrightarrow> snd (f s st) = fold defineName (declares s) st"
  shows "snd (walkScope xs b (map f b) st) = st"
proof -
  have "snd (walkScope xs b (map f b) st) =
      popScope (fold defineName (xs @ concat (map declares b)) (pushScope st))"
    using walkList_effect [of b f] assms by (simp add: walkScope_def)
  then show ?thesis
    by (simp only: pop_fold_push)
qed

lemma visitAll_still: "(\<And>f st. f \<in> set fs \<Longrightarrow> snd (f st) = st) \<Longrightarrow> snd (visitAll fs st) = st"
  by (induction fs arbitrary: st) (simp_all add: split_beta)

lemma zip_map_self: "zip xs (map f xs) = map (\<lambda>x. (x, f x)) xs"
  by (induction xs) simp_all

lemma analyzeStmt_effect: "snd (analyzeStmt iter s st) = fold defineName (declares s) st"
proof (induction s arbitrary: st rule: stmt_induct)
  case (AssignStmt n t v ex ta)
  then show ?case by (cases t) (simp_all add: Let_def)
next
  case (IfStmt n c t es el)
  have "snd (visitAll (map2 (walkElsif iter) es (map (map_prod id (map (analyzeStmt iter))) es)) st) = st" for st
    using IfStmt(2) by (intro visitAll_still) (auto simp: zip_map_self split_beta walkScope_effect)
  then show ?case
    using IfStmt(1,3) by (simp add: split_beta Let_def walkScope_effect)
next
  case (TryStmt n b cs f)
  have "snd (visitAll (map (analyzeCatch iter) cs) st) = st" for st
  proof (rule visitAll_still, simp only: set_map, elim imageE, simp only:)
    fix c st assume "c \<in> set cs"
    moreover obtain ty x b where "c = CatchClause ty x b"
      by (cases c)
    ultimately show "snd (analyzeCatch iter c st) = st"
      using TryStmt(2) by (simp add: split_beta walkScope_effect)
  qed
  then show ?case
    using TryStmt(1,3) by (simp add: split_beta walkScope_effect)
qed (simp_all add: split_beta Let_def walkScope_effect)

lemma analyzeStmtList_effect:
  "snd (analyzeStmtList iter stmts st) = fold defineName (concat (map declares stmts)) st"
  by (simp add: analyzeStmtList_def walkList_effect analyzeStmt_effect)

section \<open>Traversal order\<close>

lemma visitAll_cong: "(\<And>x st. x \<in> set xs \<Longrightarrow> f x st = g x st) \<Longrightarrow> visitAll (map f xs) st = visitAll (map g xs) st"
  by (induction xs arbitrary: st) simp_all

lemma walkList_cong:
  "(\<And>x st. x \<in> set b \<Longrightarrow> f x st = g x st) \<Longrightarrow> walkList b (map f b) st = walkList b (map g b) st"
  by (simp add: walkList_def visitAll_cong [of b f g])

lemma walkScope_cong:
  "(\<And>x st. x \<in> set b \<Longrightarrow> f x st = g x st) \<Longrightarrow> walkScope xs b (map f b) st = walkScope xs b (map g b) st"
  by (simp add: walkScope_def walkList_cong [of b f g])

lemma walkStmts_cong:
  assumes "\<And>s st. s \<in> set b \<Longrightarrow> analyzeStmt iter s st = analyzeStmt iter' s st"
  shows "walkScope xs b (map (analyzeStmt iter) b) st = walkScope xs b (map (analyzeStmt iter') b) st"
  using assms by (rule walkScope_cong)

lemma analyzeStmt_order:
  assumes "enumerates iter" and "enumerates iter'"
  shows "analyzeStmt iter s st = analyzeStmt iter' s st"
proof (induction s arbitrary: st rule: stmt_induct)
  case (IfStmt n c t es el)
  have "visitAll (map2 (walkElsif iter) es (map (map_prod id (map (analyzeStmt iter))) es)) st =
    visitAll (map2 (walkElsif iter') es (map (map_prod id (map (analyzeStmt iter'))) es)) st" for st
  proof -
    have "walkElsif iter p (map_prod id (map (analyzeStmt iter)) p) st =
        walkElsif iter' p (map_prod id (map (analyzeStmt iter')) p) st" if "p \<in> set es" for p st
    proof -
      obtain c b where "p = (c, b)"
        by (cases p)
      then show ?thesis
        using walkStmts_cong [of b iter iter' "[]" st] IfStmt(2) [of c b] that by (simp add: exprIn_eq assms)
    qed
    then show ?thesis
      using visitAll_cong [of es "\<lambda>p. walkElsif iter p (map_prod id (map (analyzeStmt iter)) p)"
          "\<lambda>p. walkElsif iter' p (map_prod id (map (analyzeStmt iter')) p)" st]
      by (simp add: zip_map_self comp_def split_beta)
  qed
  then show ?case
    by (simp only: analyzeStmt.simps exprIn_eq [OF assms(1)] exprIn_eq [OF assms(2)]
        walkStmts_cong [of t iter iter', OF IfStmt(1)] walkStmts_cong [of el iter iter', OF IfStmt(3)])
next
  case (TryStmt n b cs f)
  have "visitAll (map (analyzeCatch iter) cs) st = visitAll (map (analyzeCatch iter') cs) st" for st
  proof (rule visitAll_cong)
    fix c st assume "c \<in> set cs"
    moreover obtain ty x b where "c = CatchClause ty x b"
      by (cases c)
    ultimately show "analyzeCatch iter c st = analyzeCatch iter' c st"
      using walkStmts_cong [of b iter iter' _ st] TryStmt(2) [of ty x b] by simp
  qed
  then show ?case
    by (simp only: analyzeStmt.simps
        walkStmts_cong [of b iter iter', OF TryStmt(1)] walkStmts_cong [of f iter iter', OF TryStmt(3)])
qed (simp_all add: exprIn_eq assms walkStmts_cong [of _ iter iter'])

lemma analyzeStmtList_order:
  "enumerates iter \<Longrightarrow> enumerates iter' \<Longrightarrow> analyzeStmtList iter stmts st = analyzeStmtList iter' stmts st"
  unfolding analyzeStmtList_def by (rule walkList_cong) (rule analyzeStmt_order)

section \<open>Repeating the analysis\<close>

lemma visitAll_again:
  assumes "\<And>x st. x \<in> set xs \<Longrightarrow> f (fst (f x st)) st = f x st"
  shows "visitAll (map f (fst (visitAll (map f xs) st))) st = visitAll (map f xs) st"
  using assms by (induction xs arbitrary: st) (simp_all add: split_beta)

lemma assignedName_analyzed: "assignedName (fst (analyzeStmt iter s st)) = assignedName s"
  by (cases s) (auto simp: split_beta Let_def split: Expr.splits)

lemma declaredName_analyzed: "declaredName (fst (analyzeStmt iter s st)) = declaredName s"
  by (cases s) (auto simp: split_beta Let_def split: Expr.splits)

lemma names_analyzed:
  assumes "\<And>s st. h (fst (analyzeStmt iter s st)) = h s"
  shows "List.map_filter h (fst (visitAll (map (analyzeStmt iter) b) st)) = List.map_filter h b"
  using assms by (induction b arbitrary: st) (simp_all add: split_beta map_filter_simps split: option.split)

lemma candidates_analyzed:
  "byRefCandidates (fst (visitAll (map (analyzeStmt iter) b) st)) = byRefCandidates b"
  by (simp add: byRefCandidates_def names_analyzed [where h = assignedName] assignedName_analyzed)

lemma walkList_again:
  assumes "\<And>s st. s \<in> set b \<Longrightarrow> analyzeStmt iter (fst (analyzeStmt iter s st)) st = analyzeStmt iter s st"
    and "b' = fst (walkList b (map (analyzeStmt iter) b) st)"
  shows "walkList b' (map (analyzeStmt iter) b') st = walkList b (map (analyzeStmt iter) b) st"
  using visitAll_again [of b "analyzeStmt iter"] assms
  by (simp add: walkList_def candidates_analyzed)

lemma walkScope_again:
  assumes "\<And>s st. s \<in> set b \<Longrightarrow> analyzeStmt iter (fst (analyzeStmt iter s st)) st = analyzeStmt iter s st"
  shows "walkScope xs (fst (walkScope xs b (map (analyzeStmt iter) b) st))
      (map (analyzeStmt iter) (fst (walkScope xs b (map (analyzeStmt iter) b) st))) st =
    walkScope xs b (map (analyzeStmt iter) b) st"
  using walkList_again [of b iter] assms by (simp add: walkScope_def)

lemma length_walkScope [simp]: "length (fst (walkScope xs b (map f b) st)) = length b"
  by (simp add: walkScope_def walkList_def visitAll_length)

lemma fst_walkScope_empty [simp]: "fst (walkScope xs [] [] st) = []"
  by (simp add: walkScope_def walkList_def)

lemma walkScope_Nil [simp]: "fst (walkScope xs b (map f b) st) = [] \<longleftrightarrow> b = []"
  using length_walkScope [of xs b f st] by (metis length_0_conv)

lemma exprIn_again: "enumerates iter \<Longrightarrow> exprIn iter (exprIn iter e st) st = exprIn iter e st"
  by (simp add: exprIn_eq)

lemma walkStmts_still: "snd (walkScope xs b (map (analyzeStmt iter) b) st) = st"
  by (simp add: walkScope_effect analyzeStmt_effect)

lemma walkStmts_pair:
  "walkScope xs b (map (analyzeStmt iter) b) st = (fst (walkScope xs b (map (analyzeStmt iter) b) st), st)"
  by (metis prod.collapse walkStmts_still)

definition elsifAt :: "(names \<Rightarrow> string list) \<Rightarrow> Expr \<times> Stmt list \<Rightarrow> Cap \<Rightarrow> (Expr \<times> Stmt list) \<times> Cap" where
  "elsifAt iter p = walkElsif iter p (map_prod id (map (analyzeStmt iter)) p)"

lemma elsifAt_eq: "map2 (walkElsif iter) es (map (map_prod id (map (analyzeStmt iter))) es) = map (elsifAt iter) es"
  by (simp add: zip_map_self elsifAt_def comp_def)

lemma elsifAt_still: "snd (elsifAt iter p st) = st"
  by (cases p) (simp add: elsifAt_def split_beta walkStmts_still)

lemma catch_still: "snd (analyzeCatch iter c st) = st"
  by (cases c) (simp add: split_beta walkStmts_still)

lemma visits_still: "(\<And>x st. snd (f x st) = st) \<Longrightarrow> snd (visitAll (map f xs) st) = st"
  by (rule visitAll_still) auto

text \<open>A branch that is only walked when it is not empty.\<close>

lemma walkBranch:
  "(if b = [] then ([], st) else walkScope [] b (map (analyzeStmt iter) b) st) =
   (fst (walkScope [] b (map (analyzeStmt iter) b) st), st)"
  by (subst walkStmts_pair) simp

lemma analyzeStmt_again:
  assumes "enumerates iter"
  shows "analyzeStmt iter (fst (analyzeStmt iter s st)) st = analyzeStmt iter s st"
proof (induction s arbitrary: st rule: stmt_induct)
  case (AssignStmt n t v ex ta)
  then show ?case
    by (cases t) (simp_all add: Let_def exprIn_again assms)
next
  case (FuncDef n h b)
  then show ?case
    by (simp add: split_beta walkScope_again)
next
  case (ClassDef n h b)
  then show ?case
    by (simp add: split_beta walkScope_again)
next
  case (InitDef n ps b)
  then show ?case
    by (simp add: split_beta walkScope_again)
next
  case (IfStmt n c t es el)
  have e: "elsifAt iter (fst (elsifAt iter p st)) st = elsifAt iter p st" if "p \<in> set es" for p st
  proof -
    obtain c b where "p = (c, b)"
      by (cases p)
    then show ?thesis
      using IfStmt(2) that by (simp add: elsifAt_def split_beta Let_def walkScope_again exprIn_again assms)
  qed
  show ?case
    using IfStmt(1,3) e
    by (simp add: walkBranch elsifAt_eq split_beta Let_def walkStmts_still
        visits_still [OF elsifAt_still] walkScope_again visitAll_again exprIn_again assms)
next
  case (TryStmt n b cs f)
  have c: "analyzeCatch iter (fst (analyzeCatch iter c st)) st = analyzeCatch iter c st" if "c \<in> set cs" for c st
  proof -
    obtain ty x b where "c = CatchClause ty x b"
      by (cases c)
    then show ?thesis
      using TryStmt(2) that by (simp add: split_beta Let_def walkScope_again)
  qed
  show ?case
    using TryStmt(1,3) c
    by (simp add: walkBranch split_beta Let_def walkStmts_still
        visits_still [OF catch_still] walkScope_again visitAll_again)
qed (simp_all add: split_beta Let_def walkScope_again exprIn_again assms option.map_comp comp_def)

section \<open>The analysis of a program\<close>

lemma enumerates_sorted: "enumerates sorted_list_of_set"
  by (simp add: enumerates_def)

lemma analyzeCaptures_stacks: "snd (analyzeCaptures iter p st) = st"
proof -
  let ?xs = "''print'' # List.map_filter declaredName (pr_statements p)"
  have "snd (analyzeCaptures iter p st) =
      popScope (fold defineName (?xs @ concat (map declares (pr_statements p))) (pushScope st))"
    by (simp add: analyzeCaptures_def Let_def split_beta analyzeStmtList_effect)
  then show ?thesis
    by (simp only: pop_fold_push)
qed

section \<open>Captures and free variables\<close>

text \<open>
  The free variables of an expression, in the usual sense: a lambda binds its parameters and a comprehension its
  variable in all but the iterable. The target of a walrus is not a use. (A raw f-string, which the parser never
  makes, has no parsed expressions.)
\<close>

primrec freeVars :: "Expr \<Rightarrow> names" and partVars :: "FStringPart \<Rightarrow> names" where
  "freeVars (IntLiteral n v) = {}"
| "freeVars (FloatLiteral n v) = {}"
| "freeVars (StringLiteral n v) = {}"
| "freeVars (FStringLiteral n r) = {}"
| "freeVars (FStringExpr n parts) = \<Union> (set (map partVars parts))"
| "freeVars (BoolLiteral n v) = {}"
| "freeVars (NullLiteral n) = {}"
| "freeVars (Identifier n x) = {x}"
| "freeVars (ThisExpr n) = {}"
| "freeVars (SuperExpr n) = {}"
| "freeVars (LambdaExpr n ps b cs) = freeVars b - set ps"
| "freeVars (BinaryExpr n op l r) = freeVars l \<union> freeVars r"
| "freeVars (UnaryExpr n op e) = freeVars e"
| "freeVars (CallExpr n c args ts) = freeVars c \<union> \<Union> (set (map freeVars args))"
| "freeVars (MemberExpr n e m) = freeVars e"
| "freeVars (IndexExpr n e i) = freeVars e \<union> freeVars i"
| "freeVars (TernaryExpr n c t e) = freeVars c \<union> freeVars t \<union> freeVars e"
| "freeVars (ListExpr n es) = \<Union> (set (map freeVars es))"
| "freeVars (DictExpr n kvs) = \<Union> (set (map (\<lambda>(a, b). a \<union> b) (map (map_prod freeVars freeVars) kvs)))"
| "freeVars (TupleExpr n es) = \<Union> (set (map freeVars es))"
| "freeVars (SpreadExpr n e) = freeVars e"
| "freeVars (DictSpreadExpr n e) = freeVars e"
| "freeVars (WalrusExpr n x e) = freeVars e"
| "freeVars (ListComprehension n b x i c) =
    freeVars i \<union> (freeVars b \<union> case_option {} id (map_option freeVars c) - {x})"
| "freeVars (DictComprehension n k v x i c) =
    freeVars i \<union> (freeVars k \<union> freeVars v \<union> case_option {} id (map_option freeVars c) - {x})"
| "freeVars (SliceExpr n e a b c) =
    freeVars e \<union> case_option {} id (map_option freeVars a) \<union> case_option {} id (map_option freeVars b) \<union>
    case_option {} id (map_option freeVars c)"
| "freeVars (GoExpr n c args) = freeVars c \<union> \<Union> (set (map freeVars args))"
| "freeVars (ChanRecvExpr n e) = freeVars e"
| "partVars (LitPart s) = {}"
| "partVars (ExprPart e) = freeVars e"

text \<open>
  An expression without the parts a capture is never taken from: f-strings, \<open>go\<close> expressions, channel receives and
  lambdas, each replaced by the null literal.
\<close>

primrec visible :: "Expr \<Rightarrow> Expr" where
  "visible (IntLiteral n v) = IntLiteral n v"
| "visible (FloatLiteral n v) = FloatLiteral n v"
| "visible (StringLiteral n v) = StringLiteral n v"
| "visible (FStringLiteral n r) = FStringLiteral n r"
| "visible (FStringExpr n parts) = NullLiteral n"
| "visible (BoolLiteral n v) = BoolLiteral n v"
| "visible (NullLiteral n) = NullLiteral n"
| "visible (Identifier n x) = Identifier n x"
| "visible (ThisExpr n) = ThisExpr n"
| "visible (SuperExpr n) = SuperExpr n"
| "visible (LambdaExpr n ps b cs) = NullLiteral n"
| "visible (BinaryExpr n op l r) = BinaryExpr n op (visible l) (visible r)"
| "visible (UnaryExpr n op e) = UnaryExpr n op (visible e)"
| "visible (CallExpr n c args ts) = CallExpr n (visible c) (map visible args) ts"
| "visible (MemberExpr n e m) = MemberExpr n (visible e) m"
| "visible (IndexExpr n e i) = IndexExpr n (visible e) (visible i)"
| "visible (TernaryExpr n c t e) = TernaryExpr n (visible c) (visible t) (visible e)"
| "visible (ListExpr n es) = ListExpr n (map visible es)"
| "visible (DictExpr n kvs) = DictExpr n (map (map_prod visible visible) kvs)"
| "visible (TupleExpr n es) = TupleExpr n (map visible es)"
| "visible (SpreadExpr n e) = SpreadExpr n (visible e)"
| "visible (DictSpreadExpr n e) = DictSpreadExpr n (visible e)"
| "visible (WalrusExpr n x e) = WalrusExpr n x (visible e)"
| "visible (ListComprehension n b x i c) = ListComprehension n (visible b) x (visible i) (map_option visible c)"
| "visible (DictComprehension n k v x i c) =
    DictComprehension n (visible k) (visible v) x (visible i) (map_option visible c)"
| "visible (SliceExpr n e a b c) =
    SliceExpr n (visible e) (map_option visible a) (map_option visible b) (map_option visible c)"
| "visible (GoExpr n c args) = NullLiteral n"
| "visible (ChanRecvExpr n e) = NullLiteral n"

lemma in_pairs:
  "x \<in> \<Union> (set (map (\<lambda>(a, b). a \<union> b) (map (map_prod f f) kvs))) \<longleftrightarrow> (\<exists>k v. (k, v) \<in> set kvs \<and> (x \<in> f k \<or> x \<in> f v))"
proof -
  have "map (\<lambda>(a, b). a \<union> b) (map (map_prod f f) kvs) = map (\<lambda>p. f (fst p) \<union> f (snd p)) kvs"
    by (simp add: split_beta)
  then show ?thesis
    by (simp only:) force
qed

lemma in_dict: "x \<in> freeVars (DictExpr n kvs) \<longleftrightarrow> (\<exists>k v. (k, v) \<in> set kvs \<and> (x \<in> freeVars k \<or> x \<in> freeVars v))"
  by (simp only: freeVars.simps in_pairs)

lemma in_visible_dict: "x \<in> freeVars (visible (DictExpr n kvs)) \<longleftrightarrow>
    (\<exists>k v. (k, v) \<in> set kvs \<and> (x \<in> freeVars (visible k) \<or> x \<in> freeVars (visible v)))"
  by (simp only: freeVars.simps visible.simps in_pairs) force

lemma in_reported_dict: "x \<in> reportedNames D (DictExpr n kvs) \<longleftrightarrow>
    (\<exists>k v. (k, v) \<in> set kvs \<and> (x \<in> reportedNames D k \<or> x \<in> reportedNames D v))"
  by (simp only: reportedNames.simps in_pairs)

lemma visible_vars: "freeVars (visible e) \<subseteq> freeVars e"
proof (induction e rule: expr_induct)
  case (DictExpr n kvs)
  then show ?case
    using in_dict [of _ n kvs] in_visible_dict [of _ n kvs] by blast
qed (auto split: option.split)

lemma reported_vars: "reportedNames D e \<subseteq> freeVars e"
proof (induction e rule: expr_induct)
  case (DictExpr n kvs)
  then show ?case
    using in_dict [of _ n kvs] in_reported_dict [of _ D n kvs] by blast
qed (auto split: option.split)

lemma reported_visible: "D x \<Longrightarrow> x \<in> reportedNames D e \<longleftrightarrow> x \<in> freeVars (visible e)"
proof (induction e rule: expr_induct)
  case (DictExpr n kvs)
  then show ?case
    unfolding in_visible_dict [of x n kvs] in_reported_dict [of x D n kvs] by blast
qed (auto split: option.split)

text \<open>
  C9. The walk gives a lambda the sorted list of the names that some open scope declares and that occur free in its
  body, outside its parameters and outside f-strings, \<open>go\<close> expressions, channel receives and nested lambdas; each is
  marked by reference exactly if the innermost statement list assigns it twice. So every captured name is a
  free variable of the lambda, and if its body holds none of the four kinds of expression, which are not
  looked into, every declared free variable is captured. To the enclosing expression it reports only free
  variables of its own that no scope declares.
\<close>

theorem captures_free:
  assumes "enumerates iter"
  shows "\<exists>b' caps fv'. analyzeExpr iter st (LambdaExpr n ps b cs) fv = (LambdaExpr n ps b' caps, fv')
    \<and> map ci_name caps = sorted_list_of_set {x \<in> freeVars (visible b) - set ps. isDefined st x}
    \<and> list_all (\<lambda>c. ci_byReference c = isByRefCandidate st (ci_name c)) caps
    \<and> ci_name ` set caps \<subseteq> {x \<in> freeVars (LambdaExpr n ps b cs). isDefined st x}
    \<and> (visible b = b \<longrightarrow> ci_name ` set caps = {x \<in> freeVars (LambdaExpr n ps b cs). isDefined st x})
    \<and> fv \<subseteq> fv' \<and> fv' \<subseteq> fv \<union> {x \<in> freeVars (LambdaExpr n ps b cs). \<not> isDefined st x}"
proof -
  let ?caps = "capturesOf st (reportedNames (isDefined st) b - set ps)"
  let ?S = "{x \<in> freeVars (visible b) - set ps. isDefined st x}"
  have "{x \<in> reportedNames (isDefined st) b - set ps. isDefined st x} = ?S"
    using reported_visible [of "isDefined st" _ b] by blast
  then have caps: "?caps = map (captureInfo st) (sorted_list_of_set ?S)"
    by (simp add: capturesOf_def)
  have "finite ?S"
    using finite_reportedNames [of "isDefined st" b] reported_visible [of "isDefined st" _ b]
    by (auto intro: rev_finite_subset)
  then have names: "map ci_name ?caps = sorted_list_of_set ?S" "ci_name ` set ?caps = ?S"
    "list_all (\<lambda>c. ci_byReference c = isByRefCandidate st (ci_name c)) ?caps"
    by (simp_all add: caps comp_def list_all_iff captureInfo_def image_image)
  have run: "analyzeExpr iter st (LambdaExpr n ps b cs) fv =
      (LambdaExpr n ps (withCaptures st b) ?caps, fv \<union> {x \<in> reportedNames (isDefined st) b - set ps. \<not> isDefined st x})"
    by (subst analyzeExpr_eq [OF assms]) (simp only: withCaptures.simps reportedNames.simps)
  have "?S \<subseteq> {x \<in> freeVars (LambdaExpr n ps b cs). isDefined st x}"
    using visible_vars [of b] by auto
  moreover have "visible b = b \<Longrightarrow> ?S = {x \<in> freeVars (LambdaExpr n ps b cs). isDefined st x}"
    by simp
  moreover have "{x \<in> reportedNames (isDefined st) b - set ps. \<not> isDefined st x} \<subseteq>
      {x \<in> freeVars (LambdaExpr n ps b cs). \<not> isDefined st x}"
    using reported_vars [of "isDefined st" b] by auto
  ultimately show ?thesis
    using run names by (intro exI conjI) (assumption | blast | simp)+
qed

theorem captures_free_witness:
  "\<exists>b' caps fv'. analyzeExpr sorted_list_of_set \<lparr>scopes = [{''b'', ''a'', ''d''}], byRefCandidatesStack = [{''b''}]\<rparr>
     (LambdaExpr node0 [''x''] (TupleExpr node0 [Identifier node0 ''x'', Identifier node0 ''b'', Identifier node0 ''a'',
       Identifier node0 ''c'', FStringExpr node0 [ExprPart (Identifier node0 ''d'')]]) []) {} =
     (LambdaExpr node0 [''x''] b' caps, fv') \<and> map ci_name caps = [''a'', ''b'']"
  (is "\<exists>b' caps fv'. analyzeExpr _ ?st (LambdaExpr _ _ ?b _) _ = _ \<and> _")
proof -
  have S: "{x \<in> freeVars (visible ?b) - set [''x'']. isDefined ?st x} = {''a'', ''b''}"
    by (auto simp: isDefined_def)
  have "sorted_list_of_set {''a'', ''b''} = [''a'', ''b'']"
    by simp
  then show ?thesis
    using captures_free [OF enumerates_sorted, of ?st node0 "[''x'']" ?b "[]" "{}"] unfolding S by auto
qed

text \<open>
  The captures of a program depend on the program alone, not on the order in which the hash sets of
  the analysis are traversed, and the analysis returns with its scope stack and its stack of by-reference
  candidates as it found them, whatever the program contains.
\<close>

theorem captures_deterministic:
  assumes "enumerates iter" and "enumerates iter'"
  shows "analyzeCaptures iter p st = analyzeCaptures iter' p st \<and> snd (analyzeCaptures iter p st) = st"
  using analyzeStmtList_order [OF assms] by (simp add: analyzeCaptures_stacks) (simp add: analyzeCaptures_def)

theorem captures_deterministic_witness:
  "analyzeCaptures (\<lambda>S. rev (sorted_list_of_set S)) (Program node0 []) cap0 = (Program node0 [], cap0)"
proof -
  have "enumerates (\<lambda>S. rev (sorted_list_of_set S))"
    by (simp add: enumerates_def)
  from captures_deterministic [OF this enumerates_sorted, of "Program node0 []" cap0] show ?thesis
    by (simp add: analyzeCaptures_def analyzeStmtList_def walkList_def cap0_def pushScope_def popScope_def
        pushCandidates_def popCandidates_def defineName_def map_filter_simps)
qed

text \<open>
  The captures found in the tree do not matter: analysing an analysed program again changes nothing.
\<close>

theorem captures_idempotent:
  assumes "enumerates iter"
  shows "analyzeCaptures iter (fst (analyzeCaptures iter p st)) st = analyzeCaptures iter p st"
proof -
  let ?ss = "pr_statements p" and ?F = "analyzeStmt iter"
  have "List.map_filter declaredName (fst (walkList ?ss (map ?F ?ss) st)) = List.map_filter declaredName ?ss" for st
    by (simp add: walkList_def names_analyzed [where h = declaredName] declaredName_analyzed)
  moreover have "walkList (fst (walkList ?ss (map ?F ?ss) st)) (map ?F (fst (walkList ?ss (map ?F ?ss) st))) st =
      walkList ?ss (map ?F ?ss) st" for st
    by (rule walkList_again) (simp_all add: analyzeStmt_again assms)
  ultimately show ?thesis
    by (simp add: analyzeCaptures_def Let_def split_beta analyzeStmtList_def)
qed

text \<open>
  Two things the comments of the analysis say do not hold: a lambda that calls \<^verbatim>\<open>print\<close> does capture
  it, since the name is declared in the outermost scope; and a name is passed on to an enclosing lambda
  exactly when no scope declares it, so a lambda around a lambda captures nothing for it.
\<close>

theorem captures_print_nested:
  assumes "enumerates iter"
  shows "analyzeCaptures iter (Program n [ExprStmt n1 (LambdaExpr n2 [] (Identifier n3 ''print'') [])]) cap0 =
      (Program n [ExprStmt n1 (LambdaExpr n2 [] (Identifier n3 ''print'') [CaptureInfo ''print'' False])], cap0) \<and>
    (\<exists>b' cs'. fst (analyzeExpr iter st (LambdaExpr n ps (LambdaExpr n1 qs b cs) ds) fv) =
      LambdaExpr n ps (LambdaExpr n1 qs b' cs') [])"
proof
  have "{x. x = ''print''} = {''print'' :: string}" and "{x. x = ''print'' \<and> x = ''print''} = {''print'' :: string}"
    by auto
  then show "analyzeCaptures iter (Program n [ExprStmt n1 (LambdaExpr n2 [] (Identifier n3 ''print'') [])]) cap0 =
      (Program n [ExprStmt n1 (LambdaExpr n2 [] (Identifier n3 ''print'') [CaptureInfo ''print'' False])], cap0)"
    by (simp add: analyzeCaptures_def analyzeStmtList_def walkList_def cap0_def pushScope_def popScope_def
        pushCandidates_def popCandidates_def defineName_def map_filter_simps exprIn_eq assms capturesOf_def
        isDefined_def captureInfo_def isByRefCandidate_def byRefCandidates_def)
  have none: "{x \<in> {x \<in> S - set qs. \<not> isDefined st x} - set ps. isDefined st x} = {}" for S
    by blast
  show "\<exists>b' cs'. fst (analyzeExpr iter st (LambdaExpr n ps (LambdaExpr n1 qs b cs) ds) fv) =
      LambdaExpr n ps (LambdaExpr n1 qs b' cs') []"
    unfolding analyzeExpr_eq [OF assms] withCaptures.simps reportedNames.simps capturesOf_def none by simp
qed

theorem captures_print_nested_witness:
  "fst (analyzeExpr sorted_list_of_set \<lparr>scopes = [{''a''}], byRefCandidatesStack = []\<rparr>
    (LambdaExpr node0 [] (LambdaExpr node0 [] (Identifier node0 ''a'') []) []) {}) =
   LambdaExpr node0 [] (LambdaExpr node0 [] (Identifier node0 ''a'') [CaptureInfo ''a'' False]) []"
  (is "fst (analyzeExpr _ ?st _ _) = _")
proof -
  obtain b cs where eq: "fst (analyzeExpr sorted_list_of_set ?st
      (LambdaExpr node0 [] (LambdaExpr node0 [] (Identifier node0 ''a'') []) []) {}) =
      LambdaExpr node0 [] (LambdaExpr node0 [] b cs) []"
    using captures_print_nested [OF enumerates_sorted] by blast
  have "{x \<in> {''a''} - set []. isDefined ?st x} = {''a''}"
    by (auto simp: isDefined_def)
  then show ?thesis
    using eq unfolding analyzeExpr_eq [OF enumerates_sorted] withCaptures.simps reportedNames.simps capturesOf_def
    by (simp add: captureInfo_def isByRefCandidate_def)
qed

theorem captures_idempotent_witness:
  "analyzeCaptures sorted_list_of_set (fst (analyzeCaptures sorted_list_of_set (Program node0
    [ExprStmt node0 (LambdaExpr node0 [] (NullLiteral node0) [CaptureInfo ''a'' True])]) cap0)) cap0 =
   (Program node0 [ExprStmt node0 (LambdaExpr node0 [] (NullLiteral node0) [])], cap0)"
  by (subst captures_idempotent [OF enumerates_sorted])
    (simp add: analyzeCaptures_def analyzeStmtList_def walkList_def cap0_def pushScope_def popScope_def
      pushCandidates_def popCandidates_def defineName_def map_filter_simps exprIn_eq [OF enumerates_sorted]
      capturesOf_def byRefCandidates_def)

end
