(* ===== verification/Class_Analyzer.thy ===== *)
theory Class_Analyzer
  imports Scopes Ast_Induct "HOL-Library.AList" "HOL-Library.Sublist"
begin

text \<open>
  The field analysis (\<^verbatim>\<open>src/class_analyzer.cpp\<close>): for every class of the program, the ordered list of its
  fields, those of the base class first. The classes are held in a hash map, and the order in which it is
  traversed is a parameter, \<open>order\<close>. The second half shows what the analysis computes when no class
  inherits from itself, and that the order matters otherwise.
\<close>

section \<open>State\<close>

record ClassInfo =
  classFields :: "string \<rightharpoonup> string list"
  baseClasses :: "string \<rightharpoonup> string"

definition classInfo0 :: ClassInfo where
  "classInfo0 = \<lparr>classFields = Map.empty, baseClasses = Map.empty\<rparr>"

definition fieldsOf :: "ClassInfo \<Rightarrow> string \<Rightarrow> string list" where
  "fieldsOf st c = (case classFields st c of None \<Rightarrow> [] | Some fs \<Rightarrow> fs)"

text \<open>A field is appended unless the class has it already.\<close>

definition snocNew :: "string \<Rightarrow> string list \<Rightarrow> string list" where
  "snocNew f fs = (if f \<in> set fs then fs else fs @ [f])"

definition addField :: "string \<Rightarrow> string \<Rightarrow> ClassInfo \<Rightarrow> ClassInfo" where
  "addField c f st = st\<lparr>classFields := (classFields st)(c \<mapsto> snocNew f (fieldsOf st c))\<rparr>"

section \<open>Collecting fields\<close>

fun isThisRef :: "Expr \<Rightarrow> bool" where
  "isThisRef (ThisExpr n) = True"
| "isThisRef (Identifier n x) = (x = ''this'' \<or> x = ''self'')"
| "isThisRef e = False"

fun assignedField :: "Expr \<Rightarrow> string option" where
  "assignedField (MemberExpr n e m) = (if isThisRef e then Some m else None)"
| "assignedField e = None"

text \<open>
  The \<open>else\<close> blocks of loops and the bodies of \<open>with\<close> and \<open>match\<close> statements have no case in the code.
\<close>

primrec collectFieldsFromStmt :: "string \<Rightarrow> Stmt \<Rightarrow> ClassInfo \<Rightarrow> ClassInfo"
  and collectFieldsFromCatch :: "string \<Rightarrow> CatchClause \<Rightarrow> ClassInfo \<Rightarrow> ClassInfo" where
  "collectFieldsFromStmt k (InitDef n ps b) st = inTurn (map (collectFieldsFromStmt k) b) st"
| "collectFieldsFromStmt k (FuncDef n h b) st = inTurn (map (collectFieldsFromStmt k) b) st"
| "collectFieldsFromStmt k (AssignStmt n t v ex ta) st =
    (case assignedField t of None \<Rightarrow> st | Some f \<Rightarrow> addField k f st)"
| "collectFieldsFromStmt k (IfStmt n c t es el) st =
    (let st = inTurn (map (collectFieldsFromStmt k) t) st;
         st = inTurn (map (\<lambda>p. inTurn (snd p)) (map (map_prod id (map (collectFieldsFromStmt k))) es)) st
     in inTurn (map (collectFieldsFromStmt k) el) st)"
| "collectFieldsFromStmt k (ForStmt n x xs i b el) st = inTurn (map (collectFieldsFromStmt k) b) st"
| "collectFieldsFromStmt k (WhileStmt n c b el) st = inTurn (map (collectFieldsFromStmt k) b) st"
| "collectFieldsFromStmt k (TryStmt n b cs f) st =
    (let st = inTurn (map (collectFieldsFromStmt k) b) st;
         st = inTurn (map (collectFieldsFromCatch k) cs) st
     in inTurn (map (collectFieldsFromStmt k) f) st)"
| "collectFieldsFromStmt k (ExprStmt n e) st = st"
| "collectFieldsFromStmt k (ConstStmt n x v ta) st = st"
| "collectFieldsFromStmt k (TupleUnpackStmt n ts v) st = st"
| "collectFieldsFromStmt k (ReturnStmt n v) st = st"
| "collectFieldsFromStmt k (BreakStmt n) st = st"
| "collectFieldsFromStmt k (ContinueStmt n) st = st"
| "collectFieldsFromStmt k (PassStmt n) st = st"
| "collectFieldsFromStmt k (ChanSendStmt n c v) st = st"
| "collectFieldsFromStmt k (ClassDef n h b) st = st"
| "collectFieldsFromStmt k (EnumDef n x ms) st = st"
| "collectFieldsFromStmt k (ThrowStmt n e) st = st"
| "collectFieldsFromStmt k (YieldStmt n v) st = st"
| "collectFieldsFromStmt k (AssertStmt n c m) st = st"
| "collectFieldsFromStmt k (DelStmt n t) st = st"
| "collectFieldsFromStmt k (WithStmt n e x b) st = st"
| "collectFieldsFromStmt k (ImportStmt n m) st = st"
| "collectFieldsFromStmt k (FromImportStmt n m xs) st = st"
| "collectFieldsFromStmt k (MatchStmt n e cs) st = st"
| "collectFieldsFromStmt k (InterfaceDef n x ms) st = st"
| "collectFieldsFromCatch k (CatchClause ty x b) st = inTurn (map (collectFieldsFromStmt k) b) st"

definition collectFields :: "string \<Rightarrow> Stmt list \<Rightarrow> ClassInfo \<Rightarrow> ClassInfo" where
  "collectFields k stmts = inTurn (map (collectFieldsFromStmt k) stmts)"

section \<open>Classes in dependency order\<close>

text \<open>The classes of the program and their bodies, a later definition of a name replacing an earlier one.\<close>

type_synonym classDefs = "(string \<times> Stmt list) list"

definition inheritFields :: "string \<Rightarrow> string \<Rightarrow> ClassInfo \<Rightarrow> ClassInfo" where
  "inheritFields name base st = fold (addField name) (fieldsOf st base) st"

function processClass :: "classDefs \<Rightarrow> string \<Rightarrow> ClassInfo \<times> names \<Rightarrow> ClassInfo \<times> names" where
  "processClass defs name (st, processed) =
     (if name \<in> processed then (st, processed)
      else
        let processed = insert name processed;
            (st, processed) =
              (case baseClasses st name of
                 None \<Rightarrow> (st, processed)
               | Some base \<Rightarrow>
                   let (st, processed) =
                     (if map_of defs base \<noteq> None then processClass defs base (st, processed) else (st, processed))
                   in (inheritFields name base st, processed))
        in case map_of defs name of
             None \<Rightarrow> (st, processed)
           | Some body \<Rightarrow> (collectFields name body st, processed))"
  by pat_completeness auto

termination
proof (relation "measure (\<lambda>(defs, name, _, processed). card (insert name (fst ` set defs) - processed))")
  fix defs :: classDefs and name base :: string and processed processed' :: names and st :: ClassInfo
  assume new: "name \<notin> processed" and processed': "processed' = insert name processed"
    and base: "map_of defs base \<noteq> None"
  from base have "base \<in> fst ` set defs"
    by (metis map_of_eq_None_iff)
  then have "insert base (fst ` set defs) - processed' \<subset> insert name (fst ` set defs) - processed"
    using new by (auto simp: processed')
  then show "((defs, base, st, processed'), defs, name, st, processed)
      \<in> measure (\<lambda>(defs, name, _, processed). card (insert name (fst ` set defs) - processed))"
    by (simp add: psubset_card_mono)
qed simp

declare processClass.simps [simp del]

definition recordClass :: "Stmt \<Rightarrow> classDefs \<times> ClassInfo \<Rightarrow> classDefs \<times> ClassInfo" where
  "recordClass s = (\<lambda>(defs, st).
     case s of
       ClassDef n h b \<Rightarrow>
         (AList.update (ch_name h) b defs,
          case ch_baseClass h of
            None \<Rightarrow> st
          | Some base \<Rightarrow> st\<lparr>baseClasses := (baseClasses st)(ch_name h \<mapsto> base)\<rparr>)
     | _ \<Rightarrow> (defs, st))"

definition collectClasses :: "Stmt list \<Rightarrow> ClassInfo \<Rightarrow> classDefs \<times> ClassInfo" where
  "collectClasses stmts st = fold recordClass stmts ([], st)"

definition analyzeClasses :: "string list \<Rightarrow> Program \<Rightarrow> ClassInfo \<Rightarrow> ClassInfo" where
  "analyzeClasses order p st =
     (let (defs, st) = collectClasses (pr_statements p) st
      in fst (fold (processClass defs) order (st, {})))"

section \<open>What a class body contributes\<close>

primrec ownFields :: "Stmt \<Rightarrow> string list" and ownFieldsCatch :: "CatchClause \<Rightarrow> string list" where
  "ownFields (InitDef n ps b) = concat (map ownFields b)"
| "ownFields (FuncDef n h b) = concat (map ownFields b)"
| "ownFields (AssignStmt n t v ex ta) = (case assignedField t of None \<Rightarrow> [] | Some f \<Rightarrow> [f])"
| "ownFields (IfStmt n c t es el) =
    concat (map ownFields t) @ concat (map (\<lambda>p. concat (snd p)) (map (map_prod id (map ownFields)) es)) @
    concat (map ownFields el)"
| "ownFields (ForStmt n x xs i b el) = concat (map ownFields b)"
| "ownFields (WhileStmt n c b el) = concat (map ownFields b)"
| "ownFields (TryStmt n b cs f) =
    concat (map ownFields b) @ concat (map ownFieldsCatch cs) @ concat (map ownFields f)"
| "ownFields (ExprStmt n e) = []"
| "ownFields (ConstStmt n x v ta) = []"
| "ownFields (TupleUnpackStmt n ts v) = []"
| "ownFields (ReturnStmt n v) = []"
| "ownFields (BreakStmt n) = []"
| "ownFields (ContinueStmt n) = []"
| "ownFields (PassStmt n) = []"
| "ownFields (ChanSendStmt n c v) = []"
| "ownFields (ClassDef n h b) = []"
| "ownFields (EnumDef n x ms) = []"
| "ownFields (ThrowStmt n e) = []"
| "ownFields (YieldStmt n v) = []"
| "ownFields (AssertStmt n c m) = []"
| "ownFields (DelStmt n t) = []"
| "ownFields (WithStmt n e x b) = []"
| "ownFields (ImportStmt n m) = []"
| "ownFields (FromImportStmt n m xs) = []"
| "ownFields (MatchStmt n e cs) = []"
| "ownFields (InterfaceDef n x ms) = []"
| "ownFieldsCatch (CatchClause ty x b) = concat (map ownFields b)"

lemma collectFieldsFromStmt_eq: "collectFieldsFromStmt k s st = fold (addField k) (ownFields s) st"
proof (induction s arbitrary: st rule: stmt_induct)
  case (IfStmt n c t es el)
  have es: "inTurn (map (\<lambda>p. inTurn (snd p)) (map (map_prod id (map (collectFieldsFromStmt k))) es)) st =
    fold (addField k) (concat (map (\<lambda>p. concat (snd p)) (map (map_prod id (map ownFields)) es))) st" for st
  proof -
    have "inTurn (map (collectFieldsFromStmt k) (snd p)) st = fold (addField k) (concat (map ownFields (snd p))) st"
      if "p \<in> set es" for p st
      using IfStmt(2) that by (intro inTurn_fold) (metis prod.collapse)
    then show ?thesis
      using inTurn_fold [of es "\<lambda>p. inTurn (map (collectFieldsFromStmt k) (snd p))" "addField k"
          "\<lambda>p. concat (map ownFields (snd p))" st]
      by (simp add: comp_def)
  qed
  show ?case
    using IfStmt(1,3) by (simp add: es inTurn_fold [of _ _ "addField k" ownFields] del: map_map)
next
  case (TryStmt n b cs f)
  have cs: "inTurn (map (collectFieldsFromCatch k) cs) st =
      fold (addField k) (concat (map ownFieldsCatch cs)) st" for st
  proof (rule inTurn_fold)
    fix c st assume "c \<in> set cs"
    moreover obtain ty x b where "c = CatchClause ty x b"
      by (cases c)
    ultimately show "collectFieldsFromCatch k c st = fold (addField k) (ownFieldsCatch c) st"
      using TryStmt(2) by (simp add: inTurn_fold [of _ _ "addField k" ownFields])
  qed
  show ?case
    using TryStmt(1,3) by (simp add: cs inTurn_fold [of _ _ "addField k" ownFields])
qed (auto simp: inTurn_fold [of _ _ "addField k" ownFields] split: option.split)

lemma collectFields_eq: "collectFields k b st = fold (addField k) (concat (map ownFields b)) st"
  by (simp add: collectFields_def inTurn_fold collectFieldsFromStmt_eq)

section \<open>Ordered lists without duplicates\<close>

lemma set_snocNew [simp]: "set (snocNew f fs) = insert f (set fs)"
  by (auto simp: snocNew_def)

lemma distinct_snocNew [simp]: "distinct (snocNew f fs) \<longleftrightarrow> distinct fs"
  by (simp add: snocNew_def)

lemma prefix_snocNew: "prefix fs (snocNew f fs)"
  by (simp add: snocNew_def)

lemma set_addAll [simp]: "set (fold snocNew gs fs) = set fs \<union> set gs"
  by (induction gs arbitrary: fs) auto

lemma distinct_addAll [simp]: "distinct (fold snocNew gs fs) \<longleftrightarrow> distinct fs"
  by (induction gs arbitrary: fs) auto

lemma prefix_addAll: "prefix fs (fold snocNew gs fs)"
  by (induction gs arbitrary: fs) (auto intro: prefix_order.trans prefix_snocNew)

lemma addAll_Nil: "distinct gs \<Longrightarrow> fold snocNew gs [] = gs"
proof -
  have "distinct (fs @ gs) \<Longrightarrow> fold snocNew gs fs = fs @ gs" for fs
    by (induction gs arbitrary: fs) (simp_all add: snocNew_def)
  then show "distinct gs \<Longrightarrow> ?thesis"
    by simp
qed

lemma fieldsOf_addField: "fieldsOf (addField c f st) d = (if d = c then snocNew f (fieldsOf st c) else fieldsOf st d)"
  by (simp add: addField_def fieldsOf_def)

lemma baseClasses_addField [simp]: "baseClasses (addField c f st) = baseClasses st"
  by (simp add: addField_def)

lemma fieldsOf_addFields:
  "fieldsOf (fold (addField c) fs st) d = (if d = c then fold snocNew fs (fieldsOf st c) else fieldsOf st d)"
  by (induction fs arbitrary: st) (simp_all add: fieldsOf_addField)

lemma baseClasses_addFields [simp]: "baseClasses (fold (addField c) fs st) = baseClasses st"
  by (induction fs arbitrary: st) simp_all

section \<open>The fields of a hierarchy\<close>

text \<open>The inheritance edges between classes of the program, from the base to the class.\<close>

definition baseEdges :: "classDefs \<Rightarrow> (string \<rightharpoonup> string) \<Rightarrow> (string \<times> string) set" where
  "baseEdges defs B = {(b, c). B c = Some b \<and> b \<in> dom (map_of defs) \<and> c \<in> dom (map_of defs)}"

definition baseFields :: "(string \<rightharpoonup> string) \<Rightarrow> ClassInfo \<Rightarrow> string \<Rightarrow> string list" where
  "baseFields B st c = (case B c of None \<Rightarrow> [] | Some b \<Rightarrow> fieldsOf st b)"

text \<open>The fields of a class are those of its base, then the new ones of its own body.\<close>

definition settled :: "classDefs \<Rightarrow> (string \<rightharpoonup> string) \<Rightarrow> ClassInfo \<Rightarrow> string \<Rightarrow> bool" where
  "settled defs B st c \<longleftrightarrow>
     fieldsOf st c = fold snocNew (concat (map ownFields (the (map_of defs c)))) (baseFields B st c)"

text \<open>
  What holds between two calls of \<^const>\<open>processClass\<close>: the classes done are settled and so is the base of
  each, every other class has no field yet, and the processed ones not done are waiting for their base.
\<close>

definition progress :: "classDefs \<Rightarrow> (string \<rightharpoonup> string) \<Rightarrow> names \<Rightarrow> names \<Rightarrow> ClassInfo \<Rightarrow> names \<Rightarrow> bool" where
  "progress defs B waiting fin st processed \<longleftrightarrow>
     baseClasses st = B \<and> processed = fin \<union> waiting \<and> fin \<inter> waiting = {} \<and> fin \<subseteq> dom (map_of defs) \<and>
     (\<forall>c\<in>fin. settled defs B st c \<and> distinct (fieldsOf st c)) \<and> (\<forall>c. c \<notin> fin \<longrightarrow> fieldsOf st c = []) \<and>
     (\<forall>c\<in>fin. \<forall>b. (b, c) \<in> baseEdges defs B \<longrightarrow> b \<in> fin)"

definition ownBody :: "classDefs \<Rightarrow> string \<Rightarrow> ClassInfo \<Rightarrow> ClassInfo" where
  "ownBody defs name st = (case map_of defs name of None \<Rightarrow> st | Some body \<Rightarrow> collectFields name body st)"

definition inheritFrom :: "string option \<Rightarrow> string \<Rightarrow> ClassInfo \<Rightarrow> ClassInfo" where
  "inheritFrom base name st = (case base of None \<Rightarrow> st | Some b \<Rightarrow> inheritFields name b st)"

lemma progress_finish:
  assumes pr: "progress defs B (insert name waiting) fin st processed"
    and name: "name \<in> dom (map_of defs)" "name \<notin> waiting"
    and base: "\<And>b. (b, name) \<in> baseEdges defs B \<Longrightarrow> b \<in> fin"
  shows "progress defs B waiting (insert name fin) (ownBody defs name (inheritFrom (B name) name st)) processed"
proof -
  let ?st = "ownBody defs name (inheritFrom (B name) name st)"
  let ?own = "concat (map ownFields (the (map_of defs name)))"
  have new: "name \<notin> fin" and none: "fieldsOf st name = []" and fin: "fin \<subseteq> dom (map_of defs)"
    using pr by (auto simp: progress_def)
  have dist: "distinct (fieldsOf st c)" for c
    using pr by (cases "c \<in> fin") (auto simp: progress_def)
  have at: "fieldsOf ?st c = (if c = name then fold snocNew ?own (baseFields B st name) else fieldsOf st c)" for c
    using name(1) none
    by (auto simp: ownBody_def inheritFrom_def inheritFields_def collectFields_eq fieldsOf_addFields
        baseFields_def addAll_Nil dist split: option.split)
  have selfless: "B name \<noteq> Some name"
    using base [of name] new name(1) by (auto simp: baseEdges_def)
  have "B c \<noteq> Some name" if "c \<in> fin" for c
  proof
    assume "B c = Some name"
    then have "(name, c) \<in> baseEdges defs B"
      using name(1) subsetD [OF fin that] by (auto simp: baseEdges_def)
    then show False
      using pr that new unfolding progress_def by blast
  qed
  then have "baseFields B ?st c = baseFields B st c" if "c \<in> insert name fin" for c
    using that selfless by (auto simp: baseFields_def at split: option.split)
  moreover have "distinct (baseFields B st name)"
    by (simp add: baseFields_def dist split: option.split)
  moreover have "baseClasses ?st = B"
    using pr by (simp add: progress_def ownBody_def inheritFrom_def inheritFields_def collectFields_eq split: option.split)
  ultimately show ?thesis
    using pr new name base by (auto simp: progress_def settled_def at)
qed

lemma processClass_eq:
  assumes "name \<notin> processed"
  shows "processClass defs name (st, processed) =
    (let (st', processed') =
       (case baseClasses st name of
          None \<Rightarrow> (st, insert name processed)
        | Some b \<Rightarrow>
            if b \<in> dom (map_of defs) then processClass defs b (st, insert name processed)
            else (st, insert name processed))
     in (ownBody defs name (inheritFrom (baseClasses st name) name st'), processed'))"
  using assms by (subst processClass.simps)
    (auto simp: ownBody_def inheritFrom_def split_beta Let_def split: option.split)

lemma processClass_progress:
  assumes "acyclic (baseEdges defs B)" and "progress defs B waiting fin st processed"
    and "name \<in> dom (map_of defs)" and "\<forall>w\<in>waiting. (name, w) \<in> (baseEdges defs B)\<^sup>+"
    and "processClass defs name (st, processed) = (st', processed')"
  shows "\<exists>fin'. progress defs B waiting fin' st' processed' \<and> fin \<subseteq> fin' \<and> name \<in> fin'"
  using assms(2-5)
proof (induction "card (dom (map_of defs) - processed)" arbitrary: st processed waiting fin name st' processed'
    rule: less_induct)
  case (less processed st waiting fin name st' processed')
  have "name \<notin> waiting"
    using less.prems(3) assms(1) by (auto simp: acyclic_def)
  show ?case
  proof (cases "name \<in> processed")
    case True
    then show ?thesis
      using less.prems(1,4) \<open>name \<notin> waiting\<close> by (auto simp: processClass.simps progress_def)
  next
    case new: False
    have B: "baseClasses st = B" and wait: "progress defs B (insert name waiting) fin st (insert name processed)"
      using less.prems(1) new by (auto simp: progress_def)
    show ?thesis
    proof (cases "\<exists>b. (b, name) \<in> baseEdges defs B")
      case False
      then have "st' = ownBody defs name (inheritFrom (B name) name st)" and "processed' = insert name processed"
        using less.prems(2,4) new B by (auto simp: processClass_eq baseEdges_def split: option.splits)
      then show ?thesis
        using progress_finish [OF wait less.prems(2) \<open>name \<notin> waiting\<close>] False by blast
    next
      case True
      then obtain b where b: "(b, name) \<in> baseEdges defs B" "B name = Some b" "b \<in> dom (map_of defs)"
        by (auto simp: baseEdges_def)
      obtain st1 where run: "processClass defs b (st, insert name processed) = (st1, processed')"
        and st': "st' = ownBody defs name (inheritFrom (B name) name st1)"
        using less.prems(4) new B b by (auto simp: processClass_eq split_beta Let_def) (metis prod.collapse)
      have "card (dom (map_of defs) - insert name processed) < card (dom (map_of defs) - processed)"
        using less.prems(2) new by (intro psubset_card_mono) (auto simp: finite_dom_map_of)
      moreover have "\<forall>w\<in>insert name waiting. (b, w) \<in> (baseEdges defs B)\<^sup>+"
        using less.prems(3) b(1) by (auto intro: trancl_into_trancl2)
      ultimately obtain fin1 where "progress defs B (insert name waiting) fin1 st1 processed'"
        and "fin \<subseteq> fin1" "b \<in> fin1"
        using less.hyps [OF _ wait b(3) _ run] by blast
      then show ?thesis
        using progress_finish [of defs B name waiting fin1 st1 processed'] less.prems(2) \<open>name \<notin> waiting\<close> b(2)
        unfolding st' by (fastforce simp: baseEdges_def)
    qed
  qed
qed

lemma processClasses_progress:
  assumes "acyclic (baseEdges defs B)" and "set order \<subseteq> dom (map_of defs)" and "progress defs B {} fin st processed"
  shows "\<exists>fin' st' processed'. fold (processClass defs) order (st, processed) = (st', processed') \<and>
    progress defs B {} fin' st' processed' \<and> fin \<subseteq> fin' \<and> set order \<subseteq> fin'"
  using assms(2,3)
proof (induction order arbitrary: st processed fin)
  case (Cons name order)
  obtain st1 processed1 where run: "processClass defs name (st, processed) = (st1, processed1)"
    by (metis prod.collapse)
  then obtain fin1 where "progress defs B {} fin1 st1 processed1" and fin1: "fin \<subseteq> fin1" "name \<in> fin1"
    using processClass_progress [OF assms(1) Cons.prems(2) _ _ run] Cons.prems(1) by (simp, blast)
  then show ?case
    using Cons.IH [of fin1 st1 processed1] Cons.prems(1) run by (fastforce simp del: processClass.simps)
qed auto

text \<open>The classes of a program and the bases they name, before any field is collected.\<close>

definition classesOf :: "Program \<Rightarrow> classDefs" where
  "classesOf p = fst (collectClasses (pr_statements p) classInfo0)"

definition basesOf :: "Program \<Rightarrow> string \<rightharpoonup> string" where
  "basesOf p = baseClasses (snd (collectClasses (pr_statements p) classInfo0))"

lemma collectClasses_fields: "classFields (snd (collectClasses stmts st)) = classFields st"
proof -
  have "classFields (snd (fold recordClass stmts (defs, st))) = classFields st" for defs
  proof (induction stmts arbitrary: defs st)
    case (Cons s stmts)
    obtain defs' st' where "recordClass s (defs, st) = (defs', st')" and "classFields st' = classFields st"
      by (cases s) (auto simp: recordClass_def split: option.splits)
    then show ?case
      using Cons [of defs' st'] by simp
  qed simp
  then show ?thesis
    by (simp add: collectClasses_def)
qed

lemma analyzeClasses_progress:
  assumes "acyclic (baseEdges (classesOf p) (basesOf p))" and "set order = dom (map_of (classesOf p))"
  shows "\<exists>processed. progress (classesOf p) (basesOf p) {} (dom (map_of (classesOf p)))
    (analyzeClasses order p classInfo0) processed"
proof -
  let ?defs = "classesOf p" and ?st = "snd (collectClasses (pr_statements p) classInfo0)"
  have "progress ?defs (basesOf p) {} {} ?st {}"
    by (simp add: progress_def basesOf_def fieldsOf_def collectClasses_fields) (simp add: classInfo0_def)
  then obtain fin st' processed' where run: "fold (processClass ?defs) order (?st, {}) = (st', processed')"
    and pr: "progress ?defs (basesOf p) {} fin st' processed'" and "set order \<subseteq> fin"
    using processClasses_progress [OF assms(1), of order "{}" ?st "{}"] assms(2) by auto
  then have "fin = dom (map_of ?defs)"
    using assms(2) by (auto simp: progress_def)
  moreover have "analyzeClasses order p classInfo0 = st'"
    using run by (simp add: analyzeClasses_def classesOf_def split_beta)
  ultimately show ?thesis
    using pr by auto
qed

lemma settled_unique:
  assumes "acyclic (baseEdges defs B)" and "\<forall>c\<in>dom (map_of defs). settled defs B st c"
    and "\<forall>c\<in>dom (map_of defs). settled defs B st' c"
    and "\<And>c. c \<notin> dom (map_of defs) \<Longrightarrow> fieldsOf st c = fieldsOf st' c"
  shows "fieldsOf st c = fieldsOf st' c"
proof -
  have "finite (baseEdges defs B)"
    by (rule finite_subset [of _ "dom (map_of defs) \<times> dom (map_of defs)"])
      (auto simp: baseEdges_def finite_dom_map_of)
  with assms(1) have "wf (baseEdges defs B)"
    by (simp add: finite_acyclic_wf)
  then show ?thesis
  proof (induction c rule: wf_induct_rule)
    case (less c)
    show ?case
    proof (cases "c \<in> dom (map_of defs)")
      case True
      have "baseFields B st c = baseFields B st' c"
      proof (cases "B c")
        case (Some b)
        then show ?thesis
          using less [of b] assms(4) [of b] True by (cases "b \<in> dom (map_of defs)") (auto simp: baseFields_def baseEdges_def)
      qed (simp add: baseFields_def)
      then show ?thesis
        using assms(2,3) True by (simp add: settled_def)
    qed (simp add: assms(4))
  qed
qed

section \<open>The analysis of a program\<close>


text \<open>
  When no class inherits from itself, the fields do not depend on the order in which the hash map of
  classes is traversed.
\<close>

theorem class_fields_order:
  assumes "acyclic (baseEdges (classesOf p) (basesOf p))"
    and "set order = dom (map_of (classesOf p))" and "set order' = dom (map_of (classesOf p))"
  shows "fieldsOf (analyzeClasses order p classInfo0) c = fieldsOf (analyzeClasses order' p classInfo0) c"
proof (rule settled_unique [OF assms(1)])
  show "\<forall>c\<in>dom (map_of (classesOf p)). settled (classesOf p) (basesOf p) (analyzeClasses order p classInfo0) c"
    and "\<forall>c\<in>dom (map_of (classesOf p)). settled (classesOf p) (basesOf p) (analyzeClasses order' p classInfo0) c"
    using analyzeClasses_progress [OF assms(1,2)] analyzeClasses_progress [OF assms(1,3)]
    by (auto simp: progress_def)
  show "fieldsOf (analyzeClasses order p classInfo0) c = fieldsOf (analyzeClasses order' p classInfo0) c"
    if "c \<notin> dom (map_of (classesOf p))" for c
    using analyzeClasses_progress [OF assms(1,2)] analyzeClasses_progress [OF assms(1,3)] that
    by (auto simp: progress_def dom_def)
qed

section \<open>Example\<close>

text \<open>Two classes; the first assigns \<open>x\<close>, the second assigns \<open>y\<close> and \<open>x\<close>; \<open>baseA\<close> is the base of the first.\<close>

definition exampleClass :: "string \<Rightarrow> string option \<Rightarrow> string list \<Rightarrow> Stmt" where
  "exampleClass name base fs = ClassDef node0 (ClassHead name base [] [] [] [])
     [InitDef node0 [] (map (\<lambda>f. AssignStmt node0 (MemberExpr node0 (ThisExpr node0) f) (NullLiteral node0) [] []) fs)]"

definition exampleClasses :: "string option \<Rightarrow> Program" where
  "exampleClasses baseA = Program node0 [exampleClass ''A'' baseA [''x''], exampleClass ''B'' (Some ''A'') [''y'', ''x'']]"

lemma example_classes:
  "map_of (classesOf (exampleClasses baseA)) = [''A'' \<mapsto> pr_statements (Program node0
     [InitDef node0 [] [AssignStmt node0 (MemberExpr node0 (ThisExpr node0) ''x'') (NullLiteral node0) [] []]]),
   ''B'' \<mapsto> [InitDef node0 [] [AssignStmt node0 (MemberExpr node0 (ThisExpr node0) ''y'') (NullLiteral node0) [] [],
      AssignStmt node0 (MemberExpr node0 (ThisExpr node0) ''x'') (NullLiteral node0) [] []]]]"
  "basesOf (exampleClasses None) = [''B'' \<mapsto> ''A'']"
  "basesOf (exampleClasses (Some ''B'')) = [''A'' \<mapsto> ''B'', ''B'' \<mapsto> ''A'']"
  by (auto simp: classesOf_def basesOf_def exampleClasses_def exampleClass_def collectClasses_def recordClass_def
      classInfo0_def)

lemma example_acyclic: "acyclic (baseEdges (classesOf (exampleClasses None)) (basesOf (exampleClasses None)))"
proof -
  have "baseEdges (classesOf (exampleClasses None)) (basesOf (exampleClasses None)) = {(''A'', ''B'')}"
    by (auto simp: baseEdges_def example_classes split: if_splits)
  then show ?thesis
    by (simp add: acyclic_insert) (simp add: acyclic_def)
qed


theorem class_fields_order_witness:
  "fieldsOf (analyzeClasses [''A'', ''B''] (exampleClasses None) classInfo0) ''A'' =
   fieldsOf (analyzeClasses [''B'', ''A''] (exampleClasses None) classInfo0) ''A''"
  by (rule class_fields_order [OF example_acyclic]) (auto simp: example_classes)

text \<open>
  Without that restriction they do: for two classes that name each other as base, the field list of
  each is decided by the class the traversal reaches first.
\<close>

theorem class_cycle_order:
  "fieldsOf (analyzeClasses [''A'', ''B''] (exampleClasses (Some ''B'')) classInfo0) ''A'' = [''y'', ''x''] \<and>
   fieldsOf (analyzeClasses [''B'', ''A''] (exampleClasses (Some ''B'')) classInfo0) ''A'' = [''x'']"
  by (simp add: analyzeClasses_def exampleClasses_def exampleClass_def collectClasses_def recordClass_def
      classInfo0_def processClass.simps inheritFields_def collectFields_def inTurn_def fieldsOf_def addField_def
      snocNew_def)

end
