(* ===== verification/Escape_Analyzer.thy ===== *)
theory Escape_Analyzer
  imports Scopes Ast_Induct
begin

text \<open>
  The escape analysis (\<^verbatim>\<open>src/escape_analyzer.cpp\<close>): it decides which allocation sites of a function the
  code generator may place on the stack. A site is the value of an assignment; the code identifies it by
  the address of its node, the model by the number of assignments visited before it, which is as unique,
  since each assignment is visited once. The second half shows what the decision guarantees and what it
  does not.
\<close>

section \<open>State\<close>

datatype VarInfo = VarInfo (sourceSite: nat) (escaped: bool)

record Esc =
  stackAllocatable :: "nat \<rightharpoonup> bool"
  loopDepth :: int
  varMap :: "string \<rightharpoonup> VarInfo"
  escapedVars :: names
  isYieldingFunction :: bool
  visited :: nat

definition esc0 :: Esc where
  "esc0 = \<lparr>stackAllocatable = Map.empty, loopDepth = 0, varMap = Map.empty, escapedVars = {},
     isYieldingFunction = False, visited = 0\<rparr>"

definition setSite :: "nat \<Rightarrow> bool \<Rightarrow> Esc \<Rightarrow> Esc" where
  "setSite site b st = st\<lparr>stackAllocatable := (stackAllocatable st)(site \<mapsto> b)\<rparr>"

definition markEscaped :: "string \<Rightarrow> Esc \<Rightarrow> Esc" where
  "markEscaped x st =
     (if x = [] then st
      else
        let st = st\<lparr>escapedVars := insert x (escapedVars st)\<rparr>
        in case varMap st x of
             None \<Rightarrow> st
           | Some info \<Rightarrow>
               (setSite (sourceSite info) False st)
                 \<lparr>varMap := (varMap st)(x \<mapsto> VarInfo (sourceSite info) True)\<rparr>)"

definition registerAlloc :: "nat \<Rightarrow> string \<Rightarrow> Esc \<Rightarrow> Esc" where
  "registerAlloc site x st =
     (if x = [] then st
      else if loopDepth st > 0 \<or> isYieldingFunction st then markEscaped x (setSite site False st)
      else setSite site True (st\<lparr>varMap := (varMap st)(x \<mapsto> VarInfo site False)\<rparr>))"

section \<open>Expressions\<close>

fun markIfName :: "Expr \<Rightarrow> Esc \<Rightarrow> Esc" where
  "markIfName (Identifier n x) st = markEscaped x st"
| "markIfName e st = st"

text \<open>Visiting the arguments of a call: each that is a name escapes, then the argument is visited.\<close>

definition visitArgs :: "Expr list \<Rightarrow> (Esc \<Rightarrow> Esc) list \<Rightarrow> Esc \<Rightarrow> Esc" where
  "visitArgs args visits = inTurn (map2 (\<lambda>a f st. f (markIfName a st)) args visits)"

text \<open>Every expression without a visitor of its own is skipped, with all that is in it.\<close>

primrec visitExpr :: "Expr \<Rightarrow> Esc \<Rightarrow> Esc" where
  "visitExpr (CallExpr n c args ts) st = visitExpr c (visitArgs args (map visitExpr args) st)"
| "visitExpr (ListExpr n es) st = inTurn (map visitExpr es) st"
| "visitExpr (DictExpr n kvs) st =
    inTurn (map (\<lambda>(f, g) st. g (f st)) (map (map_prod visitExpr visitExpr) kvs)) st"
| "visitExpr (TupleExpr n es) st = inTurn (map visitExpr es) st"
| "visitExpr (LambdaExpr n ps b cs) st = fold (\<lambda>c. markEscaped (ci_name c)) cs (visitExpr b st)"
| "visitExpr (MemberExpr n e m) st = visitExpr e st"
| "visitExpr (GoExpr n c args) st =
    visitArgs args (map visitExpr args) (visitExpr c (st\<lparr>isYieldingFunction := True\<rparr>))"
| "visitExpr (ChanRecvExpr n e) st = visitExpr e (st\<lparr>isYieldingFunction := True\<rparr>)"
| "visitExpr (IntLiteral n v) st = st"
| "visitExpr (FloatLiteral n v) st = st"
| "visitExpr (StringLiteral n v) st = st"
| "visitExpr (FStringLiteral n r) st = st"
| "visitExpr (FStringExpr n parts) st = st"
| "visitExpr (BoolLiteral n v) st = st"
| "visitExpr (NullLiteral n) st = st"
| "visitExpr (Identifier n x) st = st"
| "visitExpr (ThisExpr n) st = st"
| "visitExpr (SuperExpr n) st = st"
| "visitExpr (BinaryExpr n op l r) st = st"
| "visitExpr (UnaryExpr n op e) st = st"
| "visitExpr (IndexExpr n e i) st = st"
| "visitExpr (TernaryExpr n c t e) st = st"
| "visitExpr (SliceExpr n e a b c) st = st"
| "visitExpr (ListComprehension n b x i c) st = st"
| "visitExpr (DictComprehension n k v x i c) st = st"
| "visitExpr (SpreadExpr n e) st = st"
| "visitExpr (DictSpreadExpr n e) st = st"
| "visitExpr (WalrusExpr n x e) st = st"

section \<open>Statements\<close>

fun targetName :: "Expr \<Rightarrow> string" where
  "targetName (Identifier n x) = x"
| "targetName e = []"

definition propagate :: "string \<Rightarrow> string \<Rightarrow> Esc \<Rightarrow> Esc" where
  "propagate x y st = (case varMap st x of None \<Rightarrow> st | Some info \<Rightarrow> st\<lparr>varMap := (varMap st)(y \<mapsto> info)\<rparr>)"

fun assignValue :: "nat \<Rightarrow> string \<Rightarrow> Expr \<Rightarrow> Esc \<Rightarrow> Esc" where
  "assignValue site lhs (ListExpr n es) st = registerAlloc site lhs (visitExpr (ListExpr n es) st)"
| "assignValue site lhs (DictExpr n kvs) st = registerAlloc site lhs (visitExpr (DictExpr n kvs) st)"
| "assignValue site lhs (TupleExpr n es) st = registerAlloc site lhs (visitExpr (TupleExpr n es) st)"
| "assignValue site lhs (CallExpr n c args ts) st = registerAlloc site lhs (visitExpr (CallExpr n c args ts) st)"
| "assignValue site lhs (LambdaExpr n ps b cs) st =
    (let st = visitExpr (LambdaExpr n ps b cs) st in if cs \<noteq> [] then registerAlloc site lhs st else st)"
| "assignValue site lhs (Identifier n x) st = propagate x lhs (visitExpr (Identifier n x) st)"
| "assignValue site lhs e st = visitExpr e st"

fun extraTarget :: "string \<Rightarrow> Expr \<Rightarrow> Esc \<Rightarrow> Esc" where
  "extraTarget lhs (Identifier n y) st = propagate lhs y st"
| "extraTarget lhs e st = st"

fun isDisplay :: "Expr \<Rightarrow> bool" where
  "isDisplay (ListExpr n es) = True"
| "isDisplay (DictExpr n kvs) = True"
| "isDisplay (TupleExpr n es) = True"
| "isDisplay e = False"

fun storeTarget :: "nat \<Rightarrow> string \<Rightarrow> Expr \<Rightarrow> Expr \<Rightarrow> Esc \<Rightarrow> Esc" where
  "storeTarget site lhs (MemberExpr n e m) v st =
    (let st = (if lhs \<noteq> [] then markEscaped lhs st else st)
     in if isDisplay v then setSite site False st else st)"
| "storeTarget site lhs (IndexExpr n e i) v st = (if lhs \<noteq> [] then markEscaped lhs st else st)"
| "storeTarget site lhs t v st = st"

definition visitAssign :: "Expr \<Rightarrow> Expr \<Rightarrow> Expr list \<Rightarrow> Esc \<Rightarrow> Esc" where
  "visitAssign t v extra st =
     (let site = visited st;
          lhs = targetName t;
          st = st\<lparr>visited := site + 1\<rparr>;
          st = assignValue site lhs v st;
          st = fold (extraTarget lhs) extra st
      in storeTarget site lhs t v st)"

fun visitReturn :: "Expr \<Rightarrow> Esc \<Rightarrow> Esc" where
  "visitReturn (Identifier n x) st = visitExpr (Identifier n x) (markEscaped x st)"
| "visitReturn e st = visitExpr e (visitExpr e st)"

definition inFunction :: "(Esc \<Rightarrow> Esc) \<Rightarrow> Esc \<Rightarrow> Esc" where
  "inFunction body st =
     (body (st\<lparr>varMap := Map.empty, escapedVars := {}\<rparr>))
       \<lparr>varMap := varMap st, escapedVars := escapedVars st, isYieldingFunction := isYieldingFunction st\<rparr>"

definition inLoop :: "(Esc \<Rightarrow> Esc) \<Rightarrow> Esc \<Rightarrow> Esc" where
  "inLoop body st =
     (let st = body (st\<lparr>loopDepth := loopDepth st + 1\<rparr>) in st\<lparr>loopDepth := loopDepth st - 1\<rparr>)"

fun isFuncDef :: "Stmt \<Rightarrow> bool" where
  "isFuncDef (FuncDef n h b) = True"
| "isFuncDef s = False"

text \<open>
  In a class the methods are visited; \<^verbatim>\<open>init\<close> has no visitor, so that accepting it does nothing.
\<close>

primrec visitStmt :: "Stmt \<Rightarrow> Esc \<Rightarrow> Esc" and visitCatch :: "CatchClause \<Rightarrow> Esc \<Rightarrow> Esc"
  and visitCase :: "MatchCase \<Rightarrow> Esc \<Rightarrow> Esc" where
  "visitStmt (FuncDef n h b) st = inFunction (inTurn (map visitStmt b)) st"
| "visitStmt (ClassDef n h b) st = inTurn (map snd (filter (isFuncDef \<circ> fst) (zip b (map visitStmt b)))) st"
| "visitStmt (IfStmt n c t es el) st =
    (let st = inTurn (map visitStmt t) (visitExpr c st);
         st = inTurn (map (\<lambda>(c, fs) st. inTurn fs (visitExpr c st)) (map (map_prod id (map visitStmt)) es)) st
     in inTurn (map visitStmt el) st)"
| "visitStmt (ForStmt n x xs i b el) st =
    inTurn (map visitStmt el) (inLoop (inTurn (map visitStmt b)) (visitExpr i st))"
| "visitStmt (WhileStmt n c b el) st =
    inTurn (map visitStmt el) (inLoop (inTurn (map visitStmt b)) (visitExpr c st))"
| "visitStmt (ReturnStmt n v) st = (case v of None \<Rightarrow> st | Some e \<Rightarrow> visitReturn e st)"
| "visitStmt (AssignStmt n t v ex ta) st = visitAssign t v ex st"
| "visitStmt (ExprStmt n e) st = visitExpr e st"
| "visitStmt (ThrowStmt n e) st = (case e of None \<Rightarrow> st | Some e \<Rightarrow> visitExpr e st)"
| "visitStmt (TryStmt n b cs f) st =
    inTurn (map visitStmt f) (inTurn (map visitCatch cs) (inTurn (map visitStmt b) st))"
| "visitStmt (MatchStmt n e cs) st = inTurn (map visitCase cs) (visitExpr e st)"
| "visitStmt (ChanSendStmt n c v) st = visitExpr v (visitExpr c (st\<lparr>isYieldingFunction := True\<rparr>))"
| "visitStmt (ConstStmt n x v ta) st = st"
| "visitStmt (TupleUnpackStmt n ts v) st = st"
| "visitStmt (BreakStmt n) st = st"
| "visitStmt (ContinueStmt n) st = st"
| "visitStmt (PassStmt n) st = st"
| "visitStmt (InitDef n ps b) st = st"
| "visitStmt (EnumDef n x ms) st = st"
| "visitStmt (YieldStmt n v) st = st"
| "visitStmt (AssertStmt n c m) st = st"
| "visitStmt (DelStmt n t) st = st"
| "visitStmt (WithStmt n e x b) st = st"
| "visitStmt (ImportStmt n m) st = st"
| "visitStmt (FromImportStmt n m xs) st = st"
| "visitStmt (InterfaceDef n x ms) st = st"
| "visitCatch (CatchClause ty x b) st = inTurn (map visitStmt b) st"
| "visitCase (MatchCase p g b) st = inTurn (map visitStmt b) st"

definition analyzeEscapes :: "Program \<Rightarrow> Esc \<Rightarrow> Esc" where
  "analyzeEscapes p st =
     inTurn (map visitStmt (filter isFuncDef (pr_statements p))) (st\<lparr>stackAllocatable := Map.empty\<rparr>)"

section \<open>What a visit changes\<close>

text \<open>
  The relation between the states before and after a visit: the loop depth is restored, a function that
  yields keeps doing so, and the only sites newly marked are those of assignments met by the visit, outside
  loops and before the function yields.
\<close>

definition calm :: "Esc \<Rightarrow> Esc \<Rightarrow> bool" where
  "calm st st' \<longleftrightarrow>
     loopDepth st' = loopDepth st \<and> (isYieldingFunction st \<longrightarrow> isYieldingFunction st') \<and> visited st \<le> visited st' \<and>
     (\<forall>i. stackAllocatable st' i = Some True \<longrightarrow> stackAllocatable st i = Some True \<or>
        visited st \<le> i \<and> i < visited st' \<and> loopDepth st \<le> 0 \<and> \<not> isYieldingFunction st)"

text \<open>The site a variable stands for.\<close>

definition varSite :: "Esc \<Rightarrow> string \<Rightarrow> nat option" where
  "varSite st x = map_option sourceSite (varMap st x)"

text \<open>An expression marks no site at all, and moves no variable.\<close>

definition still :: "Esc \<Rightarrow> Esc \<Rightarrow> bool" where
  "still st st' \<longleftrightarrow>
     loopDepth st' = loopDepth st \<and> (isYieldingFunction st \<longrightarrow> isYieldingFunction st') \<and> visited st' = visited st \<and>
     (\<forall>i. stackAllocatable st' i = Some True \<longrightarrow> stackAllocatable st i = Some True) \<and> varSite st' = varSite st"

lemma calm_refl [simp]: "calm st st"
  by (simp add: calm_def)

lemma calm_trans: "calm a b \<Longrightarrow> calm b c \<Longrightarrow> calm a c"
  unfolding calm_def by (smt (verit, best) le_trans less_le_trans order.trans)

lemma still_refl [simp]: "still st st"
  by (simp add: still_def)

lemma still_trans: "still a b \<Longrightarrow> still b c \<Longrightarrow> still a c"
  by (simp add: still_def)

lemma still_calm: "still st st' \<Longrightarrow> calm st st'"
  by (auto simp: still_def calm_def)

lemmas calm_inTurn = inTurn_rel [where R = calm, OF calm_refl calm_trans]
lemmas still_inTurn = inTurn_rel [where R = still, OF still_refl still_trans]

lemma still_yielding: "still st (st\<lparr>isYieldingFunction := True\<rparr>)"
  by (simp add: still_def varSite_def fun_eq_iff)

lemma still_markEscaped: "still st (markEscaped x st)"
  by (auto simp: still_def markEscaped_def varSite_def Let_def setSite_def fun_eq_iff split: option.split)

lemma still_markIfName: "still st (markIfName e st)"
  by (cases e) (simp_all add: still_markEscaped)

lemma still_fold: "(\<And>x st. still st (f x st)) \<Longrightarrow> still st (fold f xs st)"
  by (induction xs arbitrary: st) (auto intro: still_trans)

lemma still_visitArgs:
  assumes "\<And>f st. f \<in> set fs \<Longrightarrow> still st (f st)"
  shows "still st (visitArgs args fs st)"
  unfolding visitArgs_def
proof (rule still_inTurn)
  fix g st assume "g \<in> set (map2 (\<lambda>a f st. f (markIfName a st)) args fs)"
  then obtain a f where "g = (\<lambda>st. f (markIfName a st))" and "(a, f) \<in> set (zip args fs)"
    by auto
  then show "still st (g st)"
    using assms by (auto intro: still_trans [OF still_markIfName] dest: set_zip_rightD)
qed

lemma still_visitExpr: "still st (visitExpr e st)"
proof (induction e arbitrary: st rule: expr_induct)
  case (CallExpr n c args ts)
  then show ?case
    by (auto intro!: still_trans [OF still_visitArgs CallExpr(1)])
next
  case (GoExpr n c args)
  then show ?case
    by (auto intro!: still_trans [OF still_trans [OF still_yielding GoExpr(1)] still_visitArgs])
next
  case (DictExpr n kvs)
  then show ?case
    by (auto intro!: still_inTurn still_trans [OF DictExpr(1) DictExpr(2)])
next
  case (LambdaExpr n ps b cs)
  then show ?case
    using still_trans [OF LambdaExpr still_fold [OF still_markEscaped]] by simp
next
  case (ChanRecvExpr n e)
  then show ?case
    using still_trans [OF still_yielding ChanRecvExpr] by simp
qed (auto intro!: still_inTurn)

section \<open>What a statement changes\<close>

lemma calm_setSite: "calm st (setSite i False st)"
  by (simp add: calm_def setSite_def)

lemma calm_propagate: "calm st (propagate x y st)"
  by (simp add: calm_def propagate_def split: option.split)

lemma calm_visitExpr: "calm st (visitExpr e st)"
  by (rule still_calm [OF still_visitExpr])

lemma calm_markEscaped: "calm st (markEscaped x st)"
  by (rule still_calm [OF still_markEscaped])

lemma calm_extraTargets: "calm st (fold (extraTarget lhs) ex st)"
proof (induction ex arbitrary: st)
  case (Cons e ex)
  have "calm st (extraTarget lhs e st)"
    by (cases e) (simp_all add: calm_propagate)
  then show ?case
    using Cons by (auto intro: calm_trans)
qed simp

lemma calm_storeTarget: "calm st (storeTarget site lhs t v st)"
  by (cases t) (auto simp: Let_def calm_setSite calm_markEscaped intro: calm_trans [OF calm_markEscaped calm_setSite])

text \<open>The value of an assignment, just after its site has been numbered.\<close>

lemma calm_registerAlloc:
  assumes "still (st\<lparr>visited := Suc (visited st)\<rparr>) st'"
  shows "calm st (registerAlloc (visited st) x st')"
proof -
  have "calm st st'"
    using assms by (auto simp: still_def calm_def)
  moreover have "calm st' (registerAlloc (visited st) x st')" if "loopDepth st' > 0 \<or> isYieldingFunction st'"
    using that calm_trans [OF calm_setSite calm_markEscaped] by (simp add: registerAlloc_def)
  moreover have "calm st (registerAlloc (visited st) x st')" if "\<not> (loopDepth st' > 0 \<or> isYieldingFunction st')"
    using that assms by (auto simp: registerAlloc_def calm_def still_def setSite_def)
  ultimately show ?thesis
    by (blast intro: calm_trans)
qed

lemma calm_assignValue: "calm st (assignValue (visited st) lhs v (st\<lparr>visited := visited st + 1\<rparr>))"
proof -
  let ?st = "st\<lparr>visited := Suc (visited st)\<rparr>"
  have "calm st ?st"
    by (simp add: calm_def)
  then have "calm st (visitExpr e ?st)" and "calm st (propagate x lhs (visitExpr e ?st))" for e x
    using calm_trans calm_visitExpr calm_propagate by blast+
  moreover have "calm st (registerAlloc (visited st) lhs (visitExpr e ?st))" for e
    by (rule calm_registerAlloc [OF still_visitExpr])
  ultimately show ?thesis
    by (cases v) (simp_all add: Let_def del: visitExpr.simps)
qed

lemma calm_visitAssign: "calm st (visitAssign t v ex st)"
  unfolding visitAssign_def Let_def
  by (intro calm_trans [OF calm_trans [OF calm_assignValue calm_extraTargets] calm_storeTarget])

lemma calm_visitReturn: "calm st (visitReturn e st)"
  by (cases e) (auto intro: calm_trans calm_visitExpr calm_markEscaped simp del: visitExpr.simps)

lemma calm_inFunction: "(\<And>st. calm st (f st)) \<Longrightarrow> calm st (inFunction f st)"
proof -
  assume f: "\<And>st. calm st (f st)"
  show ?thesis
    using f [of "st\<lparr>varMap := Map.empty, escapedVars := {}\<rparr>"] by (simp add: calm_def inFunction_def)
qed

lemma calm_inLoop: "(\<And>st. calm st (f st)) \<Longrightarrow> calm st (inLoop f st)"
proof -
  assume f: "\<And>st. calm st (f st)"
  show ?thesis
    using f [of "st\<lparr>loopDepth := loopDepth st + 1\<rparr>"] by (auto simp: calm_def inLoop_def Let_def)
qed

lemma calm_visitStmt: "calm st (visitStmt s st)"
proof (induction s arbitrary: st rule: stmt_induct)
  case (ClassDef n h b)
  then show ?case
    by (auto intro!: calm_inTurn simp: zip_map2 set_zip in_set_conv_nth) (metis nth_mem)
next
  case (IfStmt n c t es el)
  have elsifs: "calm st (inTurn (map (\<lambda>(c, fs) st. inTurn fs (visitExpr c st)) (map (map_prod id (map visitStmt)) es)) st)"
    for st
  proof (rule calm_inTurn)
    fix f st assume "f \<in> set (map (\<lambda>(c, fs) st. inTurn fs (visitExpr c st)) (map (map_prod id (map visitStmt)) es))"
    then obtain c b where "(c, b) \<in> set es" and "f = (\<lambda>st. inTurn (map visitStmt b) (visitExpr c st))"
      by auto
    then show "calm st (f st)"
      using IfStmt(2) by (simp, intro calm_trans [OF calm_visitExpr calm_inTurn]) auto
  qed
  show ?case
    unfolding visitStmt.simps Let_def
    by (rule calm_trans [OF calm_trans [OF calm_trans [OF calm_visitExpr calm_inTurn] elsifs] calm_inTurn])
      (use IfStmt(1,3) in auto)
next
  case (TryStmt n b cs f)
  have catches: "calm st (inTurn (map visitCatch cs) st)" for st
  proof (rule calm_inTurn)
    fix f st assume "f \<in> set (map visitCatch cs)"
    then obtain c where "c \<in> set cs" and "f = visitCatch c"
      by auto
    moreover obtain ty x b where "c = CatchClause ty x b"
      by (cases c)
    ultimately show "calm st (f st)"
      using TryStmt(2) by (auto intro!: calm_inTurn)
  qed
  show ?case
    unfolding visitStmt.simps
    by (rule calm_trans [OF calm_trans [OF calm_inTurn catches] calm_inTurn]) (use TryStmt(1,3) in auto)
next
  case (MatchStmt n e cs)
  have "calm st (visitCase c st)" if "c \<in> set cs" for c st
  proof -
    obtain p g b where "c = MatchCase p g b"
      by (cases c)
    then show ?thesis
      using MatchStmt that by (auto intro!: calm_inTurn)
  qed
  then show ?case
    by (auto intro!: calm_trans [OF calm_visitExpr calm_inTurn])
next
  case (ChanSendStmt n c v)
  then show ?case
    using calm_trans [OF calm_trans [OF still_calm [OF still_yielding] calm_visitExpr] calm_visitExpr] by simp
next
  case (ForStmt n x xs i b el)
  show ?case
    unfolding visitStmt.simps
    by (rule calm_trans [OF calm_trans [OF calm_visitExpr calm_inLoop [OF calm_inTurn]] calm_inTurn])
      (use ForStmt in auto)
next
  case (WhileStmt n c b el)
  show ?case
    unfolding visitStmt.simps
    by (rule calm_trans [OF calm_trans [OF calm_visitExpr calm_inLoop [OF calm_inTurn]] calm_inTurn])
      (use WhileStmt in auto)
qed (auto simp: calm_visitAssign calm_visitReturn calm_visitExpr split: option.split
  intro!: calm_inFunction calm_inTurn)

lemma calm_visitStmts: "calm st (inTurn (map visitStmt b) st)"
  by (rule calm_inTurn) (auto simp: calm_visitStmt)

section \<open>Which variables a statement rebinds\<close>

primrec rebinds :: "Stmt \<Rightarrow> names" and rebindsCatch :: "CatchClause \<Rightarrow> names" and rebindsCase :: "MatchCase \<Rightarrow> names" where
  "rebinds (AssignStmt n t v ex ta) = insert (targetName t) (targetName ` set ex)"
| "rebinds (IfStmt n c t es el) = \<Union> (set (map rebinds t)) \<union>
     \<Union> (set (map (\<lambda>p. \<Union> (set (snd p))) (map (map_prod id (map rebinds)) es))) \<union> \<Union> (set (map rebinds el))"
| "rebinds (ForStmt n x xs i b el) = \<Union> (set (map rebinds b)) \<union> \<Union> (set (map rebinds el))"
| "rebinds (WhileStmt n c b el) = \<Union> (set (map rebinds b)) \<union> \<Union> (set (map rebinds el))"
| "rebinds (TryStmt n b cs f) =
     \<Union> (set (map rebinds b)) \<union> \<Union> (set (map rebindsCatch cs)) \<union> \<Union> (set (map rebinds f))"
| "rebinds (MatchStmt n e cs) = \<Union> (set (map rebindsCase cs))"
| "rebinds (FuncDef n h b) = {}"
| "rebinds (ClassDef n h b) = {}"
| "rebinds (ReturnStmt n v) = {}"
| "rebinds (ExprStmt n e) = {}"
| "rebinds (ThrowStmt n e) = {}"
| "rebinds (ChanSendStmt n c v) = {}"
| "rebinds (ConstStmt n x v ta) = {}"
| "rebinds (TupleUnpackStmt n ts v) = {}"
| "rebinds (BreakStmt n) = {}"
| "rebinds (ContinueStmt n) = {}"
| "rebinds (PassStmt n) = {}"
| "rebinds (InitDef n ps b) = {}"
| "rebinds (EnumDef n x ms) = {}"
| "rebinds (YieldStmt n v) = {}"
| "rebinds (AssertStmt n c m) = {}"
| "rebinds (DelStmt n t) = {}"
| "rebinds (WithStmt n e x b) = {}"
| "rebinds (ImportStmt n m) = {}"
| "rebinds (FromImportStmt n m xs) = {}"
| "rebinds (InterfaceDef n x ms) = {}"
| "rebindsCatch (CatchClause ty x b) = \<Union> (set (map rebinds b))"
| "rebindsCase (MatchCase p g b) = \<Union> (set (map rebinds b))"

definition keeps :: "string \<Rightarrow> Esc \<Rightarrow> Esc \<Rightarrow> bool" where
  "keeps x st st' \<longleftrightarrow> varSite st' x = varSite st x"

lemma keeps_refl [simp]: "keeps x st st"
  by (simp add: keeps_def)

lemma keeps_trans: "keeps x a b \<Longrightarrow> keeps x b c \<Longrightarrow> keeps x a c"
  by (simp add: keeps_def)

lemmas keeps_inTurn = inTurn_rel [where R = "keeps x" for x, OF keeps_refl keeps_trans]

lemma keeps_still: "still st st' \<Longrightarrow> keeps x st st'"
  by (simp add: still_def keeps_def)

lemma keeps_visitExpr: "keeps x st (visitExpr e st)"
  by (rule keeps_still [OF still_visitExpr])

lemma keeps_markEscaped: "keeps x st (markEscaped y st)"
  by (rule keeps_still [OF still_markEscaped])

lemma keeps_propagate: "y \<noteq> x \<Longrightarrow> keeps x st (propagate z y st)"
  by (simp add: keeps_def propagate_def varSite_def split: option.split)

lemma keeps_setSite: "keeps x st (setSite i b st)"
  by (simp add: keeps_def setSite_def varSite_def)

lemma keeps_registerAlloc: "y \<noteq> x \<Longrightarrow> keeps x st (registerAlloc i y st)"
  using keeps_trans [OF keeps_setSite keeps_markEscaped]
  by (auto simp: registerAlloc_def) (simp add: keeps_def varSite_def setSite_def)

lemma keeps_assignValue: "lhs \<noteq> x \<Longrightarrow> keeps x st (assignValue i lhs v st)"
  by (cases v) (auto simp: Let_def simp del: visitExpr.simps
    intro: keeps_trans [OF keeps_visitExpr keeps_registerAlloc] keeps_trans [OF keeps_visitExpr keeps_propagate]
      keeps_visitExpr)

lemma keeps_extraTargets: "x \<notin> targetName ` set ex \<Longrightarrow> keeps x st (fold (extraTarget lhs) ex st)"
proof (induction ex arbitrary: st)
  case (Cons e ex)
  have "keeps x st (extraTarget lhs e st)"
    using Cons.prems by (cases e) (auto simp: keeps_propagate)
  then show ?case
    using Cons by (auto intro: keeps_trans)
qed simp

lemma keeps_storeTarget: "keeps x st (storeTarget i lhs t v st)"
  by (cases t) (auto simp: Let_def keeps_setSite keeps_markEscaped intro: keeps_trans [OF keeps_markEscaped keeps_setSite])

lemma keeps_visitAssign:
  assumes "targetName t \<noteq> x" and "x \<notin> targetName ` set ex"
  shows "keeps x st (visitAssign t v ex st)"
proof -
  have "keeps x st (st\<lparr>visited := visited st + 1\<rparr>)"
    by (simp add: keeps_def varSite_def)
  then show ?thesis
    unfolding visitAssign_def Let_def
    using keeps_trans [OF keeps_trans [OF keeps_trans [OF _ keeps_assignValue] keeps_extraTargets] keeps_storeTarget] assms
    by blast
qed

lemma keeps_visitReturn: "keeps x st (visitReturn e st)"
  by (cases e) (auto intro: keeps_trans [OF keeps_visitExpr keeps_visitExpr] keeps_trans [OF keeps_markEscaped keeps_visitExpr]
    simp del: visitExpr.simps)

lemma keeps_inLoop: "(\<And>st. keeps x st (f st)) \<Longrightarrow> keeps x st (inLoop f st)"
proof -
  assume f: "\<And>st. keeps x st (f st)"
  show ?thesis
    using f [of "st\<lparr>loopDepth := loopDepth st + 1\<rparr>"] by (simp add: keeps_def varSite_def inLoop_def Let_def)
qed

lemma keeps_visitStmt: "x \<notin> rebinds s \<Longrightarrow> keeps x st (visitStmt s st)"
proof (induction s arbitrary: st rule: stmt_induct)
  case (AssignStmt n t v ex ta)
  then show ?case
    by (auto intro: keeps_visitAssign)
next
  case (FuncDef n h b)
  show ?case
    by (simp add: keeps_def inFunction_def varSite_def)
next
  case (ClassDef n h b)
  have "keeps x st (visitStmt s st)" if "isFuncDef s" for s st
    using that by (cases s) (simp_all add: keeps_def inFunction_def varSite_def)
  then show ?case
    by (auto intro!: keeps_inTurn simp: in_set_conv_nth zip_map2 set_zip)
next
  case (IfStmt n c t es el)
  have elsifs: "keeps x st (inTurn (map (\<lambda>(c, fs) st. inTurn fs (visitExpr c st)) (map (map_prod id (map visitStmt)) es)) st)"
    for st
  proof (rule keeps_inTurn)
    fix f st assume "f \<in> set (map (\<lambda>(c, fs) st. inTurn fs (visitExpr c st)) (map (map_prod id (map visitStmt)) es))"
    then obtain c b where "(c, b) \<in> set es" and "f = (\<lambda>st. inTurn (map visitStmt b) (visitExpr c st))"
      by auto
    then show "keeps x st (f st)"
      using IfStmt(2,4) by (simp, intro keeps_trans [OF keeps_visitExpr keeps_inTurn]) fastforce+
  qed
  show ?case
    unfolding visitStmt.simps Let_def
    by (rule keeps_trans [OF keeps_trans [OF keeps_trans [OF keeps_visitExpr keeps_inTurn] elsifs] keeps_inTurn])
      (use IfStmt in auto)
next
  case (TryStmt n b cs f)
  have catches: "keeps x st (inTurn (map visitCatch cs) st)" for st
  proof (rule keeps_inTurn)
    fix f st assume "f \<in> set (map visitCatch cs)"
    then obtain c where "c \<in> set cs" and "f = visitCatch c"
      by auto
    moreover obtain ty y b where "c = CatchClause ty y b"
      by (cases c)
    ultimately show "keeps x st (f st)"
      using TryStmt(2,4) by (fastforce intro!: keeps_inTurn)
  qed
  show ?case
    unfolding visitStmt.simps
    by (rule keeps_trans [OF keeps_trans [OF keeps_inTurn catches] keeps_inTurn]) (use TryStmt in auto)
next
  case (MatchStmt n e cs)
  have cases: "keeps x st (inTurn (map visitCase cs) st)" for st
  proof (rule keeps_inTurn)
    fix f st assume "f \<in> set (map visitCase cs)"
    then obtain c where "c \<in> set cs" and "f = visitCase c"
      by auto
    moreover obtain p g b where "c = MatchCase p g b"
      by (cases c)
    ultimately show "keeps x st (f st)"
      using MatchStmt by (fastforce intro!: keeps_inTurn)
  qed
  show ?case
    unfolding visitStmt.simps by (rule keeps_trans [OF keeps_visitExpr cases])
next
  case (ForStmt n y ys i b el)
  show ?case
    unfolding visitStmt.simps
    by (rule keeps_trans [OF keeps_trans [OF keeps_visitExpr keeps_inLoop [OF keeps_inTurn]] keeps_inTurn])
      (use ForStmt in auto)
next
  case (WhileStmt n c b el)
  show ?case
    unfolding visitStmt.simps
    by (rule keeps_trans [OF keeps_trans [OF keeps_visitExpr keeps_inLoop [OF keeps_inTurn]] keeps_inTurn])
      (use WhileStmt in auto)
next
  case (ChanSendStmt n c v)
  show ?case
    using keeps_trans [OF keeps_trans [OF keeps_still [OF still_yielding] keeps_visitExpr] keeps_visitExpr] by simp
qed (auto simp: keeps_visitReturn keeps_visitExpr split: option.split)

section \<open>The decision\<close>

text \<open>
  Visiting a statement marks as stack-allocatable only the assignments it meets itself, and those only
  outside loops and before the function has met a channel operation: inside a loop, or once the function is
  known to yield, no site is marked, and a site that is not marked when its assignment has been passed
  never becomes marked again. The loop depth is restored.
\<close>

theorem escape_marks:
  "loopDepth (visitStmt s st) = loopDepth st \<and>
   {i. stackAllocatable (visitStmt s st) i = Some True} \<subseteq> {i. stackAllocatable st i = Some True} \<union>
     (if loopDepth st > 0 \<or> isYieldingFunction st then {} else {visited st ..< visited (visitStmt s st)})"
  using calm_visitStmt [of st s] by (auto simp: calm_def)

lemma registerAlloc_tracked:
  "x \<noteq> [] \<Longrightarrow> stackAllocatable (registerAlloc i x st) i = Some True \<Longrightarrow>
   varSite (registerAlloc i x st) x = Some i"
  by (auto simp: registerAlloc_def setSite_def markEscaped_def varSite_def Let_def split: if_splits option.splits)

lemma visited_assignValue: "visited (assignValue i x v st) = visited st"
proof -
  have "visited (visitExpr e st) = visited st" for e
    using still_visitExpr [of st e] by (simp add: still_def)
  moreover have "visited (registerAlloc i x st') = visited st'" for st'
    by (simp add: registerAlloc_def markEscaped_def setSite_def Let_def split: option.split)
  moreover have "visited (propagate y x st') = visited st'" for y st'
    by (simp add: propagate_def split: option.split)
  ultimately show ?thesis
    by (cases v) (simp_all add: Let_def del: visitExpr.simps)
qed

lemma extraTargets_marks:
  "stackAllocatable (fold (extraTarget x) ex st) = stackAllocatable st \<and> visited (fold (extraTarget x) ex st) = visited st"
proof (induction ex arbitrary: st)
  case (Cons e ex)
  have "stackAllocatable (extraTarget x e st) = stackAllocatable st \<and> visited (extraTarget x e st) = visited st"
    by (cases e) (simp_all add: propagate_def split: option.split)
  then show ?case
    using Cons by simp
qed simp

lemma visitAssign_tracked:
  assumes "x \<noteq> []" and "stackAllocatable st (visited st) \<noteq> Some True"
    and "stackAllocatable (visitAssign (Identifier m x) v ex st) (visited st) = Some True"
  shows "varSite (visitAssign (Identifier m x) v ex st) x = Some (visited st)"
proof -
  let ?i = "visited st"
  let ?st = "assignValue ?i x v (st\<lparr>visited := ?i + 1\<rparr>)"
  have mark: "stackAllocatable ?st ?i = Some True"
    using assms(3) by (simp add: visitAssign_def Let_def extraTargets_marks)
  have old: "stackAllocatable (visitExpr e (st\<lparr>visited := ?i + 1\<rparr>)) ?i \<noteq> Some True" for e
    using still_visitExpr [of "st\<lparr>visited := ?i + 1\<rparr>" e] assms(2) by (auto simp: still_def)
  have "stackAllocatable (propagate y x st') = stackAllocatable st'" for y st'
    by (simp add: propagate_def split: option.split)
  then have "varSite ?st x = Some ?i"
    using mark old assms(1)
    by (cases v) (auto simp: Let_def registerAlloc_tracked simp del: visitExpr.simps split: if_splits)
  moreover have "varSite (fold (extraTarget x) ex st') x = varSite st' x" for st'
  proof (induction ex arbitrary: st')
    case (Cons e ex)
    have "varSite (extraTarget x e st') x = varSite st' x"
      by (cases e) (auto simp: propagate_def varSite_def split: option.split)
    then show ?case
      using Cons by simp
  qed simp
  ultimately show ?thesis
    by (simp add: visitAssign_def Let_def)
qed

text \<open>
  C11. When an assignment to a variable and a return of that variable are statements of one statement list, and no
  statement between the two assigns the variable, not even in one of its branches, the allocation of the
  assignment is not placed on the stack, whatever else comes before, between and after. (With an assignment in
  a branch in between the conclusion fails, see \<open>escape_rebound\<close> below.)
\<close>

theorem escape_return:
  assumes "body = pre @ [AssignStmt n (Identifier m x) v ex ta] @ mid @ [ReturnStmt n' (Some (Identifier m' x))] @ post"
    and "x \<noteq> []" and "x \<notin> \<Union> (set (map rebinds mid))"
    and "\<And>i. visited st \<le> i \<Longrightarrow> stackAllocatable st i \<noteq> Some True"
    and "st1 = inTurn (map visitStmt pre) st"
  shows "stackAllocatable (inTurn (map visitStmt body) st) (visited st1) \<noteq> Some True"
proof -
  let ?i = "visited st1"
  define st2 where "st2 = visitAssign (Identifier m x) v ex st1"
  define st3 where "st3 = inTurn (map visitStmt mid) st2"
  have pre: "calm st st1"
    by (simp add: assms(5) calm_visitStmts)
  then have "stackAllocatable st1 ?i \<noteq> Some True"
    using assms(4) [of ?i] by (auto simp: calm_def)
  then have two: "stackAllocatable st2 ?i = Some True \<Longrightarrow> varSite st2 x = Some ?i"
    using visitAssign_tracked [OF assms(2)] by (simp add: st2_def)
  have "?i < visited st2"
    by (simp add: st2_def visitAssign_def Let_def extraTargets_marks visited_assignValue)
  moreover have calm3: "calm st2 st3"
    by (simp add: st3_def calm_visitStmts)
  ultimately have "?i < visited st3" and was: "stackAllocatable st3 ?i = Some True \<Longrightarrow> stackAllocatable st2 ?i = Some True"
    by (auto simp: calm_def)
  have "keeps x st2 st3"
    unfolding st3_def by (rule keeps_inTurn) (use assms(3) in \<open>auto intro: keeps_visitStmt\<close>)
  then have "stackAllocatable (markEscaped x st3) ?i \<noteq> Some True"
    using two was assms(2) calm_markEscaped [of st3 x] \<open>?i < visited st3\<close>
    by (auto simp: keeps_def varSite_def markEscaped_def setSite_def Let_def split: option.splits)
  moreover have "calm (markEscaped x st3) (inTurn (map visitStmt post) (markEscaped x st3))"
    by (rule calm_visitStmts)
  moreover have "?i < visited (markEscaped x st3)"
    using calm_markEscaped [of st3 x] \<open>?i < visited st3\<close> by (simp add: calm_def)
  ultimately have "stackAllocatable (inTurn (map visitStmt post) (markEscaped x st3)) ?i \<noteq> Some True"
    by (auto simp: calm_def)
  then show ?thesis
    by (simp add: assms(1,5) st2_def st3_def)
qed

section \<open>Example\<close>

definition exampleName :: "string \<Rightarrow> Expr" where
  "exampleName x = Identifier node0 x"

definition exampleAlloc :: "string \<Rightarrow> Stmt" where
  "exampleAlloc x = AssignStmt node0 (exampleName x) (ListExpr node0 []) [] []"

definition exampleEscape :: "Stmt \<Rightarrow> Program" where
  "exampleEscape s = Program node0 [FuncDef node0 (FuncHead ''f'' [] [] [] [] [] False [] False) [exampleAlloc ''x'', s]]"

theorem escape_return_witness:
  "stackAllocatable (inTurn (map visitStmt [exampleAlloc ''x'', ReturnStmt node0 (Some (exampleName ''x''))]) esc0) 0
     \<noteq> Some True"
  using escape_return [of "[exampleAlloc ''x'', ReturnStmt node0 (Some (exampleName ''x''))]" "[]" node0 node0
      "''x''" "ListExpr node0 []" "[]" "[]" "[]" node0 node0 "[]" esc0 esc0]
  by (simp add: exampleAlloc_def exampleName_def) (simp add: esc0_def)

text \<open>
  What does not count as escaping, though the value outlives the function: after \<^verbatim>\<open>x = []\<close>, none of
  \<^verbatim>\<open>return [x]\<close>, \<^verbatim>\<open>o.f = x\<close>, \<^verbatim>\<open>o[0] = x\<close>, \<^verbatim>\<open>throw x\<close>, \<^verbatim>\<open>yield x\<close>, \<^verbatim>\<open>c <- x\<close> and \<^verbatim>\<open>with f(x): pass\<close>
  unmarks the list, which stays stack-allocatable; neither does a channel operation that follows it. A
  direct \<^verbatim>\<open>return x\<close>, a call \<^verbatim>\<open>f(x)\<close> and a lambda capturing \<^verbatim>\<open>x\<close> do unmark it.
\<close>

theorem escape_missed:
  "map (\<lambda>s. stackAllocatable (analyzeEscapes (exampleEscape s) esc0) 0)
     [ReturnStmt node0 (Some (ListExpr node0 [exampleName ''x''])),
      AssignStmt node0 (MemberExpr node0 (exampleName ''o'') ''f'') (exampleName ''x'') [] [],
      AssignStmt node0 (IndexExpr node0 (exampleName ''o'') (exampleName ''i'')) (exampleName ''x'') [] [],
      ThrowStmt node0 (Some (exampleName ''x'')),
      YieldStmt node0 (Some (exampleName ''x'')),
      ChanSendStmt node0 (exampleName ''c'') (exampleName ''x''),
      WithStmt node0 (CallExpr node0 (exampleName ''f'') [exampleName ''x''] []) [] [PassStmt node0],
      ReturnStmt node0 (Some (exampleName ''x'')),
      ExprStmt node0 (CallExpr node0 (exampleName ''f'') [exampleName ''x''] []),
      ExprStmt node0 (LambdaExpr node0 [] (exampleName ''x'') [CaptureInfo ''x'' False])] =
   [Some True, Some True, Some True, Some True, Some True, Some True, Some True,
    Some False, Some False, Some False]"
  by (simp add: analyzeEscapes_def exampleEscape_def exampleAlloc_def exampleName_def esc0_def inFunction_def
      visitAssign_def registerAlloc_def setSite_def markEscaped_def propagate_def visitArgs_def)

text \<open>
  Only the last assignment the analysis has seen is unmarked: after \<^verbatim>\<open>x = []\<close> and an \<^verbatim>\<open>if\<close> whose branch assigns
  another list to \<^verbatim>\<open>x\<close>, the statement \<^verbatim>\<open>return x\<close> leaves the first list on the stack, although it is the one
  returned when the branch is not taken.
\<close>

lemma escape_rebound:
  "map (stackAllocatable (analyzeEscapes (Program node0 [FuncDef node0 (FuncHead ''f'' [] [] [] [] [] False [] False)
      [exampleAlloc ''x'', IfStmt node0 (exampleName ''c'') [exampleAlloc ''x''] [] [],
       ReturnStmt node0 (Some (exampleName ''x''))]]) esc0)) [0, 1] = [Some True, Some False]"
  by (simp add: analyzeEscapes_def exampleAlloc_def exampleName_def esc0_def inFunction_def
      visitAssign_def registerAlloc_def setSite_def markEscaped_def propagate_def visitArgs_def)

end
