(* ===== verification/Vsl_Types.thy ===== *)
theory Vsl_Types
  imports Ast_Induct
begin

text \<open>
  The types of the checker (\<^verbatim>\<open>include/typechecker.h\<close>, \<^verbatim>\<open>src/typechecker.cpp\<close>): one constructor per
  subclass of \<^verbatim>\<open>TypeNode\<close>, the primitive kinds being constants, with their printing and the structural
  equality, which is shown to be equality. The checker never builds a node around a null pointer, and the
  model has none.
\<close>

datatype Type =
    IntT | FloatT | StrT | BoolT | VoidT | NullT | UnknownT
  | ListType Type
  | DictType Type Type
  | TupleType "Type list"
  | FuncType string Type "Type list"
  | ClassType string
  | InterfaceType string
  | TypeVar string
  | UnionType "Type list"
  | NullableType Type
  | ChanType Type

datatype Kind =
    KInt | KFloat | KStr | KBool | KVoid | KNull
  | KList | KDict | KTuple | KFunc | KClass | KUnknown
  | KUnion | KInterface | KTypeVar | KNullable
  | KChan

fun kind :: "Type \<Rightarrow> Kind" where
  "kind IntT = KInt"
| "kind FloatT = KFloat"
| "kind StrT = KStr"
| "kind BoolT = KBool"
| "kind VoidT = KVoid"
| "kind NullT = KNull"
| "kind UnknownT = KUnknown"
| "kind (ListType t) = KList"
| "kind (DictType k v) = KDict"
| "kind (TupleType ts) = KTuple"
| "kind (FuncType f r ps) = KFunc"
| "kind (ClassType c) = KClass"
| "kind (InterfaceType c) = KInterface"
| "kind (TypeVar x) = KTypeVar"
| "kind (UnionType ts) = KUnion"
| "kind (NullableType t) = KNullable"
| "kind (ChanType t) = KChan"

definition isUnknown :: "Type \<Rightarrow> bool" where
  "isUnknown t \<longleftrightarrow> kind t = KUnknown"

definition isNumeric :: "Type \<Rightarrow> bool" where
  "isNumeric t \<longleftrightarrow> kind t = KInt \<or> kind t = KFloat"

lemma isUnknown_iff [simp]: "isUnknown t \<longleftrightarrow> t = UnknownT"
  by (cases t) (simp_all add: isUnknown_def)

lemma isNumeric_iff [simp]: "isNumeric t \<longleftrightarrow> t = IntT \<or> t = FloatT"
  by (cases t) (simp_all add: isNumeric_def)

section \<open>Printing\<close>

fun joinWith :: "string \<Rightarrow> string list \<Rightarrow> string" where
  "joinWith sep [] = []"
| "joinWith sep [s] = s"
| "joinWith sep (s # ss) = s @ sep @ joinWith sep ss"

primrec toString :: "Type \<Rightarrow> string" where
  "toString IntT = ''int''"
| "toString FloatT = ''float''"
| "toString StrT = ''str''"
| "toString BoolT = ''bool''"
| "toString VoidT = ''void''"
| "toString NullT = ''null''"
| "toString UnknownT = ''unknown''"
| "toString (ListType t) = ''list['' @ toString t @ '']''"
| "toString (DictType k v) = ''dict['' @ toString k @ '', '' @ toString v @ '']''"
| "toString (TupleType ts) = ''tuple['' @ joinWith '', '' (map toString ts) @ '']''"
| "toString (FuncType f r ps) = ''func '' @ f @ ''('' @ joinWith '', '' (map toString ps) @ '') -> '' @ toString r"
| "toString (ClassType c) = c"
| "toString (InterfaceType c) = c"
| "toString (TypeVar x) = x"
| "toString (UnionType ts) = joinWith '' | '' (map toString ts)"
| "toString (NullableType t) = toString t @ '' | null''"
| "toString (ChanType t) = ''chan['' @ toString t @ '']''"

text \<open>Only function types have a form of their own for the user.\<close>

primrec toUserString :: "Type \<Rightarrow> string" where
  "toUserString IntT = toString IntT"
| "toUserString FloatT = toString FloatT"
| "toUserString StrT = toString StrT"
| "toUserString BoolT = toString BoolT"
| "toUserString VoidT = toString VoidT"
| "toUserString NullT = toString NullT"
| "toUserString UnknownT = toString UnknownT"
| "toUserString (ListType t) = toString (ListType t)"
| "toUserString (DictType k v) = toString (DictType k v)"
| "toUserString (TupleType ts) = toString (TupleType ts)"
| "toUserString (FuncType f r ps) = ''('' @ joinWith '', '' (map toUserString ps) @ '') -> '' @ toUserString r"
| "toUserString (ClassType c) = c"
| "toUserString (InterfaceType c) = c"
| "toUserString (TypeVar x) = x"
| "toUserString (UnionType ts) = toString (UnionType ts)"
| "toUserString (NullableType t) = toString (NullableType t)"
| "toUserString (ChanType t) = toString (ChanType t)"

section \<open>Structural equality\<close>

text \<open>A list of comparisons applied to a list of types of the same length.\<close>

definition equalAll :: "(Type \<Rightarrow> bool) list \<Rightarrow> Type list \<Rightarrow> bool" where
  "equalAll fs us \<longleftrightarrow> length fs = length us \<and> list_all (\<lambda>(f, u). f u) (zip fs us)"

primrec typeEquals :: "Type \<Rightarrow> Type \<Rightarrow> bool" where
  "typeEquals IntT u \<longleftrightarrow> kind u = KInt"
| "typeEquals FloatT u \<longleftrightarrow> kind u = KFloat"
| "typeEquals StrT u \<longleftrightarrow> kind u = KStr"
| "typeEquals BoolT u \<longleftrightarrow> kind u = KBool"
| "typeEquals VoidT u \<longleftrightarrow> kind u = KVoid"
| "typeEquals NullT u \<longleftrightarrow> kind u = KNull"
| "typeEquals UnknownT u \<longleftrightarrow> kind u = KUnknown"
| "typeEquals (ListType t) u \<longleftrightarrow> (case u of ListType t' \<Rightarrow> typeEquals t t' | _ \<Rightarrow> False)"
| "typeEquals (DictType k v) u \<longleftrightarrow>
    (case u of DictType k' v' \<Rightarrow> typeEquals k k' \<and> typeEquals v v' | _ \<Rightarrow> False)"
| "typeEquals (TupleType ts) u \<longleftrightarrow> (case u of TupleType us \<Rightarrow> equalAll (map typeEquals ts) us | _ \<Rightarrow> False)"
| "typeEquals (FuncType f r ps) u \<longleftrightarrow>
    (case u of FuncType f' r' ps' \<Rightarrow> f = f' \<and> typeEquals r r' \<and> equalAll (map typeEquals ps) ps' | _ \<Rightarrow> False)"
| "typeEquals (ClassType c) u \<longleftrightarrow> (case u of ClassType c' \<Rightarrow> c = c' | _ \<Rightarrow> False)"
| "typeEquals (InterfaceType c) u \<longleftrightarrow> (case u of InterfaceType c' \<Rightarrow> c = c' | _ \<Rightarrow> False)"
| "typeEquals (TypeVar x) u \<longleftrightarrow> (case u of TypeVar y \<Rightarrow> x = y | _ \<Rightarrow> False)"
| "typeEquals (UnionType ts) u \<longleftrightarrow> (case u of UnionType us \<Rightarrow> equalAll (map typeEquals ts) us | _ \<Rightarrow> False)"
| "typeEquals (NullableType t) u \<longleftrightarrow> (case u of NullableType t' \<Rightarrow> typeEquals t t' | _ \<Rightarrow> False)"
| "typeEquals (ChanType t) u \<longleftrightarrow> (case u of ChanType t' \<Rightarrow> typeEquals t t' | _ \<Rightarrow> False)"

lemma equalAll_eq:
  assumes "\<And>t u. t \<in> set ts \<Longrightarrow> typeEquals t u \<longleftrightarrow> t = u"
  shows "equalAll (map typeEquals ts) us \<longleftrightarrow> ts = us"
  using assms
proof (induction ts arbitrary: us)
  case (Cons t ts)
  then show ?case
    by (cases us) (auto simp: equalAll_def)
qed (auto simp: equalAll_def)

lemma typeEquals_iff [simp]: "typeEquals t u \<longleftrightarrow> t = u"
proof (induction t arbitrary: u)
  case (TupleType ts)
  then show ?case
    by (cases u) (simp_all add: equalAll_eq)
next
  case (FuncType f r ps)
  then show ?case
    by (cases u) (auto simp add: equalAll_eq)
next
  case (UnionType ts)
  then show ?case
    by (cases u) (simp_all add: equalAll_eq)
qed (auto split: Type.split elim: kind.elims)

end
