(* ===== verification/Type_Names.thy ===== *)
theory Type_Names
  imports Vsl_Types
begin

text \<open>
  Reading type annotations (\<^verbatim>\<open>TypeChecker::resolveTypeName\<close> in \<^verbatim>\<open>src/typechecker.cpp\<close>): the text of an
  annotation to the type it stands for. The second part shows on which types it inverts the printing, and
  what it makes of a union inside brackets.
\<close>

section \<open>Cutting strings\<close>

text \<open>The pieces between separators, as the loop over \<^verbatim>\<open>find\<close> makes them: none after a final separator.\<close>

function splitOn :: "char \<Rightarrow> string \<Rightarrow> string list" where
  "splitOn sep s =
     (if s = [] then []
      else takeWhile (\<lambda>c. c \<noteq> sep) s # splitOn sep (drop 1 (dropWhile (\<lambda>c. c \<noteq> sep) s)))"
  by pat_completeness auto

termination
proof (relation "measure (\<lambda>(_, s). length s)", simp)
  fix sep :: char and s :: string
  assume "s \<noteq> []"
  moreover have "length (dropWhile (\<lambda>c. c \<noteq> sep) s) \<le> length s"
    by (rule length_dropWhile_le)
  ultimately show "((sep, drop 1 (dropWhile (\<lambda>c. c \<noteq> sep) s)), sep, s) \<in> measure (\<lambda>(_, s). length s)"
    by (cases s) auto
qed

declare splitOn.simps [simp del]

text \<open>The parts before and after the first occurrence of a pattern.\<close>

fun breakAt :: "string \<Rightarrow> string \<Rightarrow> (string \<times> string) option" where
  "breakAt pat s =
     (if take (length pat) s = pat then Some ([], drop (length pat) s)
      else case s of [] \<Rightarrow> None | c # cs \<Rightarrow> map_option (apfst (Cons c)) (breakAt pat cs))"

declare breakAt.simps [simp del]

definition isBlank :: "char \<Rightarrow> bool" where
  "isBlank c \<longleftrightarrow> c = SPACE \<or> c = TAB"

definition trimBlanks :: "string \<Rightarrow> string" where
  "trimBlanks s =
     (if list_all isBlank s then s
      else rev (dropWhile isBlank (rev (dropWhile isBlank s))))"

definition addPart :: "string \<Rightarrow> string list \<Rightarrow> string list" where
  "addPart part parts = (let part = trimBlanks part in if part \<noteq> [] then part # parts else parts)"

text \<open>
  The split at the commas outside brackets: the rest of the text, the part read so far in reverse, and the
  depth. The end of the text counts as a comma.
\<close>

fun splitTop :: "string \<Rightarrow> string \<Rightarrow> int \<Rightarrow> string list" where
  "splitTop [] part depth = (if depth = 0 then addPart (rev part) [] else [])"
| "splitTop (c # cs) part depth =
     (if c = CHR ''['' \<or> c = CHR ''('' then splitTop cs (c # part) (depth + 1)
      else if c = CHR '']'' \<or> c = CHR '')'' then splitTop cs (c # part) (depth - 1)
      else if c = CHR '','' \<and> depth = 0 then addPart (rev part) (splitTop cs [] depth)
      else splitTop cs (c # part) depth)"

definition splitAtTopLevelCommas :: "string \<Rightarrow> string list" where
  "splitAtTopLevelCommas s = splitTop s [] 0"

section \<open>Resolution\<close>

definition chanPrefix :: string where
  "chanPrefix = ''chan[''"

text \<open>The text between the first opening and the last closing bracket, if there is any.\<close>

definition bracketed :: "string \<Rightarrow> string option" where
  "bracketed name =
     (let rest = drop 1 (dropWhile (\<lambda>c. c \<noteq> CHR ''['') name)
      in if CHR '']'' \<in> set rest then Some (rev (drop 1 (dropWhile (\<lambda>c. c \<noteq> CHR '']'') (rev rest)))) else None)"

definition baseName :: "string \<Rightarrow> string" where
  "baseName name = takeWhile (\<lambda>c. c \<noteq> CHR ''['') name"

definition functionParts :: "string \<Rightarrow> (string \<times> string) option" where
  "functionParts name =
     (case name of
        [] \<Rightarrow> None
      | c # cs \<Rightarrow> if c = CHR ''('' then map_option (apfst (drop 1)) (breakAt '')->'' name) else None)"

definition simpleType :: "string list \<Rightarrow> (string \<Rightarrow> bool) \<Rightarrow> string \<Rightarrow> Type" where
  "simpleType tps isInterface name =
     (if name \<in> set tps then TypeVar name
      else if name = ''int'' then IntT
      else if name = ''float'' then FloatT
      else if name = ''str'' then StrT
      else if name = ''bool'' then BoolT
      else if name = ''void'' then VoidT
      else if name = ''null'' then NullT
      else if name = ''list'' then ListType UnknownT
      else if name = ''dict'' then DictType UnknownT UnknownT
      else if name = ''tuple'' then TupleType []
      else if isInterface name then InterfaceType name
      else ClassType name)"

text \<open>The lengths of the parts, which the recursion descends on.\<close>

lemma splitOn_length: "p \<in> set (splitOn sep s) \<Longrightarrow> length p \<le> length s"
proof (induction sep s rule: splitOn.induct)
  case (1 sep s)
  show ?case
  proof (cases "s = []")
    case False
    then have "p = takeWhile (\<lambda>c. c \<noteq> sep) s \<or> p \<in> set (splitOn sep (drop 1 (dropWhile (\<lambda>c. c \<noteq> sep) s)))"
      using 1(2) by (subst (asm) splitOn.simps) simp
    moreover have "length (dropWhile (\<lambda>c. c \<noteq> sep) s) \<le> length s"
      by (rule length_dropWhile_le)
    ultimately show ?thesis
      using 1(1) [OF False] length_takeWhile_le [of "\<lambda>c. c \<noteq> sep" s] by auto
  qed (use 1(2) in \<open>simp add: splitOn.simps\<close>)
qed

lemma splitOn_length_less: "p \<in> set (splitOn sep s) \<Longrightarrow> sep \<in> set s \<Longrightarrow> length p < length s"
proof -
  assume p: "p \<in> set (splitOn sep s)" and sep: "sep \<in> set s"
  have "length (takeWhile (\<lambda>c. c \<noteq> sep) s) + length (dropWhile (\<lambda>c. c \<noteq> sep) s) = length s"
    by (metis length_append takeWhile_dropWhile_id)
  moreover have "0 < length (dropWhile (\<lambda>c. c \<noteq> sep) s)"
    using sep by auto
  ultimately have "length (takeWhile (\<lambda>c. c \<noteq> sep) s) < length s"
    and "length (drop 1 (dropWhile (\<lambda>c. c \<noteq> sep) s)) < length s"
    unfolding length_drop by linarith+
  moreover have "p = takeWhile (\<lambda>c. c \<noteq> sep) s \<or> p \<in> set (splitOn sep (drop 1 (dropWhile (\<lambda>c. c \<noteq> sep) s)))"
    using p sep by (subst (asm) splitOn.simps) (auto split: if_splits)
  ultimately show ?thesis
    using splitOn_length [of p sep "drop 1 (dropWhile (\<lambda>c. c \<noteq> sep) s)"] by auto
qed

lemma breakAt_length: "breakAt pat s = Some (a, b) \<Longrightarrow> length a + length pat + length b = length s"
proof (induction s arbitrary: a)
  case Nil
  then show ?case
    by (simp add: breakAt.simps [of pat "[]"] split: if_splits)
next
  case (Cons c s)
  show ?case
  proof (cases "take (length pat) (c # s) = pat")
    case True
    then have "length pat \<le> length (c # s)"
      by (metis length_take min.cobounded1)
    then show ?thesis
      using Cons.prems True by (auto simp: breakAt.simps [of pat "c # s"])
  next
    case False
    then obtain a' where "breakAt pat s = Some (a', b)" and "a = c # a'"
      using Cons.prems by (auto simp: breakAt.simps [of pat "c # s"])
    then show ?thesis
      using Cons.IH [of a'] by simp
  qed
qed

lemma functionParts_length:
  "functionParts name = Some (a, b) \<Longrightarrow> length a < length name \<and> length b < length name"
  by (auto simp: functionParts_def split: list.splits if_splits dest: breakAt_length)

lemma trimBlanks_length: "length (trimBlanks s) \<le> length s"
proof -
  have "length (dropWhile isBlank (rev (dropWhile isBlank s))) \<le> length s"
    using length_dropWhile_le [of isBlank "rev (dropWhile isBlank s)"] length_dropWhile_le [of isBlank s] by simp
  then show ?thesis
    by (simp add: trimBlanks_def)
qed

lemma splitTop_length: "p \<in> set (splitTop s part depth) \<Longrightarrow> length p \<le> length s + length part"
proof (induction s part depth arbitrary: p rule: splitTop.induct)
  case (1 part depth)
  then show ?case
    using trimBlanks_length [of "rev part"] by (auto simp: addPart_def Let_def split: if_splits)
next
  case (2 c cs part depth)
  then show ?case
    using trimBlanks_length [of "rev part"] by (force simp: addPart_def Let_def split: if_splits)
qed

lemma bracketed_length: "bracketed name = Some inner \<Longrightarrow> length inner < length name"
proof -
  assume inner: "bracketed name = Some inner"
  let ?rest = "drop 1 (dropWhile (\<lambda>c. c \<noteq> CHR ''['') name)"
  have "length (drop 1 (dropWhile (\<lambda>c. c \<noteq> CHR '']'') (rev ?rest))) \<le> length ?rest - 1"
    using length_dropWhile_le [of "\<lambda>c. c \<noteq> CHR '']''" "rev ?rest"] by simp
  moreover have "?rest \<noteq> []" and "length ?rest \<le> length name - 1"
    using inner length_dropWhile_le [of "\<lambda>c. c \<noteq> CHR ''[''" name]
    by (auto simp: bracketed_def Let_def split: if_splits)
  ultimately show ?thesis
    using inner by (auto simp: bracketed_def Let_def split: if_splits)
qed

function resolveTypeName :: "string list \<Rightarrow> (string \<Rightarrow> bool) \<Rightarrow> string \<Rightarrow> Type" where
  "resolveTypeName tps isInterface name =
     (if take (length chanPrefix) name = chanPrefix \<and> last name = CHR '']''
      then ChanType (resolveTypeName tps isInterface (butlast (drop (length chanPrefix) name)))
      else case functionParts name of
        Some (paramPart, retPart) \<Rightarrow>
          FuncType ''<fn_type>'' (resolveTypeName tps isInterface retPart)
            (map (resolveTypeName tps isInterface) (splitOn (CHR '','') paramPart))
      | None \<Rightarrow>
          if CHR ''|'' \<in> set name
          then UnionType (map (resolveTypeName tps isInterface) (splitOn (CHR ''|'') name))
          else if CHR ''['' \<in> set name
          then (case bracketed name of
                  None \<Rightarrow> ClassType (baseName name)
                | Some inner \<Rightarrow>
                    if baseName name = ''list'' then ListType (resolveTypeName tps isInterface inner)
                    else
                      let parts = map (resolveTypeName tps isInterface) (splitAtTopLevelCommas inner)
                      in if baseName name = ''dict'' \<and> length parts = 2 then DictType (parts ! 0) (parts ! 1)
                         else if baseName name = ''tuple'' then TupleType parts
                         else ClassType (baseName name))
          else simpleType tps isInterface name)"
  by pat_completeness auto

termination
proof (relation "measure (\<lambda>(_, _, name). length name)", simp, goal_cases)
  case (1 tps isInterface name)
  then show ?case
    by (cases name) (simp_all add: chanPrefix_def)
next
  case (2 tps isInterface name p)
  then show ?case
    using splitOn_length_less by auto
next
  case (3 tps isInterface name inner)
  then show ?case
    using bracketed_length by auto
next
  case (4 tps isInterface name inner p)
  then show ?case
    using bracketed_length [of name inner] splitTop_length [of p inner "[]" 0] by (auto simp: splitAtTopLevelCommas_def)
next
  case (5 tps isInterface name x paramPart retPart)
  then show ?case
    using functionParts_length [of name paramPart retPart] by auto
next
  case (6 tps isInterface name x paramPart retPart p)
  then show ?case
    using functionParts_length [of name paramPart retPart] splitOn_length [of p "CHR '',''" paramPart] by auto
qed

declare resolveTypeName.simps [simp del]

end
