(* ===== verification/Type_Names_Props.thy ===== *)
theory Type_Names_Props
  imports Type_Names
begin

text \<open>
  What reading an annotation gives back: the text of a type, in the form the parser builds it, is read as
  that type, for the types whose text is unambiguous; and which forms are never read back.
\<close>

section \<open>The text of a type\<close>

primrec typeText :: "Type \<Rightarrow> string" where
  "typeText IntT = ''int''"
| "typeText FloatT = ''float''"
| "typeText StrT = ''str''"
| "typeText BoolT = ''bool''"
| "typeText VoidT = ''void''"
| "typeText NullT = ''null''"
| "typeText UnknownT = ''unknown''"
| "typeText (ListType t) = ''list['' @ typeText t @ '']''"
| "typeText (DictType k v) = ''dict['' @ typeText k @ '','' @ typeText v @ '']''"
| "typeText (TupleType ts) = ''tuple['' @ joinWith '','' (map typeText ts) @ '']''"
| "typeText (FuncType f r ps) = ''('' @ joinWith '','' (map typeText ps) @ '')->'' @ typeText r"
| "typeText (ClassType c) = c"
| "typeText (InterfaceType c) = c"
| "typeText (TypeVar x) = x"
| "typeText (UnionType ts) = joinWith ''|'' (map typeText ts)"
| "typeText (NullableType t) = typeText t @ ''|null''"
| "typeText (ChanType t) = ''chan['' @ typeText t @ '']''"

definition identChar :: "char \<Rightarrow> bool" where
  "identChar c \<longleftrightarrow> isalnum c \<or> c = UNDERSCORE"

definition ident :: "string \<Rightarrow> bool" where
  "ident s \<longleftrightarrow> s \<noteq> [] \<and> list_all identChar s"

definition reservedTypes :: "string list" where
  "reservedTypes = [''int'', ''float'', ''str'', ''bool'', ''void'', ''null'', ''list'', ''dict'', ''tuple'']"

abbreviation lacks :: "string \<Rightarrow> string \<Rightarrow> bool" where
  "lacks s chars \<equiv> set chars \<inter> set s = {}"

fun startsUnion :: "Type \<Rightarrow> bool" where
  "startsUnion (FuncType f r ps) = False"
| "startsUnion (ChanType t) = False"
| "startsUnion t = True"

text \<open>
  The types whose text is unambiguous, for the type parameters in scope and the interfaces known: no union
  inside the brackets of a list, dictionary or tuple, no comma or parenthesis in a parameter of a function
  type, and a union that does not start with a function or a channel.
\<close>

primrec readable :: "string list \<Rightarrow> (string \<Rightarrow> bool) \<Rightarrow> Type \<Rightarrow> bool" where
  "readable tps isI IntT \<longleftrightarrow> ''int'' \<notin> set tps"
| "readable tps isI FloatT \<longleftrightarrow> ''float'' \<notin> set tps"
| "readable tps isI StrT \<longleftrightarrow> ''str'' \<notin> set tps"
| "readable tps isI BoolT \<longleftrightarrow> ''bool'' \<notin> set tps"
| "readable tps isI VoidT \<longleftrightarrow> ''void'' \<notin> set tps"
| "readable tps isI NullT \<longleftrightarrow> ''null'' \<notin> set tps"
| "readable tps isI UnknownT \<longleftrightarrow> False"
| "readable tps isI (ListType t) \<longleftrightarrow> readable tps isI t \<and> lacks (typeText t) ''|''"
| "readable tps isI (DictType k v) \<longleftrightarrow>
    readable tps isI k \<and> readable tps isI v \<and> lacks (typeText k) ''|'' \<and> lacks (typeText v) ''|''"
| "readable tps isI (TupleType ts) \<longleftrightarrow>
    list_all id (map (readable tps isI) ts) \<and> list_all (\<lambda>t. lacks (typeText t) ''|'') ts"
| "readable tps isI (FuncType f r ps) \<longleftrightarrow> f = ''<fn_type>'' \<and> readable tps isI r \<and>
    list_all id (map (readable tps isI) ps) \<and> list_all (\<lambda>t. lacks (typeText t) '',()'') ps"
| "readable tps isI (ClassType c) \<longleftrightarrow> ident c \<and> c \<notin> set tps \<and> c \<notin> set reservedTypes \<and> \<not> isI c"
| "readable tps isI (InterfaceType c) \<longleftrightarrow> ident c \<and> c \<notin> set tps \<and> c \<notin> set reservedTypes \<and> isI c"
| "readable tps isI (TypeVar x) \<longleftrightarrow> ident x \<and> x \<in> set tps"
| "readable tps isI (UnionType ts) \<longleftrightarrow> 2 \<le> length ts \<and> list_all id (map (readable tps isI) ts) \<and>
    list_all (\<lambda>t. lacks (typeText t) ''|'') ts \<and> startsUnion (hd ts)"
| "readable tps isI (NullableType t) \<longleftrightarrow> False"
| "readable tps isI (ChanType t) \<longleftrightarrow> readable tps isI t"

section \<open>Characters of a text\<close>

lemma identChar_special [simp]:
  "\<not> identChar (CHR ''['')" "\<not> identChar (CHR '']'')" "\<not> identChar (CHR ''('')" "\<not> identChar (CHR '')'')"
  "\<not> identChar (CHR '','')" "\<not> identChar (CHR ''|'')" "\<not> identChar SPACE" "\<not> identChar TAB"
  by (simp_all add: identChar_def char_class_defs)

lemma ident_lacks: "ident s \<Longrightarrow> lacks s ''[]()|,''"
  by (auto simp: ident_def list_all_iff)

lemma set_joinWith: "set (joinWith sep ss) \<subseteq> set sep \<union> \<Union> (set (map set ss))"
  by (induction sep ss rule: joinWith.induct) auto

lemma joinWith_Nil [simp]: "(\<And>s. s \<in> set ss \<Longrightarrow> s \<noteq> []) \<Longrightarrow> joinWith sep ss = [] \<longleftrightarrow> ss = []"
  by (induction sep ss rule: joinWith.induct) auto

lemma text_nonempty: "readable tps isI t \<Longrightarrow> typeText t \<noteq> []"
proof (induction t)
  case (UnionType ts)
  then have "joinWith ''|'' (map typeText ts) = [] \<longleftrightarrow> map typeText ts = []"
    by (intro joinWith_Nil) (auto simp: list_all_iff)
  then show ?case
    using UnionType.prems by auto
qed (auto simp: ident_def)

definition unblank :: "string \<Rightarrow> bool" where
  "unblank s \<longleftrightarrow> list_all (\<lambda>c. \<not> isBlank c) s"

lemma unblank_simps [simp]:
  "unblank []"
  "unblank (c # s) \<longleftrightarrow> \<not> isBlank c \<and> unblank s"
  "unblank (s @ t) \<longleftrightarrow> unblank s \<and> unblank t"
  "unblank (rev s) \<longleftrightarrow> unblank s"
  by (simp_all add: unblank_def)

lemma unblank_join: "unblank sep \<Longrightarrow> (\<And>s. s \<in> set ss \<Longrightarrow> unblank s) \<Longrightarrow> unblank (joinWith sep ss)"
  by (induction sep ss rule: joinWith.induct) auto

lemma ident_unblank: "ident s \<Longrightarrow> unblank s"
  by (auto simp: ident_def unblank_def isBlank_def list_all_iff)

lemma text_unblank: "readable tps isI t \<Longrightarrow> unblank (typeText t)"
proof (induction t)
  case (TupleType ts)
  then have "unblank (joinWith '','' (map typeText ts))"
    by (intro unblank_join) (auto simp: list_all_iff isBlank_def)
  then show ?case
    by (simp add: isBlank_def)
next
  case (FuncType f r ps)
  then have "unblank (joinWith '','' (map typeText ps))"
    by (intro unblank_join) (auto simp: list_all_iff isBlank_def)
  then show ?case
    using FuncType by (simp add: isBlank_def)
next
  case (UnionType ts)
  then show ?case
    by (simp, intro unblank_join) (auto simp: list_all_iff isBlank_def)
qed (simp_all add: ident_unblank isBlank_def)

lemma dropWhile_unblank: "unblank s \<Longrightarrow> dropWhile isBlank s = s"
  by (cases s) simp_all

lemma trimBlanks_unblank: "unblank s \<Longrightarrow> trimBlanks s = s"
  by (simp add: trimBlanks_def dropWhile_unblank)

section \<open>Splitting at commas\<close>

text \<open>A text passes the split whole: its brackets balance and its commas stand inside them.\<close>

definition passes :: "string \<Rightarrow> bool" where
  "passes s \<longleftrightarrow> (\<forall>rest part depth. depth \<ge> 0 \<longrightarrow> splitTop (s @ rest) part depth = splitTop rest (rev s @ part) depth)"

lemma passesD: "passes s \<Longrightarrow> depth \<ge> 0 \<Longrightarrow> splitTop (s @ rest) part depth = splitTop rest (rev s @ part) depth"
  by (simp add: passes_def)

lemma passes_append: "passes s \<Longrightarrow> passes t \<Longrightarrow> passes (s @ t)"
  by (simp add: passes_def)

lemma passes_plain: "lacks s ''[](),'' \<Longrightarrow> passes s"
  unfolding passes_def by (induction s) auto

lemma inner_join:
  "list_all passes ss \<Longrightarrow> depth > 0 \<Longrightarrow>
   splitTop (joinWith '','' ss @ rest) part depth = splitTop rest (rev (joinWith '','' ss) @ part) depth"
  by (induction "'',''" ss arbitrary: part rule: joinWith.induct) (simp_all add: passesD)

lemma passes_bracket:
  assumes "list_all passes ss"
  shows "passes (''['' @ joinWith '','' ss @ '']'')" and "passes (''('' @ joinWith '','' ss @ '')'')"
  using inner_join [OF assms] by (simp_all add: passes_def)

lemma passes_text: "readable tps isI t \<Longrightarrow> passes (typeText t)"
proof (induction t)
  case (ListType t)
  then show ?case
    using passes_append [OF passes_plain [of "''list''"] passes_bracket(1) [of "[typeText t]"]] by simp
next
  case (ChanType t)
  then show ?case
    using passes_append [OF passes_plain [of "''chan''"] passes_bracket(1) [of "[typeText t]"]] by simp
next
  case (DictType k v)
  then show ?case
    using passes_append [OF passes_plain [of "''dict''"] passes_bracket(1) [of "[typeText k, typeText v]"]] by simp
next
  case (TupleType ts)
  then show ?case
    using passes_append [OF passes_plain [of "''tuple''"] passes_bracket(1) [of "map typeText ts"]]
    by (simp add: list_all_iff)
next
  case (FuncType f r ps)
  then show ?case
    using passes_append [OF passes_bracket(2) [of "map typeText ps"] passes_append [OF passes_plain [of "''->''"]]]
    by (simp add: list_all_iff)
next
  case (UnionType ts)
  have "list_all passes ss \<Longrightarrow> passes (joinWith ''|'' ss)" for ss
  proof (induction "''|''" ss rule: joinWith.induct)
    case (3 s s' ss)
    then show ?case
      using passes_append [OF _ passes_append [OF passes_plain [of "''|''"]], of s "joinWith ''|'' (s' # ss)"] by simp
  qed (simp_all add: passes_plain)
  then show ?case
    using UnionType by (simp add: list_all_iff)
next
  case (ClassType c)
  then show ?case
    using ident_lacks [of c] by (intro passes_plain) auto
next
  case (InterfaceType c)
  then show ?case
    using ident_lacks [of c] by (intro passes_plain) auto
next
  case (TypeVar c)
  then show ?case
    using ident_lacks [of c] by (intro passes_plain) auto
qed (simp_all add: passes_plain)

lemma addPart_unblank: "s \<noteq> [] \<Longrightarrow> unblank s \<Longrightarrow> addPart s parts = s # parts"
  by (simp add: addPart_def trimBlanks_unblank)

lemma splitTop_join:
  assumes "list_all passes ss" and "list_all unblank ss" and "[] \<notin> set ss"
  shows "splitAtTopLevelCommas (joinWith '','' ss) = ss"
proof -
  have "ss \<noteq> [] \<Longrightarrow> splitTop (joinWith '','' ss) [] 0 = ss"
    using assms
  proof (induction "'',''" ss rule: joinWith.induct)
    case (2 s)
    then show ?case
      using passesD [of s 0 "[]" "[]"] by (simp add: addPart_unblank)
  next
    case (3 s s' ss)
    then show ?case
      using passesD [of s 0 "'','' @ joinWith '','' (s' # ss)" "[]"] by (auto simp: addPart_unblank)
  qed simp
  then show ?thesis
    by (cases ss) (auto simp: splitAtTopLevelCommas_def addPart_def trimBlanks_def)
qed

lemma splitOn_step: "lacks s [sep] \<Longrightarrow> splitOn sep (s @ sep # rest) = s # splitOn sep rest"
proof -
  assume "lacks s [sep]"
  then have "takeWhile (\<lambda>c. c \<noteq> sep) (s @ sep # rest) = s" and "dropWhile (\<lambda>c. c \<noteq> sep) (s @ sep # rest) = sep # rest"
    by (induction s) auto
  then show ?thesis
    by (subst splitOn.simps) simp
qed

lemma splitOn_last: "lacks s [sep] \<Longrightarrow> s \<noteq> [] \<Longrightarrow> splitOn sep s = [s]"
proof -
  assume s: "lacks s [sep]" "s \<noteq> []"
  from s(1) have "takeWhile (\<lambda>c. c \<noteq> sep) s = s" and d: "dropWhile (\<lambda>c. c \<noteq> sep) s = []"
    by (induction s) auto
  then show ?thesis
    using s(2) by (subst splitOn.simps) (simp only: d, simp add: splitOn.simps)
qed

lemma splitOn_join:
  assumes "list_all (\<lambda>s. lacks s [sep] \<and> s \<noteq> []) ss"
  shows "splitOn sep (joinWith [sep] ss) = ss"
  using assms
proof (induction "[sep]" ss rule: joinWith.induct)
  case (3 s s' ss)
  then show ?case
    by (simp add: splitOn_step)
next
  case (2 s)
  then show ?case
    by (simp add: splitOn_last)
qed (simp add: splitOn.simps)

section \<open>Reading back\<close>

lemma lacks_joinWith: "lacks sep chars \<Longrightarrow> list_all (\<lambda>s. lacks s chars) ss \<Longrightarrow> lacks (joinWith sep ss) chars"
  by (induction sep ss rule: joinWith.induct) auto

lemma functionParts_None: "s \<noteq> [] \<Longrightarrow> hd s \<noteq> CHR ''('' \<Longrightarrow> functionParts s = None"
  by (cases s) (simp_all add: functionParts_def)

lemma breakAt_arrow: "lacks p '')'' \<Longrightarrow> breakAt '')->'' (p @ '')->'' @ r) = Some (p, r)"
  by (induction p) (simp_all add: breakAt.simps)

lemma resolve_simple:
  assumes "s \<noteq> []" and "lacks s ''[(|''"
  shows "resolveTypeName tps isI s = simpleType tps isI s"
proof -
  have "take (length chanPrefix) s \<noteq> chanPrefix"
    using assms(2) set_take_subset [of "length chanPrefix" s] by (auto simp: chanPrefix_def)
  moreover have "functionParts s = None"
    using assms by (intro functionParts_None) (cases s, auto)+
  ultimately show ?thesis
    using assms(2) by (subst resolveTypeName.simps) simp
qed

lemma resolve_ident:
  "ident s \<Longrightarrow> resolveTypeName tps isI s = simpleType tps isI s"
  using ident_lacks [of s] by (intro resolve_simple) (auto simp: ident_def)

lemma bracketed_text: "lacks base ''['' \<Longrightarrow> bracketed (base @ ''['' @ s @ '']'') = Some s"
proof -
  assume "lacks base ''[''"
  then have "dropWhile (\<lambda>c. c \<noteq> CHR ''['') (base @ ''['' @ s @ '']'') = ''['' @ s @ '']''"
    by (induction base) auto
  then show ?thesis
    by (simp add: bracketed_def)
qed

lemma baseName_text: "lacks base ''['' \<Longrightarrow> baseName (base @ ''['' @ s) = base"
  unfolding baseName_def by (induction base) auto

lemma resolve_brackets:
  assumes "base = ''list'' \<or> base = ''dict'' \<or> base = ''tuple''" and "lacks s ''|''"
  shows "resolveTypeName tps isI (base @ ''['' @ s @ '']'') =
    (if base = ''list'' then ListType (resolveTypeName tps isI s)
     else
       let parts = map (resolveTypeName tps isI) (splitAtTopLevelCommas s)
       in if base = ''dict'' \<and> length parts = 2 then DictType (parts ! 0) (parts ! 1)
          else if base = ''tuple'' then TupleType parts
          else ClassType base)"
proof -
  have b: "lacks base ''[''" and n: "CHR ''|'' \<notin> set (base @ ''['' @ s @ '']'')"
    using assms by auto
  have "take (length chanPrefix) (base @ ''['' @ s @ '']'') \<noteq> chanPrefix"
    using assms(1) by (auto simp: chanPrefix_def)
  moreover have "functionParts (base @ ''['' @ s @ '']'') = None"
    using assms(1) by (intro functionParts_None) auto
  ultimately show ?thesis
    using n by (subst resolveTypeName.simps) (simp only: bracketed_text [OF b] baseName_text [OF b], simp)
qed

lemma chan_prefix_bar:
  assumes eq: "take (length chanPrefix) (s @ CHR ''|'' # rest) = chanPrefix"
  shows "CHR ''['' \<in> set s"
proof -
  have "length chanPrefix \<le> length s"
  proof (rule ccontr)
    assume "\<not> length chanPrefix \<le> length s"
    then have "CHR ''|'' \<in> set (take (length chanPrefix) (s @ CHR ''|'' # rest))"
      by (simp add: take_Cons' split: nat.split)
    then have "CHR ''|'' \<in> set chanPrefix"
      by (simp only: eq)
    then show False
      by (simp add: chanPrefix_def)
  qed
  then have "take (length chanPrefix) s = chanPrefix"
    using eq by simp
  then have "set chanPrefix \<subseteq> set s"
    using set_take_subset [of "length chanPrefix" s] by simp
  then show ?thesis
    by (simp add: chanPrefix_def)
qed

lemma union_head:
  assumes "startsUnion t" and "readable tps isI t" and "lacks (typeText t) ''|''"
  shows "take (length chanPrefix) (typeText t @ CHR ''|'' # rest) \<noteq> chanPrefix \<and> typeText t \<noteq> [] \<and>
    hd (typeText t) \<noteq> CHR ''(''"
proof -
  have id: "take (length chanPrefix) (s @ CHR ''|'' # rest) \<noteq> chanPrefix \<and> s \<noteq> [] \<and> hd s \<noteq> CHR ''(''"
    if "ident s" for s
    using that chan_prefix_bar [of s rest] ident_lacks [OF that] by (cases s) (auto simp: ident_def)
  show ?thesis
  proof (cases t)
    case (UnionType ts)
    then obtain a b us where "ts = a # b # us"
      using assms(2) by (cases ts; cases "tl ts") auto
    then show ?thesis
      using assms(3) UnionType by auto
  next
    case (ClassType c)
    then show ?thesis
      using id [of c] assms(2) by simp
  next
    case (InterfaceType c)
    then show ?thesis
      using id [of c] assms(2) by simp
  next
    case (TypeVar c)
    then show ?thesis
      using id [of c] assms(2) by simp
  qed (use assms in \<open>simp_all add: chanPrefix_def\<close>)
qed

lemma simpleType_ident:
  "c \<notin> set tps \<Longrightarrow> c \<notin> set reservedTypes \<Longrightarrow> simpleType tps isI c = (if isI c then InterfaceType c else ClassType c)"
  by (simp add: simpleType_def reservedTypes_def)

lemma resolve_text: "readable tps isI t \<Longrightarrow> resolveTypeName tps isI (typeText t) = t"
proof (induction t)
  case (ListType t)
  then show ?case
    using resolve_brackets [of "''list''" "typeText t"] by simp
next
  case (DictType k v)
  then have "splitAtTopLevelCommas (joinWith '','' [typeText k, typeText v]) = [typeText k, typeText v]"
    using text_nonempty [of tps isI k] text_nonempty [of tps isI v]
    by (intro splitTop_join) (auto intro: passes_text text_unblank)
  moreover have "lacks (typeText k @ '','' @ typeText v) ''|''"
    using DictType.prems by auto
  ultimately show ?case
    using resolve_brackets [of "''dict''" "typeText k @ '','' @ typeText v" tps isI] DictType by simp
next
  case (TupleType ts)
  have ready: "\<forall>t\<in>set ts. readable tps isI t"
    using TupleType.prems by (simp add: list_all_iff)
  then have "splitAtTopLevelCommas (joinWith '','' (map typeText ts)) = map typeText ts"
    using text_nonempty by (intro splitTop_join) (force simp: list_all_iff intro: passes_text text_unblank)+
  moreover have "lacks (joinWith '','' (map typeText ts)) ''|''"
    using TupleType.prems by (intro lacks_joinWith) (auto simp: list_all_iff)
  moreover have "map (resolveTypeName tps isI) (map typeText ts) = ts"
    using TupleType.IH ready by (simp add: map_idI)
  ultimately show ?case
    using resolve_brackets [of "''tuple''" "joinWith '','' (map typeText ts)" tps isI] by simp
next
  case (FuncType f r ps)
  let ?p = "joinWith '','' (map typeText ps)"
  have ready: "\<forall>t\<in>set ps. readable tps isI t" and plain: "list_all (\<lambda>s. lacks s '',()'') (map typeText ps)"
    using FuncType.prems by (auto simp: list_all_iff)
  have "lacks ?p '')''"
    using plain by (intro lacks_joinWith) (auto simp: list_all_iff)
  then have "functionParts (''('' @ ?p @ '')->'' @ typeText r) = Some (?p, typeText r)"
    using breakAt_arrow [of "CHR ''('' # ?p" "typeText r"] by (simp add: functionParts_def)
  moreover have "map (resolveTypeName tps isI) (splitOn (CHR '','') ?p) = ps"
  proof -
    have "splitOn (CHR '','') ?p = map typeText ps"
      using plain ready text_nonempty by (intro splitOn_join) (fastforce simp: list_all_iff)
    then show ?thesis
      using FuncType.IH ready by (simp add: map_idI)
  qed
  moreover have "take (length chanPrefix) (''('' @ ?p @ '')->'' @ typeText r) \<noteq> chanPrefix"
    by (simp add: chanPrefix_def)
  ultimately show ?case
    using FuncType by (subst resolveTypeName.simps) simp
next
  case (UnionType ts)
  let ?s = "joinWith ''|'' (map typeText ts)"
  obtain a b us where ts: "ts = a # b # us"
    using UnionType.prems by (cases ts; cases "tl ts") auto
  have ready: "\<forall>t\<in>set ts. readable tps isI t"
    using UnionType.prems by (simp add: list_all_iff)
  have "splitOn (CHR ''|'') ?s = map typeText ts"
    using UnionType.prems text_nonempty by (intro splitOn_join) (fastforce simp: list_all_iff)
  then have "map (resolveTypeName tps isI) (splitOn (CHR ''|'') ?s) = ts"
    using UnionType.IH ready by (simp add: map_idI)
  moreover have "take (length chanPrefix) ?s \<noteq> chanPrefix \<and> functionParts ?s = None"
    using union_head [of a tps isI "joinWith ''|'' (map typeText (b # us))"] UnionType.prems
    unfolding ts by (simp add: functionParts_None del: take_append)
  moreover have "CHR ''|'' \<in> set ?s"
    by (simp add: ts)
  ultimately show ?case
    by (simp, subst resolveTypeName.simps) simp
next
  case (ChanType t)
  then show ?case
    by (simp, subst resolveTypeName.simps) (simp add: chanPrefix_def)
next
  case (ClassType c)
  then show ?case
    by (simp add: resolve_ident simpleType_ident)
next
  case (InterfaceType c)
  then show ?case
    by (simp add: resolve_ident simpleType_ident)
next
  case (TypeVar x)
  then show ?case
    by (simp add: resolve_ident simpleType_def)
qed (simp_all add: resolve_simple simpleType_def)

text \<open>
  The types whose text is misread: a list, dictionary or tuple type with a bar inside its brackets, and a union whose
  first member is a function type, or is a channel type and the text ends with a bracket.
\<close>

primrec misread :: "Type \<Rightarrow> bool" where
  "misread IntT \<longleftrightarrow> False"
| "misread FloatT \<longleftrightarrow> False"
| "misread StrT \<longleftrightarrow> False"
| "misread BoolT \<longleftrightarrow> False"
| "misread VoidT \<longleftrightarrow> False"
| "misread NullT \<longleftrightarrow> False"
| "misread UnknownT \<longleftrightarrow> False"
| "misread (ListType t) \<longleftrightarrow> CHR ''|'' \<in> set (typeText t)"
| "misread (DictType k v) \<longleftrightarrow> CHR ''|'' \<in> set (typeText k) \<union> set (typeText v)"
| "misread (TupleType ts) \<longleftrightarrow> CHR ''|'' \<in> set (joinWith '','' (map typeText ts))"
| "misread (FuncType f r ps) \<longleftrightarrow> False"
| "misread (ClassType c) \<longleftrightarrow> False"
| "misread (InterfaceType c) \<longleftrightarrow> False"
| "misread (TypeVar x) \<longleftrightarrow> False"
| "misread (UnionType ts) \<longleftrightarrow> (case ts of [] \<Rightarrow> False | t # us \<Rightarrow>
     (\<exists>f r ps. t = FuncType f r ps) \<or> (\<exists>c. t = ChanType c) \<and> last (joinWith ''|'' (map typeText ts)) = CHR '']'')"
| "misread (NullableType t) \<longleftrightarrow> False"
| "misread (ChanType t) \<longleftrightarrow> False"

lemma resolve_bar:
  assumes "CHR ''|'' \<in> set s" "take (length chanPrefix) s \<noteq> chanPrefix" "hd s \<noteq> CHR ''(''"
  shows "\<exists>us. resolveTypeName tps isI s = UnionType us"
proof -
  have "functionParts s = None"
    using assms(1,3) by (intro functionParts_None) auto
  then show ?thesis
    using assms(1,2) by (subst resolveTypeName.simps) simp
qed

lemma breakAt_found: "\<exists>q. breakAt pat (p @ pat @ r) = Some q"
  by (induction p) (subst breakAt.simps; auto)+

lemma joinWith_head: "\<exists>rest. joinWith sep (s # ss) = s @ rest"
  by (cases ss) auto

lemma resolve_misreads:
  assumes "misread t"
  shows "resolveTypeName tps isI (typeText t) \<noteq> t"
proof (cases t)
  case (ListType a)
  then show ?thesis
    using resolve_bar [of "typeText t" tps isI] assms by (auto simp: chanPrefix_def)
next
  case (DictType k v)
  then show ?thesis
    using resolve_bar [of "typeText t" tps isI] assms by (auto simp: chanPrefix_def)
next
  case (TupleType ts)
  then show ?thesis
    using resolve_bar [of "typeText t" tps isI] assms by (auto simp: chanPrefix_def)
next
  case (UnionType ts)
  then obtain a us where ts: "ts = a # us" "misread (UnionType (a # us))"
    using assms by (cases ts) auto
  obtain rest where front: "typeText t = typeText a @ rest"
    using joinWith_head [of "''|''" "typeText a" "map typeText us"] UnionType ts(1) by auto
  show ?thesis
  proof (cases "\<exists>f r ps. a = FuncType f r ps")
    case True
    then obtain f r ps where a: "a = FuncType f r ps"
      by blast
    obtain q where "breakAt '')->'' (''('' @ joinWith '','' (map typeText ps) @ '')->'' @ typeText r @ rest) = Some q"
      using breakAt_found [of "'')->''" "''('' @ joinWith '','' (map typeText ps)" "typeText r @ rest"] by auto
    then have "functionParts (typeText t) \<noteq> None"
      by (simp add: front a functionParts_def)
    moreover have "take (length chanPrefix) (typeText t) \<noteq> chanPrefix"
      by (simp add: front a chanPrefix_def)
    ultimately show ?thesis
      using UnionType by (subst resolveTypeName.simps) (auto split: option.split)
  next
    case False
    then obtain c where "a = ChanType c" "last (typeText t) = CHR '']''"
      using ts UnionType by auto
    then have "\<exists>u. resolveTypeName tps isI (typeText t) = ChanType u"
      by (subst resolveTypeName.simps) (simp add: front chanPrefix_def)
    then show ?thesis
      using UnionType by auto
  qed
qed (use assms in simp_all)



text \<open>What two of the misread forms are read as.\<close>

theorem resolve_misread:
  "resolveTypeName [] (\<lambda>_. False) ''list[int|null]'' = UnionType [ClassType ''list'', ClassType ''null]''] \<and>
   resolveTypeName [] (\<lambda>_. False) ''chan[int]|list[str]'' = ChanType (UnionType [ClassType ''int]'', ClassType ''list''])"
  by (simp add: resolveTypeName.simps chanPrefix_def functionParts_def splitOn.simps bracketed_def baseName_def
      simpleType_def)

end
