(* ===== verification/Symbol_Table.thy ===== *)
theory Symbol_Table
  imports Scopes Vsl_Types
begin

text \<open>
  The symbol table of the type checker: a registry of every scope ever opened, and the stack of the
  indices of those that are open, the innermost first. Leaving a scope only takes it off the stack; the
  registry keeps it for later queries.
\<close>

section \<open>State and operations\<close>

record Scope =
  symbols :: "string \<rightharpoonup> Type"
  startLine :: int
  endLine :: int
  parentIndex :: int

record SymbolTable =
  all_scopes :: "Scope list"
  active_stack :: "nat list"

definition symbolTable0 :: SymbolTable where
  "symbolTable0 = \<lparr>all_scopes = [], active_stack = []\<rparr>"

definition st_enterScope :: "int \<Rightarrow> SymbolTable \<Rightarrow> SymbolTable" where
  "st_enterScope line st =
     (let parent = (case active_stack st of [] \<Rightarrow> - 1 | i # is \<Rightarrow> int i);
          scope = \<lparr>symbols = Map.empty, startLine = line, endLine = 0, parentIndex = parent\<rparr>;
          scopes = all_scopes st @ [scope]
      in st\<lparr>all_scopes := scopes, active_stack := (length scopes - 1) # active_stack st\<rparr>)"

definition st_exitScope :: "int \<Rightarrow> SymbolTable \<Rightarrow> SymbolTable" where
  "st_exitScope line st =
     (case active_stack st of
        [] \<Rightarrow> st
      | i # is \<Rightarrow>
          st\<lparr>all_scopes := (all_scopes st)[i := (all_scopes st ! i)\<lparr>endLine := line\<rparr>], active_stack := is\<rparr>)"

definition st_declare :: "string \<Rightarrow> Type \<Rightarrow> SymbolTable \<Rightarrow> SymbolTable" where
  "st_declare x t st =
     (case active_stack st of
        [] \<Rightarrow> st
      | i # is \<Rightarrow>
          st\<lparr>all_scopes := (all_scopes st)
               [i := (all_scopes st ! i)\<lparr>symbols := (symbols (all_scopes st ! i))(x \<mapsto> t)\<rparr>]\<rparr>)"

definition st_isDeclared :: "SymbolTable \<Rightarrow> string \<Rightarrow> bool" where
  "st_isDeclared st x \<longleftrightarrow> list_ex (\<lambda>i. symbols (all_scopes st ! i) x \<noteq> None) (active_stack st)"

fun lookupIn :: "Scope list \<Rightarrow> string \<Rightarrow> nat list \<Rightarrow> Type" where
  "lookupIn scopes x [] = UnknownT"
| "lookupIn scopes x (i # is) =
     (case symbols (scopes ! i) x of Some t \<Rightarrow> t | None \<Rightarrow> lookupIn scopes x is)"

definition st_lookup :: "SymbolTable \<Rightarrow> string \<Rightarrow> Type" where
  "st_lookup st x = lookupIn (all_scopes st) x (active_stack st)"

definition st_lookupInCurrentScope :: "SymbolTable \<Rightarrow> string \<Rightarrow> Type option" where
  "st_lookupInCurrentScope st x =
     (case active_stack st of [] \<Rightarrow> None | i # is \<Rightarrow> symbols (all_scopes st ! i) x)"

text \<open>
  The names of the open scopes, outermost scope first. Within a scope they come in the traversal order of
  its hash map, a parameter.
\<close>

definition st_allNames :: "((string \<rightharpoonup> Type) \<Rightarrow> string list) \<Rightarrow> SymbolTable \<Rightarrow> string list" where
  "st_allNames order st = concat (map (\<lambda>i. order (symbols (all_scopes st ! i))) (rev (active_stack st)))"

section \<open>The table as a scope stack\<close>

text \<open>
  The open scopes are distinct registered ones, and the parent of each is the scope below it on the stack,
  or none.
\<close>

fun parentOf :: "nat list \<Rightarrow> int" where
  "parentOf [] = - 1"
| "parentOf (i # is) = int i"

fun chained :: "Scope list \<Rightarrow> nat list \<Rightarrow> bool" where
  "chained scopes [] \<longleftrightarrow> True"
| "chained scopes (i # is) \<longleftrightarrow>
     i < length scopes \<and> i \<notin> set is \<and> parentIndex (scopes ! i) = parentOf is \<and> chained scopes is"

text \<open>Every registered scope has a parent registered before it, or none.\<close>

definition table_inv :: "SymbolTable \<Rightarrow> bool" where
  "table_inv st \<longleftrightarrow> chained (all_scopes st) (active_stack st) \<and>
     (\<forall>i<length (all_scopes st). - 1 \<le> parentIndex (all_scopes st ! i) \<and> parentIndex (all_scopes st ! i) < int i)"

definition table_view :: "SymbolTable \<Rightarrow> names list" where
  "table_view st = map (\<lambda>i. dom (symbols (all_scopes st ! i))) (active_stack st)"

lemma chained_lt: "chained scopes is \<Longrightarrow> i \<in> set is \<Longrightarrow> i < length scopes"
  by (induction "is") auto

lemma chained_append: "chained scopes is \<Longrightarrow> chained (scopes @ ss) is"
  by (induction "is") (auto simp: nth_append)

lemma chained_update:
  "chained scopes is \<Longrightarrow> parentIndex s = parentIndex (scopes ! i) \<Longrightarrow> chained (scopes[i := s]) is"
proof (induction "is")
  case (Cons j js)
  then show ?case
    by (cases "j = i") auto
qed simp

lemma table_inv_enter: "table_inv st \<Longrightarrow> table_inv (st_enterScope line st)"
  by (auto simp: table_inv_def st_enterScope_def Let_def nth_append chained_append dest: chained_lt
      split: list.split)

lemma table_inv_exit: "table_inv st \<Longrightarrow> table_inv (st_exitScope line st)"
  by (auto simp: table_inv_def st_exitScope_def nth_list_update chained_update split: list.split)

lemma table_inv_declare: "table_inv st \<Longrightarrow> table_inv (st_declare x t st)"
  by (auto simp: table_inv_def st_declare_def nth_list_update chained_update split: list.splits)

lemma view_enter: "table_inv st \<Longrightarrow> table_view (st_enterScope line st) = {} # table_view st"
  by (auto simp: table_view_def table_inv_def st_enterScope_def Let_def nth_append dest: chained_lt)

lemma view_exit: "table_inv st \<Longrightarrow> table_view (st_exitScope line st) = tl (table_view st)"
  by (auto simp: table_view_def table_inv_def st_exitScope_def nth_list_update split: list.split if_splits)

lemma view_declare:
  "table_inv st \<Longrightarrow>
   table_view (st_declare x t st) = (case table_view st of [] \<Rightarrow> [] | d # ds \<Rightarrow> insert x d # ds)"
  by (auto simp: table_view_def table_inv_def st_declare_def nth_list_update split: list.splits if_splits)

lemma isDeclared_view: "st_isDeclared st x \<longleftrightarrow> (\<exists>d\<in>set (table_view st). x \<in> d)"
  by (auto simp: st_isDeclared_def table_view_def list_ex_iff)

interpretation table: scope_stack table_inv table_view "st_enterScope l" "st_exitScope e"
    "\<lambda>x. st_declare x t" st_isDeclared for l e t
  by unfold_locales
    (auto simp: table_inv_enter table_inv_exit table_inv_declare view_enter view_exit view_declare isDeclared_view)

lemma lookup_declared: "st_isDeclared st x \<longleftrightarrow> (\<exists>i\<in>set (active_stack st). symbols (all_scopes st ! i) x \<noteq> None)"
  by (simp add: st_isDeclared_def list_ex_iff)

lemma lookup_undeclared: "\<not> st_isDeclared st x \<Longrightarrow> st_lookup st x = UnknownT"
proof -
  have "\<forall>i\<in>set is. symbols (scopes ! i) x = None \<Longrightarrow> lookupIn scopes x is = UnknownT" for scopes "is"
    by (induction "is") auto
  then show "\<not> st_isDeclared st x \<Longrightarrow> ?thesis"
    by (auto simp: lookup_declared st_lookup_def)
qed

section \<open>The table as a stack of maps\<close>

text \<open>
  What the checker relies on: a stack of maps from names to types, in which a name is looked up from the
  top. The table, with its registry, is an implementation of it.
\<close>

datatype TableOp = EnterOp int | ExitOp int | DeclareOp string Type

fun table_step :: "TableOp \<Rightarrow> SymbolTable \<Rightarrow> SymbolTable" where
  "table_step (EnterOp l) st = st_enterScope l st"
| "table_step (ExitOp l) st = st_exitScope l st"
| "table_step (DeclareOp x t) st = st_declare x t st"

type_synonym frames = "(string \<rightharpoonup> Type) list"

fun frames_step :: "TableOp \<Rightarrow> frames \<Rightarrow> frames" where
  "frames_step (EnterOp l) fs = Map.empty # fs"
| "frames_step (ExitOp l) fs = tl fs"
| "frames_step (DeclareOp x t) [] = []"
| "frames_step (DeclareOp x t) (f # fs) = f(x \<mapsto> t) # fs"

fun frames_lookup :: "frames \<Rightarrow> string \<Rightarrow> Type option" where
  "frames_lookup [] x = None"
| "frames_lookup (f # fs) x = (case f x of Some t \<Rightarrow> Some t | None \<Rightarrow> frames_lookup fs x)"

definition table_frames :: "SymbolTable \<Rightarrow> frames" where
  "table_frames st = map (\<lambda>i. symbols (all_scopes st ! i)) (active_stack st)"

lemma table_inv_step: "table_inv st \<Longrightarrow> table_inv (table_step op st)"
  by (cases op) (simp_all add: table_inv_enter table_inv_exit table_inv_declare)

lemma frames_simulates: "table_inv st \<Longrightarrow> table_frames (table_step op st) = frames_step op (table_frames st)"
proof (cases op)
  case (EnterOp l)
  then show "table_inv st \<Longrightarrow> ?thesis"
    by (auto simp: table_frames_def table_inv_def st_enterScope_def Let_def nth_append dest: chained_lt)
next
  case (ExitOp l)
  then show "table_inv st \<Longrightarrow> ?thesis"
    by (cases "active_stack st") (auto simp: table_frames_def table_inv_def st_exitScope_def nth_list_update)
next
  case (DeclareOp x t)
  then show "table_inv st \<Longrightarrow> ?thesis"
    by (cases "active_stack st") (auto simp: table_frames_def table_inv_def st_declare_def nth_list_update)
qed

lemma frames_declared: "st_isDeclared st x \<longleftrightarrow> frames_lookup (table_frames st) x \<noteq> None"
proof -
  have "(\<exists>i\<in>set is. symbols (scopes ! i) x \<noteq> None) \<longleftrightarrow>
      frames_lookup (map (\<lambda>i. symbols (scopes ! i)) is) x \<noteq> None" for scopes "is"
    by (induction "is") (auto split: option.split)
  then show ?thesis
    by (simp add: st_isDeclared_def table_frames_def list_ex_iff)
qed

lemma frames_found: "st_lookup st x = (case frames_lookup (table_frames st) x of Some t \<Rightarrow> t | None \<Rightarrow> UnknownT)"
proof -
  have "lookupIn scopes x is =
      (case frames_lookup (map (\<lambda>i. symbols (scopes ! i)) is) x of Some t \<Rightarrow> t | None \<Rightarrow> UnknownT)" for scopes "is"
    by (induction "is") (auto split: option.split)
  then show ?thesis
    by (simp add: st_lookup_def table_frames_def)
qed

lemma frames_run:
  "table_inv (fold table_step ops symbolTable0) \<and>
   table_frames (fold table_step ops symbolTable0) = fold frames_step ops []"
proof (induction ops rule: rev_induct)
  case Nil
  then show ?case
    by (simp add: table_frames_def symbolTable0_def table_inv_def)
qed (simp add: table_inv_step frames_simulates)

text \<open>
  C17. After any sequence of openings, closings and declarations the table answers every query as the stack
  of maps does: whether a name is declared, its type, and its type in the innermost scope.
\<close>

theorem table_refines:
  "(let st = fold table_step ops symbolTable0; fs = fold frames_step ops []
    in st_isDeclared st x = (frames_lookup fs x \<noteq> None) \<and>
       st_lookup st x = (case frames_lookup fs x of Some t \<Rightarrow> t | None \<Rightarrow> UnknownT) \<and>
       st_lookupInCurrentScope st x = (case fs of [] \<Rightarrow> None | f # _ \<Rightarrow> f x) \<and>
       length (active_stack st) = length fs)"
proof -
  let ?st = "fold table_step ops symbolTable0"
  have "st_lookupInCurrentScope ?st x = (case table_frames ?st of [] \<Rightarrow> None | f # _ \<Rightarrow> f x)"
    by (simp add: st_lookupInCurrentScope_def table_frames_def split: list.split)
  moreover have "length (active_stack ?st) = length (table_frames ?st)"
    by (simp add: table_frames_def)
  ultimately show ?thesis
    using frames_declared [of ?st x] frames_found [of ?st x] frames_run [of ops] by (simp add: Let_def)
qed

end
