(* ===== verification/Levenshtein.thy ===== *)
theory Levenshtein
  imports Vsl_Prelude
begin

text \<open>
  The edit distance behind the "did you mean" hints (\<^verbatim>\<open>levenshtein\<close> in \<^verbatim>\<open>src/typechecker.cpp\<close>): the two-row
  table of the code, and its equivalence with the recursive definition of the distance.
\<close>

section \<open>The two rows\<close>

text \<open>
  The inner loop: from the row before, starting at the column left of the next one, and the entry just
  written, the rest of the new row.
\<close>

fun levRow :: "char \<Rightarrow> string \<Rightarrow> nat list \<Rightarrow> nat \<Rightarrow> nat list" where
  "levRow c (d # ds) (p # q # prev) left =
     (let cost = (if c = d then 0 else 1);
          c1 = min (q + 1) (left + 1);
          entry = min c1 (p + cost)
      in entry # levRow c ds (q # prev) entry)"
| "levRow c ds prev left = []"

fun levLoop :: "string \<Rightarrow> string \<Rightarrow> nat \<Rightarrow> nat list \<Rightarrow> nat list" where
  "levLoop [] b i prev = prev"
| "levLoop (c # cs) b i prev = levLoop cs b (i + 1) (i # levRow c b prev i)"

definition levenshtein :: "string \<Rightarrow> string \<Rightarrow> nat" where
  "levenshtein a b =
     (if a = [] then length b
      else if b = [] then length a
      else levLoop a b 1 [0..<length b + 1] ! length b)"

section \<open>The distance\<close>

fun edit :: "string \<Rightarrow> string \<Rightarrow> nat" where
  "edit [] ys = length ys"
| "edit (x # xs) [] = Suc (length xs)"
| "edit (x # xs) (y # ys) =
     min (min (edit xs (y # ys) + 1) (edit (x # xs) ys + 1)) (edit xs ys + (if x = y then 0 else 1))"

text \<open>The row of the table for a reversed prefix of the first word, from a column on.\<close>

fun row :: "string \<Rightarrow> string \<Rightarrow> string \<Rightarrow> nat list" where
  "row u v [] = [edit u v]"
| "row u v (d # ds) = edit u v # row u (d # v) ds"

lemma row_Cons: "row u v ds = edit u v # tl (row u v ds)"
  by (cases ds) simp_all

lemma length_row [simp]: "length (row u v ds) = Suc (length ds)"
  by (induction ds arbitrary: v) simp_all

lemma row_last: "row u v ds ! length ds = edit u (rev ds @ v)"
  by (induction ds arbitrary: v) simp_all

lemma levRow_row: "levRow c ds (row u v ds) (edit (c # u) v) = tl (row (c # u) v ds)"
proof (induction ds arbitrary: v)
  case (Cons d ds)
  let ?e = "edit (c # u) (d # v)"
  have "levRow c (d # ds) (row u v (d # ds)) (edit (c # u) v) = ?e # levRow c ds (row u (d # v) ds) ?e"
  proof -
    obtain rest where "row u (d # v) ds = edit u (d # v) # rest"
      using row_Cons by blast
    then show ?thesis
      by (simp add: Let_def)
  qed
  then show ?case
    using Cons [of "d # v"] row_Cons [of "c # u" "d # v" ds] by simp
qed simp

lemma levLoop_row: "levLoop cs b (Suc (length u)) (row u [] b) = row (rev cs @ u) [] b"
proof (induction cs arbitrary: u)
  case (Cons c cs)
  have "Suc (length u) # levRow c b (row u [] b) (Suc (length u)) = row (c # u) [] b"
    using levRow_row [of c b u "[]"] row_Cons [of "c # u" "[]" b] by simp
  then show ?case
    using Cons [of "c # u"] by simp
qed simp

lemma row_Nil: "row [] v b = [length v..<length v + length b + 1]"
  by (induction b arbitrary: v) (simp_all add: upt_rec)

lemma edit_Nil [simp]: "edit xs [] = length xs"
  by (cases xs) simp_all

lemma levenshtein_eq: "levenshtein a b = edit (rev a) (rev b)"
  using levLoop_row [of a b "[]"] by (simp add: levenshtein_def row_Nil row_last)

section \<open>Facts about the distance\<close>

lemma edit_commute: "edit xs ys = edit ys xs"
  by (induction xs ys rule: edit.induct) auto

lemma edit_self [simp]: "edit xs xs = 0"
  by (induction xs) simp_all

lemma edit_le: "edit xs ys \<le> max (length xs) (length ys)"
  by (induction xs ys rule: edit.induct) auto

lemma edit_ge: "length xs \<le> length ys + edit xs ys \<and> length ys \<le> length xs + edit xs ys"
  by (induction xs ys rule: edit.induct) auto

lemma edit_zero: "edit xs ys = 0 \<longleftrightarrow> xs = ys"
  by (induction xs ys rule: edit.induct) (auto split: if_splits)

text \<open>
  C12. The table computes the edit distance, and with it a distance: it is zero exactly for equal words,
  symmetric, at least the difference of the lengths and at most the greater length.
\<close>

theorem levenshtein_distance:
  "levenshtein a b = edit (rev a) (rev b) \<and> (levenshtein a b = 0 \<longleftrightarrow> a = b) \<and> levenshtein a b = levenshtein b a \<and>
   \<bar>int (length a) - int (length b)\<bar> \<le> int (levenshtein a b) \<and> levenshtein a b \<le> max (length a) (length b)"
  using edit_ge [of "rev a" "rev b"] edit_le [of "rev a" "rev b"]
  by (auto simp: levenshtein_eq edit_zero edit_commute [of "rev a"])

end
