(* ===== verification/Type_Relations.thy ===== *)
theory Type_Relations
  imports Vsl_Types
begin

text \<open>
  The relations between types (\<^verbatim>\<open>src/typechecker.cpp\<close>): subclassing, implementing an interface and
  assignability. The walks up the class table are not bounded in the code: the value None of the model
  stands for a walk that does not return. The second half shows when they do.
\<close>

section \<open>Class and interface tables\<close>

record MethodInfo =
  mi_name :: string
  mi_returnType :: Type
  mi_paramTypes :: "Type list"

record TcClassInfo =
  cl_name :: string
  cl_baseClass :: string
  cl_extraBases :: "string list"
  cl_interfaces :: "string list"
  cl_typeParams :: "string list"
  cl_methods :: "MethodInfo list"

record InterfaceInfo =
  if_name :: string
  if_methods :: "MethodInfo list"

type_synonym classTable = "string \<rightharpoonup> TcClassInfo"

section \<open>Loops that stop at an answer\<close>

fun anyM :: "('a \<Rightarrow> bool option) \<Rightarrow> 'a list \<Rightarrow> bool option" where
  "anyM f [] = Some False"
| "anyM f (x # xs) = Option.bind (f x) (\<lambda>b. if b then Some True else anyM f xs)"

fun allM :: "('a \<Rightarrow> bool option) \<Rightarrow> 'a list \<Rightarrow> bool option" where
  "allM f [] = Some True"
| "allM f (x # xs) = Option.bind (f x) (\<lambda>b. if b then allM f xs else Some False)"

lemma anyM_cong [fundef_cong]:
  "xs = ys \<Longrightarrow> (\<And>x. x \<in> set ys \<Longrightarrow> f x = g x) \<Longrightarrow> anyM f xs = anyM g ys"
  by (induction xs arbitrary: ys) (auto cong: if_cong)

lemma allM_cong [fundef_cong]:
  "xs = ys \<Longrightarrow> (\<And>x. x \<in> set ys \<Longrightarrow> f x = g x) \<Longrightarrow> allM f xs = allM g ys"
  by (induction xs arbitrary: ys) (auto cong: if_cong)

lemma anyM_mono [partial_function_mono]:
  assumes "\<And>x. mono_option (\<lambda>F. f F x)"
  shows "mono_option (\<lambda>F. anyM (f F) xs)"
proof (induction xs)
  case (Cons x xs)
  show ?case
    unfolding anyM.simps
    by (intro bind_mono assms if_mono Cons) (rule option.const_mono)
qed (simp add: option.const_mono)

section \<open>Subclasses and interfaces\<close>

partial_function (option) climb :: "classTable \<Rightarrow> string \<Rightarrow> string \<Rightarrow> bool option" where
  [code]: "climb ct super current =
     (if current = [] then Some False
      else if current = super then Some True
      else case ct current of
        None \<Rightarrow> Some False
      | Some info \<Rightarrow> climb ct super (cl_baseClass info))"

definition isSubtype :: "classTable \<Rightarrow> Type \<Rightarrow> Type \<Rightarrow> bool option" where
  "isSubtype ct sub super =
     (if typeEquals sub super then Some True
      else case (sub, super) of
        (ClassType c, ClassType d) \<Rightarrow> climb ct d c
      | _ \<Rightarrow> Some False)"

partial_function (option) classImplementsInterface :: "classTable \<Rightarrow> string \<Rightarrow> string \<Rightarrow> bool option" where
  [code]: "classImplementsInterface ct iface c =
     (case ct c of
        None \<Rightarrow> Some False
      | Some info \<Rightarrow>
          if iface \<in> set (cl_interfaces info) then Some True
          else Option.bind
                 (if cl_baseClass info \<noteq> [] then classImplementsInterface ct iface (cl_baseClass info) else Some False)
                 (\<lambda>b. if b then Some True else anyM (classImplementsInterface ct iface) (cl_extraBases info)))"

section \<open>Assignability\<close>

definition funcCompatible :: "Type list \<Rightarrow> Type list \<Rightarrow> bool" where
  "funcCompatible ps qs \<longleftrightarrow> length ps = length qs \<and>
     list_all (\<lambda>(p, q). isUnknown p \<or> isUnknown q \<or> typeEquals p q) (zip ps qs)"

lemma size_member: "t \<in> set ts \<Longrightarrow> size t < Suc (size_list size ts)"
  by (induction ts) auto

lemma size_zip: "(t, u) \<in> set (zip ts us) \<Longrightarrow> size t + size u \<le> size_list size ts + size_list size us"
proof -
  assume "(t, u) \<in> set (zip ts us)"
  then have "t \<in> set ts" and "u \<in> set us"
    by (auto dest: set_zip_leftD set_zip_rightD)
  then show ?thesis
    using size_member [of t ts] size_member [of u us] by simp
qed

function isAssignableTo :: "classTable \<Rightarrow> Type \<Rightarrow> Type \<Rightarrow> bool option" where
  "isAssignableTo ct from to =
     (if typeEquals from to then Some True
      else if isUnknown from \<or> isUnknown to then Some True
      else if kind from = KNull then Some True
      else if kind from = KTypeVar \<or> kind to = KTypeVar then Some True
      else if isNumeric from \<and> isNumeric to \<and> kind from = KInt \<and> kind to = KFloat then Some True
      else case to of
        UnionType ms \<Rightarrow> anyM (\<lambda>m. isAssignableTo ct from m) ms
      | ClassType d \<Rightarrow> (case from of ClassType c \<Rightarrow> isSubtype ct from to | _ \<Rightarrow> Some False)
      | ListType te \<Rightarrow>
          (case from of
             ListType fe \<Rightarrow> if isUnknown te \<or> isUnknown fe then Some True else isAssignableTo ct fe te
           | _ \<Rightarrow> Some False)
      | DictType tk tv \<Rightarrow>
          (case from of
             DictType fk fv \<Rightarrow>
               if isUnknown tk \<and> isUnknown tv then Some True
               else if isUnknown fk \<and> isUnknown fv then Some True
               else Option.bind (isAssignableTo ct fk tk) (\<lambda>b. if b then isAssignableTo ct fv tv else Some False)
           | _ \<Rightarrow> Some False)
      | TupleType ts \<Rightarrow>
          (case from of
             TupleType fs \<Rightarrow>
               if ts = [] then Some True
               else if length fs \<noteq> length ts then Some False
               else allM (\<lambda>p. if isUnknown (snd p) \<or> isUnknown (fst p) then Some True
                              else isAssignableTo ct (fst p) (snd p)) (zip fs ts)
           | _ \<Rightarrow> Some False)
      | FuncType g r qs \<Rightarrow> (case from of FuncType f r' ps \<Rightarrow> Some (funcCompatible ps qs) | _ \<Rightarrow> Some False)
      | InterfaceType i \<Rightarrow> (case from of ClassType c \<Rightarrow> classImplementsInterface ct i c | _ \<Rightarrow> Some False)
      | _ \<Rightarrow> Some False)"
  by pat_completeness auto

termination
  by (relation "measure (\<lambda>(_, from, to). size from + size to)")
    (auto simp: less_Suc_eq_le dest: size_zip size_member)

declare isAssignableTo.simps [simp del]

section \<open>When the walks return\<close>

text \<open>The edges a walk follows: from a class to its base, and to every base it names.\<close>

definition baseOf :: "classTable \<Rightarrow> (string \<times> string) set" where
  "baseOf ct = {(b, c). \<exists>info. ct c = Some info \<and> cl_baseClass info = b \<and> b \<noteq> []}"

definition basesOf :: "classTable \<Rightarrow> (string \<times> string) set" where
  "basesOf ct = {(b, c). \<exists>info. ct c = Some info \<and> (cl_baseClass info = b \<and> b \<noteq> [] \<or> b \<in> set (cl_extraBases info))}"

text \<open>A class table without cycles.\<close>

definition hierarchy :: "classTable \<Rightarrow> bool" where
  "hierarchy ct \<longleftrightarrow> finite (dom ct) \<and> acyclic (basesOf ct)"

lemma finite_basesOf: "finite (dom ct) \<Longrightarrow> finite (basesOf ct)"
proof -
  assume "finite (dom ct)"
  then have "finite (\<Union>c\<in>dom ct. (\<lambda>b. (b, c)) ` insert (cl_baseClass (the (ct c))) (set (cl_extraBases (the (ct c)))))"
    by auto
  moreover have "basesOf ct \<subseteq> (\<Union>c\<in>dom ct. (\<lambda>b. (b, c)) ` insert (cl_baseClass (the (ct c))) (set (cl_extraBases (the (ct c)))))"
    by (force simp: basesOf_def)
  ultimately show ?thesis
    by (rule finite_subset [rotated])
qed

lemma wf_basesOf: "hierarchy ct \<Longrightarrow> wf (basesOf ct)"
  by (simp add: hierarchy_def finite_basesOf finite_acyclic_wf)

lemma baseOf_bases: "baseOf ct \<subseteq> basesOf ct"
  by (auto simp: baseOf_def basesOf_def)

lemma climb_reaches:
  assumes "hierarchy ct" and "super \<noteq> []" and "c \<noteq> []"
  shows "climb ct super c = Some ((super, c) \<in> (baseOf ct)\<^sup>*)"
  using assms(3)
proof (induction c rule: wf_induct_rule [OF wf_basesOf [OF assms(1)]])
  case (1 c)
  show ?case
  proof (cases "c = super")
    case False
    show ?thesis
    proof (cases "ct c")
      case None
      then have "(super, c) \<notin> (baseOf ct)\<^sup>*"
        using False by (auto simp: baseOf_def elim: rtranclE)
      then show ?thesis
        using None False 1(2) by (simp add: climb.simps [of ct super c])
    next
      case (Some info)
      let ?b = "cl_baseClass info"
      show ?thesis
      proof (cases "?b = []")
        case True
        then have "(super, c) \<notin> (baseOf ct)\<^sup>*"
          using False Some by (auto simp: baseOf_def elim: rtranclE)
        then show ?thesis
          using Some False True 1(2) by (simp add: climb.simps [of ct super c] climb.simps [of ct super "[]"])
      next
        case nonempty: False
        then have edge: "(b, c) \<in> baseOf ct \<longleftrightarrow> b = ?b" for b
          using Some by (auto simp: baseOf_def)
        have "(super, c) \<in> (baseOf ct)\<^sup>* \<longleftrightarrow> (super, ?b) \<in> (baseOf ct)\<^sup>*"
          using False edge by (metis rtranclE rtrancl.rtrancl_into_rtrancl)
        moreover have "climb ct super ?b = Some ((super, ?b) \<in> (baseOf ct)\<^sup>*)"
          using 1(1) [of ?b] nonempty edge baseOf_bases by blast
        ultimately show ?thesis
          using Some False 1(2) by (simp add: climb.simps [of ct super c])
      qed
    qed
  qed (use 1(2) in \<open>simp add: climb.simps\<close>)
qed

definition returns :: "'a option \<Rightarrow> bool" where
  "returns m \<longleftrightarrow> m \<noteq> None"

lemma returns_Some [simp]: "returns (Some x)"
  by (simp add: returns_def)

lemma returns_bind: "returns m \<Longrightarrow> (\<And>b. m = Some b \<Longrightarrow> returns (f b)) \<Longrightarrow> returns (Option.bind m f)"
  by (cases m) (simp_all add: returns_def)

lemma returns_anyM: "(\<And>x. x \<in> set xs \<Longrightarrow> returns (f x)) \<Longrightarrow> returns (anyM f xs)"
  by (induction xs) (simp_all add: returns_bind)

lemma returns_allM: "(\<And>x. x \<in> set xs \<Longrightarrow> returns (f x)) \<Longrightarrow> returns (allM f xs)"
  by (induction xs) (simp_all add: returns_bind)

lemma implements_returns:
  assumes "hierarchy ct"
  shows "returns (classImplementsInterface ct iface c)"
proof (induction c rule: wf_induct_rule [OF wf_basesOf [OF assms]])
  case (1 c)
  show ?case
  proof (cases "ct c")
    case (Some info)
    have "returns (anyM (classImplementsInterface ct iface) (cl_extraBases info))"
      using 1 Some by (intro returns_anyM) (auto simp: basesOf_def)
    moreover have "cl_baseClass info \<noteq> [] \<Longrightarrow> returns (classImplementsInterface ct iface (cl_baseClass info))"
      using 1 Some by (auto simp: basesOf_def)
    ultimately show ?thesis
      using Some by (simp add: classImplementsInterface.simps [of ct iface c] returns_bind)
  qed (simp add: classImplementsInterface.simps [of ct iface c])
qed

lemma climb_returns:
  assumes "hierarchy ct"
  shows "returns (climb ct super c)"
proof (induction c rule: wf_induct_rule [OF wf_basesOf [OF assms]])
  case (1 c)
  show ?case
  proof (cases "ct c")
    case (Some info)
    have "returns (climb ct super (cl_baseClass info))"
    proof (cases "cl_baseClass info = []")
      case False
      then show ?thesis
        using 1 Some by (auto simp: basesOf_def)
    qed (simp add: climb.simps)
    then show ?thesis
      using Some by (simp add: climb.simps [of ct super c])
  qed (simp add: climb.simps [of ct super c])
qed

lemma isSubtype_returns: "hierarchy ct \<Longrightarrow> returns (isSubtype ct t u)"
  by (simp add: isSubtype_def climb_returns split: Type.split)

lemma isAssignableTo_returns:
  assumes "hierarchy ct"
  shows "returns (isAssignableTo ct t u)"
proof (induction "size t + size u" arbitrary: t u rule: less_induct)
  case less
  show ?case
  proof (cases u)
    case (UnionType ms)
    have "returns (anyM (\<lambda>m. isAssignableTo ct t m) ms)"
      using less by (intro returns_anyM) (auto simp: UnionType less_Suc_eq_le dest: size_member)
    then show ?thesis
      by (subst isAssignableTo.simps) (simp add: UnionType)
  next
    case (ListType te)
    then show ?thesis
      using less by (subst isAssignableTo.simps) (auto split: Type.split)
  next
    case (DictType tk tv)
    have "returns (Option.bind (isAssignableTo ct fk tk) (\<lambda>b. if b then isAssignableTo ct fv tv else Some False))"
      if "t = DictType fk fv" for fk fv
      using less that by (intro returns_bind) (auto simp: DictType)
    then show ?thesis
      by (subst isAssignableTo.simps) (auto simp: DictType split: Type.split)
  next
    case (TupleType ts)
    have "returns (allM (\<lambda>p. if isUnknown (snd p) \<or> isUnknown (fst p) then Some True
        else isAssignableTo ct (fst p) (snd p)) (zip fs ts))" if "t = TupleType fs" for fs
      using less that by (intro returns_allM) (auto simp: TupleType less_Suc_eq_le dest: size_zip)
    then show ?thesis
      by (subst isAssignableTo.simps) (auto simp: TupleType split: Type.split)
  next
    case (ClassType d)
    then show ?thesis
      using assms by (subst isAssignableTo.simps) (auto simp: isSubtype_returns split: Type.split)
  next
    case (InterfaceType i)
    then show ?thesis
      using assms by (subst isAssignableTo.simps) (auto simp: implements_returns split: Type.split)
  qed (subst isAssignableTo.simps, auto split: Type.split)+
qed

text \<open>
  With no cycle in the class table, assignability is decided for every two types, and a class is a
  subtype of another exactly when the other is reached from it by following base classes.
\<close>

theorem assignability_decided:
  assumes "hierarchy ct" and "c \<noteq> []" and "d \<noteq> []"
  shows "isAssignableTo ct t u \<noteq> None \<and> isSubtype ct (ClassType c) (ClassType d) = Some ((d, c) \<in> (baseOf ct)\<^sup>*)"
  using isAssignableTo_returns [OF assms(1), of t u] climb_reaches [OF assms(1,3,2)]
  by (auto simp: returns_def isSubtype_def)

definition exampleClassInfo :: "string \<Rightarrow> string \<Rightarrow> TcClassInfo" where
  "exampleClassInfo c base = \<lparr>cl_name = c, cl_baseClass = base, cl_extraBases = [], cl_interfaces = [],
     cl_typeParams = [], cl_methods = []\<rparr>"

theorem assignability_decided_witness:
  "isSubtype [''A'' \<mapsto> exampleClassInfo ''A'' ''B''] (ClassType ''A'') (ClassType ''B'') = Some True"
proof -
  let ?ct = "[''A'' \<mapsto> exampleClassInfo ''A'' ''B'']"
  have bases: "basesOf ?ct = {(''B'', ''A'')}" and base: "baseOf ?ct = {(''B'', ''A'')}"
    by (auto simp: basesOf_def baseOf_def exampleClassInfo_def)
  have "hierarchy ?ct"
    unfolding hierarchy_def bases by (simp add: acyclic_insert) (simp add: acyclic_def)
  from assignability_decided [OF this, of "''A''" "''B''"] show ?thesis
    unfolding base by auto
qed

text \<open>
  With a cycle the walk may not return: from a class on a chain of bases that never ends and never
  meets the class asked for, the test for a subtype runs forever.
\<close>

theorem subtype_endless:
  assumes "c \<in> E" and "[] \<notin> E" and "d \<notin> E"
    and "\<And>c. c \<in> E \<Longrightarrow> \<exists>info. ct c = Some info \<and> cl_baseClass info \<in> E"
  shows "isSubtype ct (ClassType c) (ClassType d) = None"
proof -
  have "ct' = ct \<longrightarrow> d' = d \<longrightarrow> c' \<notin> E" if "climb ct' d' c' = Some b" for ct' d' c' b
    by (rule climb.raw_induct [where P = "\<lambda>ct' d' c' b. ct' = ct \<longrightarrow> d' = d \<longrightarrow> c' \<notin> E", OF _ that])
      (use assms(2-4) in \<open>fastforce split: if_splits option.splits\<close>)
  then show ?thesis
    using assms(1,3) by (cases "climb ct d c") (auto simp: isSubtype_def)
qed

theorem subtype_endless_witness:
  "isSubtype [''A'' \<mapsto> exampleClassInfo ''A'' ''B'', ''B'' \<mapsto> exampleClassInfo ''B'' ''A''] (ClassType ''A'')
     (ClassType ''C'') = None"
  by (rule subtype_endless [where E = "{''A'', ''B''}"]) (auto simp: exampleClassInfo_def)

end
