(* ===== verification/Check_Base.thy ===== *)
theory Check_Base
  imports Symbol_Table Levenshtein Type_Names Type_Relations Diagnostics
begin

text \<open>
  The state of the type checker (\<^verbatim>\<open>TypeChecker\<close> in \<^verbatim>\<open>include/typechecker.h\<close>) and its helpers: errors,
  scopes, lookup with a hint, resolution of annotations, unification. A visit returns a value, throws a
  type error, or does not return; the slot \<^verbatim>\<open>exprResult_\<close> through which the visitors hand over a type is
  the value returned.
\<close>

section \<open>State\<close>

text \<open>
  The last field stands for the order in which a hash map is traversed, which the C++ library does not
  specify; nothing changes it.
\<close>

record TC =
  tc_filename :: string
  tc_symbols :: SymbolTable
  tc_throwOnFirstError :: bool
  tc_insideClass :: bool
  tc_currentReturnType :: Type
  tc_hasExplicitReturnType :: bool
  tc_functionNestingDepth :: int
  tc_constVars :: names
  tc_currentClassName :: string
  tc_currentTypeParams :: "string list"
  tc_classTable :: "string \<rightharpoonup> TcClassInfo"
  tc_interfaceTable :: "string \<rightharpoonup> InterfaceInfo"
  tc_funcTypeParams :: "string \<rightharpoonup> string list"
  tc_funcBounds :: "string \<rightharpoonup> string"
  tc_funcMinArgs :: "string \<rightharpoonup> nat"
  tc_errors :: "Diagnostic list"
  tc_hashOrder :: "(string \<rightharpoonup> Type) \<Rightarrow> string list"

definition mkTypeChecker :: "((string \<rightharpoonup> Type) \<Rightarrow> string list) \<Rightarrow> string \<Rightarrow> bool \<Rightarrow> TC" where
  "mkTypeChecker order file throwFirst =
     \<lparr>tc_filename = file, tc_symbols = symbolTable0, tc_throwOnFirstError = throwFirst, tc_insideClass = False,
      tc_currentReturnType = VoidT, tc_hasExplicitReturnType = False, tc_functionNestingDepth = 0,
      tc_constVars = {}, tc_currentClassName = [], tc_currentTypeParams = [], tc_classTable = Map.empty,
      tc_interfaceTable = Map.empty, tc_funcTypeParams = Map.empty, tc_funcBounds = Map.empty,
      tc_funcMinArgs = Map.empty, tc_errors = [], tc_hashOrder = order\<rparr>"

definition mkTypeError :: "string \<Rightarrow> string \<Rightarrow> int \<Rightarrow> int \<Rightarrow> string \<Rightarrow> int \<Rightarrow> int \<Rightarrow> Diagnostic" where
  "mkTypeError msg file ln col hnt eln ec =
     \<lparr>d_severity = Error, d_message = msg, d_hint = hnt, d_filename = file, d_line = ln, d_col = col,
      d_endLine = eln, d_endCol = ec, d_source_line = ''''\<rparr>"

section \<open>Outcomes\<close>

datatype 'a outcome = Value 'a | Thrown Diagnostic | Endless

type_synonym 'a tc = "TC \<Rightarrow> 'a outcome \<times> TC"

definition tcRet :: "'a \<Rightarrow> 'a tc" where
  "tcRet x st = (Value x, st)"

definition tcBind :: "'a tc \<Rightarrow> ('a \<Rightarrow> 'b tc) \<Rightarrow> 'b tc" where
  "tcBind m f st =
     (case m st of
        (Value x, st') \<Rightarrow> f x st'
      | (Thrown d, st') \<Rightarrow> (Thrown d, st')
      | (Endless, st') \<Rightarrow> (Endless, st'))"

abbreviation tcThen :: "'a tc \<Rightarrow> 'b tc \<Rightarrow> 'b tc" where
  "tcThen m k \<equiv> tcBind m (\<lambda>_. k)"

definition tcGet :: "(TC \<Rightarrow> 'a) \<Rightarrow> 'a tc" where
  "tcGet f st = (Value (f st), st)"

definition tcModify :: "(TC \<Rightarrow> TC) \<Rightarrow> unit tc" where
  "tcModify f st = (Value (), f st)"

definition tcAnswer :: "'a option \<Rightarrow> 'a tc" where
  "tcAnswer m st = (case m of None \<Rightarrow> (Endless, st) | Some x \<Rightarrow> (Value x, st))"

definition tcThrow :: "string \<Rightarrow> Node \<Rightarrow> 'a tc" where
  "tcThrow msg n st =
     (Thrown (mkTypeError msg (tc_filename st) (n_line n) (n_column n) '''' 0 0), st)"

abbreviation tcSkip :: "unit tc" where
  "tcSkip \<equiv> tcRet ()"

definition tcWhen :: "bool \<Rightarrow> unit tc \<Rightarrow> unit tc" where
  "tcWhen b m = (if b then m else tcSkip)"

fun tcSeq :: "'a tc list \<Rightarrow> 'a list tc" where
  "tcSeq [] = tcRet []"
| "tcSeq (m # ms) = tcBind m (\<lambda>x. tcBind (tcSeq ms) (\<lambda>xs. tcRet (x # xs)))"

text \<open>A visit whose result is not used.\<close>

abbreviation tcIgnore :: "'a tc \<Rightarrow> unit tc" where
  "tcIgnore m \<equiv> tcThen m tcSkip"

text \<open>Steps in order, and a step with some fields set for its duration.\<close>

definition tcDo :: "unit tc list \<Rightarrow> unit tc" where
  "tcDo ms = tcIgnore (tcSeq ms)"

definition tcLocally :: "(TC \<Rightarrow> TC) \<Rightarrow> (TC \<Rightarrow> TC \<Rightarrow> TC) \<Rightarrow> 'a tc \<Rightarrow> 'a tc" where
  "tcLocally change restore m =
     tcBind (tcGet id) (\<lambda>saved.
       tcThen (tcModify change) (tcBind m (\<lambda>x. tcThen (tcModify (restore saved)) (tcRet x))))"

section \<open>Errors and scopes\<close>

definition quoted :: "string \<Rightarrow> string" where
  "quoted s = [SQUOTE] @ s @ [SQUOTE]"

definition tcErrorHint :: "string \<Rightarrow> Node \<Rightarrow> string \<Rightarrow> unit tc" where
  "tcErrorHint msg n hint =
     tcModify (\<lambda>st. st\<lparr>tc_errors := tc_errors st @
       [mkTypeError msg (tc_filename st) (n_line n) (n_column n) hint 0 0]\<rparr>)"

definition tcError :: "string \<Rightarrow> Node \<Rightarrow> unit tc" where
  "tcError msg n = tcErrorHint msg n ''''"

definition enterScope :: "int \<Rightarrow> unit tc" where
  "enterScope line = tcModify (\<lambda>st. st\<lparr>tc_symbols := st_enterScope line (tc_symbols st)\<rparr>)"

definition exitScope :: "int \<Rightarrow> unit tc" where
  "exitScope line = tcModify (\<lambda>st. st\<lparr>tc_symbols := st_exitScope line (tc_symbols st)\<rparr>)"

definition tcDeclare :: "string \<Rightarrow> Type \<Rightarrow> unit tc" where
  "tcDeclare x t = tcModify (\<lambda>st. st\<lparr>tc_symbols := st_declare x t (tc_symbols st)\<rparr>)"

definition builtinFunctions :: "string list" where
  "builtinFunctions =
     [''print'', ''println'', ''input'', ''len'', ''range'', ''type'', ''isinstance'',
      ''int'', ''float'', ''str'', ''bool'', ''abs'', ''min'', ''max'', ''round'',
      ''sorted'', ''reversed'', ''enumerate'', ''zip'', ''map'', ''filter'', ''make_chan'']"

definition isBuiltinFunction :: "string \<Rightarrow> bool" where
  "isBuiltinFunction x \<longleftrightarrow> x \<in> set builtinFunctions"

text \<open>The nearest of the names in scope, the first of those at the least distance, if that is at most 2.\<close>

definition closer :: "string \<Rightarrow> string \<Rightarrow> string \<times> nat \<Rightarrow> string \<times> nat" where
  "closer name candidate best =
     (let dist = levenshtein name candidate
      in if dist \<le> 2 \<and> dist < snd best then (candidate, dist) else best)"

definition bestCandidate :: "string \<Rightarrow> string list \<Rightarrow> string" where
  "bestCandidate name candidates = fst (fold (closer name) candidates ('''', 2147483647))"

definition undefinedHint :: "string \<Rightarrow> string list \<Rightarrow> string" where
  "undefinedHint name candidates =
     (let best = bestCandidate name candidates
      in if best \<noteq> [] then ''did you mean '' @ quoted best @ ''?'' else '''')"

definition tcLookup :: "string \<Rightarrow> Node \<Rightarrow> Type tc" where
  "tcLookup x n =
     tcBind (tcGet (\<lambda>st. st_isDeclared (tc_symbols st) x)) (\<lambda>declared.
       if declared then tcGet (\<lambda>st. st_lookup (tc_symbols st) x)
       else if isBuiltinFunction x then tcRet UnknownT
       else tcBind (tcGet (\<lambda>st. st_allNames (tc_hashOrder st) (tc_symbols st))) (\<lambda>candidates.
         tcThen (tcErrorHint (''Undefined variable '' @ quoted x) n (undefinedHint x candidates))
           (tcGet (\<lambda>st. st_lookup (tc_symbols st) x))))"

section \<open>Types\<close>

definition resolveIn :: "TC \<Rightarrow> string \<Rightarrow> Type" where
  "resolveIn st name = resolveTypeName (tc_currentTypeParams st) (\<lambda>i. tc_interfaceTable st i \<noteq> None) name"

definition tcResolve :: "string \<Rightarrow> Type tc" where
  "tcResolve name = tcGet (\<lambda>st. resolveIn st name)"

definition tcAssignable :: "Type \<Rightarrow> Type \<Rightarrow> bool tc" where
  "tcAssignable t u = tcBind (tcGet tc_classTable) (\<lambda>ct. tcAnswer (isAssignableTo ct t u))"

definition promoteNumeric :: "Type \<Rightarrow> Type \<Rightarrow> Type" where
  "promoteNumeric a b = (if kind a = KFloat \<or> kind b = KFloat then FloatT else IntT)"

definition conversionHint :: "Kind \<Rightarrow> string" where
  "conversionHint k =
     (case k of
        KInt \<Rightarrow> ''did you mean to call int(x)?''
      | KFloat \<Rightarrow> ''did you mean to call float(x)?''
      | KStr \<Rightarrow> ''did you mean to call str(x)?''
      | KBool \<Rightarrow> ''did you mean to call bool(x)?''
      | _ \<Rightarrow> '''')"

text \<open>The variant of assignments and returns, which has no hint for a boolean.\<close>

definition conversionHint3 :: "Kind \<Rightarrow> string" where
  "conversionHint3 k = (if k = KBool then '''' else conversionHint k)"

definition unify :: "Type \<Rightarrow> Type \<Rightarrow> Node \<Rightarrow> Type tc" where
  "unify a b n =
     (if isUnknown a then tcRet b
      else if isUnknown b then tcRet a
      else if typeEquals a b then tcRet a
      else if isNumeric a \<and> isNumeric b then tcRet (promoteNumeric a b)
      else if kind a = KNull \<or> kind b = KNull then tcRet (if kind a = KNull then b else a)
      else if kind a = KTypeVar \<or> kind b = KTypeVar then tcRet (if kind a = KTypeVar then b else a)
      else tcBind (tcAssignable a b) (\<lambda>up.
        if up then tcRet b
        else tcBind (tcAssignable b a) (\<lambda>down.
          if down then tcRet a
          else tcThen (tcErrorHint (''Cannot assign '' @ toUserString a @ '' to '' @ toUserString b) n
                         (conversionHint (kind b)))
                 (tcRet UnknownT))))"

end
