(* ===== verification/Check_Expr.thy ===== *)
theory Check_Expr
  imports Check_Base
begin

text \<open>
  The expression visitors of the type checker: what each construct requires of its operands and the type
  it has. The visit of a subexpression is passed on as a computation, so that the order of the visits is
  the order of the code.
\<close>

section \<open>Operators\<close>

definition bothKnown :: "Type \<Rightarrow> Type \<Rightarrow> bool" where
  "bothKnown lt rt \<longleftrightarrow> \<not> isUnknown lt \<and> \<not> isUnknown rt"

text \<open>An operand error is reported only when both types are known.\<close>

definition operandError :: "string \<Rightarrow> Type \<Rightarrow> Type \<Rightarrow> Node \<Rightarrow> unit tc" where
  "operandError what lt rt n =
     tcWhen (bothKnown lt rt) (tcError (what @ toString lt @ '' and '' @ toString rt) n)"

definition isBitwise :: "Type \<Rightarrow> bool" where
  "isBitwise t \<longleftrightarrow> kind t = KInt \<or> kind t = KBool"

definition arithmeticType :: "string \<Rightarrow> Type \<Rightarrow> Type \<Rightarrow> Node \<Rightarrow> Type tc" where
  "arithmeticType what lt rt n =
     (if isNumeric lt \<and> isNumeric rt then tcRet (promoteNumeric lt rt)
      else tcThen (operandError what lt rt n) (tcRet UnknownT))"

definition bitwiseType :: "Type \<Rightarrow> Type \<Rightarrow> Node \<Rightarrow> Type tc" where
  "bitwiseType lt rt n =
     (if isBitwise lt \<and> isBitwise rt then tcRet IntT
      else tcThen
        (if kind lt = KFloat \<or> kind rt = KFloat then tcError ''Cannot apply bitwise operator to float'' n
         else operandError ''Cannot apply bitwise operator to '' lt rt n)
        (tcRet UnknownT))"

definition equalityType :: "Type \<Rightarrow> Type \<Rightarrow> Node \<Rightarrow> Type tc" where
  "equalityType lt rt n =
     (if isNumeric lt \<and> isNumeric rt then tcRet BoolT
      else if kind lt = kind rt then tcRet BoolT
      else if kind lt = KNull \<or> kind rt = KNull then tcRet BoolT
      else tcThen (operandError ''Cannot compare '' lt rt n) (tcRet BoolT))"

definition orderType :: "Type \<Rightarrow> Type \<Rightarrow> Node \<Rightarrow> Type tc" where
  "orderType lt rt n =
     (if isNumeric lt \<and> isNumeric rt then tcRet BoolT
      else if kind lt = KStr \<and> kind rt = KStr then tcRet BoolT
      else tcThen (operandError ''Cannot compare '' lt rt n) (tcRet BoolT))"

fun binaryType :: "BinOp \<Rightarrow> Type \<Rightarrow> Type \<Rightarrow> Node \<Rightarrow> Type tc" where
  "binaryType Add lt rt n =
     (if kind lt = KStr \<and> kind rt = KStr then tcRet StrT
      else arithmeticType (''Cannot apply '' @ quoted ''+'' @ '' to '') lt rt n)"
| "binaryType Sub lt rt n = arithmeticType ''Cannot apply arithmetic to '' lt rt n"
| "binaryType Mul lt rt n = arithmeticType ''Cannot apply arithmetic to '' lt rt n"
| "binaryType Div lt rt n = arithmeticType ''Cannot apply arithmetic to '' lt rt n"
| "binaryType Mod lt rt n = arithmeticType ''Cannot apply arithmetic to '' lt rt n"
| "binaryType Pow lt rt n = arithmeticType ''Cannot apply arithmetic to '' lt rt n"
| "binaryType IntDiv lt rt n =
     (if isNumeric lt \<and> isNumeric rt then tcRet IntT
      else tcThen (operandError (''Cannot apply '' @ quoted ''//'' @ '' to '') lt rt n) (tcRet UnknownT))"
| "binaryType Eq lt rt n = equalityType lt rt n"
| "binaryType Neq lt rt n = equalityType lt rt n"
| "binaryType Lt lt rt n = orderType lt rt n"
| "binaryType Gt lt rt n = orderType lt rt n"
| "binaryType Lte lt rt n = orderType lt rt n"
| "binaryType Gte lt rt n = orderType lt rt n"
| "binaryType And lt rt n = tcRet BoolT"
| "binaryType Or lt rt n = tcRet BoolT"
| "binaryType In lt rt n = tcRet BoolT"
| "binaryType NotIn lt rt n = tcRet BoolT"
| "binaryType BitAnd lt rt n = bitwiseType lt rt n"
| "binaryType BitOr lt rt n = bitwiseType lt rt n"
| "binaryType BitXor lt rt n = bitwiseType lt rt n"
| "binaryType Shl lt rt n = bitwiseType lt rt n"
| "binaryType Shr lt rt n = bitwiseType lt rt n"
| "binaryType NullCoalesce lt rt n = tcRet rt"

fun unaryType :: "UnaryOp \<Rightarrow> Type \<Rightarrow> Node \<Rightarrow> Type tc" where
  "unaryType Neg t n =
     (if isNumeric t then tcRet t
      else tcThen (tcWhen (\<not> isUnknown t) (tcError (''Cannot negate '' @ toString t) n)) (tcRet UnknownT))"
| "unaryType BitNot t n =
     (if kind t = KInt then tcRet IntT
      else tcThen
        (if kind t = KFloat then tcError ''Cannot apply ~ to float'' n
         else tcWhen (\<not> isUnknown t) (tcError (''Cannot apply ~ to '' @ toString t) n))
        (tcRet UnknownT))"
| "unaryType Not t n = tcRet BoolT"

section \<open>Names and members\<close>

definition checkThis :: "Node \<Rightarrow> Type tc" where
  "checkThis n =
     tcBind (tcGet tc_insideClass) (\<lambda>inside.
       tcThen (tcWhen (\<not> inside) (tcError (quoted ''this'' @ '' used outside of class'') n))
         (tcLookup ''this'' n))"

definition checkSuper :: "Node \<Rightarrow> Type tc" where
  "checkSuper n =
     tcBind (tcGet (\<lambda>st. (tc_insideClass st, tc_currentClassName st,
         tc_classTable st (tc_currentClassName st)))) (\<lambda>(inside, cls, entry).
       if \<not> inside then
         tcThen (tcError (quoted ''super'' @ '' used outside of class'') n) (tcRet UnknownT)
       else case entry of
         None \<Rightarrow> tcThen (tcError (quoted ''super'' @ '' used in class without base class'') n) (tcRet UnknownT)
       | Some info \<Rightarrow>
           if cls = [] \<or> cl_baseClass info = [] then
             tcThen (tcError (quoted ''super'' @ '' used in class without base class'') n) (tcRet UnknownT)
           else tcRet (ClassType (cl_baseClass info)))"

definition methodType :: "MethodInfo \<Rightarrow> Type" where
  "methodType m = FuncType (mi_name m) (mi_returnType m) (mi_paramTypes m)"

definition findMethod :: "string \<Rightarrow> MethodInfo list \<Rightarrow> Type option" where
  "findMethod x ms = map_option methodType (find (\<lambda>m. mi_name m = x) ms)"

text \<open>A member is looked for in the class of the object and in its base class, no further up.\<close>

definition memberType :: "classTable \<Rightarrow> Type \<Rightarrow> string \<Rightarrow> Type" where
  "memberType ct t x =
     (case t of
        ClassType c \<Rightarrow>
          (case ct c of
             None \<Rightarrow> UnknownT
           | Some info \<Rightarrow>
               (case findMethod x (cl_methods info) of
                  Some f \<Rightarrow> f
                | None \<Rightarrow>
                    if cl_baseClass info = [] then UnknownT
                    else case ct (cl_baseClass info) of
                      None \<Rightarrow> UnknownT
                    | Some base \<Rightarrow> (case findMethod x (cl_methods base) of Some f \<Rightarrow> f | None \<Rightarrow> UnknownT)))
      | _ \<Rightarrow> UnknownT)"

fun indexType :: "Type \<Rightarrow> Type" where
  "indexType (ListType t) = t"
| "indexType (DictType k v) = v"
| "indexType StrT = StrT"
| "indexType t = UnknownT"

fun sliceType :: "Type \<Rightarrow> Type" where
  "sliceType (ListType t) = ListType t"
| "sliceType StrT = StrT"
| "sliceType t = UnknownT"

fun elementType :: "Type \<Rightarrow> Type" where
  "elementType (ListType t) = t"
| "elementType t = UnknownT"

section \<open>Calls\<close>

definition arityError :: "string \<Rightarrow> nat \<Rightarrow> nat \<Rightarrow> Node \<Rightarrow> unit tc" where
  "arityError f expected got n =
     tcError (''Function '' @ quoted f @ '' expects '' @ showNat expected @ '' argument(s), got '' @ showNat got) n"

definition checkArity :: "string \<Rightarrow> nat \<Rightarrow> nat \<Rightarrow> Node \<Rightarrow> unit tc" where
  "checkArity f expected got n =
     tcBind (tcGet (\<lambda>st. case tc_funcMinArgs st f of Some m \<Rightarrow> m | None \<Rightarrow> expected)) (\<lambda>minArgs.
       tcWhen (got < minArgs \<or> got > expected) (arityError f expected got n))"

fun varName :: "Type \<Rightarrow> string option" where
  "varName (TypeVar x) = Some x"
| "varName t = None"

text \<open>The type arguments: those written in the call, or those inferred from the arguments.\<close>

definition explicitTypeArgs :: "string list \<Rightarrow> string list \<Rightarrow> (string \<rightharpoonup> Type) tc" where
  "explicitTypeArgs names typeArgs =
     tcBind (tcSeq (map tcResolve (take (length names) typeArgs))) (\<lambda>ts.
       tcRet (fold (\<lambda>(x, t) m. m(x \<mapsto> t)) (zip names ts) Map.empty))"

definition inferredTypeArgs :: "Type list \<Rightarrow> Type list \<Rightarrow> string \<rightharpoonup> Type" where
  "inferredTypeArgs params args =
     fold (\<lambda>(p, t) m. case varName p of Some x \<Rightarrow> m(x \<mapsto> t) | None \<Rightarrow> m) (zip params args) Map.empty"

definition satisfiesBound :: "Type \<Rightarrow> string \<Rightarrow> bool" where
  "satisfiesBound t bound \<longleftrightarrow> isUnknown t \<or> t = ClassType bound \<or> toString t = bound"

definition checkBound :: "string \<Rightarrow> (string \<rightharpoonup> Type) \<Rightarrow> Node \<Rightarrow> string \<Rightarrow> unit tc" where
  "checkBound f typeArgMap n tp =
     tcBind (tcGet (\<lambda>st. tc_funcBounds st (f @ ''.'' @ tp))) (\<lambda>bound.
       case (typeArgMap tp, bound) of
         (Some t, Some b) \<Rightarrow>
           tcWhen (\<not> satisfiesBound t b)
             (tcError (''Type argument '' @ quoted (toString t) @ '' does not satisfy bound '' @ quoted b @
                '' for type parameter '' @ quoted tp) n)
       | _ \<Rightarrow> tcSkip)"

fun instantiateReturn :: "(string \<rightharpoonup> Type) \<Rightarrow> Type \<Rightarrow> Type" where
  "instantiateReturn m (TypeVar x) = (case m x of Some t \<Rightarrow> t | None \<Rightarrow> TypeVar x)"
| "instantiateReturn m t = t"

definition genericCall :: "string \<Rightarrow> Type \<Rightarrow> Type list \<Rightarrow> string list \<Rightarrow> Type list \<Rightarrow> string list \<Rightarrow> Node \<Rightarrow> Type tc" where
  "genericCall f ret params names argTypes typeArgs n =
     tcBind (if typeArgs \<noteq> [] then explicitTypeArgs names typeArgs else tcRet (inferredTypeArgs params argTypes))
       (\<lambda>typeArgMap.
         tcBind (tcGet (\<lambda>st. tc_hashOrder st typeArgMap)) (\<lambda>keys.
           tcThen (tcIgnore (tcSeq (map (checkBound f typeArgMap n) keys)))
             (tcThen (checkArity f (length params) (length argTypes) n)
               (tcRet (instantiateReturn typeArgMap ret)))))"

definition checkArg :: "string \<Rightarrow> Node \<Rightarrow> Type \<times> Type \<Rightarrow> unit tc" where
  "checkArg f n p =
     (let expected = fst p; actual = snd p
      in if isUnknown expected \<or> isUnknown actual then tcSkip
         else tcBind (tcAssignable actual expected) (\<lambda>ok.
           tcWhen (\<not> ok)
             (tcError (''Function '' @ quoted f @ '' expects '' @ toString expected @ '', got '' @ toString actual) n)))"

definition plainCall :: "string \<Rightarrow> Type \<Rightarrow> Type list \<Rightarrow> Type list \<Rightarrow> Node \<Rightarrow> Type tc" where
  "plainCall f ret params argTypes n =
     tcThen (checkArity f (length params) (length argTypes) n)
       (tcThen (tcIgnore (tcSeq (map (checkArg f n) (zip params argTypes)))) (tcRet ret))"

definition callFunction :: "string \<Rightarrow> Type \<Rightarrow> Type list \<Rightarrow> Type list \<Rightarrow> string list \<Rightarrow> Node \<Rightarrow> Type tc" where
  "callFunction f ret params argTypes typeArgs n =
     tcBind (tcGet (\<lambda>st. tc_funcTypeParams st f)) (\<lambda>tps.
       case tps of
         Some (x # xs) \<Rightarrow> genericCall f ret params (x # xs) argTypes typeArgs n
       | _ \<Rightarrow> plainCall f ret params argTypes n)"

fun calleeName :: "Expr \<Rightarrow> string option" where
  "calleeName (Identifier n x) = Some x"
| "calleeName e = None"

definition checkInputArg :: "Node \<Rightarrow> Type tc \<Rightarrow> unit tc" where
  "checkInputArg n arg =
     tcBind arg (\<lambda>t.
       tcWhen (\<not> isUnknown t \<and> kind t \<noteq> KStr) (tcError (''input() argument must be str, got '' @ toString t) n))"

text \<open>The first argument, if there is one.\<close>

definition firstOnly :: "Type tc list \<Rightarrow> unit tc" where
  "firstOnly args = (case args of [] \<Rightarrow> tcSkip | a # _ \<Rightarrow> tcIgnore a)"

definition builtinCall :: "string \<Rightarrow> Type tc list \<Rightarrow> Node \<Rightarrow> Type tc option" where
  "builtinCall f args n =
     (if f = ''map'' \<or> f = ''filter'' then
        Some (tcThen (tcSeq args) (tcRet (ListType UnknownT)))
      else if f = ''isinstance'' then
        Some (tcThen (tcWhen (length args \<noteq> 2) (tcError ''isinstance() requires exactly 2 arguments'' n))
          (tcThen (firstOnly args) (tcRet BoolT)))
      else if f = ''input'' then
        Some (tcThen (tcWhen (length args > 1)
                 (tcError (''input() accepts 0 or 1 str argument, got '' @ showNat (length args)) n))
          (tcThen (tcSeq (map (checkInputArg n) args)) (tcRet StrT)))
      else if f = ''make_chan'' then
        Some (tcThen (tcWhen (length args \<noteq> 1) (tcError ''make_chan() requires exactly 1 argument (capacity)'' n))
          (tcThen (firstOnly args) (tcRet (ChanType UnknownT))))
      else if f = ''len'' then
        Some (tcThen (tcWhen (length args \<noteq> 1) (tcError ''len() requires exactly 1 argument'' n))
          (tcThen (tcSeq args) (tcRet IntT)))
      else None)"

definition notCallable :: "Expr \<Rightarrow> Type \<Rightarrow> Node \<Rightarrow> unit tc" where
  "notCallable callee t n =
     (case calleeName callee of
        Some x \<Rightarrow> tcError (''Cannot call non-function '' @ quoted x) n
      | None \<Rightarrow> tcError (''Cannot call non-function type '' @ toString t) n)"

definition ordinaryCall :: "Expr \<Rightarrow> Type tc \<Rightarrow> Type tc list \<Rightarrow> string list \<Rightarrow> Node \<Rightarrow> Type tc" where
  "ordinaryCall callee visit args typeArgs n =
     tcBind visit (\<lambda>calleeType. tcBind (tcSeq args) (\<lambda>argTypes.
       case calleeType of
         FuncType f ret params \<Rightarrow> callFunction f ret params argTypes typeArgs n
       | ClassType c \<Rightarrow> tcRet (ClassType c)
       | _ \<Rightarrow> tcThen (tcWhen (\<not> isUnknown calleeType) (notCallable callee calleeType n)) (tcRet UnknownT)))"

definition checkCall :: "Expr \<Rightarrow> Type tc \<Rightarrow> Type tc list \<Rightarrow> string list \<Rightarrow> Node \<Rightarrow> Type tc" where
  "checkCall callee visit args typeArgs n =
     (case Option.bind (calleeName callee) (\<lambda>f. builtinCall f args n) of
        Some m \<Rightarrow> m
      | None \<Rightarrow> ordinaryCall callee visit args typeArgs n)"

section \<open>Collections and scopes\<close>

fun unifyAll :: "Type \<Rightarrow> Type tc list \<Rightarrow> Node \<Rightarrow> Type tc" where
  "unifyAll t [] n = tcRet t"
| "unifyAll t (m # ms) n = tcBind m (\<lambda>u. tcBind (unify t u n) (\<lambda>t. unifyAll t ms n))"

fun unifyEntries :: "Type \<Rightarrow> Type \<Rightarrow> (Type tc \<times> Type tc) list \<Rightarrow> Node \<Rightarrow> Type tc" where
  "unifyEntries k v [] n = tcRet (DictType k v)"
| "unifyEntries k v ((km, vm) # ms) n =
     tcBind km (\<lambda>kt. tcBind vm (\<lambda>vt. tcBind (unify k kt n) (\<lambda>k. tcBind (unify v vt n) (\<lambda>v.
       unifyEntries k v ms n))))"

definition checkList :: "Type tc list \<Rightarrow> Node \<Rightarrow> Type tc" where
  "checkList ms n =
     (case ms of
        [] \<Rightarrow> tcRet (ListType UnknownT)
      | m # ms \<Rightarrow> tcBind m (\<lambda>t. tcBind (unifyAll t ms n) (\<lambda>t. tcRet (ListType t))))"

definition checkDict :: "(Type tc \<times> Type tc) list \<Rightarrow> Node \<Rightarrow> Type tc" where
  "checkDict ms n =
     (case ms of
        [] \<Rightarrow> tcRet (DictType UnknownT UnknownT)
      | (km, vm) # ms \<Rightarrow> tcBind km (\<lambda>k. tcBind vm (\<lambda>v. unifyEntries k v ms n)))"

definition optVisit :: "'a tc option \<Rightarrow> unit tc" where
  "optVisit m = (case m of None \<Rightarrow> tcSkip | Some m \<Rightarrow> tcIgnore m)"

text \<open>A scope opened before a visit and closed after it, with the lines recorded for it.\<close>

definition inScope :: "int \<Rightarrow> int \<Rightarrow> 'a tc \<Rightarrow> 'a tc" where
  "inScope line1 line2 m =
     tcThen (enterScope line1) (tcBind m (\<lambda>x. tcThen (exitScope line2) (tcRet x)))"

text \<open>Several declarations in order.\<close>

definition declareAll :: "(string \<times> Type) list \<Rightarrow> unit tc" where
  "declareAll xs = tcIgnore (tcSeq (map (\<lambda>(x, t). tcDeclare x t) xs))"

primrec checkExpr :: "Expr \<Rightarrow> Type tc" where
  "checkExpr (IntLiteral n v) = tcRet IntT"
| "checkExpr (FloatLiteral n v) = tcRet FloatT"
| "checkExpr (StringLiteral n v) = tcRet StrT"
| "checkExpr (FStringLiteral n r) = tcRet StrT"
| "checkExpr (FStringExpr n parts) = tcRet UnknownT"
| "checkExpr (BoolLiteral n v) = tcRet BoolT"
| "checkExpr (NullLiteral n) = tcRet NullT"
| "checkExpr (Identifier n x) = tcLookup x n"
| "checkExpr (ThisExpr n) = checkThis n"
| "checkExpr (SuperExpr n) = checkSuper n"
| "checkExpr (BinaryExpr n op l r) = tcBind (checkExpr l) (\<lambda>lt. tcBind (checkExpr r) (\<lambda>rt. binaryType op lt rt n))"
| "checkExpr (UnaryExpr n op e) = tcBind (checkExpr e) (\<lambda>t. unaryType op t n)"
| "checkExpr (CallExpr n c args typeArgs) = checkCall c (checkExpr c) (map checkExpr args) typeArgs n"
| "checkExpr (MemberExpr n e m) =
    tcBind (checkExpr e) (\<lambda>t. tcGet (\<lambda>st. memberType (tc_classTable st) t m))"
| "checkExpr (IndexExpr n e i) = tcBind (checkExpr e) (\<lambda>t. tcThen (checkExpr i) (tcRet (indexType t)))"
| "checkExpr (LambdaExpr n ps b cs) =
    tcBind (inScope (n_line n) (n_endLine n)
        (tcThen (declareAll (map (\<lambda>p. (p, UnknownT)) ps)) (checkExpr b)))
      (\<lambda>t. tcRet (FuncType ''<lambda>'' t (map (\<lambda>_. UnknownT) ps)))"
| "checkExpr (ListExpr n es) = checkList (map checkExpr es) n"
| "checkExpr (DictExpr n kvs) = checkDict (map (map_prod checkExpr checkExpr) kvs) n"
| "checkExpr (TupleExpr n es) = tcBind (tcSeq (map checkExpr es)) (\<lambda>ts. tcRet (TupleType ts))"
| "checkExpr (TernaryExpr n c t e) =
    tcThen (checkExpr c) (tcBind (checkExpr t) (\<lambda>tt. tcBind (checkExpr e) (\<lambda>et. unify tt et n)))"
| "checkExpr (SliceExpr n e a b c) =
    tcBind (checkExpr e) (\<lambda>t.
      tcThen (optVisit (map_option checkExpr a))
        (tcThen (optVisit (map_option checkExpr b))
          (tcThen (optVisit (map_option checkExpr c)) (tcRet (sliceType t)))))"
| "checkExpr (ListComprehension n b x i c) =
    tcBind (checkExpr i) (\<lambda>it.
      tcBind (inScope 0 0
          (tcThen (tcDeclare x (elementType it))
            (tcThen (optVisit (map_option checkExpr c)) (checkExpr b))))
        (\<lambda>t. tcRet (ListType t)))"
| "checkExpr (DictComprehension n k v x i c) =
    tcBind (checkExpr i) (\<lambda>it.
      inScope 0 0
        (tcThen (tcDeclare x (elementType it))
          (tcThen (optVisit (map_option checkExpr c))
            (tcBind (checkExpr k) (\<lambda>kt. tcBind (checkExpr v) (\<lambda>vt. tcRet (DictType kt vt)))))))"
| "checkExpr (SpreadExpr n e) = checkExpr e"
| "checkExpr (DictSpreadExpr n e) = checkExpr e"
| "checkExpr (WalrusExpr n x e) = tcBind (checkExpr e) (\<lambda>t. tcThen (tcDeclare x t) (tcRet t))"
| "checkExpr (GoExpr n c args) =
    tcThen (checkExpr c) (tcThen (tcSeq (map checkExpr args)) (tcRet VoidT))"
| "checkExpr (ChanRecvExpr n e) =
    tcBind (checkExpr e) (\<lambda>t.
      case t of
        ChanType u \<Rightarrow> tcRet u
      | _ \<Rightarrow> tcThen (tcError (''expected channel type for receive, got '' @ quoted (toString t)) n) (tcRet UnknownT))"

end
