(* ===== verification/Check_Stmt.thy ===== *)
theory Check_Stmt
  imports Check_Expr
begin

text \<open>
  The statement visitors of the type checker and its entry point \<^verbatim>\<open>TypeChecker::check\<close>: a first pass
  that registers the functions, classes, interfaces and enumerations of the module, and a second that
  visits every statement. The errors are collected, and the first is thrown at the end.
\<close>

section \<open>Missing returns\<close>

text \<open>Whether a return is found in a list of statements, in the branches the code looks into.\<close>

primrec hasReturn :: "Stmt \<Rightarrow> bool" where
  "hasReturn (ExprStmt n e) = False"
| "hasReturn (AssignStmt n t v ex ta) = False"
| "hasReturn (ConstStmt n x v ta) = False"
| "hasReturn (TupleUnpackStmt n ts v) = False"
| "hasReturn (ReturnStmt n v) = True"
| "hasReturn (BreakStmt n) = False"
| "hasReturn (ContinueStmt n) = False"
| "hasReturn (PassStmt n) = False"
| "hasReturn (ChanSendStmt n c v) = False"
| "hasReturn (FuncDef n h b) = False"
| "hasReturn (ClassDef n h b) = False"
| "hasReturn (InitDef n ps b) = False"
| "hasReturn (EnumDef n x ms) = False"
| "hasReturn (IfStmt n c t es el) = list_ex id (map hasReturn t)"
| "hasReturn (ForStmt n x xs i b el) = list_ex id (map hasReturn b)"
| "hasReturn (WhileStmt n c b el) = list_ex id (map hasReturn b)"
| "hasReturn (ThrowStmt n e) = False"
| "hasReturn (YieldStmt n v) = False"
| "hasReturn (AssertStmt n c m) = False"
| "hasReturn (DelStmt n t) = False"
| "hasReturn (WithStmt n e x b) = False"
| "hasReturn (TryStmt n b cs f) = False"
| "hasReturn (ImportStmt n m) = False"
| "hasReturn (FromImportStmt n m xs) = False"
| "hasReturn (MatchStmt n e cs) = False"
| "hasReturn (InterfaceDef n x ms) = False"

definition stmtListHasReturn :: "Stmt list \<Rightarrow> bool" where
  "stmtListHasReturn ss = list_ex hasReturn ss"

section \<open>Assignments\<close>

text \<open>The type written in an annotation; no annotation is the unknown type.\<close>

definition annotated :: "string \<Rightarrow> Type tc" where
  "annotated ann = (if ann = [] then tcRet UnknownT else tcResolve ann)"

definition typedDeclaration :: "Node \<Rightarrow> string \<Rightarrow> string \<Rightarrow> Type \<Rightarrow> unit tc" where
  "typedDeclaration n x ann rhs =
     tcBind (tcResolve ann) (\<lambda>annType.
       tcBind (tcGet (\<lambda>st. st_isDeclared (tc_symbols st) x)) (\<lambda>declared.
         if declared then tcError (''Variable '' @ quoted x @ '' already declared'') n
         else
           tcThen
             (if isUnknown rhs \<or> isUnknown annType then tcSkip
              else tcBind (tcAssignable rhs annType) (\<lambda>ok.
                tcWhen (\<not> ok)
                  (tcError (''Type mismatch: declared as '' @ toUserString annType @ '', got '' @ toUserString rhs) n)))
             (tcDeclare x annType)))"

definition reassignment :: "Node \<Rightarrow> Type \<Rightarrow> Type \<Rightarrow> unit tc" where
  "reassignment n existing rhs =
     (let msg = ''Cannot assign '' @ toUserString rhs @ '' to '' @ toUserString existing
      in tcWhen (\<not> isUnknown existing \<and> \<not> isUnknown rhs \<and> \<not> typeEquals existing rhs)
        (if isNumeric existing \<and> isNumeric rhs
         then tcWhen (kind existing = KInt \<and> kind rhs = KFloat) (tcError msg n)
         else tcErrorHint msg n (conversionHint3 (kind existing))))"

definition plainAssignment :: "Node \<Rightarrow> string \<Rightarrow> Type \<Rightarrow> unit tc" where
  "plainAssignment n x rhs =
     tcBind (tcGet (\<lambda>st. st_isDeclared (tc_symbols st) x)) (\<lambda>declared.
       if declared
       then tcBind (tcGet (\<lambda>st. st_lookup (tc_symbols st) x)) (\<lambda>existing. reassignment n existing rhs)
       else tcDeclare x rhs)"

definition assignName :: "Node \<Rightarrow> string \<Rightarrow> string \<Rightarrow> Type tc \<Rightarrow> unit tc" where
  "assignName n x ann val =
     tcBind (tcGet (\<lambda>st. x \<in> tc_constVars st)) (\<lambda>isConst.
       if isConst then tcThen (tcError (''Cannot reassign constant '' @ quoted x) n) (tcIgnore val)
       else tcBind val (\<lambda>rhs. if ann \<noteq> [] then typedDeclaration n x ann rhs else plainAssignment n x rhs))"

definition checkAssign :: "Node \<Rightarrow> Expr \<Rightarrow> Expr \<Rightarrow> string \<Rightarrow> unit tc" where
  "checkAssign n target val ann =
     (case calleeName target of
        Some x \<Rightarrow> assignName n x ann (checkExpr val)
      | None \<Rightarrow> tcDo [tcIgnore (checkExpr val), tcIgnore (checkExpr target)])"

definition checkConst :: "Node \<Rightarrow> string \<Rightarrow> Expr \<Rightarrow> string \<Rightarrow> unit tc" where
  "checkConst n x val ann =
     tcBind (checkExpr val) (\<lambda>rhs.
       tcBind (tcGet (\<lambda>st. st_isDeclared (tc_symbols st) x)) (\<lambda>declared.
         if declared then tcError (''Constant '' @ quoted x @ '' already declared'') n
         else tcBind (if ann = [] then tcRet rhs else tcResolve ann) (\<lambda>declType.
           tcDo
             [if ann = [] \<or> isUnknown rhs then tcSkip
              else tcBind (tcAssignable rhs declType) (\<lambda>ok.
                tcWhen (\<not> ok)
                  (tcError (''Const type mismatch: expected '' @ toUserString declType @ '', got '' @ toUserString rhs) n)),
              tcDeclare x declType,
              tcModify (\<lambda>st. st\<lparr>tc_constVars := insert x (tc_constVars st)\<rparr>)])))"

section \<open>Returns\<close>

definition returnMismatch :: "Node \<Rightarrow> Type \<Rightarrow> Type \<Rightarrow> unit tc" where
  "returnMismatch n expected got =
     (let msg = ''Return type mismatch: expected '' @ toUserString expected @ '', got '' @ toUserString got
      in if isNumeric got \<and> isNumeric expected
         then tcWhen (kind expected = KInt \<and> kind got = KFloat) (tcError msg n)
         else tcErrorHint msg n (conversionHint3 (kind expected)))"

definition checkReturn :: "Node \<Rightarrow> Expr option \<Rightarrow> unit tc" where
  "checkReturn n val =
     tcBind (case val of None \<Rightarrow> tcRet VoidT | Some e \<Rightarrow> checkExpr e) (\<lambda>ret.
       tcBind (tcGet (\<lambda>st. (tc_hasExplicitReturnType st, tc_currentReturnType st))) (\<lambda>(explicit, expected).
         tcDo
           [if explicit \<and> \<not> isUnknown expected
            then tcBind (tcAssignable ret expected) (\<lambda>ok.
              tcWhen (\<not> ok \<and> \<not> isUnknown ret) (returnMismatch n expected ret))
            else tcSkip,
            tcWhen (\<not> explicit \<and> val \<noteq> None)
              (tcErrorHint (''Function returns a value but has no '' @ quoted ''-> ReturnType'' @ '' annotation'') n
                (''add e.g. '' @ quoted ''-> int'' @ '' to the function signature''))]))"

section \<open>Functions\<close>

definition cTypes :: "string list" where
  "cTypes =
     [''int'', ''float'', ''bool'', ''str'', ''string'', ''void'', ''int*'', ''float*'', ''bool*'', ''str*'',
      ''void*'', ''string*'', ''char*'']"

definition isCompatible :: "string \<Rightarrow> bool" where
  "isCompatible t \<longleftrightarrow> t = [] \<or> t \<in> set cTypes \<or> (length t \<ge> 2 \<and> last t = CHR ''*'')"

definition externParam :: "Node \<Rightarrow> string \<Rightarrow> Param \<Rightarrow> unit tc" where
  "externParam n f p =
     tcWhen (pm_typeAnnotation p \<noteq> [] \<and> \<not> isCompatible (pm_typeAnnotation p))
       (tcErrorHint (''extern function '' @ quoted f @ '' has non-C-compatible parameter type '' @
          quoted (pm_typeAnnotation p)) n ''use int, float, str, or bool for C FFI'')"

definition checkExtern :: "Node \<Rightarrow> FuncHead \<Rightarrow> unit tc" where
  "checkExtern n h =
     tcDo
       ([tcBind (tcGet tc_functionNestingDepth) (\<lambda>depth.
           tcWhen (depth > 0)
             (tcError (quoted ''@extern'' @ '' declarations must be at module scope, not inside functions'') n)),
         tcWhen (fh_returnType h \<noteq> [] \<and> \<not> isCompatible (fh_returnType h))
           (tcErrorHint (''extern function '' @ quoted (fh_name h) @ '' has non-C-compatible return type '' @
              quoted (fh_returnType h)) n ''use int, float, str, bool, or void for C FFI'')] @
        map (externParam n (fh_name h)) (fh_params h))"

definition declareParam :: "Param \<Rightarrow> unit tc" where
  "declareParam p =
     tcBind (annotated (pm_typeAnnotation p)) (\<lambda>t.
       tcDo [optVisit (map_option checkExpr (pm_defaultValue p)), tcDeclare (pm_name p) t])"

definition missingReturn :: "Node \<Rightarrow> string \<Rightarrow> Stmt list \<Rightarrow> unit tc" where
  "missingReturn n f body =
     tcBind (tcGet (\<lambda>st. (tc_hasExplicitReturnType st, tc_currentReturnType st))) (\<lambda>(explicit, ret).
       tcWhen (explicit \<and> kind ret \<noteq> KVoid \<and> \<not> isUnknown ret \<and> \<not> stmtListHasReturn body)
         (tcErrorHint (''function '' @ quoted f @ '' missing return statement; return type is '' @
            quoted (toUserString ret)) n
            (''add '' @ quoted ''return <value>'' @ '' at the end of the function'')))"

text \<open>The fields a function visit saves and restores.\<close>

definition setReturnType :: "string \<Rightarrow> TC \<Rightarrow> TC" where
  "setReturnType ann st =
     (if ann \<noteq> [] then st\<lparr>tc_currentReturnType := resolveIn st ann, tc_hasExplicitReturnType := True\<rparr>
      else st\<lparr>tc_currentReturnType := UnknownT, tc_hasExplicitReturnType := False\<rparr>)"

definition enterFunction :: "FuncHead \<Rightarrow> TC \<Rightarrow> TC" where
  "enterFunction h st =
     setReturnType (fh_returnType h)
       (st\<lparr>tc_functionNestingDepth := tc_functionNestingDepth st + 1,
           tc_currentTypeParams := tc_currentTypeParams st @ fh_typeParams h\<rparr>)"

definition leaveFunction :: "TC \<Rightarrow> TC \<Rightarrow> TC" where
  "leaveFunction saved st =
     st\<lparr>tc_currentReturnType := tc_currentReturnType saved,
        tc_hasExplicitReturnType := tc_hasExplicitReturnType saved,
        tc_currentTypeParams := tc_currentTypeParams saved,
        tc_functionNestingDepth := tc_functionNestingDepth st - 1\<rparr>"

definition checkFunc :: "Node \<Rightarrow> FuncHead \<Rightarrow> Stmt list \<Rightarrow> unit tc \<Rightarrow> unit tc" where
  "checkFunc n h body visitBody =
     (if fh_isExtern h then checkExtern n h
      else tcLocally (enterFunction h) leaveFunction
        (inScope (n_line n) (n_endLine n)
          (tcDo
            [declareAll (map (\<lambda>x. (x, TypeVar x)) (fh_typeParams h)),
             tcDo (map declareParam (fh_params h)),
             visitBody,
             missingReturn n (fh_name h) body])))"

definition enterInit :: "TC \<Rightarrow> TC" where
  "enterInit st = st\<lparr>tc_currentReturnType := VoidT, tc_hasExplicitReturnType := False\<rparr>"

definition leaveInit :: "TC \<Rightarrow> TC \<Rightarrow> TC" where
  "leaveInit saved st =
     st\<lparr>tc_currentReturnType := tc_currentReturnType saved,
        tc_hasExplicitReturnType := tc_hasExplicitReturnType saved\<rparr>"

definition checkInit :: "Node \<Rightarrow> Param list \<Rightarrow> unit tc \<Rightarrow> unit tc" where
  "checkInit n ps visitBody =
     tcLocally enterInit leaveInit
       (inScope (n_line n) (n_endLine n) (tcDo [tcDo (map declareParam ps), visitBody]))"

section \<open>Classes\<close>

definition overrideParam :: "Node \<Rightarrow> string \<Rightarrow> Type \<times> Type \<Rightarrow> unit tc" where
  "overrideParam n m p =
     (let child = fst p; base = snd p
      in tcWhen (\<not> isUnknown child \<and> \<not> isUnknown base \<and> \<not> typeEquals child base)
        (tcError (''Override '' @ quoted m @ '' has incompatible parameter type: expected '' @ toString base @
           '', got '' @ toString child) n))"

definition checkOverride :: "Node \<Rightarrow> MethodInfo \<Rightarrow> MethodInfo \<Rightarrow> unit tc" where
  "checkOverride n child base =
     (let m = mi_name child; cret = mi_returnType child; bret = mi_returnType base
      in if m = mi_name base
         then tcDo
           [tcWhen (length (mi_paramTypes child) \<noteq> length (mi_paramTypes base))
              (tcError (''Override '' @ quoted m @ '' has different parameter count'') n),
            tcDo (map (overrideParam n m) (zip (mi_paramTypes child) (mi_paramTypes base))),
            tcWhen (\<not> isUnknown cret \<and> \<not> isUnknown bret \<and> \<not> typeEquals cret bret)
              (tcError (''Override '' @ quoted m @ '' has incompatible return type: expected '' @ toString bret @
                 '', got '' @ toString cret) n)]
         else tcSkip)"

definition checkOverrides :: "Node \<Rightarrow> ClassHead \<Rightarrow> unit tc" where
  "checkOverrides n h =
     (case ch_baseClass h of
        None \<Rightarrow> tcSkip
      | Some b \<Rightarrow> tcBind (tcGet tc_classTable) (\<lambda>ct.
          case (ct b, ct (ch_name h)) of
            (Some base, Some child) \<Rightarrow>
              tcDo (concat (map (\<lambda>cm. map (checkOverride n cm) (cl_methods base)) (cl_methods child)))
          | _ \<Rightarrow> tcSkip))"

definition implements :: "Node \<Rightarrow> string \<Rightarrow> string \<Rightarrow> TcClassInfo \<Rightarrow> MethodInfo \<Rightarrow> unit tc" where
  "implements n c i info m =
     tcWhen (\<not> list_ex (\<lambda>cm. mi_name cm = mi_name m) (cl_methods info))
       (tcError (''Class '' @ quoted c @ '' does not implement method '' @ quoted (mi_name m) @
          '' required by interface '' @ quoted i) n)"

definition checkInterface :: "Node \<Rightarrow> string \<Rightarrow> string \<Rightarrow> unit tc" where
  "checkInterface n c i =
     tcBind (tcGet (\<lambda>st. (tc_interfaceTable st i, tc_classTable st c))) (\<lambda>(iface, cls).
       case (iface, cls) of
         (Some info, Some cinfo) \<Rightarrow> tcDo (map (implements n c i cinfo) (if_methods info))
       | _ \<Rightarrow> tcSkip)"

definition enterClass :: "ClassHead \<Rightarrow> TC \<Rightarrow> TC" where
  "enterClass h st =
     st\<lparr>tc_insideClass := True, tc_currentClassName := ch_name h, tc_currentTypeParams := ch_typeParams h\<rparr>"

definition leaveClass :: "TC \<Rightarrow> TC \<Rightarrow> TC" where
  "leaveClass saved st =
     st\<lparr>tc_insideClass := tc_insideClass saved, tc_currentClassName := tc_currentClassName saved,
        tc_currentTypeParams := tc_currentTypeParams saved\<rparr>"

definition checkClass :: "Node \<Rightarrow> ClassHead \<Rightarrow> unit tc \<Rightarrow> unit tc" where
  "checkClass n h visitBody =
     tcLocally (enterClass h) leaveClass
       (inScope (n_line n) (n_endLine n)
         (tcDo
           [tcDeclare ''this'' (ClassType (ch_name h)),
            declareAll (map (\<lambda>x. (x, TypeVar x)) (ch_typeParams h)),
            (case ch_baseClass h of None \<Rightarrow> tcSkip | Some b \<Rightarrow> tcDeclare ''super'' (ClassType b)),
            visitBody,
            checkOverrides n h,
            tcDo (map (checkInterface n (ch_name h)) (ch_interfaces h))]))"

section \<open>Branches and loops\<close>

text \<open>A condition that compares a name with null.\<close>

definition nullTest :: "Expr \<Rightarrow> (BinOp \<times> string) option" where
  "nullTest e =
     (case e of
        BinaryExpr _ op l r \<Rightarrow>
          (case (l, r) of
             (Identifier _ x, NullLiteral _) \<Rightarrow> if op = Neq \<or> op = Eq then Some (op, x) else None
           | _ \<Rightarrow> None)
      | _ \<Rightarrow> None)"

definition nonNullType :: "Type list \<Rightarrow> Type option" where
  "nonNullType ts =
     (case filter (\<lambda>m. kind m \<noteq> KNull) ts of
        [] \<Rightarrow> None
      | [m] \<Rightarrow> Some m
      | ms \<Rightarrow> Some (UnionType ms))"

text \<open>The name that is narrowed, its type in the then-branch and its type in the else-branch.\<close>

definition narrowing :: "SymbolTable \<Rightarrow> Expr \<Rightarrow> (string \<times> Type option \<times> Type option) option" where
  "narrowing table cond =
     (case nullTest cond of
        None \<Rightarrow> None
      | Some (op, x) \<Rightarrow>
          (case st_lookup table x of
             UnionType ts \<Rightarrow>
               if op = Neq then Some (x, nonNullType ts, Some NullT) else Some (x, Some NullT, nonNullType ts)
           | _ \<Rightarrow> None))"

definition declareNarrowed :: "string option \<Rightarrow> Type option \<Rightarrow> unit tc" where
  "declareNarrowed x t = (case (x, t) of (Some x, Some t) \<Rightarrow> tcDeclare x t | _ \<Rightarrow> tcSkip)"

definition checkIf :: "Expr \<Rightarrow> unit tc \<Rightarrow> (Expr \<times> unit tc list) list \<Rightarrow> unit tc option \<Rightarrow> unit tc" where
  "checkIf cond visitThen elsifs visitElse =
     tcThen (checkExpr cond)
       (tcBind (tcGet (\<lambda>st. narrowing (tc_symbols st) cond)) (\<lambda>narrow.
         tcDo
           [inScope 0 0 (tcDo
              [declareNarrowed (map_option fst narrow) (Option.bind narrow (\<lambda>(x, t, e). t)), visitThen]),
            tcDo (map (\<lambda>(c, visits). tcDo [tcIgnore (checkExpr c), inScope 0 0 (tcDo visits)]) elsifs),
            (case visitElse of
               None \<Rightarrow> tcSkip
             | Some visit \<Rightarrow> inScope 0 0 (tcDo
                 [declareNarrowed (map_option fst narrow) (Option.bind narrow (\<lambda>(x, t, e). e)), visit]))]))"

definition checkFor :: "string \<Rightarrow> Expr \<Rightarrow> unit tc \<Rightarrow> unit tc" where
  "checkFor x iter visitBody =
     tcBind (checkExpr iter) (\<lambda>t. inScope 0 0 (tcDo [tcDeclare x (elementType t), visitBody]))"

definition checkWith :: "Expr \<Rightarrow> string \<Rightarrow> unit tc \<Rightarrow> unit tc" where
  "checkWith e x visitBody =
     tcThen (checkExpr e) (inScope 0 0 (tcDo [tcWhen (x \<noteq> []) (tcDeclare x UnknownT), visitBody]))"

definition checkTry :: "unit tc \<Rightarrow> unit tc list \<Rightarrow> unit tc option \<Rightarrow> unit tc" where
  "checkTry visitBody catches visitFinally =
     tcDo
       [inScope 0 0 visitBody,
        tcDo catches,
        (case visitFinally of None \<Rightarrow> tcSkip | Some visit \<Rightarrow> inScope 0 0 visit)]"

definition catchClause :: "string \<Rightarrow> string \<Rightarrow> unit tc \<Rightarrow> unit tc" where
  "catchClause ty x visitBody =
     inScope 0 0 (tcDo
       [if x \<noteq> [] then tcBind (annotated ty) (tcDeclare x) else tcSkip,
        visitBody])"

section \<open>Other statements\<close>

definition checkAssert :: "Node \<Rightarrow> Expr \<Rightarrow> Expr option \<Rightarrow> unit tc" where
  "checkAssert n cond msg =
     tcBind (checkExpr cond) (\<lambda>t.
       if kind t \<noteq> KBool \<and> kind t \<noteq> KUnknown
       then tcThrow (''Assert condition must be bool, got '' @ quoted (toString t)) n
       else case msg of
         None \<Rightarrow> tcSkip
       | Some e \<Rightarrow> tcBind (checkExpr e) (\<lambda>m.
           if kind m \<noteq> KStr \<and> kind m \<noteq> KUnknown
           then tcThrow (''Assert message must be str, got '' @ quoted (toString m)) n
           else tcSkip))"

definition isDelTarget :: "Expr \<Rightarrow> bool" where
  "isDelTarget e =
     (case e of Identifier _ _ \<Rightarrow> True | IndexExpr _ _ _ \<Rightarrow> True | MemberExpr _ _ _ \<Rightarrow> True | _ \<Rightarrow> False)"

definition checkDel :: "Node \<Rightarrow> Expr \<Rightarrow> unit tc" where
  "checkDel n target =
     (if isDelTarget target then tcIgnore (checkExpr target)
      else tcThrow ''del target must be an identifier, index expression, or member expression'' n)"

definition checkPattern :: "Node \<Rightarrow> Type \<Rightarrow> Expr option \<Rightarrow> unit tc" where
  "checkPattern n subject pat =
     (case pat of
        None \<Rightarrow> tcSkip
      | Some p \<Rightarrow> tcBind (checkExpr p) (\<lambda>t.
          if kind subject \<noteq> KUnknown \<and> kind t \<noteq> KUnknown \<and> kind subject \<noteq> kind t
          then tcThrow (''Match case pattern type '' @ quoted (toString t) @
            '' is incompatible with subject type '' @ quoted (toString subject)) n
          else tcSkip))"

definition checkGuard :: "Node \<Rightarrow> Expr option \<Rightarrow> unit tc" where
  "checkGuard n guard =
     (case guard of
        None \<Rightarrow> tcSkip
      | Some g \<Rightarrow> tcBind (checkExpr g) (\<lambda>t.
          tcWhen (\<not> isUnknown t \<and> kind t \<noteq> KBool)
            (tcError (''Match guard condition must be bool, got '' @ toString t) n)))"

definition matchCase :: "Expr option \<Rightarrow> Expr option \<Rightarrow> unit tc \<Rightarrow> Node \<Rightarrow> Type \<Rightarrow> unit tc" where
  "matchCase pat guard visitBody n subject =
     tcDo [checkPattern n subject pat, checkGuard n guard, inScope 0 0 visitBody]"

definition checkMatch :: "Node \<Rightarrow> Expr \<Rightarrow> (Node \<Rightarrow> Type \<Rightarrow> unit tc) list \<Rightarrow> unit tc" where
  "checkMatch n subject cases =
     tcBind (checkExpr subject) (\<lambda>t. tcDo (map (\<lambda>c. c n t) cases))"

definition moduleName :: "string \<Rightarrow> string" where
  "moduleName m = takeWhile (\<lambda>c. c \<noteq> CHR ''.'') m"

definition checkSend :: "Node \<Rightarrow> Expr \<Rightarrow> Expr \<Rightarrow> unit tc" where
  "checkSend n chan val =
     tcBind (checkExpr chan) (\<lambda>t.
       case t of
         ChanType u \<Rightarrow> tcBind (checkExpr val) (\<lambda>v. tcIgnore (unify u v n))
       | _ \<Rightarrow> tcError (''expected channel type for send, got '' @ quoted (toString t)) n)"

definition declareUnknown :: "string list \<Rightarrow> unit tc" where
  "declareUnknown xs = declareAll (map (\<lambda>x. (x, UnknownT)) xs)"

section \<open>Statements\<close>

text \<open>A branch that is absent when it is empty.\<close>

definition nonEmpty :: "unit tc list \<Rightarrow> unit tc option" where
  "nonEmpty ms = (case ms of [] \<Rightarrow> None | _ \<Rightarrow> Some (tcDo ms))"

primrec checkStmt :: "Stmt \<Rightarrow> unit tc"
  and checkCatch :: "CatchClause \<Rightarrow> unit tc"
  and checkCase :: "MatchCase \<Rightarrow> Node \<Rightarrow> Type \<Rightarrow> unit tc" where
  "checkStmt (ExprStmt n e) = tcIgnore (checkExpr e)"
| "checkStmt (AssignStmt n t v ex ta) = checkAssign n t v ta"
| "checkStmt (ConstStmt n x v ta) = checkConst n x v ta"
| "checkStmt (TupleUnpackStmt n ts v) = tcDo [tcIgnore (checkExpr v), declareUnknown ts]"
| "checkStmt (ReturnStmt n v) = checkReturn n v"
| "checkStmt (BreakStmt n) = tcSkip"
| "checkStmt (ContinueStmt n) = tcSkip"
| "checkStmt (PassStmt n) = tcSkip"
| "checkStmt (ChanSendStmt n c v) = checkSend n c v"
| "checkStmt (FuncDef n h b) = checkFunc n h b (tcDo (map checkStmt b))"
| "checkStmt (ClassDef n h b) = checkClass n h (tcDo (map checkStmt b))"
| "checkStmt (InitDef n ps b) = checkInit n ps (tcDo (map checkStmt b))"
| "checkStmt (EnumDef n x ms) = tcSkip"
| "checkStmt (IfStmt n c t es el) =
    checkIf c (tcDo (map checkStmt t)) (map (map_prod id (map checkStmt)) es)
      (nonEmpty (map checkStmt el))"
| "checkStmt (ForStmt n x xs i b el) = checkFor x i (tcDo (map checkStmt b))"
| "checkStmt (WhileStmt n c b el) = tcDo [tcIgnore (checkExpr c), inScope 0 0 (tcDo (map checkStmt b))]"
| "checkStmt (ThrowStmt n e) = optVisit (map_option checkExpr e)"
| "checkStmt (YieldStmt n v) = optVisit (map_option checkExpr v)"
| "checkStmt (AssertStmt n c m) = checkAssert n c m"
| "checkStmt (DelStmt n t) = checkDel n t"
| "checkStmt (WithStmt n e x b) = checkWith e x (tcDo (map checkStmt b))"
| "checkStmt (TryStmt n b cs f) =
    checkTry (tcDo (map checkStmt b)) (map checkCatch cs) (nonEmpty (map checkStmt f))"
| "checkStmt (ImportStmt n m) = tcDeclare (moduleName m) UnknownT"
| "checkStmt (FromImportStmt n m xs) = declareUnknown xs"
| "checkStmt (MatchStmt n e cs) = checkMatch n e (map checkCase cs)"
| "checkStmt (InterfaceDef n x ms) = tcSkip"
| "checkCatch (CatchClause ty x b) = catchClause ty x (tcDo (map checkStmt b))"
| "checkCase (MatchCase p g b) = matchCase p g (tcDo (map checkStmt b))"

definition checkStmtList :: "Stmt list \<Rightarrow> unit tc" where
  "checkStmtList ss = tcDo (map checkStmt ss)"

section \<open>Entry point\<close>

definition restoreTypeParams :: "TC \<Rightarrow> TC \<Rightarrow> TC" where
  "restoreTypeParams saved st = st\<lparr>tc_currentTypeParams := tc_currentTypeParams saved\<rparr>"

definition withTypeParams :: "string list \<Rightarrow> 'a tc \<Rightarrow> 'a tc" where
  "withTypeParams tps m = tcLocally (\<lambda>st. st\<lparr>tc_currentTypeParams := tps\<rparr>) restoreTypeParams m"

text \<open>The arguments a call has to give: those with no default that are not variadic.\<close>

definition requiredArgs :: "Param list \<Rightarrow> nat" where
  "requiredArgs ps =
     length (filter (\<lambda>p. pm_defaultValue p = None \<and> \<not> pm_isVariadic p \<and> \<not> pm_isKwargs p) ps)"

definition registerBounds :: "string \<Rightarrow> (string \<times> string) list \<Rightarrow> (string \<rightharpoonup> string) \<Rightarrow> string \<rightharpoonup> string" where
  "registerBounds f bounds m = fold (\<lambda>(tp, b) m. m(f @ ''.'' @ tp \<mapsto> b)) bounds m"

definition registerFunc :: "FuncHead \<Rightarrow> unit tc" where
  "registerFunc h =
     withTypeParams (fh_typeParams h)
       (tcBind (tcSeq (map (\<lambda>p. annotated (pm_typeAnnotation p)) (fh_params h))) (\<lambda>params.
         tcBind (annotated (fh_returnType h)) (\<lambda>ret.
           tcDo
             [tcDeclare (fh_name h) (FuncType (fh_name h) ret params),
              tcModify (\<lambda>st. st\<lparr>tc_funcMinArgs := (tc_funcMinArgs st)(fh_name h \<mapsto> requiredArgs (fh_params h))\<rparr>),
              tcWhen (fh_typeParams h \<noteq> [])
                (tcModify (\<lambda>st. st
                  \<lparr>tc_funcTypeParams := (tc_funcTypeParams st)(fh_name h \<mapsto> fh_typeParams h),
                   tc_funcBounds := registerBounds (fh_name h) (fh_typeParamBounds h) (tc_funcBounds st)\<rparr>))])))"

definition methodInfo :: "string \<Rightarrow> string \<Rightarrow> Param list \<Rightarrow> MethodInfo tc" where
  "methodInfo f ret ps =
     tcBind (annotated ret) (\<lambda>r.
       tcBind (tcSeq (map (\<lambda>p. annotated (pm_typeAnnotation p)) ps)) (\<lambda>ts.
         tcRet \<lparr>mi_name = f, mi_returnType = r, mi_paramTypes = ts\<rparr>))"

fun methodHeads :: "Stmt list \<Rightarrow> FuncHead list" where
  "methodHeads [] = []"
| "methodHeads (s # ss) = (case s of FuncDef _ h _ \<Rightarrow> h # methodHeads ss | _ \<Rightarrow> methodHeads ss)"

definition classInfo :: "ClassHead \<Rightarrow> MethodInfo list \<Rightarrow> TcClassInfo" where
  "classInfo h methods =
     \<lparr>cl_name = ch_name h, cl_baseClass = (case ch_baseClass h of None \<Rightarrow> '''' | Some b \<Rightarrow> b),
      cl_extraBases = ch_extraBases h, cl_interfaces = ch_interfaces h, cl_typeParams = ch_typeParams h,
      cl_methods = methods\<rparr>"

definition registerClass :: "ClassHead \<Rightarrow> Stmt list \<Rightarrow> unit tc" where
  "registerClass h body =
     tcThen (tcDeclare (ch_name h) (ClassType (ch_name h)))
       (tcBind
         (withTypeParams (ch_typeParams h)
           (tcSeq (map (\<lambda>m. methodInfo (fh_name m) (fh_returnType m) (fh_params m)) (methodHeads body))))
         (\<lambda>methods. tcModify (\<lambda>st. st
            \<lparr>tc_classTable := (tc_classTable st)(ch_name h \<mapsto> classInfo h methods)\<rparr>)))"

definition registerInterface :: "string \<Rightarrow> MethodSignature list \<Rightarrow> unit tc" where
  "registerInterface x ms =
     tcThen (tcDeclare x (InterfaceType x))
       (tcBind (tcSeq (map (\<lambda>m. methodInfo (ms_name m) (ms_returnType m) (ms_params m)) ms))
         (\<lambda>methods. tcModify (\<lambda>st. st
            \<lparr>tc_interfaceTable := (tc_interfaceTable st)(x \<mapsto> \<lparr>if_name = x, if_methods = methods\<rparr>)\<rparr>)))"

definition registerEnum :: "string \<Rightarrow> string list \<Rightarrow> unit tc" where
  "registerEnum x members =
     tcThen (tcDeclare x (ClassType x)) (declareAll (map (\<lambda>m. (x @ ''_'' @ m, IntT)) members))"

definition registerStmt :: "Stmt \<Rightarrow> unit tc" where
  "registerStmt s =
     (case s of
        FuncDef _ h _ \<Rightarrow> registerFunc h
      | ClassDef _ h body \<Rightarrow> registerClass h body
      | InterfaceDef _ x ms \<Rightarrow> registerInterface x ms
      | EnumDef _ x members \<Rightarrow> registerEnum x members
      | _ \<Rightarrow> tcSkip)"

definition rethrowFirst :: "unit tc" where
  "rethrowFirst st =
     (if tc_throwOnFirstError st \<and> tc_errors st \<noteq> [] then (Thrown (hd (tc_errors st)), st) else (Value (), st))"

definition check :: "Program \<Rightarrow> unit tc" where
  "check p =
     tcDo
       [tcModify (\<lambda>st. st\<lparr>tc_errors := []\<rparr>),
        inScope (n_line (pr_node p)) (n_endLine (pr_node p))
          (tcDo [tcDo (map registerStmt (pr_statements p)), checkStmtList (pr_statements p)]),
        rethrowFirst]"

end
