(* ===== verification/Check_Law.thy ===== *)
theory Check_Law
  imports Check_Stmt "HOL-Library.Sublist"
begin

text \<open>
  The contract of a visit of the type checker, as two locales: a relation between the states before and
  after a visit that returns, one for a visit that throws and one for a visit that does not return. The
  rules follow the combinators the visitors are built from, so that a contract that holds of the
  primitive steps holds of every visitor.
\<close>

named_theorems law_intros \<open>rules that reduce the contract of a visit to that of its parts\<close>

section \<open>Contracts of visits\<close>

locale visit_law =
  fixes inv :: "TC \<Rightarrow> bool"
    and R :: "TC \<Rightarrow> TC \<Rightarrow> bool"
    and T :: "TC \<Rightarrow> TC \<Rightarrow> bool"
    and U :: "TC \<Rightarrow> TC \<Rightarrow> bool"
  assumes R_inv: "R s s' \<Longrightarrow> inv s'"
    and R_refl: "inv s \<Longrightarrow> R s s"
    and R_trans: "R a b \<Longrightarrow> R b c \<Longrightarrow> R a c"
    and R_T: "R a b \<Longrightarrow> T b c \<Longrightarrow> T a c"
    and R_U: "R a b \<Longrightarrow> U b c \<Longrightarrow> U a c"
    and R_declare: "inv s \<Longrightarrow> R s (s\<lparr>tc_symbols := st_declare x t (tc_symbols s)\<rparr>)"
begin

definition lawful :: "'a tc \<Rightarrow> bool" where
  "lawful m \<longleftrightarrow> (\<forall>s. inv s \<longrightarrow>
     (case m s of
        (Value x, s') \<Rightarrow> R s s'
      | (Thrown d, s') \<Rightarrow> T s s'
      | (Endless, s') \<Rightarrow> U s s'))"

lemma lawfulI:
  assumes "\<And>s x s'. inv s \<Longrightarrow> m s = (Value x, s') \<Longrightarrow> R s s'"
    and "\<And>s d s'. inv s \<Longrightarrow> m s = (Thrown d, s') \<Longrightarrow> T s s'"
    and "\<And>s s'. inv s \<Longrightarrow> m s = (Endless, s') \<Longrightarrow> U s s'"
  shows "lawful m"
  unfolding lawful_def
proof (intro allI impI)
  fix s
  assume "inv s"
  then show "case m s of (Value x, s') \<Rightarrow> R s s' | (Thrown d, s') \<Rightarrow> T s s' | (Endless, s') \<Rightarrow> U s s'"
    using assms [of s] by (cases "m s"; cases "fst (m s)") auto
qed

lemma lawful_value: "lawful m \<Longrightarrow> inv s \<Longrightarrow> m s = (Value x, s') \<Longrightarrow> R s s'"
  by (force simp: lawful_def)

lemma lawful_thrown: "lawful m \<Longrightarrow> inv s \<Longrightarrow> m s = (Thrown d, s') \<Longrightarrow> T s s'"
  by (force simp: lawful_def)

lemma lawful_endless: "lawful m \<Longrightarrow> inv s \<Longrightarrow> m s = (Endless, s') \<Longrightarrow> U s s'"
  by (force simp: lawful_def)

lemma lawful_ret [law_intros]: "lawful (tcRet x)"
  by (simp add: lawful_def tcRet_def R_refl)

lemma lawful_get [law_intros]: "lawful (tcGet f)"
  by (simp add: lawful_def tcGet_def R_refl)

lemma lawful_modify: "(\<And>s. inv s \<Longrightarrow> R s (f s)) \<Longrightarrow> lawful (tcModify f)"
  by (simp add: lawful_def tcModify_def)

lemma bindE:
  assumes "tcBind m f s = (o', s')"
  obtains (stop) d where "m s = (Thrown d, s')" and "o' = Thrown d"
    | (loop) "m s = (Endless, s')" and "o' = Endless"
    | (step) x s1 where "m s = (Value x, s1)" and "f x s1 = (o', s')"
  using assms by (auto simp: tcBind_def split: prod.splits outcome.splits)

lemma lawful_bind [law_intros]:
  assumes m: "lawful m" and f: "\<And>x. lawful (f x)"
  shows "lawful (tcBind m f)"
proof (rule lawfulI)
  fix s x s'
  assume s: "inv s" and run: "tcBind m f s = (Value x, s')"
  from run obtain y s1 where first: "m s = (Value y, s1)" and rest: "f y s1 = (Value x, s')"
    by (cases rule: bindE) auto
  have "R s s1"
    using lawful_value [OF m s first] .
  then show "R s s'"
    using lawful_value [OF f R_inv rest] by (blast intro: R_trans)
next
  fix s d s'
  assume s: "inv s" and run: "tcBind m f s = (Thrown d, s')"
  from run show "T s s'"
  proof (cases rule: bindE)
    case (step y s1)
    then show ?thesis
      using lawful_value [OF m s step(1)] lawful_thrown [OF f R_inv step(2)] by (blast intro: R_T)
  qed (use lawful_thrown [OF m s] in auto)
next
  fix s s'
  assume s: "inv s" and run: "tcBind m f s = (Endless, s')"
  from run show "U s s'"
  proof (cases rule: bindE)
    case (step y s1)
    then show ?thesis
      using lawful_value [OF m s step(1)] lawful_endless [OF f R_inv step(2)] by (blast intro: R_U)
  qed (use lawful_endless [OF m s] in auto)
qed

lemma lawful_locally:
  assumes "\<And>s. inv s \<Longrightarrow> inv (change s)"
    and "\<And>s s'. inv s \<Longrightarrow> R (change s) s' \<Longrightarrow> R s (restore s s')"
    and "\<And>s s'. inv s \<Longrightarrow> T (change s) s' \<Longrightarrow> T s s'"
    and "\<And>s s'. inv s \<Longrightarrow> U (change s) s' \<Longrightarrow> U s s'"
    and m: "lawful m"
  shows "lawful (tcLocally change restore m)"
proof (rule lawfulI)
  have eq: "tcLocally change restore m s =
      (case m (change s) of (Value x, s') \<Rightarrow> (Value x, restore s s') | r \<Rightarrow> r)" for s
    by (simp add: tcLocally_def tcBind_def tcGet_def tcModify_def tcRet_def split: prod.split outcome.split)
  fix s s'
  assume s: "inv s"
  show "R s s'" if run: "tcLocally change restore m s = (Value x, s')" for x
  proof -
    obtain s1 where "m (change s) = (Value x, s1)" and "s' = restore s s1"
      using run by (auto simp: eq split: prod.splits outcome.splits)
    then show ?thesis
      using assms(2) [OF s lawful_value [OF m assms(1) [OF s]]] by blast
  qed
  show "T s s'" if "tcLocally change restore m s = (Thrown d, s')" for d
    using that assms(3) [OF s lawful_thrown [OF m assms(1) [OF s], of d s']]
    by (auto simp: eq split: prod.splits outcome.splits)
  show "U s s'" if "tcLocally change restore m s = (Endless, s')"
    using that assms(4) [OF s lawful_endless [OF m assms(1) [OF s], of s']]
    by (auto simp: eq split: prod.splits outcome.splits)
qed

lemma lawful_if [law_intros]: "lawful m \<Longrightarrow> lawful k \<Longrightarrow> lawful (if b then m else k)"
  by simp

lemma lawful_when [law_intros]: "lawful m \<Longrightarrow> lawful (tcWhen b m)"
  by (simp add: tcWhen_def lawful_ret)

lemma lawful_seq [law_intros]: "(\<And>m. m \<in> set ms \<Longrightarrow> lawful m) \<Longrightarrow> lawful (tcSeq ms)"
  by (induction ms) (simp_all add: lawful_ret lawful_bind)

lemma lawful_do [law_intros]: "(\<And>m. m \<in> set ms \<Longrightarrow> lawful m) \<Longrightarrow> lawful (tcDo ms)"
  unfolding tcDo_def by (intro law_intros)

lemma lawful_option [law_intros]:
  "(m = None \<Longrightarrow> lawful k) \<Longrightarrow> (\<And>x. m = Some x \<Longrightarrow> lawful (f x)) \<Longrightarrow>
   lawful (case m of None \<Rightarrow> k | Some x \<Rightarrow> f x)"
  by (cases m) simp_all

lemma lawful_pair [law_intros]: "(\<And>x y. p = (x, y) \<Longrightarrow> lawful (f x y)) \<Longrightarrow> lawful (case p of (x, y) \<Rightarrow> f x y)"
  by (cases p) simp_all

lemma lawful_list [law_intros]:
  "(ms = [] \<Longrightarrow> lawful k) \<Longrightarrow> (\<And>x xs. ms = x # xs \<Longrightarrow> lawful (f x xs)) \<Longrightarrow>
   lawful (case ms of [] \<Rightarrow> k | x # xs \<Rightarrow> f x xs)"
  by (cases ms) simp_all

lemma lawful_declare [law_intros]: "lawful (tcDeclare x t)"
  unfolding tcDeclare_def by (rule lawful_modify) (rule R_declare)

lemma lawful_declareAll [law_intros]: "lawful (declareAll xs)"
  unfolding declareAll_def by (auto intro!: law_intros)

lemma lawful_resolve [law_intros]: "lawful (tcResolve x)"
  unfolding tcResolve_def by (rule lawful_get)

lemma lawful_annotated [law_intros]: "lawful (annotated x)"
  unfolding annotated_def by (intro law_intros)

end

text \<open>The steps of the checker that report, open scopes and compare types.\<close>

locale check_law = visit_law +
  assumes R_error: "inv s \<Longrightarrow> R s (s\<lparr>tc_errors := tc_errors s @ [d]\<rparr>)"
    and inv_enter: "inv s \<Longrightarrow> inv (s\<lparr>tc_symbols := st_enterScope l (tc_symbols s)\<rparr>)"
    and R_scope: "inv s \<Longrightarrow> R (s\<lparr>tc_symbols := st_enterScope l (tc_symbols s)\<rparr>) s' \<Longrightarrow>
      R s (s'\<lparr>tc_symbols := st_exitScope e (tc_symbols s')\<rparr>)"
    and T_scope: "inv s \<Longrightarrow> T (s\<lparr>tc_symbols := st_enterScope l (tc_symbols s)\<rparr>) s' \<Longrightarrow> T s s'"
    and U_scope: "inv s \<Longrightarrow> U (s\<lparr>tc_symbols := st_enterScope l (tc_symbols s)\<rparr>) s' \<Longrightarrow> U s s'"
    and U_assignable: "inv s \<Longrightarrow> isAssignableTo (tc_classTable s) t u = None \<Longrightarrow> U s s"
begin

lemma lawful_errorHint [law_intros]: "lawful (tcErrorHint msg n hint)"
  unfolding tcErrorHint_def by (rule lawful_modify) (rule R_error)

lemma lawful_error [law_intros]: "lawful (tcError msg n)"
  unfolding tcError_def by (rule lawful_errorHint)

lemma lawful_inScope [law_intros]:
  assumes "lawful m"
  shows "lawful (inScope l e m)"
proof -
  have "inScope l e m s =
      (case m (s\<lparr>tc_symbols := st_enterScope l (tc_symbols s)\<rparr>) of
         (Value x, s') \<Rightarrow> (Value x, s'\<lparr>tc_symbols := st_exitScope e (tc_symbols s')\<rparr>)
       | r \<Rightarrow> r)" for s
    by (simp add: inScope_def enterScope_def exitScope_def tcBind_def tcModify_def tcRet_def
        split: prod.split outcome.split)
  then show ?thesis
    by (intro lawfulI)
      (auto split: prod.splits outcome.splits intro: R_scope T_scope U_scope
        dest: lawful_value [OF assms inv_enter] lawful_thrown [OF assms inv_enter]
          lawful_endless [OF assms inv_enter])
qed

lemma lawful_assignable [law_intros]: "lawful (tcAssignable t u)"
  unfolding tcAssignable_def
  by (rule lawfulI)
    (auto simp: tcBind_def tcGet_def tcAnswer_def R_refl U_assignable split: option.splits)

lemma lawful_lookup [law_intros]: "lawful (tcLookup x n)"
  unfolding tcLookup_def by (intro law_intros)

lemma lawful_unify [law_intros]: "lawful (unify a b n)"
  unfolding unify_def by (intro law_intros)

section \<open>Expressions\<close>

lemma lawful_operandError [law_intros]: "lawful (operandError what lt rt n)"
  unfolding operandError_def by (intro law_intros)

lemma lawful_binaryType [law_intros]: "lawful (binaryType op lt rt n)"
  by (cases op) (auto simp: arithmeticType_def bitwiseType_def equalityType_def orderType_def intro!: law_intros)

lemma lawful_unaryType [law_intros]: "lawful (unaryType op t n)"
  by (cases op) (auto intro!: law_intros)

lemma lawful_this [law_intros]: "lawful (checkThis n)"
  unfolding checkThis_def by (intro law_intros)

lemma lawful_super [law_intros]: "lawful (checkSuper n)"
  unfolding checkSuper_def by (intro law_intros)

lemma lawful_arity [law_intros]: "lawful (checkArity f expected got n)"
  unfolding checkArity_def arityError_def by (intro law_intros)

lemma lawful_bound [law_intros]: "lawful (checkBound f m n tp)"
proof -
  have "lawful (case (m tp, bound) of
      (Some t, Some b) \<Rightarrow> tcWhen (\<not> satisfiesBound t b)
        (tcError (''Type argument '' @ quoted (toString t) @ '' does not satisfy bound '' @ quoted b @
           '' for type parameter '' @ quoted tp) n)
    | _ \<Rightarrow> tcSkip)" for bound
    by (auto split: option.split intro!: law_intros)
  then show ?thesis
    unfolding checkBound_def by (intro law_intros)
qed

lemma lawful_callFunction [law_intros]: "lawful (callFunction f ret params argTypes typeArgs n)"
proof -
  have "lawful (genericCall f ret params names argTypes typeArgs n)" for names
    unfolding genericCall_def explicitTypeArgs_def by (auto intro!: law_intros)
  moreover have "lawful (plainCall f ret params argTypes n)"
    unfolding plainCall_def checkArg_def Let_def by (auto intro!: law_intros)
  ultimately show ?thesis
    unfolding callFunction_def by (auto intro!: law_intros split: option.split list.split)
qed

lemma lawful_notCallable [law_intros]: "lawful (notCallable c t n)"
  unfolding notCallable_def by (intro law_intros)

lemma lawful_builtin:
  assumes "builtinCall f args n = Some m" and "\<And>a. a \<in> set args \<Longrightarrow> lawful a"
  shows "lawful m"
proof -
  have "lawful (firstOnly args)" and "lawful (tcSeq args)" and "lawful (tcSeq (map (checkInputArg n) args))"
    using assms(2) by (auto simp: firstOnly_def checkInputArg_def intro!: law_intros split: list.split)
  then show ?thesis
    using assms(1) by (auto simp: builtinCall_def intro!: law_intros split: if_splits)
qed

lemma lawful_call [law_intros]:
  assumes "lawful visit" and args: "\<And>a. a \<in> set args \<Longrightarrow> lawful a"
  shows "lawful (checkCall c visit args typeArgs n)"
proof -
  have "lawful (case t of
      FuncType f ret params \<Rightarrow> callFunction f ret params argTypes typeArgs n
    | ClassType c \<Rightarrow> tcRet (ClassType c)
    | _ \<Rightarrow> tcThen (tcWhen (\<not> isUnknown t) (notCallable c t n)) (tcRet UnknownT))" for t argTypes
    by (cases t) (auto intro!: law_intros)
  then have "lawful (ordinaryCall c visit args typeArgs n)"
    unfolding ordinaryCall_def using assms by (intro law_intros) auto
  then show ?thesis
    unfolding checkCall_def
    by (intro lawful_option) (auto intro: lawful_builtin args simp: bind_eq_Some_conv)
qed

lemma lawful_unifyAll [law_intros]: "(\<And>m. m \<in> set ms \<Longrightarrow> lawful m) \<Longrightarrow> lawful (unifyAll t ms n)"
  by (induction ms arbitrary: t) (simp_all add: lawful_ret lawful_bind lawful_unify)

lemma lawful_unifyEntries [law_intros]:
  "(\<And>a b. (a, b) \<in> set ms \<Longrightarrow> lawful a) \<Longrightarrow> (\<And>a b. (a, b) \<in> set ms \<Longrightarrow> lawful b) \<Longrightarrow>
   lawful (unifyEntries k v ms n)"
proof (induction ms arbitrary: k v)
  case (Cons p ms)
  obtain a b where p: "p = (a, b)"
    by (cases p)
  have "lawful a" and "lawful b"
    using Cons.prems [of a b] by (auto simp: p)
  moreover have "\<And>k v. lawful (unifyEntries k v ms n)"
    using Cons.prems by (intro Cons.IH) auto
  ultimately show ?case
    by (auto simp: p intro!: law_intros)
qed (simp add: lawful_ret)

lemma lawful_collections [law_intros]:
  "(\<And>m. m \<in> set ms \<Longrightarrow> lawful m) \<Longrightarrow> lawful (checkList ms n)"
  "(\<And>a b. (a, b) \<in> set ps \<Longrightarrow> lawful a) \<Longrightarrow> (\<And>a b. (a, b) \<in> set ps \<Longrightarrow> lawful b) \<Longrightarrow> lawful (checkDict ps n)"
proof -
  show "lawful (checkList ms n)" if "\<And>m. m \<in> set ms \<Longrightarrow> lawful m"
    unfolding checkList_def using that by (auto intro!: law_intros split: list.split)
  assume "\<And>a b. (a, b) \<in> set ps \<Longrightarrow> lawful a" and "\<And>a b. (a, b) \<in> set ps \<Longrightarrow> lawful b"
  then show "lawful (checkDict ps n)"
    unfolding checkDict_def by (cases ps) (auto intro!: law_intros lawful_unifyEntries)
qed

lemma lawful_opt [law_intros]: "(\<And>m. v = Some m \<Longrightarrow> lawful m) \<Longrightarrow> lawful (optVisit v)"
  unfolding optVisit_def by (auto intro!: law_intros split: option.split)

lemma lawful_expr [law_intros]: "lawful (checkExpr e)"
proof (induction e rule: expr_induct)
  case (ChanRecvExpr n e)
  have "lawful (case t of
      ChanType u \<Rightarrow> tcRet u
    | _ \<Rightarrow> tcThen (tcError (''expected channel type for receive, got '' @ quoted (toString t)) n) (tcRet UnknownT))"
    for t
    by (cases t) (auto intro!: law_intros)
  then show ?case
    using ChanRecvExpr by (auto intro!: law_intros)
next
  case (DictExpr n kvs)
  then show ?case
    by (auto intro!: law_intros)
qed (auto intro!: law_intros)

end

section \<open>Statements\<close>

text \<open>The visits that set fields for their duration: of a function, an initialiser and a class.\<close>

definition localSteps :: "((TC \<Rightarrow> TC) \<times> (TC \<Rightarrow> TC \<Rightarrow> TC)) set" where
  "localSteps =
     range (\<lambda>h. (enterFunction h, leaveFunction)) \<union> {(enterInit, leaveInit)} \<union>
     range (\<lambda>h. (enterClass h, leaveClass))"

lemma localSteps_simps [simp]:
  "(enterFunction h, leaveFunction) \<in> localSteps"
  "(enterInit, leaveInit) \<in> localSteps"
  "(enterClass ch, leaveClass) \<in> localSteps"
  by (auto simp: localSteps_def)

locale stmt_law = check_law +
  assumes R_const: "inv s \<Longrightarrow> R s (s\<lparr>tc_constVars := insert x (tc_constVars s)\<rparr>)"
    and T_refl: "inv s \<Longrightarrow> T s s"
    and local_inv: "(change, restore) \<in> localSteps \<Longrightarrow> inv s \<Longrightarrow> inv (change s)"
    and local_R: "(change, restore) \<in> localSteps \<Longrightarrow> inv s \<Longrightarrow> R (change s) s' \<Longrightarrow> R s (restore s s')"
    and local_T: "(change, restore) \<in> localSteps \<Longrightarrow> inv s \<Longrightarrow> T (change s) s' \<Longrightarrow> T s s'"
    and local_U: "(change, restore) \<in> localSteps \<Longrightarrow> inv s \<Longrightarrow> U (change s) s' \<Longrightarrow> U s s'"
begin

lemma lawful_throw [law_intros]: "lawful (tcThrow msg n)"
  by (simp add: lawful_def tcThrow_def T_refl)

lemma lawful_local [law_intros]:
  assumes "(change, restore) \<in> localSteps" and "lawful m"
  shows "lawful (tcLocally change restore m)"
  by (rule lawful_locally [OF _ _ _ _ assms(2)])
    (use assms(1) in \<open>blast intro: local_inv local_R local_T local_U\<close>)+

lemma lawful_assign [law_intros]: "lawful (checkAssign n t v ta)"
  unfolding checkAssign_def assignName_def typedDeclaration_def plainAssignment_def reassignment_def Let_def
  by (auto intro!: law_intros split: option.split)

lemma lawful_constant [law_intros]: "lawful (checkConst n x v ta)"
proof -
  have "lawful (tcModify (\<lambda>st. st\<lparr>tc_constVars := insert x (tc_constVars st)\<rparr>))"
    by (rule lawful_modify) (rule R_const)
  then show ?thesis
    unfolding checkConst_def by (auto intro!: law_intros)
qed

lemma lawful_return [law_intros]: "lawful (checkReturn n v)"
  unfolding checkReturn_def returnMismatch_def Let_def
  by (auto intro!: law_intros split: option.split)

lemma lawful_extern [law_intros]: "lawful (checkExtern n h)"
  unfolding checkExtern_def externParam_def by (auto intro!: law_intros)

lemma lawful_declareParam [law_intros]: "lawful (declareParam p)"
  unfolding declareParam_def by (auto intro!: law_intros)

lemma lawful_func [law_intros]: "lawful m \<Longrightarrow> lawful (checkFunc n h body m)"
  unfolding checkFunc_def missingReturn_def by (auto intro!: law_intros)

lemma lawful_init [law_intros]: "lawful m \<Longrightarrow> lawful (checkInit n ps m)"
  unfolding checkInit_def by (auto intro!: law_intros)

lemma lawful_overrides [law_intros]: "lawful (checkOverrides n h)"
proof -
  have "lawful (checkOverride n a b)" for a b
    unfolding checkOverride_def overrideParam_def Let_def by (auto intro!: law_intros)
  then show ?thesis
    unfolding checkOverrides_def by (auto intro!: law_intros split: option.split)
qed

lemma lawful_interface [law_intros]: "lawful (checkInterface n c i)"
  unfolding checkInterface_def implements_def by (auto intro!: law_intros split: option.split)

lemma lawful_class [law_intros]: "lawful m \<Longrightarrow> lawful (checkClass n h m)"
  unfolding checkClass_def by (auto intro!: law_intros split: option.split)

lemma lawful_narrowed [law_intros]: "lawful (declareNarrowed x t)"
  unfolding declareNarrowed_def by (auto intro!: law_intros split: option.split)

lemma lawful_ifStmt [law_intros]:
  assumes "lawful m" and "\<And>c ms v. (c, ms) \<in> set es \<Longrightarrow> v \<in> set ms \<Longrightarrow> lawful v"
    and "\<And>v. el = Some v \<Longrightarrow> lawful v"
  shows "lawful (checkIf c m es el)"
  unfolding checkIf_def using assms by (auto intro!: law_intros split: option.split)

lemma lawful_for [law_intros]: "lawful m \<Longrightarrow> lawful (checkFor x i m)"
  unfolding checkFor_def by (auto intro!: law_intros)

lemma lawful_with [law_intros]: "lawful m \<Longrightarrow> lawful (checkWith e x m)"
  unfolding checkWith_def by (auto intro!: law_intros)

lemma lawful_catch [law_intros]: "lawful m \<Longrightarrow> lawful (catchClause ty x m)"
  unfolding catchClause_def by (auto intro!: law_intros)

lemma lawful_try [law_intros]:
  "lawful m \<Longrightarrow> (\<And>c. c \<in> set cs \<Longrightarrow> lawful c) \<Longrightarrow> (\<And>v. f = Some v \<Longrightarrow> lawful v) \<Longrightarrow>
   lawful (checkTry m cs f)"
  unfolding checkTry_def by (auto intro!: law_intros split: option.split)

lemma lawful_assert [law_intros]: "lawful (checkAssert n c m)"
  unfolding checkAssert_def by (auto intro!: law_intros split: option.split)

lemma lawful_del [law_intros]: "lawful (checkDel n t)"
  unfolding checkDel_def by (auto intro!: law_intros)

lemma lawful_matchCase [law_intros]: "lawful m \<Longrightarrow> lawful (matchCase p g m n t)"
  unfolding matchCase_def checkPattern_def checkGuard_def by (auto intro!: law_intros split: option.split)

lemma lawful_match [law_intros]:
  "(\<And>c t. c \<in> set cs \<Longrightarrow> lawful (c n t)) \<Longrightarrow> lawful (checkMatch n e cs)"
  unfolding checkMatch_def by (auto intro!: law_intros)

lemma lawful_send [law_intros]: "lawful (checkSend n c v)"
proof -
  have "lawful (case t of
      ChanType u \<Rightarrow> tcBind (checkExpr v) (\<lambda>w. tcIgnore (unify u w n))
    | _ \<Rightarrow> tcError (''expected channel type for send, got '' @ quoted (toString t)) n)" for t
    by (cases t) (auto intro!: law_intros)
  then show ?thesis
    unfolding checkSend_def by (intro law_intros)
qed

lemma lawful_nonEmpty: "(\<And>m. m \<in> set ms \<Longrightarrow> lawful m) \<Longrightarrow> nonEmpty ms = Some v \<Longrightarrow> lawful v"
  by (auto simp: nonEmpty_def intro!: law_intros split: list.splits)

lemma lawful_stmt [law_intros]: "lawful (checkStmt s)"
proof (induction s rule: stmt_induct)
  case (IfStmt n c t es el)
  then show ?case
    by (auto intro!: law_intros dest!: lawful_nonEmpty [rotated])
next
  case (TryStmt n b cs f)
  then have "lawful (checkCatch c)" if "c \<in> set cs" for c
    using that by (cases c) (auto intro!: law_intros)
  then show ?case
    using TryStmt by (auto intro!: law_intros dest!: lawful_nonEmpty [rotated])
next
  case (MatchStmt n e cs)
  then have "lawful (checkCase c n t)" if "c \<in> set cs" for c n t
    using that by (cases c) (auto intro!: law_intros)
  then show ?case
    by (auto intro!: law_intros)
qed (auto simp: declareUnknown_def intro!: law_intros)

lemma lawful_stmts [law_intros]: "lawful (checkStmtList ss)"
  unfolding checkStmtList_def by (auto intro!: law_intros)

end

end
