(* ===== verification/Check_Props.thy ===== *)
theory Check_Props
  imports Check_Law
begin

text \<open>
  What a run of the type checker does to its state: scopes are opened and closed in pairs and stay in the
  registry, errors are only added, the tables of the first pass are only read by the second. From these
  follow the outcome of \<^verbatim>\<open>TypeChecker::check\<close> and its termination.
\<close>

section \<open>The contract of the second pass\<close>

definition tcInv :: "TC \<Rightarrow> bool" where
  "tcInv st \<longleftrightarrow> table_inv (tc_symbols st)"

text \<open>What only the first pass, or nothing, changes.\<close>

definition tcTables :: "TC \<Rightarrow> _" where
  "tcTables st =
     (tc_filename st, tc_throwOnFirstError st, tc_hashOrder st, tc_classTable st, tc_interfaceTable st,
      tc_funcTypeParams st, tc_funcBounds st, tc_funcMinArgs st)"

text \<open>What a visitor restores.\<close>

definition tcContext :: "TC \<Rightarrow> _" where
  "tcContext st =
     (tc_insideClass st, tc_currentClassName st, tc_currentTypeParams st, tc_currentReturnType st,
      tc_hasExplicitReturnType st, tc_functionNestingDepth st)"

text \<open>
  The registry grows, nothing in it changes but the scope that was innermost, a new scope has a parent if
  one was open, and no scope open before has been closed.
\<close>

definition extends :: "SymbolTable \<Rightarrow> SymbolTable \<Rightarrow> bool" where
  "extends t t' \<longleftrightarrow>
     length (all_scopes t) \<le> length (all_scopes t') \<and>
     (\<forall>i<length (all_scopes t). i \<notin> set (take 1 (active_stack t)) \<longrightarrow> all_scopes t' ! i = all_scopes t ! i) \<and>
     (\<forall>i<length (all_scopes t). parentIndex (all_scopes t' ! i) = parentIndex (all_scopes t ! i)) \<and>
     (active_stack t \<noteq> [] \<longrightarrow>
       (\<forall>i<length (all_scopes t'). length (all_scopes t) \<le> i \<longrightarrow> 0 \<le> parentIndex (all_scopes t' ! i))) \<and>
     suffix (active_stack t) (active_stack t')"

definition grown :: "TC \<Rightarrow> TC \<Rightarrow> bool" where
  "grown s s' \<longleftrightarrow> tcInv s' \<and> extends (tc_symbols s) (tc_symbols s') \<and> tcTables s' = tcTables s \<and>
     tc_constVars s \<subseteq> tc_constVars s' \<and> prefix (tc_errors s) (tc_errors s')"

definition settled :: "TC \<Rightarrow> TC \<Rightarrow> bool" where
  "settled s s' \<longleftrightarrow> grown s s' \<and> tcContext s' = tcContext s \<and>
     active_stack (tc_symbols s') = active_stack (tc_symbols s) \<and>
     table.framed (tc_symbols s) (tc_symbols s')"

definition loops :: "TC \<Rightarrow> TC \<Rightarrow> bool" where
  "loops s s' \<longleftrightarrow> grown s s' \<and> \<not> hierarchy (tc_classTable s)"

lemma extends_refl: "extends t t"
  by (simp add: extends_def)

lemma extends_trans:
  assumes "extends a b" and "extends b c" and "active_stack b = active_stack a"
  shows "extends a c"
proof -
  have le: "length (all_scopes a) \<le> length (all_scopes b)"
    using assms(1) by (simp add: extends_def)
  have "0 \<le> parentIndex (all_scopes c ! i)"
    if "active_stack a \<noteq> []" and "i < length (all_scopes c)" and "length (all_scopes a) \<le> i" for i
    using assms that by (cases "i < length (all_scopes b)") (auto simp: extends_def)
  then show ?thesis
    using assms le unfolding extends_def by auto
qed

lemma extends_declare: "table_inv t \<Longrightarrow> extends t (st_declare x ty t)"
  by (auto simp: extends_def st_declare_def table_inv_def nth_list_update split: list.split)

text \<open>A scope opened and closed extends the table, whatever happens in it.\<close>

lemma extends_enter:
  assumes "table_inv t" and "extends (st_enterScope l t) t'"
  shows "extends t t'"
proof -
  have "0 \<le> parentIndex (all_scopes t' ! i)"
    if "active_stack t \<noteq> []" and "i < length (all_scopes t')" and "length (all_scopes t) \<le> i" for i
  proof (cases "i = length (all_scopes t)")
    case True
    then show ?thesis
      using assms that(1) by (auto simp: extends_def st_enterScope_def Let_def nth_append split: list.splits)
  qed (use assms that in \<open>auto simp: extends_def st_enterScope_def Let_def\<close>)
  then show ?thesis
    using assms
    by (auto simp: extends_def st_enterScope_def Let_def nth_append suffix_ConsD dest: in_set_takeD)
qed

lemma extends_exit:
  assumes "table_inv t" and "extends (st_enterScope l t) t'"
    and "active_stack t' = active_stack (st_enterScope l t)"
  shows "extends t (st_exitScope e t')"
proof -
  have stack: "active_stack t' = length (all_scopes t) # active_stack t"
    using assms(3) by (simp add: st_enterScope_def Let_def)
  have "extends t t'"
    using assms(1,2) by (rule extends_enter)
  then show ?thesis
    by (auto simp: extends_def st_exitScope_def stack nth_list_update)
qed

lemma settled_refl: "tcInv s \<Longrightarrow> settled s s"
  by (simp add: settled_def grown_def extends_refl table.framed_refl tcInv_def)

lemma settled_grown: "settled a b \<Longrightarrow> grown b c \<Longrightarrow> grown a c"
  unfolding settled_def grown_def by (auto intro: extends_trans prefix_order.trans)

lemma settled_trans: "settled a b \<Longrightarrow> settled b c \<Longrightarrow> settled a c"
  using settled_grown [of a b c] unfolding settled_def by (auto intro: table.framed_trans)

lemma grown_scope:
  assumes "tcInv s" and "grown (s\<lparr>tc_symbols := st_enterScope l (tc_symbols s)\<rparr>) s'"
  shows "grown s s'"
  using assms by (auto simp: grown_def tcInv_def tcTables_def intro: extends_enter)

lemma settled_scope:
  assumes "tcInv s" and "settled (s\<lparr>tc_symbols := st_enterScope l (tc_symbols s)\<rparr>) s'"
  shows "settled s (s'\<lparr>tc_symbols := st_exitScope e (tc_symbols s')\<rparr>)"
proof -
  let ?t = "tc_symbols s" and ?t' = "tc_symbols s'"
  have ext: "extends (st_enterScope l ?t) ?t'" and stack: "active_stack ?t' = active_stack (st_enterScope l ?t)"
    and framed: "table.framed (st_enterScope l ?t) ?t'" and inv: "table_inv ?t"
    using assms by (simp_all add: settled_def grown_def tcInv_def)
  have "table.framed ?t (st_exitScope e ?t')"
    using table.framed_scope [OF inv framed] by blast
  moreover have "table_inv (st_exitScope e ?t')"
    using framed by (auto intro: table_inv_exit table.framed_inv)
  moreover have "active_stack (st_exitScope e ?t') = active_stack ?t"
    using stack by (simp add: st_exitScope_def st_enterScope_def Let_def)
  ultimately show ?thesis
    using assms(2) extends_exit [OF inv ext stack]
    by (simp add: settled_def grown_def tcInv_def tcTables_def tcContext_def)
qed

lemma settled_declare: "tcInv s \<Longrightarrow> settled s (s\<lparr>tc_symbols := st_declare x t (tc_symbols s)\<rparr>)"
proof -
  assume "tcInv s"
  then have "table_inv (tc_symbols s)"
    by (simp add: tcInv_def)
  moreover from this have "table.framed (tc_symbols s) (st_declare x t (tc_symbols s))"
    by (rule table.framed_define)
  moreover have "active_stack (st_declare x t (tc_symbols s)) = active_stack (tc_symbols s)"
    by (simp add: st_declare_def split: list.split)
  ultimately show ?thesis
    by (simp add: settled_def grown_def tcInv_def extends_declare table_inv_declare tcTables_def tcContext_def)
qed

lemma settled_fields:
  "tcInv s \<Longrightarrow> settled s (s\<lparr>tc_errors := tc_errors s @ ds\<rparr>)"
  "tcInv s \<Longrightarrow> settled s (s\<lparr>tc_constVars := insert x (tc_constVars s)\<rparr>)"
  using settled_refl [of s]
  by (auto simp: settled_def grown_def tcInv_def tcTables_def tcContext_def)

lemmas local_defs =
  localSteps_def enterFunction_def leaveFunction_def setReturnType_def enterInit_def leaveInit_def
  enterClass_def leaveClass_def

lemma local_change:
  assumes "(change, restore) \<in> localSteps"
  shows "tc_symbols (change s) = tc_symbols s" and "tcTables (change s) = tcTables s"
    and "tc_constVars (change s) = tc_constVars s" and "tc_errors (change s) = tc_errors s"
    and "tc_classTable (change s) = tc_classTable s"
  using assms by (auto simp: local_defs tcTables_def split: if_splits)

lemma local_restore:
  assumes "(change, restore) \<in> localSteps"
  shows "tc_symbols (restore s s') = tc_symbols s'" and "tcTables (restore s s') = tcTables s'"
    and "tc_constVars (restore s s') = tc_constVars s'" and "tc_errors (restore s s') = tc_errors s'"
    and "tcContext s' = tcContext (change s) \<Longrightarrow> tcContext (restore s s') = tcContext s"
  using assms by (auto simp: local_defs tcTables_def tcContext_def split: if_splits)

lemma local_grown: "(change, restore) \<in> localSteps \<Longrightarrow> grown (change s) s' \<Longrightarrow> grown s s'"
  by (simp add: grown_def local_change)

lemma local_settled:
  "(change, restore) \<in> localSteps \<Longrightarrow> settled (change s) s' \<Longrightarrow> settled s (restore s s')"
  by (simp add: settled_def grown_def tcInv_def local_change local_restore)

lemma settled_inv: "settled s s' \<Longrightarrow> tcInv s'"
  by (simp add: settled_def grown_def)

lemma settled_loops: "settled a b \<Longrightarrow> loops b c \<Longrightarrow> loops a c"
  using settled_grown [of a b c] by (simp add: loops_def settled_def grown_def tcTables_def)

lemma loops_scope: "tcInv s \<Longrightarrow> loops (s\<lparr>tc_symbols := st_enterScope l (tc_symbols s)\<rparr>) s' \<Longrightarrow> loops s s'"
  using grown_scope [of s l s'] by (simp add: loops_def)

lemma enter_inv: "tcInv s \<Longrightarrow> tcInv (s\<lparr>tc_symbols := st_enterScope l (tc_symbols s)\<rparr>)"
  by (simp add: tcInv_def table_inv_enter)

lemma grown_refl: "tcInv s \<Longrightarrow> grown s s"
  using settled_refl [of s] by (simp add: settled_def)

lemma loops_assignable: "tcInv s \<Longrightarrow> isAssignableTo (tc_classTable s) t u = None \<Longrightarrow> loops s s"
  using isAssignableTo_returns [of "tc_classTable s" t u] grown_refl [of s] by (auto simp: loops_def returns_def)

lemma local_inv: "(change, restore) \<in> localSteps \<Longrightarrow> tcInv s \<Longrightarrow> tcInv (change s)"
  by (simp add: tcInv_def local_change)

lemma local_loops: "(change, restore) \<in> localSteps \<Longrightarrow> loops (change s) s' \<Longrightarrow> loops s s'"
  by (auto simp: loops_def local_change dest: local_grown)

lemmas contract_laws =
  settled_inv settled_refl settled_trans settled_grown settled_loops settled_declare settled_fields
  enter_inv settled_scope grown_scope loops_scope loops_assignable grown_refl

text \<open>No expression throws; a statement may.\<close>

interpretation expr: check_law tcInv settled "\<lambda>_ _. False" loops
  by unfold_locales (fact contract_laws | simp)+

interpretation stmt: stmt_law tcInv settled grown loops
  by unfold_locales
    (fact contract_laws local_inv | blast intro: local_settled local_grown local_loops)+

section \<open>The first pass\<close>

text \<open>The bases each class of the module names.\<close>

definition classEdges :: "ClassHead \<Rightarrow> (string \<times> string) set" where
  "classEdges h = {(b, ch_name h) | b. ch_baseClass h = Some b \<and> b \<noteq> [] \<or> b \<in> set (ch_extraBases h)}"

definition stmtEdges :: "Stmt \<Rightarrow> (string \<times> string) set" where
  "stmtEdges s = (case s of ClassDef n h body \<Rightarrow> classEdges h | _ \<Rightarrow> {})"

definition programEdges :: "Program \<Rightarrow> (string \<times> string) set" where
  "programEdges p = (\<Union>s\<in>set (pr_statements p). stmtEdges s)"

text \<open>It reports nothing, and the classes it registers have the bases that are written.\<close>

definition registered :: "(string \<times> string) set \<Rightarrow> TC \<Rightarrow> TC \<Rightarrow> bool" where
  "registered E s s' \<longleftrightarrow> tcInv s' \<and> extends (tc_symbols s) (tc_symbols s') \<and>
     active_stack (tc_symbols s') = active_stack (tc_symbols s) \<and>
     tc_errors s' = tc_errors s \<and> tc_throwOnFirstError s' = tc_throwOnFirstError s \<and>
     (finite (dom (tc_classTable s)) \<longrightarrow> finite (dom (tc_classTable s'))) \<and>
     basesOf (tc_classTable s') \<subseteq> basesOf (tc_classTable s) \<union> E"

lemma registered_laws:
  "registered E s s' \<Longrightarrow> tcInv s'"
  "tcInv s \<Longrightarrow> registered E s s"
  "registered E a b \<Longrightarrow> registered E b c \<Longrightarrow> registered E a c"
  "tcInv s \<Longrightarrow> registered E s (s\<lparr>tc_symbols := st_declare x t (tc_symbols s)\<rparr>)"
proof -
  show "tcInv s \<Longrightarrow> registered E s (s\<lparr>tc_symbols := st_declare x t (tc_symbols s)\<rparr>)"
    using settled_declare [of s x t] by (simp add: settled_def grown_def registered_def)
  show "registered E a b \<Longrightarrow> registered E b c \<Longrightarrow> registered E a c"
    unfolding registered_def by (auto intro: extends_trans)
qed (simp_all add: registered_def extends_refl)

interpretation first: visit_law tcInv "registered E" "\<lambda>_ _. False" "\<lambda>_ _. False" for E
  by unfold_locales (fact registered_laws | simp)+

lemma first_fields:
  "first.lawful E (tcModify (\<lambda>st. st\<lparr>tc_funcMinArgs := f st\<rparr>))"
  "first.lawful E (tcModify (\<lambda>st. st\<lparr>tc_funcTypeParams := g st, tc_funcBounds := h st\<rparr>))"
  "first.lawful E (tcModify (\<lambda>st. st\<lparr>tc_interfaceTable := k st\<rparr>))"
  by (rule first.lawful_modify; simp add: registered_def tcInv_def extends_refl)+

lemma first_class:
  assumes "classEdges h \<subseteq> E"
  shows "first.lawful E (tcModify (\<lambda>st. st\<lparr>tc_classTable := (tc_classTable st)(ch_name h \<mapsto> classInfo h ms)\<rparr>))"
proof (rule first.lawful_modify)
  fix s
  assume "tcInv s"
  moreover have "basesOf ((tc_classTable s)(ch_name h \<mapsto> classInfo h ms)) \<subseteq> basesOf (tc_classTable s) \<union> E"
    using assms by (auto simp: basesOf_def classInfo_def classEdges_def split: if_splits option.splits)
  ultimately show "registered E s (s\<lparr>tc_classTable := (tc_classTable s)(ch_name h \<mapsto> classInfo h ms)\<rparr>)"
    by (simp add: registered_def tcInv_def extends_refl)
qed

lemma first_typeParams [law_intros]: "first.lawful E m \<Longrightarrow> first.lawful E (withTypeParams tps m)"
  unfolding withTypeParams_def
  by (rule first.lawful_locally) (auto simp: registered_def tcInv_def restoreTypeParams_def)

lemma first_method [law_intros]: "first.lawful E (methodInfo f ret ps)"
  unfolding methodInfo_def by (auto intro!: law_intros)

lemma first_stmt:
  assumes "stmtEdges s \<subseteq> E"
  shows "first.lawful E (registerStmt s)"
  using assms unfolding registerStmt_def
  by (cases s)
    (auto simp: registerFunc_def registerClass_def registerInterface_def registerEnum_def stmtEdges_def
      intro!: law_intros first_fields first_class)

lemma first_pass: "first.lawful (programEdges p) (tcDo (map registerStmt (pr_statements p)))"
  by (auto intro!: law_intros first_stmt simp: programEdges_def)

section \<open>A run\<close>

text \<open>The state in which the statements of a module are visited.\<close>

definition opened :: "TC \<Rightarrow> Program \<Rightarrow> TC" where
  "opened s p = s\<lparr>tc_errors := [], tc_symbols := st_enterScope (n_line (pr_node p)) (tc_symbols s)\<rparr>"

lemma tcDo_two: "tcDo [a, b] s = (case a s of (Value u, s') \<Rightarrow> b s' | r \<Rightarrow> r)"
proof -
  have "snd r = ()" if "r = (x :: 'a, ())" for r x
    using that by simp
  then show ?thesis
    by (auto simp: tcDo_def tcBind_def tcRet_def split: prod.split outcome.split)
qed

lemma check_run:
  "check p s =
    (case tcDo [tcDo (map registerStmt (pr_statements p)), checkStmtList (pr_statements p)] (opened s p) of
       (Value u, s') \<Rightarrow> rethrowFirst (s'\<lparr>tc_symbols := st_exitScope (n_endLine (pr_node p)) (tc_symbols s')\<rparr>)
     | r \<Rightarrow> r)"
  by (auto simp: check_def opened_def inScope_def enterScope_def exitScope_def tcDo_def tcBind_def tcModify_def
      tcRet_def rethrowFirst_def split: prod.split outcome.split)

lemma opened_start:
  "tcInv (opened (mkTypeChecker order fn first) p)"
  "active_stack (tc_symbols (opened (mkTypeChecker order fn first) p)) = [0]"
  "map parentIndex (all_scopes (tc_symbols (opened (mkTypeChecker order fn first) p))) = [- 1]"
  by (simp_all add: opened_def mkTypeChecker_def st_enterScope_def symbolTable0_def tcInv_def table_inv_def)

text \<open>After the first pass: the same scope is open, nothing is reported, the class edges are the module's.\<close>

lemma first_pass_run:
  assumes "s = opened (mkTypeChecker order fn first) p"
  obtains u s1 where "tcDo (map registerStmt (pr_statements p)) s = (Value u, s1)"
    and "registered (programEdges p) s s1" and "acyclic (programEdges p) \<Longrightarrow> hierarchy (tc_classTable s1)"
proof -
  obtain o1 s1 where run: "tcDo (map registerStmt (pr_statements p)) s = (o1, s1)"
    by fastforce
  have inv: "tcInv s"
    using assms opened_start by blast
  have "o1 = Value () \<and> registered (programEdges p) s s1"
  proof (cases o1)
    case (Value u)
    then show ?thesis
      using first.lawful_value [OF first_pass inv] run by auto
  next
    case (Thrown d)
    then show ?thesis
      using first.lawful_thrown [OF first_pass inv] run by auto
  next
    case Endless
    then show ?thesis
      using first.lawful_endless [OF first_pass inv] run by auto
  qed
  moreover have "tc_classTable s = Map.empty"
    by (simp add: assms opened_def mkTypeChecker_def)
  ultimately have "basesOf (tc_classTable s1) \<subseteq> programEdges p" and "finite (dom (tc_classTable s1))"
    by (auto simp: registered_def basesOf_def)
  then show thesis
    using that [of "()" s1] run \<open>o1 = Value () \<and> registered (programEdges p) s s1\<close>
    by (auto simp: hierarchy_def intro: acyclic_subset)
qed

text \<open>The three ways a run ends, with the state left by the two passes.\<close>

lemma check_ends:
  fixes order fn first p
  defines "s \<equiv> opened (mkTypeChecker order fn first) p"
  obtains (finished) s2 where "extends (tc_symbols s) (tc_symbols s2)" and "tcInv s2"
      and "active_stack (tc_symbols s2) = [0]" and "tc_throwOnFirstError s2 = first"
      and "check p (mkTypeChecker order fn first) =
        rethrowFirst (s2\<lparr>tc_symbols := st_exitScope (n_endLine (pr_node p)) (tc_symbols s2)\<rparr>)"
    | (aborted) d s2 where "extends (tc_symbols s) (tc_symbols s2)" and "tcInv s2"
      and "check p (mkTypeChecker order fn first) = (Thrown d, s2)"
    | (endless) s2 where "extends (tc_symbols s) (tc_symbols s2)" and "tcInv s2"
      and "\<not> acyclic (programEdges p)" and "check p (mkTypeChecker order fn first) = (Endless, s2)"
proof -
  let ?first = "tcDo (map registerStmt (pr_statements p))" and ?second = "checkStmtList (pr_statements p)"
  have s: "s = opened (mkTypeChecker order fn first) p"
    by (simp add: s_def)
  have stack: "active_stack (tc_symbols s) = [0]" and mode: "tc_throwOnFirstError s = first"
    by (simp_all add: s opened_start) (simp add: opened_def mkTypeChecker_def)
  obtain u s1 where run1: "?first s = (Value u, s1)" and reg: "registered (programEdges p) s s1"
    and hier: "acyclic (programEdges p) \<Longrightarrow> hierarchy (tc_classTable s1)"
    using first_pass_run [OF s] by blast
  have inv1: "tcInv s1" and stack1: "active_stack (tc_symbols s1) = active_stack (tc_symbols s)"
    and ext1: "extends (tc_symbols s) (tc_symbols s1)"
    using reg by (simp_all add: registered_def)
  obtain o2 s2 where run2: "?second s1 = (o2, s2)"
    by fastforce
  have runs: "tcDo [?first, ?second] s = (o2, s2)"
    by (simp add: tcDo_two run1 run2)
  have grown: "grown s1 s2 \<Longrightarrow> extends (tc_symbols s) (tc_symbols s2) \<and> tcInv s2"
    using ext1 stack1 by (auto simp: grown_def intro: extends_trans)
  note law = stmt.lawful_stmts [of "pr_statements p"]
  show thesis
  proof (cases o2)
    case (Value v)
    have "settled s1 s2"
      using stmt.lawful_value [OF law inv1] run2 Value by blast
    then show thesis
      using finished [of s2] grown stack stack1 mode reg runs Value
      by (auto simp: settled_def grown_def tcTables_def registered_def check_run s)
  next
    case (Thrown d)
    have "grown s1 s2"
      using stmt.lawful_thrown [OF law inv1] run2 Thrown by blast
    then show thesis
      using aborted [of s2 d] grown runs Thrown by (simp add: check_run s)
  next
    case Endless
    have "loops s1 s2"
      using stmt.lawful_endless [OF law inv1] run2 Endless by blast
    then show thesis
      using endless [of s2] grown hier runs Endless by (auto simp: check_run s loops_def)
  qed
qed

text \<open>
  C14. A run of the checker that returns has closed every scope and, when it is to throw, has found no error.
  One that throws has either visited everything, and throws the first error it recorded, or was cut off
  inside a scope by a statement. It fails to return only if some class of the module is among its own
  bases, directly or through others.
\<close>

theorem check_outcome:
  "case check p (mkTypeChecker order fn first) of
     (Value u, st) \<Rightarrow> active_stack (tc_symbols st) = [] \<and> (if first then tc_errors st = [] else True)
   | (Thrown d, st) \<Rightarrow>
       if active_stack (tc_symbols st) = [] then first \<and> (\<exists>ds. tc_errors st = d # ds)
       else 0 \<in> set (active_stack (tc_symbols st))
   | (Endless, st) \<Rightarrow> (\<exists>c. (c, c) \<in> (programEdges p)\<^sup>+)"
proof (cases rule: check_ends [of order fn first p])
  case (finished s2)
  then show ?thesis
    by (cases "tc_errors s2") (auto simp: rethrowFirst_def st_exitScope_def)
next
  case (aborted d s2)
  then have "suffix [0] (active_stack (tc_symbols s2))"
    by (simp add: extends_def opened_start)
  then show ?thesis
    using aborted by (auto dest: set_mono_suffix)
next
  case (endless s2)
  then show ?thesis
    by (auto simp: acyclic_def)
qed

text \<open>
  C15. A module in which no class is, directly or through others, among its own bases is always checked in
  finitely many steps: the checker returns or throws.
\<close>

theorem check_terminates:
  assumes "acyclic (programEdges p)"
  shows "fst (check p (mkTypeChecker order fn first)) \<noteq> Endless"
proof (cases rule: check_ends [of order fn first p])
  case (endless s2)
  then show ?thesis
    using assms by simp
qed (simp_all add: rethrowFirst_def)

definition exampleClass :: "string \<Rightarrow> string option \<Rightarrow> Stmt" where
  "exampleClass c base = ClassDef node0 (ClassHead c base [] [] [] []) [PassStmt node0]"

theorem check_terminates_witness:
  "fst (check (Program node0 [exampleClass ''A'' None, exampleClass ''B'' (Some ''A'')])
      (mkTypeChecker (\<lambda>_. []) ''m.vsl'' True)) \<noteq> Endless"
proof (rule check_terminates)
  have "programEdges (Program node0 [exampleClass ''A'' None, exampleClass ''B'' (Some ''A'')]) = {(''A'', ''B'')}"
    by (auto simp: programEdges_def stmtEdges_def classEdges_def exampleClass_def)
  then show "acyclic (programEdges (Program node0 [exampleClass ''A'' None, exampleClass ''B'' (Some ''A'')]))"
    by (simp add: acyclic_insert) (simp add: acyclic_def)
qed

text \<open>
  C16. However a run ends, the registry holds the file scope first, with no parent, and every other scope
  after the one it was opened in.
\<close>

theorem check_scopes:
  "\<exists>ps. map parentIndex (all_scopes (tc_symbols (snd (check p (mkTypeChecker order fn first))))) = - 1 # ps \<and>
     list_all2 (\<lambda>parent i. 0 \<le> parent \<and> parent < int i) ps [1..<Suc (length ps)]"
proof -
  let ?s = "opened (mkTypeChecker order fn first) p"
  have tree: "\<exists>ps. map parentIndex (all_scopes t) = - 1 # ps \<and>
      list_all2 (\<lambda>parent i. 0 \<le> parent \<and> parent < int i) ps [1..<Suc (length ps)]"
    if inv: "table_inv t" and ext: "extends (tc_symbols ?s) t" for t
  proof -
    have start: "length (all_scopes (tc_symbols ?s)) = 1" and root: "parentIndex (all_scopes (tc_symbols ?s) ! 0) = - 1"
      and stack: "active_stack (tc_symbols ?s) \<noteq> []"
      by (simp_all add: opened_def mkTypeChecker_def st_enterScope_def symbolTable0_def)
    obtain x xs where scopes: "all_scopes t = x # xs"
      using ext start by (cases "all_scopes t") (auto simp: extends_def)
    have "parentIndex x = - 1"
      using ext start root scopes by (auto simp: extends_def)
    moreover have "0 \<le> parentIndex (xs ! i) \<and> parentIndex (xs ! i) < 1 + int i" if "i < length xs" for i
      using ext inv start stack scopes that unfolding extends_def table_inv_def
      by (auto dest: spec [of _ "Suc i"])
    ultimately show ?thesis
      using scopes by (auto simp: list_all2_conv_all_nth simp del: upt_Suc)
  qed
  show ?thesis
  proof (cases rule: check_ends [of order fn first p])
    case (finished s2)
    then have "map parentIndex (all_scopes (st_exitScope e (tc_symbols s2))) = map parentIndex (all_scopes (tc_symbols s2))" for e
      by (cases "all_scopes (tc_symbols s2)") (auto simp: st_exitScope_def)
    then show ?thesis
      using tree [of "tc_symbols s2"] finished by (simp add: rethrowFirst_def tcInv_def)
  qed (use tree in \<open>auto simp: tcInv_def\<close>)
qed

end
