(* ===== verification/Check_Examples.thy ===== *)
theory Check_Examples
  imports Check_Typing
begin

text \<open>
  Runs of the type checker on small modules, evaluated in the logic: programs it accepts or rejects
  against what its messages and documentation say.
\<close>

section \<open>Evaluation\<close>

lemmas tc_monad =
  tcRet_def tcBind_def tcGet_def tcModify_def tcAnswer_def tcThrow_def tcWhen_def tcDo_def tcLocally_def
  inScope_def declareAll_def optVisit_def tcErrorHint_def tcError_def enterScope_def exitScope_def
  tcDeclare_def resolveIn_def tcResolve_def tcAssignable_def annotated_def

lemmas tc_tables =
  st_enterScope_def st_exitScope_def st_declare_def st_isDeclared_def st_lookup_def st_allNames_def
  symbolTable0_def mkTypeChecker_def node0_def

lemmas tc_visitors =
  isBuiltinFunction_def builtinFunctions_def undefinedHint_def bestCandidate_def tcLookup_def isUnknown_def
  checkReturn_def setReturnType_def enterFunction_def leaveFunction_def missingReturn_def checkFunc_def
  stmtListHasReturn_def declareParam_def nullTest_def narrowing_def declareNarrowed_def checkIf_def checkTry_def
  catchClause_def checkAssert_def checkFor_def checkCall_def builtinCall_def ordinaryCall_def callFunction_def
  plainCall_def checkArity_def arityError_def checkArg_def nonEmpty_def checkStmtList_def restoreTypeParams_def
  withTypeParams_def registerFunc_def registerStmt_def requiredArgs_def rethrowFirst_def check_def checkList_def

lemma resolve_int: "resolveTypeName [] isI ''int'' = IntT"
  by (subst resolveTypeName.simps)
    (simp add: chanPrefix_def functionParts_def bracketed_def simpleType_def)

lemma assignable_same: "isAssignableTo ct t t = Some True"
  by (simp add: isAssignableTo.simps [of ct t t])

lemma showNat_args: "showNat (Suc 0) = ''1''" "showNat (Suc (Suc 0)) = ''2''"
  by code_simp+

section \<open>Modules\<close>

definition funcDef :: "string \<Rightarrow> Param list \<Rightarrow> string \<Rightarrow> Stmt list \<Rightarrow> Stmt" where
  "funcDef f ps ret body = FuncDef node0 (FuncHead f [] [] ps ret [] False '''' False) body"

definition callTo :: "string \<Rightarrow> Expr list \<Rightarrow> Stmt" where
  "callTo f args = ExprStmt node0 (CallExpr node0 (Identifier node0 f) args [])"

definition returnOne :: Stmt where
  "returnOne = ReturnStmt node0 (Some (IntLiteral node0 1))"

text \<open>The messages recorded by a run that collects its errors, and the outcome of one that does not.\<close>

definition messages :: "Stmt list \<Rightarrow> string list" where
  "messages ss =
     map d_message (tc_errors (snd (check (Program node0 ss) (mkTypeChecker (\<lambda>_. []) ''m.vsl'' False))))"

definition collects :: "Stmt list \<Rightarrow> unit outcome" where
  "collects ss = fst (check (Program node0 ss) (mkTypeChecker (\<lambda>_. []) ''m.vsl'' False))"

lemmas module_defs = messages_def collects_def funcDef_def callTo_def mkTypeError_def

lemma return_one:
  "hasReturn returnOne"
  "tc_hasExplicitReturnType st \<Longrightarrow> tc_currentReturnType st = IntT \<Longrightarrow> checkStmt returnOne st = (Value (), st)"
  "registerStmt returnOne = tcSkip"
  by (simp_all add: returnOne_def checkReturn_def registerStmt_def tc_monad assignable_same isUnknown_def)

text \<open>
  A function that returns a value only in the then-branch of an if is accepted, one that returns in a
  try and in its catch clause is reported for a missing return. A call of a function defined inside
  another, the second variable of a loop, and the second argument of a call of a variadic function are
  reported as errors. A checker that is to collect its errors throws one for an assertion of an integer.
\<close>

theorem checker_gaps:
  "messages [funcDef ''f'' [] ''int'' [IfStmt node0 (BoolLiteral node0 True) [returnOne] [] []]] = [] \<and>
   messages [funcDef ''f'' [] ''int'' [TryStmt node0 [returnOne] [CatchClause '''' '''' [returnOne]] []]] =
     [''function '' @ quoted ''f'' @ '' missing return statement; return type is '' @ quoted ''int''] \<and>
   messages [funcDef ''f'' [] '''' [funcDef ''g'' [] '''' [PassStmt node0], callTo ''g'' []]] =
     [''Undefined variable '' @ quoted ''g''] \<and>
   messages [ForStmt node0 ''k'' [''v''] (ListExpr node0 []) [ExprStmt node0 (Identifier node0 ''v'')] []] =
     [''Undefined variable '' @ quoted ''v''] \<and>
   messages [funcDef ''f'' [Param ''xs'' '''' None True False] '''' [PassStmt node0],
       callTo ''f'' [IntLiteral node0 1, IntLiteral node0 2]] =
     [''Function '' @ quoted ''f'' @ '' expects 1 argument(s), got 2''] \<and>
   collects [AssertStmt node0 (IntLiteral node0 1) None] =
     Thrown (mkTypeError (''Assert condition must be bool, got '' @ quoted ''int'') ''m.vsl'' 0 0 '''' 0 0)"
  by (intro conjI; simp add: module_defs tc_monad tc_tables tc_visitors Let_def resolve_int return_one
      showNat_args)

end
