(* ===== verification/Check_Accepts.thy ===== *)
theory Check_Accepts
  imports Check_Typing
begin

text \<open>
  A typing judgement for the expressions that open no scope, and its agreement with the type checker: an
  expression that has a type by the rules gets this type, without an error and without a change of the
  checker's state.
\<close>

section \<open>The judgement\<close>

text \<open>The built-in functions whose calls are treated before the callee is looked up.\<close>

definition specialCalls :: "string set" where
  "specialCalls = {''map'', ''filter'', ''isinstance'', ''input'', ''make_chan'', ''len''}"

definition passable :: "classTable \<Rightarrow> Type \<Rightarrow> Type \<Rightarrow> bool" where
  "passable ct t p \<longleftrightarrow> isUnknown p \<or> isUnknown t \<or> isAssignableTo ct t p = Some True"

text \<open>
  The parameters are the class table, the functions that may be called with a number of arguments for a
  number of parameters, and the types of the names in scope.
\<close>

inductive typed :: "classTable \<Rightarrow> (string \<Rightarrow> nat \<Rightarrow> nat \<Rightarrow> bool) \<Rightarrow> (string \<rightharpoonup> Type) \<Rightarrow> Expr \<Rightarrow> Type \<Rightarrow> bool"
  for ct callable env where
  t_int: "typed ct callable env (IntLiteral n i) IntT"
| t_float: "typed ct callable env (FloatLiteral n d) FloatT"
| t_str: "typed ct callable env (StringLiteral n s) StrT"
| t_bool: "typed ct callable env (BoolLiteral n b) BoolT"
| t_null: "typed ct callable env (NullLiteral n) NullT"
| t_name: "env x = Some t \<Longrightarrow> typed ct callable env (Identifier n x) t"
| t_arith: "typed ct callable env l lt \<Longrightarrow> typed ct callable env r rt \<Longrightarrow> lt \<in> {IntT, FloatT} \<Longrightarrow> rt \<in> {IntT, FloatT} \<Longrightarrow>
    op \<in> {Add, Sub, Mul, Div, Mod, Pow} \<Longrightarrow>
    typed ct callable env (BinaryExpr n op l r) (if lt = IntT \<and> rt = IntT then IntT else FloatT)"
| t_concat: "typed ct callable env l StrT \<Longrightarrow> typed ct callable env r StrT \<Longrightarrow>
    typed ct callable env (BinaryExpr n Add l r) StrT"
| t_intDiv: "typed ct callable env l lt \<Longrightarrow> typed ct callable env r rt \<Longrightarrow> lt \<in> {IntT, FloatT} \<Longrightarrow> rt \<in> {IntT, FloatT} \<Longrightarrow>
    typed ct callable env (BinaryExpr n IntDiv l r) IntT"
| t_equal: "typed ct callable env l lt \<Longrightarrow> typed ct callable env r rt \<Longrightarrow> lt = rt \<or> lt = NullT \<or> rt = NullT \<Longrightarrow>
    op \<in> {Eq, Neq} \<Longrightarrow> typed ct callable env (BinaryExpr n op l r) BoolT"
| t_compare: "typed ct callable env l lt \<Longrightarrow> typed ct callable env r rt \<Longrightarrow> lt \<in> {IntT, FloatT} \<Longrightarrow> rt \<in> {IntT, FloatT} \<Longrightarrow>
    op \<in> {Eq, Neq, Lt, Gt, Lte, Gte} \<Longrightarrow> typed ct callable env (BinaryExpr n op l r) BoolT"
| t_order: "typed ct callable env l StrT \<Longrightarrow> typed ct callable env r StrT \<Longrightarrow> op \<in> {Lt, Gt, Lte, Gte} \<Longrightarrow>
    typed ct callable env (BinaryExpr n op l r) BoolT"
| t_logic: "typed ct callable env l lt \<Longrightarrow> typed ct callable env r rt \<Longrightarrow> op \<in> {And, Or, In, NotIn} \<Longrightarrow>
    typed ct callable env (BinaryExpr n op l r) BoolT"
| t_bits: "typed ct callable env l lt \<Longrightarrow> typed ct callable env r rt \<Longrightarrow> lt \<in> {IntT, BoolT} \<Longrightarrow> rt \<in> {IntT, BoolT} \<Longrightarrow>
    op \<in> {BitAnd, BitOr, BitXor, Shl, Shr} \<Longrightarrow> typed ct callable env (BinaryExpr n op l r) IntT"
| t_coalesce: "typed ct callable env l lt \<Longrightarrow> typed ct callable env r rt \<Longrightarrow>
    typed ct callable env (BinaryExpr n NullCoalesce l r) rt"
| t_neg: "typed ct callable env e t \<Longrightarrow> t \<in> {IntT, FloatT} \<Longrightarrow> typed ct callable env (UnaryExpr n Neg e) t"
| t_bitNot: "typed ct callable env e IntT \<Longrightarrow> typed ct callable env (UnaryExpr n BitNot e) IntT"
| t_not: "typed ct callable env e t \<Longrightarrow> typed ct callable env (UnaryExpr n Not e) BoolT"
| t_ternary: "typed ct callable env c b \<Longrightarrow> typed ct callable env e t \<Longrightarrow> typed ct callable env e' t \<Longrightarrow>
    typed ct callable env (TernaryExpr n c e e') t"
| t_list: "es \<noteq> [] \<Longrightarrow> \<forall>e\<in>set es. typed ct callable env e t \<Longrightarrow> typed ct callable env (ListExpr n es) (ListType t)"
| t_nil: "typed ct callable env (ListExpr n []) (ListType UnknownT)"
| t_dict: "kvs \<noteq> [] \<Longrightarrow> \<forall>p\<in>set kvs. typed ct callable env (fst p) k \<and> typed ct callable env (snd p) v \<Longrightarrow>
    typed ct callable env (DictExpr n kvs) (DictType k v)"
| t_tuple: "list_all2 (typed ct callable env) es ts \<Longrightarrow> typed ct callable env (TupleExpr n es) (TupleType ts)"
| t_index: "typed ct callable env e et \<Longrightarrow> typed ct callable env i it \<Longrightarrow>
    et = ListType t \<or> et = DictType k t \<or> et = StrT \<and> t = StrT \<Longrightarrow>
    typed ct callable env (IndexExpr n e i) t"
| t_member: "typed ct callable env e (ClassType c) \<Longrightarrow> ct c = Some info \<Longrightarrow> m \<in> set (cl_methods info) \<Longrightarrow>
    distinct (map mi_name (cl_methods info)) \<Longrightarrow>
    typed ct callable env (MemberExpr n e (mi_name m)) (FuncType (mi_name m) (mi_returnType m) (mi_paramTypes m))"
| t_call: "typed ct callable env c (FuncType f ret ps) \<Longrightarrow> list_all2 (typed ct callable env) args ts \<Longrightarrow>
    list_all2 (passable ct) ts (take (length ts) ps) \<Longrightarrow> length ts \<le> length ps \<Longrightarrow> callable f (length ts) (length ps) \<Longrightarrow>
    (\<forall>x. calleeName c = Some x \<longrightarrow> x \<notin> specialCalls) \<Longrightarrow>
    typed ct callable env (CallExpr n c args []) ret"
| t_construct: "typed ct callable env c (ClassType d) \<Longrightarrow> list_all2 (typed ct callable env) args ts \<Longrightarrow>
    (\<forall>x. calleeName c = Some x \<longrightarrow> x \<notin> specialCalls) \<Longrightarrow>
    typed ct callable env (CallExpr n c args []) (ClassType d)"
| t_len: "typed ct callable env e t \<Longrightarrow>
    typed ct callable env (CallExpr n (Identifier m ''len'') [e] []) IntT"

section \<open>Agreement with the checker\<close>

text \<open>A state whose names, classes and functions are those of the judgement.\<close>

definition agrees :: "classTable \<Rightarrow> (string \<Rightarrow> nat \<Rightarrow> nat \<Rightarrow> bool) \<Rightarrow> (string \<rightharpoonup> Type) \<Rightarrow> TC \<Rightarrow> bool" where
  "agrees ct callable env st \<longleftrightarrow> tc_classTable st = ct \<and>
     (\<forall>x t. env x = Some t \<longrightarrow> st_isDeclared (tc_symbols st) x \<and> st_lookup (tc_symbols st) x = t) \<and>
     (\<forall>f k e. callable f k e \<longrightarrow> tc_funcTypeParams st f \<in> {None, Some []} \<and>
        (case tc_funcMinArgs st f of Some m \<Rightarrow> m \<le> k | None \<Rightarrow> e \<le> k))"

lemma seq_values: "list_all2 (\<lambda>m t. m st = (Value t, st)) ms ts \<Longrightarrow> tcSeq ms st = (Value ts, st)"
  by (induction ms ts rule: list_all2_induct) (simp_all add: tcRet_def tcBind_def)

lemma unify_same: "unify t t n = tcRet t"
  by (simp add: unify_def)

lemma unifyAll_same: "\<forall>m\<in>set ms. m st = (Value t, st) \<Longrightarrow> unifyAll t ms n st = (Value t, st)"
  by (induction ms) (simp_all add: tcRet_def tcBind_def unify_same)

lemma unifyEntries_same:
  "\<forall>p\<in>set ms. fst p st = (Value k, st) \<and> snd p st = (Value v, st) \<Longrightarrow>
   unifyEntries k v ms n st = (Value (DictType k v), st)"
  by (induction ms) (auto simp: tcRet_def tcBind_def unify_same)

lemma ordinary_calls:
  "\<forall>x. calleeName c = Some x \<longrightarrow> x \<notin> specialCalls \<Longrightarrow>
   checkCall c visit args typeArgs n = ordinaryCall c visit args typeArgs n"
  by (cases "calleeName c") (auto simp: checkCall_def builtinCall_def specialCalls_def)

lemma passes_args:
  "list_all2 (passable ct) ts ps \<Longrightarrow> tc_classTable st = ct \<Longrightarrow>
   list_all2 (\<lambda>m u. m st = (Value u, st)) (map (checkArg f n) (zip ps ts)) (replicate (length ts) ())"
  by (induction ts ps rule: list_all2_induct)
    (auto simp: checkArg_def Let_def passable_def tcRet_def tcBind_def tcAssignable_def tcGet_def tcAnswer_def
      tcWhen_def)

lemma zip_take_left: "length ts \<le> length ps \<Longrightarrow> zip ps ts = zip (take (length ts) ps) ts"
  by (induction ts ps rule: list_induct2') auto

lemma find_method: "m \<in> set ms \<Longrightarrow> distinct (map mi_name ms) \<Longrightarrow> find (\<lambda>m'. mi_name m' = mi_name m) ms = Some m"
  by (induction ms) (auto simp: image_iff)


lemma lists_values:
  assumes "list_all2 (\<lambda>e t. typed ct callable env e t \<and> (agrees ct callable env st \<longrightarrow> checkExpr e st = (Value t, st))) es ts"
    and "agrees ct callable env st"
  shows "tcSeq (map checkExpr es) st = (Value ts, st)"
  using assms by (intro seq_values) (auto simp: list_all2_map1 elim!: list_all2_mono)

lemma call_value:
  assumes "agrees ct callable env st" and "callable f (length ts) (length ps)" and "length ts \<le> length ps"
    and "list_all2 (passable ct) ts (take (length ts) ps)"
  shows "callFunction f ret ps ts [] n st = (Value ret, st)"
proof -
  have plain: "callFunction f ret ps ts [] n st = plainCall f ret ps ts n st"
  proof -
    have "tc_funcTypeParams st f \<in> {None, Some []}"
      using assms(1,2) by (simp add: agrees_def)
    then show ?thesis
      by (auto simp: callFunction_def tcBind_def tcGet_def)
  qed
  have "checkArity f (length ps) (length ts) n st = (Value (), st)"
  proof -
    have "case tc_funcMinArgs st f of Some m \<Rightarrow> m \<le> length ts | None \<Rightarrow> length ps \<le> length ts"
      using assms(1,2) by (simp add: agrees_def)
    then show ?thesis
      using assms(3) by (simp add: checkArity_def tcBind_def tcGet_def tcWhen_def tcRet_def split: option.splits)
  qed
  moreover have "tcSeq (map (checkArg f n) (zip ps ts)) st = (Value (replicate (length ts) ()), st)"
    using assms by (subst zip_take_left) (auto intro!: seq_values passes_args simp: agrees_def)
  ultimately show ?thesis
    by (simp add: plain plainCall_def tcBind_def tcRet_def)
qed

lemma typed_value:
  assumes "typed ct callable env e t" and "agrees ct callable env st"
  shows "checkExpr e st = (Value t, st)"
  using assms
proof (induction rule: typed.induct)
  case (t_name x t n)
  then show ?case
    by (simp add: agrees_def tcLookup_def tcBind_def tcGet_def)
next
  case (t_list es t n)
  then show ?case
    by (cases es) (simp_all add: checkList_def tcBind_def tcRet_def unifyAll_same)
next
  case (t_dict kvs k v n)
  then show ?case
    by (cases kvs) (auto simp: checkDict_def tcBind_def tcRet_def intro!: unifyEntries_same, force+)
next
  case (t_tuple es ts n)
  then have "tcSeq (map checkExpr es) st = (Value ts, st)"
    by (intro lists_values) auto
  then show ?case
    by (simp add: tcBind_def tcRet_def)
next
  case (t_member e c info m n)
  then show ?case
    by (simp add: agrees_def memberType_def findMethod_def find_method methodType_def tcBind_def tcGet_def)
next
  case (t_call c f ret ps args ts n)
  then have "tcSeq (map checkExpr args) st = (Value ts, st)"
    by (intro lists_values) auto
  then show ?case
    using t_call by (simp add: ordinary_calls ordinaryCall_def tcBind_def call_value)
next
  case (t_construct c d args ts n)
  then have "tcSeq (map checkExpr args) st = (Value ts, st)"
    by (intro lists_values) auto
  then show ?case
    using t_construct by (simp add: ordinary_calls ordinaryCall_def tcBind_def tcRet_def)
next
  case (t_len e t n m)
  then show ?case
    by (simp add: checkCall_def builtinCall_def tcBind_def tcRet_def tcWhen_def)
qed (auto simp: tcBind_def tcRet_def arithmeticType_def bitwiseType_def equalityType_def orderType_def isBitwise_def
    promoteNumeric_def unify_same checkList_def tcWhen_def)

text \<open>
  C18. An expression that has a type by the rules, over the names, classes and functions of the checker's
  state, has that type for the checker, which records no error and leaves its state as it was.
\<close>

theorem typed_accepted:
  assumes "typed (tc_classTable st) callable env e t" and "agrees (tc_classTable st) callable env st"
  shows "checkExpr e st = (Value t, st)"
  using assms by (rule typed_value)

theorem typed_accepted_witness:
  "checkExpr (BinaryExpr node0 Add (IntLiteral node0 1) (CallExpr node0 (Identifier node0 ''len'') [StringLiteral node0 ''a''] []))
     (mkTypeChecker (\<lambda>_. []) ''m.vsl'' True) = (Value IntT, mkTypeChecker (\<lambda>_. []) ''m.vsl'' True)"
proof (rule typed_accepted)
  let ?typed = "typed (tc_classTable (mkTypeChecker (\<lambda>_. []) ''m.vsl'' True)) (\<lambda>_ _ _. False) Map.empty"
  have "?typed (CallExpr node0 (Identifier node0 ''len'') [StringLiteral node0 ''a''] []) IntT"
    by (rule t_len) (rule t_str)
  then have "?typed (BinaryExpr node0 Add (IntLiteral node0 1)
      (CallExpr node0 (Identifier node0 ''len'') [StringLiteral node0 ''a''] []))
      (if IntT = IntT \<and> IntT = IntT then IntT else FloatT)"
    by (intro t_arith t_int) auto
  then show "?typed (BinaryExpr node0 Add (IntLiteral node0 1)
      (CallExpr node0 (Identifier node0 ''len'') [StringLiteral node0 ''a''] [])) IntT"
    by simp
qed (simp add: agrees_def)

end
