(* ===== verification/Frontend.thy ===== *)
theory Frontend
  imports Parser_Props Capture_Props Class_Analyzer Escape_Analyzer Check_Props
begin

text \<open>
  The front end as one function (\<^verbatim>\<open>compileFrontend\<close> in \<^verbatim>\<open>src/visuall_compile.cpp\<close>): lexer, parser, the
  three analyses, the type checker. What one stage guarantees is what the next relies on.
\<close>

section \<open>The pipeline\<close>

record FrontendResult =
  fr_program :: Program
  fr_classFields :: ClassInfo
  fr_escapeInfo :: "nat \<rightharpoonup> bool"

text \<open>
  What ends a compilation without a result: an error of lexer or parser (or what the model of the parser
  calls undefined), an error of the type checker, a type checker that does not return.
\<close>

datatype failure = SyntaxFailure exn | TypeFailure Diagnostic | EndlessFailure

text \<open>The orders in which hash containers are traversed: of sets of names, of the classes, of maps to types.\<close>

record HashOrders =
  ho_names :: "names \<Rightarrow> string list"
  ho_classes :: "classDefs \<Rightarrow> string list"
  ho_types :: "(string \<rightharpoonup> Type) \<Rightarrow> string list"

definition compileFrontend :: "HashOrders \<Rightarrow> string \<Rightarrow> string \<Rightarrow> failure + FrontendResult" where
  "compileFrontend ho source filename =
     (case parseSource source filename of
        Inl e \<Rightarrow> Inl (SyntaxFailure e)
      | Inr parsed \<Rightarrow>
          let program = fst (analyzeCaptures (ho_names ho) parsed cap0);
              classes = analyzeClasses (ho_classes ho (fst (collectClasses (pr_statements program) classInfo0)))
                program classInfo0;
              escapes = analyzeEscapes program esc0
          in case check program (mkTypeChecker (ho_types ho) filename True) of
               (Check_Base.Thrown d, _) \<Rightarrow> Inl (TypeFailure d)
             | (Endless, _) \<Rightarrow> Inl EndlessFailure
             | (Value _, _) \<Rightarrow>
                 Inr \<lparr>fr_program = program, fr_classFields = classes, fr_escapeInfo = stackAllocatable escapes\<rparr>)"

section \<open>What the capture analysis leaves to the later stages\<close>

lemma analyzed_stmt:
  "stmtNode (fst (analyzeStmt iter s st)) = stmtNode s \<and> stmtEdges (fst (analyzeStmt iter s st)) = stmtEdges s"
  by (cases s) (simp_all add: Let_def split_beta stmtEdges_def)

lemma analyzed_list:
  "list_all2 (\<lambda>s s'. stmtNode s' = stmtNode s \<and> stmtEdges s' = stmtEdges s) ss (fst (analyzeStmtList iter ss st))"
proof -
  have "list_all2 (\<lambda>s s'. stmtNode s' = stmtNode s \<and> stmtEdges s' = stmtEdges s) ss
      (fst (visitAll (map (analyzeStmt iter) ss) st))" for st
    by (induction ss arbitrary: st) (simp_all add: split_beta analyzed_stmt)
  then show ?thesis
    by (simp add: analyzeStmtList_def walkList_def)
qed

lemma analyzed_program:
  obtains ss where "fst (analyzeCaptures iter p st) = Program (pr_node p) ss"
    and "list_all2 (\<lambda>s s'. stmtNode s' = stmtNode s \<and> stmtEdges s' = stmtEdges s) (pr_statements p) ss"
  using analyzed_list that by (simp add: analyzeCaptures_def Let_def split_beta)

lemma analyzed_edges: "programEdges (fst (analyzeCaptures iter p st)) = programEdges p"
proof -
  obtain ss where "fst (analyzeCaptures iter p st) = Program (pr_node p) ss"
    and rel: "list_all2 (\<lambda>s s'. stmtNode s' = stmtNode s \<and> stmtEdges s' = stmtEdges s) (pr_statements p) ss"
    by (rule analyzed_program)
  moreover have "map stmtEdges ss = map stmtEdges (pr_statements p)"
    using rel by (induction rule: list_all2_induct) simp_all
  then have "stmtEdges ` set ss = stmtEdges ` set (pr_statements p)"
    by (metis list.set_map)
  ultimately show ?thesis
    by (simp add: programEdges_def)
qed

lemma analyzed_ended: "list_all ended (pr_statements p) \<Longrightarrow> list_all ended (pr_statements (fst (analyzeCaptures iter p st)))"
proof -
  assume ended: "list_all ended (pr_statements p)"
  obtain ss where ss: "fst (analyzeCaptures iter p st) = Program (pr_node p) ss"
    and "list_all2 (\<lambda>s s'. stmtNode s' = stmtNode s \<and> stmtEdges s' = stmtEdges s) (pr_statements p) ss"
    by (rule analyzed_program)
  then have "list_all ended ss"
    using ended by (auto simp: list_all2_conv_all_nth list_all_length ended_def)
  then show ?thesis
    by (simp add: ss)
qed


section \<open>What a compilation yields\<close>

text \<open>
  C20. A compilation that ends without a result ends with an error of the lexer, of the parser or of the type
  checker, or in the null dereference of the conditional expression. It runs on for ever only in the type
  checker, and then some class of the module is among its own bases. One with a result has parsed the whole
  text, its tree is the parsed one but for the captures, which do not depend on the order in which sets
  are traversed, each of its top-level statements has an end, and the type checker finds no error in it.
\<close>

theorem compileFrontend_result:
  assumes "enumerates (ho_names ho)"
  shows "case compileFrontend ho src f of
      Inr r \<Rightarrow>
        (case parseSource src f of
           Inr p \<Rightarrow> fr_program r = fst (analyzeCaptures sorted_list_of_set p cap0) \<and>
             list_all ended (pr_statements (fr_program r)) \<and>
             programEdges (fr_program r) = programEdges p \<and>
             tc_errors (snd (check (fr_program r) (mkTypeChecker (ho_types ho) f True))) = []
         | Inl e \<Rightarrow> False)
    | Inl (SyntaxFailure e) \<Rightarrow> parseSource src f = Inl e \<and> benign e
    | Inl (TypeFailure d) \<Rightarrow> (case parseSource src f of Inr p \<Rightarrow> True | Inl e \<Rightarrow> False)
    | Inl EndlessFailure \<Rightarrow>
        (case parseSource src f of Inr p \<Rightarrow> (\<exists>c. (c, c) \<in> (programEdges p)\<^sup>+) | Inl e \<Rightarrow> False)"
proof (cases "parseSource src f")
  case (Inl e)
  then show ?thesis
    using parseSource_ends [of src f] by (simp add: compileFrontend_def)
next
  case (Inr p)
  let ?p = "fst (analyzeCaptures (ho_names ho) p cap0)"
  have order: "?p = fst (analyzeCaptures sorted_list_of_set p cap0)"
    using analyzeStmtList_order [OF assms enumerates_sorted] by (simp add: analyzeCaptures_def Let_def split_beta)
  have ended: "list_all ended (pr_statements ?p)"
    using parseSource_ends [of src f] Inr by (simp add: analyzed_ended)
  show ?thesis
  proof (cases rule: check_ends [of "ho_types ho" f True ?p])
    case (finished s2)
    then show ?thesis
      using Inr order ended
      by (cases "tc_errors s2") (auto simp: compileFrontend_def Let_def rethrowFirst_def analyzed_edges)
  next
    case (aborted d s2)
    then show ?thesis
      using Inr by (simp add: compileFrontend_def Let_def)
  next
    case (endless s2)
    then show ?thesis
      using Inr by (auto simp: compileFrontend_def Let_def acyclic_def analyzed_edges)
  qed
qed

definition exampleOrders :: HashOrders where
  "exampleOrders = \<lparr>ho_names = sorted_list_of_set, ho_classes = map fst, ho_types = (\<lambda>_. [])\<rparr>"

theorem compileFrontend_result_witness:
  "case compileFrontend exampleOrders (''x = y'' @ [LF]) ''m.vsl'' of
     Inr r \<Rightarrow> list_all ended (pr_statements (fr_program r))
   | Inl (SyntaxFailure e) \<Rightarrow> False
   | Inl (TypeFailure d) \<Rightarrow> True
   | Inl EndlessFailure \<Rightarrow> False"
proof -
  have parsed: "\<exists>p. parseSource (''x = y'' @ [LF]) ''m.vsl'' = Inr p \<and> programEdges p = {}"
    by (simp add: parseSource_def lex_example [simplified] parse_example programEdges_def stmtEdges_def)
  have "enumerates (ho_names exampleOrders)"
    by (simp add: exampleOrders_def enumerates_sorted)
  from compileFrontend_result [OF this, of "''x = y'' @ [LF]" "''m.vsl''"] parsed show ?thesis
    by (auto split: sum.splits failure.splits)
qed

end
