(* ===== verification/Ptr_Map.thy ===== *)
theory Ptr_Map
  imports Vsl_Prelude "HOL-Library.Monad_Syntax"
begin

text \<open>
  The pointer table of the collector (\<^verbatim>\<open>stdlib/gc.c\<close>): an open-addressing hash map with linear
  probing from user pointers to headers. Pointers are 64-bit words, the key 0 marks an empty slot, and the
  length of the slot list is the capacity, 0 as long as the table is not allocated. A probe of a full table
  would never end, so probing is a partial function; the invariant keeps a slot free.
\<close>

unbundle bit_operations_syntax

section \<open>The table\<close>

type_synonym addr = "64 word"

record PtrMap =
  slots :: "(addr \<times> addr) list"
  psize :: nat

definition noPtrMap :: PtrMap where
  "noPtrMap = \<lparr>slots = [], psize = 0\<rparr>"

abbreviation capOf :: "PtrMap \<Rightarrow> nat" where
  "capOf m \<equiv> length (slots m)"

definition PTR_MAP_INIT_CAP :: nat where
  "PTR_MAP_INIT_CAP = 1024"

definition ptr_hash :: "addr \<Rightarrow> nat \<Rightarrow> nat" where
  "ptr_hash p msk =
     (let h = p XOR drop_bit 16 p;
          h = h * 0x45d9f3b;
          h = h XOR drop_bit 16 h
      in unat (h AND of_nat msk))"

definition nextSlot :: "nat \<Rightarrow> nat \<Rightarrow> nat" where
  "nextSlot msk idx = (idx + 1) AND msk"

partial_function (option) probe :: "(addr \<times> addr \<Rightarrow> bool) \<Rightarrow> (addr \<times> addr) list \<Rightarrow> nat \<Rightarrow> nat option" where
  "probe stop tab idx =
     (if stop (tab ! idx) then Some idx else probe stop tab (nextSlot (length tab - 1) idx))"

declare probe.simps [code]

definition isFree :: "addr \<times> addr \<Rightarrow> bool" where
  "isFree e \<longleftrightarrow> fst e = 0"

definition freeOr :: "addr \<Rightarrow> addr \<times> addr \<Rightarrow> bool" where
  "freeOr k e \<longleftrightarrow> fst e = 0 \<or> fst e = k"

definition zeroed :: "nat \<Rightarrow> (addr \<times> addr) list" where
  "zeroed n = replicate n (0, 0)"

section \<open>The operations\<close>

definition ptr_map_init :: PtrMap where
  "ptr_map_init = \<lparr>slots = zeroed PTR_MAP_INIT_CAP, psize = 0\<rparr>"

definition place :: "addr \<times> addr \<Rightarrow> PtrMap \<Rightarrow> PtrMap option" where
  "place e m = do {
     i \<leftarrow> probe isFree (slots m) (ptr_hash (fst e) (capOf m - 1));
     Some \<lparr>slots = (slots m)[i := e], psize = psize m + 1\<rparr> }"

fun placeAll :: "(addr \<times> addr) list \<Rightarrow> PtrMap \<Rightarrow> PtrMap option" where
  "placeAll [] m = Some m"
| "placeAll (e # es) m = place e m \<bind> placeAll es"

definition rehash :: "nat \<Rightarrow> PtrMap \<Rightarrow> PtrMap option" where
  "rehash cap m = placeAll (filter (\<lambda>e. \<not> isFree e) (slots m))
     \<lparr>slots = zeroed cap, psize = 0\<rparr>"

definition ptr_map_grow :: "PtrMap \<Rightarrow> PtrMap option" where
  "ptr_map_grow m = rehash (capOf m * 2) m"

definition ptr_map_insert :: "addr \<Rightarrow> addr \<Rightarrow> PtrMap \<Rightarrow> PtrMap option" where
  "ptr_map_insert key hdr m = do {
     let m = (if slots m = [] then ptr_map_init else m);
     m \<leftarrow> (if psize m * 4 \<ge> capOf m * 3 then ptr_map_grow m else Some m);
     idx \<leftarrow> probe (freeOr key) (slots m) (ptr_hash key (capOf m - 1));
     Some \<lparr>slots = (slots m)[idx := (key, hdr)],
           psize = (if isFree (slots m ! idx) then psize m + 1 else psize m)\<rparr> }"

definition ptr_map_lookup :: "addr \<Rightarrow> PtrMap \<Rightarrow> addr option" where
  "ptr_map_lookup key m =
     (if slots m = [] \<or> key = 0 then Some 0
      else do {
        idx \<leftarrow> probe (freeOr key) (slots m) (ptr_hash key (capOf m - 1));
        Some (if isFree (slots m ! idx) then 0 else snd (slots m ! idx)) })"

definition misplaced :: "nat \<Rightarrow> nat \<Rightarrow> nat \<Rightarrow> bool" where
  "misplaced idx j k \<longleftrightarrow> (j > idx \<and> (k \<le> idx \<or> k > j)) \<or> (j < idx \<and> (k \<le> idx \<and> k > j))"

partial_function (option) closeGap :: "nat \<Rightarrow> nat \<Rightarrow> (addr \<times> addr) list \<Rightarrow> (addr \<times> addr) list option" where
  "closeGap idx j tab =
     (if isFree (tab ! j) then Some tab
      else if misplaced idx j (ptr_hash (fst (tab ! j)) (length tab - 1))
      then closeGap j (nextSlot (length tab - 1) j) (tab[idx := tab ! j, j := (0, 0)])
      else closeGap idx (nextSlot (length tab - 1) j) tab)"

declare closeGap.simps [code]

definition ptr_map_remove :: "addr \<Rightarrow> PtrMap \<Rightarrow> PtrMap option" where
  "ptr_map_remove key m =
     (if slots m = [] \<or> key = 0 then Some m
      else do {
        idx \<leftarrow> probe (freeOr key) (slots m) (ptr_hash key (capOf m - 1));
        if isFree (slots m ! idx) then Some m
        else do {
          tab \<leftarrow> closeGap idx (nextSlot (capOf m - 1) idx) ((slots m)[idx := (0, 0)]);
          Some \<lparr>slots = tab, psize = psize m - 1\<rparr> } })"

definition ptr_map_free :: "PtrMap \<Rightarrow> PtrMap" where
  "ptr_map_free m = noPtrMap"

lemma masked_le: "unat ((h::addr) AND of_nat m) \<le> m"
proof -
  have "unat (h AND of_nat m) \<le> unat (of_nat m :: addr)"
    by (simp only: word_le_nat_alt[symmetric] word_and_le1)
  also have "\<dots> \<le> m" by (simp add: unat_of_nat)
  finally show ?thesis .
qed

lemma place_length: "place e m = Some m' \<Longrightarrow> capOf m' = capOf m"
  by (auto simp: place_def bind_eq_Some_conv)

lemma placeAll_length: "placeAll es m = Some m' \<Longrightarrow> capOf m' = capOf m"
  by (induction es m rule: placeAll.induct)
     (auto simp: bind_eq_Some_conv place_length split: if_splits dest: place_length)

lemma rehash_length: "rehash n m = Some m' \<Longrightarrow> capOf m' = n"
  unfolding rehash_def by (drule placeAll_length) (simp add: zeroed_def)

function shrink :: "PtrMap \<Rightarrow> PtrMap option" where
  "shrink m =
     (if capOf m > PTR_MAP_INIT_CAP \<and> psize m * 8 < capOf m
      then (case rehash (capOf m div 2) m of None \<Rightarrow> None | Some m' \<Rightarrow> shrink m')
      else Some m)"
  by pat_completeness auto
termination
  by (relation "measure (\<lambda>m. capOf m)") (auto dest!: rehash_length)

declare shrink.simps [simp del]

definition ptr_map_rebuild :: "(addr \<times> addr) list \<Rightarrow> PtrMap \<Rightarrow> PtrMap option" where
  "ptr_map_rebuild live m =
     (if slots m = [] then Some m
      else placeAll live \<lparr>slots = zeroed (capOf m), psize = 0\<rparr> \<bind> shrink)"

end
