(* ===== verification/Chunk_Table.thy ===== *)
theory Chunk_Table
  imports Ptr_Map
begin

text \<open>
  The chunk table of the collector (\<^verbatim>\<open>stdlib/gc.c\<close>): for every 4 KB chunk of the address space a
  record of the allocations that overlap it, in a hash table with separate chaining. It exists only during a
  collection, when it resolves interior pointers. A chain is a list, the two inline entries and the overflow
  array of a record are two lists; the table has no buckets when it is not allocated.
\<close>

unbundle bit_operations_syntax

section \<open>The table\<close>

definition CHUNK_SHIFT :: nat where
  "CHUNK_SHIFT = 12"

definition CHUNK_INLINE_MAX :: nat where
  "CHUNK_INLINE_MAX = 2"

record ChunkAllocEntry =
  ce_base :: addr
  ce_size :: "32 word"
  ce_header :: addr

record ChunkInfo =
  chunk_id :: addr
  inline_entries :: "ChunkAllocEntry list"
  extra :: "ChunkAllocEntry list"
  extra_cap :: nat

record ChunkTable =
  buckets :: "ChunkInfo list list"
  table_log2 :: nat
  table_count :: nat

definition num_entries :: "ChunkInfo \<Rightarrow> nat" where
  "num_entries info = length (inline_entries info) + length (extra info)"

definition chunk_hash :: "addr \<Rightarrow> nat \<Rightarrow> nat" where
  "chunk_hash cid msk =
     (let h = cid XOR drop_bit 16 cid;
          h = h * 0x45d9f3b;
          h = h XOR drop_bit 8 h
      in unat (h AND of_nat msk))"

definition bucketOf :: "ChunkTable \<Rightarrow> addr \<Rightarrow> nat" where
  "bucketOf ct cid = chunk_hash cid (2 ^ table_log2 ct - 1)"

section \<open>The operations\<close>

definition noChunkTable :: ChunkTable where
  "noChunkTable = \<lparr>buckets = [], table_log2 = 8, table_count = 0\<rparr>"

definition chunk_table_init :: ChunkTable where
  "chunk_table_init = \<lparr>buckets = replicate (2 ^ 8) [], table_log2 = 8, table_count = 0\<rparr>"

definition chunk_table_free :: "ChunkTable \<Rightarrow> ChunkTable" where
  "chunk_table_free ct = (if buckets ct = [] then ct else noChunkTable)"

definition relink :: "ChunkInfo \<Rightarrow> ChunkTable \<Rightarrow> ChunkTable" where
  "relink info ct =
     (let idx = bucketOf ct (chunk_id info)
      in ct\<lparr>buckets := (buckets ct)[idx := info # buckets ct ! idx], table_count := table_count ct + 1\<rparr>)"

definition chunk_table_grow :: "ChunkTable \<Rightarrow> ChunkTable" where
  "chunk_table_grow ct =
     fold (\<lambda>chain. fold relink chain) (buckets ct)
       \<lparr>buckets = replicate (2 ^ (table_log2 ct + 1)) [], table_log2 = table_log2 ct + 1, table_count = 0\<rparr>"

definition add_entry :: "ChunkAllocEntry \<Rightarrow> ChunkInfo \<Rightarrow> ChunkInfo" where
  "add_entry e info =
     (if num_entries info < CHUNK_INLINE_MAX
      then info\<lparr>inline_entries := inline_entries info @ [e]\<rparr>
      else let cap = extra_cap info;
               cap = (if num_entries info - CHUNK_INLINE_MAX \<ge> cap then (if cap = 0 then 4 else cap * 2) else cap)
           in info\<lparr>extra := extra info @ [e], extra_cap := cap\<rparr>)"

fun update_chain :: "addr \<Rightarrow> (ChunkInfo \<Rightarrow> ChunkInfo) \<Rightarrow> ChunkInfo list \<Rightarrow> ChunkInfo list option" where
  "update_chain cid f [] = None"
| "update_chain cid f (info # chain) =
     (if chunk_id info = cid then Some (f info # chain)
      else map_option ((#) info) (update_chain cid f chain))"

definition chunk_table_insert_entry :: "addr \<Rightarrow> ChunkAllocEntry \<Rightarrow> ChunkTable \<Rightarrow> ChunkTable" where
  "chunk_table_insert_entry cid e ct =
     (let ct = (if table_count ct * 4 \<ge> 2 ^ table_log2 ct * 3 then chunk_table_grow ct else ct);
          idx = bucketOf ct cid
      in case update_chain cid (add_entry e) (buckets ct ! idx) of
           Some chain \<Rightarrow> ct\<lparr>buckets := (buckets ct)[idx := chain]\<rparr>
         | None \<Rightarrow>
             let info = \<lparr>chunk_id = cid, inline_entries = [], extra = [], extra_cap = 0\<rparr>
             in ct\<lparr>buckets := (buckets ct)[idx := add_entry e info # buckets ct ! idx],
                   table_count := table_count ct + 1\<rparr>)"

definition chunks_of :: "addr \<Rightarrow> nat \<Rightarrow> addr list" where
  "chunks_of user sz =
     (let end = user + of_nat sz;
          chunk_first = drop_bit CHUNK_SHIFT user;
          chunk_last = drop_bit CHUNK_SHIFT (end - 1)
      in map of_nat [unat chunk_first ..< Suc (unat chunk_last)])"

definition chunk_table_add_range :: "addr \<Rightarrow> nat \<Rightarrow> addr \<Rightarrow> ChunkTable \<Rightarrow> ChunkTable" where
  "chunk_table_add_range user sz hdr ct =
     (if buckets ct = [] \<or> user = 0 \<or> sz = 0 then ct
      else fold (\<lambda>cid. chunk_table_insert_entry cid \<lparr>ce_base = user, ce_size = of_nat sz, ce_header = hdr\<rparr>)
             (chunks_of user sz) ct)"

definition within :: "addr \<Rightarrow> ChunkAllocEntry \<Rightarrow> bool" where
  "within p e \<longleftrightarrow> p \<ge> ce_base e \<and> p < ce_base e + ucast (ce_size e)"

definition chunk_find :: "addr \<Rightarrow> ChunkTable \<Rightarrow> ChunkInfo option" where
  "chunk_find cid ct = find (\<lambda>info. chunk_id info = cid) (buckets ct ! bucketOf ct cid)"

definition chunk_table_lookup :: "addr \<Rightarrow> ChunkTable \<Rightarrow> addr" where
  "chunk_table_lookup p ct =
     (if buckets ct = [] then 0
      else case chunk_find (drop_bit CHUNK_SHIFT p) ct of
        None \<Rightarrow> 0
      | Some info \<Rightarrow>
          (case find (within p) (inline_entries info) of
             Some e \<Rightarrow> ce_header e
           | None \<Rightarrow> (case find (within p) (extra info) of Some e \<Rightarrow> ce_header e | None \<Rightarrow> 0)))"

section \<open>The invariant\<close>

definition infos :: "ChunkTable \<Rightarrow> ChunkInfo set" where
  "infos ct = (\<Union>chain \<in> set (buckets ct). set chain)"

definition info_ok :: "ChunkInfo \<Rightarrow> bool" where
  "info_ok info \<longleftrightarrow> length (inline_entries info) \<le> CHUNK_INLINE_MAX
     \<and> (extra info \<noteq> [] \<longrightarrow> length (inline_entries info) = CHUNK_INLINE_MAX)"

definition chunk_ok :: "ChunkTable \<Rightarrow> bool" where
  "chunk_ok ct \<longleftrightarrow> length (buckets ct) = 2 ^ table_log2 ct \<and> (\<forall>info \<in> infos ct. info_ok info)
     \<and> (\<forall>i<length (buckets ct). distinct (map chunk_id (buckets ct ! i))
          \<and> (\<forall>info \<in> set (buckets ct ! i). bucketOf ct (chunk_id info) = i))"

definition entries_at :: "ChunkTable \<Rightarrow> addr \<Rightarrow> ChunkAllocEntry list" where
  "entries_at ct cid = (case chunk_find cid ct of None \<Rightarrow> [] | Some info \<Rightarrow> inline_entries info @ extra info)"

lemma bucketOf_less: "length (buckets ct) = 2 ^ table_log2 ct \<Longrightarrow> bucketOf ct cid < length (buckets ct)"
  unfolding bucketOf_def chunk_hash_def Let_def by (rule le_less_trans[OF masked_le]) simp

lemma find_append: "find P (xs @ ys) = (case find P xs of Some x \<Rightarrow> Some x | None \<Rightarrow> find P ys)"
  by (induction xs) auto

lemma chunk_table_lookup_entries:
  "buckets ct \<noteq> [] \<Longrightarrow> chunk_table_lookup p ct =
     (case find (within p) (entries_at ct (drop_bit CHUNK_SHIFT p)) of None \<Rightarrow> 0 | Some e \<Rightarrow> ce_header e)"
  by (auto simp: chunk_table_lookup_def entries_at_def find_append split: option.splits)

lemma chunk_find_Some:
  assumes "chunk_ok ct"
  shows "chunk_find cid ct = Some info \<longleftrightarrow> info \<in> infos ct \<and> chunk_id info = cid"
proof
  assume "chunk_find cid ct = Some info"
  then have "info \<in> set (buckets ct ! bucketOf ct cid)" "chunk_id info = cid"
    by (auto simp: chunk_find_def find_Some_iff)
  moreover have "bucketOf ct cid < length (buckets ct)" using assms by (intro bucketOf_less) (simp add: chunk_ok_def)
  ultimately show "info \<in> infos ct \<and> chunk_id info = cid" by (auto simp: infos_def)
next
  assume r: "info \<in> infos ct \<and> chunk_id info = cid"
  then obtain chain where "chain \<in> set (buckets ct)" "info \<in> set chain" by (auto simp: infos_def)
  then obtain i where i: "i < length (buckets ct)" "info \<in> set (buckets ct ! i)" by (auto simp: in_set_conv_nth)
  then have b: "bucketOf ct cid = i" and d: "distinct (map chunk_id (buckets ct ! i))"
    using assms r by (auto simp: chunk_ok_def)
  have "find (\<lambda>x. chunk_id x = cid) xs = Some info"
    if "info \<in> set xs" "distinct (map chunk_id xs)" for xs
    using that r by (induction xs) (auto simp: image_iff)
  then show "chunk_find cid ct = Some info" using i d b by (simp add: chunk_find_def)
qed

section \<open>Growing\<close>

abbreviation ids :: "ChunkInfo set \<Rightarrow> addr set" where
  "ids S \<equiv> chunk_id ` S"

lemma infos_bucket: "i < length (buckets ct) \<Longrightarrow> info \<in> set (buckets ct ! i) \<Longrightarrow> info \<in> infos ct"
  by (auto simp: infos_def)

lemma infos_update:
  assumes "i < length (buckets ct)"
  shows "infos (ct\<lparr>buckets := (buckets ct)[i := chain], table_count := n\<rparr>)
    = set chain \<union> (\<Union>j \<in> {..<length (buckets ct)} - {i}. set (buckets ct ! j))"
  using assms by (force simp: infos_def set_conv_nth nth_list_update split: if_splits)

lemma infos_split:
  assumes "i < length (buckets ct)"
  shows "infos ct = set (buckets ct ! i) \<union> (\<Union>j \<in> {..<length (buckets ct)} - {i}. set (buckets ct ! j))"
  using infos_update[OF assms, where chain = "buckets ct ! i" and n = "table_count ct"] by simp

lemma bucketOf_update: "bucketOf (ct\<lparr>buckets := bs, table_count := n\<rparr>) = bucketOf ct"
  by (simp add: bucketOf_def fun_eq_iff)

text \<open>A new chain in its bucket, with the right identifiers, keeps the table well formed.\<close>

lemma chunk_ok_update:
  assumes ok: "chunk_ok ct" and chain: "distinct (map chunk_id chain)" "\<forall>info \<in> set chain. bucketOf ct (chunk_id info) = i"
    and info: "\<forall>info \<in> set chain. info_ok info" and i: "i < length (buckets ct)"
  shows "chunk_ok (ct\<lparr>buckets := (buckets ct)[i := chain], table_count := n\<rparr>)" (is "chunk_ok ?ct")
proof -
  have "info_ok x" if "x \<in> infos ?ct" for x
    using that ok info infos_bucket by (fastforce simp: infos_update[OF i] chunk_ok_def)
  moreover have "distinct (map chunk_id (buckets ?ct ! j)) \<and> (\<forall>x \<in> set (buckets ?ct ! j). bucketOf ct (chunk_id x) = j)"
    if "j < length (buckets ct)" for j
    using that ok chain by (cases "j = i") (auto simp: chunk_ok_def)
  ultimately show ?thesis using ok by (simp add: chunk_ok_def bucketOf_update)
qed

lemma relink_ok:
  assumes ok: "chunk_ok ct" and new: "chunk_id info \<notin> ids (infos ct)" and "info_ok info"
  shows "chunk_ok (relink info ct)" and "infos (relink info ct) = insert info (infos ct)"
proof -
  let ?i = "bucketOf ct (chunk_id info)"
  have i: "?i < length (buckets ct)" using ok by (intro bucketOf_less) (simp add: chunk_ok_def)
  have "chunk_ok (ct\<lparr>buckets := (buckets ct)[?i := info # buckets ct ! ?i], table_count := table_count ct + 1\<rparr>)"
    using assms i infos_bucket[OF i] by (intro chunk_ok_update[OF ok _ _ _ i]) (auto simp: chunk_ok_def)
  then show "chunk_ok (relink info ct)" by (simp add: relink_def Let_def)
  show "infos (relink info ct) = insert info (infos ct)"
    using infos_split[OF i] by (auto simp: relink_def Let_def infos_update[OF i, simplified])
qed

lemma relink_chain:
  assumes "chunk_ok ct" "distinct (map chunk_id chain)" "ids (set chain) \<inter> ids (infos ct) = {}"
    "\<forall>info \<in> set chain. info_ok info"
  shows "chunk_ok (fold relink chain ct) \<and> infos (fold relink chain ct) = set chain \<union> infos ct
    \<and> table_log2 (fold relink chain ct) = table_log2 ct"
  using assms
proof (induction chain arbitrary: ct)
  case (Cons info chain)
  have new: "chunk_id info \<notin> ids (infos ct)" "info_ok info" using Cons.prems(3,4) by auto
  note relink_ok[OF Cons.prems(1) new]
  moreover have "table_log2 (relink info ct) = table_log2 ct" by (simp add: relink_def Let_def)
  ultimately show ?case using Cons.IH[of "relink info ct"] Cons.prems by auto
qed simp

lemma relink_chains:
  assumes "chunk_ok ct" "\<forall>chain \<in> set chs. distinct (map chunk_id chain) \<and> (\<forall>info \<in> set chain. info_ok info)"
    "sorted_wrt (\<lambda>c d. ids (set c) \<inter> ids (set d) = {}) chs"
    "\<forall>chain \<in> set chs. ids (set chain) \<inter> ids (infos ct) = {}"
  shows "chunk_ok (fold (\<lambda>chain. fold relink chain) chs ct)
    \<and> infos (fold (\<lambda>chain. fold relink chain) chs ct) = (\<Union>chain \<in> set chs. set chain) \<union> infos ct
    \<and> table_log2 (fold (\<lambda>chain. fold relink chain) chs ct) = table_log2 ct"
  using assms
proof (induction chs arbitrary: ct)
  case (Cons chain chs)
  have c: "chunk_ok (fold relink chain ct)" "infos (fold relink chain ct) = set chain \<union> infos ct"
    "table_log2 (fold relink chain ct) = table_log2 ct"
    using relink_chain[of ct chain] Cons.prems by auto
  have "\<forall>d \<in> set chs. ids (set d) \<inter> ids (infos (fold relink chain ct)) = {}"
    using Cons.prems(3,4) unfolding c(2) image_Un by (simp add: Int_Un_distrib Int_commute)
  then show ?case using Cons.IH[OF c(1)] Cons.prems(2,3) c by (auto simp: Un_assoc)
qed simp

lemma chunk_ok_empty: "chunk_ok \<lparr>buckets = replicate (2 ^ n) [], table_log2 = n, table_count = c\<rparr>"
  and infos_empty: "infos \<lparr>buckets = replicate (2 ^ n) [], table_log2 = n, table_count = c\<rparr> = {}"
  by (auto simp: chunk_ok_def infos_def)

lemma grow_ok:
  assumes ok: "chunk_ok ct"
  shows "chunk_ok (chunk_table_grow ct)" and "infos (chunk_table_grow ct) = infos ct"
proof -
  have "ids (set (buckets ct ! i)) \<inter> ids (set (buckets ct ! j)) = {}"
    if "i < j" "j < length (buckets ct)" for i j
  proof -
    have "bucketOf ct c = i" if "c \<in> ids (set (buckets ct ! i))" for c
      using ok that \<open>i < j\<close> \<open>j < length (buckets ct)\<close> by (auto simp: chunk_ok_def)
    moreover have "bucketOf ct c = j" if "c \<in> ids (set (buckets ct ! j))" for c
      using ok that \<open>j < length (buckets ct)\<close> by (auto simp: chunk_ok_def)
    ultimately show ?thesis using \<open>i < j\<close> by auto
  qed
  then have "sorted_wrt (\<lambda>c d. ids (set c) \<inter> ids (set d) = {}) (buckets ct)"
    by (simp add: sorted_wrt_iff_nth_less)
  moreover have "\<forall>chain \<in> set (buckets ct). distinct (map chunk_id chain) \<and> (\<forall>info \<in> set chain. info_ok info)"
    using ok by (fastforce simp: chunk_ok_def in_set_conv_nth infos_def)
  ultimately have "chunk_ok (chunk_table_grow ct) \<and> infos (chunk_table_grow ct) = infos ct"
    using relink_chains[OF chunk_ok_empty, of "buckets ct" "table_log2 ct + 1" 0]
    unfolding chunk_table_grow_def infos_empty by (simp add: infos_def)
  then show "chunk_ok (chunk_table_grow ct)" and "infos (chunk_table_grow ct) = infos ct" by simp_all
qed

section \<open>Inserting\<close>

lemma add_entry_simps [simp]:
  "chunk_id (add_entry e info) = chunk_id info"
  "info_ok info \<Longrightarrow> info_ok (add_entry e info)"
  "info_ok info \<Longrightarrow> inline_entries (add_entry e info) @ extra (add_entry e info)
     = inline_entries info @ extra info @ [e]"
  by (auto simp: add_entry_def info_ok_def num_entries_def Let_def)

lemma update_chain_eq:
  "distinct (map chunk_id chain) \<Longrightarrow> update_chain cid f chain =
     (if cid \<in> ids (set chain) then Some (map (\<lambda>i. if chunk_id i = cid then f i else i) chain) else None)"
proof (induction chain)
  case (Cons info chain)
  then show ?case by (cases "chunk_id info = cid") (auto simp: image_iff intro!: map_idI[symmetric])
qed simp

lemma entries_same:
  assumes "chunk_ok ct" "chunk_ok ct'" "\<And>i. chunk_id i = c \<Longrightarrow> i \<in> infos ct' \<longleftrightarrow> i \<in> infos ct"
  shows "entries_at ct' c = entries_at ct c"
proof -
  have "chunk_find c ct' = Some i \<longleftrightarrow> chunk_find c ct = Some i" for i
    using assms by (auto simp: chunk_find_Some)
  then have "chunk_find c ct' = chunk_find c ct" by (metis not_Some_eq)
  then show ?thesis by (simp add: entries_at_def)
qed

lemma store_entry:
  fixes cid :: addr and e :: ChunkAllocEntry
  assumes ok: "chunk_ok ct"
  defines "i \<equiv> bucketOf ct cid"
  defines "ct' \<equiv> (case update_chain cid (add_entry e) (buckets ct ! i) of
           Some chain \<Rightarrow> ct\<lparr>buckets := (buckets ct)[i := chain]\<rparr>
         | None \<Rightarrow> ct\<lparr>buckets := (buckets ct)[i := add_entry e \<lparr>chunk_id = cid, inline_entries = [], extra = [], extra_cap = 0\<rparr>
                     # buckets ct ! i], table_count := table_count ct + 1\<rparr>)"
  shows "chunk_ok ct'" and "entries_at ct' c = (if c = cid then entries_at ct cid @ [e] else entries_at ct c)"
proof -
  have i: "i < length (buckets ct)" unfolding i_def using ok by (intro bucketOf_less) (simp add: chunk_ok_def)
  let ?chain = "buckets ct ! i"
  have d: "distinct (map chunk_id ?chain)" and b: "\<forall>x \<in> set ?chain. bucketOf ct (chunk_id x) = i"
    and f: "\<forall>x \<in> set ?chain. info_ok x"
    using ok i infos_bucket[OF i] by (auto simp: chunk_ok_def)
  define empty where "empty = \<lparr>chunk_id = cid, inline_entries = [], extra = [], extra_cap = 0\<rparr>"
  have empty: "info_ok empty" "chunk_id empty = cid" "inline_entries empty @ extra empty = []"
    by (auto simp: empty_def info_ok_def)
  define g where "g = (\<lambda>x. if chunk_id x = cid then add_entry e x else x)"
  have gid: "chunk_id (g x) = chunk_id x" for x by (simp add: g_def)
  define chain where "chain = (if cid \<in> ids (set ?chain) then map g ?chain else add_entry e empty # ?chain)"
  obtain n where ct': "ct' = ct\<lparr>buckets := (buckets ct)[i := chain], table_count := n\<rparr>"
  proof (cases "cid \<in> ids (set ?chain)")
    case True
    then have "ct' = ct\<lparr>buckets := (buckets ct)[i := chain], table_count := table_count ct\<rparr>"
      by (simp add: ct'_def chain_def update_chain_eq[OF d] g_def)
    then show thesis by (rule that)
  next
    case False
    then have "ct' = ct\<lparr>buckets := (buckets ct)[i := chain], table_count := table_count ct + 1\<rparr>"
      by (simp add: ct'_def chain_def update_chain_eq[OF d] empty_def)
    then show thesis by (rule that)
  qed
  have chain_ids: "map chunk_id chain = (if cid \<in> ids (set ?chain) then map chunk_id ?chain else cid # map chunk_id ?chain)"
    by (simp add: chain_def gid empty(2) comp_def)
  show ok': "chunk_ok ct'"
    unfolding ct'
  proof (rule chunk_ok_update[OF ok _ _ _ i])
    show "distinct (map chunk_id chain)" using d by (simp add: chain_ids)
    show "\<forall>x \<in> set chain. bucketOf ct (chunk_id x) = i"
      using b by (auto simp: chain_def gid empty(2) i_def)
    show "\<forall>x \<in> set chain. info_ok x" using f empty(1) by (auto simp: chain_def g_def)
  qed
  have mem: "x \<in> infos ct' \<longleftrightarrow> x \<in> set chain \<or> (\<exists>j<length (buckets ct). j \<noteq> i \<and> x \<in> set (buckets ct ! j))" for x
    unfolding ct' infos_update[OF i] by auto
  have mem0: "x \<in> infos ct \<longleftrightarrow> x \<in> set ?chain \<or> (\<exists>j<length (buckets ct). j \<noteq> i \<and> x \<in> set (buckets ct ! j))" for x
    unfolding infos_split[OF i] by auto
  show "entries_at ct' c = (if c = cid then entries_at ct cid @ [e] else entries_at ct c)"
  proof (cases "c = cid")
    case False
    have "x \<in> set chain \<longleftrightarrow> x \<in> set ?chain" if "chunk_id x = c" for x
      using that False gid by (auto simp: chain_def empty(2) g_def image_iff)
    then show ?thesis using False entries_same[OF ok ok', of c] by (simp add: mem mem0)
  next
    case True
    show ?thesis
    proof (cases "cid \<in> ids (set ?chain)")
      case True
      then obtain x where x: "x \<in> set ?chain" "chunk_id x = cid" by auto
      then have "chunk_find cid ct = Some x" using infos_bucket[OF i] by (simp add: chunk_find_Some[OF ok])
      moreover have "add_entry e x \<in> set chain" using x True by (force simp: chain_def g_def)
      then have "chunk_find cid ct' = Some (add_entry e x)" using x by (simp add: chunk_find_Some[OF ok'] mem)
      ultimately show ?thesis using \<open>c = cid\<close> f x by (simp add: entries_at_def)
    next
      case False
      then have "chunk_find cid ct = None" by (auto simp: chunk_find_def find_None_iff i_def)
      moreover have "add_entry e empty \<in> set chain" using False by (simp add: chain_def)
      then have "chunk_find cid ct' = Some (add_entry e empty)" by (simp add: chunk_find_Some[OF ok'] mem empty(2))
      ultimately show ?thesis using \<open>c = cid\<close> empty(1,3) by (simp add: entries_at_def)
    qed
  qed
qed

lemma insert_entry_ok:
  assumes "chunk_ok ct"
  shows "chunk_ok (chunk_table_insert_entry cid e ct)"
    and "entries_at (chunk_table_insert_entry cid e ct) c = entries_at ct c @ (if c = cid then [e] else [])"
proof -
  define ct1 where "ct1 = (if table_count ct * 4 \<ge> 2 ^ table_log2 ct * 3 then chunk_table_grow ct else ct)"
  have ok: "chunk_ok ct1" and "infos ct1 = infos ct" using assms grow_ok by (auto simp: ct1_def)
  then have same: "entries_at ct1 c = entries_at ct c" for c using entries_same[OF assms ok] by simp
  note st = store_entry[OF ok, where cid = cid and e = e]
  show "chunk_ok (chunk_table_insert_entry cid e ct)"
    unfolding chunk_table_insert_entry_def ct1_def[symmetric] Let_def by (rule st(1))
  show "entries_at (chunk_table_insert_entry cid e ct) c = entries_at ct c @ (if c = cid then [e] else [])"
    unfolding chunk_table_insert_entry_def ct1_def[symmetric] Let_def st(2) by (simp add: same)
qed

lemma insert_entries_ok:
  assumes "chunk_ok ct" "distinct cids"
  shows "chunk_ok (fold (\<lambda>cid. chunk_table_insert_entry cid e) cids ct)
    \<and> entries_at (fold (\<lambda>cid. chunk_table_insert_entry cid e) cids ct) c = entries_at ct c @ (if c \<in> set cids then [e] else [])"
  using assms
proof (induction cids arbitrary: ct)
  case (Cons cid cids)
  then show ?case
    using insert_entry_ok[OF Cons.prems(1)] Cons.IH[of "chunk_table_insert_entry cid e ct"] by auto
qed simp

section \<open>Building the table\<close>

text \<open>
  A collection enters every object of the heap: its user pointer, the size of its payload and its header.
\<close>

type_synonym extent = "addr \<times> nat \<times> addr"

fun addExtent :: "extent \<Rightarrow> ChunkTable \<Rightarrow> ChunkTable" where
  "addExtent (user, sz, hdr) = chunk_table_add_range user sz hdr"

fun extent_ok :: "extent \<Rightarrow> bool" where
  "extent_ok (user, sz, hdr) \<longleftrightarrow> user \<noteq> 0 \<and> unat user + sz < 2 ^ 64 \<and> sz < 2 ^ 32"

fun covers :: "addr \<Rightarrow> extent \<Rightarrow> bool" where
  "covers p (user, sz, hdr) \<longleftrightarrow> unat user \<le> unat p \<and> unat p < unat user + sz"

fun extentEntry :: "extent \<Rightarrow> ChunkAllocEntry" where
  "extentEntry (user, sz, hdr) = \<lparr>ce_base = user, ce_size = of_nat sz, ce_header = hdr\<rparr>"

fun spans :: "addr \<Rightarrow> extent \<Rightarrow> bool" where
  "spans c (user, sz, hdr) \<longleftrightarrow> sz \<noteq> 0 \<and> c \<in> set (chunks_of user sz)"

lemma unat_of_nat64: "n < 2 ^ 64 \<Longrightarrow> unat (of_nat n :: addr) = n"
  by (simp add: unat_of_nat take_bit_nat_eq_self)

lemma unat_bound64: "unat (a :: addr) < 2 ^ 64"
  using unsigned_less[of a, where ?'a = nat] by simp

lemma word_of_nat_unat64: "of_nat (unat a) = (a :: addr)"
  by simp

lemma unat_plus64: "unat (a :: addr) + n < 2 ^ 64 \<Longrightarrow> unat (a + of_nat n) = unat a + n"
proof -
  assume "unat a + n < 2 ^ 64"
  then have "unat (of_nat (unat a + n) :: addr) = unat a + n" by (rule unat_of_nat64)
  then show ?thesis by simp
qed

lemma ucast_of_nat: "n < 2 ^ 32 \<Longrightarrow> (ucast (of_nat n :: 32 word) :: addr) = of_nat n"
  by (simp add: word_unat_eq_iff unsigned_ucast_eq unat_of_nat take_bit_nat_eq_self)

lemma within_extent:
  assumes "extent_ok x"
  shows "within p (extentEntry x) \<longleftrightarrow> covers p x"
proof -
  obtain user sz hdr where x: "x = (user, sz, hdr)" by (cases x)
  have "unat (user + of_nat sz) = unat user + sz" using assms by (intro unat_plus64) (simp add: x)
  moreover have "(ucast (of_nat sz :: 32 word) :: addr) = of_nat sz" using assms by (intro ucast_of_nat) (simp add: x)
  ultimately have "unat (user + ucast (of_nat sz :: 32 word)) = unat user + sz" by simp
  then show ?thesis by (simp add: x within_def word_le_nat_alt word_less_nat_alt)
qed

lemma chunks_of_spans:
  assumes "extent_ok x" "covers p x"
  shows "spans (drop_bit CHUNK_SHIFT p) x"
proof -
  obtain user sz hdr where x: "x = (user, sz, hdr)" by (cases x)
  have end_eq: "unat (user + of_nat sz - 1) = unat user + sz - 1"
  proof -
    have "user + of_nat sz - 1 = of_nat (unat user + sz - 1)"
      using assms by (simp add: x of_nat_diff)
    moreover have "unat (of_nat (unat user + sz - 1) :: addr) = unat user + sz - 1"
      by (rule unat_of_nat64, rule less_imp_diff_less) (use assms in \<open>simp add: x\<close>)
    ultimately show ?thesis by (simp only:)
  qed
  have shift: "unat (drop_bit CHUNK_SHIFT a) = unat a div 2 ^ CHUNK_SHIFT" for a :: addr
    by (simp only: unat_drop_bit_eq drop_bit_eq_div[where ?'a = nat])
  have "unat user div 2 ^ CHUNK_SHIFT \<le> unat p div 2 ^ CHUNK_SHIFT"
    "unat p div 2 ^ CHUNK_SHIFT \<le> (unat user + sz - 1) div 2 ^ CHUNK_SHIFT"
    using assms by (auto simp: x intro!: div_le_mono)
  then have "unat (drop_bit CHUNK_SHIFT p)
      \<in> {unat (drop_bit CHUNK_SHIFT user) ..< Suc (unat (drop_bit CHUNK_SHIFT (user + of_nat sz - 1)))}"
    by (simp add: shift end_eq less_Suc_eq_le)
  then have "of_nat (unat (drop_bit CHUNK_SHIFT p)) \<in> set (chunks_of user sz)"
    unfolding chunks_of_def Let_def set_map set_upt by (rule imageI)
  then have "drop_bit CHUNK_SHIFT p \<in> set (chunks_of user sz)" unfolding word_of_nat_unat64 .
  then show ?thesis using assms by (auto simp: x)
qed

lemma chunks_of_distinct: "distinct (chunks_of user sz)"
proof -
  have "inj_on (of_nat :: nat \<Rightarrow> addr) {unat a ..< Suc (unat b)}" for a b :: addr
  proof (rule inj_onI)
    fix m n :: nat assume mn: "m \<in> {unat a ..< Suc (unat b)}" "n \<in> {unat a ..< Suc (unat b)}"
      and eq: "of_nat m = (of_nat n :: addr)"
    have "m \<le> unat b" "n \<le> unat b" using mn by auto
    then have "unat (of_nat m :: addr) = m" "unat (of_nat n :: addr) = n"
      using unat_bound64[of b] by (metis le_less_trans unat_of_nat64)+
    then show "m = n" using eq by metis
  qed
  then show ?thesis unfolding chunks_of_def Let_def distinct_map by (intro conjI distinct_upt) (simp only: set_upt)
qed

lemma addExtent_ok:
  assumes ok: "chunk_ok ct" and x: "extent_ok x"
  shows "chunk_ok (addExtent x ct)"
    and "entries_at (addExtent x ct) c = entries_at ct c @ (if spans c x then [extentEntry x] else [])"
proof -
  obtain user sz hdr where [simp]: "x = (user, sz, hdr)" by (cases x)
  have "buckets ct \<noteq> []" using ok by (auto simp: chunk_ok_def)
  then have "addExtent x ct = (if sz = 0 then ct
      else fold (\<lambda>cid. chunk_table_insert_entry cid (extentEntry x)) (chunks_of user sz) ct)"
    using x by (simp add: chunk_table_add_range_def)
  then show "chunk_ok (addExtent x ct)"
    and "entries_at (addExtent x ct) c = entries_at ct c @ (if spans c x then [extentEntry x] else [])"
    using insert_entries_ok[OF ok chunks_of_distinct] ok by auto
qed

lemma addExtents_ok:
  assumes "chunk_ok ct" "\<forall>x \<in> set xs. extent_ok x"
  shows "chunk_ok (fold addExtent xs ct)
    \<and> entries_at (fold addExtent xs ct) c = entries_at ct c @ map extentEntry (filter (spans c) xs)"
  using assms
proof (induction xs arbitrary: ct)
  case (Cons x xs)
  then show ?case using addExtent_ok[OF Cons.prems(1), of x] Cons.IH[of "addExtent x ct"] by auto
qed simp

lemma find_map_filter:
  "(\<And>x. x \<in> set xs \<Longrightarrow> P (f x) \<longleftrightarrow> Q x) \<Longrightarrow> (\<And>x. x \<in> set xs \<Longrightarrow> Q x \<Longrightarrow> R x) \<Longrightarrow>
     find P (map f (filter R xs)) = map_option f (find Q xs)"
  by (induction xs) auto

lemma lookup_extents:
  assumes "\<forall>x \<in> set xs. extent_ok x"
  shows "chunk_table_lookup p (fold addExtent xs chunk_table_init)
    = (case find (covers p) xs of None \<Rightarrow> 0 | Some (user, sz, hdr) \<Rightarrow> hdr)"
proof -
  let ?ct = "fold addExtent xs chunk_table_init" and ?c = "drop_bit CHUNK_SHIFT p"
  have ok0: "chunk_ok chunk_table_init" unfolding chunk_table_init_def by (rule chunk_ok_empty)
  have empty: "entries_at chunk_table_init ?c = []"
    using chunk_find_Some[OF ok0] by (auto simp: entries_at_def chunk_table_init_def infos_def split: option.splits)
  note built = addExtents_ok[OF ok0 assms, of ?c]
  have "find (within p) (map extentEntry (filter (spans ?c) xs)) = map_option extentEntry (find (covers p) xs)"
    using assms by (intro find_map_filter) (auto simp del: spans.simps extentEntry.simps covers.simps extent_ok.simps
        simp: within_extent chunks_of_spans)
  moreover have "buckets ?ct \<noteq> []" using built by (auto simp: chunk_ok_def)
  ultimately show ?thesis
    using built empty by (auto simp: chunk_table_lookup_entries split: option.splits)
qed

end
