(* ===== verification/Gc_Memory.thy ===== *)
theory Gc_Memory
  imports Chunk_Table
begin

text \<open>
  Memory as the collector sees it: bytes at 64-bit addresses, read as little-endian words, the headers of its
  objects, and the blocks that \<^verbatim>\<open>malloc\<close> has handed out. Headers are kept apart from the bytes, so that
  taking an address for a header where there is none is an outcome of its own. Offsets are those of a 64-bit
  target.
\<close>

unbundle bit_operations_syntax

section \<open>Loads and stores\<close>

type_synonym memory = "addr \<Rightarrow> 8 word"

fun load :: "nat \<Rightarrow> memory \<Rightarrow> addr \<Rightarrow> 64 word" where
  "load 0 m a = 0"
| "load (Suc n) m a = ucast (m a) + 256 * load n m (a + 1)"

abbreviation load64 :: "memory \<Rightarrow> addr \<Rightarrow> addr" where
  "load64 m a \<equiv> load 8 m a"

abbreviation load32 :: "memory \<Rightarrow> addr \<Rightarrow> 32 word" where
  "load32 m a \<equiv> ucast (load 4 m a)"

fun store :: "addr \<Rightarrow> 8 word list \<Rightarrow> memory \<Rightarrow> memory" where
  "store a [] m = m"
| "store a (b # bs) m = store (a + 1) bs (m(a := b))"

fun bytesOf :: "nat \<Rightarrow> 64 word \<Rightarrow> 8 word list" where
  "bytesOf 0 w = []"
| "bytesOf (Suc n) w = ucast w # bytesOf n (drop_bit 8 w)"

definition memset0 :: "addr \<Rightarrow> nat \<Rightarrow> memory \<Rightarrow> memory" where
  "memset0 a n m = (\<lambda>x. if unat (x - a) < n then 0 else m x)"

section \<open>Headers\<close>

datatype Tag = TagString | TagList | TagDict | TagClosure | TagObject | TagTuple | TagBoxed | TagSet
  | TagGenerator | TagTask | TagChannel | TagOther

definition tagOf :: "8 word \<Rightarrow> Tag" where
  "tagOf t =
     (if t = 1 then TagString else if t = 2 then TagList else if t = 3 then TagDict
      else if t = 4 then TagClosure else if t = 5 then TagObject else if t = 6 then TagTuple
      else if t = 7 then TagBoxed else if t = 8 then TagSet else if t = 9 then TagGenerator
      else if t = 10 then TagTask else if t = 11 then TagChannel else TagOther)"

record GCHeader =
  type_tag :: "8 word"
  marked :: bool
  hsize :: "32 word"
  field_count :: "32 word"

definition HEADER :: nat where
  "HEADER = 24"

definition userOf :: "addr \<Rightarrow> addr" where
  "userOf hdr = hdr + of_nat HEADER"

definition get_header :: "addr \<Rightarrow> addr" where
  "get_header p = (if p = 0 then 0 else p - of_nat HEADER)"

section \<open>The words of an object that may be pointers\<close>

partial_function (option) tasks :: "memory \<Rightarrow> addr \<Rightarrow> addr list option" where
  "tasks m t = (if t = 0 then Some [] else tasks m (load64 m (t + 40)) \<bind> (\<lambda>ts. Some (t # ts)))"

declare tasks.simps [code]

definition wordsAt :: "memory \<Rightarrow> addr \<Rightarrow> nat \<Rightarrow> addr list" where
  "wordsAt m a n = map (\<lambda>i. load64 m (a + of_nat (8 * i))) [0..<n]"

definition listElems :: "memory \<Rightarrow> addr \<Rightarrow> addr list" where
  "listElems m p = wordsAt m (load64 m p) (nat (sint (load64 m (p + 8))))"

definition dictEntry :: "memory \<Rightarrow> addr \<Rightarrow> addr list" where
  "dictEntry m ent = (if m (ent + 16) = 1 then [load64 m ent, load64 m (ent + 8)] else [])"

definition dictElems :: "memory \<Rightarrow> addr \<Rightarrow> addr list" where
  "dictElems m p =
     (let base = load64 m p
      in if base = 0 then []
         else concat (map (\<lambda>i. dictEntry m (base + of_nat (i * 24))) [0..<nat (sint (load64 m (p + 8)))]))"

definition objectFields :: "memory \<Rightarrow> addr \<Rightarrow> GCHeader \<Rightarrow> addr list" where
  "objectFields m p hdr =
     (if field_count hdr > 0
      then let offsets_bytes = unat (field_count hdr) * 4;
               payload = hsize hdr - of_nat HEADER - of_nat offsets_bytes;
               offsets = p + ucast payload
           in map (\<lambda>i. load64 m (p + ucast (load32 m (offsets + of_nat (4 * i))))) [0..<unat (field_count hdr)]
      else wordsAt m p (unat (hsize hdr - of_nat HEADER) div 8))"

definition generatorSlots :: "memory \<Rightarrow> addr \<Rightarrow> addr list" where
  "generatorSlots m p = wordsAt m (p + 24) (nat (sint (load32 m (p + 4))))"

definition taskEnv :: "memory \<Rightarrow> addr \<Rightarrow> addr" where
  "taskEnv m t = load64 m (t + 8)"

definition candidates :: "memory \<Rightarrow> addr \<Rightarrow> GCHeader \<Rightarrow> addr list option" where
  "candidates m p hdr =
     (case tagOf (type_tag hdr) of
        TagString \<Rightarrow> Some []
      | TagList \<Rightarrow> Some (listElems m p)
      | TagDict \<Rightarrow> Some (dictElems m p)
      | TagClosure \<Rightarrow> Some [load64 m p]
      | TagObject \<Rightarrow> Some (objectFields m p hdr)
      | TagTuple \<Rightarrow> Some (listElems m p)
      | TagBoxed \<Rightarrow> Some []
      | TagSet \<Rightarrow> Some []
      | TagGenerator \<Rightarrow> Some (generatorSlots m p)
      | TagTask \<Rightarrow> Some [taskEnv m p]
      | TagChannel \<Rightarrow> do {
          senders \<leftarrow> tasks m (load64 m (p + 48));
          receivers \<leftarrow> tasks m (load64 m (p + 56));
          Some (map (taskEnv m) (senders @ receivers)) }
      | TagOther \<Rightarrow> Some [])"

end
