(* ===== verification/Gc_Heap.thy ===== *)
theory Gc_Heap
  imports Gc_Memory
begin

text \<open>
  The collector (\<^verbatim>\<open>stdlib/gc.c\<close>): allocation, marking, sweeping and collection as functions of its static
  state. The intrusive lists of live objects and of cached free blocks are lists of header addresses. A run
  ends in a state, ends with a fault, or does not end. The answers of \<^verbatim>\<open>malloc\<close> and the stack pointer are
  parameters; the lock and the measuring of pauses are left out. Byte counts are natural numbers, with the
  wrap-around of \<^verbatim>\<open>size_t\<close> written out where a request can cause it.
\<close>

unbundle bit_operations_syntax

section \<open>Outcomes\<close>

text \<open>
  The faults: bytes that are no header are read as one, a write past the end of a block, and the end of the
  process with a message.
\<close>

datatype fault = StrayHeader addr | Overrun addr | Exit string

type_synonym 'a run = "(fault + 'a) option"

definition okR :: "'a \<Rightarrow> 'a run" where
  "okR x = Some (Inr x)"

definition failR :: "fault \<Rightarrow> 'a run" where
  "failR e = Some (Inl e)"

definition bindR :: "'a run \<Rightarrow> ('a \<Rightarrow> 'b run) \<Rightarrow> 'b run" where
  "bindR m f = m \<bind> (\<lambda>r. case r of Inl e \<Rightarrow> Some (Inl e) | Inr x \<Rightarrow> f x)"

fun eachR :: "('a \<Rightarrow> 's \<Rightarrow> 's run) \<Rightarrow> 'a list \<Rightarrow> 's \<Rightarrow> 's run" where
  "eachR f [] s = okR s"
| "eachR f (x # xs) s = bindR (f x s) (eachR f xs)"

lemma bindR_mono [partial_function_mono]:
  assumes "mono_option m" "\<And>x. mono_option (\<lambda>F. f F x)"
  shows "mono_option (\<lambda>F. bindR (m F) (f F))"
  unfolding bindR_def
proof (rule bind_mono[OF assms(1)])
  fix r show "mono_option (\<lambda>F. case r of Inl e \<Rightarrow> Some (Inl e) | Inr x \<Rightarrow> f F x)"
    using assms(2) by (cases r) (simp_all add: option.const_mono)
qed

lemma eachR_mono [partial_function_mono]:
  assumes "\<And>x s. mono_option (\<lambda>F. f F x s)"
  shows "mono_option (\<lambda>F. eachR (f F) xs s)"
proof (induction xs arbitrary: s)
  case (Cons x xs)
  then show ?case unfolding eachR.simps by (intro bindR_mono assms)
qed (simp add: option.const_mono)

section \<open>The state\<close>

definition fl_class_sizes :: "nat list" where
  "fl_class_sizes = [32, 64, 128, 256]"

definition FL_MAX_PER_CLASS :: nat where
  "FL_MAX_PER_CLASS = 32768"

definition MAX_GLOBAL_ROOTS :: nat where
  "MAX_GLOBAL_ROOTS = 4096"

definition MIN_THRESHOLD :: nat where
  "MIN_THRESHOLD = 1 * 1024 * 1024"

definition UINTPTR_MAX :: addr where
  "UINTPTR_MAX = - 1"

record GCStats =
  total_collections :: nat
  total_bytes_collected :: nat
  current_live_bytes :: nat
  peak_heap_bytes :: nat

record Gc =
  heap :: "addr list"
  hdrs :: "addr \<rightharpoonup> GCHeader"
  mem :: memory
  blocks :: "addr \<rightharpoonup> nat"
  heap_bytes :: nat
  gc_threshold :: nat
  stack_bottom :: addr
  global_roots :: "addr list"
  gc_stats :: GCStats
  heap_lo :: addr
  heap_hi :: addr
  fl_heads :: "addr list list"
  ptr_map :: PtrMap
  chunk_table :: ChunkTable
  ready_head :: addr

definition noStats :: GCStats where
  "noStats = \<lparr>total_collections = 0, total_bytes_collected = 0, current_live_bytes = 0, peak_heap_bytes = 0\<rparr>"

definition gc_init :: "addr \<Rightarrow> Gc \<Rightarrow> Gc" where
  "gc_init sb st = st\<lparr>stack_bottom := sb, heap := [], heap_bytes := 0, gc_threshold := MIN_THRESHOLD,
     heap_lo := UINTPTR_MAX, heap_hi := 0, global_roots := [], gc_stats := noStats, ptr_map := ptr_map_init\<rparr>"

definition register_global :: "addr \<Rightarrow> Gc \<Rightarrow> Gc" where
  "register_global p st =
     (if length (global_roots st) < MAX_GLOBAL_ROOTS then st\<lparr>global_roots := global_roots st @ [p]\<rparr> else st)"

definition cfree :: "addr \<Rightarrow> Gc \<Rightarrow> Gc" where
  "cfree p st = st\<lparr>blocks := (blocks st)(p := None), hdrs := (hdrs st)(p := None)\<rparr>"

section \<open>The pool of free blocks\<close>

fun classFrom :: "nat \<Rightarrow> nat list \<Rightarrow> nat \<Rightarrow> nat option" where
  "classFrom c [] tot = None"
| "classFrom c (s # ss) tot = (if tot \<le> s then Some c else classFrom (c + 1) ss tot)"

definition fl_class_for :: "nat \<Rightarrow> nat option" where
  "fl_class_for tot = classFrom 0 fl_class_sizes tot"

definition fl_pop :: "nat option \<Rightarrow> Gc \<Rightarrow> addr \<times> Gc" where
  "fl_pop cls st =
     (case cls of None \<Rightarrow> (0, st)
      | Some c \<Rightarrow> (case fl_heads st ! c of
          [] \<Rightarrow> (0, st)
        | hdr # rest \<Rightarrow> (hdr, st\<lparr>fl_heads := (fl_heads st)[c := rest]\<rparr>)))"

definition sizeOf :: "Gc \<Rightarrow> addr \<Rightarrow> nat" where
  "sizeOf st hdr = (case hdrs st hdr of None \<Rightarrow> 0 | Some h \<Rightarrow> unat (hsize h))"

definition fl_push :: "addr \<Rightarrow> Gc \<Rightarrow> bool \<times> Gc" where
  "fl_push hdr st =
     (case fl_class_for (sizeOf st hdr) of
        None \<Rightarrow> (False, st)
      | Some c \<Rightarrow>
          if length (fl_heads st ! c) \<ge> FL_MAX_PER_CLASS then (False, st)
          else (True, st\<lparr>fl_heads := (fl_heads st)[c := hdr # fl_heads st ! c]\<rparr>))"

definition fl_free_all :: "Gc \<Rightarrow> Gc" where
  "fl_free_all st = (fold cfree (concat (fl_heads st)) st)\<lparr>fl_heads := map (\<lambda>_. []) (fl_heads st)\<rparr>"

section \<open>Marking\<close>

definition find_gc_header :: "addr \<Rightarrow> Gc \<Rightarrow> addr option" where
  "find_gc_header p st =
     (if p = 0 then Some 0
      else do {
        h \<leftarrow> ptr_map_lookup p (ptr_map st);
        Some (if h \<noteq> 0 then h
              else if p < heap_lo st \<or> p \<ge> heap_hi st then 0
              else chunk_table_lookup p (chunk_table st)) })"

definition ifFound :: "(addr \<Rightarrow> Gc \<Rightarrow> Gc run) \<Rightarrow> addr \<Rightarrow> Gc \<Rightarrow> Gc run" where
  "ifFound mark p st = find_gc_header p st \<bind> (\<lambda>h. if h = 0 then okR st else mark p st)"

lemma ifFound_mono [partial_function_mono]:
  assumes "\<And>p s. mono_option (\<lambda>F. f F p s)"
  shows "mono_option (\<lambda>F. ifFound (f F) p st)"
  unfolding ifFound_def by (intro bind_mono assms if_mono option.const_mono)

definition set_marked :: "bool \<Rightarrow> addr \<Rightarrow> Gc \<Rightarrow> Gc" where
  "set_marked b hdr st = st\<lparr>hdrs := (hdrs st)(hdr := map_option (\<lambda>h. h\<lparr>marked := b\<rparr>) (hdrs st hdr))\<rparr>"

partial_function (option) mark_internal :: "addr \<Rightarrow> Gc \<Rightarrow> Gc run" where
  "mark_internal p st =
     (if p = 0 then okR st
      else case hdrs st (get_header p) of
        None \<Rightarrow> failR (StrayHeader p)
      | Some hdr \<Rightarrow>
          if marked hdr then okR st
          else candidates (mem st) p hdr \<bind> (\<lambda>cs.
                 eachR (ifFound mark_internal) cs (set_marked True (get_header p) st)))"

declare mark_internal.simps [code]

definition mark_global_roots :: "Gc \<Rightarrow> Gc run" where
  "mark_global_roots st = eachR (\<lambda>g st. ifFound mark_internal (load64 (mem st) g) st) (global_roots st) st"

definition stackSlots :: "addr \<Rightarrow> Gc \<Rightarrow> addr list" where
  "stackSlots sp st =
     (let lo = (if sp < stack_bottom st then sp else stack_bottom st);
          hi = (if sp < stack_bottom st then stack_bottom st else sp)
      in map (\<lambda>i. lo + of_nat (8 * i)) [0..<(unat hi - unat lo + 7) div 8])"

definition mark_stack :: "addr \<Rightarrow> Gc \<Rightarrow> Gc run" where
  "mark_stack sp st =
     (if stack_bottom st = 0 then okR st
      else eachR (\<lambda>p st. ifFound mark_internal (load64 (mem st) p) st) (stackSlots sp st) st)"

definition mark_ready :: "Gc \<Rightarrow> Gc run" where
  "mark_ready st = tasks (mem st) (ready_head st) \<bind> (\<lambda>ts. eachR (ifFound mark_internal) ts st)"

definition mark_roots :: "addr \<Rightarrow> Gc \<Rightarrow> Gc run" where
  "mark_roots sp st = bindR (bindR (mark_global_roots st) (mark_stack sp)) mark_ready"

section \<open>Sweeping\<close>

definition ownsArray :: "Tag \<Rightarrow> bool" where
  "ownsArray t \<longleftrightarrow> t = TagList \<or> t = TagTuple \<or> t = TagDict \<or> t = TagSet"

definition finalize :: "addr \<Rightarrow> Gc \<Rightarrow> Gc" where
  "finalize hdr st =
     (let user = userOf hdr
      in case hdrs st hdr of None \<Rightarrow> st
         | Some h \<Rightarrow>
             if ownsArray (tagOf (type_tag h)) \<and> load64 (mem st) user \<noteq> 0
             then (cfree (load64 (mem st) user) st)\<lparr>mem := store user (bytesOf 8 0) (mem st)\<rparr>
             else st)"

definition isMarked :: "Gc \<Rightarrow> addr \<Rightarrow> bool" where
  "isMarked st hdr \<longleftrightarrow> (case hdrs st hdr of None \<Rightarrow> False | Some h \<Rightarrow> marked h)"

definition release :: "addr \<Rightarrow> Gc \<Rightarrow> Gc" where
  "release hdr st =
     (let obj_size = sizeOf st hdr;
          st = st\<lparr>heap_bytes := heap_bytes st - obj_size,
                  gc_stats := (gc_stats st)\<lparr>total_bytes_collected := total_bytes_collected (gc_stats st) + obj_size\<rparr>\<rparr>;
          st = finalize hdr st;
          (cached, st) = fl_push hdr st
      in if cached then st else cfree hdr st)"

definition sweepStep :: "addr \<Rightarrow> addr list \<times> Gc \<Rightarrow> addr list \<times> Gc" where
  "sweepStep hdr s =
     (case s of (kept, st) \<Rightarrow>
        if isMarked st hdr then (kept @ [hdr], set_marked False hdr st) else (kept, release hdr st))"

definition bounds :: "Gc \<Rightarrow> addr \<times> addr" where
  "bounds st = fold (\<lambda>h (lo, hi).
       let start = h; end = start + of_nat (sizeOf st h)
       in (if start < lo then start else lo, if end > hi then end else hi)) (heap st) (UINTPTR_MAX, 0)"

definition sweep :: "Gc \<Rightarrow> Gc option" where
  "sweep st =
     (let (kept, st) = fold sweepStep (heap st) ([], st);
          st = st\<lparr>heap := kept\<rparr>;
          st = st\<lparr>gc_stats := (gc_stats st)\<lparr>current_live_bytes := heap_bytes st\<rparr>\<rparr>
      in map_option (\<lambda>m.
           let st = st\<lparr>ptr_map := m, chunk_table := chunk_table_free (chunk_table st)\<rparr>;
               (lo, hi) = bounds st
           in st\<lparr>heap_lo := lo, heap_hi := hi\<rparr>)
         (ptr_map_rebuild (map (\<lambda>h. (userOf h, h)) (heap st)) (ptr_map st)))"

section \<open>Collection\<close>

definition payloadOf :: "Gc \<Rightarrow> addr \<Rightarrow> nat" where
  "payloadOf st hdr = (case hdrs st hdr of None \<Rightarrow> 0 | Some h \<Rightarrow> unat (hsize h - of_nat HEADER))"

definition buildChunks :: "Gc \<Rightarrow> Gc" where
  "buildChunks st = st\<lparr>chunk_table :=
     fold (\<lambda>h. chunk_table_add_range (userOf h) (payloadOf st h) h) (heap st) chunk_table_init\<rparr>"

definition adjust :: "Gc \<Rightarrow> Gc" where
  "adjust st =
     (let new_threshold = heap_bytes st * 2;
          new_threshold = (if new_threshold < MIN_THRESHOLD then MIN_THRESHOLD else new_threshold)
      in st\<lparr>gc_threshold := new_threshold,
            gc_stats := (gc_stats st)\<lparr>total_collections := total_collections (gc_stats st) + 1\<rparr>\<rparr>)"

definition collect :: "addr \<Rightarrow> Gc \<Rightarrow> Gc run" where
  "collect sp st =
     bindR (mark_roots sp (buildChunks st)) (\<lambda>st. sweep st \<bind> (\<lambda>st. okR (adjust st)))"

section \<open>Allocation\<close>

definition size_t :: "nat \<Rightarrow> nat" where
  "size_t n = n mod 2 ^ 64"

definition SIZE_MAX :: nat where
  "SIZE_MAX = 2 ^ 64 - 1"

definition UINT32_MAX :: nat where
  "UINT32_MAX = 2 ^ 32 - 1"

definition gotBlock :: "addr \<Rightarrow> nat \<Rightarrow> Gc \<Rightarrow> Gc" where
  "gotBlock p n st = st\<lparr>blocks := (blocks st)(p \<mapsto> n)\<rparr>"

definition obtainBlock :: "addr \<Rightarrow> addr \<Rightarrow> addr \<Rightarrow> nat \<Rightarrow> Gc \<Rightarrow> (addr \<times> Gc) run" where
  "obtainBlock sp r1 r2 tot st =
     (if r1 \<noteq> 0 then okR (r1, gotBlock r1 tot st)
      else bindR (collect sp st) (\<lambda>st.
             if r2 \<noteq> 0 then okR (r2, gotBlock r2 tot st) else failR (Exit ''out of memory'')))"

definition link :: "addr \<Rightarrow> GCHeader \<Rightarrow> nat \<Rightarrow> Gc \<Rightarrow> Gc" where
  "link hdr h tot st =
     (let bytes = heap_bytes st + tot; s = gc_stats st
      in st\<lparr>hdrs := (hdrs st)(hdr \<mapsto> h), heap := hdr # heap st, heap_bytes := bytes,
            gc_stats := s\<lparr>peak_heap_bytes := (if bytes > peak_heap_bytes s then bytes else peak_heap_bytes s),
                          current_live_bytes := bytes\<rparr>\<rparr>)"

definition register :: "addr \<Rightarrow> nat \<Rightarrow> Gc \<Rightarrow> Gc option" where
  "register hdr tot st = map_option (\<lambda>m.
     let htop = hdr + of_nat tot
     in st\<lparr>ptr_map := m,
           heap_lo := (if hdr < heap_lo st then hdr else heap_lo st),
           heap_hi := (if htop > heap_hi st then htop else heap_hi st)\<rparr>)
     (ptr_map_insert (userOf hdr) hdr (ptr_map st))"

definition writeBytes :: "addr \<Rightarrow> nat \<Rightarrow> nat \<Rightarrow> (memory \<Rightarrow> memory) \<Rightarrow> Gc \<Rightarrow> Gc run" where
  "writeBytes hdr offset n f st =
     (if n > 0 \<and> (case blocks st hdr of None \<Rightarrow> True | Some b \<Rightarrow> offset + n > b) then failR (Overrun hdr)
      else okR (st\<lparr>mem := f (mem st)\<rparr>))"

definition collectIfOver :: "addr \<Rightarrow> nat \<Rightarrow> Gc \<Rightarrow> Gc run" where
  "collectIfOver sp n st = (if size_t (heap_bytes st + HEADER + n) > gc_threshold st then collect sp st else okR st)"

definition alloc :: "addr \<Rightarrow> addr \<Rightarrow> addr \<Rightarrow> nat \<Rightarrow> 8 word \<Rightarrow> Gc \<Rightarrow> (addr \<times> Gc) run" where
  "alloc sp r1 r2 sz tag st =
     bindR (collectIfOver sp sz st) (\<lambda>st.
     if sz > SIZE_MAX - HEADER then failR (Exit ''allocation size overflow'')
     else
       let tot = HEADER + sz;
           fl_cls = fl_class_for tot;
           tot = (case fl_cls of None \<Rightarrow> tot | Some c \<Rightarrow> fl_class_sizes ! c);
           (hdr, st) = fl_pop fl_cls st
       in bindR (if hdr \<noteq> 0 then okR (hdr, st) else obtainBlock sp r1 r2 tot st) (\<lambda>(hdr, st).
          if tot > UINT32_MAX then failR (Exit ''allocation too large'')
          else
            let st = link hdr \<lparr>type_tag = tag, marked = False, hsize = of_nat tot, field_count = 0\<rparr> tot st
            in bindR (writeBytes hdr HEADER sz (memset0 (userOf hdr) sz) st) (\<lambda>st.
               register hdr tot st \<bind> (\<lambda>st. okR (userOf hdr, st)))))"

definition copyOffsets :: "addr \<Rightarrow> 32 word list \<Rightarrow> memory \<Rightarrow> memory" where
  "copyOffsets tail offsets m = store tail (concat (map (\<lambda>w. bytesOf 4 (ucast w)) offsets)) m"

definition alloc_object :: "addr \<Rightarrow> addr \<Rightarrow> addr \<Rightarrow> nat \<Rightarrow> 32 word list \<Rightarrow> Gc \<Rightarrow> (addr \<times> Gc) run" where
  "alloc_object sp r1 r2 payload field_offsets st =
     (let offsets_bytes = length field_offsets * 4;
          total_payload = size_t (payload + offsets_bytes)
      in bindR (collectIfOver sp total_payload st) (\<lambda>st.
         if total_payload > SIZE_MAX - HEADER then failR (Exit ''allocation size overflow'')
         else
           let tot = HEADER + total_payload
           in if tot > UINT32_MAX then failR (Exit ''allocation too large'')
              else bindR (obtainBlock sp r1 r2 tot st) (\<lambda>(hdr, st).
                let st = link hdr \<lparr>type_tag = 5, marked = False, hsize = of_nat tot,
                                    field_count = of_nat (length field_offsets)\<rparr> tot st
                in bindR (writeBytes hdr HEADER payload (memset0 (userOf hdr) payload) st) (\<lambda>st.
                   bindR (writeBytes hdr (HEADER + payload) offsets_bytes
                            (copyOffsets (userOf hdr + of_nat payload) field_offsets) st) (\<lambda>st.
                   register hdr tot st \<bind> (\<lambda>st. okR (userOf hdr, st)))))))"

section \<open>Shutdown\<close>

definition gc_shutdown :: "Gc \<Rightarrow> Gc" where
  "gc_shutdown st =
     (let st = fold (\<lambda>h st. cfree h (finalize h st)) (heap st) st;
          st = st\<lparr>heap := [], heap_bytes := 0\<rparr>;
          st = st\<lparr>ptr_map := ptr_map_free (ptr_map st), chunk_table := chunk_table_free (chunk_table st)\<rparr>
      in fl_free_all st)"

end
