(* ===== verification/Gc_Mark.thy ===== *)
theory Gc_Mark
  imports Gc_Heap
begin

text \<open>
  What marking does: it ends, it changes nothing but marks, and the pointers it has marked are those that are
  reachable from the roots over the words the collector traces; the only way to fail is a reachable pointer
  that is not the start of an object.
\<close>

section \<open>The traced graph\<close>

definition found :: "Gc \<Rightarrow> addr \<Rightarrow> bool" where
  "found st p \<longleftrightarrow> (\<exists>h. find_gc_header p st = Some h \<and> h \<noteq> 0)"

definition traced :: "Gc \<Rightarrow> addr \<Rightarrow> addr list" where
  "traced st p = (case hdrs st (get_header p) of None \<Rightarrow> []
     | Some hdr \<Rightarrow> (case candidates (mem st) p hdr of None \<Rightarrow> [] | Some cs \<Rightarrow> cs))"

definition edge :: "Gc \<Rightarrow> addr \<Rightarrow> addr \<Rightarrow> bool" where
  "edge st p c \<longleftrightarrow> p \<noteq> 0 \<and> c \<in> set (traced st p) \<and> found st c"

abbreviation reach :: "Gc \<Rightarrow> addr \<Rightarrow> addr \<Rightarrow> bool" where
  "reach st \<equiv> (edge st)\<^sup>*\<^sup>*"

definition marks :: "Gc \<Rightarrow> addr set" where
  "marks st = {p. p \<noteq> 0 \<and> isMarked st (get_header p)}"

definition unmarked :: "Gc \<Rightarrow> nat" where
  "unmarked st = card {a \<in> dom (hdrs st). \<not> isMarked st a}"

definition traceable :: "Gc \<Rightarrow> bool" where
  "traceable st \<longleftrightarrow> finite (dom (hdrs st)) \<and> (\<forall>p. find_gc_header p st \<noteq> None)
     \<and> (\<forall>p hdr. found st p \<longrightarrow> hdrs st (get_header p) = Some hdr \<longrightarrow> candidates (mem st) p hdr \<noteq> None)"

definition unmark :: "GCHeader \<Rightarrow> GCHeader" where
  "unmark h = h\<lparr>marked := False\<rparr>"

definition onlyMarks :: "Gc \<Rightarrow> Gc \<Rightarrow> bool" where
  "onlyMarks st st' \<longleftrightarrow> st' = st\<lparr>hdrs := hdrs st'\<rparr>
     \<and> (\<forall>a. map_option unmark (hdrs st' a) = map_option unmark (hdrs st a))
     \<and> (\<forall>a. isMarked st a \<longrightarrow> isMarked st' a)"

section \<open>Changes of marks only\<close>

lemma onlyMarks_refl: "onlyMarks st st"
  by (simp add: onlyMarks_def)

lemma onlyMarks_trans: "onlyMarks st st1 \<Longrightarrow> onlyMarks st1 st2 \<Longrightarrow> onlyMarks st st2"
  unfolding onlyMarks_def by (metis Gc.surjective Gc.update_convs(2))

lemma onlyMarks_fields:
  assumes "onlyMarks st st'"
  shows "mem st' = mem st" "ptr_map st' = ptr_map st" "chunk_table st' = chunk_table st" "heap st' = heap st"
    "heap_lo st' = heap_lo st" "heap_hi st' = heap_hi st" "global_roots st' = global_roots st"
    "stack_bottom st' = stack_bottom st" "ready_head st' = ready_head st"
  using assms by (auto simp: onlyMarks_def) (metis Gc.select_convs Gc.update_convs(2) Gc.surjective)+

lemma onlyMarks_dom: "onlyMarks st st' \<Longrightarrow> hdrs st' a = None \<longleftrightarrow> hdrs st a = None"
  unfolding onlyMarks_def by (metis option.map_disc_iff)

lemma candidates_unmark: "candidates m p (unmark h) = candidates m p h"
proof -
  have "objectFields m p (unmark h) = objectFields m p h" by (simp add: objectFields_def unmark_def)
  moreover have "type_tag (unmark h) = type_tag h" by (simp add: unmark_def)
  ultimately show ?thesis unfolding candidates_def by (simp only:)
qed

lemma onlyMarks_find: "onlyMarks st st' \<Longrightarrow> find_gc_header p st' = find_gc_header p st"
  unfolding find_gc_header_def
  by (frule onlyMarks_fields(2), frule onlyMarks_fields(3), frule onlyMarks_fields(5), drule onlyMarks_fields(6))
    (simp only:)

lemma onlyMarks_found: "onlyMarks st st' \<Longrightarrow> found st' = found st"
  by (simp add: found_def onlyMarks_find fun_eq_iff)

lemma onlyMarks_candidates:
  assumes "onlyMarks st st'"
  shows "map_option (candidates (mem st') p) (hdrs st' a) = map_option (candidates (mem st) p) (hdrs st a)"
proof -
  have "map_option unmark (hdrs st' a) = map_option unmark (hdrs st a)" using assms by (simp add: onlyMarks_def)
  then show ?thesis
    unfolding onlyMarks_fields(1)[OF assms]
    by (cases "hdrs st a"; cases "hdrs st' a") (auto simp: candidates_unmark dest: arg_cong[where f = "candidates (mem st) p"])
qed

lemma onlyMarks_traced: "onlyMarks st st' \<Longrightarrow> traced st' = traced st"
proof
  fix p assume "onlyMarks st st'"
  from onlyMarks_candidates[OF this, of p "get_header p"] show "traced st' p = traced st p"
    by (cases "hdrs st (get_header p)"; cases "hdrs st' (get_header p)") (auto simp: traced_def)
qed

lemma onlyMarks_edge: "onlyMarks st st' \<Longrightarrow> edge st' = edge st"
  by (simp add: edge_def onlyMarks_traced onlyMarks_found fun_eq_iff)

lemma onlyMarks_traceable: "onlyMarks st st' \<Longrightarrow> traceable st \<Longrightarrow> traceable st'"
proof -
  assume m: "onlyMarks st st'" and t: "traceable st"
  have "dom (hdrs st') = dom (hdrs st)" using onlyMarks_dom[OF m] by (auto simp: dom_def)
  moreover have "candidates (mem st') p hdr \<noteq> None" if "found st p" "hdrs st' (get_header p) = Some hdr" for p hdr
    using onlyMarks_candidates[OF m, of p "get_header p"] onlyMarks_dom[OF m, of "get_header p"] that t
    by (cases "hdrs st (get_header p)") (auto simp: traceable_def)
  ultimately show ?thesis using t by (simp add: traceable_def onlyMarks_find[OF m] onlyMarks_found[OF m])
qed

lemma onlyMarks_marks: "onlyMarks st st' \<Longrightarrow> marks st \<subseteq> marks st'"
  by (auto simp: onlyMarks_def marks_def)

lemma isMarked_None: "isMarked st a \<Longrightarrow> hdrs st a \<noteq> None"
  by (auto simp: isMarked_def split: option.splits)

lemma onlyMarks_unmarked:
  assumes "onlyMarks st st'" "finite (dom (hdrs st))"
  shows "unmarked st' \<le> unmarked st"
  unfolding unmarked_def
proof (rule card_mono)
  show "finite {a \<in> dom (hdrs st). \<not> isMarked st a}" using assms(2) by (rule rev_finite_subset) auto
  show "{a \<in> dom (hdrs st'). \<not> isMarked st' a} \<subseteq> {a \<in> dom (hdrs st). \<not> isMarked st a}"
  proof
    fix a assume a: "a \<in> {a \<in> dom (hdrs st'). \<not> isMarked st' a}"
    then have "hdrs st a \<noteq> None" using onlyMarks_dom[OF assms(1), of a] by auto
    moreover have "\<not> isMarked st a" using a assms(1) by (auto simp: onlyMarks_def)
    ultimately show "a \<in> {a \<in> dom (hdrs st). \<not> isMarked st a}" by auto
  qed
qed

lemma isMarked_set: "isMarked (set_marked True a st) b \<longleftrightarrow> isMarked st b \<or> (b = a \<and> hdrs st a \<noteq> None)"
  by (auto simp: isMarked_def set_marked_def split: option.splits)

lemma set_marked_only: "onlyMarks st (set_marked True a st)"
  unfolding onlyMarks_def
proof (intro conjI allI impI)
  show "isMarked st b \<Longrightarrow> isMarked (set_marked True a st) b" for b by (simp add: isMarked_set)
qed (auto simp: set_marked_def unmark_def[abs_def] option.map_comp comp_def)

lemma set_marked_unmarked:
  assumes "finite (dom (hdrs st))" "hdrs st a = Some h" "\<not> marked h"
  shows "unmarked (set_marked True a st) < unmarked st"
  unfolding unmarked_def
proof (rule psubset_card_mono)
  show "finite {b \<in> dom (hdrs st). \<not> isMarked st b}" using assms(1) by (rule rev_finite_subset) auto
  have "a \<in> {b \<in> dom (hdrs st). \<not> isMarked st b}" using assms by (simp add: isMarked_def domI)
  moreover have "dom (hdrs (set_marked True a st)) = dom (hdrs st)" by (auto simp: set_marked_def)
  ultimately show "{b \<in> dom (hdrs (set_marked True a st)). \<not> isMarked (set_marked True a st) b} \<subset> {b \<in> dom (hdrs st). \<not> isMarked st b}"
    using assms(2) by (auto simp: isMarked_set)
qed

section \<open>The walk\<close>

definition stray :: "Gc \<Rightarrow> addr \<Rightarrow> bool" where
  "stray st q \<longleftrightarrow> q \<noteq> 0 \<and> hdrs st (get_header q) = None"

text \<open>
  The outcome of marking from a set of pointers: a stray pointer that is reachable from them, or a state with
  more marks in which the set is marked, the new marks are reachable from it, and the successors of every newly
  marked pointer are marked.
\<close>

definition walked :: "Gc \<Rightarrow> addr set \<Rightarrow> fault + Gc \<Rightarrow> bool" where
  "walked st S r \<longleftrightarrow> (case r of
     Inl e \<Rightarrow> (\<exists>s \<in> S. \<exists>q. reach st s q \<and> stray st q \<and> e = StrayHeader q)
   | Inr st' \<Rightarrow> onlyMarks st st' \<and> S \<subseteq> marks st'
       \<and> (\<forall>q \<in> marks st' - marks st. (\<exists>s \<in> S. reach st s q) \<and> (\<forall>c. edge st q c \<longrightarrow> c \<in> marks st')))"

lemma walked_refl: "S \<subseteq> marks st \<Longrightarrow> walked st S (Inr st)"
  by (simp add: walked_def onlyMarks_refl)

lemma walked_then:
  assumes "walked st S (Inr st1)" "walked st1 T r"
  shows "walked st (S \<union> T) r"
proof -
  have m: "onlyMarks st st1" and S: "S \<subseteq> marks st1" using assms(1) by (auto simp: walked_def)
  note e = onlyMarks_edge[OF m]
  show ?thesis
  proof (cases r)
    case (Inl x)
    then obtain s q where sq: "s \<in> T" "reach st1 s q" "stray st1 q" "x = StrayHeader q"
      using assms(2) by (auto simp: walked_def)
    have "stray st q" using sq(3) onlyMarks_dom[OF m, of "get_header q"] by (simp add: stray_def)
    then show ?thesis using Inl sq unfolding walked_def e by auto
  next
    case (Inr st2)
    then have m2: "onlyMarks st1 st2" using assms(2) by (simp add: walked_def)
    have "\<forall>q \<in> marks st2 - marks st. (\<exists>s \<in> S \<union> T. reach st s q) \<and> (\<forall>c. edge st q c \<longrightarrow> c \<in> marks st2)"
    proof
      fix q assume q: "q \<in> marks st2 - marks st"
      show "(\<exists>s \<in> S \<union> T. reach st s q) \<and> (\<forall>c. edge st q c \<longrightarrow> c \<in> marks st2)"
      proof (cases "q \<in> marks st1")
        case True
        then show ?thesis using assms(1) q onlyMarks_marks[OF m2] by (fastforce simp: walked_def)
      next
        case False
        then show ?thesis using assms(2) q Inr by (fastforce simp: walked_def e)
      qed
    qed
    moreover have "S \<union> T \<subseteq> marks st2" using assms(2) Inr S onlyMarks_marks[OF m2] by (auto simp: walked_def)
    ultimately show ?thesis using onlyMarks_trans[OF m m2] unfolding walked_def Inr sum.case by blast
  qed
qed

lemma walked_Inl: "walked st S (Inl e) \<Longrightarrow> S \<subseteq> T \<Longrightarrow> walked st T (Inl e)"
  by (auto simp: walked_def)

text \<open>
  A loop over words of memory, each of which is followed when it is found.
\<close>

definition follow :: "(memory \<Rightarrow> 'a \<Rightarrow> addr) \<Rightarrow> 'a list \<Rightarrow> Gc \<Rightarrow> Gc run" where
  "follow f xs st = eachR (\<lambda>x st. ifFound mark_internal (f (mem st) x) st) xs st"

definition hits :: "Gc \<Rightarrow> addr list \<Rightarrow> addr set" where
  "hits st ws = {w \<in> set ws. found st w}"

lemma ifFound_cases:
  assumes "traceable st"
  shows "ifFound mark p st = (if found st p then mark p st else okR st)"
proof -
  obtain h where h: "find_gc_header p st = Some h" using assms unfolding traceable_def by blast
  then have "found st p \<longleftrightarrow> h \<noteq> 0" by (simp add: found_def)
  then show ?thesis by (simp add: ifFound_def h)
qed

lemma follow_walked:
  assumes mark: "\<And>p st. traceable st \<Longrightarrow> unmarked st < n \<Longrightarrow> found st p \<Longrightarrow>
      \<exists>r. mark_internal p st = Some r \<and> walked st {p} r"
    and "traceable st" "unmarked st < n"
  shows "\<exists>r. follow f xs st = Some r \<and> walked st (hits st (map (f (mem st)) xs)) r"
  using assms(2,3)
proof (induction xs arbitrary: st)
  case Nil
  then show ?case by (simp add: follow_def okR_def hits_def walked_refl)
next
  case (Cons x xs)
  let ?p = "f (mem st) x"
  have hits: "hits st (map (f (mem st)) (x # xs)) = (if found st ?p then {?p} else {}) \<union> hits st (map (f (mem st)) xs)"
    by (auto simp: hits_def)
  obtain r where r: "ifFound mark_internal ?p st = Some r" "walked st (if found st ?p then {?p} else {}) r"
  proof (cases "found st ?p")
    case True
    then show thesis using mark[OF Cons.prems True] that by (auto simp: ifFound_cases[OF Cons.prems(1)])
  next
    case False
    then show thesis using that[of "Inr st"] by (simp add: ifFound_cases[OF Cons.prems(1)] okR_def walked_refl)
  qed
  show ?case
  proof (cases r)
    case (Inl e)
    then have "follow f (x # xs) st = Some (Inl e)" using r by (simp add: follow_def bindR_def)
    moreover have "walked st (hits st (map (f (mem st)) (x # xs))) (Inl e)"
      using walked_Inl r(2) Inl unfolding hits by blast
    ultimately show ?thesis by blast
  next
    case (Inr st1)
    then have m: "onlyMarks st st1" using r(2) by (simp add: walked_def)
    have "unmarked st1 < n" using onlyMarks_unmarked[OF m] Cons.prems by (simp add: traceable_def)
    then obtain r' where r': "follow f xs st1 = Some r'" "walked st1 (hits st1 (map (f (mem st1)) xs)) r'"
      using Cons.IH[OF onlyMarks_traceable[OF m Cons.prems(1)]] by blast
    have "hits st1 (map (f (mem st1)) xs) = hits st (map (f (mem st)) xs)"
      by (simp add: hits_def onlyMarks_found[OF m] onlyMarks_fields(1)[OF m])
    then have "walked st (hits st (map (f (mem st)) (x # xs))) r'"
      using walked_then r(2) r'(2) Inr unfolding hits by auto
    moreover have "follow f (x # xs) st = Some r'" using r r' Inr by (simp add: follow_def bindR_def)
    ultimately show ?thesis by blast
  qed
qed

lemma mark_walked:
  "traceable st \<Longrightarrow> found st p \<Longrightarrow> \<exists>r. mark_internal p st = Some r \<and> walked st {p} r"
proof (induction "unmarked st" arbitrary: st p rule: less_induct)
  case less
  have p: "p \<noteq> 0" using less.prems(2) by (auto simp: found_def find_gc_header_def)
  show ?case
  proof (cases "hdrs st (get_header p)")
    case None
    then have "walked st {p} (Inl (StrayHeader p))" using p by (auto simp: walked_def stray_def)
    then show ?thesis using None p by (subst mark_internal.simps) (simp add: failR_def)
  next
    case (Some hdr)
    show ?thesis
    proof (cases "marked hdr")
      case True
      then have "p \<in> marks st" using Some p by (simp add: marks_def isMarked_def)
      then show ?thesis using True Some p by (subst mark_internal.simps) (simp add: okR_def walked_refl)
    next
      case False
      let ?st = "set_marked True (get_header p) st"
      obtain cs where cs: "candidates (mem st) p hdr = Some cs"
        using less.prems Some unfolding traceable_def by (metis not_Some_eq)
      have m: "onlyMarks st ?st" by (rule set_marked_only)
      have fin: "finite (dom (hdrs st))" using less.prems(1) by (simp add: traceable_def)
      have run: "mark_internal p st = follow (\<lambda>m c. c) cs ?st"
        using Some False p cs by (subst mark_internal.simps) (simp add: follow_def)
      obtain r where r: "follow (\<lambda>m c. c) cs ?st = Some r" "walked ?st (hits ?st cs) r"
        using follow_walked[of "unmarked st" ?st "\<lambda>m c. c" cs] less.hyps
          onlyMarks_traceable[OF m less.prems(1)] set_marked_unmarked[OF fin Some False] by auto
      have next_words: "hits ?st cs = {c. edge st p c}"
        using Some cs p by (auto simp: hits_def edge_def traced_def onlyMarks_found[OF m])
      have "walked st {p} r"
      proof (cases r)
        case (Inl e)
        then obtain c q where "edge st p c" "reach st c q" "stray ?st q" "e = StrayHeader q"
          using r(2) unfolding next_words by (auto simp: walked_def onlyMarks_edge[OF m])
        moreover have "stray st q" if "stray ?st q" for q using that onlyMarks_dom[OF m] by (simp add: stray_def)
        ultimately show ?thesis using Inl by (auto simp: walked_def intro: converse_rtranclp_into_rtranclp)
      next
        case (Inr st')
        then have m': "onlyMarks ?st st'" and w: "{c. edge st p c} \<subseteq> marks st'"
          and new: "\<forall>q \<in> marks st' - marks ?st. (\<exists>c. edge st p c \<and> reach st c q) \<and> (\<forall>c. edge st q c \<longrightarrow> c \<in> marks st')"
          using r(2) unfolding next_words by (auto simp: walked_def onlyMarks_edge[OF m])
        have marks: "marks ?st = insert p (marks st)"
        proof -
          have "get_header q = get_header p \<longleftrightarrow> q = p" if "q \<noteq> 0" for q using that p by (simp add: get_header_def)
          then show ?thesis using Some p by (auto simp: marks_def isMarked_set)
        qed
        have "p \<in> marks st'" using onlyMarks_marks[OF m'] marks by auto
        moreover have "(\<exists>s \<in> {p}. reach st s q) \<and> (\<forall>c. edge st q c \<longrightarrow> c \<in> marks st')"
          if "q \<in> marks st' - marks st" for q
        proof (cases "q = p")
          case False
          then have "q \<in> marks st' - marks ?st" using that marks by auto
          then show ?thesis using new by (auto intro: converse_rtranclp_into_rtranclp)
        qed (use w in auto)
        ultimately show ?thesis using Inr onlyMarks_trans[OF m m'] by (auto simp: walked_def)
      qed
      then show ?thesis using run r(1) by simp
    qed
  qed
qed

section \<open>The roots\<close>

definition rootWords :: "addr \<Rightarrow> Gc \<Rightarrow> addr list option" where
  "rootWords sp st = map_option (\<lambda>ts. map (load64 (mem st)) (global_roots st)
     @ (if stack_bottom st = 0 then [] else map (load64 (mem st)) (stackSlots sp st)) @ ts)
     (tasks (mem st) (ready_head st))"

lemma follow_roots:
  assumes "traceable st"
  shows "\<exists>r. follow f xs st = Some r \<and> walked st (hits st (map (f (mem st)) xs)) r"
  by (rule follow_walked[where n = "Suc (unmarked st)"]) (use mark_walked assms in auto)

lemma walked_bind:
  assumes "m = Some r" "walked st S r"
    and "\<And>st1. r = Inr st1 \<Longrightarrow> onlyMarks st st1 \<Longrightarrow> \<exists>r'. k st1 = Some r' \<and> walked st1 T r'"
  shows "\<exists>r'. bindR m k = Some r' \<and> walked st (S \<union> T) r'"
proof (cases r)
  case (Inl e)
  then have "walked st (S \<union> T) (Inl e)" using assms(2) walked_Inl by blast
  then show ?thesis using assms(1) Inl by (simp add: bindR_def)
next
  case (Inr st1)
  then obtain r' where "k st1 = Some r'" "walked st1 T r'" using assms by (auto simp: walked_def)
  then show ?thesis using assms(1,2) Inr walked_then by (auto simp: bindR_def)
qed

lemma mark_roots_walked:
  assumes t: "traceable st" and ws: "rootWords sp st = Some ws"
  shows "\<exists>r. mark_roots sp st = Some r \<and> walked st (hits st ws) r"
proof -
  obtain ts where ts: "tasks (mem st) (ready_head st) = Some ts"
    and ws': "ws = map (load64 (mem st)) (global_roots st)
      @ (if stack_bottom st = 0 then [] else map (load64 (mem st)) (stackSlots sp st)) @ ts"
    using ws by (auto simp: rootWords_def)
  let ?G = "hits st (map (load64 (mem st)) (global_roots st))"
  let ?S = "hits st (if stack_bottom st = 0 then [] else map (load64 (mem st)) (stackSlots sp st))"
  have same: "hits st1 ws = hits st ws" if "onlyMarks st st1" for st1 ws
    using that by (simp add: hits_def onlyMarks_found)
  have "\<exists>r. mark_stack sp st1 = Some r \<and> walked st1 ?S r" if m: "onlyMarks st st1" for st1
  proof (cases "stack_bottom st = 0")
    case True
    then show ?thesis using onlyMarks_fields(8)[OF m] by (simp add: mark_stack_def okR_def walked_refl hits_def)
  next
    case False
    have "\<exists>r. follow load64 (stackSlots sp st1) st1 = Some r
        \<and> walked st1 (hits st1 (map (load64 (mem st1)) (stackSlots sp st1))) r"
      by (rule follow_roots[OF onlyMarks_traceable[OF m t]])
    moreover have "stackSlots sp st1 = stackSlots sp st" by (simp add: stackSlots_def onlyMarks_fields(8)[OF m])
    ultimately show ?thesis
      using False onlyMarks_fields(1,8)[OF m] same[OF m] by (simp add: mark_stack_def follow_def)
  qed
  moreover obtain r where "mark_global_roots st = Some r" "walked st ?G r"
    using follow_roots[OF t, of load64 "global_roots st"] by (auto simp: mark_global_roots_def follow_def)
  ultimately obtain r1 where r1: "bindR (mark_global_roots st) (mark_stack sp) = Some r1" "walked st (?G \<union> ?S) r1"
    using walked_bind[of "mark_global_roots st" r st ?G "mark_stack sp" ?S] by blast
  have "\<exists>r. mark_ready st1 = Some r \<and> walked st1 (hits st ts) r" if m: "onlyMarks st st1" for st1
    using follow_roots[OF onlyMarks_traceable[OF m t], of "\<lambda>m c. c" ts] ts onlyMarks_fields(1,9)[OF m] same[OF m]
    by (simp add: mark_ready_def follow_def)
  then obtain r2 where "mark_roots sp st = Some r2" "walked st (?G \<union> ?S \<union> hits st ts) r2"
    unfolding mark_roots_def using walked_bind[OF r1, of mark_ready "hits st ts"] by blast
  moreover have "hits st ws = ?G \<union> ?S \<union> hits st ts" by (auto simp: ws' hits_def)
  ultimately show ?thesis by auto
qed

definition live :: "addr \<Rightarrow> Gc \<Rightarrow> addr \<Rightarrow> bool" where
  "live sp st q \<longleftrightarrow> (\<exists>ws w. rootWords sp st = Some ws \<and> w \<in> hits st ws \<and> reach st w q)"

lemma marked_reach:
  assumes "\<forall>q \<in> M. \<forall>c. edge st q c \<longrightarrow> c \<in> M" "reach st w q" "w \<in> M"
  shows "q \<in> M"
  using assms(2,3,1) by (induction rule: rtranclp_induct) auto

lemma mark_roots_live:
  assumes t: "traceable st" and ws: "rootWords sp st \<noteq> None" and clear: "marks st = {}"
  obtains e q where "mark_roots sp st = Some (Inl e)" "e = StrayHeader q" "live sp st q" "stray st q"
  | st' where "mark_roots sp st = Some (Inr st')" "onlyMarks st st'" "marks st' = {q. live sp st q}"
      "\<forall>q. live sp st q \<longrightarrow> \<not> stray st q"
proof -
  obtain ws where ws: "rootWords sp st = Some ws" using ws by auto
  obtain r where r: "mark_roots sp st = Some r" "walked st (hits st ws) r" using mark_roots_walked[OF t ws] by blast
  show thesis
  proof (cases r)
    case (Inl e)
    then show thesis using that(1) r ws by (auto simp: walked_def live_def)
  next
    case (Inr st')
    then have m: "onlyMarks st st'" "hits st ws \<subseteq> marks st'"
      and q: "\<forall>q \<in> marks st'. (\<exists>w \<in> hits st ws. reach st w q) \<and> (\<forall>c. edge st q c \<longrightarrow> c \<in> marks st')"
      using r(2) clear by (auto simp: walked_def)
    have "marks st' = {q. live sp st q}"
    proof (intro set_eqI iffI)
      fix x assume "x \<in> marks st'"
      then show "x \<in> {q. live sp st q}" using q ws unfolding live_def by blast
    next
      fix x assume "x \<in> {q. live sp st q}"
      then obtain w where "w \<in> hits st ws" "reach st w x" using ws by (auto simp: live_def)
      moreover have "\<forall>q \<in> marks st'. \<forall>c. edge st q c \<longrightarrow> c \<in> marks st'" using q by blast
      ultimately show "x \<in> marks st'" using marked_reach m(2) by blast
    qed
    moreover have "\<not> stray st q" if "q \<in> marks st'" for q
      using that isMarked_None[of st' "get_header q"] onlyMarks_dom[OF m(1), of "get_header q"]
      by (auto simp: marks_def stray_def)
    ultimately have "\<forall>q. live sp st q \<longrightarrow> \<not> stray st q" by blast
    moreover have "mark_roots sp st = Some (Inr st')" using r(1) Inr by simp
    ultimately show thesis using that(2) m(1) \<open>marks st' = {q. live sp st q}\<close> by blast
  qed
qed

end
