(* ===== verification/Ptr_Map_Props.thy ===== *)
theory Ptr_Map_Props
  imports Ptr_Map
begin

text \<open>
  The pointer table implements a finite map. The invariant is the usual one of linear probing: from the home
  slot of a key to the slot that holds it no slot is free. The laws the collector relies on are the locale
  \<open>addr_table\<close>, interpreted by the table.
\<close>

section \<open>Probing\<close>

definition power2 :: "nat \<Rightarrow> bool" where
  "power2 c \<longleftrightarrow> (\<exists>n. c = 2 ^ n)"

lemma power2_pos: "power2 c \<Longrightarrow> 0 < c"
  by (auto simp: power2_def)

lemma power2_double: "power2 c \<Longrightarrow> power2 (c * 2)"
  unfolding power2_def by (metis power_Suc2)

lemma power2_half: "power2 c \<Longrightarrow> 1 < c \<Longrightarrow> power2 (c div 2)"
proof -
  assume "power2 c" "1 < c"
  then obtain n where c: "c = 2 ^ n" by (auto simp: power2_def)
  with \<open>1 < c\<close> have "n \<noteq> 0" by (cases n) auto
  then obtain m where "n = Suc m" using not0_implies_Suc by blast
  with c show ?thesis by (auto simp: power2_def)
qed

lemma power2_1024: "power2 1024"
  unfolding power2_def by (rule exI[of _ 10]) simp

lemma nextSlot_mod: "power2 c \<Longrightarrow> nextSlot (c - Suc 0) i = (i + 1) mod c"
  by (auto simp: power2_def nextSlot_def take_bit_eq_mod[symmetric] take_bit_eq_mask mask_eq_exp_minus_1)

lemma ptr_hash_less: "0 < c \<Longrightarrow> ptr_hash p (c - Suc 0) < c"
  unfolding ptr_hash_def Let_def by (rule le_less_trans[OF masked_le]) simp

definition home :: "(addr \<times> addr) list \<Rightarrow> addr \<Rightarrow> nat" where
  "home tab k = ptr_hash k (length tab - 1)"

definition ring :: "(addr \<times> addr) list \<Rightarrow> nat \<Rightarrow> nat \<Rightarrow> addr \<times> addr" where
  "ring tab i d = tab ! ((i + d) mod length tab)"

lemma probe_finds:
  assumes "power2 (length tab)" "i < length tab"
    and "stop (ring tab i d)" "\<forall>e<d. \<not> stop (ring tab i e)"
  shows "probe stop tab i = Some ((i + d) mod length tab)"
  using assms(2-)
proof (induction d arbitrary: i)
  case 0
  then show ?case by (subst probe.simps) (simp add: ring_def)
next
  case (Suc d)
  let ?j = "Suc i mod length tab"
  have shift: "ring tab ?j e = ring tab i (Suc e)" for e
    by (simp add: ring_def mod_simps)
  have "\<not> stop (tab ! i)" using Suc.prems(3)[rule_format, of 0] Suc.prems(1) by (simp add: ring_def)
  then have "probe stop tab i = probe stop tab ?j"
    using assms(1) by (subst probe.simps) (simp add: nextSlot_mod)
  also have "\<dots> = Some ((?j + d) mod length tab)"
  proof (rule Suc.IH)
    show "?j < length tab" using Suc.prems(1) by (intro mod_less_divisor) linarith
    show "stop (ring tab ?j d)" using Suc.prems(2) by (simp add: shift)
    show "\<forall>e<d. \<not> stop (ring tab ?j e)" using Suc.prems(3) by (auto simp: shift)
  qed
  finally show ?case by (simp add: mod_simps)
qed

lemma ring_reaches:
  assumes "i < length tab" "j < length tab"
  obtains d where "ring tab i d = tab ! j" "d < length tab" "(i + d) mod length tab = j"
proof
  let ?d = "(j + length tab - i) mod length tab"
  show "(i + ?d) mod length tab = j" using assms by (simp add: mod_simps)
  then show "ring tab i ?d = tab ! j" by (simp add: ring_def)
  show "?d < length tab" using assms by (intro mod_less_divisor) linarith
qed

lemma probe_ends:
  assumes "power2 (length tab)" "i < length tab" "j < length tab" "stop (tab ! j)"
  obtains d where "probe stop tab i = Some ((i + d) mod length tab)"
    and "stop (ring tab i d)" and "\<forall>e<d. \<not> stop (ring tab i e)"
proof -
  obtain d0 where "ring tab i d0 = tab ! j" by (rule ring_reaches[OF assms(2,3)])
  then have ex: "stop (ring tab i d0)" using assms(4) by simp
  define d where "d = (LEAST d. stop (ring tab i d))"
  have d: "stop (ring tab i d)" unfolding d_def using ex by (rule LeastI)
  have least: "\<forall>e<d. \<not> stop (ring tab i e)" unfolding d_def by (auto dest: not_less_Least)
  show thesis by (rule that[OF probe_finds[OF assms(1,2) d least] d least])
qed

section \<open>The invariant of a table\<close>

definition path :: "(addr \<times> addr) list \<Rightarrow> addr \<Rightarrow> nat \<Rightarrow> nat \<Rightarrow> bool" where
  "path tab k i d \<longleftrightarrow> i = (home tab k + d) mod length tab \<and> (\<forall>e<d. \<not> isFree (ring tab (home tab k) e))"

definition table_ok :: "(addr \<times> addr) list \<Rightarrow> bool" where
  "table_ok tab \<longleftrightarrow> power2 (length tab)
     \<and> (\<forall>i<length tab. \<not> isFree (tab ! i) \<longrightarrow> (\<exists>d. path tab (fst (tab ! i)) i d))
     \<and> (\<forall>i<length tab. \<forall>j<length tab. \<not> isFree (tab ! i) \<longrightarrow> fst (tab ! i) = fst (tab ! j) \<longrightarrow> i = j)"

definition view :: "(addr \<times> addr) list \<Rightarrow> addr \<rightharpoonup> addr" where
  "view tab k = (if k = 0 then None else map_of tab k)"

lemma table_ok_length: "table_ok tab \<Longrightarrow> power2 (length tab)"
  by (simp add: table_ok_def)

lemma home_less: "table_ok tab \<Longrightarrow> home tab k < length tab"
  using ptr_hash_less[OF power2_pos[OF table_ok_length], of tab k] by (simp add: home_def)

lemma view_Some_iff:
  assumes "table_ok tab"
  shows "view tab k = Some v \<longleftrightarrow> k \<noteq> 0 \<and> (\<exists>i<length tab. tab ! i = (k, v))"
proof
  assume "view tab k = Some v"
  then have "k \<noteq> 0" "(k, v) \<in> set tab" by (auto simp: view_def dest: map_of_SomeD split: if_splits)
  then show "k \<noteq> 0 \<and> (\<exists>i<length tab. tab ! i = (k, v))" by (auto simp: in_set_conv_nth)
next
  assume r: "k \<noteq> 0 \<and> (\<exists>i<length tab. tab ! i = (k, v))"
  then obtain i where i: "i < length tab" "tab ! i = (k, v)" by blast
  then have "k \<in> fst ` set tab" by (metis fst_conv image_eqI nth_mem)
  then obtain w where w: "map_of tab k = Some w" by (auto simp: map_of_eq_None_iff dest: weak_map_of_SomeI)
  then obtain j where j: "j < length tab" "tab ! j = (k, w)"
    by (metis in_set_conv_nth map_of_SomeD)
  have "i = j" using assms i j r by (auto simp: table_ok_def isFree_def)
  then show "view tab k = Some v" using i j w r by (simp add: view_def)
qed

lemma view_None_iff:
  assumes "k \<noteq> 0"
  shows "view tab k = None \<longleftrightarrow> (\<forall>i<length tab. fst (tab ! i) \<noteq> k)"
  using assms by (force simp: view_def map_of_eq_None_iff in_set_conv_nth)

lemma probe_key:
  assumes ok: "table_ok tab" and free: "j < length tab" "isFree (tab ! j)" and k: "k \<noteq> 0"
  obtains i d where "probe (freeOr k) tab (home tab k) = Some i" and "i < length tab" and "path tab k i d"
    and "freeOr k (tab ! i)" and "isFree (tab ! i) \<longrightarrow> view tab k = None"
proof -
  have "freeOr k (tab ! j)" using free(2) by (simp add: freeOr_def isFree_def)
  then obtain d where p: "probe (freeOr k) tab (home tab k) = Some ((home tab k + d) mod length tab)"
    and stop: "freeOr k (ring tab (home tab k) d)" and least: "\<forall>e<d. \<not> freeOr k (ring tab (home tab k) e)"
    by (rule probe_ends[OF table_ok_length[OF ok] home_less[OF ok] free(1)])
  let ?i = "(home tab k + d) mod length tab"
  have i: "?i < length tab" using home_less[OF ok, of k] by (intro mod_less_divisor) linarith
  have path: "path tab k ?i d" using least by (auto simp: path_def freeOr_def isFree_def)
  have none: "view tab k = None" if fr: "isFree (tab ! ?i)"
    unfolding view_None_iff[OF k]
  proof (intro allI impI notI)
    fix j assume j: "j < length tab" "fst (tab ! j) = k"
    then obtain d' where d': "j = (home tab k + d') mod length tab"
      "\<forall>e<d'. \<not> isFree (ring tab (home tab k) e)"
      using ok k by (auto simp: table_ok_def isFree_def path_def)
    have "\<not> d < d'" using d'(2) fr by (auto simp: ring_def)
    moreover have "\<not> d' < d" using least j d'(1) by (auto simp: ring_def freeOr_def)
    ultimately have "d = d'" by simp
    then show False using fr j d'(1) k by (simp add: isFree_def)
  qed
  show thesis by (rule that[OF p i path]) (use stop none in \<open>simp_all add: ring_def\<close>)
qed

lemma update_nonfree:
  "\<not> isFree e \<Longrightarrow> \<not> isFree (tab ! x) \<Longrightarrow> \<not> isFree (tab[j := e] ! x)"
  by (cases "x = j"; cases "j < length tab") (simp_all add: list_update_beyond)

lemma path_update:
  assumes "path tab k i d" and "\<not> isFree e"
  shows "path (tab[j := e]) k i d"
  using assms by (auto simp: path_def home_def ring_def dest: update_nonfree)

lemma store_ok:
  assumes ok: "table_ok tab" and i: "i < length tab" and path: "path tab k i d" and k: "k \<noteq> 0"
    and slot: "freeOr k (tab ! i)" and new: "isFree (tab ! i) \<longrightarrow> view tab k = None"
  shows "table_ok (tab[i := (k, v)])" and "view (tab[i := (k, v)]) = (view tab)(k \<mapsto> v)"
proof -
  let ?tab = "tab[i := (k, v)]"
  have others: "fst (tab ! j) \<noteq> k" if "j < length tab" "j \<noteq> i" for j
    using new slot that ok i k unfolding view_None_iff[OF k] table_ok_def isFree_def freeOr_def by metis
  have nf: "\<not> isFree (k, v)" using k by (simp add: isFree_def)
  show ok': "table_ok ?tab"
    unfolding table_ok_def length_list_update
  proof (intro conjI allI impI)
    show "power2 (length tab)" using ok by (rule table_ok_length)
    fix j assume j: "j < length tab" "\<not> isFree (?tab ! j)"
    show "\<exists>d. path ?tab (fst (?tab ! j)) j d"
    proof (cases "j = i")
      case True
      then show ?thesis using path_update[OF path nf] i by auto
    next
      case False
      then obtain d where "path tab (fst (tab ! j)) j d" using j ok by (auto simp: table_ok_def)
      then show ?thesis using path_update[OF _ nf] False by (metis nth_list_update_neq)
    qed
    fix j' assume "j' < length tab" "fst (?tab ! j) = fst (?tab ! j')"
    then show "j = j'" using j ok others i by (auto simp: table_ok_def nth_list_update split: if_splits)
  qed
  show "view ?tab = (view tab)(k \<mapsto> v)"
  proof
    fix x
    show "view ?tab x = ((view tab)(k \<mapsto> v)) x"
    proof (cases "x = k")
      case True
      then show ?thesis using k i ok' by (simp add: view_Some_iff) (metis nth_list_update_eq)
    next
      case False
      have "?tab ! j = (x, w) \<longleftrightarrow> tab ! j = (x, w)" if "x \<noteq> 0" for j w
        using False slot i that by (cases "j = i") (auto simp: freeOr_def)
      then have "view ?tab x = Some w \<longleftrightarrow> view tab x = Some w" for w
        unfolding view_Some_iff[OF ok'] view_Some_iff[OF ok] length_list_update by blast
      then show ?thesis using False by (metis fun_upd_other not_Some_eq)
    qed
  qed
qed

section \<open>The operations\<close>

definition pm_ok :: "PtrMap \<Rightarrow> bool" where
  "pm_ok m \<longleftrightarrow> table_ok (slots m) \<and> psize m = length (filter (\<lambda>e. \<not> isFree e) (slots m)) \<and> psize m < capOf m"

lemma filter_update:
  "i < length xs \<Longrightarrow> P e \<Longrightarrow>
     length (filter P (xs[i := e])) = (if P (xs ! i) then length (filter P xs) else Suc (length (filter P xs)))"
proof (induction xs arbitrary: i)
  case (Cons x xs)
  then show ?case by (cases i) auto
qed simp

lemma pm_free_slot:
  assumes "pm_ok m"
  obtains j where "j < capOf m" "isFree (slots m ! j)"
proof -
  have "\<exists>e \<in> set (slots m). isFree e"
  proof (rule ccontr)
    assume "\<not> (\<exists>e \<in> set (slots m). isFree e)"
    then have "filter (\<lambda>e. \<not> isFree e) (slots m) = slots m" by (intro filter_True) blast
    moreover have "length (filter (\<lambda>e. \<not> isFree e) (slots m)) < capOf m" using assms by (simp add: pm_ok_def)
    ultimately show False by simp
  qed
  then show thesis using that by (auto simp: in_set_conv_nth)
qed

lemma pm_ok_zeroed: "power2 c \<Longrightarrow> pm_ok \<lparr>slots = zeroed c, psize = 0\<rparr>"
proof -
  assume c: "power2 c"
  have "isFree (zeroed c ! i)" if "i < c" for i using that by (simp add: zeroed_def isFree_def)
  then have "\<forall>i<c. isFree (zeroed c ! i)" by blast
  moreover have "filter (\<lambda>e. \<not> isFree e) (zeroed c) = []" by (simp add: zeroed_def isFree_def)
  moreover have "length (zeroed c) = c" by (simp add: zeroed_def)
  ultimately show ?thesis
    using c power2_pos[OF c] unfolding pm_ok_def table_ok_def select_convs by (metis list.size(3))
qed

lemma view_zeroed: "view (zeroed c) = Map.empty"
  by (auto simp: view_def zeroed_def map_of_eq_None_iff)

lemma place_correct:
  assumes ok: "pm_ok m" and k: "k \<noteq> 0" and new: "view (slots m) k = None" and room: "psize m + 1 < capOf m"
  obtains m' where "place (k, v) m = Some m'" "pm_ok m'" "view (slots m') = (view (slots m))(k \<mapsto> v)"
    "psize m' = psize m + 1" "capOf m' = capOf m"
proof -
  have t: "table_ok (slots m)" using ok by (simp add: pm_ok_def)
  obtain j where j: "j < capOf m" "isFree (slots m ! j)" by (rule pm_free_slot[OF ok])
  obtain d where p: "probe isFree (slots m) (home (slots m) k) = Some ((home (slots m) k + d) mod capOf m)"
    and d: "isFree (ring (slots m) (home (slots m) k) d)" "\<forall>e<d. \<not> isFree (ring (slots m) (home (slots m) k) e)"
    by (rule probe_ends[where stop = isFree, OF table_ok_length[OF t] home_less[OF t] j])
  let ?i = "(home (slots m) k + d) mod capOf m"
  have i: "?i < capOf m" using j by (intro mod_less_divisor) linarith
  have fr: "isFree (slots m ! ?i)" using d by (simp add: ring_def)
  have "freeOr k (slots m ! ?i)" using fr by (simp add: freeOr_def isFree_def)
  moreover have "path (slots m) k ?i d" using d(2) by (simp add: path_def)
  ultimately have st: "table_ok ((slots m)[?i := (k, v)])" "view ((slots m)[?i := (k, v)]) = (view (slots m))(k \<mapsto> v)"
    using store_ok[OF t i _ k _ impI[OF new]] by blast+
  let ?m = "\<lparr>slots = (slots m)[?i := (k, v)], psize = psize m + 1\<rparr>"
  have nf: "\<not> isFree (k, v)" using k by (simp add: isFree_def)
  show thesis
  proof (rule that)
    show "place (k, v) m = Some ?m" using p by (simp add: place_def home_def)
    show "pm_ok ?m"
      using ok st room filter_update[of ?i "slots m" "\<lambda>e. \<not> isFree e", OF i nf] fr by (simp add: pm_ok_def)
    show "view (slots ?m) = (view (slots m))(k \<mapsto> v)" using st by simp
  qed simp_all
qed

lemma placeAll_correct:
  assumes "pm_ok m" "distinct (map fst es)" "0 \<notin> fst ` set es" "\<forall>k \<in> fst ` set es. view (slots m) k = None"
    "psize m + length es < capOf m"
  shows "\<exists>m'. placeAll es m = Some m' \<and> pm_ok m' \<and> view (slots m') = view (slots m) ++ map_of es
    \<and> psize m' = psize m + length es \<and> capOf m' = capOf m"
  using assms
proof (induction es arbitrary: m)
  case (Cons e es)
  obtain k v where e: "e = (k, v)" by (cases e)
  obtain m1 where m1: "place e m = Some m1" "pm_ok m1" "view (slots m1) = (view (slots m))(k \<mapsto> v)"
    "psize m1 = psize m + 1" "capOf m1 = capOf m"
    unfolding e by (rule place_correct[OF Cons.prems(1), of k v]) (use Cons.prems e in auto)
  have "\<exists>m'. placeAll es m1 = Some m' \<and> pm_ok m' \<and> view (slots m') = view (slots m1) ++ map_of es
    \<and> psize m' = psize m1 + length es \<and> capOf m' = capOf m1"
    using Cons.prems m1 e by (intro Cons.IH) auto
  moreover have "view (slots m1) ++ map_of es = view (slots m) ++ map_of ((k, v) # es)"
    using Cons.prems(2) m1(3) by (simp add: e map_add_upd_left dom_map_of_conv_image_fst)
  ultimately show ?case using m1 by (auto simp: e simp del: map_of.simps)
qed simp

lemma entries_of:
  assumes "pm_ok m"
  defines "es \<equiv> filter (\<lambda>e. \<not> isFree e) (slots m)"
  shows "distinct (map fst es)" and "0 \<notin> fst ` set es" and "map_of es = view (slots m)" and "length es = psize m"
proof -
  have t: "table_ok (slots m)" using assms by (simp add: pm_ok_def)
  have *: "distinct (map fst (filter (\<lambda>e. \<not> isFree e) xs))"
    if "\<forall>i<length xs. \<forall>j<length xs. \<not> isFree (xs ! i) \<longrightarrow> fst (xs ! i) = fst (xs ! j) \<longrightarrow> i = j" for xs :: "(addr \<times> addr) list"
    using that
  proof (induction xs)
    case (Cons x xs)
    have "i = j" if "i < length xs" "j < length xs" "\<not> isFree (xs ! i)" "fst (xs ! i) = fst (xs ! j)" for i j
      using Cons.prems[rule_format, of "Suc i" "Suc j"] that by simp
    moreover have "fst x \<notin> fst ` set xs" if "\<not> isFree x"
    proof
      assume "fst x \<in> fst ` set xs"
      then obtain j where "j < length xs" "fst (xs ! j) = fst x" by (auto simp: in_set_conv_nth)
      with Cons.prems[rule_format, of 0 "Suc j"] that show False by simp
    qed
    ultimately show ?case using Cons.IH by auto
  qed simp
  show d: "distinct (map fst es)" unfolding es_def using t by (intro *) (simp add: table_ok_def)
  show "0 \<notin> fst ` set es" by (auto simp: es_def isFree_def)
  show "length es = psize m" using assms by (simp add: pm_ok_def)
  have "map_of es k = Some v \<longleftrightarrow> view (slots m) k = Some v" for k v
  proof -
    have "map_of es k = Some v \<longleftrightarrow> (k, v) \<in> set es" by (rule map_of_eq_Some_iff[OF d])
    also have "\<dots> \<longleftrightarrow> k \<noteq> 0 \<and> (k, v) \<in> set (slots m)" by (auto simp: es_def isFree_def)
    finally show ?thesis by (simp add: view_Some_iff[OF t] in_set_conv_nth)
  qed
  then show "map_of es = view (slots m)" by (metis not_Some_eq ext)
qed

lemma rehash_correct:
  assumes "pm_ok m" "power2 c" "psize m < c"
  obtains m' where "rehash c m = Some m'" "pm_ok m'" "view (slots m') = view (slots m)" "psize m' = psize m" "capOf m' = c"
proof -
  let ?es = "filter (\<lambda>e. \<not> isFree e) (slots m)"
  have "\<exists>m'. placeAll ?es \<lparr>slots = zeroed c, psize = 0\<rparr> = Some m' \<and> pm_ok m'
      \<and> view (slots m') = view (zeroed c) ++ map_of ?es \<and> psize m' = 0 + length ?es \<and> capOf m' = c"
    using placeAll_correct[OF pm_ok_zeroed[OF assms(2)], of ?es] entries_of[OF assms(1)] assms(3)
    unfolding select_convs view_zeroed by (simp add: zeroed_def)
  then show thesis using that entries_of[OF assms(1)] by (auto simp: rehash_def view_zeroed)
qed

definition ptr_inv :: "PtrMap \<Rightarrow> bool" where
  "ptr_inv m \<longleftrightarrow> (slots m = [] \<and> psize m = 0) \<or> (pm_ok m \<and> PTR_MAP_INIT_CAP \<le> capOf m)"

definition ptr_view :: "PtrMap \<Rightarrow> addr \<rightharpoonup> addr" where
  "ptr_view m = view (slots m)"

lemma ptr_inv_init: "ptr_inv ptr_map_init" and ptr_view_init: "ptr_view ptr_map_init = Map.empty"
proof -
  have "length (zeroed 1024) = 1024" by (simp add: zeroed_def)
  then show "ptr_inv ptr_map_init" "ptr_view ptr_map_init = Map.empty"
    using pm_ok_zeroed[OF power2_1024]
    by (simp_all add: ptr_inv_def ptr_map_init_def PTR_MAP_INIT_CAP_def ptr_view_def view_zeroed)
qed

lemma ptr_inv_none: "ptr_inv noPtrMap" and ptr_view_none: "ptr_view noPtrMap = Map.empty"
  by (simp_all add: ptr_inv_def noPtrMap_def ptr_view_def view_def fun_eq_iff)

lemma lookup_correct:
  assumes "ptr_inv m" "k \<noteq> 0"
  shows "ptr_map_lookup k m = Some (case ptr_view m k of None \<Rightarrow> 0 | Some v \<Rightarrow> v)"
proof (cases "slots m = []")
  case True
  then show ?thesis by (simp add: ptr_map_lookup_def ptr_view_def view_def)
next
  case False
  then have ok: "pm_ok m" and t: "table_ok (slots m)" using assms by (auto simp: ptr_inv_def pm_ok_def)
  obtain j where j: "j < capOf m" "isFree (slots m ! j)" by (rule pm_free_slot[OF ok])
  obtain i d where i: "probe (freeOr k) (slots m) (home (slots m) k) = Some i" "i < capOf m"
    "freeOr k (slots m ! i)" "isFree (slots m ! i) \<longrightarrow> view (slots m) k = None"
    using probe_key[OF t j assms(2)] by metis
  have "view (slots m) k = Some (snd (slots m ! i))" if "\<not> isFree (slots m ! i)"
    using that i(2,3) assms(2) unfolding view_Some_iff[OF t] freeOr_def isFree_def by (metis prod.collapse)
  then show ?thesis using i False assms(2) by (auto simp: ptr_map_lookup_def ptr_view_def home_def)
qed

lemma lookup_null: "ptr_map_lookup 0 m = Some 0"
  by (simp add: ptr_map_lookup_def)

lemma insert_store:
  assumes ok: "pm_ok m" and k: "k \<noteq> 0" and room: "psize m + 1 < capOf m"
  obtains i where "probe (freeOr k) (slots m) (home (slots m) k) = Some i"
    and "pm_ok \<lparr>slots = (slots m)[i := (k, v)],
                 psize = (if isFree (slots m ! i) then psize m + 1 else psize m)\<rparr>"
    and "view ((slots m)[i := (k, v)]) = (view (slots m))(k \<mapsto> v)"
proof -
  have t: "table_ok (slots m)" using ok by (simp add: pm_ok_def)
  obtain j where j: "j < capOf m" "isFree (slots m ! j)" by (rule pm_free_slot[OF ok])
  obtain i d where i: "probe (freeOr k) (slots m) (home (slots m) k) = Some i" "i < capOf m" "path (slots m) k i d"
    "freeOr k (slots m ! i)" "isFree (slots m ! i) \<longrightarrow> view (slots m) k = None"
    by (rule probe_key[OF t j k])
  have nf: "\<not> isFree (k, v)" using k by (simp add: isFree_def)
  note st = store_ok[OF t i(2,3) k i(4,5), of v]
  have "pm_ok \<lparr>slots = (slots m)[i := (k, v)], psize = (if isFree (slots m ! i) then psize m + 1 else psize m)\<rparr>"
    using ok st room filter_update[of i "slots m" "\<lambda>e. \<not> isFree e", OF i(2) nf] by (auto simp: pm_ok_def)
  then show thesis using that[OF i(1)] st by simp
qed

lemma insert_correct:
  assumes inv: "ptr_inv m" and k: "k \<noteq> 0"
  obtains m' where "ptr_map_insert k v m = Some m'" "ptr_inv m'" "ptr_view m' = (ptr_view m)(k \<mapsto> v)"
proof -
  define m0 where "m0 = (if slots m = [] then ptr_map_init else m)"
  have m0: "pm_ok m0" "1024 \<le> capOf m0" "view (slots m0) = view (slots m)"
  proof -
    have "slots ptr_map_init \<noteq> []" by (simp add: ptr_map_init_def zeroed_def PTR_MAP_INIT_CAP_def)
    then show "pm_ok m0" "1024 \<le> capOf m0" "view (slots m0) = view (slots m)"
      using inv ptr_inv_init ptr_view_init
      by (auto simp: m0_def ptr_inv_def ptr_view_def PTR_MAP_INIT_CAP_def view_def fun_eq_iff)
  qed
  obtain m1 where m1: "(if psize m0 * 4 \<ge> capOf m0 * 3 then ptr_map_grow m0 else Some m0) = Some m1"
    "pm_ok m1" "1024 \<le> capOf m1" "view (slots m1) = view (slots m)" "psize m1 + 1 < capOf m1"
  proof (cases "psize m0 * 4 \<ge> capOf m0 * 3")
    case True
    have c: "power2 (capOf m0 * 2)" "psize m0 < capOf m0 * 2" "psize m0 < capOf m0"
      using m0(1) by (auto simp: pm_ok_def intro: power2_double table_ok_length)
    obtain m' where "rehash (capOf m0 * 2) m0 = Some m'" "pm_ok m'" "view (slots m') = view (slots m0)"
      "psize m' = psize m0" "capOf m' = capOf m0 * 2"
      by (rule rehash_correct[OF m0(1) c(1,2)])
    then show thesis using that[of m'] True m0 c by (simp add: ptr_map_grow_def)
  next
    case False
    then show thesis using that[of m0] m0 by simp
  qed
  obtain i where i: "probe (freeOr k) (slots m1) (home (slots m1) k) = Some i"
    "pm_ok \<lparr>slots = (slots m1)[i := (k, v)],
            psize = (if isFree (slots m1 ! i) then psize m1 + 1 else psize m1)\<rparr>"
    "view ((slots m1)[i := (k, v)]) = (view (slots m1))(k \<mapsto> v)"
    by (rule insert_store[OF m1(2) k m1(5)])
  show thesis
  proof (rule that)
    show "ptr_map_insert k v m = Some \<lparr>slots = (slots m1)[i := (k, v)],
            psize = (if isFree (slots m1 ! i) then psize m1 + 1 else psize m1)\<rparr>"
      unfolding ptr_map_insert_def m0_def[symmetric] Let_def m1(1) using i(1) by (simp add: home_def)
  qed (use i m1 in \<open>simp_all add: ptr_inv_def ptr_view_def PTR_MAP_INIT_CAP_def\<close>)
qed

lemma shrink_correct:
  assumes "pm_ok m" "1024 \<le> capOf m"
  shows "\<exists>m'. shrink m = Some m' \<and> pm_ok m' \<and> 1024 \<le> capOf m' \<and> view (slots m') = view (slots m)"
  using assms
proof (induction m rule: shrink.induct)
  case (1 m)
  show ?case
  proof (cases "capOf m > PTR_MAP_INIT_CAP \<and> psize m * 8 < capOf m")
    case True
    have p: "power2 (capOf m)" using "1.prems" by (simp add: pm_ok_def table_ok_length)
    have c: "power2 (capOf m div 2)" "psize m < capOf m div 2"
      using True power2_half[OF p] by (auto simp: PTR_MAP_INIT_CAP_def)
    have big: "1024 \<le> capOf m div 2"
    proof -
      obtain n where n: "capOf m = 2 ^ n" using p by (auto simp: power2_def)
      then have "(2::nat) ^ 10 < 2 ^ n" using True by (simp add: PTR_MAP_INIT_CAP_def)
      then have "10 < n" by (rule power_less_imp_less_exp[rotated]) simp
      then have "11 \<le> n" by simp
      then have "(2::nat) ^ 11 \<le> 2 ^ n" by (intro power_increasing) simp_all
      then have "2048 \<le> capOf m" by (simp add: n)
      then show ?thesis by simp
    qed
    obtain m' where m': "rehash (capOf m div 2) m = Some m'" "pm_ok m'" "view (slots m') = view (slots m)"
      "capOf m' = capOf m div 2"
      by (rule rehash_correct[OF "1.prems"(1) c])
    then show ?thesis using "1.IH"[OF True m'(1)] True big by (subst shrink.simps) simp
  next
    case False
    then have "shrink m = Some m" by (subst shrink.simps) (simp only: if_False)
    then show ?thesis using "1.prems" by blast
  qed
qed

lemma rebuild_correct:
  assumes inv: "ptr_inv m" and es: "distinct (map fst es)" "0 \<notin> fst ` set es" and room: "length es \<le> psize m"
  obtains m' where "ptr_map_rebuild es m = Some m'" "ptr_inv m'" "ptr_view m' = map_of es"
proof (cases "slots m = []")
  case True
  then have "es = []" using inv room by (auto simp: ptr_inv_def pm_ok_def)
  then show thesis using that[of m] True inv by (simp add: ptr_map_rebuild_def ptr_view_def view_def fun_eq_iff)
next
  case False
  then have m: "pm_ok m" "1024 \<le> capOf m" "power2 (capOf m)" "psize m < capOf m"
    using inv by (auto simp: ptr_inv_def pm_ok_def PTR_MAP_INIT_CAP_def intro: table_ok_length)
  have "\<exists>m1. placeAll es \<lparr>slots = zeroed (capOf m), psize = 0\<rparr> = Some m1 \<and> pm_ok m1
      \<and> view (slots m1) = view (zeroed (capOf m)) ++ map_of es \<and> psize m1 = 0 + length es \<and> capOf m1 = capOf m"
    using placeAll_correct[OF pm_ok_zeroed[OF m(3)] es] room m(4)
    unfolding select_convs view_zeroed by (simp add: zeroed_def)
  then obtain m1 where m1: "placeAll es \<lparr>slots = zeroed (capOf m), psize = 0\<rparr> = Some m1" "pm_ok m1"
    "view (slots m1) = map_of es" "1024 \<le> capOf m1"
    using m(2) by (auto simp: view_zeroed)
  then show thesis using shrink_correct[of m1] that False
    by (auto simp: ptr_map_rebuild_def ptr_inv_def ptr_view_def PTR_MAP_INIT_CAP_def)
qed

section \<open>The interface\<close>

text \<open>
  What the collector relies on: an insertion is found, a lookup of any other pointer is not changed by it, the
  null pointer is never found, and a rebuild leaves exactly the given entries.
\<close>

locale addr_table =
  fixes inv :: "'t \<Rightarrow> bool" and entries :: "'t \<Rightarrow> addr \<rightharpoonup> addr"
    and find :: "addr \<Rightarrow> 't \<Rightarrow> addr option" and insert :: "addr \<Rightarrow> addr \<Rightarrow> 't \<Rightarrow> 't option"
  assumes find_null: "find 0 t = Some 0"
    and find_entry: "inv t \<Longrightarrow> k \<noteq> 0 \<Longrightarrow> find k t = Some (case entries t k of None \<Rightarrow> 0 | Some v \<Rightarrow> v)"
    and insert_entry: "inv t \<Longrightarrow> k \<noteq> 0 \<Longrightarrow> \<exists>t'. insert k v t = Some t' \<and> inv t' \<and> entries t' = (entries t)(k \<mapsto> v)"
begin

fun insertAll :: "(addr \<times> addr) list \<Rightarrow> 't \<Rightarrow> 't option" where
  "insertAll [] t = Some t"
| "insertAll ((k, v) # es) t = insert k v t \<bind> insertAll es"

lemma find_total: "inv t \<Longrightarrow> \<exists>h. find k t = Some h"
  by (cases "k = 0") (simp_all add: find_null find_entry)

lemma find_inserted:
  assumes "inv t" "k \<noteq> 0" "insert k v t = Some t'"
  shows "find p t' = (if p = k then Some v else find p t)"
proof (cases "p = 0")
  case True
  then show ?thesis using assms by (simp add: find_null)
next
  case False
  then show ?thesis using insert_entry[OF assms(1,2), of v] assms by (auto simp: find_entry)
qed

lemma insertAll_entries:
  assumes "inv t" "0 \<notin> fst ` set es"
  shows "\<exists>t'. insertAll es t = Some t' \<and> inv t' \<and> entries t' = entries t ++ map_of (rev es)"
  using assms
proof (induction es arbitrary: t)
  case (Cons e es)
  obtain k v where e: "e = (k, v)" by (cases e)
  then obtain t1 where t1: "insert k v t = Some t1" "inv t1" "entries t1 = (entries t)(k \<mapsto> v)"
    using insert_entry[OF Cons.prems(1), of k v] Cons.prems(2) by auto
  obtain t' where "insertAll es t1 = Some t'" "inv t'" "entries t' = entries t1 ++ map_of (rev es)"
    using Cons.IH[OF t1(2)] Cons.prems(2) by auto
  then show ?case using t1 e by (simp add: map_add_assoc[symmetric])
qed simp

end

interpretation ptr: addr_table ptr_inv ptr_view ptr_map_lookup ptr_map_insert
proof unfold_locales
  fix t k v assume "ptr_inv t" "k \<noteq> (0::addr)"
  then show "\<exists>t'. ptr_map_insert k v t = Some t' \<and> ptr_inv t' \<and> ptr_view t' = (ptr_view t)(k \<mapsto> v)"
    by (metis insert_correct)
qed (simp_all add: lookup_null lookup_correct)

end
