(* ===== verification/Ptr_Map_Remove.thy ===== *)
theory Ptr_Map_Remove
  imports Ptr_Map_Props "HOL-Library.Multiset"
begin

text \<open>
  Removal from the pointer table by backward shift (\<^verbatim>\<open>ptr_map_remove\<close> of \<^verbatim>\<open>stdlib/gc.c\<close>). While
  the loop runs the table has one hole that paths may cross; an entry whose path crosses the hole stands
  behind the cursor.
\<close>

section \<open>The test for a misplaced entry\<close>

lemma misplaced_iff:
  assumes "idx < c" "j < c" "k < c" "idx \<noteq> j" "j = (k + d) mod c" "d < c"
  shows "misplaced idx j k \<longleftrightarrow> (\<exists>e<d. (k + e) mod c = idx)"
proof -
  have d: "d = (if k \<le> j then j - k else j + c - k)"
    using assms by (auto simp: mod_if split: if_splits)
  have *: "(\<exists>e<d. (k + e) mod c = idx) \<longleftrightarrow> (if k \<le> idx then idx - k < d else idx + c - k < d)"
  proof
    assume "\<exists>e<d. (k + e) mod c = idx"
    then obtain e where "e < d" "(k + e) mod c = idx" by blast
    then show "if k \<le> idx then idx - k < d else idx + c - k < d"
      using assms by (auto simp: mod_if split: if_splits)
  next
    assume r: "if k \<le> idx then idx - k < d else idx + c - k < d"
    show "\<exists>e<d. (k + e) mod c = idx"
    proof (cases "k \<le> idx")
      case True
      then show ?thesis using r assms by (intro exI[of _ "idx - k"]) simp
    next
      case False
      then show ?thesis using r assms by (intro exI[of _ "idx + c - k"]) (simp add: mod_if)
    qed
  qed
  show ?thesis
    unfolding * misplaced_def
    unfolding d using assms(1-4) by auto
qed

section \<open>The loop\<close>

lemma home_bound: "power2 (length tab) \<Longrightarrow> home tab k < length tab"
  using ptr_hash_less[OF power2_pos] by (simp add: home_def)

definition dist :: "nat \<Rightarrow> nat \<Rightarrow> nat \<Rightarrow> nat" where
  "dist c i j = (if i \<le> j then j - i else j + c - i)"

lemma dist_step: "i < c \<Longrightarrow> j < c \<Longrightarrow> i \<noteq> j \<Longrightarrow> Suc (dist c (Suc i mod c) j) = dist c i j"
  by (cases "Suc i = c") (auto simp: dist_def)

lemma dist_offset: "i < c \<Longrightarrow> d < c \<Longrightarrow> dist c i ((i + d) mod c) = d"
  by (auto simp: dist_def mod_if)

lemma dist_less: "i < c \<Longrightarrow> j < c \<Longrightarrow> dist c i j < c"
  by (auto simp: dist_def)

lemma dist_add: "i < c \<Longrightarrow> j < c \<Longrightarrow> (i + dist c i j) mod c = j"
  by (auto simp: dist_def)

lemma dist_zero: "i < c \<Longrightarrow> j < c \<Longrightarrow> dist c i j = 0 \<longleftrightarrow> i = j"
  by (auto simp: dist_def)

lemma misplaced_home:
  assumes "power2 (length tab)" "idx < length tab" "j < length tab" "idx \<noteq> j"
  shows "misplaced idx j (home tab k) \<longleftrightarrow>
    (\<exists>e<dist (length tab) (home tab k) j. (home tab k + e) mod length tab = idx)"
proof -
  have h: "home tab k < length tab" using assms(1) by (rule home_bound)
  show ?thesis by (rule misplaced_iff[OF assms(2,3) h assms(4)]) (simp_all add: dist_add dist_less h assms)
qed

definition crosses :: "(addr \<times> addr) list \<Rightarrow> nat \<Rightarrow> nat \<Rightarrow> nat \<Rightarrow> nat \<Rightarrow> bool" where
  "crosses tab idx D i h \<longleftrightarrow>
     (\<forall>e<dist (length tab) h i. isFree (ring tab h e) \<longrightarrow>
        (h + e) mod length tab = idx \<and> D \<le> dist (length tab) idx i)"

definition gap :: "nat \<Rightarrow> nat \<Rightarrow> (addr \<times> addr) list \<Rightarrow> bool" where
  "gap idx D tab \<longleftrightarrow> power2 (length tab) \<and> idx < length tab \<and> tab ! idx = (0, 0)
     \<and> (\<forall>i<length tab. \<not> isFree (tab ! i) \<longrightarrow> crosses tab idx D i (home tab (fst (tab ! i))))
     \<and> (\<forall>i<length tab. \<forall>j<length tab. \<not> isFree (tab ! i) \<longrightarrow> fst (tab ! i) = fst (tab ! j) \<longrightarrow> i = j)"

lemma gap_closed:
  assumes g: "gap idx D tab" and D: "0 < D" "D \<le> length tab" and fr: "isFree (tab ! ((idx + D) mod length tab))"
  shows "table_ok tab"
  unfolding table_ok_def
proof (intro conjI allI impI)
  let ?c = "length tab"
  fix i assume i: "i < ?c" "\<not> isFree (tab ! i)"
  let ?h = "home tab (fst (tab ! i))"
  have c: "power2 ?c" "idx < ?c" using g by (auto simp: gap_def)
  have h: "?h < ?c" using c(1) by (rule home_bound)
  have cr: "crosses tab idx D i ?h" using g i by (simp add: gap_def)
  have "\<not> isFree (ring tab ?h e)" if e: "e < dist ?c ?h i" for e
  proof
    assume "isFree (ring tab ?h e)"
    then have idx: "(?h + e) mod ?c = idx" and far: "D \<le> dist ?c idx i" using cr e by (auto simp: crosses_def)
    have "i = (?h + dist ?c ?h i) mod ?c" using h i by (simp add: dist_add)
    also have "?h + dist ?c ?h i = (?h + e) + (dist ?c ?h i - e)" using e by simp
    also have "\<dots> mod ?c = ((?h + e) mod ?c + (dist ?c ?h i - e)) mod ?c" by (simp only: mod_add_left_eq)
    also have "\<dots> = (idx + (dist ?c ?h i - e)) mod ?c" unfolding idx ..
    finally have i': "i = (idx + (dist ?c ?h i - e)) mod ?c" .
    have "dist ?c ?h i - e < ?c" using dist_less[OF h i(1)] by linarith
    then have de: "dist ?c idx i = dist ?c ?h i - e" using dist_offset[OF c(2)] i' by metis
    have "D \<noteq> dist ?c idx i" using fr i c by (auto simp: dist_add)
    then have less: "e + D < dist ?c ?h i" using far de by linarith
    have "ring tab ?h (e + D) = tab ! ((idx + D) mod ?c)"
      unfolding ring_def idx[symmetric] by (simp add: mod_simps add.assoc)
    then have "(?h + (e + D)) mod ?c = idx" using cr less fr by (auto simp: crosses_def)
    then have "(idx + D) mod ?c = idx" unfolding idx[symmetric] by (simp add: mod_simps add.assoc)
    moreover have "D < ?c" using less dist_less[OF h i(1)] by linarith
    ultimately have "D = 0" using dist_offset[OF c(2), of D] dist_zero[OF c(2) c(2)] by simp
    then show False using D by simp
  qed
  then have "path tab (fst (tab ! i)) i (dist ?c ?h i)" using h i by (simp add: path_def dist_add)
  then show "\<exists>d. path tab (fst (tab ! i)) i d" by blast
qed (use g in \<open>auto simp: gap_def\<close>)

lemma gap_keep:
  assumes g: "gap idx D tab" and D: "0 < D" "D < length tab" and j: "j = (idx + D) mod length tab"
    and nf: "\<not> isFree (tab ! j)" and m: "\<not> misplaced idx j (home tab (fst (tab ! j)))"
  shows "gap idx (Suc D) tab"
proof -
  let ?c = "length tab"
  have c: "power2 ?c" "idx < ?c" and jc: "j < ?c" using g j by (auto simp: gap_def intro: mod_less_divisor)
  have h: "home tab k < ?c" for k using c(1) by (rule home_bound)
  have ij: "idx \<noteq> j" using g nf by (auto simp: gap_def isFree_def)
  have dj: "dist ?c idx j = D" using D c by (simp add: j dist_offset)
  have "crosses tab idx (Suc D) i (home tab (fst (tab ! i)))" if i: "i < ?c" "\<not> isFree (tab ! i)" for i
    unfolding crosses_def
  proof (intro allI impI)
    let ?h = "home tab (fst (tab ! i))"
    fix e assume e: "e < dist ?c ?h i" "isFree (ring tab ?h e)"
    then have cr: "(?h + e) mod ?c = idx" "D \<le> dist ?c idx i" using g i by (auto simp: gap_def crosses_def)
    have "i \<noteq> j"
    proof
      assume ij': "i = j"
      have "misplaced idx j ?h" using misplaced_home[OF c jc ij] e(1) cr(1) unfolding ij' by blast
      then show False using m ij' by simp
    qed
    then have "dist ?c idx i \<noteq> D" using i c jc dj by (metis dist_add)
    then show "(?h + e) mod ?c = idx \<and> Suc D \<le> dist ?c idx i" using cr by simp
  qed
  then show ?thesis using g by (simp add: gap_def)
qed

lemma gap_move:
  assumes g: "gap idx D tab" and j: "j < length tab" "\<not> isFree (tab ! j)"
    and m: "misplaced idx j (home tab (fst (tab ! j)))"
  shows "gap j 1 (tab[idx := tab ! j, j := (0, 0)])" (is "gap j 1 ?tab")
proof -
  let ?c = "length tab"
  have c: "power2 ?c" "idx < ?c" "tab ! idx = (0, 0)" using g by (auto simp: gap_def)
  have ij: "idx \<noteq> j" using c j by (auto simp: isFree_def)
  have h: "home tab k < ?c" for k using c(1) by (rule home_bound)
  have hm: "home ?tab k = home tab k" for k by (simp add: home_def)
  have nth: "?tab ! x = (if x = j then (0, 0) else if x = idx then tab ! j else tab ! x)" if "x < ?c" for x
    using that j c by (simp add: nth_list_update)
  have "crosses ?tab j 1 i (home ?tab (fst (?tab ! i)))" if i: "i < ?c" "\<not> isFree (?tab ! i)" for i
    unfolding crosses_def hm length_list_update
  proof (intro allI impI)
    let ?h = "home tab (fst (?tab ! i))"
    fix e assume e: "e < dist ?c ?h i" "isFree (ring ?tab ?h e)"
    have "i \<noteq> j" using i by (auto simp: nth[OF j(1)] isFree_def)
    have xc: "(?h + e) mod ?c < ?c" using j by (intro mod_less_divisor) linarith
    have "(?h + e) mod ?c = j"
    proof (rule ccontr)
      assume nj: "(?h + e) mod ?c \<noteq> j"
      have "isFree (?tab ! ((?h + e) mod ?c))" using e(2) by (simp only: ring_def length_list_update)
      then have "isFree (if (?h + e) mod ?c = idx then tab ! j else tab ! ((?h + e) mod ?c))"
        unfolding nth[OF xc] using nj by simp
      then have x: "(?h + e) mod ?c \<noteq> idx" "isFree (ring tab ?h e)"
        using j(2) by (auto simp: ring_def split: if_splits)
      show False
      proof (cases "i = idx")
        case False
        then show False using g i x e \<open>i \<noteq> j\<close> by (auto simp: nth gap_def crosses_def)
      next
        case True
        then have hj: "?h = home tab (fst (tab ! j))" using i \<open>i \<noteq> j\<close> by (simp add: nth)
        have "\<exists>e<dist ?c ?h j. (?h + e) mod ?c = idx"
          using misplaced_home[OF c(1,2) j(1) ij] m unfolding hj by blast
        then obtain e' where e': "e' < dist ?c ?h j" "(?h + e') mod ?c = idx" by blast
        have "e' < ?c" using e'(1) dist_less[OF h j(1)] by (rule less_trans)
        then have "dist ?c ?h ((?h + e') mod ?c) = e'" by (rule dist_offset[OF h])
        then have "dist ?c ?h idx = e'" unfolding e'(2) .
        then have "dist ?c ?h idx < dist ?c ?h j" using e'(1) by simp
        then have "e < dist ?c ?h j" using e True by simp
        then show False using g j x hj by (auto simp: gap_def crosses_def)
      qed
    qed
    moreover have "1 \<le> dist ?c j i" using dist_zero[OF j(1) i(1)] \<open>i \<noteq> j\<close> by simp
    ultimately show "(?h + e) mod ?c = j \<and> 1 \<le> dist ?c j i" by simp
  qed
  moreover have "x = y" if "x < ?c" "y < ?c" "\<not> isFree (?tab ! x)" "fst (?tab ! x) = fst (?tab ! y)" for x y
  proof -
    define \<sigma> where "\<sigma> x = (if x = j then idx else if x = idx then j else x)" for x
    have "?tab ! x = tab ! \<sigma> x" if "x < ?c" for x using that c(3) by (simp add: nth \<sigma>_def)
    moreover have "\<sigma> x < ?c" "\<sigma> y < ?c" using that j c by (auto simp: \<sigma>_def)
    ultimately have "\<sigma> x = \<sigma> y" using g that by (auto simp: gap_def)
    then show ?thesis using ij by (auto simp: \<sigma>_def split: if_splits)
  qed
  ultimately show ?thesis using c j by (auto simp: gap_def nth[OF j(1)])
qed

lemma move_mset:
  assumes "idx < length tab" "j < length tab" "tab ! idx = (0, 0)"
  shows "mset (tab[idx := tab ! j, j := (0, 0)]) = mset tab"
  using mset_swap[OF assms(2,1)] assms(3) by simp

lemma closeGap_correct:
  assumes "gap idx D tab" "0 < D" "D \<le> length tab" "f < length tab" "isFree (tab ! f)" "f \<noteq> idx"
  shows "\<exists>tab'. closeGap idx ((idx + D) mod length tab) tab = Some tab' \<and> table_ok tab' \<and> mset tab' = mset tab"
  using assms
proof (induction "dist (length tab) ((idx + D) mod length tab) f" arbitrary: idx D tab rule: less_induct)
  case less
  let ?c = "length tab" and ?j = "(idx + D) mod length tab"
  have c: "power2 ?c" "idx < ?c" "tab ! idx = (0, 0)" using less.prems(1) by (auto simp: gap_def)
  have j: "?j < ?c" using c by (intro mod_less_divisor) linarith
  have next_slot: "nextSlot (?c - Suc 0) ?j = (idx + Suc D) mod ?c"
    using nextSlot_mod[OF c(1), of ?j] by (simp add: mod_simps)
  show ?case
  proof (cases "isFree (tab ! ?j)")
    case True
    then show ?thesis using gap_closed[OF less.prems(1,2,3)] by (subst closeGap.simps) simp
  next
    case nf: False
    then have jf: "?j \<noteq> f" and ji: "?j \<noteq> idx" using less.prems c by (auto simp: isFree_def)
    have D: "D < ?c" using less.prems(3) ji c by (cases "D = ?c") auto
    have step: "dist ?c ((idx + Suc D) mod ?c) f < dist ?c ?j f"
      using dist_step[OF j less.prems(4) jf] by (simp add: mod_simps)
    show ?thesis
    proof (cases "misplaced idx ?j (home tab (fst (tab ! ?j)))")
      case True
      let ?tab = "tab[idx := tab ! ?j, ?j := (0, 0)]"
      have fr: "isFree (?tab ! f)" using less.prems jf by (simp add: nth_list_update)
      have nx: "(?j + 1) mod ?c = (idx + Suc D) mod ?c" by (simp add: mod_simps)
      have "\<exists>tab'. closeGap ?j ((?j + 1) mod length ?tab) ?tab = Some tab' \<and> table_ok tab' \<and> mset tab' = mset ?tab"
        by (rule less.hyps[OF _ gap_move[OF less.prems(1) j nf True]])
           (use step fr jf less.prems j nx in simp_all)
      then show ?thesis
        using nf True move_mset[OF c(2) j c(3)] next_slot nx
        by (subst closeGap.simps) (simp add: home_def)
    next
      case False
      have "\<exists>tab'. closeGap idx ((idx + Suc D) mod ?c) tab = Some tab' \<and> table_ok tab' \<and> mset tab' = mset tab"
        by (rule less.hyps[OF _ gap_keep[OF less.prems(1,2) D refl nf False]]) (use step D less.prems in simp_all)
      then show ?thesis using nf False next_slot by (subst closeGap.simps) (simp add: home_def)
    qed
  qed
qed

lemma table_ok_gap:
  assumes ok: "table_ok tab" and i: "i < length tab" "\<not> isFree (tab ! i)"
  shows "gap i 1 (tab[i := (0, 0)])" (is "gap i 1 ?tab")
proof -
  let ?c = "length tab"
  have c: "power2 ?c" using ok by (rule table_ok_length)
  have hm: "home ?tab k = home tab k" for k by (simp add: home_def)
  have "crosses ?tab i 1 x (home tab (fst (tab ! x)))" if x: "x < ?c" "\<not> isFree (tab ! x)" "x \<noteq> i" for x
    unfolding crosses_def length_list_update
  proof (intro allI impI)
    let ?h = "home tab (fst (tab ! x))"
    fix e assume e: "e < dist ?c ?h x" "isFree (ring ?tab ?h e)"
    have h: "?h < ?c" using c by (rule home_bound)
    obtain d where d: "x = (?h + d) mod ?c" "\<forall>e<d. \<not> isFree (ring tab ?h e)"
      using ok x by (auto simp: table_ok_def path_def)
    have "dist ?c ?h x \<le> d"
    proof (rule ccontr)
      assume "\<not> dist ?c ?h x \<le> d"
      then have "d < ?c" using dist_less[OF h x(1)] by linarith
      then have "dist ?c ?h x = d" using dist_offset[OF h] d(1) by metis
      then show False using \<open>\<not> dist ?c ?h x \<le> d\<close> by simp
    qed
    then have "\<not> isFree (ring tab ?h e)" using d e by auto
    then have "(?h + e) mod ?c = i"
      using e(2) unfolding ring_def length_list_update by (metis nth_list_update_neq)
    then show "(?h + e) mod ?c = i \<and> 1 \<le> dist ?c i x" using dist_zero[OF i(1) x(1)] x by simp
  qed
  then show ?thesis using ok c i by (auto simp: gap_def hm table_ok_def nth_list_update isFree_def)
qed

lemma remove_correct:
  assumes inv: "ptr_inv m" and k: "k \<noteq> 0"
  obtains m' where "ptr_map_remove k m = Some m'" "ptr_inv m'" "ptr_view m' = (ptr_view m)(k := None)"
proof (cases "slots m = []")
  case True
  then show thesis
    using that[of m] inv by (simp add: ptr_map_remove_def ptr_view_def view_def fun_eq_iff)
next
  case False
  then have ok: "pm_ok m" and t: "table_ok (slots m)" and cap: "1024 \<le> capOf m"
    using inv by (auto simp: ptr_inv_def pm_ok_def PTR_MAP_INIT_CAP_def)
  obtain f where f: "f < capOf m" "isFree (slots m ! f)" by (rule pm_free_slot[OF ok])
  obtain i where i: "probe (freeOr k) (slots m) (home (slots m) k) = Some i" "i < capOf m"
    "freeOr k (slots m ! i)" "isFree (slots m ! i) \<longrightarrow> view (slots m) k = None"
    using probe_key[OF t f k] by metis
  show thesis
  proof (cases "isFree (slots m ! i)")
    case True
    then have "ptr_view m = (ptr_view m)(k := None)" using i by (auto simp: ptr_view_def)
    then show thesis using that[of m] True i False k inv by (simp add: ptr_map_remove_def home_def)
  next
    case nf: False
    let ?tab = "(slots m)[i := (0, 0)]"
    have ki: "fst (slots m ! i) = k" using i(3) nf by (simp add: freeOr_def isFree_def)
    have fi: "f \<noteq> i" using f nf by auto
    have nx: "nextSlot (capOf m - Suc 0) i = (i + 1) mod capOf m" by (rule nextSlot_mod[OF table_ok_length[OF t]])
    have "\<exists>tab'. closeGap i ((i + 1) mod length ?tab) ?tab = Some tab' \<and> table_ok tab' \<and> mset tab' = mset ?tab"
      by (rule closeGap_correct[OF table_ok_gap[OF t i(2) nf], of f]) (use f fi cap in simp_all)
    then obtain tab' where tab': "closeGap i ((i + 1) mod capOf m) ?tab = Some tab'" "table_ok tab'"
      "mset tab' = mset ?tab" by auto
    have len: "length tab' = capOf m" using tab'(3) by (metis length_list_update size_mset)
    have "mset (filter (\<lambda>e. \<not> isFree e) tab') = mset (filter (\<lambda>e. \<not> isFree e) ?tab)"
      using tab'(3) by simp
    then have cnt: "length (filter (\<lambda>e. \<not> isFree e) tab') = length (filter (\<lambda>e. \<not> isFree e) ?tab)"
      by (metis size_mset)
    have "slots m = ?tab[i := slots m ! i]" by simp
    then have "length (filter (\<lambda>e. \<not> isFree e) (slots m)) = Suc (length (filter (\<lambda>e. \<not> isFree e) ?tab))"
      using filter_update[of i ?tab "\<lambda>e. \<not> isFree e" "slots m ! i"] i(2) nf by (simp add: isFree_def)
    then have ps: "pm_ok \<lparr>slots = tab', psize = psize m - 1\<rparr>"
      using ok tab'(2) cnt len by (simp add: pm_ok_def)
    have "view tab' x = ((view (slots m))(k := None)) x" for x
    proof -
      have "view tab' x = Some v \<longleftrightarrow> x \<noteq> k \<and> view (slots m) x = Some v" for v
      proof -
        have "view tab' x = Some v \<longleftrightarrow> x \<noteq> 0 \<and> (x, v) \<in># mset tab'"
          by (simp add: view_Some_iff[OF tab'(2)] in_set_conv_nth)
        also have "\<dots> \<longleftrightarrow> x \<noteq> 0 \<and> (\<exists>j<capOf m. ?tab ! j = (x, v))"
          by (simp add: tab'(3) in_set_conv_nth)
        also have "\<dots> \<longleftrightarrow> x \<noteq> k \<and> view (slots m) x = Some v"
        proof (cases "x = 0 \<or> x = k")
          case True
          have "(?tab ! j = (k, v)) = False" if "j < capOf m" for j
          proof
            assume v: "?tab ! j = (k, v)"
            then have ji: "j \<noteq> i" using i(2) k by auto
            then have "fst (slots m ! i) = fst (slots m ! j)" using v ki by simp
            then have "i = j" using t that i(2) nf unfolding table_ok_def by blast
            then show False using ji by simp
          qed simp
          then show ?thesis using True by (auto simp: view_def)
        next
          case False
          then have "?tab ! j = (x, v) \<longleftrightarrow> slots m ! j = (x, v)" for j
            using i(2) ki by (cases "j = i") auto
          then show ?thesis using False by (simp add: view_Some_iff[OF t])
        qed
        finally show ?thesis .
      qed
      then show ?thesis by (metis fun_upd_apply not_None_eq)
    qed
    then have "ptr_view \<lparr>slots = tab', psize = psize m - 1\<rparr> = (ptr_view m)(k := None)"
      by (simp add: ptr_view_def fun_eq_iff)
    moreover have "ptr_map_remove k m = Some \<lparr>slots = tab', psize = psize m - 1\<rparr>"
      using i(1) nf False k tab'(1) nx by (simp add: ptr_map_remove_def home_def)
    ultimately show thesis using that ps len cap by (simp add: ptr_inv_def PTR_MAP_INIT_CAP_def)
  qed
qed

section \<open>Sequences of operations\<close>

datatype PtrOp = InsertOp addr addr | RemoveOp addr | RebuildOp "(addr \<times> addr) list"

fun ptr_step :: "PtrOp \<Rightarrow> PtrMap \<Rightarrow> PtrMap option" where
  "ptr_step (InsertOp k v) m = ptr_map_insert k v m"
| "ptr_step (RemoveOp k) m = ptr_map_remove k m"
| "ptr_step (RebuildOp es) m = ptr_map_rebuild es m"

fun ptr_run :: "PtrOp list \<Rightarrow> PtrMap \<Rightarrow> PtrMap option" where
  "ptr_run [] m = Some m"
| "ptr_run (a # as) m = ptr_step a m \<bind> ptr_run as"

fun map_step :: "PtrOp \<Rightarrow> (addr \<rightharpoonup> addr) \<Rightarrow> (addr \<rightharpoonup> addr)" where
  "map_step (InsertOp k v) f = f(k \<mapsto> v)"
| "map_step (RemoveOp k) f = f(k := None)"
| "map_step (RebuildOp es) f = map_of es"

text \<open>
  The null pointer is never inserted, and a rebuild is given entries of the table (the survivors of a sweep).
\<close>

fun op_legal :: "PtrOp \<Rightarrow> (addr \<rightharpoonup> addr) \<Rightarrow> bool" where
  "op_legal (InsertOp k v) f \<longleftrightarrow> k \<noteq> 0"
| "op_legal (RemoveOp k) f \<longleftrightarrow> True"
| "op_legal (RebuildOp es) f \<longleftrightarrow> distinct (map fst es) \<and> list_all (\<lambda>(k, v). f k = Some v) es"

fun legal :: "PtrOp list \<Rightarrow> (addr \<rightharpoonup> addr) \<Rightarrow> bool" where
  "legal [] f \<longleftrightarrow> True"
| "legal (a # as) f \<longleftrightarrow> op_legal a f \<and> legal as (map_step a f)"

lemma ptr_view_zero: "ptr_view m 0 = None"
  by (simp add: ptr_view_def view_def)

lemma entries_fit:
  assumes "ptr_inv m" "distinct (map fst es)" "list_all (\<lambda>(k, v). ptr_view m k = Some v) es"
  shows "0 \<notin> fst ` set es" and "length es \<le> psize m"
proof -
  show "0 \<notin> fst ` set es"
  proof
    assume "0 \<in> fst ` set es"
    then obtain v where "(0, v) \<in> set es" by auto
    then show False using assms(3) ptr_view_zero[of m] by (auto simp: list_all_iff)
  qed
  show "length es \<le> psize m"
  proof (cases "slots m = []")
    case True
    then have "ptr_view m k = None" for k by (simp add: ptr_view_def view_def)
    then show ?thesis using assms(3) by (cases es) auto
  next
    case False
    then have ok: "pm_ok m" using assms(1) by (simp add: ptr_inv_def)
    let ?all = "filter (\<lambda>e. \<not> isFree e) (slots m)"
    have "set (map fst es) \<subseteq> set (map fst ?all)"
    proof
      fix k assume "k \<in> set (map fst es)"
      then obtain v where "(k, v) \<in> set es" by auto
      then have "map_of ?all k = Some v"
        using assms(3) by (auto simp: entries_of(3)[OF ok] ptr_view_def list_all_iff)
      then have "(k, v) \<in> set ?all" by (rule map_of_SomeD)
      then show "k \<in> set (map fst ?all)" unfolding set_map by (rule rev_image_eqI) simp
    qed
    then have "card (set (map fst es)) \<le> card (set (map fst ?all))" by (intro card_mono) simp_all
    then have "length (map fst es) \<le> length (map fst ?all)"
      using distinct_card[OF assms(2)] distinct_card[OF entries_of(1)[OF ok]] by metis
    then show ?thesis using entries_of(4)[OF ok] by simp
  qed
qed

lemma ptr_step_correct:
  assumes "ptr_inv m" "op_legal a (ptr_view m)"
  obtains m' where "ptr_step a m = Some m'" "ptr_inv m'" "ptr_view m' = map_step a (ptr_view m)"
proof (cases a)
  case (InsertOp k v)
  then show thesis using ptr.insert_entry[OF assms(1), of k v] assms(2) that by auto
next
  case (RemoveOp k)
  show thesis
  proof (cases "k = 0")
    case True
    have "(ptr_view m)(0 := None) = ptr_view m" using ptr_view_zero[of m] by (simp add: fun_upd_idem)
    then show thesis using that[of m] assms(1) True RemoveOp by (simp add: ptr_map_remove_def)
  next
    case False
    obtain m' where "ptr_map_remove k m = Some m'" "ptr_inv m'" "ptr_view m' = (ptr_view m)(k := None)"
      by (rule remove_correct[OF assms(1) False])
    then show thesis using that RemoveOp by simp
  qed
next
  case (RebuildOp es)
  then have es: "distinct (map fst es)" "list_all (\<lambda>(k, v). ptr_view m k = Some v) es"
    using assms(2) by simp_all
  obtain m' where "ptr_map_rebuild es m = Some m'" "ptr_inv m'" "ptr_view m' = map_of es"
    by (rule rebuild_correct[OF assms(1) es(1) entries_fit[OF assms(1) es]])
  then show thesis using that RebuildOp by simp
qed

lemma ptr_run_correct:
  assumes "ptr_inv m" "legal as (ptr_view m)"
  shows "\<exists>m'. ptr_run as m = Some m' \<and> ptr_inv m' \<and> ptr_view m' = fold map_step as (ptr_view m)"
  using assms
proof (induction as arbitrary: m)
  case (Cons a as)
  then obtain m1 where "ptr_step a m = Some m1" "ptr_inv m1" "ptr_view m1 = map_step a (ptr_view m)"
    using ptr_step_correct[of m a] by auto
  then show ?case using Cons.IH[of m1] Cons.prems(2) by simp
qed simp

text \<open>
  C21. The pointer table implements a finite map: after any sequence of insertions, removals and rebuilds from
  surviving entries, starting with the unallocated table, every operation has ended and every lookup gives
  what the map holds, or the null pointer.
\<close>

theorem ptr_map_refines:
  assumes "legal as Map.empty"
  shows "\<exists>m. ptr_run as noPtrMap = Some m
    \<and> (\<forall>k. ptr_map_lookup k m = Some (case fold map_step as Map.empty k of None \<Rightarrow> 0 | Some v \<Rightarrow> v))"
proof -
  obtain m where m: "ptr_run as noPtrMap = Some m" "ptr_inv m" "ptr_view m = fold map_step as Map.empty"
    using ptr_run_correct[OF ptr_inv_none] assms by (auto simp: ptr_view_none)
  have "ptr_map_lookup k m = Some (case ptr_view m k of None \<Rightarrow> 0 | Some v \<Rightarrow> v)" for k
    using m(2) by (cases "k = 0") (simp_all add: ptr.find_null ptr.find_entry ptr_view_zero)
  then show ?thesis using m by auto
qed

theorem ptr_map_refines_witness:
  "\<exists>m. ptr_run [InsertOp 56 32, InsertOp 120 96, RemoveOp 56, InsertOp 184 160, RebuildOp [(120, 96)]] noPtrMap = Some m
    \<and> ptr_map_lookup 120 m = Some 96 \<and> ptr_map_lookup 184 m = Some 0"
proof -
  let ?as = "[InsertOp 56 32, InsertOp 120 96, RemoveOp 56, InsertOp 184 160, RebuildOp [(120, 96)]]"
  have "legal ?as Map.empty" by simp
  from ptr_map_refines[OF this] show ?thesis by auto
qed

end
