(* ===== verification/Gc_Sweep.thy ===== *)
theory Gc_Sweep
  imports Gc_Mark Ptr_Map_Remove
begin

text \<open>
  The invariant of the heap between two operations, and what sweeping does to it: exactly the marked objects
  stay, with their memory, and the byte count is that of the objects that stay.
\<close>

section \<open>The invariant\<close>

definition blockSize :: "Gc \<Rightarrow> addr \<Rightarrow> nat" where
  "blockSize st h = (case blocks st h of None \<Rightarrow> 0 | Some n \<Rightarrow> n)"

definition inBlock :: "Gc \<Rightarrow> addr \<Rightarrow> addr \<Rightarrow> bool" where
  "inBlock st h a \<longleftrightarrow> unat h \<le> unat a \<and> unat a < unat h + blockSize st h"

definition apart :: "Gc \<Rightarrow> addr \<Rightarrow> addr \<Rightarrow> bool" where
  "apart st g h \<longleftrightarrow> unat g + blockSize st g \<le> unat h \<or> unat h + blockSize st h \<le> unat g"

definition pooled :: "Gc \<Rightarrow> addr list" where
  "pooled st = concat (fl_heads st)"

definition pool_ok :: "Gc \<Rightarrow> bool" where
  "pool_ok st \<longleftrightarrow> length (fl_heads st) = length fl_class_sizes
     \<and> (\<forall>l \<in> set (fl_heads st). length l \<le> FL_MAX_PER_CLASS)"

definition placed :: "Gc \<Rightarrow> bool" where
  "placed st \<longleftrightarrow> (\<forall>h \<in> dom (hdrs st). h \<noteq> 0 \<and> HEADER \<le> blockSize st h \<and> unat h + blockSize st h < 2 ^ 64
     \<and> (\<forall>g \<in> dom (hdrs st). g \<noteq> h \<longrightarrow> apart st g h))"

definition sized :: "Gc \<Rightarrow> addr \<Rightarrow> bool" where
  "sized st h \<longleftrightarrow> HEADER \<le> sizeOf st h \<and> sizeOf st h \<le> blockSize st h
     \<and> (\<forall>hd. hdrs st h = Some hd \<longrightarrow> ownsArray (tagOf (type_tag hd)) \<longrightarrow> HEADER + 8 \<le> sizeOf st h)"

definition heap_ok :: "addr list \<Rightarrow> Gc \<Rightarrow> bool" where
  "heap_ok L st \<longleftrightarrow> distinct (L @ pooled st) \<and> dom (hdrs st) = set (L @ pooled st) \<and> pool_ok st \<and> placed st
     \<and> (\<forall>h \<in> set L. sized st h) \<and> (\<forall>h \<in> set (pooled st). \<not> isMarked st h)
     \<and> heap_bytes st = sum_list (map (sizeOf st) L)"

definition table_agrees :: "Gc \<Rightarrow> bool" where
  "table_agrees st \<longleftrightarrow> ptr_inv (ptr_map st) \<and> ptr_view (ptr_map st) = map_of (map (\<lambda>h. (userOf h, h)) (heap st))"

definition bounded :: "Gc \<Rightarrow> bool" where
  "bounded st \<longleftrightarrow> (\<forall>h \<in> set (heap st). heap_lo st \<le> h \<and> unat h + sizeOf st h \<le> unat (heap_hi st))"

text \<open>
  A cached block is as large as its size class, and so is every object that will be cached.
\<close>

definition fits :: "addr list \<Rightarrow> Gc \<Rightarrow> bool" where
  "fits L st \<longleftrightarrow> (\<forall>h \<in> set L. \<forall>c. fl_class_for (sizeOf st h) = Some c \<longrightarrow> fl_class_sizes ! c \<le> blockSize st h)
     \<and> (\<forall>c < length (fl_heads st). \<forall>h \<in> set (fl_heads st ! c). fl_class_sizes ! c \<le> blockSize st h)"

definition gc_ok :: "Gc \<Rightarrow> bool" where
  "gc_ok st \<longleftrightarrow> heap_ok (heap st) st \<and> table_agrees st \<and> bounded st \<and> marks st = {} \<and> buckets (chunk_table st) = []"

text \<open>
  What the collector relies on from the rest of the runtime: the arrays that lists, dictionaries and sets own
  are not themselves blocks of the collector, and queues of tasks end.
\<close>

definition arrays_apart :: "Gc \<Rightarrow> bool" where
  "arrays_apart st \<longleftrightarrow> (\<forall>h \<in> set (heap st). \<forall>hd. hdrs st h = Some hd \<longrightarrow> ownsArray (tagOf (type_tag hd)) \<longrightarrow>
     hdrs st (load64 (mem st) (userOf h)) = None)"

definition queues_end :: "Gc \<Rightarrow> bool" where
  "queues_end st \<longleftrightarrow> tasks (mem st) (ready_head st) \<noteq> None
     \<and> (\<forall>h \<in> set (heap st). \<forall>hd. hdrs st h = Some hd \<longrightarrow> candidates (mem st) (userOf h) hd \<noteq> None)"

section \<open>Addresses\<close>

lemma placedD:
  assumes "placed st" "h \<in> dom (hdrs st)"
  shows "h \<noteq> 0" and "HEADER \<le> blockSize st h" and "unat h + blockSize st h < 2 ^ 64"
  using assms unfolding placed_def by blast+

lemma userOf_unat:
  "placed st \<Longrightarrow> h \<in> dom (hdrs st) \<Longrightarrow> unat (userOf h) = unat h + HEADER"
  unfolding userOf_def by (rule unat_plus64) (use placedD(2,3)[of st h] in linarith)

lemma userOf_nonzero: "placed st \<Longrightarrow> h \<in> dom (hdrs st) \<Longrightarrow> userOf h \<noteq> 0"
  using userOf_unat[of st h] by (auto simp: HEADER_def)

lemma userOf_inj: "userOf g = userOf h \<longleftrightarrow> g = h"
  by (simp add: userOf_def)

lemma get_header_userOf: "userOf h \<noteq> 0 \<Longrightarrow> get_header (userOf h) = h"
  by (simp add: get_header_def userOf_def)

lemma userOf_get_header: "p \<noteq> 0 \<Longrightarrow> userOf (get_header p) = p"
  by (simp add: get_header_def userOf_def)

lemma apart_inBlock:
  "placed st \<Longrightarrow> g \<in> dom (hdrs st) \<Longrightarrow> h \<in> dom (hdrs st) \<Longrightarrow> inBlock st g a \<Longrightarrow> inBlock st h a \<Longrightarrow> g = h"
  unfolding placed_def apart_def inBlock_def by (meson leD le_trans order_less_le_trans)

lemma inBlock_start: "placed st \<Longrightarrow> h \<in> dom (hdrs st) \<Longrightarrow> inBlock st h h"
  using placedD(2)[of st h] by (simp add: inBlock_def HEADER_def)

lemma load_cong: "(\<forall>i<n. m (a + of_nat i) = m' (a + of_nat i)) \<Longrightarrow> load n m a = load n m' a"
proof (induction n arbitrary: a)
  case (Suc n)
  have "m a = m' a" using Suc.prems[rule_format, of 0] by simp
  moreover have "load n m (a + 1) = load n m' (a + 1)"
    using Suc.prems by (intro Suc.IH) (auto simp: add.assoc dest: spec[of _ "Suc _"])
  ultimately show ?case by simp
qed simp

lemma store_other:
  "x - a \<notin> of_nat ` {..<length bs} \<Longrightarrow> store a bs m x = m x"
proof (induction bs arbitrary: a m)
  case (Cons b bs)
  have "x \<noteq> a"
  proof
    assume "x = a"
    then have "x - a = of_nat 0" by simp
    then have "x - a \<in> of_nat ` {..<length (b # bs)}" by (rule image_eqI) simp
    then show False using Cons.prems by simp
  qed
  moreover have "x - (a + 1) \<notin> of_nat ` {..<length bs}"
  proof
    assume "x - (a + 1) \<in> of_nat ` {..<length bs}"
    then obtain i where "i < length bs" "x - (a + 1) = of_nat i" by auto
    then have "x - a = of_nat (Suc i)" "Suc i < length (b # bs)" by (simp_all add: algebra_simps)
    then show False using Cons.prems by blast
  qed
  ultimately show ?case using Cons.IH by simp
qed simp

lemma bytesOf_length [simp]: "length (bytesOf n w) = n"
  by (induction n arbitrary: w) simp_all

text \<open>Overwriting the first word of the payload of an object leaves the other blocks alone.\<close>

lemma store_outside:
  assumes p: "placed st" and h: "h \<in> dom (hdrs st)" and big: "HEADER + 8 \<le> blockSize st h"
    and a: "\<not> inBlock st h a"
  shows "store (userOf h) (bytesOf 8 w) m a = m a"
proof (rule store_other, rule notI)
  assume "a - userOf h \<in> of_nat ` {..<length (bytesOf 8 w)}"
  then obtain i where i: "i < 8" "a = userOf h + of_nat i" by (auto simp: algebra_simps)
  have "unat h + blockSize st h < 2 ^ 64" using p h by (simp add: placed_def)
  then have "unat a = unat h + HEADER + i"
    using i big userOf_unat[OF p h] by (simp add: unat_plus64)
  then show False using a i big by (simp add: inBlock_def HEADER_def)
qed

section \<open>Releasing an object\<close>

definition rest :: "Gc \<Rightarrow> PtrMap \<times> ChunkTable \<times> addr list \<times> addr list \<times> addr \<times> addr \<times> nat \<times> addr \<times> addr" where
  "rest st = (ptr_map st, chunk_table st, heap st, global_roots st, stack_bottom st, ready_head st, gc_threshold st,
     heap_lo st, heap_hi st)"

definition keeps :: "addr list \<Rightarrow> Gc \<Rightarrow> Gc \<Rightarrow> bool" where
  "keeps L st st' \<longleftrightarrow> rest st' = rest st
     \<and> (\<forall>g \<in> set L. map_option unmark (hdrs st' g) = map_option unmark (hdrs st g) \<and> blocks st' g = blocks st g
          \<and> (\<forall>a. inBlock st g a \<longrightarrow> mem st' a = mem st a))"

lemma keeps_same: "keeps L st st"
  by (simp add: keeps_def)

lemma keeps_then: "keeps L st st1 \<Longrightarrow> keeps L st1 st2 \<Longrightarrow> keeps L st st2"
  by (simp add: keeps_def inBlock_def blockSize_def)

lemma keeps_subset: "keeps L st st' \<Longrightarrow> set M \<subseteq> set L \<Longrightarrow> keeps M st st'"
  by (auto simp: keeps_def)

lemma placed_mono:
  assumes p: "placed st" and sub: "dom (hdrs st') \<subseteq> dom (hdrs st)" and same: "\<forall>g \<in> dom (hdrs st'). blocks st' g = blocks st g"
  shows "placed st'"
  unfolding placed_def
proof
  fix h assume h: "h \<in> dom (hdrs st')"
  then have h': "h \<in> dom (hdrs st)" using sub by (rule rev_subsetD)
  have size: "blockSize st' g = blockSize st g" if "g \<in> dom (hdrs st')" for g using same that by (simp add: blockSize_def)
  have "apart st' g h" if g: "g \<in> dom (hdrs st')" "g \<noteq> h" for g
  proof -
    have "g \<in> dom (hdrs st)" using g(1) sub by (rule rev_subsetD)
    then have "apart st g h" using p h' g(2) unfolding placed_def by blast
    then show ?thesis using size h g(1) by (simp add: apart_def)
  qed
  then show "h \<noteq> 0 \<and> HEADER \<le> blockSize st' h \<and> unat h + blockSize st' h < 2 ^ 64
     \<and> (\<forall>g \<in> dom (hdrs st'). g \<noteq> h \<longrightarrow> apart st' g h)"
    using placedD[OF p h'] size[OF h] by (intro conjI ballI impI) simp_all
qed

lemma sizeOf_unmark: "map_option unmark (hdrs st' g) = map_option unmark (hdrs st g) \<Longrightarrow> sizeOf st' g = sizeOf st g"
  by (cases "hdrs st g"; cases "hdrs st' g") (auto simp: sizeOf_def unmark_def dest: arg_cong[where f = hsize])

lemma sized_unmark:
  assumes "map_option unmark (hdrs st' g) = map_option unmark (hdrs st g)" "blocks st' g = blocks st g" "sized st g"
  shows "sized st' g"
proof -
  have "type_tag hd' = type_tag hd" if "hdrs st' g = Some hd'" "hdrs st g = Some hd" for hd hd'
    using assms(1) that by (auto simp: unmark_def dest: arg_cong[where f = type_tag])
  moreover have "hdrs st g \<noteq> None" if "hdrs st' g \<noteq> None" using assms(1) that by (metis option.map_disc_iff)
  ultimately show ?thesis
    using assms(3) unfolding sized_def sizeOf_unmark[OF assms(1)] blockSize_def assms(2) by (metis not_None_eq)
qed

lemma finalize_frame:
  assumes "placed st" "h \<in> dom (hdrs st)" "sized st h"
    and data: "\<forall>hd. hdrs st h = Some hd \<longrightarrow> ownsArray (tagOf (type_tag hd)) \<longrightarrow> hdrs st (load64 (mem st) (userOf h)) = None"
  shows "hdrs (finalize h st) = hdrs st" and "fl_heads (finalize h st) = fl_heads st"
    and "heap_bytes (finalize h st) = heap_bytes st" and "rest (finalize h st) = rest st"
    and "g \<in> dom (hdrs st) \<Longrightarrow> blocks (finalize h st) g = blocks st g"
    and "\<not> inBlock st h a \<Longrightarrow> mem (finalize h st) a = mem st a"
proof -
  obtain hd where hd: "hdrs st h = Some hd" using assms(2) by auto
  let ?d = "load64 (mem st) (userOf h)"
  have same: "(hdrs st)(?d := None) = hdrs st" if "ownsArray (tagOf (type_tag hd))"
    using data hd that by (simp add: fun_upd_idem)
  show "hdrs (finalize h st) = hdrs st" "fl_heads (finalize h st) = fl_heads st"
    "heap_bytes (finalize h st) = heap_bytes st" "rest (finalize h st) = rest st"
    using same by (auto simp: finalize_def hd Let_def cfree_def rest_def simp del: load.simps bytesOf.simps)
  show "blocks (finalize h st) g = blocks st g" if "g \<in> dom (hdrs st)"
    using that data hd by (auto simp: finalize_def Let_def cfree_def simp del: load.simps bytesOf.simps)
  show "mem (finalize h st) a = mem st a" if a: "\<not> inBlock st h a"
  proof (cases "ownsArray (tagOf (type_tag hd))")
    case True
    then have "HEADER + 8 \<le> blockSize st h" using assms(3) hd by (auto simp: sized_def)
    then show ?thesis
      using store_outside[OF assms(1,2) _ a, of 0 "mem st"]
      by (auto simp: finalize_def hd Let_def cfree_def simp del: load.simps bytesOf.simps)
  qed (simp add: finalize_def hd Let_def)
qed

lemma mset_concat_update:
  "c < length fl \<Longrightarrow> mset (concat (fl[c := h # fl ! c])) = add_mset h (mset (concat fl))"
proof (induction fl arbitrary: c)
  case (Cons x fl)
  then show ?case by (cases c) auto
qed simp

lemma classFrom_less: "classFrom c ss n = Some k \<Longrightarrow> c \<le> k \<and> k < c + length ss \<and> n \<le> ss ! (k - c)"
proof (induction ss arbitrary: c)
  case (Cons s ss)
  then show ?case
    by (cases "n \<le> s") (fastforce simp: nth_Cons' split: if_splits)+
qed simp

lemma fl_push_cases:
  assumes "pool_ok st"
  obtains (full) "fl_push h st = (False, st)"
  | (cached) c where "fl_push h st = (True, st\<lparr>fl_heads := (fl_heads st)[c := h # fl_heads st ! c]\<rparr>)"
      "c < length (fl_heads st)" "length (fl_heads st ! c) < FL_MAX_PER_CLASS"
      "fl_class_for (sizeOf st h) = Some c"
proof (cases "fl_class_for (sizeOf st h)")
  case (Some c)
  have "c < length (fl_heads st)" "fl_class_for (sizeOf st h) = Some c"
    using classFrom_less[of 0 fl_class_sizes "sizeOf st h" c] Some assms by (auto simp: fl_class_for_def pool_ok_def)
  moreover have "fl_push h st = (False, st)" if "FL_MAX_PER_CLASS \<le> length (fl_heads st ! c)"
    using Some that by (simp add: fl_push_def)
  moreover have "fl_push h st = (True, st\<lparr>fl_heads := (fl_heads st)[c := h # fl_heads st ! c]\<rparr>)"
    if "\<not> FL_MAX_PER_CLASS \<le> length (fl_heads st ! c)"
    using Some that by (simp add: fl_push_def)
  ultimately show thesis using full cached[of c] by (meson not_le_imp_less)
next
  case None
  then have "fl_push h st = (False, st)" by (simp add: fl_push_def)
  then show thesis by (rule full)
qed

lemma sum_list_minus:
  "(sum_list (map f (L1 @ h # L2)) :: nat) - f h = sum_list (map f (L1 @ L2))"
  by simp

lemma release_ok:
  assumes ok: "heap_ok (L1 @ h # L2) st" and un: "\<not> isMarked st h"
    and data: "\<forall>hd. hdrs st h = Some hd \<longrightarrow> ownsArray (tagOf (type_tag hd)) \<longrightarrow> hdrs st (load64 (mem st) (userOf h)) = None"
  shows "heap_ok (L1 @ L2) (release h st)" and "keeps (L1 @ L2) st (release h st)"
    and "g \<in> set (L1 @ L2) \<Longrightarrow> hdrs (release h st) g = hdrs st g"
    and "dom (hdrs (release h st)) \<subseteq> dom (hdrs st)"
    and "fits (L1 @ h # L2) st \<Longrightarrow> fits (L1 @ L2) (release h st)"
proof -
  let ?L = "L1 @ L2" and ?all = "L1 @ h # L2 @ pooled st"
  have d: "distinct ?all" "dom (hdrs st) = set ?all" and pool: "pool_ok st" and p: "placed st"
    and sz: "\<forall>g \<in> set (L1 @ h # L2). sized st g" and clear: "\<forall>g \<in> set (pooled st). \<not> isMarked st g"
    and hb: "heap_bytes st = sum_list (map (sizeOf st) (L1 @ h # L2))"
    using ok by (auto simp: heap_ok_def)
  define st1 where "st1 = st\<lparr>heap_bytes := heap_bytes st - sizeOf st h,
    gc_stats := (gc_stats st)\<lparr>total_bytes_collected := total_bytes_collected (gc_stats st) + sizeOf st h\<rparr>\<rparr>"
  define st2 where "st2 = finalize h st1"
  have h: "h \<in> dom (hdrs st1)" using d by (simp add: st1_def)
  have p1: "placed st1" and s1: "sized st1 h"
    using p sz by (auto simp: st1_def placed_def sized_def apart_def blockSize_def sizeOf_def)
  have data1: "\<forall>hd. hdrs st1 h = Some hd \<longrightarrow> ownsArray (tagOf (type_tag hd)) \<longrightarrow> hdrs st1 (load64 (mem st1) (userOf h)) = None"
    using data by (simp add: st1_def del: load.simps)
  note f = finalize_frame[OF p1 h s1 data1, folded st2_def]
  have same: "hdrs st2 = hdrs st" "fl_heads st2 = fl_heads st" "rest st2 = rest st"
    "heap_bytes st2 = sum_list (map (sizeOf st) ?L)"
    using f(1-4) hb sum_list_minus[of "sizeOf st"] by (auto simp: st1_def rest_def)
  have blk: "blocks st2 g = blocks st g" if "g \<in> dom (hdrs st)" for g using f(5)[of g] that by (simp add: st1_def)
  have ib: "inBlock st1 h a = inBlock st h a" for a by (simp add: st1_def inBlock_def blockSize_def)
  have memo: "mem st2 a = mem st a" if "g \<in> set ?L" "inBlock st g a" for g a
  proof -
    have "g \<noteq> h" "g \<in> dom (hdrs st)" using d that by auto
    then have "\<not> inBlock st h a" using apart_inBlock[OF p] that h by (auto simp: st1_def)
    then show ?thesis using f(6)[of a] unfolding ib by (simp add: st1_def)
  qed
  have size2: "sizeOf st2 g = sizeOf st g" for g by (simp add: sizeOf_def same)
  have pool2: "pool_ok st2" using pool by (simp add: pool_ok_def same)
  have marked2: "isMarked st2 g = isMarked st g" for g by (simp add: isMarked_def same)
  have rel: "release h st = (let (cached, st) = fl_push h st2 in if cached then st else cfree h st)"
    by (simp add: release_def st1_def st2_def Let_def)
  consider (full) "fl_push h st2 = (False, st2)"
    | (cached) c where "fl_push h st2 = (True, st2\<lparr>fl_heads := (fl_heads st2)[c := h # fl_heads st2 ! c]\<rparr>)"
      "c < length (fl_heads st2)" "length (fl_heads st2 ! c) < FL_MAX_PER_CLASS"
      "fl_class_for (sizeOf st2 h) = Some c"
    by (rule fl_push_cases[OF pool2, of h])
  then have "heap_ok ?L (release h st) \<and> keeps ?L st (release h st)
    \<and> (\<forall>g \<in> set ?L. hdrs (release h st) g = hdrs st g) \<and> dom (hdrs (release h st)) \<subseteq> dom (hdrs st)
    \<and> (fits (L1 @ h # L2) st \<longrightarrow> fits (L1 @ L2) (release h st))"
  proof cases
    case full
    then have r: "release h st = cfree h st2" by (simp add: rel)
    have hd: "hdrs (cfree h st2) g = (if g = h then None else hdrs st g)" for g by (simp add: cfree_def same)
    have bl: "blocks (cfree h st2) g = blocks st g" if "g \<in> dom (hdrs st)" "g \<noteq> h" for g
      using blk that by (simp add: cfree_def)
    have "dom (hdrs (cfree h st2)) = dom (hdrs st) - {h}" by (auto simp: domIff hd split: if_splits)
    then have dom: "dom (hdrs (cfree h st2)) = set (?L @ pooled st)" using d by auto
    have pl: "pooled (cfree h st2) = pooled st" by (simp add: pooled_def cfree_def same)
    have "dom (hdrs (cfree h st2)) \<subseteq> dom (hdrs st)" "\<forall>g \<in> dom (hdrs (cfree h st2)). blocks (cfree h st2) g = blocks st g"
      using \<open>dom (hdrs (cfree h st2)) = dom (hdrs st) - {h}\<close> bl by auto
    then have "placed (cfree h st2)" by (rule placed_mono[OF p])
    moreover have "\<forall>g \<in> set ?L. sized (cfree h st2) g"
    proof
      fix g assume g: "g \<in> set ?L"
      then have "g \<noteq> h" "g \<in> dom (hdrs st)" using d by auto
      then have "hdrs (cfree h st2) g = hdrs st g" "blocks (cfree h st2) g = blocks st g" by (simp_all add: hd bl)
      moreover have "sized st g" using sz g by auto
      ultimately show "sized (cfree h st2) g" using sized_unmark[of "cfree h st2" g st] by simp
    qed
    moreover have sizes: "map (sizeOf (cfree h st2)) ?L = map (sizeOf st) ?L"
      using d by (auto simp: sizeOf_def hd)
    moreover have "\<forall>g \<in> set (pooled st). \<not> isMarked (cfree h st2) g"
      using clear d(1) by (simp add: isMarked_def hd)
    moreover have "pool_ok (cfree h st2)" using pool2 by (simp add: pool_ok_def cfree_def)
    moreover have "heap_bytes (cfree h st2) = sum_list (map (sizeOf (cfree h st2)) ?L)"
      unfolding sizes using same(4) by (simp add: cfree_def)
    moreover have "distinct (?L @ pooled st)" using d(1) by auto
    ultimately have "heap_ok ?L (cfree h st2)" unfolding heap_ok_def pl dom by blast
    moreover have "keeps ?L st (cfree h st2)"
      unfolding keeps_def using same(3) d memo bl hd by (auto simp: rest_def cfree_def)
    moreover have "\<forall>g \<in> set ?L. hdrs (cfree h st2) g = hdrs st g" using d(1) by (auto simp: hd)
    moreover have "dom (hdrs (cfree h st2)) \<subseteq> dom (hdrs st)" using \<open>dom (hdrs (cfree h st2)) = dom (hdrs st) - {h}\<close> by blast
    moreover have "fits ?L (cfree h st2)" if "fits (L1 @ h # L2) st"
    proof -
      have "blockSize (cfree h st2) g = blockSize st g" "sizeOf (cfree h st2) g = sizeOf st g" if "g \<in> set (?L @ pooled st)" for g
      proof -
        have "g \<noteq> h" "g \<in> dom (hdrs st)" using that d by auto
        then show "blockSize (cfree h st2) g = blockSize st g" "sizeOf (cfree h st2) g = sizeOf st g"
          using bl[of g] by (simp_all add: blockSize_def sizeOf_def hd)
      qed
      moreover have "fl_heads (cfree h st2) = fl_heads st" by (simp add: cfree_def same)
      moreover have "g \<in> set (pooled st)" if "c < length (fl_heads st)" "g \<in> set (fl_heads st ! c)" for c g
        using that by (auto simp: pooled_def)
      ultimately show ?thesis using that unfolding fits_def by auto
    qed
    ultimately show ?thesis unfolding r by blast
  next
    case (cached c)
    define st3 where "st3 = st2\<lparr>fl_heads := (fl_heads st2)[c := h # fl_heads st2 ! c]\<rparr>"
    have r: "release h st = st3" using cached by (simp add: rel st3_def)
    have hd: "hdrs st3 = hdrs st" and bl: "blocks st3 = blocks st2" by (simp_all add: st3_def same)
    have "mset (pooled st3) = add_mset h (mset (pooled st))"
      using mset_concat_update[OF cached(2)] by (simp add: st3_def pooled_def same)
    then have ms: "mset (?L @ pooled st3) = mset ?all" by simp
    have dist: "distinct (?L @ pooled st3)" using d(1) mset_eq_imp_distinct_iff[OF ms] by simp
    have dom: "dom (hdrs st3) = set (?L @ pooled st3)" using d(2) mset_eq_setD[OF ms] by (simp add: hd)
    have "set (fl_heads st3) \<subseteq> insert (h # fl_heads st2 ! c) (set (fl_heads st2))"
      by (simp add: st3_def set_update_subset_insert)
    then have "pool_ok st3" using pool2 cached(2,3) by (auto simp: pool_ok_def st3_def)
    moreover have "placed st3" by (rule placed_mono[OF p]) (use hd bl blk in auto)
    moreover have "\<forall>g \<in> set ?L. sized st3 g"
    proof
      fix g assume g: "g \<in> set ?L"
      then have "blocks st3 g = blocks st g" using d(2) blk bl by auto
      moreover have "sized st g" using sz g by auto
      ultimately show "sized st3 g" using sized_unmark[of st3 g st] by (simp add: hd)
    qed
    moreover have "\<forall>g \<in> set (pooled st3). \<not> isMarked st3 g"
      using clear un mset_eq_setD[OF \<open>mset (pooled st3) = add_mset h (mset (pooled st))\<close>[folded mset.simps(2)]]
      by (simp add: isMarked_def hd)
    moreover have "heap_bytes st3 = sum_list (map (sizeOf st3) ?L)"
    proof -
      have "sizeOf st3 = sizeOf st" by (simp add: sizeOf_def fun_eq_iff hd)
      then show ?thesis using same(4) by (simp add: st3_def)
    qed
    ultimately have "heap_ok ?L st3" unfolding heap_ok_def using dist dom by blast
    moreover have "keeps ?L st st3"
      unfolding keeps_def using same(3) d memo blk by (auto simp: rest_def st3_def same)
    moreover have "fits ?L st3" if "fits (L1 @ h # L2) st"
    proof -
      have size: "blockSize st3 g = blockSize st g" if "g \<in> set ?all" for g using that d blk bl by (simp add: blockSize_def)
      have "fl_class_sizes ! c' \<le> blockSize st3 g" if "c' < length (fl_heads st)" "g \<in> set (fl_heads st3 ! c')" for c' g
      proof (cases "g \<in> set (fl_heads st ! c')")
        case True
        then have "g \<in> set (pooled st)" using that(1) by (auto simp: pooled_def)
        then show ?thesis using \<open>fits (L1 @ h # L2) st\<close> True that(1) size by (simp add: fits_def)
      next
        case False
        then have "c' = c" "g = h" using that cached(2) by (auto simp: st3_def same nth_list_update split: if_splits)
        then show ?thesis using \<open>fits (L1 @ h # L2) st\<close> cached(4) size by (simp add: fits_def size2)
      qed
      moreover have "sizeOf st3 = sizeOf st" by (simp add: sizeOf_def fun_eq_iff hd)
      moreover have "length (fl_heads st3) = length (fl_heads st)" by (simp add: st3_def same)
      ultimately show ?thesis using \<open>fits (L1 @ h # L2) st\<close> size unfolding fits_def by auto
    qed
    ultimately show ?thesis unfolding r by (simp add: hd)
  qed
  then show "heap_ok (L1 @ L2) (release h st)" and "keeps (L1 @ L2) st (release h st)"
    and "g \<in> set (L1 @ L2) \<Longrightarrow> hdrs (release h st) g = hdrs st g"
    and "dom (hdrs (release h st)) \<subseteq> dom (hdrs st)"
    and "fits (L1 @ h # L2) st \<Longrightarrow> fits (L1 @ L2) (release h st)" by blast+
qed

section \<open>The loop over the objects\<close>

lemma clear_ok:
  assumes ok: "heap_ok (L1 @ h # L2) st"
  shows "heap_ok (L1 @ h # L2) (set_marked False h st)" and "keeps (L1 @ h # L2) st (set_marked False h st)"
    and "fits L st \<Longrightarrow> fits L (set_marked False h st)"
proof -
  let ?st = "set_marked False h st"
  have un: "map_option unmark (hdrs ?st g) = map_option unmark (hdrs st g)" for g
    by (simp add: set_marked_def unmark_def[abs_def] option.map_comp comp_def)
  have size: "sizeOf ?st = sizeOf st" using sizeOf_unmark[OF un] by (simp add: fun_eq_iff)
  have dom: "dom (hdrs ?st) = dom (hdrs st)" by (auto simp: set_marked_def)
  have blk: "blocks ?st = blocks st" "pooled ?st = pooled st" "pool_ok ?st = pool_ok st" "heap_bytes ?st = heap_bytes st"
    by (simp_all add: set_marked_def pooled_def pool_ok_def)
  have "placed ?st" by (rule placed_mono[of st]) (use ok in \<open>simp_all add: heap_ok_def dom blk\<close>)
  moreover have "sized ?st g" if "sized st g" for g using that un sized_unmark[of ?st g st] by (simp add: blk)
  moreover have "\<not> isMarked ?st g" if "\<not> isMarked st g" for g
    using that by (auto simp: isMarked_def set_marked_def split: option.splits)
  ultimately show "heap_ok (L1 @ h # L2) ?st" using ok by (simp add: heap_ok_def dom blk size)
  show "fits L st \<Longrightarrow> fits L ?st" unfolding fits_def size blockSize_def blk by (simp add: set_marked_def)
  show "keeps (L1 @ h # L2) st ?st" by (simp add: keeps_def un blk rest_def) (simp add: set_marked_def)
qed

lemma owned_load:
  assumes "keeps L st st'" "h \<in> set L" "placed st" "h \<in> dom (hdrs st)" "HEADER + 8 \<le> blockSize st h"
  shows "load64 (mem st') (userOf h) = load64 (mem st) (userOf h)"
proof (rule load_cong, intro allI impI)
  fix i :: nat assume i: "i < 8"
  have "unat (userOf h + of_nat i) = unat h + HEADER + i"
    using userOf_unat[OF assms(3,4)] placedD(3)[OF assms(3,4)] assms(5) i by (subst unat_plus64) simp_all
  then have "inBlock st h (userOf h + of_nat i)" using assms(5) i by (simp add: inBlock_def)
  then show "mem st' (userOf h + of_nat i) = mem st (userOf h + of_nat i)" using assms(1,2) by (simp add: keeps_def)
qed

definition apart_from_arrays :: "addr list \<Rightarrow> Gc \<Rightarrow> bool" where
  "apart_from_arrays L st \<longleftrightarrow> (\<forall>h \<in> set L. \<forall>hd. hdrs st h = Some hd \<longrightarrow> ownsArray (tagOf (type_tag hd)) \<longrightarrow>
     hdrs st (load64 (mem st) (userOf h)) = None)"

lemma apart_keeps:
  assumes a: "apart_from_arrays M st" and k: "keeps L st st'" and M: "set M \<subseteq> set L" and ok: "heap_ok K st" and K: "set M \<subseteq> set K"
    and dom: "dom (hdrs st') \<subseteq> dom (hdrs st)"
  shows "apart_from_arrays M st'"
  unfolding apart_from_arrays_def
proof (intro ballI allI impI)
  fix h hd' assume h: "h \<in> set M" "hdrs st' h = Some hd'" "ownsArray (tagOf (type_tag hd'))"
  then have hL: "h \<in> set L" and hK: "h \<in> set K" and hd: "h \<in> dom (hdrs st)" using M K ok by (auto simp: heap_ok_def)
  then obtain hd where "hdrs st h = Some hd" by auto
  moreover from this have "type_tag hd' = type_tag hd"
    using k hL h(2) by (auto simp: keeps_def unmark_def dest!: bspec[of _ _ h] arg_cong[where f = type_tag])
  moreover have "HEADER + 8 \<le> blockSize st h" if "ownsArray (tagOf (type_tag hd))" "hdrs st h = Some hd" for hd
    using ok hK that by (auto simp: heap_ok_def sized_def)
  ultimately have "hdrs st (load64 (mem st') (userOf h)) = None"
    using a h owned_load[OF k hL _ hd] ok by (simp add: apart_from_arrays_def heap_ok_def del: load.simps)
  then show "hdrs st' (load64 (mem st') (userOf h)) = None" using dom by blast
qed

lemma isMarked_keeps: "hdrs st' h = hdrs st h \<Longrightarrow> isMarked st' h = isMarked st h"
  by (simp add: isMarked_def)

lemma sweep_loop:
  assumes "heap_ok (kept @ hs) st" "apart_from_arrays hs st" "\<forall>h \<in> set kept. \<not> isMarked st h"
  shows "\<exists>st'. fold sweepStep hs (kept, st) = (kept @ filter (isMarked st) hs, st')
    \<and> heap_ok (kept @ filter (isMarked st) hs) st' \<and> keeps (kept @ filter (isMarked st) hs) st st'
    \<and> (\<forall>h \<in> set (kept @ filter (isMarked st) hs). \<not> isMarked st' h)
    \<and> (fits (kept @ hs) st \<longrightarrow> fits (kept @ filter (isMarked st) hs) st') \<and> dom (hdrs st') \<subseteq> dom (hdrs st)"
  using assms
proof (induction hs arbitrary: kept st)
  case (Cons h hs)
  have dist: "h \<notin> set hs" "h \<notin> set kept" and dom: "dom (hdrs st) = set (kept @ (h # hs) @ pooled st)"
    using Cons.prems(1) by (auto simp: heap_ok_def)
  show ?case
  proof (cases "isMarked st h")
    case True
    let ?st = "set_marked False h st"
    have others: "hdrs ?st g = hdrs st g" if "g \<noteq> h" for g using that by (simp add: set_marked_def)
    have ok: "heap_ok ((kept @ [h]) @ hs) ?st" and k: "keeps ((kept @ [h]) @ hs) st ?st"
      using clear_ok[of kept h hs st] Cons.prems(1) by simp_all
    have "dom (hdrs ?st) \<subseteq> dom (hdrs st)" by (auto simp: set_marked_def split: if_splits)
    then have "apart_from_arrays hs ?st"
      by (intro apart_keeps[OF _ k _ Cons.prems(1)])
         (use Cons.prems in \<open>auto simp: apart_from_arrays_def simp del: load.simps\<close>)
    moreover have "\<forall>g \<in> set (kept @ [h]). \<not> isMarked ?st g"
      using Cons.prems(3) by (auto simp: isMarked_def set_marked_def split: option.splits)
    moreover have marked: "filter (isMarked ?st) hs = filter (isMarked st) hs"
    proof (rule filter_cong[OF refl])
      fix g assume "g \<in> set hs"
      then have "g \<noteq> h" using dist by auto
      then show "isMarked ?st g = isMarked st g" using others by (simp add: isMarked_def)
    qed
    ultimately obtain st' where st': "fold sweepStep hs (kept @ [h], ?st) = ((kept @ [h]) @ filter (isMarked st) hs, st')"
      "heap_ok ((kept @ [h]) @ filter (isMarked st) hs) st'" "keeps ((kept @ [h]) @ filter (isMarked st) hs) ?st st'"
      "\<forall>g \<in> set ((kept @ [h]) @ filter (isMarked st) hs). \<not> isMarked st' g"
      "fits ((kept @ [h]) @ hs) ?st \<longrightarrow> fits ((kept @ [h]) @ filter (isMarked st) hs) st'" "dom (hdrs st') \<subseteq> dom (hdrs ?st)"
      using Cons.IH[OF ok] by auto
    have "keeps ((kept @ [h]) @ filter (isMarked st) hs) st st'"
      using keeps_then[OF keeps_subset[OF k] st'(3)] by auto
    moreover have "sweepStep h (kept, st) = (kept @ [h], ?st)" using True by (simp add: sweepStep_def)
    moreover have "fits ((kept @ [h]) @ hs) st \<Longrightarrow> fits ((kept @ [h]) @ hs) ?st" by (rule clear_ok(3)[OF Cons.prems(1)])
    ultimately show ?thesis using st' True \<open>dom (hdrs ?st) \<subseteq> dom (hdrs st)\<close> by auto
  next
    case False
    let ?st = "release h st"
    have data: "\<forall>hd. hdrs st h = Some hd \<longrightarrow> ownsArray (tagOf (type_tag hd)) \<longrightarrow> hdrs st (load64 (mem st) (userOf h)) = None"
      using Cons.prems(2) by (simp add: apart_from_arrays_def del: load.simps)
    note r = release_ok[OF Cons.prems(1) False data]
    have "apart_from_arrays hs st" using Cons.prems(2) by (simp add: apart_from_arrays_def del: load.simps)
    then have "apart_from_arrays hs ?st" by (rule apart_keeps[OF _ r(2) _ Cons.prems(1) _ r(4)]) auto
    moreover have "\<forall>g \<in> set kept. \<not> isMarked ?st g" using Cons.prems(3) r(3) by (simp add: isMarked_def)
    moreover have marked: "filter (isMarked ?st) hs = filter (isMarked st) hs"
      using r(3) by (intro filter_cong) (auto simp: isMarked_def)
    ultimately obtain st' where st': "fold sweepStep hs (kept, ?st) = (kept @ filter (isMarked st) hs, st')"
      "heap_ok (kept @ filter (isMarked st) hs) st'" "keeps (kept @ filter (isMarked st) hs) ?st st'"
      "\<forall>g \<in> set (kept @ filter (isMarked st) hs). \<not> isMarked st' g"
      "fits (kept @ hs) ?st \<longrightarrow> fits (kept @ filter (isMarked st) hs) st'" "dom (hdrs st') \<subseteq> dom (hdrs ?st)"
      using Cons.IH[OF r(1)] by auto
    have "keeps (kept @ filter (isMarked st) hs) st st'"
      using keeps_then[OF keeps_subset[OF r(2)] st'(3)] by auto
    moreover have "sweepStep h (kept, st) = (kept, ?st)" using False by (simp add: sweepStep_def)
    ultimately show ?thesis using st' False r(4,5) by auto
  qed
qed (simp add: keeps_same)

section \<open>The whole sweep\<close>

lemma bounds_fold:
  fixes f :: "addr \<Rightarrow> nat" and lo hi :: addr
  defines "step \<equiv> (\<lambda>h (lo, hi). let start = h; end = start + of_nat (f h)
       in (if start < lo then start else lo, if end > hi then end else hi))"
  shows "fst (fold step hs (lo, hi)) \<le> lo \<and> hi \<le> snd (fold step hs (lo, hi))
    \<and> (\<forall>h \<in> set hs. fst (fold step hs (lo, hi)) \<le> h \<and> h + of_nat (f h) \<le> snd (fold step hs (lo, hi)))"
proof (induction hs arbitrary: lo hi)
  case (Cons h hs)
  obtain lo' hi' where s: "step h (lo, hi) = (lo', hi')" by fastforce
  then have "lo' \<le> lo" "lo' \<le> h" "hi \<le> hi'" "h + of_nat (f h) \<le> hi'"
    by (auto simp: step_def Let_def split: if_splits)
  then show ?case using Cons.IH[of lo' hi'] s by (auto intro: order_trans)
qed simp

lemma keeps_sizes:
  assumes "keeps L st st'" "h \<in> set L"
  shows "sizeOf st' h = sizeOf st h"
  using assms by (intro sizeOf_unmark) (simp add: keeps_def)

lemma table_entries: "(\<And>h. h \<in> set L \<Longrightarrow> userOf h \<noteq> 0) \<Longrightarrow> distinct L \<Longrightarrow>
    distinct (map fst (map (\<lambda>h. (userOf h, h)) L))"
  by (simp add: comp_def distinct_map inj_on_def userOf_inj)

lemma sweep_ok:
  assumes ok: "heap_ok (heap st) st" and arrays: "apart_from_arrays (heap st) st" and table: "table_agrees st"
  defines "kept \<equiv> filter (isMarked st) (heap st)"
  obtains st' where "sweep st = Some st'" "heap st' = kept" "heap_ok kept st'" "table_agrees st'" "bounded st'"
    "marks st' = {}" "buckets (chunk_table st') = []"
    "\<forall>h \<in> set kept. map_option unmark (hdrs st' h) = map_option unmark (hdrs st h) \<and> blocks st' h = blocks st h
       \<and> (\<forall>a. inBlock st h a \<longrightarrow> mem st' a = mem st a)"
    "global_roots st' = global_roots st" "stack_bottom st' = stack_bottom st" "ready_head st' = ready_head st"
    "gc_threshold st' = gc_threshold st" "fits (heap st) st \<longrightarrow> fits kept st'" "dom (hdrs st') \<subseteq> dom (hdrs st)"
proof -
  obtain st1 where st1: "fold sweepStep (heap st) ([], st) = (kept, st1)" "heap_ok kept st1" "keeps kept st st1"
    "\<forall>h \<in> set kept. \<not> isMarked st1 h" "fits (heap st) st \<longrightarrow> fits kept st1" "dom (hdrs st1) \<subseteq> dom (hdrs st)"
    using sweep_loop[of "[]" "heap st" st] ok arrays by (auto simp: kept_def)
  have r: "rest st1 = rest st" using st1(3) by (simp add: keeps_def)
  let ?es = "map (\<lambda>h. (userOf h, h)) kept"
  have dist: "distinct (heap st)" and dom: "set (heap st) \<subseteq> dom (hdrs st)" and p: "placed st"
    using ok by (auto simp: heap_ok_def)
  have nz: "userOf h \<noteq> 0" if "h \<in> set (heap st)" for h using userOf_nonzero[OF p] dom that by blast
  have es: "distinct (map fst ?es)" using dist nz by (intro table_entries) (auto simp: kept_def)
  have all: "distinct (map fst (map (\<lambda>h. (userOf h, h)) (heap st)))" using dist nz by (intro table_entries)
  have inv: "ptr_inv (ptr_map st1)" and view: "ptr_view (ptr_map st1) = map_of (map (\<lambda>h. (userOf h, h)) (heap st))"
    using table r by (auto simp: table_agrees_def rest_def)
  have legal: "list_all (\<lambda>(k, v). ptr_view (ptr_map st1) k = Some v) ?es"
    unfolding view list_all_iff kept_def using all by (auto intro!: map_of_is_SomeI)
  obtain m where m: "ptr_map_rebuild ?es (ptr_map st1) = Some m" "ptr_inv m" "ptr_view m = map_of ?es"
    by (rule rebuild_correct[OF inv es entries_fit[OF inv es legal]])
  define st2 where "st2 = st1\<lparr>heap := kept, gc_stats := (gc_stats st1)\<lparr>current_live_bytes := heap_bytes st1\<rparr>,
    ptr_map := m, chunk_table := chunk_table_free (chunk_table st1)\<rparr>"
  obtain lo hi where b: "bounds st2 = (lo, hi)" by fastforce
  let ?st = "st2\<lparr>heap_lo := lo, heap_hi := hi\<rparr>"
  have same: "hdrs ?st = hdrs st1" "blocks ?st = blocks st1" "mem ?st = mem st1" "fl_heads ?st = fl_heads st1"
    "heap_bytes ?st = heap_bytes st1" "heap ?st = kept" "ptr_map ?st = m"
    by (simp_all add: st2_def)
  have sz: "sizeOf ?st = sizeOf st1" by (simp add: sizeOf_def fun_eq_iff same)
  have run: "sweep st = Some ?st"
    unfolding sweep_def st1(1) using m(1) b by (simp add: st2_def[symmetric])
  have hok: "heap_ok kept ?st"
    using st1(2) by (simp add: heap_ok_def sized_def placed_def apart_def pooled_def pool_ok_def isMarked_def blockSize_def same sz)
  have "bounded ?st"
    unfolding bounded_def same(6) sz
  proof
    fix h assume h: "h \<in> set kept"
    have "bounds st2 = fold (\<lambda>h (lo, hi). let start = h; end = start + of_nat (sizeOf st1 h)
       in (if start < lo then start else lo, if end > hi then end else hi)) kept (UINTPTR_MAX, 0)"
      using sz by (simp add: bounds_def st2_def sizeOf_def[abs_def])
    then have "fst (bounds st2) \<le> h \<and> h + of_nat (sizeOf st1 h) \<le> snd (bounds st2)"
      using bounds_fold[where f = "sizeOf st1" and hs = kept and lo = UINTPTR_MAX and hi = 0] h by simp
    then have "lo \<le> h" "h + of_nat (sizeOf st1 h) \<le> hi" by (simp_all add: b)
    moreover have "unat (h + of_nat (sizeOf st1 h)) = unat h + sizeOf st1 h"
    proof (rule unat_plus64)
      have "h \<in> dom (hdrs st1)" "sizeOf st1 h \<le> blockSize st1 h" using st1(2) h by (auto simp: heap_ok_def sized_def)
      moreover have "placed st1" using st1(2) by (simp add: heap_ok_def)
      ultimately show "unat h + sizeOf st1 h < 2 ^ 64" using placedD(3) by fastforce
    qed
    ultimately show "heap_lo ?st \<le> h \<and> unat h + sizeOf st1 h \<le> unat (heap_hi ?st)" by (simp add: word_le_nat_alt)
  qed
  moreover have "marks ?st = {}"
  proof -
    have "\<not> isMarked st1 a" for a
      using st1(2,4) isMarked_None[of st1 a] by (auto simp: heap_ok_def)
    then show ?thesis by (simp add: marks_def isMarked_def same)
  qed
  moreover have "table_agrees ?st" using m by (simp add: table_agrees_def same)
  moreover have "buckets (chunk_table ?st) = []"
    by (simp add: st2_def chunk_table_free_def noChunkTable_def)
  moreover have "\<forall>h \<in> set kept. map_option unmark (hdrs ?st h) = map_option unmark (hdrs st h) \<and> blocks ?st h = blocks st h
       \<and> (\<forall>a. inBlock st h a \<longrightarrow> mem ?st a = mem st a)"
    using st1(3) unfolding keeps_def same by blast
  moreover have "fits (heap st) st \<longrightarrow> fits kept ?st" using st1(5) by (simp add: fits_def sz same blockSize_def)
  moreover have "dom (hdrs ?st) \<subseteq> dom (hdrs st)" using st1(6) by (simp add: same)
  ultimately show thesis
    using that[OF run same(6) hok] r by (simp add: st2_def rest_def)
qed

end
