(* ===== verification/Gc_Collect.thy ===== *)
theory Gc_Collect
  imports Gc_Sweep
begin

text \<open>
  The guarantees of the collector: the lookup of an address finds the object that contains it, a collection
  keeps exactly the reachable objects unless it meets an interior pointer, and an allocation returns fresh
  zeroed memory inside its block.
\<close>

section \<open>Finding the object of an address\<close>

definition inside :: "Gc \<Rightarrow> addr \<Rightarrow> addr \<Rightarrow> bool" where
  "inside st p h \<longleftrightarrow> p = userOf h \<or> (unat h + HEADER \<le> unat p \<and> unat p < unat h + sizeOf st h)"

definition interior :: "Gc \<Rightarrow> addr \<Rightarrow> bool" where
  "interior st p \<longleftrightarrow> (\<exists>h \<in> set (heap st). inside st p h \<and> p \<noteq> userOf h)"

definition extentOf :: "Gc \<Rightarrow> addr \<Rightarrow> extent" where
  "extentOf st h = (userOf h, payloadOf st h, h)"

lemma heap_okD:
  assumes "heap_ok L st" "h \<in> set L"
  shows "h \<in> dom (hdrs st)" "placed st" "HEADER \<le> sizeOf st h" "sizeOf st h \<le> blockSize st h"
    "unat h + blockSize st h < 2 ^ 64" "userOf h \<noteq> 0" "unat (userOf h) = unat h + HEADER"
proof -
  show d: "h \<in> dom (hdrs st)" and p: "placed st" and "HEADER \<le> sizeOf st h" "sizeOf st h \<le> blockSize st h"
    using assms by (auto simp: heap_ok_def sized_def)
  show "unat h + blockSize st h < 2 ^ 64" "userOf h \<noteq> 0" "unat (userOf h) = unat h + HEADER"
    using placedD(3)[OF p d] userOf_nonzero[OF p d] userOf_unat[OF p d] by simp_all
qed

lemma payload_size:
  assumes "heap_ok L st" "h \<in> set L"
  shows "payloadOf st h = sizeOf st h - HEADER"
proof -
  obtain hd where hd: "hdrs st h = Some hd" using heap_okD(1)[OF assms] by auto
  have "unat (of_nat HEADER :: 32 word) = 24" by (simp add: HEADER_def)
  moreover have "24 \<le> unat (hsize hd)" using heap_okD(3)[OF assms] by (simp add: sizeOf_def hd HEADER_def)
  ultimately have "unat (hsize hd - of_nat HEADER) = unat (hsize hd) - 24"
    by (subst unat_sub) (simp_all add: word_le_nat_alt)
  then show ?thesis by (simp add: payloadOf_def sizeOf_def hd HEADER_def)
qed

lemma inside_block:
  assumes "heap_ok L st" "h \<in> set L" "inside st p h"
  shows "inBlock st h (get_header p)" and "p \<noteq> 0" and "p = userOf h \<longleftrightarrow> get_header p = h"
proof -
  note D = heap_okD[OF assms(1,2)]
  have p: "unat h + HEADER \<le> unat p" using assms(3) D(7) by (auto simp: inside_def)
  then show nz: "p \<noteq> 0" by (auto simp: HEADER_def)
  have "unat (of_nat HEADER :: addr) = HEADER" by (simp add: HEADER_def)
  moreover have "of_nat HEADER \<le> p" using p by (simp add: word_le_nat_alt HEADER_def)
  ultimately have "unat (get_header p) = unat p - HEADER" using nz by (simp add: get_header_def unat_sub)
  then show "inBlock st h (get_header p)"
    using assms(3) D p by (auto simp: inBlock_def inside_def HEADER_def)
  show "p = userOf h \<longleftrightarrow> get_header p = h"
    using get_header_userOf[OF D(6)] userOf_get_header[OF nz] by auto
qed

lemma inside_unique:
  assumes "heap_ok L st" "g \<in> set L" "h \<in> set L" "inside st p g" "inside st p h"
  shows "g = h"
  using apart_inBlock[OF heap_okD(2)[OF assms(1,2)] heap_okD(1)[OF assms(1,2)] heap_okD(1)[OF assms(1,3)]]
    inside_block(1)[OF assms(1)] assms(2-) by blast

lemma buildChunks_lookup:
  assumes "heap_ok (heap st) st"
  shows "chunk_table_lookup p (chunk_table (buildChunks st))
    = (case find (covers p) (map (extentOf st) (heap st)) of None \<Rightarrow> 0 | Some (user, sz, hdr) \<Rightarrow> hdr)"
proof -
  have "extent_ok x" if x: "x \<in> set (map (extentOf st) (heap st))" for x
  proof -
    obtain h where h: "x = extentOf st h" "h \<in> set (heap st)" using x by auto
    note D = heap_okD[OF assms h(2)]
    obtain hd where "hdrs st h = Some hd" using D(1) by auto
    then have "sizeOf st h < 2 ^ 32" using unsigned_less[of "hsize hd", where ?'a = nat] by (simp add: sizeOf_def)
    then show ?thesis using D payload_size[OF assms h(2)] h(1) by (simp add: extentOf_def)
  qed
  moreover have "chunk_table (buildChunks st) = fold addExtent (map (extentOf st) (heap st)) chunk_table_init"
    by (simp add: buildChunks_def fold_map comp_def extentOf_def)
  ultimately show ?thesis using lookup_extents by simp
qed

lemma covers_extent:
  assumes "heap_ok L st" "h \<in> set L"
  shows "covers p (extentOf st h) \<longleftrightarrow> unat h + HEADER \<le> unat p \<and> unat p < unat h + sizeOf st h"
  using heap_okD[OF assms] payload_size[OF assms] by (auto simp: extentOf_def)

lemma table_entry:
  assumes "heap_ok (heap st) st" "table_agrees st"
  shows "ptr_view (ptr_map st) p = Some v \<longleftrightarrow> v \<in> set (heap st) \<and> p = userOf v"
proof -
  have "distinct (map fst (map (\<lambda>h. (userOf h, h)) (heap st)))"
    using assms(1) heap_okD(6)[OF assms(1)] by (intro table_entries) (auto simp: heap_ok_def)
  then show ?thesis using assms(2) by (auto simp: table_agrees_def map_of_eq_Some_iff)
qed

lemma find_first:
  "x \<in> set xs \<Longrightarrow> P x \<Longrightarrow> (\<And>y. y \<in> set xs \<Longrightarrow> P y \<Longrightarrow> y = x) \<Longrightarrow> find P xs = Some x"
proof (induction xs)
  case (Cons a xs)
  show ?case
  proof (cases "P a")
    case True
    then have "a = x" by (intro Cons.prems(3)) simp_all
    then show ?thesis using True by simp
  next
    case False
    then have "x \<in> set xs" using Cons.prems(1,2) by auto
    then have "find P xs = Some x" using Cons.prems(3) by (intro Cons.IH Cons.prems(2)) simp_all
    then show ?thesis using False by simp
  qed
qed simp

lemma find_inside:
  assumes ok: "heap_ok (heap st) st" and table: "table_agrees st" and b: "bounded st"
    and h: "h \<in> set (heap st)" "inside st p h"
  shows "find_gc_header p (buildChunks st) = Some h"
proof -
  note D = heap_okD[OF ok h(1)]
  have inv: "ptr_inv (ptr_map st)" using table by (simp add: table_agrees_def)
  have p: "p \<noteq> 0" by (rule inside_block(2)[OF ok h])
  have hn: "h \<noteq> 0" using placedD(1)[OF D(2,1)] .
  show ?thesis
  proof (cases "ptr_view (ptr_map st) p")
    case (Some v)
    then have v: "v \<in> set (heap st)" "p = userOf v" using table_entry[OF ok table] by auto
    then have "v = h" using inside_unique[OF ok v(1) h(1) _ h(2)] by (simp add: inside_def)
    then show ?thesis
      using Some p hn ptr.find_entry[OF inv p] by (simp add: find_gc_header_def buildChunks_def)
  next
    case None
    then have "p \<noteq> userOf h" using table_entry[OF ok table, of p h] h(1) by auto
    then have in_range: "unat h + HEADER \<le> unat p" "unat p < unat h + sizeOf st h" using h(2) by (auto simp: inside_def)
    have "heap_lo st \<le> h" "unat h + sizeOf st h \<le> unat (heap_hi st)" using b h(1) by (auto simp: bounded_def)
    then have guard: "\<not> (p < heap_lo st \<or> p \<ge> heap_hi st)"
      using in_range by (auto simp: word_less_nat_alt word_le_nat_alt)
    have "find (covers p) (map (extentOf st) (heap st)) = Some (extentOf st h)"
    proof (rule find_first)
      show "extentOf st h \<in> set (map (extentOf st) (heap st))" using h(1) by simp
      show "covers p (extentOf st h)" using covers_extent[OF ok h(1)] in_range by simp
      fix y assume "y \<in> set (map (extentOf st) (heap st))" "covers p y"
      then obtain g where "g \<in> set (heap st)" "y = extentOf st g" "covers p (extentOf st g)" by auto
      then show "y = extentOf st h" using covers_extent[OF ok] inside_unique[OF ok _ h(1) _ h(2)] by (auto simp: inside_def)
    qed
    then have "chunk_table_lookup p (chunk_table (buildChunks st)) = h"
      using buildChunks_lookup[OF ok] by (simp add: extentOf_def)
    then show ?thesis
      using None p guard ptr.find_entry[OF inv p] by (simp add: find_gc_header_def) (simp add: buildChunks_def)
  qed
qed

lemma find_outside:
  assumes ok: "heap_ok (heap st) st" and table: "table_agrees st" and out: "\<forall>h \<in> set (heap st). \<not> inside st p h"
  shows "find_gc_header p (buildChunks st) = Some 0"
proof (cases "p = 0")
  case False
  have inv: "ptr_inv (ptr_map st)" using table by (simp add: table_agrees_def)
  have "ptr_view (ptr_map st) p = None"
    using table_entry[OF ok table, of p] out by (cases "ptr_view (ptr_map st) p") (auto simp: inside_def)
  moreover have "find (covers p) (map (extentOf st) (heap st)) = None"
    using out covers_extent[OF ok] by (auto simp: find_None_iff inside_def)
  then have "chunk_table_lookup p (chunk_table (buildChunks st)) = 0" using buildChunks_lookup[OF ok] by simp
  ultimately show ?thesis
    using False ptr.find_entry[OF inv False] by (simp add: find_gc_header_def) (simp add: buildChunks_def)
qed (simp add: find_gc_header_def)

end
