(* ===== verification/Gc_Safe.thy ===== *)
theory Gc_Safe
  imports Gc_Collect
begin

text \<open>
  The safety of a collection (\<^verbatim>\<open>__visuall_gc_collect\<close> of \<^verbatim>\<open>stdlib/gc.c\<close>): during a collection the lookup of an
  address is the search for the object that contains it, and a collection keeps exactly the reachable objects
  with all their bytes, unless it reaches a pointer into the middle of an object, whose bytes it takes for a
  header.
\<close>

section \<open>The object of an address\<close>

definition owner :: "Gc \<Rightarrow> addr \<Rightarrow> addr" where
  "owner st p = (case find (inside st p) (heap st) of None \<Rightarrow> 0 | Some h \<Rightarrow> h)"

lemma owner_inside: "gc_ok st \<Longrightarrow> find_gc_header p (buildChunks st) = Some (owner st p)"
proof (cases "find (inside st p) (heap st)")
  case None
  assume "gc_ok st"
  moreover have "\<forall>h \<in> set (heap st). \<not> inside st p h" using None by (simp add: find_None_iff)
  ultimately show ?thesis using None by (simp add: owner_def gc_ok_def find_outside)
next
  case (Some h)
  assume "gc_ok st"
  moreover have "h \<in> set (heap st) \<and> inside st p h" using Some by (auto simp: find_Some_iff)
  ultimately show ?thesis using Some by (simp add: owner_def gc_ok_def find_inside)
qed

text \<open>
  C23. Whenever the invariant of the heap holds, looking up any machine word during a collection, first in the
  hash table of object starts, then against the bounds of the heap, then in the table of 4 KB chunks, gives the
  same answer as a search through all objects for the one whose payload contains the word, or 0 if there is none.
\<close>

theorem find_header_owner:
  assumes "gc_ok st"
  shows "find_gc_header p (buildChunks st) = Some (owner st p)"
  by (rule owner_inside[OF assms])

section \<open>Headers up to marks\<close>

lemma heap_ok_transport:
  assumes ok: "heap_ok L st" and h: "\<forall>a. map_option unmark (hdrs st' a) = map_option unmark (hdrs st a)"
    and same: "blocks st' = blocks st" "fl_heads st' = fl_heads st" "heap_bytes st' = heap_bytes st"
    and clear: "\<forall>h \<in> set (pooled st). \<not> isMarked st' h"
  shows "heap_ok L st'"
proof -
  have "hdrs st' a = None \<longleftrightarrow> hdrs st a = None" for a using h[rule_format, of a] by (metis option.map_disc_iff)
  then have "dom (hdrs st') = dom (hdrs st)" by (simp add: dom_def)
  moreover have "sizeOf st' = sizeOf st" using sizeOf_unmark h by blast
  moreover have "\<forall>g. sized st g \<longrightarrow> sized st' g"
  proof (intro allI impI)
    fix g assume "sized st g"
    moreover have "map_option unmark (hdrs st' g) = map_option unmark (hdrs st g)" using h by blast
    ultimately show "sized st' g" using sized_unmark same(1) by simp
  qed
  moreover have "pooled st' = pooled st" "pool_ok st' = pool_ok st" by (simp_all add: pooled_def pool_ok_def same)
  moreover have "apart st' = apart st" "blockSize st' = blockSize st"
    by (simp_all add: apart_def[abs_def] blockSize_def[abs_def] same)
  ultimately show ?thesis using ok clear by (simp add: heap_ok_def placed_def same)
qed

lemma onlyMarks_more:
  assumes "onlyMarks st st'"
  shows "blocks st' = blocks st" "fl_heads st' = fl_heads st" "heap_bytes st' = heap_bytes st"
    "gc_threshold st' = gc_threshold st" "chunk_table st' = chunk_table st"
  using assms by (auto simp: onlyMarks_def) (metis Gc.select_convs Gc.update_convs(2) Gc.surjective)+

lemma buildChunks_same [simp]:
  "hdrs (buildChunks st) = hdrs st" "mem (buildChunks st) = mem st" "blocks (buildChunks st) = blocks st"
  "heap (buildChunks st) = heap st" "fl_heads (buildChunks st) = fl_heads st" "heap_bytes (buildChunks st) = heap_bytes st"
  "ptr_map (buildChunks st) = ptr_map st" "global_roots (buildChunks st) = global_roots st"
  "stack_bottom (buildChunks st) = stack_bottom st" "ready_head (buildChunks st) = ready_head st"
  "gc_threshold (buildChunks st) = gc_threshold st" "heap_lo (buildChunks st) = heap_lo st" "heap_hi (buildChunks st) = heap_hi st"
  by (simp_all add: buildChunks_def)

lemma found_owner: "gc_ok st \<Longrightarrow> found (buildChunks st) p \<longleftrightarrow> owner st p \<noteq> 0"
  by (simp add: found_def owner_inside)

lemma found_inside:
  assumes ok: "gc_ok st" and f: "found (buildChunks st) p"
  obtains h where "h \<in> set (heap st)" "inside st p h"
proof -
  have "owner st p \<noteq> 0" using f found_owner[OF ok] by simp
  then obtain h where "find (inside st p) (heap st) = Some h" by (auto simp: owner_def split: option.splits)
  then have "h \<in> set (heap st) \<and> inside st p h" by (auto simp: find_Some_iff)
  then show thesis using that by blast
qed

text \<open>A word inside an object has a header before it exactly when it points at the start of the payload.\<close>

lemma inside_header:
  assumes ok: "heap_ok (heap st) st" and h: "h \<in> set (heap st)" "inside st p h" and d: "get_header p \<in> dom (hdrs st)"
  shows "p = userOf h"
proof -
  note D = heap_okD[OF ok h(1)]
  have "inBlock st h (get_header p)" by (rule inside_block(1)[OF ok h])
  moreover have "inBlock st (get_header p) (get_header p)" by (rule inBlock_start[OF D(2) d])
  ultimately have "get_header p = h" using apart_inBlock[OF D(2) d D(1)] by blast
  then show ?thesis using inside_block(3)[OF ok h] by simp
qed

lemma found_stray:
  assumes ok: "gc_ok st" and f: "found (buildChunks st) p"
  shows "stray (buildChunks st) p \<longleftrightarrow> interior st p"
proof -
  have hok: "heap_ok (heap st) st" using ok by (simp add: gc_ok_def)
  obtain h where h: "h \<in> set (heap st)" "inside st p h" by (rule found_inside[OF ok f])
  have "p \<noteq> 0" by (rule inside_block(2)[OF hok h])
  moreover have "hdrs st (get_header p) = None \<longleftrightarrow> p \<noteq> userOf h"
  proof (cases "p = userOf h")
    case True
    then show ?thesis using inside_block(3)[OF hok h] heap_okD(1)[OF hok h(1)] by (simp add: domIff)
  next
    case False
    then show ?thesis using inside_header[OF hok h] domIff[of "get_header p" "hdrs st"] by blast
  qed
  moreover have "interior st p \<longleftrightarrow> p \<noteq> userOf h"
    using h inside_unique[OF hok _ h(1) _ h(2)] unfolding interior_def by blast
  ultimately show ?thesis by (simp add: stray_def)
qed

lemma built_traceable:
  assumes ok: "gc_ok st" and q: "queues_end st"
  shows "traceable (buildChunks st)"
  unfolding traceable_def
proof (intro conjI allI impI)
  have hok: "heap_ok (heap st) st" using ok by (simp add: gc_ok_def)
  show "finite (dom (hdrs (buildChunks st)))" using hok by (simp add: heap_ok_def)
  show "find_gc_header p (buildChunks st) \<noteq> None" for p by (simp add: owner_inside[OF ok])
  fix p hdr assume f: "found (buildChunks st) p" and hdr: "hdrs (buildChunks st) (get_header p) = Some hdr"
  obtain h where h: "h \<in> set (heap st)" "inside st p h" by (rule found_inside[OF ok f])
  have "p = userOf h" using inside_header[OF hok h] hdr by auto
  moreover from this have "get_header p = h" using inside_block(3)[OF hok h] by simp
  ultimately show "candidates (mem (buildChunks st)) p hdr \<noteq> None" using q h(1) hdr by (simp add: queues_end_def)
qed

lemma edge_found: "edge st p c \<Longrightarrow> found st c"
  by (simp add: edge_def)

lemma live_found:
  assumes "live sp st q"
  shows "found st q"
proof -
  obtain ws w where w: "w \<in> hits st ws" "reach st w q" using assms by (auto simp: live_def)
  from w(2) show ?thesis using w(1) by (cases rule: rtranclp.cases) (auto simp: hits_def edge_found)
qed

section \<open>Collecting\<close>

definition reachable :: "addr \<Rightarrow> Gc \<Rightarrow> addr \<Rightarrow> bool" where
  "reachable sp st q \<longleftrightarrow> live sp (buildChunks st) q"

text \<open>
  The outcomes of marking that follow from the invariant: the mark phase meets a reachable interior pointer, or
  it has marked exactly the objects whose address is reachable.
\<close>

lemma mark_phase:
  assumes ok: "gc_ok st" and q: "queues_end st"
  obtains p where "mark_roots sp (buildChunks st) = Some (Inl (StrayHeader p))" "reachable sp st p" "interior st p"
  | stm where "mark_roots sp (buildChunks st) = Some (Inr stm)" "onlyMarks (buildChunks st) stm"
      "\<forall>p. reachable sp st p \<longrightarrow> \<not> interior st p" "heap_ok (heap st) stm"
      "\<forall>h \<in> set (heap st). isMarked stm h \<longleftrightarrow> reachable sp st (userOf h)"
proof -
  have hok: "heap_ok (heap st) st" using ok by (simp add: gc_ok_def)
  have t: "traceable (buildChunks st)" by (rule built_traceable[OF ok q])
  have ws: "rootWords sp (buildChunks st) \<noteq> None" using q by (simp add: rootWords_def queues_end_def)
  have clear: "marks (buildChunks st) = {}"
    using ok by (simp add: gc_ok_def marks_def isMarked_def)
  from t ws clear show thesis
  proof (cases rule: mark_roots_live[where sp = sp])
    case (1 e p)
    then have "interior st p" using found_stray[OF ok live_found] by blast
    then show thesis using 1 that(1) by (simp add: reachable_def)
  next
    case (2 stm)
    have no: "\<not> interior st p" if "reachable sp st p" for p
      using 2(4) that found_stray[OF ok live_found] by (auto simp: reachable_def)
    have marked: "isMarked stm h \<longleftrightarrow> reachable sp st (userOf h)" if h: "h \<in> dom (hdrs st)" for h
    proof -
      have u: "userOf h \<noteq> 0" using userOf_nonzero[of st h] hok h by (simp add: heap_ok_def)
      then have "isMarked stm h \<longleftrightarrow> userOf h \<in> marks stm" by (simp add: marks_def get_header_userOf)
      then show ?thesis using 2(3) by (simp add: reachable_def)
    qed
    have "\<not> isMarked stm h" if h: "h \<in> set (pooled st)" for h
    proof
      have d: "h \<in> dom (hdrs st)" "h \<notin> set (heap st)" using hok h by (auto simp: heap_ok_def)
      assume "isMarked stm h"
      then have r: "reachable sp st (userOf h)" using marked d by simp
      then have f: "found (buildChunks st) (userOf h)" using live_found by (simp add: reachable_def)
      obtain g where g: "g \<in> set (heap st)" "inside st (userOf h) g" by (rule found_inside[OF ok f])
      have "userOf h \<noteq> 0" using userOf_nonzero[of st h] hok d(1) by (simp add: heap_ok_def)
      then have "get_header (userOf h) = h" by (rule get_header_userOf)
      then have "userOf h = userOf g" using inside_header[OF hok g] d by simp
      then show False using d g by (simp add: userOf_inj)
    qed
    then have "heap_ok (heap st) stm"
      using heap_ok_transport[OF hok, of stm] onlyMarks_more[OF 2(2)] 2(2) by (simp add: onlyMarks_def)
    moreover have "\<forall>h \<in> set (heap st). isMarked stm h \<longleftrightarrow> reachable sp st (userOf h)"
      using marked hok by (auto simp: heap_ok_def)
    ultimately show thesis using that(2) 2(1,2) no by blast
  qed
qed

lemma arrays_transport:
  assumes "arrays_apart st" "onlyMarks (buildChunks st) stm"
  shows "apart_from_arrays (heap stm) stm"
  unfolding apart_from_arrays_def
proof (intro ballI allI impI)
  fix h hd assume h: "h \<in> set (heap stm)" "hdrs stm h = Some hd" "ownsArray (tagOf (type_tag hd))"
  note same = onlyMarks_fields[OF assms(2)] onlyMarks_dom[OF assms(2)]
  have "map_option unmark (hdrs stm h) = map_option unmark (hdrs st h)" using assms(2) by (simp add: onlyMarks_def)
  then obtain hd0 where hd0: "hdrs st h = Some hd0" "unmark hd = unmark hd0"
    using h(2) by (cases "hdrs st h") auto
  then have "type_tag hd = type_tag hd0" by (auto simp: unmark_def dest: arg_cong[where f = type_tag])
  then show "hdrs stm (load64 (mem stm) (userOf h)) = None"
    using assms(1) h hd0(1) same by (simp add: arrays_apart_def)
qed


definition survives :: "Gc \<Rightarrow> Gc \<Rightarrow> addr \<Rightarrow> bool" where
  "survives st st' h \<longleftrightarrow> hdrs st' h = hdrs st h \<and> blocks st' h = blocks st h
     \<and> (\<forall>a. inBlock st h a \<longrightarrow> mem st' a = mem st a)"

lemma unmark_same:
  assumes "\<not> isMarked st a" "\<not> isMarked st' a" "map_option unmark (hdrs st' a) = map_option unmark (hdrs st a)"
  shows "hdrs st' a = hdrs st a"
proof -
  have id: "unmark h = h" if "\<not> marked h" for h using that by (simp add: unmark_def)
  show ?thesis
    using assms id by (cases "hdrs st a"; cases "hdrs st' a") (auto simp: isMarked_def)
qed

lemma collect_run:
  assumes ok: "gc_ok st" and q: "queues_end st" and arrays: "arrays_apart st"
  obtains p where "collect sp st = Some (Inl (StrayHeader p))" "reachable sp st p" "interior st p"
  | st' where "collect sp st = Some (Inr st')" "gc_ok st'" "\<forall>p. reachable sp st p \<longrightarrow> \<not> interior st p"
      "heap st' = filter (\<lambda>h. reachable sp st (userOf h)) (heap st)" "\<forall>h \<in> set (heap st'). survives st st' h"
      "gc_threshold st' = max (heap_bytes st' * 2) MIN_THRESHOLD"
      "fits (heap st) st \<longrightarrow> fits (heap st') st'" "dom (hdrs st') \<subseteq> dom (hdrs st)"
      "global_roots st' = global_roots st" "stack_bottom st' = stack_bottom st" "ready_head st' = ready_head st"
proof (cases rule: mark_phase[OF ok q, where sp = sp])
  case (1 p)
  then have "collect sp st = Some (Inl (StrayHeader p))" by (simp add: collect_def bindR_def)
  then show thesis using that(1) 1 by blast
next
  case (2 stm)
  note more = onlyMarks_more[OF 2(2), simplified] and fields = onlyMarks_fields[OF 2(2), simplified]
  have hst: "heap_ok (heap stm) stm" using 2(4) fields by simp
  have table: "table_agrees stm" using ok fields by (simp add: gc_ok_def table_agrees_def)
  have kept: "filter (isMarked stm) (heap stm) = filter (\<lambda>h. reachable sp st (userOf h)) (heap st)"
    unfolding fields using 2(5) by (auto intro: filter_cong)
  from hst arrays_transport[OF arrays 2(2)] table show thesis
  proof (cases rule: sweep_ok)
    case (1 st1)
    let ?st = "adjust st1"
    have same: "heap ?st = heap st1" "hdrs ?st = hdrs st1" "blocks ?st = blocks st1" "mem ?st = mem st1"
      "heap_bytes ?st = heap_bytes st1" "fl_heads ?st = fl_heads st1" "ptr_map ?st = ptr_map st1"
      "chunk_table ?st = chunk_table st1" "heap_lo ?st = heap_lo st1" "heap_hi ?st = heap_hi st1"
      "global_roots ?st = global_roots st1" "stack_bottom ?st = stack_bottom st1" "ready_head ?st = ready_head st1"
      "gc_threshold ?st = max (heap_bytes st1 * 2) MIN_THRESHOLD"
      by (simp_all add: adjust_def Let_def)
    have preds: "sizeOf ?st = sizeOf st1" "isMarked ?st = isMarked st1" "blockSize ?st = blockSize st1" "pooled ?st = pooled st1"
      by (simp_all add: sizeOf_def[abs_def] isMarked_def[abs_def] blockSize_def[abs_def] pooled_def same)
    have run: "collect sp st = Some (Inr ?st)"
      using 2(1) 1(1) by (simp add: collect_def bindR_def okR_def)
    have "heap_ok (heap st1) ?st"
      using 1(2,3) by (simp add: heap_ok_def sized_def placed_def apart_def pool_ok_def same preds)
    then have gc: "gc_ok ?st"
      using 1(2,4,5,6,7) by (simp add: gc_ok_def table_agrees_def bounded_def marks_def same preds)
    have surv: "\<forall>h \<in> set (heap ?st). survives st ?st h"
    proof
      fix h assume "h \<in> set (heap ?st)"
      then have h: "h \<in> set (heap st1)" using same by simp
      have h': "h \<in> set (filter (isMarked stm) (heap stm))" using h 1(2) by simp
      have "map_option unmark (hdrs stm h) = map_option unmark (hdrs st h)" using 2(2) by (simp add: onlyMarks_def)
      then have "map_option unmark (hdrs ?st h) = map_option unmark (hdrs st h)" using 1(8) h' same by simp
      moreover have "\<not> isMarked st h" "\<not> isMarked ?st h"
      proof -
        have h: "h \<in> dom (hdrs st)" "h \<in> dom (hdrs ?st)" "h \<in> set (heap st)"
          using ok h h' gc fields same by (auto simp: gc_ok_def heap_ok_def)
        then have "userOf h \<noteq> 0" using ok heap_okD(6)[of "heap st" st h] by (simp add: gc_ok_def)
        then show "\<not> isMarked st h" "\<not> isMarked ?st h"
          using ok gc by (auto simp: gc_ok_def marks_def get_header_userOf dest!: spec[of _ "userOf h"])
      qed
      ultimately have "hdrs ?st h = hdrs st h" using unmark_same by blast
      moreover have "blocks ?st h = blocks st h \<and> (\<forall>a. inBlock st h a \<longrightarrow> mem ?st a = mem st a)"
        using 1(8) h' same more(1) fields(1) by (simp add: inBlock_def blockSize_def)
      ultimately show "survives st ?st h" by (simp add: survives_def)
    qed
    have fit: "fits (heap st) st \<longrightarrow> fits (heap ?st) ?st"
    proof
      assume "fits (heap st) st"
      moreover have "sizeOf stm = sizeOf st"
      proof
        fix h
        have "map_option unmark (hdrs stm h) = map_option unmark (hdrs st h)" using 2(2) by (simp add: onlyMarks_def)
        then show "sizeOf stm h = sizeOf st h" by (rule sizeOf_unmark)
      qed
      moreover have "blockSize stm = blockSize st" by (simp add: blockSize_def[abs_def] more)
      ultimately have "fits (heap stm) stm" by (simp add: fits_def more fields)
      then have "fits (heap st1) st1" using 1(2,13) by simp
      then show "fits (heap ?st) ?st" by (simp add: fits_def same preds)
    qed
    have sub: "dom (hdrs ?st) \<subseteq> dom (hdrs st)"
    proof -
      have "dom (hdrs stm) = dom (hdrs st)" using onlyMarks_dom[OF 2(2)] by (simp add: dom_def)
      then show ?thesis using 1(14) same by simp
    qed
    have hp: "heap ?st = filter (\<lambda>h. reachable sp st (userOf h)) (heap st)" using same(1) 1(2) kept by simp
    show thesis
      by (rule that(2)[OF run gc 2(3) hp surv _ fit sub]) (simp_all add: same 1(9,10,11) fields)
  qed
qed

text \<open>
  C22. A collection started in a state that satisfies the invariant, with terminated task queues and no list
  storage that is itself an object, always ends, and in one of two ways. Either some interior pointer is
  reachable from the roots, and the collector has read the bytes before it as a header; or none is, and in the
  new state, which satisfies the invariant again, the heap holds exactly the reachable objects in their old
  order, each with its header, its block and all bytes of its block unchanged, and the threshold is twice the
  remaining bytes but at least one megabyte.
\<close>

theorem collect_safe:
  assumes "gc_ok st" "queues_end st" "arrays_apart st"
  shows "\<exists>r. collect sp st = Some r \<and> (case r of
      Inl e \<Rightarrow> (\<exists>p. e = StrayHeader p \<and> reachable sp st p \<and> interior st p)
    | Inr st' \<Rightarrow> gc_ok st' \<and> (\<forall>p. reachable sp st p \<longrightarrow> \<not> interior st p)
        \<and> heap st' = filter (\<lambda>h. reachable sp st (userOf h)) (heap st)
        \<and> (\<forall>h \<in> set (heap st'). survives st st' h)
        \<and> gc_threshold st' = max (heap_bytes st' * 2) MIN_THRESHOLD)"
  by (cases rule: collect_run[OF assms, where sp = sp]) auto


section \<open>Two strings, one of them named by a global\<close>

definition stringHeader :: GCHeader where
  "stringHeader = \<lparr>type_tag = 1, marked = False, hsize = 32, field_count = 0\<rparr>"

definition twoMemory :: memory where
  "twoMemory = store 0x100 (bytesOf 8 0x1018) (\<lambda>_. 0)"

definition twoStrings :: "PtrMap \<Rightarrow> Gc" where
  "twoStrings m = \<lparr>heap = [0x2000, 0x1000], hdrs = [0x1000 \<mapsto> stringHeader, 0x2000 \<mapsto> stringHeader],
     mem = twoMemory, blocks = [0x1000 \<mapsto> 32, 0x2000 \<mapsto> 32],
     heap_bytes = 64, gc_threshold = MIN_THRESHOLD, stack_bottom = 0, global_roots = [0x100],
     gc_stats = noStats, heap_lo = 0x1000, heap_hi = 0x2020, fl_heads = [[], [], [], []], ptr_map = m,
     chunk_table = noChunkTable, ready_head = 0\<rparr>"

definition twoTable :: "PtrMap \<Rightarrow> bool" where
  "twoTable m \<longleftrightarrow> ptr_inv m \<and> ptr_view m = map_of [(0x2018, 0x2000), (0x1018, 0x1000)]"

lemma twoTable_exists: "\<exists>m. twoTable m"
proof -
  obtain m1 where m1: "ptr_inv m1" "ptr_view m1 = [0x1018 \<mapsto> 0x1000]"
    using insert_correct[OF ptr_inv_none, where k = "0x1018" and v = "0x1000"] ptr_view_none by auto
  then obtain m2 where "ptr_inv m2" "ptr_view m2 = [0x1018 \<mapsto> 0x1000, 0x2018 \<mapsto> 0x2000]"
    using insert_correct[OF m1(1), where k = "0x2018" and v = "0x2000"] by auto
  then show ?thesis by (auto simp: twoTable_def)
qed

lemma twoStrings_fields:
  "heap (twoStrings m) = [0x2000, 0x1000]" "hdrs (twoStrings m) = [0x1000 \<mapsto> stringHeader, 0x2000 \<mapsto> stringHeader]"
  "mem (twoStrings m) = twoMemory" "heap_bytes (twoStrings m) = 64" "stack_bottom (twoStrings m) = 0"
  "global_roots (twoStrings m) = [0x100]" "heap_lo (twoStrings m) = 0x1000" "heap_hi (twoStrings m) = 0x2020"
  "fl_heads (twoStrings m) = [[], [], [], []]" "ptr_map (twoStrings m) = m" "ready_head (twoStrings m) = 0"
  "buckets (chunk_table (twoStrings m)) = []"
  "blockSize (twoStrings m) 0x1000 = 32" "blockSize (twoStrings m) 0x2000 = 32"
  "sizeOf (twoStrings m) 0x1000 = 32" "sizeOf (twoStrings m) 0x2000 = 32"
  by (simp_all add: twoStrings_def noChunkTable_def blockSize_def sizeOf_def stringHeader_def)

lemma twoStrings_ok:
  assumes m: "twoTable m"
  shows "gc_ok (twoStrings m)"
proof -
  let ?st = "twoStrings m"
  note f = twoStrings_fields[of m]
  have d: "dom (hdrs ?st) = {0x1000, 0x2000}" unfolding f by auto
  have p: "placed ?st" unfolding placed_def d by (auto simp: f apart_def HEADER_def)
  have z: "\<forall>h \<in> set (heap ?st). sized ?st h"
    unfolding f by (auto simp: sized_def f HEADER_def stringHeader_def tagOf_def ownsArray_def)
  have l: "pooled ?st = []" "pool_ok ?st" by (simp_all add: f pooled_def pool_ok_def fl_class_sizes_def)
  have "heap_ok (heap ?st) ?st" unfolding heap_ok_def d l using p z l by (auto simp: f)
  moreover have "table_agrees ?st" using m by (simp add: table_agrees_def twoTable_def f userOf_def HEADER_def)
  moreover have "bounded ?st" by (simp add: bounded_def f)
  moreover have "marks ?st = {}" by (auto simp: marks_def isMarked_def f stringHeader_def)
  ultimately show ?thesis by (simp add: gc_ok_def f)
qed

lemma twoMemory_root: "load64 twoMemory 0x100 = 0x1018"
  by code_simp

lemma twoStrings_ends: "queues_end (twoStrings m)" and twoStrings_arrays: "arrays_apart (twoStrings m)"
proof -
  have "tasks m 0 = Some []" for m by (subst tasks.simps) simp
  then show "queues_end (twoStrings m)"
    by (simp add: queues_end_def twoStrings_fields candidates_def stringHeader_def tagOf_def)
  show "arrays_apart (twoStrings m)"
    by (simp add: arrays_apart_def twoStrings_fields stringHeader_def tagOf_def ownsArray_def)
qed

lemma twoStrings_reachable:
  assumes m: "twoTable m"
  shows "reachable sp (twoStrings m) q \<longleftrightarrow> q = 0x1018"
proof -
  let ?st = "buildChunks (twoStrings m)"
  note ok = twoStrings_ok[OF m]
  have t: "tasks m 0 = Some []" for m by (subst tasks.simps) simp
  have ws: "rootWords sp ?st = Some [0x1018]"
    by (simp add: rootWords_def twoStrings_fields t twoMemory_root del: load.simps)
  have "found ?st 0x1018"
    by (simp add: found_owner[OF ok] owner_def twoStrings_fields inside_def userOf_def HEADER_def)
  then have hits: "hits ?st [0x1018] = {0x1018}" by (auto simp: hits_def)
  have "traced ?st 0x1018 = []"
    by (simp add: traced_def twoStrings_fields get_header_def HEADER_def candidates_def stringHeader_def tagOf_def)
  then have "\<not> edge ?st 0x1018 c" for c by (simp add: edge_def)
  then have "reach ?st 0x1018 q \<longleftrightarrow> q = 0x1018" by (metis converse_rtranclpE rtranclp.rtrancl_refl)
  then show ?thesis by (simp add: reachable_def live_def ws hits)
qed

lemma twoStrings_interior: "\<not> interior (twoStrings m) 0x1018"
  by (simp add: interior_def twoStrings_fields inside_def userOf_def HEADER_def)

theorem find_header_owner_witness:
  "\<exists>m. gc_ok (twoStrings m) \<and> find_gc_header 0x201F (buildChunks (twoStrings m)) = Some 0x2000"
proof -
  obtain m where m: "twoTable m" using twoTable_exists by blast
  have "owner (twoStrings m) 0x201F = 0x2000"
    by (simp add: owner_def twoStrings_fields inside_def userOf_def HEADER_def)
  then show ?thesis using find_header_owner[OF twoStrings_ok[OF m], where p = "0x201F"] twoStrings_ok[OF m] by auto
qed

theorem collect_safe_witness:
  "\<exists>m st'. gc_ok (twoStrings m) \<and> collect 0 (twoStrings m) = Some (Inr st') \<and> heap st' = [0x1000]
     \<and> survives (twoStrings m) st' 0x1000"
proof -
  obtain m where m: "twoTable m" using twoTable_exists by blast
  note ok = twoStrings_ok[OF m]
  obtain r where r: "collect 0 (twoStrings m) = Some r" "case r of
      Inl e \<Rightarrow> (\<exists>p. e = StrayHeader p \<and> reachable 0 (twoStrings m) p \<and> interior (twoStrings m) p)
    | Inr st' \<Rightarrow> gc_ok st' \<and> (\<forall>p. reachable 0 (twoStrings m) p \<longrightarrow> \<not> interior (twoStrings m) p)
        \<and> heap st' = filter (\<lambda>h. reachable 0 (twoStrings m) (userOf h)) (heap (twoStrings m))
        \<and> (\<forall>h \<in> set (heap st'). survives (twoStrings m) st' h)
        \<and> gc_threshold st' = max (heap_bytes st' * 2) MIN_THRESHOLD"
    using collect_safe[OF ok twoStrings_ends twoStrings_arrays, where sp = 0] by blast
  obtain st' where st': "r = Inr st'" using r(2) twoStrings_interior by (cases r) (auto simp: twoStrings_reachable[OF m])
  have "heap st' = [0x1000]"
    using r(2) by (simp add: st' twoStrings_reachable[OF m] twoStrings_fields userOf_def HEADER_def)
  then show ?thesis using ok r st' by (intro exI[of _ m] exI[of _ st']) simp
qed

end
