(* ===== verification/Gc_Alloc.thy ===== *)
theory Gc_Alloc
  imports Gc_Safe
begin

text \<open>
  Allocation (\<^verbatim>\<open>__visuall_alloc\<close> and \<^verbatim>\<open>__visuall_alloc_object\<close> of \<^verbatim>\<open>stdlib/gc.c\<close>): the object returned is new,
  its payload is zero and lies inside its block, and nothing else changes, as long as the cached blocks are as
  large as their size class. Objects of classes break that condition, and a block that was one overflows when it
  is used again.
\<close>

section \<open>Room for an object\<close>

text \<open>A block that \<^verbatim>\<open>malloc\<close> may answer with: not null, not at the end of memory, apart from all blocks in use.\<close>

definition freshBlock :: "Gc \<Rightarrow> addr \<Rightarrow> nat \<Rightarrow> bool" where
  "freshBlock st p n \<longleftrightarrow> p \<noteq> 0 \<and> unat p + n < 2 ^ 64
     \<and> (\<forall>h \<in> dom (hdrs st). unat p + n \<le> unat h \<or> unat h + blockSize st h \<le> unat p)"

definition vacant :: "addr list \<Rightarrow> addr \<Rightarrow> nat \<Rightarrow> Gc \<Rightarrow> bool" where
  "vacant L hdr n st \<longleftrightarrow> distinct (hdr # L @ pooled st) \<and> insert hdr (dom (hdrs st)) = set (hdr # L @ pooled st)
     \<and> pool_ok st \<and> (\<forall>h \<in> set L. sized st h) \<and> (\<forall>h \<in> set (pooled st). \<not> isMarked st h)
     \<and> heap_bytes st = sum_list (map (sizeOf st) L) \<and> n \<le> blockSize st hdr
     \<and> (\<forall>h \<in> set (hdr # L @ pooled st). h \<noteq> 0 \<and> HEADER \<le> blockSize st h \<and> unat h + blockSize st h < 2 ^ 64
          \<and> (\<forall>g \<in> set (hdr # L @ pooled st). g \<noteq> h \<longrightarrow> apart st g h))"

lemma vacant_pool:
  assumes ok: "heap_ok L st" and c: "c < length (fl_heads st)" and l: "fl_heads st ! c = hdr # l"
    and n: "n \<le> blockSize st hdr"
  shows "vacant L hdr n (st\<lparr>fl_heads := (fl_heads st)[c := l]\<rparr>)"
proof -
  let ?st = "st\<lparr>fl_heads := (fl_heads st)[c := l]\<rparr>"
  have "((fl_heads st)[c := l])[c := hdr # ((fl_heads st)[c := l]) ! c] = fl_heads st"
    using c l by (simp add: list_update_overwrite list_update_same_conv)
  then have m: "mset (pooled st) = add_mset hdr (mset (pooled ?st))"
    using mset_concat_update[of c "(fl_heads st)[c := l]" hdr] c by (simp add: pooled_def)
  then have s: "set (pooled st) = insert hdr (set (pooled ?st))"
    by (metis set_mset_add_mset_insert set_mset_mset)
  have "mset (hdr # L @ pooled ?st) = mset (L @ pooled st)" using m by simp
  then have d: "distinct (hdr # L @ pooled ?st)" using ok mset_eq_imp_distinct_iff unfolding heap_ok_def by blast
  have dom: "dom (hdrs st) = set (hdr # L @ pooled ?st)" using ok s by (auto simp: heap_ok_def)
  have pool: "length (fl_heads st) = length fl_class_sizes" "\<forall>l \<in> set (fl_heads st). length l \<le> FL_MAX_PER_CLASS"
    using ok by (simp_all add: heap_ok_def pool_ok_def)
  have "hdr # l \<in> set (fl_heads st)" using nth_mem[OF c] l by simp
  then have "length l \<le> FL_MAX_PER_CLASS" using pool(2) by force
  then have "pool_ok ?st" using pool by (auto simp: pool_ok_def dest!: set_update_subset_insert[THEN subsetD])
  moreover have "blockSize ?st = blockSize st" "sizeOf ?st = sizeOf st" "isMarked ?st = isMarked st"
    by (simp_all add: blockSize_def[abs_def] sizeOf_def[abs_def] isMarked_def[abs_def])
  moreover have "sized ?st = sized st" "apart ?st = apart st"
    by (simp_all add: sized_def[abs_def] apart_def[abs_def] sizeOf_def blockSize_def)
  ultimately show ?thesis
    using ok d dom n s by (simp add: vacant_def heap_ok_def placed_def)
qed

lemma vacant_fresh:
  assumes ok: "heap_ok L st" and p: "freshBlock st hdr n" and n: "HEADER \<le> n"
  shows "vacant L hdr n (gotBlock hdr n st)"
proof -
  let ?st = "gotBlock hdr n st"
  have dom: "dom (hdrs st) = set (L @ pooled st)" and placed: "placed st" using ok by (simp_all add: heap_ok_def)
  have new: "hdr \<notin> dom (hdrs st)"
  proof
    assume d: "hdr \<in> dom (hdrs st)"
    then have "unat hdr + n \<le> unat hdr \<or> unat hdr + blockSize st hdr \<le> unat hdr"
      using p unfolding freshBlock_def by blast
    then show False using n placedD(2)[OF placed d] by (auto simp: HEADER_def)
  qed
  have b: "blockSize ?st h = (if h = hdr then n else blockSize st h)" for h by (simp add: gotBlock_def blockSize_def)
  have same: "pooled ?st = pooled st" "sizeOf ?st = sizeOf st" "isMarked ?st = isMarked st" "pool_ok ?st = pool_ok st"
    "heap_bytes ?st = heap_bytes st" "hdrs ?st = hdrs st"
    by (simp_all add: gotBlock_def pooled_def sizeOf_def[abs_def] isMarked_def[abs_def] pool_ok_def)
  have sized: "\<forall>h \<in> set L. sized ?st h"
    using ok new dom by (auto simp: heap_ok_def sized_def b same)
  have "\<forall>h \<in> set (hdr # L @ pooled st). h \<noteq> 0 \<and> HEADER \<le> blockSize ?st h \<and> unat h + blockSize ?st h < 2 ^ 64
          \<and> (\<forall>g \<in> set (hdr # L @ pooled st). g \<noteq> h \<longrightarrow> apart ?st g h)"
  proof
    fix h assume "h \<in> set (hdr # L @ pooled st)"
    then consider "h = hdr" | "h \<in> dom (hdrs st)" "h \<noteq> hdr" using new dom by auto
    then show "h \<noteq> 0 \<and> HEADER \<le> blockSize ?st h \<and> unat h + blockSize ?st h < 2 ^ 64
          \<and> (\<forall>g \<in> set (hdr # L @ pooled st). g \<noteq> h \<longrightarrow> apart ?st g h)"
    proof cases
      case 1
      then show ?thesis using p n dom by (auto simp: freshBlock_def apart_def b)
    next
      case 2
      have "apart ?st g h" if "g \<in> set (hdr # L @ pooled st)" "g \<noteq> h" for g
        using that p placed 2 dom unfolding apart_def b freshBlock_def placed_def by auto
      then show ?thesis using 2 placedD[OF placed 2(1)] by (simp add: b)
    qed
  qed
  then show ?thesis using ok new dom sized by (simp add: vacant_def heap_ok_def same b)
qed


section \<open>Putting the object in place\<close>

lemma heap_ok_cong:
  assumes "hdrs st' = hdrs st" "blocks st' = blocks st" "fl_heads st' = fl_heads st" "heap_bytes st' = heap_bytes st"
  shows "heap_ok L st' = heap_ok L st"
proof -
  have "sizeOf st' = sizeOf st" "blockSize st' = blockSize st" "isMarked st' = isMarked st" "pooled st' = pooled st"
    by (simp_all add: sizeOf_def[abs_def] blockSize_def[abs_def] isMarked_def[abs_def] pooled_def assms)
  then show ?thesis by (simp add: heap_ok_def placed_def apart_def sized_def pool_ok_def assms)
qed

lemma word_size: "n \<le> UINT32_MAX \<Longrightarrow> unat (of_nat n :: 32 word) = n"
  by (simp add: UINT32_MAX_def unat_of_nat take_bit_nat_eq_self)

definition header :: "8 word \<Rightarrow> nat \<Rightarrow> 32 word \<Rightarrow> GCHeader" where
  "header tag tot fc = \<lparr>type_tag = tag, marked = False, hsize = of_nat tot, field_count = fc\<rparr>"

lemma link_ok:
  fixes tag :: "8 word" and fc :: "32 word"
  assumes v: "vacant L hdr tot st" and tot: "HEADER \<le> tot" "tot \<le> UINT32_MAX"
    and owns: "ownsArray (tagOf tag) \<longrightarrow> HEADER + 8 \<le> tot"
  defines "st' \<equiv> link hdr (header tag tot fc) tot st"
  shows "heap_ok (hdr # L) st'" and "sizeOf st' hdr = tot"
proof -
  have h: "hdrs st' = (hdrs st)(hdr \<mapsto> header tag tot fc)"
    by (simp add: st'_def link_def Let_def)
  have same: "pooled st' = pooled st" "blockSize st' = blockSize st" "apart st' = apart st" "pool_ok st' = pool_ok st"
    "heap_bytes st' = heap_bytes st + tot"
    by (simp_all add: st'_def link_def Let_def pooled_def pool_ok_def blockSize_def[abs_def] apart_def[abs_def])
  show size: "sizeOf st' hdr = tot" by (simp add: sizeOf_def h header_def word_size[OF tot(2)])
  have new: "hdr \<notin> set (L @ pooled st)" using v by (simp add: vacant_def)
  have dom: "dom (hdrs st') = set (hdr # L @ pooled st)" using v by (simp add: vacant_def h)
  have other: "sizeOf st' g = sizeOf st g" "isMarked st' g = isMarked st g" "sized st' g = sized st g" if "g \<noteq> hdr" for g
    using that by (simp_all add: sizeOf_def isMarked_def sized_def h same)
  have "sized st' hdr" using v tot(1) owns by (simp add: sized_def size same vacant_def) (simp add: h header_def)
  moreover have "sized st' g" if "g \<in> set L" for g
  proof -
    have "g \<noteq> hdr" "sized st g" using that v new by (auto simp: vacant_def)
    then show ?thesis using other(3) by simp
  qed
  moreover have "\<not> isMarked st' g" if "g \<in> set (pooled st)" for g
  proof -
    have "g \<noteq> hdr" "\<not> isMarked st g" using that v new by (auto simp: vacant_def)
    then show ?thesis using other(2) by simp
  qed
  moreover have "heap_bytes st' = sum_list (map (sizeOf st') (hdr # L))"
  proof -
    have "map (sizeOf st') L = map (sizeOf st) L"
    proof (rule map_cong)
      fix g assume "g \<in> set L"
      then have "g \<noteq> hdr" using new by auto
      then show "sizeOf st' g = sizeOf st g" by (rule other(1))
    qed simp
    then have "sum_list (map (sizeOf st') (hdr # L)) = tot + sum_list (map (sizeOf st) L)"
      by (simp only: list.map sum_list.Cons size)
    then show ?thesis using v by (simp add: same vacant_def)
  qed
  moreover have "placed st'" using v unfolding placed_def dom same by (simp add: vacant_def)
  moreover have "distinct (hdr # L @ pooled st)" "pool_ok st" using v by (simp_all add: vacant_def)
  ultimately show "heap_ok (hdr # L) st'" using dom unfolding heap_ok_def same by simp
qed

lemma register_ok:
  assumes ok: "heap_ok (hdr # L) st" and heap: "heap st = hdr # L" and inv: "ptr_inv (ptr_map st)"
    and view: "ptr_view (ptr_map st) = map_of (map (\<lambda>h. (userOf h, h)) L)"
    and b: "\<forall>h \<in> set L. heap_lo st \<le> h \<and> unat h + sizeOf st h \<le> unat (heap_hi st)"
  obtains st' where "register hdr (sizeOf st hdr) st = Some st'" "table_agrees st'" "bounded st'" "heap_ok (heap st') st'"
    "st' = st\<lparr>ptr_map := ptr_map st', heap_lo := heap_lo st', heap_hi := heap_hi st'\<rparr>"
proof -
  let ?n = "sizeOf st hdr"
  have "hdr \<in> set (hdr # L)" by simp
  note D = heap_okD[OF ok this]
  obtain m where m: "ptr_map_insert (userOf hdr) hdr (ptr_map st) = Some m" "ptr_inv m"
    "ptr_view m = (ptr_view (ptr_map st))(userOf hdr \<mapsto> hdr)"
    by (rule insert_correct[OF inv D(6)])
  have top: "unat (hdr + of_nat ?n) = unat hdr + ?n"
    by (rule unat_plus64) (use D(4,5) in linarith)
  define lo where "lo = (if hdr < heap_lo st then hdr else heap_lo st)"
  define hi where "hi = (if hdr + of_nat ?n > heap_hi st then hdr + of_nat ?n else heap_hi st)"
  let ?st = "st\<lparr>ptr_map := m, heap_lo := lo, heap_hi := hi\<rparr>"
  have run: "register hdr ?n st = Some ?st" by (simp add: register_def m(1) Let_def lo_def hi_def)
  have same: "sizeOf ?st = sizeOf st" by (simp add: sizeOf_def[abs_def])
  have lo: "lo \<le> hdr" "lo \<le> heap_lo st" by (auto simp: lo_def)
  have hi: "unat hdr + ?n \<le> unat hi" "unat (heap_hi st) \<le> unat hi"
    using top by (auto simp: hi_def word_less_nat_alt)
  have "bounded ?st"
    unfolding bounded_def same
  proof
    fix h assume "h \<in> set (heap ?st)"
    then have "h = hdr \<or> h \<in> set L" using heap by simp
    then show "heap_lo ?st \<le> h \<and> unat h + sizeOf st h \<le> unat (heap_hi ?st)"
      using b lo hi by (auto intro: order_trans)
  qed
  moreover have "table_agrees ?st" using m(2,3) view heap by (simp add: table_agrees_def)
  moreover have "heap_ok (heap ?st) ?st"
    using ok heap_ok_cong[of ?st st "hdr # L"] by (simp add: heap)
  ultimately show thesis using that[OF run] by simp
qed

text \<open>Both kinds of allocation end with these steps, once a block has been found and its bytes written.\<close>

lemma place_object:
  assumes gc: "gc_ok st1" and v: "vacant (heap st1) hdr tot st2" and tot: "HEADER \<le> tot" "tot \<le> UINT32_MAX"
    and owns: "ownsArray (tagOf tag) \<longrightarrow> HEADER + 8 \<le> tot"
    and st2: "st2 = st1\<lparr>fl_heads := F, blocks := B\<rparr>" and B: "\<forall>h \<in> set (heap st1). B h = blocks st1 h"
    and m: "\<forall>a. \<not> inBlock st2 hdr a \<longrightarrow> m a = mem st1 a"
  obtains st' where "register hdr tot ((link hdr (header tag tot fc) tot st2)\<lparr>mem := m\<rparr>) = Some st'" "gc_ok st'"
    "heap st' = hdr # heap st1" "mem st' = m" "sizeOf st' hdr = tot" "blocks st' = B" "fl_heads st' = F"
    "hdr \<notin> set (heap st1)" "\<forall>h \<in> set (heap st1). survives st1 st' h"
proof -
  let ?l = "(link hdr (header tag tot fc) tot st2)\<lparr>mem := m\<rparr>"
  have hok: "heap_ok (hdr # heap st1) ?l" "sizeOf ?l hdr = tot"
    using link_ok[OF v tot owns, of fc] heap_ok_cong[of ?l "link hdr (header tag tot fc) tot st2"] by (simp_all add: sizeOf_def)
  have new: "hdr \<notin> set (heap st1)" using v by (simp add: vacant_def)
  have l: "heap ?l = hdr # heap st1" "ptr_map ?l = ptr_map st1" "heap_lo ?l = heap_lo st1" "heap_hi ?l = heap_hi st1"
    "hdrs ?l = (hdrs st1)(hdr \<mapsto> header tag tot fc)" "mem ?l = m" "blocks ?l = B" "fl_heads ?l = F"
    "chunk_table ?l = chunk_table st1"
    by (simp_all add: link_def Let_def st2)
  have size: "\<forall>h \<in> set (heap st1). sizeOf ?l h = sizeOf st1 h" using new l(5) by (auto simp: sizeOf_def)
  have gc': "ptr_inv (ptr_map ?l)" "ptr_view (ptr_map ?l) = map_of (map (\<lambda>h. (userOf h, h)) (heap st1))"
    "\<forall>h \<in> set (heap st1). heap_lo ?l \<le> h \<and> unat h + sizeOf ?l h \<le> unat (heap_hi ?l)"
    using gc size by (auto simp: gc_ok_def table_agrees_def bounded_def l)
  obtain st' where st': "register hdr (sizeOf ?l hdr) ?l = Some st'" "table_agrees st'" "bounded st'"
    "heap_ok (heap st') st'" "st' = ?l\<lparr>ptr_map := ptr_map st', heap_lo := heap_lo st', heap_hi := heap_hi st'\<rparr>"
    by (rule register_ok[OF hok(1) l(1) gc'])
  obtain pm lo hi where upd: "st' = ?l\<lparr>ptr_map := pm, heap_lo := lo, heap_hi := hi\<rparr>" using st'(5) by blast
  have f: "heap st' = hdr # heap st1" "hdrs st' = (hdrs st1)(hdr \<mapsto> header tag tot fc)" "mem st' = m" "blocks st' = B"
    "fl_heads st' = F" "chunk_table st' = chunk_table st1"
    using l by (simp_all add: upd)
  have "marks st' = {}" using gc by (auto simp: gc_ok_def marks_def isMarked_def f header_def)
  then have "gc_ok st'" using st'(2,3,4) gc by (simp add: gc_ok_def f)
  moreover have "survives st1 st' h" if h: "h \<in> set (heap st1)" for h
  proof -
    have "h \<noteq> hdr" using h new by auto
    moreover have "mem st' a = mem st1 a" if a: "inBlock st1 h a" for a
    proof -
      have "inBlock st2 h a" using a h B by (simp add: inBlock_def blockSize_def st2)
      moreover have "apart st2 hdr h" using v h \<open>h \<noteq> hdr\<close> by (auto simp: vacant_def)
      ultimately have "\<not> inBlock st2 hdr a" by (auto simp: inBlock_def apart_def)
      then show ?thesis using m f(3) by simp
    qed
    ultimately show ?thesis using h B by (simp add: survives_def f)
  qed
  moreover have "sizeOf st' hdr = tot" using word_size[OF tot(2)] by (simp add: sizeOf_def f header_def)
  moreover have "register hdr tot ?l = Some st'" using st'(1) hok(2) by simp
  ultimately show thesis using that f new by blast
qed


section \<open>Allocating\<close>

definition roundedSize :: "nat \<Rightarrow> nat" where
  "roundedSize n = (case fl_class_for n of None \<Rightarrow> n | Some c \<Rightarrow> fl_class_sizes ! c)"

lemma class_bounds:
  assumes "fl_class_for n = Some c"
  shows "c < length fl_class_sizes" "n \<le> fl_class_sizes ! c" "fl_class_sizes ! c \<le> 256"
    "fl_class_for (fl_class_sizes ! c) = Some c"
  using assms by (auto simp: fl_class_for_def fl_class_sizes_def split: if_splits)

lemma roundedSize_bounds: "n \<le> roundedSize n" and roundedSize_max: "n \<le> UINT32_MAX \<Longrightarrow> roundedSize n \<le> UINT32_MAX"
  using class_bounds(2,3)[of n] by (auto simp: roundedSize_def UINT32_MAX_def split: option.split intro: le_trans)

text \<open>
  The block an allocation gets: the first cached block of its size class if there is one, and otherwise the answer
  of \<^verbatim>\<open>malloc\<close>.
\<close>

definition blockFor :: "addr \<Rightarrow> nat \<Rightarrow> Gc \<Rightarrow> addr" where
  "blockFor r n st = (case fl_class_for n of None \<Rightarrow> r
     | Some c \<Rightarrow> (case fl_heads st ! c of [] \<Rightarrow> r | hdr # l \<Rightarrow> hdr))"

lemma fits_pop:
  assumes fit: "fits L st" and c: "c < length (fl_heads st)" "fl_heads st ! c = hdr # l"
  shows "fits L (st\<lparr>fl_heads := (fl_heads st)[c := l]\<rparr>)"
  unfolding fits_def
proof (intro conjI allI impI ballI)
  let ?st = "st\<lparr>fl_heads := (fl_heads st)[c := l]\<rparr>"
  have b: "blockSize ?st h = blockSize st h" "sizeOf ?st h = sizeOf st h" for h by (simp_all add: blockSize_def sizeOf_def)
  show "fl_class_sizes ! k \<le> blockSize ?st h" if "h \<in> set L" "fl_class_for (sizeOf ?st h) = Some k" for h k
    using fit that unfolding fits_def b by blast
  show "fl_class_sizes ! k \<le> blockSize ?st h" if k: "k < length (fl_heads ?st)" "h \<in> set (fl_heads ?st ! k)" for h k
  proof -
    have "h \<in> set (fl_heads st ! k)" using k c by (cases "k = c") simp_all
    then show ?thesis using fit k(1) unfolding fits_def b by simp
  qed
qed

lemma blockFor_vacant:
  assumes gc: "gc_ok st" and fit: "fits (heap st) st" and n: "HEADER \<le> n"
    and fresh: "blockFor r n st = r \<longrightarrow> freshBlock st r (roundedSize n)"
  obtains hdr F B where "hdr \<noteq> 0" "hdr = blockFor r n st"
    "vacant (heap st) hdr (roundedSize n) (st\<lparr>fl_heads := F, blocks := B\<rparr>)"
    "\<forall>h \<in> set (heap st). B h = blocks st h"
    "(case fl_pop (fl_class_for n) st of (hdr, st) \<Rightarrow> if hdr \<noteq> 0 then okR (hdr, st) else obtainBlock sp r r2 (roundedSize n) st)
       = okR (hdr, st\<lparr>fl_heads := F, blocks := B\<rparr>)"
    "fits (heap st) (st\<lparr>fl_heads := F, blocks := B\<rparr>)" "blockFor r n st = r \<longrightarrow> B r = Some (roundedSize n)"
proof -
  let ?n = "roundedSize n"
  have ok: "heap_ok (heap st) st" and pool: "pool_ok st" using gc by (simp_all add: gc_ok_def heap_ok_def)
  have n': "HEADER \<le> ?n" using n roundedSize_bounds[of n] by simp
  show thesis
  proof (cases "blockFor r n st = r")
    case True
    then have fr: "freshBlock st r ?n" using fresh by simp
    have "vacant (heap st) r ?n (gotBlock r ?n st)" by (rule vacant_fresh[OF ok fr n'])
    then have v: "vacant (heap st) r ?n (st\<lparr>fl_heads := fl_heads st, blocks := (blocks st)(r \<mapsto> ?n)\<rparr>)"
      by (simp add: gotBlock_def)
    then have new: "r \<notin> set (heap st)" "r \<notin> set (pooled st)" by (simp_all add: vacant_def pooled_def)
    have keep: "fits (heap st) (st\<lparr>fl_heads := fl_heads st, blocks := (blocks st)(r \<mapsto> ?n)\<rparr>)"
    proof -
      have "\<forall>c < length (fl_heads st). r \<notin> set (fl_heads st ! c)" using new(2) nth_mem by (fastforce simp: pooled_def)
      then show ?thesis using fit new(1) by (auto simp: fits_def blockSize_def sizeOf_def)
    qed
    have "fl_pop (fl_class_for n) st = (0, st)"
    proof (cases "fl_class_for n")
      case (Some c)
      have "fl_heads st ! c = []"
      proof (rule ccontr)
        assume "fl_heads st ! c \<noteq> []"
        then obtain hdr l where l: "fl_heads st ! c = hdr # l" by (cases "fl_heads st ! c") auto
        then have "hdr = r" using True Some by (simp add: blockFor_def)
        moreover have "c < length (fl_heads st)" using class_bounds(1)[OF Some] pool by (simp add: pool_ok_def)
        ultimately show False using new(2) l nth_mem[of c "fl_heads st"] by (auto simp: pooled_def)
      qed
      then show ?thesis using Some by (simp add: fl_pop_def)
    qed (simp add: fl_pop_def)
    then have pop: "(case fl_pop (fl_class_for n) st of (hdr, st) \<Rightarrow> if hdr \<noteq> 0 then okR (hdr, st) else obtainBlock sp r r2 ?n st)
        = okR (r, st\<lparr>fl_heads := fl_heads st, blocks := (blocks st)(r \<mapsto> ?n)\<rparr>)"
      using fr by (simp add: obtainBlock_def freshBlock_def gotBlock_def)
    have nz: "r \<noteq> 0" using fr by (simp add: freshBlock_def)
    have kept: "\<forall>h \<in> set (heap st). ((blocks st)(r \<mapsto> ?n)) h = blocks st h" using new(1) by auto
    show thesis by (rule that[OF nz True[symmetric] v kept pop keep]) simp
  next
    case False
    then obtain c hdr l where c: "fl_class_for n = Some c" "fl_heads st ! c = hdr # l" "blockFor r n st = hdr"
      by (auto simp: blockFor_def split: option.splits list.splits)
    have len: "c < length (fl_heads st)" using class_bounds(1)[OF c(1)] pool by (simp add: pool_ok_def)
    have b: "?n \<le> blockSize st hdr" using fit len c by (auto simp: fits_def roundedSize_def)
    have v: "vacant (heap st) hdr ?n (st\<lparr>fl_heads := (fl_heads st)[c := l]\<rparr>)" by (rule vacant_pool[OF ok len c(2) b])
    then have v': "vacant (heap st) hdr ?n (st\<lparr>fl_heads := (fl_heads st)[c := l], blocks := blocks st\<rparr>)" by simp
    have nz: "hdr \<noteq> 0" using v by (simp add: vacant_def)
    have f: "fits (heap st) (st\<lparr>fl_heads := (fl_heads st)[c := l], blocks := blocks st\<rparr>)"
      using fits_pop[OF fit len c(2)] by simp
    show thesis
    proof (rule that[OF nz c(3)[symmetric] v' _ _ f])
      show "blockFor r n st = r \<longrightarrow> blocks st r = Some ?n" using False by simp
      show "(case fl_pop (fl_class_for n) st of (hdr, st) \<Rightarrow> if hdr \<noteq> 0 then okR (hdr, st) else obtainBlock sp r r2 ?n st)
        = okR (hdr, st\<lparr>fl_heads := (fl_heads st)[c := l], blocks := blocks st\<rparr>)"
        using nz by (simp add: fl_pop_def c(1,2))
    qed simp
  qed
qed


text \<open>Writing zeros over a payload changes nothing outside its block.\<close>

lemma memset0_inside:
  assumes "unat hdr + b < 2 ^ 64" "HEADER + n \<le> b" and a: "a - userOf hdr = of_nat k" "k < n"
  shows "unat hdr \<le> unat a \<and> unat a < unat hdr + b"
proof -
  have "a = hdr + of_nat (HEADER + k)" using a(1) by (simp add: userOf_def algebra_simps)
  moreover have "unat (hdr + of_nat (HEADER + k) :: addr) = unat hdr + (HEADER + k)"
    by (rule unat_plus64) (use assms in linarith)
  ultimately show ?thesis using assms by simp
qed

lemma memset0_other:
  assumes "unat hdr + blockSize st hdr < 2 ^ 64" "HEADER + n \<le> blockSize st hdr" "\<not> inBlock st hdr a"
  shows "memset0 (userOf hdr) n m a = m a"
proof (rule ccontr)
  assume "memset0 (userOf hdr) n m a \<noteq> m a"
  then have "unat (a - userOf hdr) < n" by (auto simp: memset0_def split: if_splits)
  moreover have "a - userOf hdr = of_nat (unat (a - userOf hdr))" by simp
  ultimately show False using memset0_inside[OF assms(1,2)] assms(3) unfolding inBlock_def by blast
qed

lemma memset0_zero:
  assumes "i < n" "n < 2 ^ 64"
  shows "memset0 p n m (p + of_nat i) = 0"
  using assms by (simp add: memset0_def unat_of_nat take_bit_nat_eq_self)

lemma vacant_blocks:
  assumes "vacant L hdr n st"
  shows "unat hdr + blockSize st hdr < 2 ^ 64" "n \<le> blockSize st hdr" "hdr \<noteq> 0"
    "HEADER + k \<le> n \<Longrightarrow> writeBytes hdr HEADER k f (link hdr h n st) = okR ((link hdr h n st)\<lparr>mem := f (mem st)\<rparr>)"
proof -
  show b: "unat hdr + blockSize st hdr < 2 ^ 64" "n \<le> blockSize st hdr" "hdr \<noteq> 0" using assms by (simp_all add: vacant_def)
  show "writeBytes hdr HEADER k f (link hdr h n st) = okR ((link hdr h n st)\<lparr>mem := f (mem st)\<rparr>)" if "HEADER + k \<le> n"
    using b(2) that by (auto simp: writeBytes_def link_def Let_def blockSize_def HEADER_def split: option.splits)
qed

lemma alloc_run:
  assumes gc: "gc_ok st1" and fit: "fits (heap st1) st1" and run: "collectIfOver sp sz st = okR st1"
    and sz: "HEADER + sz \<le> UINT32_MAX" "ownsArray (tagOf tag) \<longrightarrow> 8 \<le> sz"
    and fresh: "blockFor r (HEADER + sz) st1 = r \<longrightarrow> freshBlock st1 r (roundedSize (HEADER + sz))"
  obtains hdr st' where "alloc sp r r2 sz tag st = okR (userOf hdr, st')" "gc_ok st'" "fits (heap st') st'"
    "hdr = blockFor r (HEADER + sz) st1" "hdr \<notin> set (heap st1)" "heap st' = hdr # heap st1"
    "sizeOf st' hdr = roundedSize (HEADER + sz)" "HEADER + sz \<le> blockSize st' hdr"
    "\<forall>i < sz. mem st' (userOf hdr + of_nat i) = 0" "\<forall>h \<in> set (heap st1). survives st1 st' h"
    "blockFor r (HEADER + sz) st1 = r \<longrightarrow> blocks st' r = Some (roundedSize (HEADER + sz))"
proof -
  let ?n = "HEADER + sz"
  let ?tot = "roundedSize ?n"
  have "HEADER \<le> ?n" by simp
  then obtain hdr F B where B: "hdr \<noteq> 0" "hdr = blockFor r ?n st1" "vacant (heap st1) hdr ?tot (st1\<lparr>fl_heads := F, blocks := B\<rparr>)"
    "\<forall>h \<in> set (heap st1). B h = blocks st1 h"
    "(case fl_pop (fl_class_for ?n) st1 of (hdr, st) \<Rightarrow> if hdr \<noteq> 0 then okR (hdr, st) else obtainBlock sp r r2 ?tot st)
       = okR (hdr, st1\<lparr>fl_heads := F, blocks := B\<rparr>)"
    "fits (heap st1) (st1\<lparr>fl_heads := F, blocks := B\<rparr>)" "blockFor r ?n st1 = r \<longrightarrow> B r = Some ?tot"
    by (rule blockFor_vacant[OF gc fit _ fresh, where sp = sp and ?r2.0 = r2])
  let ?st2 = "st1\<lparr>fl_heads := F, blocks := B\<rparr>"
  have tot: "HEADER \<le> ?tot" "?tot \<le> UINT32_MAX" "?n \<le> ?tot"
    using roundedSize_bounds[of ?n] roundedSize_max[OF sz(1)] by linarith+
  have owns: "ownsArray (tagOf tag) \<longrightarrow> HEADER + 8 \<le> ?tot" using sz(2) tot(3) by auto
  note V = vacant_blocks[OF B(3)]
  have m: "\<forall>a. \<not> inBlock ?st2 hdr a \<longrightarrow> memset0 (userOf hdr) sz (mem st1) a = mem st1 a"
    using memset0_other[OF V(1)] V(2) tot(3) by simp
  obtain st' where st': "register hdr ?tot ((link hdr (header tag ?tot 0) ?tot ?st2)\<lparr>mem := memset0 (userOf hdr) sz (mem st1)\<rparr>) = Some st'"
    "gc_ok st'" "heap st' = hdr # heap st1" "mem st' = memset0 (userOf hdr) sz (mem st1)" "sizeOf st' hdr = ?tot"
    "blocks st' = B" "fl_heads st' = F" "hdr \<notin> set (heap st1)" "\<forall>h \<in> set (heap st1). survives st1 st' h"
    by (rule place_object[OF gc B(3) tot(1,2) owns refl B(4) m])
  have wr: "writeBytes hdr HEADER sz (memset0 (userOf hdr) sz) (link hdr (header tag ?tot 0) ?tot ?st2)
      = okR ((link hdr (header tag ?tot 0) ?tot ?st2)\<lparr>mem := memset0 (userOf hdr) sz (mem st1)\<rparr>)"
    using V(4)[OF tot(3)] by simp
  have ok: "\<not> sz > SIZE_MAX - HEADER" "\<not> ?tot > UINT32_MAX"
    using sz(1) tot(2) by (simp_all add: SIZE_MAX_def UINT32_MAX_def HEADER_def)
  have tot_eq: "(case fl_class_for ?n of None \<Rightarrow> ?n | Some c \<Rightarrow> fl_class_sizes ! c) = ?tot" by (simp add: roundedSize_def)
  obtain h0 st0 where pop: "fl_pop (fl_class_for ?n) st1 = (h0, st0)" by fastforce
  have "alloc sp r r2 sz tag st = okR (userOf hdr, st')"
    using run ok wr st'(1) B(5) unfolding alloc_def Let_def tot_eq pop header_def
    by (simp add: bindR_def okR_def pop)
  moreover have "fits (heap st') st'"
  proof -
    have "sizeOf st' h = sizeOf st1 h" if "h \<in> set (heap st1)" for h using st'(9) that by (simp add: survives_def sizeOf_def)
    moreover have "fl_class_sizes ! c \<le> blockSize ?st2 hdr" if "fl_class_for ?tot = Some c" for c
    proof -
      have "fl_class_for ?n = Some c \<and> ?tot = fl_class_sizes ! c"
        using that class_bounds(4)[of ?n] by (auto simp: roundedSize_def split: option.splits)
      then show ?thesis using V(2) by simp
    qed
    ultimately show ?thesis using B(6) st'(3,5,6,7) by (simp add: fits_def blockSize_def sizeOf_def)
  qed
  moreover have "\<forall>i < sz. mem st' (userOf hdr + of_nat i) = 0"
    using sz(1) st'(4) by (simp add: memset0_zero UINT32_MAX_def)
  moreover have "?n \<le> blockSize st' hdr" using V(2) tot(3) st'(6) by (simp add: blockSize_def)
  moreover have "blockFor r ?n st1 = r \<longrightarrow> blocks st' r = Some ?tot" using B(7) st'(6) by simp
  ultimately show thesis using that B(2) st' by blast
qed




section \<open>Objects of classes\<close>

definition gcStart :: Gc where
  "gcStart = gc_init 0 \<lparr>heap = [], hdrs = Map.empty, mem = (\<lambda>_. 0), blocks = Map.empty, heap_bytes = 0,
     gc_threshold = MIN_THRESHOLD, stack_bottom = 0, global_roots = [], gc_stats = noStats, heap_lo = UINTPTR_MAX,
     heap_hi = 0, fl_heads = [[], [], [], []], ptr_map = noPtrMap, chunk_table = noChunkTable, ready_head = 0\<rparr>"

text \<open>An object without references of 16 bytes, just allocated in an empty heap.\<close>

definition oneObject :: "addr \<Rightarrow> PtrMap \<Rightarrow> GCStats \<Rightarrow> memory \<Rightarrow> addr \<Rightarrow> addr \<Rightarrow> Gc" where
  "oneObject r m s mm lo hi = gcStart\<lparr>heap := [r], hdrs := [r \<mapsto> header 5 40 0], mem := mm, blocks := [r \<mapsto> 40],
     heap_bytes := 40, gc_stats := s, heap_lo := lo, heap_hi := hi, ptr_map := m\<rparr>"

lemma oneObject_alloc:
  assumes r: "freshBlock gcStart r 40"
  obtains m s mm lo hi where "alloc_object sp r r2 16 [] gcStart = okR (userOf r, oneObject r m s mm lo hi)" "ptr_inv m"
proof -
  have nz: "r \<noteq> 0" "unat r + 40 < 2 ^ 64" using r by (auto simp: freshBlock_def)
  have "unat (userOf r) = unat r + HEADER" unfolding userOf_def by (rule unat_plus64) (use nz in \<open>simp add: HEADER_def\<close>)
  then have "userOf r \<noteq> 0" by (auto simp: HEADER_def)
  then obtain m where m: "ptr_map_insert (userOf r) r ptr_map_init = Some m" "ptr_inv m"
    using insert_correct[OF ptr_inv_init] by blast
  have c: "collectIfOver sp 16 gcStart = okR gcStart"
    by (simp add: collectIfOver_def gcStart_def gc_init_def size_t_def HEADER_def MIN_THRESHOLD_def)
  have "\<exists>s mm lo hi. alloc_object sp r r2 16 [] gcStart = okR (userOf r, oneObject r m s mm lo hi)"
    using nz m(1)
    by (simp add: alloc_object_def Let_def size_t_def c)
      (simp add: bindR_def okR_def HEADER_def SIZE_MAX_def UINT32_MAX_def obtainBlock_def gotBlock_def link_def Let_def
        writeBytes_def register_def gcStart_def gc_init_def oneObject_def header_def copyOffsets_def)
  then show thesis using that m(2) by blast
qed


lemma oneObject_fields:
  "heap (oneObject r m s mm lo hi) = [r]" "hdrs (oneObject r m s mm lo hi) = [r \<mapsto> header 5 40 0]"
  "global_roots (oneObject r m s mm lo hi) = []" "stack_bottom (oneObject r m s mm lo hi) = 0"
  "ready_head (oneObject r m s mm lo hi) = 0" "ptr_map (oneObject r m s mm lo hi) = m"
  "fl_heads (oneObject r m s mm lo hi) = [[], [], [], []]" "blocks (oneObject r m s mm lo hi) = [r \<mapsto> 40]"
  "heap_bytes (oneObject r m s mm lo hi) = 40"
  by (simp_all add: oneObject_def gcStart_def gc_init_def)

lemma oneObject_swept:
  assumes "hdrs st = [r \<mapsto> header 5 40 0]" "fl_heads st = [[], [], [], []]" "heap st = [r]" "blocks st = [r \<mapsto> 40]"
    "ptr_inv (ptr_map st)" "heap_bytes st = 40"
  obtains st' where "sweep st = Some st'" "fl_heads st' = [[], [r], [], []]" "blocks st' = [r \<mapsto> 40]" "heap_bytes st' = 0"
proof -
  obtain m where m: "ptr_map_rebuild [] (ptr_map st) = Some m"
    by (rule rebuild_correct[OF assms(5), of "[]"]) (simp_all add: entries_fit[OF assms(5)])
  have size: "sizeOf (st\<lparr>heap_bytes := b, gc_stats := s\<rparr>) r = 40" "sizeOf st r = 40" for b s
    by (simp_all add: sizeOf_def assms header_def)
  let ?st = "st\<lparr>heap_bytes := 0, gc_stats := (gc_stats st)\<lparr>total_bytes_collected := total_bytes_collected (gc_stats st) + 40\<rparr>\<rparr>"
  have "finalize r ?st = ?st"
    by (simp add: finalize_def assms header_def tagOf_def ownsArray_def)
  moreover have "fl_push r ?st = (True, ?st\<lparr>fl_heads := [[], [r], [], []]\<rparr>)"
    using size by (simp add: fl_push_def fl_class_for_def fl_class_sizes_def FL_MAX_PER_CLASS_def assms)
  ultimately have "release r st = ?st\<lparr>fl_heads := [[], [r], [], []]\<rparr>"
    by (simp add: release_def Let_def size assms)
  then have "fold sweepStep (heap st) ([], st) = ([], ?st\<lparr>fl_heads := [[], [r], [], []]\<rparr>)"
    by (simp add: sweepStep_def assms isMarked_def header_def)
  then show thesis using that m by (simp add: sweep_def Let_def assms bounds_def)
qed

lemma oneObject_collect:
  assumes "ptr_inv m"
  obtains st' where "collect sp (oneObject r m s mm lo hi) = okR st'" "fl_heads st' = [[], [r], [], []]"
    "blocks st' = [r \<mapsto> 40]" "heap_bytes st' = 0" "gc_threshold st' = MIN_THRESHOLD"
proof -
  let ?st = "buildChunks (oneObject r m s mm lo hi)"
  have t: "tasks m 0 = Some []" for m by (subst tasks.simps) simp
  have roots: "mark_roots sp ?st = okR ?st"
    by (simp add: mark_roots_def mark_global_roots_def mark_stack_def mark_ready_def oneObject_fields t bindR_def okR_def)
  obtain st1 where st1: "sweep ?st = Some st1" "fl_heads st1 = [[], [r], [], []]" "blocks st1 = [r \<mapsto> 40]" "heap_bytes st1 = 0"
    by (rule oneObject_swept[of ?st r]) (simp_all add: oneObject_fields assms)
  have "collect sp (oneObject r m s mm lo hi) = okR (adjust st1)"
    using roots st1(1) by (simp add: collect_def bindR_def okR_def)
  then show thesis using that[of "adjust st1"] st1 by (simp add: adjust_def Let_def MIN_THRESHOLD_def)
qed

text \<open>
  C25. Objects of classes are not rounded to a size class, but are filed under the next larger one when they are
  freed. In an empty heap, allocate an object of 16 bytes without reference fields, for which \<^verbatim>\<open>malloc\<close> gives a
  block of 40 bytes; collect, with no reference to it; and allocate 40 bytes of any other kind, which are rounded
  to the class of 64 bytes: the collector hands out the block of 40 bytes and clears 24 bytes past its end.
\<close>

theorem alloc_object_overrun:
  assumes "freshBlock gcStart r 40"
  shows "\<exists>p st1 st2. alloc_object sp r r2 16 [] gcStart = okR (p, st1) \<and> collect sp st1 = okR st2
    \<and> alloc sp r3 r4 40 tag st2 = failR (Overrun r)"
proof -
  obtain m s mm lo hi where a: "alloc_object sp r r2 16 [] gcStart = okR (userOf r, oneObject r m s mm lo hi)" "ptr_inv m"
    by (rule oneObject_alloc[OF assms])
  obtain st2 where st2: "collect sp (oneObject r m s mm lo hi) = okR st2" "fl_heads st2 = [[], [r], [], []]"
    "blocks st2 = [r \<mapsto> 40]" "heap_bytes st2 = 0" "gc_threshold st2 = MIN_THRESHOLD"
    by (rule oneObject_collect[OF a(2)])
  have nz: "r \<noteq> 0" using assms by (simp add: freshBlock_def)
  have c: "collectIfOver sp 40 st2 = okR st2"
    by (simp add: collectIfOver_def st2 size_t_def HEADER_def MIN_THRESHOLD_def)
  have "alloc sp r3 r4 40 tag st2 = failR (Overrun r)"
    by (simp add: alloc_def c Let_def SIZE_MAX_def HEADER_def fl_class_for_def fl_class_sizes_def fl_pop_def st2 nz)
      (simp add: bindR_def okR_def failR_def UINT32_MAX_def writeBytes_def link_def Let_def st2 nz HEADER_def fl_class_sizes_def)
  then show ?thesis using a(1) st2(1) by blast
qed

theorem alloc_object_overrun_witness:
  "\<exists>p st1 st2. alloc_object 0 0x5000 0 16 [] gcStart = okR (p, st1) \<and> collect 0 st1 = okR st2
    \<and> alloc 0 0x6000 0 40 1 st2 = failR (Overrun 0x5000)"
proof (rule alloc_object_overrun)
  show "freshBlock gcStart 0x5000 40" by (simp add: freshBlock_def gcStart_def gc_init_def)
qed

end
