(* ===== verification/Go_Task.thy ===== *)
theory Go_Task
  imports Gc_Alloc
begin

text \<open>
  Where the code generator, the collector and the scheduler meet: a \<^verbatim>\<open>go\<close> expression allocates its task with the
  size the code generator believes a task to have (\<^verbatim>\<open>codegenGoExpr\<close> of \<^verbatim>\<open>src/codegen.cpp\<close>) and passes it to
  \<^verbatim>\<open>__visuall_go_create\<close>, which fills the fields of the structure in \<^verbatim>\<open>stdlib/scheduler.h\<close>.
\<close>

text \<open>The size and the tag of the allocation.\<close>

definition goTaskBytes :: nat where
  "goTaskBytes = 32"

definition goTaskTag :: "8 word" where
  "goTaskTag = 10"

text \<open>The offsets of the fields of a task.\<close>

definition offState :: nat where "offState = 16"
definition offRecvValue :: nat where "offRecvValue = 24"
definition offHasRecv :: nat where "offHasRecv = 32"
definition offNext :: nat where "offNext = 40"

definition putField :: "addr \<Rightarrow> nat \<Rightarrow> nat \<Rightarrow> 64 word \<Rightarrow> Gc \<Rightarrow> Gc run" where
  "putField t off n w st = writeBytes (get_header t) (HEADER + off) n (store (t + of_nat off) (bytesOf n w)) st"

definition resetTask :: "addr \<Rightarrow> Gc \<Rightarrow> Gc run" where
  "resetTask t st =
     bindR (bindR (bindR (putField t offState 8 0 st) (putField t offHasRecv 1 0)) (putField t offRecvValue 8 0))
       (putField t offNext 8 0)"

lemma putField_cases:
  assumes "blocks st (get_header t) = Some b" "0 < n"
  shows "putField t off n w st = (if HEADER + off + n \<le> b
    then okR (st\<lparr>mem := store (t + of_nat off) (bytesOf n w) (mem st)\<rparr>) else failR (Overrun (get_header t)))"
  using assms by (simp add: putField_def writeBytes_def)

lemma resetTask_overruns:
  assumes b: "blocks st (get_header t) = Some 64"
  shows "resetTask t st = failR (Overrun (get_header t))"
  by (simp add: resetTask_def putField_cases b bindR_def okR_def failR_def HEADER_def offState_def offHasRecv_def
      offRecvValue_def offNext_def)

text \<open>
  C30. Every task that a \<^verbatim>\<open>go\<close> expression allocates in a block \<^verbatim>\<open>malloc\<close> has just answered with is too small: the
  collector rounds the 32 bytes and its header up to a block of 64, and when \<^verbatim>\<open>__visuall_go_create\<close> clears the
  link of the task it writes the 8 bytes behind the end of the block.
\<close>

theorem go_task_overrun:
  assumes "gc_ok st" "fits (heap st) st" "collectIfOver sp goTaskBytes st = okR st" "fl_heads st ! 1 = []" "freshBlock st r 64"
  shows "\<exists>st'. alloc sp r r2 goTaskBytes goTaskTag st = okR (userOf r, st') \<and> resetTask (userOf r) st' = failR (Overrun r)"
proof -
  have c: "fl_class_for (HEADER + goTaskBytes) = Some 1" "roundedSize (HEADER + goTaskBytes) = 64"
    by (simp_all add: roundedSize_def fl_class_for_def fl_class_sizes_def HEADER_def goTaskBytes_def)
  have f: "blockFor r (HEADER + goTaskBytes) st = r" using assms(4) by (simp add: blockFor_def c(1))
  have nz: "r \<noteq> 0" "unat r + 64 < 2 ^ 64" using assms(5) by (simp_all add: freshBlock_def)
  have "unat (userOf r) = unat r + HEADER" unfolding userOf_def by (rule unat_plus64) (use nz in \<open>simp add: HEADER_def\<close>)
  then have u: "userOf r \<noteq> 0" by (auto simp: HEADER_def)
  have small: "HEADER + goTaskBytes \<le> UINT32_MAX" "ownsArray (tagOf goTaskTag) \<longrightarrow> 8 \<le> goTaskBytes"
    by (simp_all add: HEADER_def goTaskBytes_def UINT32_MAX_def)
  have fresh: "blockFor r (HEADER + goTaskBytes) st = r \<longrightarrow> freshBlock st r (roundedSize (HEADER + goTaskBytes))"
    using assms(5) c(2) by simp
  obtain hdr st' where st': "alloc sp r r2 goTaskBytes goTaskTag st = okR (userOf hdr, st')"
    "hdr = blockFor r (HEADER + goTaskBytes) st"
    "blockFor r (HEADER + goTaskBytes) st = r \<longrightarrow> blocks st' r = Some (roundedSize (HEADER + goTaskBytes))"
    by (rule alloc_run[OF assms(1-3) small fresh, where ?r2.0 = r2])
  then have "blocks st' (get_header (userOf r)) = Some 64" using f c(2) get_header_userOf[OF u] by simp
  from resetTask_overruns[OF this] show ?thesis using st'(1,2) f get_header_userOf[OF u] by (intro exI[of _ st']) simp
qed

theorem go_task_overrun_witness:
  "\<exists>m st'. alloc 0 0x4000 0 goTaskBytes goTaskTag (twoStrings m) = okR (userOf 0x4000, st')
     \<and> resetTask (userOf 0x4000) st' = failR (Overrun 0x4000)"
proof -
  obtain m where m: "twoTable m" using twoTable_exists by blast
  let ?st = "twoStrings m"
  note f = twoStrings_fields[of m]
  have "fits (heap ?st) ?st" by (auto simp: fits_def f fl_class_for_def fl_class_sizes_def nth_Cons')
  moreover have "collectIfOver 0 goTaskBytes ?st = okR ?st"
    by (simp add: collectIfOver_def f size_t_def HEADER_def goTaskBytes_def) (simp add: twoStrings_def MIN_THRESHOLD_def)
  moreover have "fl_heads ?st ! 1 = []" "freshBlock ?st 0x4000 64" by (auto simp: freshBlock_def f split: if_splits)
  ultimately show ?thesis using go_task_overrun[OF twoStrings_ok[OF m], where sp = 0 and r = "0x4000" and ?r2.0 = 0] by blast
qed

end
