(* ===== verification/Scheduler.thy ===== *)
theory Scheduler
  imports Gc_Heap
begin

text \<open>
  The scheduler and the channels (\<^verbatim>\<open>stdlib/scheduler.c\<close>). Tasks and channels are objects at addresses, the
  queues are linked through the tasks themselves, as in the code, so that a task put into two queues would
  corrupt both. A call is composed of the sections it runs while it holds a lock; the sections are definitions of
  their own, for the interleavings of several threads. A store or load outside a ring buffer is a fault, a walk
  along a cyclic queue does not end.
\<close>

section \<open>Tasks, channels and the ready queue\<close>

record VisuallTask =
  fn_ptr :: addr
  task_env :: addr
  task_state :: int
  recv_value :: "64 word"
  has_recv :: bool
  next_task :: addr

record VisuallChannel =
  ring :: "64 word list"
  capacity :: int
  ring_count :: int
  ring_head :: int
  ring_tail :: int
  is_closed :: bool
  blocked_senders_head :: addr
  blocked_receivers_head :: addr

record Sched =
  task :: "addr \<Rightarrow> VisuallTask"
  chan :: "addr \<Rightarrow> VisuallChannel"
  rq_head :: addr
  rq_tail :: addr
  sched_initialised :: bool

definition set_next :: "addr \<Rightarrow> addr \<Rightarrow> Sched \<Rightarrow> Sched" where
  "set_next t n st = st\<lparr>task := (task st)(t := (task st t)\<lparr>next_task := n\<rparr>)\<rparr>"

definition set_chan :: "addr \<Rightarrow> VisuallChannel \<Rightarrow> Sched \<Rightarrow> Sched" where
  "set_chan c v st = st\<lparr>chan := (chan st)(c := v)\<rparr>"

definition sched_enqueue :: "addr \<Rightarrow> Sched \<Rightarrow> Sched" where
  "sched_enqueue t st =
     (let st = set_next t 0 st
      in if rq_head st = 0 then st\<lparr>rq_head := t, rq_tail := t\<rparr>
         else (set_next (rq_tail st) t st)\<lparr>rq_tail := t\<rparr>)"

definition sched_dequeue :: "Sched \<Rightarrow> addr \<times> Sched" where
  "sched_dequeue st =
     (if rq_head st = 0 then (0, st)
      else let t = rq_head st;
               st = st\<lparr>rq_head := next_task (task st t)\<rparr>;
               st = (if rq_head st = 0 then st\<lparr>rq_tail := 0\<rparr> else st)
           in (t, set_next t 0 st))"

section \<open>Queues of blocked tasks\<close>

partial_function (option) lastFrom :: "addr \<Rightarrow> Sched \<Rightarrow> addr option" where
  "lastFrom cur st =
     (if next_task (task st cur) = 0 then Some cur else lastFrom (next_task (task st cur)) st)"

declare lastFrom.simps [code]

definition blocked_enqueue :: "addr \<Rightarrow> addr \<Rightarrow> Sched \<Rightarrow> (addr \<times> Sched) option" where
  "blocked_enqueue head t st =
     (let st = set_next t 0 st
      in if head = 0 then Some (t, st)
         else lastFrom head st \<bind> (\<lambda>cur. Some (head, set_next cur t st)))"

definition blocked_dequeue :: "addr \<Rightarrow> Sched \<Rightarrow> addr \<times> addr \<times> Sched" where
  "blocked_dequeue head st =
     (if head = 0 then (0, head, st) else (head, next_task (task st head), set_next head 0 st))"

definition enqueue_sender :: "addr \<Rightarrow> addr \<Rightarrow> Sched \<Rightarrow> Sched run" where
  "enqueue_sender c t st = blocked_enqueue (blocked_senders_head (chan st c)) t st \<bind> (\<lambda>(h, st).
     okR (set_chan c ((chan st c)\<lparr>blocked_senders_head := h\<rparr>) st))"

definition enqueue_receiver :: "addr \<Rightarrow> addr \<Rightarrow> Sched \<Rightarrow> Sched run" where
  "enqueue_receiver c t st = blocked_enqueue (blocked_receivers_head (chan st c)) t st \<bind> (\<lambda>(h, st).
     okR (set_chan c ((chan st c)\<lparr>blocked_receivers_head := h\<rparr>) st))"

definition dequeue_sender :: "addr \<Rightarrow> Sched \<Rightarrow> addr \<times> Sched" where
  "dequeue_sender c st = (let (t, h, st) = blocked_dequeue (blocked_senders_head (chan st c)) st
     in (t, set_chan c ((chan st c)\<lparr>blocked_senders_head := h\<rparr>) st))"

definition dequeue_receiver :: "addr \<Rightarrow> Sched \<Rightarrow> addr \<times> Sched" where
  "dequeue_receiver c st = (let (t, h, st) = blocked_dequeue (blocked_receivers_head (chan st c)) st
     in (t, set_chan c ((chan st c)\<lparr>blocked_receivers_head := h\<rparr>) st))"

section \<open>Goroutines\<close>

definition sched_init :: "Sched \<Rightarrow> Sched" where
  "sched_init st = (if sched_initialised st then st else st\<lparr>sched_initialised := True\<rparr>)"

definition go_create :: "addr \<Rightarrow> Sched \<Rightarrow> Sched" where
  "go_create t st =
     (if t = 0 then st
      else let st = (if \<not> sched_initialised st then sched_init st else st);
               st = st\<lparr>task := (task st)(t := (task st t)\<lparr>task_state := 0, has_recv := False, recv_value := 0,
                                                         next_task := 0\<rparr>)\<rparr>
           in sched_enqueue t st)"

text \<open>
  One round of the loop of a worker: the function and the environment it calls, if there is a ready task. What
  the called code does is the rest of the program.
\<close>

definition worker_round :: "Sched \<Rightarrow> (addr \<times> addr) option \<times> Sched" where
  "worker_round st =
     (let (t, st) = sched_dequeue st
      in (if t = 0 then None
          else if fn_ptr (task st t) \<noteq> 0 then Some (fn_ptr (task st t), task_env (task st t)) else None, st))"

section \<open>Channels\<close>

text \<open>The words of a buffer for which \<^verbatim>\<open>malloc\<close> is asked: the byte count is a product of type \<^verbatim>\<open>size_t\<close>.\<close>

definition ringWords :: "int \<Rightarrow> nat" where
  "ringWords cap = nat ((cap * 8) mod 2 ^ 64) div 8"

definition chan_create :: "int \<Rightarrow> VisuallChannel" where
  "chan_create cap = \<lparr>ring = (if cap > 0 then replicate (ringWords cap) 0 else []), capacity = cap, ring_count = 0,
     ring_head = 0, ring_tail = 0, is_closed = False, blocked_senders_head = 0, blocked_receivers_head = 0\<rparr>"

definition ring_put :: "addr \<Rightarrow> 64 word \<Rightarrow> Sched \<Rightarrow> Sched run" where
  "ring_put c v st =
     (let ch = chan st c
      in if \<not> (0 \<le> ring_tail ch \<and> ring_tail ch < int (length (ring ch))) then failR (Overrun c)
         else okR (set_chan c (ch\<lparr>ring := (ring ch)[nat (ring_tail ch) := v],
                                  ring_tail := (ring_tail ch + 1) mod capacity ch,
                                  ring_count := ring_count ch + 1\<rparr>) st))"

definition ring_take :: "addr \<Rightarrow> Sched \<Rightarrow> (64 word \<times> Sched) run" where
  "ring_take c st =
     (let ch = chan st c
      in if \<not> (0 \<le> ring_head ch \<and> ring_head ch < int (length (ring ch))) then failR (Overrun c)
         else okR (ring ch ! nat (ring_head ch),
                   set_chan c (ch\<lparr>ring_head := (ring_head ch + 1) mod capacity ch,
                                  ring_count := ring_count ch - 1\<rparr>) st))"

text \<open>
  Sending, up to the release of the channel lock: the task to be made ready afterwards, or 0. Integer division
  is only reached with a positive divisor.
\<close>

definition sendSection :: "addr \<Rightarrow> 64 word \<Rightarrow> addr \<Rightarrow> addr \<Rightarrow> Sched \<Rightarrow> (addr \<times> Sched) run" where
  "sendSection c v cont cont_env st =
     (if is_closed (chan st c) then okR (0, st)
      else
        let (receiver, st) = dequeue_receiver c st
        in if receiver \<noteq> 0 then
             okR (receiver, st\<lparr>task := (task st)(receiver := (task st receiver)\<lparr>recv_value := v, has_recv := True\<rparr>)\<rparr>)
           else if capacity (chan st c) > 0 \<and> ring_count (chan st c) < capacity (chan st c) then
             bindR (ring_put c v st) (\<lambda>st. okR (0, st))
           else if cont \<noteq> 0 \<and> cont_env \<noteq> 0 then
             bindR (enqueue_sender c cont_env st) (\<lambda>st. okR (0, st))
           else okR (0, st))"

definition wake :: "addr \<Rightarrow> Sched \<Rightarrow> Sched" where
  "wake t st = (if t \<noteq> 0 then sched_enqueue t st else st)"

definition chan_send :: "addr \<Rightarrow> 64 word \<Rightarrow> addr \<Rightarrow> addr \<Rightarrow> Sched \<Rightarrow> Sched run" where
  "chan_send c v cont cont_env st =
     (if c = 0 then okR st
      else bindR (sendSection c v cont cont_env st) (\<lambda>(t, st). okR (wake t st)))"

text \<open>
  Receiving: the section at the end, which takes a value from the buffer or blocks, and the section at the
  start, which answers \<^verbatim>\<open>None\<close> if a sender has to be woken before the end is reached.
\<close>

definition recvEnd :: "addr \<Rightarrow> addr \<Rightarrow> addr \<Rightarrow> Sched \<Rightarrow> (64 word \<times> Sched) run" where
  "recvEnd c cont cont_env st =
     (if ring_count (chan st c) > 0 then ring_take c st
      else if cont \<noteq> 0 \<and> cont_env \<noteq> 0 then bindR (enqueue_receiver c cont_env st) (\<lambda>st. okR (0, st))
      else okR (0, st))"

definition recvSection :: "addr \<Rightarrow> addr \<Rightarrow> addr \<Rightarrow> Sched \<Rightarrow> (64 word option \<times> addr \<times> Sched) run" where
  "recvSection c cont cont_env st =
     (if cont_env \<noteq> 0 \<and> has_recv (task st cont_env) then
        okR (Some (recv_value (task st cont_env)), 0,
             st\<lparr>task := (task st)(cont_env := (task st cont_env)\<lparr>has_recv := False, recv_value := 0\<rparr>)\<rparr>)
      else
        let (sender, st) = dequeue_sender c st
        in if sender \<noteq> 0 then
             if ring_count (chan st c) > 0 then bindR (ring_take c st) (\<lambda>(v, st). okR (Some v, sender, st))
             else okR (None, sender, st)
           else bindR (recvEnd c cont cont_env st) (\<lambda>(v, st). okR (Some v, 0, st)))"

definition chan_recv :: "addr \<Rightarrow> addr \<Rightarrow> addr \<Rightarrow> Sched \<Rightarrow> (64 word \<times> Sched) run" where
  "chan_recv c cont cont_env st =
     (if c = 0 then okR (0, st)
      else bindR (recvSection c cont cont_env st) (\<lambda>(v, t, st).
        let st = wake t st
        in case v of Some v \<Rightarrow> okR (v, st) | None \<Rightarrow> recvEnd c cont cont_env st))"

partial_function (option) wakeReceivers :: "addr \<Rightarrow> Sched \<Rightarrow> Sched option" where
  "wakeReceivers c st =
     (let (t, st) = dequeue_receiver c st
      in if t = 0 then Some st else wakeReceivers c (sched_enqueue t st))"

partial_function (option) wakeSenders :: "addr \<Rightarrow> Sched \<Rightarrow> Sched option" where
  "wakeSenders c st =
     (let (t, st) = dequeue_sender c st
      in if t = 0 then Some st else wakeSenders c (sched_enqueue t st))"

declare wakeReceivers.simps [code] wakeSenders.simps [code]

definition chan_close :: "addr \<Rightarrow> Sched \<Rightarrow> Sched option" where
  "chan_close c st =
     (if c = 0 then Some st
      else let st = set_chan c ((chan st c)\<lparr>is_closed := True\<rparr>) st
           in wakeReceivers c st \<bind> wakeSenders c)"

end
