(* ===== verification/Scheduler_Queues.thy ===== *)
theory Scheduler_Queues
  imports Scheduler
begin

text \<open>
  The linked queues and the ring buffers of the scheduler as lists. All queues together satisfy one invariant:
  each is a chain through the tasks, no task stands in two places, and the tail pointer of the ready queue is
  its last task. Every operation on a queue or a buffer is the obvious one on lists.
\<close>

section \<open>Chains through the tasks\<close>

datatype qid = Ready | Senders addr | Receivers addr

fun headOf :: "Sched \<Rightarrow> qid \<Rightarrow> addr" where
  "headOf st Ready = rq_head st"
| "headOf st (Senders c) = blocked_senders_head (chan st c)"
| "headOf st (Receivers c) = blocked_receivers_head (chan st c)"

fun linked :: "(addr \<Rightarrow> VisuallTask) \<Rightarrow> addr \<Rightarrow> addr list \<Rightarrow> bool" where
  "linked ts h [] \<longleftrightarrow> h = 0"
| "linked ts h (x # xs) \<longleftrightarrow> h = x \<and> x \<noteq> 0 \<and> linked ts (next_task (ts x)) xs"

definition queues_ok :: "Sched \<Rightarrow> (qid \<Rightarrow> addr list) \<Rightarrow> bool" where
  "queues_ok st Q \<longleftrightarrow> (\<forall>q. linked (task st) (headOf st q) (Q q) \<and> distinct (Q q))
     \<and> (\<forall>q q'. q \<noteq> q' \<longrightarrow> set (Q q) \<inter> set (Q q') = {})
     \<and> rq_tail st = (if Q Ready = [] then 0 else last (Q Ready))"

lemma linked_cong: "(\<forall>x \<in> set xs. next_task (ts' x) = next_task (ts x)) \<Longrightarrow> linked ts' h xs = linked ts h xs"
  by (induction xs arbitrary: h) auto

lemma linked_zero: "linked ts h xs \<Longrightarrow> 0 \<notin> set xs"
  by (induction xs arbitrary: h) auto

lemma linked_head: "linked ts h xs \<Longrightarrow> h = 0 \<longleftrightarrow> xs = []"
  by (cases xs) auto

lemma linked_snoc:
  assumes "linked ts h xs" "xs \<noteq> []" "distinct xs" "t \<notin> set xs" "t \<noteq> 0"
    and "next_task (ts' (last xs)) = t" "next_task (ts' t) = 0"
    and "\<forall>x \<in> set xs. x \<noteq> last xs \<longrightarrow> next_task (ts' x) = next_task (ts x)"
  shows "linked ts' h (xs @ [t])"
  using assms
proof (induction xs arbitrary: h)
  case (Cons x xs)
  show ?case
  proof (cases "xs = []")
    case True
    then show ?thesis using Cons.prems by simp
  next
    case False
    have "linked ts' (next_task (ts x)) (xs @ [t])"
      using Cons.prems False by (intro Cons.IH) auto
    moreover have "x \<noteq> last xs" using Cons.prems(3) False by auto
    then have "next_task (ts' x) = next_task (ts x)" using Cons.prems(8) False by simp
    ultimately show ?thesis using Cons.prems(1) by simp
  qed
qed simp

lemma lastFrom_linked: "linked (task st) h xs \<Longrightarrow> xs \<noteq> [] \<Longrightarrow> lastFrom h st = Some (last xs)"
proof (induction xs arbitrary: h)
  case (Cons x xs)
  then have h: "h = x" "linked (task st) (next_task (task st x)) xs" by simp_all
  show ?case
  proof (cases "xs = []")
    case True
    then show ?thesis using h by (subst lastFrom.simps) simp
  next
    case False
    then have "next_task (task st x) \<noteq> 0" using linked_head[OF h(2)] by simp
    then show ?thesis using Cons.IH[OF h(2) False] h(1) False by (subst lastFrom.simps) simp
  qed
qed simp

lemma queues_change:
  assumes ok: "queues_ok st Q"
    and heads: "\<And>q'. q' \<noteq> q \<Longrightarrow> headOf st' q' = headOf st q'"
    and others: "\<And>q' x. q' \<noteq> q \<Longrightarrow> x \<in> set (Q q') \<Longrightarrow> next_task (task st' x) = next_task (task st x)"
    and new: "linked (task st') (headOf st' q) xs" "distinct xs" "\<And>q'. q' \<noteq> q \<Longrightarrow> set xs \<inter> set (Q q') = {}"
    and tail: "rq_tail st' = (if (Q(q := xs)) Ready = [] then 0 else last ((Q(q := xs)) Ready))"
  shows "queues_ok st' (Q(q := xs))"
  unfolding queues_ok_def
proof (intro conjI allI impI)
  fix p
  show "linked (task st') (headOf st' p) ((Q(q := xs)) p)"
  proof (cases "p = q")
    case False
    then have "linked (task st') (headOf st' p) (Q p) = linked (task st) (headOf st p) (Q p)"
      using linked_cong[of "Q p" "task st'" "task st"] others[of p] heads[of p] by simp
    then show ?thesis using ok False by (simp add: queues_ok_def)
  qed (use new in simp)
  show "distinct ((Q(q := xs)) p)" using ok new(2) by (simp add: queues_ok_def)
  fix p' assume "p \<noteq> p'"
  then show "set ((Q(q := xs)) p) \<inter> set ((Q(q := xs)) p') = {}"
    using ok new(3)[of p] new(3)[of p'] by (auto simp: queues_ok_def)
qed (rule tail)

lemma queues_same:
  assumes "queues_ok st Q" "\<And>q. headOf st' q = headOf st q" "rq_tail st' = rq_tail st"
    and "\<And>x. next_task (task st' x) = next_task (task st x)"
  shows "queues_ok st' Q"
  using assms linked_cong[of _ "task st'" "task st"] by (simp add: queues_ok_def)

definition noQueue :: "addr \<Rightarrow> (qid \<Rightarrow> addr list) \<Rightarrow> bool" where
  "noQueue t Q \<longleftrightarrow> t \<noteq> 0 \<and> (\<forall>q. t \<notin> set (Q q))"

text \<open>Nothing of a task but its link is changed by a queue.\<close>

definition onlyLinks :: "Sched \<Rightarrow> Sched \<Rightarrow> bool" where
  "onlyLinks st st' \<longleftrightarrow> (\<forall>t. (task st' t)\<lparr>next_task := 0\<rparr> = (task st t)\<lparr>next_task := 0\<rparr>)"

lemma onlyLinks_refl [simp]: "onlyLinks st st"
  by (simp add: onlyLinks_def)

lemma onlyLinks_trans: "onlyLinks st st1 \<Longrightarrow> onlyLinks st1 st2 \<Longrightarrow> onlyLinks st st2"
  by (simp add: onlyLinks_def)

lemma onlyLinks_set: "onlyLinks st (set_next t n st)"
  by (simp add: onlyLinks_def set_next_def)

lemma onlyLinks_fields:
  assumes "onlyLinks st st'"
  shows "has_recv (task st' t) = has_recv (task st t)" "recv_value (task st' t) = recv_value (task st t)"
    "fn_ptr (task st' t) = fn_ptr (task st t)" "task_env (task st' t) = task_env (task st t)"
proof -
  have e: "(task st' t)\<lparr>next_task := 0\<rparr> = (task st t)\<lparr>next_task := 0\<rparr>" using assms by (simp add: onlyLinks_def)
  show "has_recv (task st' t) = has_recv (task st t)" using arg_cong[where f = has_recv, OF e] by simp
  show "recv_value (task st' t) = recv_value (task st t)" using arg_cong[where f = recv_value, OF e] by simp
  show "fn_ptr (task st' t) = fn_ptr (task st t)" using arg_cong[where f = fn_ptr, OF e] by simp
  show "task_env (task st' t) = task_env (task st t)" using arg_cong[where f = task_env, OF e] by simp
qed

section \<open>The ready queue\<close>

lemma enqueue_correct:
  assumes ok: "queues_ok st Q" and t: "noQueue t Q"
  shows "queues_ok (sched_enqueue t st) (Q(Ready := Q Ready @ [t]))"
    and "chan (sched_enqueue t st) = chan st" and "onlyLinks st (sched_enqueue t st)"
    and "sched_initialised (sched_enqueue t st) = sched_initialised st"
proof -
  let ?st = "sched_enqueue t st"
  have l: "linked (task st) (rq_head st) (Q Ready)" "distinct (Q Ready)"
    and tl: "rq_tail st = (if Q Ready = [] then 0 else last (Q Ready))"
    using ok by (auto simp: queues_ok_def dest: spec[of _ Ready])
  note e = linked_head[OF l(1)]
  show "chan ?st = chan st" "sched_initialised ?st = sched_initialised st"
    by (simp_all add: sched_enqueue_def set_next_def Let_def)
  show "onlyLinks st ?st" by (simp add: sched_enqueue_def onlyLinks_def set_next_def Let_def)
  have rest: "next_task (task ?st x) = next_task (task st x)" if "x \<noteq> t" "Q Ready = [] \<or> x \<noteq> last (Q Ready)" for x
    using that tl e by (auto simp: sched_enqueue_def set_next_def Let_def)
  show "queues_ok ?st (Q(Ready := Q Ready @ [t]))"
  proof (rule queues_change[OF ok])
    show "headOf ?st q = headOf st q" if "q \<noteq> Ready" for q
      using that by (cases q) (simp_all add: sched_enqueue_def set_next_def Let_def)
    show "next_task (task ?st x) = next_task (task st x)" if "q \<noteq> Ready" "x \<in> set (Q q)" for q x
    proof (rule rest)
      show "x \<noteq> t" using t that by (auto simp: noQueue_def)
      have "set (Q q) \<inter> set (Q Ready) = {}" using ok that(1) by (simp add: queues_ok_def)
      then show "Q Ready = [] \<or> x \<noteq> last (Q Ready)" using that(2) by (metis IntI empty_iff last_in_set)
    qed
    show "linked (task ?st) (headOf ?st Ready) (Q Ready @ [t])"
    proof (cases "Q Ready = []")
      case True
      then show ?thesis using e t by (simp add: sched_enqueue_def set_next_def Let_def noQueue_def)
    next
      case False
      have "t \<noteq> last (Q Ready)" using t last_in_set[OF False] by (auto simp: noQueue_def)
      then have h: "headOf ?st Ready = rq_head st" "next_task (task ?st (last (Q Ready))) = t" "next_task (task ?st t) = 0"
        using False e tl by (auto simp: sched_enqueue_def set_next_def Let_def noQueue_def)
      have "t \<notin> set (Q Ready)" "t \<noteq> 0" using t by (simp_all add: noQueue_def)
      moreover have "\<forall>x \<in> set (Q Ready). x \<noteq> last (Q Ready) \<longrightarrow> next_task (task ?st x) = next_task (task st x)"
        by (intro ballI impI, rule rest) (use \<open>t \<notin> set (Q Ready)\<close> in auto)
      ultimately show ?thesis unfolding h(1) by (intro linked_snoc[OF l(1) False l(2)] h)
    qed
    show "distinct (Q Ready @ [t])" using l(2) t by (simp add: noQueue_def)
    show "set (Q Ready @ [t]) \<inter> set (Q q) = {}" if "q \<noteq> Ready" for q
    proof -
      have "set (Q Ready) \<inter> set (Q q) = {}" using ok that by (simp add: queues_ok_def)
      then show ?thesis using t by (auto simp: noQueue_def)
    qed
    show "rq_tail ?st = (if (Q(Ready := Q Ready @ [t])) Ready = [] then 0 else last ((Q(Ready := Q Ready @ [t])) Ready))"
      by (simp add: sched_enqueue_def set_next_def Let_def)
  qed
qed

lemma dequeue_correct:
  assumes ok: "queues_ok st Q" and d: "sched_dequeue st = (t, st')"
  shows "t = (case Q Ready of [] \<Rightarrow> 0 | x # xs \<Rightarrow> x)" and "queues_ok st' (Q(Ready := tl (Q Ready)))"
    and "chan st' = chan st" and "onlyLinks st st'" and "sched_initialised st' = sched_initialised st"
proof -
  have l: "linked (task st) (rq_head st) (Q Ready)" "distinct (Q Ready)"
    and tl: "rq_tail st = (if Q Ready = [] then 0 else last (Q Ready))"
    using ok by (auto simp: queues_ok_def dest: spec[of _ Ready])
  show "chan st' = chan st" "sched_initialised st' = sched_initialised st" "onlyLinks st st'"
    using d by (auto simp: sched_dequeue_def set_next_def Let_def onlyLinks_def split: if_splits)
  show t: "t = (case Q Ready of [] \<Rightarrow> 0 | x # xs \<Rightarrow> x)"
    using d l(1) by (cases "Q Ready") (auto simp: sched_dequeue_def Let_def split: if_splits)
  show "queues_ok st' (Q(Ready := tl (Q Ready)))"
  proof (cases "Q Ready")
    case Nil
    then have "st' = st" using d l(1) by (simp add: sched_dequeue_def)
    moreover have "Q(Ready := tl (Q Ready)) = Q" using Nil by (simp add: fun_upd_idem)
    ultimately show ?thesis using ok by simp
  next
    case (Cons x xs)
    then have h: "rq_head st = x" "x \<noteq> 0" "linked (task st) (next_task (task st x)) xs" "x \<notin> set xs" "distinct xs" using l by simp_all
    have st': "rq_head st' = next_task (task st x)" "\<And>y. next_task (task st' y) = (if y = x then 0 else next_task (task st y))"
      "rq_tail st' = (if next_task (task st x) = 0 then 0 else rq_tail st)"
      using d h(1,2) by (auto simp: sched_dequeue_def set_next_def Let_def split: if_splits)
    show ?thesis
    proof (rule queues_change[OF ok])
      show "headOf st' q = headOf st q" if "q \<noteq> Ready" for q
        using that d by (cases q) (auto simp: sched_dequeue_def set_next_def Let_def split: if_splits)
      show "next_task (task st' y) = next_task (task st y)" if "q \<noteq> Ready" "y \<in> set (Q q)" for q y
      proof -
        have "set (Q q) \<inter> set (Q Ready) = {}" using ok that(1) by (simp add: queues_ok_def)
        then show ?thesis using that(2) Cons st'(2) by auto
      qed
      have "linked (task st') (next_task (task st x)) xs = linked (task st) (next_task (task st x)) xs"
        using h(4) st'(2) by (intro linked_cong) auto
      then show "linked (task st') (headOf st' Ready) (tl (Q Ready))" using h(3) st'(1) Cons by simp
      show "distinct (tl (Q Ready))" using l(2) by (rule distinct_tl)
      show "set (tl (Q Ready)) \<inter> set (Q q) = {}" if "q \<noteq> Ready" for q
      proof -
        have "set (Q Ready) \<inter> set (Q q) = {}" using ok that by (simp add: queues_ok_def)
        then show ?thesis using Cons by auto
      qed
      show "rq_tail st' = (if (Q(Ready := tl (Q Ready))) Ready = [] then 0 else last ((Q(Ready := tl (Q Ready))) Ready))"
        using st'(3) tl Cons linked_head[OF h(3)] by simp
    qed
  qed
qed


section \<open>The queues of blocked tasks\<close>

text \<open>
  Both kinds of blocked queue are handled by the same two operations on a head pointer. What they do is stated
  once, for the state in which the channel holds the new head.
\<close>

fun headUpd :: "qid \<Rightarrow> addr \<Rightarrow> Sched \<Rightarrow> Sched" where
  "headUpd Ready h st = st"
| "headUpd (Senders c) h st = set_chan c ((chan st c)\<lparr>blocked_senders_head := h\<rparr>) st"
| "headUpd (Receivers c) h st = set_chan c ((chan st c)\<lparr>blocked_receivers_head := h\<rparr>) st"

lemma headUpd_fields [simp]:
  "task (headUpd q h st) = task st" "rq_head (headUpd q h st) = rq_head st" "rq_tail (headUpd q h st) = rq_tail st"
  "sched_initialised (headUpd q h st) = sched_initialised st"
  by (cases q; simp add: set_chan_def)+

lemma headOf_headUpd: "q \<noteq> Ready \<Longrightarrow> headOf (headUpd q h st) p = (if p = q then h else headOf st p)"
  by (cases q; cases p) (auto simp: set_chan_def)

definition sameRing :: "VisuallChannel \<Rightarrow> VisuallChannel \<Rightarrow> bool" where
  "sameRing x y \<longleftrightarrow> ring x = ring y \<and> capacity x = capacity y \<and> ring_count x = ring_count y
     \<and> ring_head x = ring_head y \<and> ring_tail x = ring_tail y \<and> is_closed x = is_closed y"

lemma sameRing_headUpd: "sameRing (chan (headUpd q h st) c) (chan st c)"
  by (cases q) (simp_all add: set_chan_def sameRing_def)

lemma blocked_enqueue_correct:
  assumes ok: "queues_ok st Q" and t: "noQueue t Q" and q: "q \<noteq> Ready"
  obtains h st1 where "blocked_enqueue (headOf st q) t st = Some (h, st1)" "chan st1 = chan st"
    "queues_ok (headUpd q h st1) (Q(q := Q q @ [t]))" "onlyLinks st st1" "sched_initialised st1 = sched_initialised st"
proof -
  have l: "linked (task st) (headOf st q) (Q q)" "distinct (Q q)" using ok by (auto simp: queues_ok_def)
  have t': "t \<noteq> 0" "t \<notin> set (Q q)" using t by (simp_all add: noQueue_def)
  let ?s = "set_next t 0 st"
  have s: "linked (task ?s) (headOf st q) (Q q)"
    using l(1) linked_cong[of "Q q" "task ?s" "task st"] t'(2) by (simp add: set_next_def)
  have change: "queues_ok (headUpd q h st1) (Q(q := Q q @ [t]))"
    if f: "linked (task st1) h (Q q @ [t])" "chan st1 = chan st" "rq_head st1 = rq_head st" "rq_tail st1 = rq_tail st"
      and n: "\<And>x. x \<noteq> t \<Longrightarrow> Q q = [] \<or> x \<noteq> last (Q q) \<Longrightarrow> next_task (task st1 x) = next_task (task st x)" for h st1
  proof (rule queues_change[OF ok])
    show "headOf (headUpd q h st1) p = headOf st p" if "p \<noteq> q" for p
      using that q f(2,3) by (simp add: headOf_headUpd) (cases p; simp)
    show "next_task (task (headUpd q h st1) x) = next_task (task st x)" if "p \<noteq> q" "x \<in> set (Q p)" for p x
    proof -
      have "x \<noteq> t" using t that by (auto simp: noQueue_def)
      moreover have "set (Q p) \<inter> set (Q q) = {}" using ok that(1) by (simp add: queues_ok_def)
      then have "Q q = [] \<or> x \<noteq> last (Q q)" using that(2) by (metis IntI empty_iff last_in_set)
      ultimately show ?thesis using n by simp
    qed
    show "linked (task (headUpd q h st1)) (headOf (headUpd q h st1) q) (Q q @ [t])" using f(1) q by (simp add: headOf_headUpd)
    show "distinct (Q q @ [t])" using l(2) t' by simp
    show "set (Q q @ [t]) \<inter> set (Q p) = {}" if "p \<noteq> q" for p
    proof -
      have "set (Q q) \<inter> set (Q p) = {}" using ok that by (simp add: queues_ok_def)
      then show ?thesis using t by (auto simp: noQueue_def)
    qed
    show "rq_tail (headUpd q h st1) = (if (Q(q := Q q @ [t])) Ready = [] then 0 else last ((Q(q := Q q @ [t])) Ready))"
      using ok q f(4) by (simp add: queues_ok_def)
  qed
  show thesis
  proof (cases "Q q = []")
    case True
    then have "blocked_enqueue (headOf st q) t st = Some (t, ?s)" using linked_head[OF l(1)] by (simp add: blocked_enqueue_def Let_def)
    moreover have "queues_ok (headUpd q t ?s) (Q(q := Q q @ [t]))"
      using True t' by (intro change) (simp_all add: set_next_def)
    ultimately show thesis using that by (simp add: set_next_def onlyLinks_def)
  next
    case False
    let ?st1 = "set_next (last (Q q)) t ?s"
    have ne: "last (Q q) \<noteq> t" using t'(2) last_in_set[OF False] by auto
    have "blocked_enqueue (headOf st q) t st = Some (headOf st q, ?st1)"
      using lastFrom_linked[OF s False] linked_head[OF l(1)] False by (simp add: blocked_enqueue_def Let_def)
    moreover have "linked (task ?st1) (headOf st q) (Q q @ [t])"
      using ne by (intro linked_snoc[OF l(1) False l(2) t'(2,1)]) (use t'(2) in \<open>auto simp: set_next_def\<close>)
    then have "queues_ok (headUpd q (headOf st q) ?st1) (Q(q := Q q @ [t]))"
      using False by (intro change) (auto simp: set_next_def)
    ultimately show thesis using that by (simp add: set_next_def onlyLinks_def)
  qed
qed

lemma blocked_dequeue_correct:
  assumes ok: "queues_ok st Q" and q: "q \<noteq> Ready" and d: "blocked_dequeue (headOf st q) st = (t, h, st1)"
  shows "t = (case Q q of [] \<Rightarrow> 0 | x # xs \<Rightarrow> x)" and "queues_ok (headUpd q h st1) (Q(q := tl (Q q)))"
    and "chan st1 = chan st" and "onlyLinks st st1" and "sched_initialised st1 = sched_initialised st"
proof -
  have l: "linked (task st) (headOf st q) (Q q)" "distinct (Q q)" using ok by (auto simp: queues_ok_def)
  show "chan st1 = chan st" "onlyLinks st st1" "sched_initialised st1 = sched_initialised st"
    using d by (auto simp: blocked_dequeue_def set_next_def onlyLinks_def split: if_splits)
  have f: "rq_head st1 = rq_head st" "rq_tail st1 = rq_tail st" "chan st1 = chan st"
    using d by (auto simp: blocked_dequeue_def set_next_def split: if_splits)
  show "t = (case Q q of [] \<Rightarrow> 0 | x # xs \<Rightarrow> x)"
    using d l(1) by (cases "Q q") (auto simp: blocked_dequeue_def split: if_splits)
  have n: "next_task (task st1 x) = (if x = headOf st q \<and> Q q \<noteq> [] then 0 else next_task (task st x))" for x
    using d linked_head[OF l(1)] by (auto simp: blocked_dequeue_def set_next_def split: if_splits)
  have h: "h = (if Q q = [] then 0 else next_task (task st (headOf st q)))"
    using d linked_head[OF l(1)] by (auto simp: blocked_dequeue_def split: if_splits)
  show "queues_ok (headUpd q h st1) (Q(q := tl (Q q)))"
  proof (rule queues_change[OF ok])
    show "headOf (headUpd q h st1) p = headOf st p" if "p \<noteq> q" for p
      using that q f by (simp add: headOf_headUpd) (cases p; simp)
    show "next_task (task (headUpd q h st1) x) = next_task (task st x)" if "p \<noteq> q" "x \<in> set (Q p)" for p x
    proof -
      have "set (Q p) \<inter> set (Q q) = {}" using ok that(1) by (simp add: queues_ok_def)
      then have "Q q = [] \<or> x \<noteq> headOf st q" using that(2) l(1) by (cases "Q q") auto
      then show ?thesis using n by auto
    qed
    show "linked (task (headUpd q h st1)) (headOf (headUpd q h st1) q) (tl (Q q))"
    proof (cases "Q q")
      case Nil
      then show ?thesis using h q by (simp add: headOf_headUpd)
    next
      case (Cons x xs)
      then have "linked (task st) (next_task (task st x)) xs" "x \<notin> set xs" using l by simp_all
      moreover have "linked (task st1) (next_task (task st x)) xs = linked (task st) (next_task (task st x)) xs"
        using calculation(2) n Cons l(1) by (intro linked_cong) auto
      ultimately show ?thesis using h q Cons l(1) by (simp add: headOf_headUpd)
    qed
    show "distinct (tl (Q q))" using l(2) by (rule distinct_tl)
    show "set (tl (Q q)) \<inter> set (Q p) = {}" if "p \<noteq> q" for p
    proof -
      have "set (Q q) \<inter> set (Q p) = {}" using ok that by (simp add: queues_ok_def)
      then show ?thesis by (cases "Q q") auto
    qed
    show "rq_tail (headUpd q h st1) = (if (Q(q := tl (Q q))) Ready = [] then 0 else last ((Q(q := tl (Q q))) Ready))"
      using ok q f(2) by (simp add: queues_ok_def)
  qed
qed


section \<open>The ring buffer\<close>

definition ring_ok :: "VisuallChannel \<Rightarrow> 64 word list \<Rightarrow> bool" where
  "ring_ok ch buf \<longleftrightarrow> ring_count ch = int (length buf)
     \<and> (if capacity ch \<le> 0 then buf = []
        else length (ring ch) = nat (capacity ch) \<and> length buf \<le> nat (capacity ch)
          \<and> 0 \<le> ring_head ch \<and> ring_head ch < capacity ch
          \<and> ring_tail ch = (ring_head ch + int (length buf)) mod capacity ch
          \<and> (\<forall>i < length buf. ring ch ! nat ((ring_head ch + int i) mod capacity ch) = buf ! i))"

lemma ring_ok_cong: "sameRing x y \<Longrightarrow> ring_ok x buf = ring_ok y buf"
  by (simp add: ring_ok_def sameRing_def)

lemma ringWords_small: "0 < cap \<Longrightarrow> cap < 2 ^ 61 \<Longrightarrow> ringWords cap = nat cap"
  by (simp add: ringWords_def nat_mult_distrib)

lemma ring_ok_create: "cap < 2 ^ 61 \<Longrightarrow> ring_ok (chan_create cap) []"
  using ringWords_small[of cap] by (simp add: ring_ok_def chan_create_def)

lemma mod_slots:
  fixes h c :: int
  assumes "0 < c" "i < nat c" "j < nat c" "(h + int i) mod c = (h + int j) mod c"
  shows "i = j"
proof -
  have "c dvd (h + int i) - (h + int j)" using assms(4) by (simp add: mod_eq_dvd_iff)
  then have "c dvd int i - int j" by simp
  moreover have "\<bar>int i - int j\<bar> < c" using assms(1-3) by linarith
  ultimately have "int i - int j = 0" using dvd_imp_le_int[of "int i - int j" c] assms(1) by fastforce
  then show ?thesis by simp
qed

lemma ring_put_correct:
  assumes ok: "ring_ok (chan st c) buf" and room: "0 < capacity (chan st c)" "ring_count (chan st c) < capacity (chan st c)"
  obtains ch' where "ring_put c v st = okR (set_chan c ch' st)" "ring_ok ch' (buf @ [v])"
    "capacity ch' = capacity (chan st c)" "is_closed ch' = is_closed (chan st c)"
    "blocked_senders_head ch' = blocked_senders_head (chan st c)" "blocked_receivers_head ch' = blocked_receivers_head (chan st c)"
proof -
  let ?ch = "chan st c" and ?n = "length buf"
  let ?cap = "capacity ?ch"
  have ok': "ring_count ?ch = int ?n" "length (ring ?ch) = nat ?cap" "0 \<le> ring_head ?ch" "ring_head ?ch < ?cap"
    "ring_tail ?ch = (ring_head ?ch + int ?n) mod ?cap"
    "\<forall>i < ?n. ring ?ch ! nat ((ring_head ?ch + int i) mod ?cap) = buf ! i"
    using ok room(1) by (auto simp: ring_ok_def)
  have n: "?n < nat ?cap" using ok'(1) room by simp
  let ?ch' = "?ch\<lparr>ring := (ring ?ch)[nat (ring_tail ?ch) := v], ring_tail := (ring_tail ?ch + 1) mod ?cap, ring_count := ring_count ?ch + 1\<rparr>"
  have t: "0 \<le> ring_tail ?ch" "ring_tail ?ch < ?cap" using ok'(5) room(1) by simp_all
  have run: "ring_put c v st = okR (set_chan c ?ch' st)" using t ok'(2) by (simp add: ring_put_def Let_def)
  have slot: "(ring ?ch)[nat (ring_tail ?ch) := v] ! nat ((ring_head ?ch + int i) mod ?cap) = (buf @ [v]) ! i"
    if i: "i < Suc ?n" for i
  proof (cases "i = ?n")
    case True
    then show ?thesis using t ok'(2,5) by simp
  next
    case False
    then have "(ring_head ?ch + int i) mod ?cap \<noteq> (ring_head ?ch + int ?n) mod ?cap"
      using mod_slots[OF room(1), of i ?n "ring_head ?ch"] i n by auto
    moreover have "0 \<le> (ring_head ?ch + int i) mod ?cap" using room(1) by simp
    ultimately have "nat ((ring_head ?ch + int i) mod ?cap) \<noteq> nat (ring_tail ?ch)"
      using t(1) ok'(5) by (simp add: nat_eq_iff2)
    then show ?thesis using ok'(6) i False by (simp add: nth_append)
  qed
  have "(ring_tail ?ch + 1) mod ?cap = (ring_head ?ch + int (Suc ?n)) mod ?cap"
    unfolding ok'(5) by (simp add: mod_simps algebra_simps)
  then have "ring_ok ?ch' (buf @ [v])" using ok' slot n room(1) by (simp add: ring_ok_def)
  then show thesis using that[OF run] by simp
qed

lemma ring_take_correct:
  assumes ok: "ring_ok (chan st c) (v # buf)"
  obtains ch' where "ring_take c st = okR (v, set_chan c ch' st)" "ring_ok ch' buf"
    "capacity ch' = capacity (chan st c)" "is_closed ch' = is_closed (chan st c)"
    "blocked_senders_head ch' = blocked_senders_head (chan st c)" "blocked_receivers_head ch' = blocked_receivers_head (chan st c)"
proof -
  let ?ch = "chan st c"
  let ?cap = "capacity ?ch"
  have cap: "0 < ?cap" using ok by (auto simp: ring_ok_def split: if_splits)
  have ok': "ring_count ?ch = int (Suc (length buf))" "length (ring ?ch) = nat ?cap" "0 \<le> ring_head ?ch" "ring_head ?ch < ?cap"
    "ring_tail ?ch = (ring_head ?ch + int (Suc (length buf))) mod ?cap" "Suc (length buf) \<le> nat ?cap"
    "\<forall>i < Suc (length buf). ring ?ch ! nat ((ring_head ?ch + int i) mod ?cap) = (v # buf) ! i"
    using ok cap by (auto simp: ring_ok_def)
  let ?ch' = "?ch\<lparr>ring_head := (ring_head ?ch + 1) mod ?cap, ring_count := ring_count ?ch - 1\<rparr>"
  have "ring ?ch ! nat (ring_head ?ch) = v" using ok'(7)[rule_format, of 0] ok'(3,4) by simp
  then have run: "ring_take c st = okR (v, set_chan c ?ch' st)" using ok'(2-4) by (simp add: ring_take_def Let_def)
  have "ring ?ch ! nat (((ring_head ?ch + 1) mod ?cap + int i) mod ?cap) = buf ! i" if "i < length buf" for i
    using ok'(7)[rule_format, of "Suc i"] that by (simp add: mod_simps algebra_simps)
  moreover have "ring_tail ?ch = ((ring_head ?ch + 1) mod ?cap + int (length buf)) mod ?cap"
    unfolding ok'(5) by (simp add: mod_simps algebra_simps)
  ultimately have "ring_ok ?ch' buf" using ok'(1,2,6) cap by (simp add: ring_ok_def)
  then show thesis using that[OF run] by simp
qed

end
