(* ===== verification/Scheduler_Spec.thy ===== *)
theory Scheduler_Spec
  imports Scheduler_Queues
begin

text \<open>
  The contract of the scheduler: an abstract machine whose queues and buffers are lists, and the proof that the
  linked queues and ring buffers implement it under every interleaving of the locked sections of any number of
  threads. A task taken from a blocked queue is held by the thread that will make it ready, until it does.
\<close>

lemma okR_eq [simp]: "okR x = okR y \<longleftrightarrow> x = y"
  by (simp add: okR_def)

section \<open>The sections as events\<close>

type_synonym reply = "64 word option \<times> addr"

datatype event = Make addr int | Go addr | Send addr "64 word" addr addr | Recv addr addr addr
  | Again addr addr addr | Shut addr | DrainReceiver addr | DrainSender addr | Wake addr | Work

text \<open>
  Each event is the code a thread runs under one lock. The reply is the value received, if the section ends the
  call, and the task the section has taken out of a queue.
\<close>

fun exec :: "event \<Rightarrow> Sched \<Rightarrow> (reply \<times> Sched) run" where
  "exec (Make c cap) st = okR ((None, 0), set_chan c (chan_create cap) st)"
| "exec (Go t) st = okR ((None, 0), go_create t st)"
| "exec (Send c v cont e) st = bindR (sendSection c v cont e st) (\<lambda>(t, st). okR ((None, t), st))"
| "exec (Recv c cont e) st = bindR (recvSection c cont e st) (\<lambda>(v, t, st). okR ((v, t), st))"
| "exec (Again c cont e) st = bindR (recvEnd c cont e st) (\<lambda>(v, st). okR ((Some v, 0), st))"
| "exec (Shut c) st = okR ((None, 0), set_chan c ((chan st c)\<lparr>is_closed := True\<rparr>) st)"
| "exec (DrainReceiver c) st = (let (t, st) = dequeue_receiver c st in okR ((None, t), st))"
| "exec (DrainSender c) st = (let (t, st) = dequeue_sender c st in okR ((None, t), st))"
| "exec (Wake t) st = okR ((None, 0), wake t st)"
| "exec Work st = (let (t, st) = sched_dequeue st in okR ((None, t), st))"

fun execs :: "event list \<Rightarrow> Sched \<Rightarrow> (reply list \<times> Sched) run" where
  "execs [] st = okR ([], st)"
| "execs (e # es) st = bindR (exec e st) (\<lambda>(r, st). bindR (execs es st) (\<lambda>(rs, st). okR (r # rs, st)))"

section \<open>The abstract machine\<close>

record Spec =
  queue :: "qid \<Rightarrow> addr list"
  content :: "addr \<Rightarrow> 64 word list"
  limit :: "addr \<Rightarrow> int"
  shut :: "addr \<Rightarrow> bool"
  inbox :: "addr \<Rightarrow> 64 word option"
  held :: "addr set"

definition push :: "qid \<Rightarrow> addr \<Rightarrow> Spec \<Rightarrow> Spec" where
  "push q t A = A\<lparr>queue := (queue A)(q := queue A q @ [t])\<rparr>"

definition pop :: "qid \<Rightarrow> Spec \<Rightarrow> Spec" where
  "pop q A = A\<lparr>queue := (queue A)(q := tl (queue A q))\<rparr>"

definition front :: "addr list \<Rightarrow> addr" where
  "front xs = (case xs of [] \<Rightarrow> 0 | x # _ \<Rightarrow> x)"

definition hold :: "addr \<Rightarrow> Spec \<Rightarrow> Spec" where
  "hold t A = (if t = 0 then A else A\<lparr>held := insert t (held A)\<rparr>)"

definition specSend :: "addr \<Rightarrow> 64 word \<Rightarrow> addr \<Rightarrow> addr \<Rightarrow> Spec \<Rightarrow> addr \<times> Spec" where
  "specSend c v cont e A =
     (if shut A c then (0, A)
      else case queue A (Receivers c) of
        r # _ \<Rightarrow> (r, (hold r (pop (Receivers c) A))\<lparr>inbox := (inbox A)(r \<mapsto> v)\<rparr>)
      | [] \<Rightarrow> (0, if int (length (content A c)) < limit A c then A\<lparr>content := (content A)(c := content A c @ [v])\<rparr>
                 else if cont \<noteq> 0 \<and> e \<noteq> 0 then push (Senders c) e A else A))"

definition specEnd :: "addr \<Rightarrow> addr \<Rightarrow> addr \<Rightarrow> Spec \<Rightarrow> 64 word \<times> Spec" where
  "specEnd c cont e A = (case content A c of
      v # vs \<Rightarrow> (v, A\<lparr>content := (content A)(c := vs)\<rparr>)
    | [] \<Rightarrow> (0, if cont \<noteq> 0 \<and> e \<noteq> 0 then push (Receivers c) e A else A))"

definition specRecv :: "addr \<Rightarrow> addr \<Rightarrow> addr \<Rightarrow> Spec \<Rightarrow> reply \<times> Spec" where
  "specRecv c cont e A =
     (if e \<noteq> 0 \<and> inbox A e \<noteq> None then ((inbox A e, 0), A\<lparr>inbox := (inbox A)(e := None)\<rparr>)
      else case queue A (Senders c) of
        s # _ \<Rightarrow>
          let A = hold s (pop (Senders c) A)
          in (case content A c of
                v # vs \<Rightarrow> ((Some v, s), A\<lparr>content := (content A)(c := vs)\<rparr>)
              | [] \<Rightarrow> ((None, s), A))
      | [] \<Rightarrow> let (v, A) = specEnd c cont e A in ((Some v, 0), A))"

fun spec :: "event \<Rightarrow> Spec \<Rightarrow> reply \<times> Spec" where
  "spec (Make c cap) A = ((None, 0), A\<lparr>content := (content A)(c := []), limit := (limit A)(c := cap), shut := (shut A)(c := False)\<rparr>)"
| "spec (Go t) A = ((None, 0), if t = 0 then A else push Ready t (A\<lparr>inbox := (inbox A)(t := None)\<rparr>))"
| "spec (Send c v cont e) A = (let (t, A) = specSend c v cont e A in ((None, t), A))"
| "spec (Recv c cont e) A = specRecv c cont e A"
| "spec (Again c cont e) A = (let (v, A) = specEnd c cont e A in ((Some v, 0), A))"
| "spec (Shut c) A = ((None, 0), A\<lparr>shut := (shut A)(c := True)\<rparr>)"
| "spec (DrainReceiver c) A = ((None, front (queue A (Receivers c))), hold (front (queue A (Receivers c))) (pop (Receivers c) A))"
| "spec (DrainSender c) A = ((None, front (queue A (Senders c))), hold (front (queue A (Senders c))) (pop (Senders c) A))"
| "spec (Wake t) A = ((None, 0), (push Ready t A)\<lparr>held := held A - {t}\<rparr>)"
| "spec Work A = ((None, front (queue A Ready)), pop Ready A)"

text \<open>
  What the callers keep to: a channel is made at an unused address with fewer than \<^verbatim>\<open>2 ^ 61\<close> slots, a task that
  is created or blocks is not already in a queue or held, and a thread makes only those tasks ready that it
  holds.
\<close>

definition free :: "addr \<Rightarrow> Spec \<Rightarrow> bool" where
  "free t A \<longleftrightarrow> noQueue t (queue A) \<and> t \<notin> held A"

fun legal :: "event \<Rightarrow> Spec \<Rightarrow> bool" where
  "legal (Make c cap) A \<longleftrightarrow> cap < 2 ^ 61 \<and> queue A (Senders c) = [] \<and> queue A (Receivers c) = []"
| "legal (Go t) A \<longleftrightarrow> t = 0 \<or> free t A"
| "legal (Send c v cont e) A \<longleftrightarrow> (cont \<noteq> 0 \<and> e \<noteq> 0 \<longrightarrow> free e A)"
| "legal (Recv c cont e) A \<longleftrightarrow> (cont \<noteq> 0 \<and> e \<noteq> 0 \<longrightarrow> free e A)"
| "legal (Again c cont e) A \<longleftrightarrow> (cont \<noteq> 0 \<and> e \<noteq> 0 \<longrightarrow> free e A)"
| "legal (Wake t) A \<longleftrightarrow> t \<in> held A"
| "legal e A \<longleftrightarrow> True"

fun specs :: "event list \<Rightarrow> Spec \<Rightarrow> reply list \<times> Spec" where
  "specs [] A = ([], A)"
| "specs (e # es) A = (let (r, A) = spec e A; (rs, A) = specs es A in (r # rs, A))"

fun legals :: "event list \<Rightarrow> Spec \<Rightarrow> bool" where
  "legals [] A \<longleftrightarrow> True"
| "legals (e # es) A \<longleftrightarrow> legal e A \<and> legals es (snd (spec e A))"

section \<open>The relation\<close>

definition rel :: "Spec \<Rightarrow> Sched \<Rightarrow> bool" where
  "rel A st \<longleftrightarrow> queues_ok st (queue A)
     \<and> (\<forall>c. ring_ok (chan st c) (content A c) \<and> capacity (chan st c) = limit A c \<and> is_closed (chan st c) = shut A c)
     \<and> (\<forall>t. inbox A t = (if has_recv (task st t) then Some (recv_value (task st t)) else None))
     \<and> (\<forall>t \<in> held A. noQueue t (queue A))"

lemma rel_queue:
  assumes r: "rel A st" and ok: "queues_ok st' Q" and l: "onlyLinks st st'"
    and ch: "\<And>c. sameRing (chan st' c) (chan st c)" and h: "\<forall>t \<in> H. noQueue t Q"
  shows "rel (A\<lparr>queue := Q, held := H\<rparr>) st'"
proof -
  have "ring_ok (chan st' c) (content A c) \<and> capacity (chan st' c) = limit A c \<and> is_closed (chan st' c) = shut A c" for c
    using r ring_ok_cong[OF ch, of c] ch[of c] by (simp add: rel_def sameRing_def)
  then show ?thesis using r ok h onlyLinks_fields[OF l] by (simp add: rel_def)
qed

lemma sameRing_refl [simp]: "sameRing x x"
  by (simp add: sameRing_def)

lemma noQueue_push: "noQueue t Q \<Longrightarrow> t \<noteq> x \<Longrightarrow> noQueue t (Q(q := Q q @ [x]))"
  by (simp add: noQueue_def)

lemma noQueue_pop: "noQueue t Q \<Longrightarrow> noQueue t (Q(q := tl (Q q)))"
  unfolding noQueue_def by (metis fun_upd_apply list.sel(2) list.set_sel(2))

lemma front_free:
  assumes "queues_ok st Q" "Q q \<noteq> []"
  shows "noQueue (front (Q q)) (Q(q := tl (Q q)))" and "front (Q q) \<noteq> 0"
proof -
  obtain x xs where x: "Q q = x # xs" using assms(2) by (cases "Q q") auto
  have "linked (task st) (headOf st q) (Q q)" "distinct (Q q)" "\<And>p. p \<noteq> q \<Longrightarrow> set (Q q) \<inter> set (Q p) = {}"
    using assms(1) by (simp_all add: queues_ok_def)
  then show "noQueue (front (Q q)) (Q(q := tl (Q q)))" "front (Q q) \<noteq> 0" using x by (auto simp: noQueue_def front_def)
qed

lemma held_pop: "rel A st \<Longrightarrow> \<forall>t \<in> held A. noQueue t ((queue A)(q := tl (queue A q)))"
  using noQueue_pop by (auto simp: rel_def)

lemma held_hold:
  assumes "rel A st"
  shows "\<forall>t \<in> held (hold (front (queue A q)) A). noQueue t ((queue A)(q := tl (queue A q)))"
  using held_pop[OF assms, of q] front_free(1)[of st "queue A" q] assms
  by (cases "queue A q") (auto simp: hold_def rel_def front_def)

lemma rel_ready:
  assumes r: "rel A st" and t: "noQueue t (queue A)"
  shows "rel ((push Ready t A)\<lparr>held := held A - {t}\<rparr>) (sched_enqueue t st)"
proof -
  have q: "queues_ok st (queue A)" using r by (simp add: rel_def)
  note E = enqueue_correct[OF q t]
  have "\<forall>x \<in> held A - {t}. noQueue x ((queue A)(Ready := queue A Ready @ [t]))"
  proof
    fix x assume "x \<in> held A - {t}"
    then have "noQueue x (queue A)" "x \<noteq> t" using r by (simp_all add: rel_def)
    then show "noQueue x ((queue A)(Ready := queue A Ready @ [t]))" by (rule noQueue_push)
  qed
  from rel_queue[OF r E(1) E(3) _ this] show ?thesis by (simp add: push_def E(2))
qed

lemma rel_work:
  assumes r: "rel A st" and d: "sched_dequeue st = (t, st')"
  shows "t = front (queue A Ready)" and "rel (pop Ready A) st'"
proof -
  have q: "queues_ok st (queue A)" using r by (simp add: rel_def)
  note D = dequeue_correct[OF q d]
  show "t = front (queue A Ready)" using D(1) by (simp add: front_def)
  from rel_queue[OF r D(2,4) _ held_pop[OF r]] show "rel (pop Ready A) st'" by (simp add: pop_def D(3))
qed

lemma rel_blocked_pop:
  assumes r: "rel A st" and q: "q \<noteq> Ready" and d: "blocked_dequeue (headOf st q) st = (t, h, st1)"
  shows "t = front (queue A q)" and "rel (hold t (pop q A)) (headUpd q h st1)" and "chan st1 = chan st"
proof -
  have ok: "queues_ok st (queue A)" using r by (simp add: rel_def)
  note D = blocked_dequeue_correct[OF ok q d]
  show t: "t = front (queue A q)" using D(1) by (simp add: front_def)
  show "chan st1 = chan st" by (rule D(3))
  have l: "onlyLinks st (headUpd q h st1)" using D(4) by (simp add: onlyLinks_def)
  have ch: "sameRing (chan (headUpd q h st1) c) (chan st c)" for c using sameRing_headUpd[of q h st1 c] D(3) by simp
  from rel_queue[OF r D(2) l ch held_hold[OF r]] show "rel (hold t (pop q A)) (headUpd q h st1)"
    by (simp add: t hold_def pop_def split: if_splits)
qed

lemma rel_dequeue_receiver:
  assumes "rel A st" "dequeue_receiver c st = (t, st')"
  shows "t = front (queue A (Receivers c))" "rel (hold t (pop (Receivers c) A)) st'"
proof -
  obtain u h st1 where d: "blocked_dequeue (headOf st (Receivers c)) st = (u, h, st1)" by (metis surj_pair)
  have "t = u" "st' = headUpd (Receivers c) h st1" using assms(2) d by (simp_all add: dequeue_receiver_def)
  then show "t = front (queue A (Receivers c))" "rel (hold t (pop (Receivers c) A)) st'"
    using rel_blocked_pop[OF assms(1) _ d] by simp_all
qed

lemma rel_dequeue_sender:
  assumes "rel A st" "dequeue_sender c st = (t, st')"
  shows "t = front (queue A (Senders c))" "rel (hold t (pop (Senders c) A)) st'"
proof -
  obtain u h st1 where d: "blocked_dequeue (headOf st (Senders c)) st = (u, h, st1)" by (metis surj_pair)
  have "t = u" "st' = headUpd (Senders c) h st1" using assms(2) d by (simp_all add: dequeue_sender_def)
  then show "t = front (queue A (Senders c))" "rel (hold t (pop (Senders c) A)) st'"
    using rel_blocked_pop[OF assms(1) _ d] by simp_all
qed

lemma rel_block:
  assumes r: "rel A st" and t: "free t A" and q: "q \<noteq> Ready"
  obtains h st1 where "blocked_enqueue (headOf st q) t st = Some (h, st1)" "rel (push q t A) (headUpd q h st1)"
proof -
  have ok: "queues_ok st (queue A)" and n: "noQueue t (queue A)" using r t by (simp_all add: rel_def free_def)
  obtain h st1 where E: "blocked_enqueue (headOf st q) t st = Some (h, st1)" "chan st1 = chan st"
    "queues_ok (headUpd q h st1) ((queue A)(q := queue A q @ [t]))" "onlyLinks st st1"
    by (rule blocked_enqueue_correct[OF ok n q])
  have l: "onlyLinks st (headUpd q h st1)" using E(4) by (simp add: onlyLinks_def)
  have ch: "sameRing (chan (headUpd q h st1) c) (chan st c)" for c using sameRing_headUpd[of q h st1 c] E(2) by simp
  have "\<forall>x \<in> held A. noQueue x ((queue A)(q := queue A q @ [t]))"
  proof
    fix x assume "x \<in> held A"
    then have "noQueue x (queue A)" "x \<noteq> t" using r t by (auto simp: rel_def free_def)
    then show "noQueue x ((queue A)(q := queue A q @ [t]))" by (rule noQueue_push)
  qed
  from rel_queue[OF r E(3) l ch this] have "rel (push q t A) (headUpd q h st1)" by (simp add: push_def)
  then show thesis using that E(1) by blast
qed

lemma rel_enqueue_receiver:
  assumes "rel A st" "free t A"
  obtains st' where "enqueue_receiver c t st = okR st'" "rel (push (Receivers c) t A) st'"
  by (rule rel_block[OF assms, of "Receivers c"]) (auto simp: enqueue_receiver_def intro: that)

lemma rel_enqueue_sender:
  assumes "rel A st" "free t A"
  obtains st' where "enqueue_sender c t st = okR st'" "rel (push (Senders c) t A) st'"
  by (rule rel_block[OF assms, of "Senders c"]) (auto simp: enqueue_sender_def intro: that)


section \<open>Buffers and messages\<close>

lemma rel_chan:
  assumes r: "rel A st" and ok: "ring_ok ch buf"
    and heads: "blocked_senders_head ch = blocked_senders_head (chan st c)" "blocked_receivers_head ch = blocked_receivers_head (chan st c)"
  shows "rel (A\<lparr>content := (content A)(c := buf), limit := (limit A)(c := capacity ch), shut := (shut A)(c := is_closed ch)\<rparr>)
    (set_chan c ch st)"
proof -
  have q: "queues_ok st (queue A)" using r by (simp add: rel_def)
  have h: "headOf (set_chan c ch st) p = headOf st p" for p using heads by (cases p) (simp_all add: set_chan_def)
  have "queues_ok (set_chan c ch st) (queue A)" by (rule queues_same[OF q h]) (simp_all add: set_chan_def)
  then show ?thesis using r ok by (simp add: rel_def set_chan_def)
qed

lemma rel_put:
  assumes r: "rel A st" and room: "int (length (content A c)) < limit A c"
  obtains st' where "ring_put c v st = okR st'" "rel (A\<lparr>content := (content A)(c := content A c @ [v])\<rparr>) st'"
proof -
  have ok: "ring_ok (chan st c) (content A c)" and l: "capacity (chan st c) = limit A c" "is_closed (chan st c) = shut A c"
    using r by (simp_all add: rel_def)
  have n: "0 < capacity (chan st c)" "ring_count (chan st c) < capacity (chan st c)" using ok l(1) room by (simp_all add: ring_ok_def)
  obtain ch where ch: "ring_put c v st = okR (set_chan c ch st)" "ring_ok ch (content A c @ [v])"
    "capacity ch = capacity (chan st c)" "is_closed ch = is_closed (chan st c)"
    "blocked_senders_head ch = blocked_senders_head (chan st c)" "blocked_receivers_head ch = blocked_receivers_head (chan st c)"
    by (rule ring_put_correct[OF ok n])
  have same: "(limit A)(c := capacity ch) = limit A" "(shut A)(c := is_closed ch) = shut A" using ch(3,4) l by (simp_all add: fun_upd_idem)
  show thesis using that[OF ch(1)] rel_chan[OF r ch(2,5,6)] unfolding same by simp
qed

lemma rel_take:
  assumes r: "rel A st" and c: "content A c = v # vs"
  obtains st' where "ring_take c st = okR (v, st')" "rel (A\<lparr>content := (content A)(c := vs)\<rparr>) st'"
proof -
  have ok: "ring_ok (chan st c) (v # vs)" and l: "capacity (chan st c) = limit A c" "is_closed (chan st c) = shut A c"
    using r c by (simp_all add: rel_def) (metis c)
  obtain ch where ch: "ring_take c st = okR (v, set_chan c ch st)" "ring_ok ch vs"
    "capacity ch = capacity (chan st c)" "is_closed ch = is_closed (chan st c)"
    "blocked_senders_head ch = blocked_senders_head (chan st c)" "blocked_receivers_head ch = blocked_receivers_head (chan st c)"
    by (rule ring_take_correct[OF ok])
  have same: "(limit A)(c := capacity ch) = limit A" "(shut A)(c := is_closed ch) = shut A" using ch(3,4) l by (simp_all add: fun_upd_idem)
  show thesis using that[OF ch(1)] rel_chan[OF r ch(2,5,6)] unfolding same by simp
qed

lemma rel_inbox:
  assumes r: "rel A st"
  shows "rel (A\<lparr>inbox := (inbox A)(t := (if b then Some v else None))\<rparr>)
    (st\<lparr>task := (task st)(t := (task st t)\<lparr>recv_value := v, has_recv := b\<rparr>)\<rparr>)"
proof -
  let ?st = "st\<lparr>task := (task st)(t := (task st t)\<lparr>recv_value := v, has_recv := b\<rparr>)\<rparr>"
  have q: "queues_ok st (queue A)" using r by (simp add: rel_def)
  have h: "headOf ?st p = headOf st p" for p by (cases p) simp_all
  have "queues_ok ?st (queue A)" by (rule queues_same[OF q h]) simp_all
  then show ?thesis using r by (simp add: rel_def)
qed

lemma rel_count: "rel A st \<Longrightarrow> ring_count (chan st c) = int (length (content A c)) \<and> capacity (chan st c) = limit A c \<and> is_closed (chan st c) = shut A c"
  by (simp add: rel_def ring_ok_def)

section \<open>Every section implements its abstract step\<close>

lemma pop_empty: "queue A q = [] \<Longrightarrow> hold (front (queue A q)) (pop q A) = A"
  by (simp add: pop_def hold_def front_def fun_upd_idem)

lemma send_refines:
  assumes r: "rel A st" and l: "cont \<noteq> 0 \<and> e \<noteq> 0 \<longrightarrow> free e A"
  shows "\<exists>st'. sendSection c v cont e st = okR (fst (specSend c v cont e A), st') \<and> rel (snd (specSend c v cont e A)) st'"
proof (cases "shut A c")
  case True
  then show ?thesis using r rel_count[OF r, of c] by (simp add: sendSection_def specSend_def)
next
  case False
  obtain t st1 where d: "dequeue_receiver c st = (t, st1)" by fastforce
  note D = rel_dequeue_receiver[OF r d]
  show ?thesis
  proof (cases "queue A (Receivers c)")
    case (Cons x xs)
    then have t: "t = x" using D(1) by (simp add: front_def)
    have nz: "x \<noteq> 0" using front_free(2)[of st "queue A" "Receivers c"] r Cons by (simp add: rel_def front_def)
    from rel_inbox[OF D(2), of t True v] show ?thesis
      using False Cons t nz rel_count[OF r, of c]
      by (simp add: sendSection_def specSend_def d okR_def hold_def pop_def)
  next
    case Nil
    then have t: "t = 0" and r1: "rel A st1" using D pop_empty[of A "Receivers c"] by (simp_all add: front_def)
    note n = rel_count[OF r1, of c]
    consider (room) "int (length (content A c)) < limit A c"
      | (block) "\<not> int (length (content A c)) < limit A c" "cont \<noteq> 0" "e \<noteq> 0"
      | (drop) "\<not> int (length (content A c)) < limit A c" "\<not> (cont \<noteq> 0 \<and> e \<noteq> 0)" by blast
    then show ?thesis
    proof cases
      case room
      then have "0 < limit A c" using order_le_less_trans[of 0 "int (length (content A c))" "limit A c"] by simp
      moreover obtain st2 where "ring_put c v st1 = okR st2" "rel (A\<lparr>content := (content A)(c := content A c @ [v])\<rparr>) st2"
        by (rule rel_put[OF r1 room])
      ultimately show ?thesis
        using False Nil t n room rel_count[OF r, of c] by (simp add: sendSection_def specSend_def d bindR_def okR_def)
    next
      case block
      then obtain st2 where "enqueue_sender c e st1 = okR st2" "rel (push (Senders c) e A) st2"
        using rel_enqueue_sender[OF r1] l by blast
      then show ?thesis
        using False Nil t n block rel_count[OF r, of c] by (auto simp: sendSection_def specSend_def d bindR_def okR_def)
    next
      case drop
      then show ?thesis
        using False Nil t n r1 rel_count[OF r, of c] by (auto simp: sendSection_def specSend_def d okR_def)
    qed
  qed
qed

lemma end_refines:
  assumes r: "rel A st" and l: "cont \<noteq> 0 \<and> e \<noteq> 0 \<longrightarrow> free e A"
  shows "\<exists>st'. recvEnd c cont e st = okR (fst (specEnd c cont e A), st') \<and> rel (snd (specEnd c cont e A)) st'"
proof (cases "content A c")
  case (Cons v vs)
  obtain st' where "ring_take c st = okR (v, st')" "rel (A\<lparr>content := (content A)(c := vs)\<rparr>) st'" by (rule rel_take[OF r Cons])
  then show ?thesis using rel_count[OF r, of c] Cons by (simp add: recvEnd_def specEnd_def)
next
  case Nil
  show ?thesis
  proof (cases "cont \<noteq> 0 \<and> e \<noteq> 0")
    case True
    then obtain st' where "enqueue_receiver c e st = okR st'" "rel (push (Receivers c) e A) st'"
      using rel_enqueue_receiver[OF r] l by blast
    then show ?thesis using True rel_count[OF r, of c] Nil by (simp add: recvEnd_def specEnd_def bindR_def okR_def)
  next
    case False
    then show ?thesis using r rel_count[OF r, of c] Nil by (auto simp: recvEnd_def specEnd_def okR_def)
  qed
qed

lemma recv_refines:
  assumes r: "rel A st" and l: "cont \<noteq> 0 \<and> e \<noteq> 0 \<longrightarrow> free e A"
  shows "\<exists>st' v t. recvSection c cont e st = okR (v, t, st') \<and> fst (specRecv c cont e A) = (v, t) \<and> rel (snd (specRecv c cont e A)) st'"
proof (cases "e \<noteq> 0 \<and> inbox A e \<noteq> None")
  case True
  then have "has_recv (task st e)" "inbox A e = Some (recv_value (task st e))" using r by (auto simp: rel_def split: if_splits)
  moreover have "rel (A\<lparr>inbox := (inbox A)(e := None)\<rparr>)
      (st\<lparr>task := (task st)(e := (task st e)\<lparr>has_recv := False, recv_value := 0\<rparr>)\<rparr>)"
  proof -
    have eq: "(x :: VisuallTask)\<lparr>has_recv := False, recv_value := 0\<rparr> = x\<lparr>recv_value := 0, has_recv := False\<rparr>" for x
      by (cases x) simp
    from rel_inbox[OF r, of e False 0]
    have "rel (A\<lparr>inbox := (inbox A)(e := None)\<rparr>)
      (st\<lparr>task := (task st)(e := (task st e)\<lparr>recv_value := 0, has_recv := False\<rparr>)\<rparr>)" by simp
    then show ?thesis by (simp only: eq)
  qed
  ultimately show ?thesis using True by (simp add: recvSection_def specRecv_def okR_def)
next
  case False
  then have no: "\<not> (e \<noteq> 0 \<and> has_recv (task st e))" using r by (auto simp: rel_def)
  obtain t st1 where d: "dequeue_sender c st = (t, st1)" by fastforce
  note D = rel_dequeue_sender[OF r d]
  show ?thesis
  proof (cases "queue A (Senders c)")
    case (Cons x xs)
    then have t: "t = x" using D(1) by (simp add: front_def)
    have nz: "x \<noteq> 0" using front_free(2)[of st "queue A" "Senders c"] r Cons by (simp add: rel_def front_def)
    let ?A = "hold x (pop (Senders c) A)"
    have r1: "rel ?A st1" using D(2) t by simp
    have c: "content ?A c = content A c" using nz by (simp add: hold_def pop_def)
    show ?thesis
    proof (cases "content A c")
      case Nil
      then show ?thesis using no False d t nz Cons r1 rel_count[OF r1, of c] c
        by (auto simp: recvSection_def specRecv_def Let_def)
    next
      case vs: (Cons v vs)
      obtain st2 where "ring_take c st1 = okR (v, st2)" "rel (?A\<lparr>content := (content ?A)(c := vs)\<rparr>) st2"
        using rel_take[OF r1, of c v vs] vs c by auto
      then show ?thesis using no False d t nz Cons rel_count[OF r1, of c] c vs
        by (auto simp: recvSection_def specRecv_def Let_def okR_def bindR_def)
    qed
  next
    case Nil
    then have t: "t = 0" and r1: "rel A st1" using D pop_empty[of A "Senders c"] by (simp_all add: front_def)
    obtain st2 where "recvEnd c cont e st1 = okR (fst (specEnd c cont e A), st2)" "rel (snd (specEnd c cont e A)) st2"
      using end_refines[OF r1 l] by blast
    then show ?thesis using no False d t Nil
      by (auto simp: recvSection_def specRecv_def Let_def okR_def bindR_def split: prod.splits)
  qed
qed

lemma make_refines:
  assumes r: "rel A st" and l: "legal (Make c cap) A"
  shows "rel (snd (spec (Make c cap) A)) (set_chan c (chan_create cap) st)"
proof -
  have ok: "ring_ok (chan_create cap) []" using l by (intro ring_ok_create) simp
  have "linked (task st) (headOf st q) (queue A q)" for q using r by (simp add: rel_def queues_ok_def)
  from this[of "Senders c"] this[of "Receivers c"]
  have h: "blocked_senders_head (chan st c) = 0" "blocked_receivers_head (chan st c) = 0" using l by simp_all
  have "capacity (chan_create cap) = cap" "\<not> is_closed (chan_create cap)"
    "blocked_senders_head (chan_create cap) = 0" "blocked_receivers_head (chan_create cap) = 0"
    by (simp_all add: chan_create_def)
  then show ?thesis using rel_chan[OF r ok, of c] h by simp
qed

lemma go_refines:
  assumes r: "rel A st" and l: "legal (Go t) A"
  shows "rel (snd (spec (Go t) A)) (go_create t st)"
proof (cases "t = 0")
  case True
  then show ?thesis using r by (simp add: go_create_def)
next
  case False
  then have t: "free t A" using l by simp
  define s where "s = (if \<not> sched_initialised st then sched_init st else st)"
  define st1 where "st1 = s\<lparr>task := (task s)(t := (task s t)\<lparr>task_state := 0, has_recv := False, recv_value := 0, next_task := 0\<rparr>)\<rparr>"
  let ?A = "A\<lparr>inbox := (inbox A)(t := None)\<rparr>"
  have q: "queues_ok st (queue A)" and n: "noQueue t (queue A)" using r t by (simp_all add: rel_def free_def)
  have f: "task s = task st" "chan s = chan st" "rq_head s = rq_head st" "rq_tail s = rq_tail st"
    by (simp_all add: s_def sched_init_def)
  have "queues_ok st1 (queue A)"
  proof -
    have h: "headOf st1 p = headOf st p" for p by (cases p) (simp_all add: st1_def f)
    have "linked (task st1) x (queue A p) = linked (task st) x (queue A p)" for x p
      using n by (intro linked_cong) (auto simp: st1_def f noQueue_def)
    then show ?thesis using q h by (simp add: queues_ok_def st1_def f)
  qed
  then have r1: "rel ?A st1" using r by (simp add: rel_def st1_def f)
  have "noQueue t (queue ?A)" "t \<notin> held ?A" using t by (simp_all add: free_def)
  from rel_ready[OF r1 this(1)] this(2) have "rel (push Ready t ?A) (sched_enqueue t st1)" by (simp add: push_def)
  then show ?thesis using False by (simp add: go_create_def Let_def s_def st1_def)
qed

lemma exec_refines:
  assumes r: "rel A st" and l: "legal e A"
  shows "\<exists>st'. exec e st = okR (fst (spec e A), st') \<and> rel (snd (spec e A)) st'"
proof (cases e)
  case (Make c cap)
  then show ?thesis using make_refines[OF r] l by simp
next
  case (Go t)
  then show ?thesis using go_refines[OF r] l by simp
next
  case (Send c v cont t)
  then show ?thesis using send_refines[OF r, of cont t c v] l
    by (auto simp: bindR_def okR_def split: prod.splits)
next
  case (Recv c cont t)
  then show ?thesis using recv_refines[OF r, of cont t c] l
    by (auto simp: bindR_def okR_def)
next
  case (Again c cont t)
  then show ?thesis using end_refines[OF r, of cont t c] l
    by (auto simp: bindR_def okR_def split: prod.splits)
next
  case (Shut c)
  have "ring_ok ((chan st c)\<lparr>is_closed := True\<rparr>) buf = ring_ok (chan st c) buf" for buf by (simp add: ring_ok_def)
  then have ok: "ring_ok ((chan st c)\<lparr>is_closed := True\<rparr>) (content A c)" and s: "(content A)(c := content A c) = content A"
    "(limit A)(c := capacity (chan st c)) = limit A"
    using r by (simp_all add: rel_def)
  from rel_chan[OF r ok, of c] Shut s show ?thesis by simp
next
  case (DrainReceiver c)
  obtain t st1 where d: "dequeue_receiver c st = (t, st1)" by fastforce
  show ?thesis using rel_dequeue_receiver[OF r d] DrainReceiver by (simp add: d)
next
  case (DrainSender c)
  obtain t st1 where d: "dequeue_sender c st = (t, st1)" by fastforce
  show ?thesis using rel_dequeue_sender[OF r d] DrainSender by (simp add: d)
next
  case (Wake t)
  then have n: "noQueue t (queue A)" using r l by (simp add: rel_def)
  then have "wake t st = sched_enqueue t st" by (simp add: wake_def noQueue_def)
  then show ?thesis using rel_ready[OF r n] Wake by simp
next
  case Work
  obtain t st1 where d: "sched_dequeue st = (t, st1)" by fastforce
  show ?thesis using rel_work[OF r d] Work by (simp add: d)
qed

lemma execs_refine:
  "rel A st \<Longrightarrow> legals es A \<Longrightarrow> \<exists>st'. execs es st = okR (fst (specs es A), st') \<and> rel (snd (specs es A)) st'"
proof (induction es arbitrary: A st)
  case (Cons e es)
  obtain st1 where e: "exec e st = okR (fst (spec e A), st1)" "rel (snd (spec e A)) st1"
    using exec_refines[OF Cons.prems(1)] Cons.prems(2) by auto
  obtain st2 where "execs es st1 = okR (fst (specs es (snd (spec e A))), st2)" "rel (snd (specs es (snd (spec e A)))) st2"
    using Cons.IH[OF e(2)] Cons.prems(2) by auto
  then show ?case using e(1) by (auto simp: bindR_def okR_def split: prod.splits)
qed simp

end
