(* ===== verification/Scheduler_Runs.thy ===== *)
theory Scheduler_Runs
  imports Scheduler_Spec
begin

text \<open>
  What the scheduler guarantees over whole runs: the refinement from the initial state, the order in which a
  channel delivers, the progress of waiting tasks, the effect of closing, and what is left of a channel whose
  callers pass no continuation, as all generated code does.
\<close>

section \<open>Runs from the initial state\<close>

definition schedStart :: Sched where
  "schedStart = \<lparr>task = (\<lambda>_. \<lparr>fn_ptr = 0, task_env = 0, task_state = 0, recv_value = 0, has_recv = False, next_task = 0\<rparr>),
     chan = (\<lambda>_. chan_create 0), rq_head = 0, rq_tail = 0, sched_initialised = False\<rparr>"

definition specStart :: Spec where
  "specStart = \<lparr>queue = (\<lambda>_. []), content = (\<lambda>_. []), limit = (\<lambda>_. 0), shut = (\<lambda>_. False), inbox = (\<lambda>_. None), held = {}\<rparr>"

lemma headOf_start: "headOf schedStart q = 0"
  by (cases q) (simp_all add: schedStart_def chan_create_def)

lemma rel_start: "rel specStart schedStart"
proof -
  have "queues_ok schedStart (\<lambda>_. [])" by (simp add: queues_ok_def headOf_start) (simp add: schedStart_def)
  moreover have "ring_ok (chan_create 0) []" by (rule ring_ok_create) simp
  ultimately show ?thesis by (simp add: rel_def specStart_def schedStart_def) (simp add: chan_create_def)
qed

lemma rel_linked: "rel A st \<Longrightarrow> linked (task st) (headOf st q) (queue A q)"
  unfolding rel_def queues_ok_def by blast

lemma sched_run: "legals es specStart \<Longrightarrow> execs es schedStart = okR (rs, st) \<Longrightarrow> rel (snd (specs es specStart)) st"
  using execs_refine[OF rel_start, of es] by auto

text \<open>
  C26. Whatever threads do and however their locked sections interleave, as long as no task is created, blocked or
  woken that is already in a queue, the scheduler behaves like an abstract machine of plain lists: every section
  ends without leaving a buffer and without walking in circles, gives the machine's reply, and afterwards the
  ready queue, both blocked queues of every channel and every ring buffer represent the machine's lists, so that
  no task or buffered value is lost, doubled or moved to another queue.
\<close>

theorem sched_refines:
  assumes "legals es specStart"
  shows "\<exists>st'. execs es schedStart = okR (fst (specs es specStart), st') \<and> rel (snd (specs es specStart)) st'"
  by (rule execs_refine[OF rel_start assms])

definition handover :: "event list" where
  "handover = [Make 0x10 0, Go 0x20, Work, Recv 0x10 1 0x20, Send 0x10 7 0 0, Wake 0x20, Work, Recv 0x10 1 0x20]"

theorem sched_refines_witness:
  "legals handover specStart \<and> (\<exists>st'. execs handover schedStart
     = okR ([(None, 0), (None, 0), (None, 0x20), (Some 0, 0), (None, 0x20), (None, 0), (None, 0x20), (Some 7, 0)], st'))"
proof -
  have l: "legals handover specStart"
    by (simp add: handover_def specStart_def free_def noQueue_def push_def pop_def hold_def specRecv_def specEnd_def
        specSend_def front_def)
  have "fst (specs handover specStart)
    = [(None, 0), (None, 0), (None, 0x20), (Some 0, 0), (None, 0x20), (None, 0), (None, 0x20), (Some 7, 0)]"
    by (simp add: handover_def specStart_def push_def pop_def hold_def specRecv_def specEnd_def specSend_def front_def)
  then show ?thesis using sched_refines[OF l] l by auto
qed

section \<open>The order of delivery\<close>

definition accepts :: "addr \<Rightarrow> Sched \<Rightarrow> bool" where
  "accepts c st \<longleftrightarrow> \<not> is_closed (chan st c)
     \<and> (blocked_receivers_head (chan st c) \<noteq> 0 \<or> ring_count (chan st c) < capacity (chan st c))"

text \<open>
  The values an event puts into a channel, and those it takes out: a value handed to a waiting receiver, or taken
  from the buffer.
\<close>

fun sentBy :: "addr \<Rightarrow> event \<Rightarrow> Sched \<Rightarrow> 64 word list" where
  "sentBy c (Send d v cont e) st = (if d = c \<and> accepts c st then [v] else [])"
| "sentBy c e st = []"

fun gotBy :: "addr \<Rightarrow> event \<Rightarrow> reply \<Rightarrow> Sched \<Rightarrow> 64 word list" where
  "gotBy c (Send d v cont e) r st = (if d = c \<and> accepts c st \<and> snd r \<noteq> 0 then [v] else [])"
| "gotBy c (Recv d cont e) r st =
     (if d = c \<and> \<not> (e \<noteq> 0 \<and> has_recv (task st e)) \<and> ring_count (chan st c) > 0 then [the (fst r)] else [])"
| "gotBy c (Again d cont e) r st = (if d = c \<and> ring_count (chan st c) > 0 then [the (fst r)] else [])"
| "gotBy c e r st = []"

fun sent :: "addr \<Rightarrow> event list \<Rightarrow> Sched \<Rightarrow> 64 word list" where
  "sent c [] st = []"
| "sent c (e # es) st = (case exec e st of Some (Inr (r, st')) \<Rightarrow> sentBy c e st @ sent c es st' | _ \<Rightarrow> [])"

fun got :: "addr \<Rightarrow> event list \<Rightarrow> Sched \<Rightarrow> 64 word list" where
  "got c [] st = []"
| "got c (e # es) st = (case exec e st of Some (Inr (r, st')) \<Rightarrow> gotBy c e r st @ got c es st' | _ \<Rightarrow> [])"

definition ringContents :: "VisuallChannel \<Rightarrow> 64 word list" where
  "ringContents ch = map (\<lambda>i. ring ch ! nat ((ring_head ch + int i) mod capacity ch)) [0..<nat (ring_count ch)]"

lemma ring_contents: "ring_ok ch buf \<Longrightarrow> ringContents ch = buf"
  unfolding ring_ok_def ringContents_def by (auto intro!: nth_equalityI split: if_splits)

text \<open>While receivers wait on a channel, its buffer is empty.\<close>

definition settled :: "addr \<Rightarrow> Spec \<Rightarrow> bool" where
  "settled c A \<longleftrightarrow> queue A (Receivers c) = [] \<or> content A c = []"

lemma accepts_rel:
  assumes "rel A st"
  shows "accepts c st \<longleftrightarrow> \<not> shut A c \<and> (queue A (Receivers c) \<noteq> [] \<or> int (length (content A c)) < limit A c)"
proof -
  show ?thesis using linked_head[OF rel_linked[OF assms, of "Receivers c"]] rel_count[OF assms, of c]
    by (auto simp: accepts_def)
qed

lemma settled_step:
  assumes "settled c A" "\<forall>cap. e \<noteq> Make c cap"
  shows "settled c (snd (spec e A))"
  using assms
  by (cases e) (auto simp: settled_def push_def pop_def hold_def specSend_def specRecv_def specEnd_def Let_def
      split: list.splits prod.splits)

lemma order_step:
  assumes r: "rel A st" and s: "settled c A" and m: "\<forall>cap. e \<noteq> Make c cap"
  shows "content A c @ sentBy c e st = gotBy c e (fst (spec e A)) st @ content (snd (spec e A)) c"
proof (cases e)
  case (Send d v cont t)
  have "front (queue A (Receivers c)) \<noteq> 0" if "queue A (Receivers c) \<noteq> []"
    using front_free(2)[of st "queue A" "Receivers c"] r that by (simp add: rel_def)
  then show ?thesis using s Send accepts_rel[OF r, of c]
    by (auto simp: settled_def specSend_def push_def pop_def hold_def front_def split: list.splits)
next
  case (Recv d cont t)
  have "ring_count (chan st c) > 0 \<longleftrightarrow> content A c \<noteq> []" using rel_count[OF r, of c] by simp
  moreover have "inbox A t \<noteq> None \<longleftrightarrow> has_recv (task st t)" using r by (simp add: rel_def)
  ultimately show ?thesis using Recv
    by (auto simp: specRecv_def specEnd_def push_def pop_def hold_def Let_def split: list.splits)
next
  case (Again d cont t)
  have "ring_count (chan st c) > 0 \<longleftrightarrow> content A c \<noteq> []" using rel_count[OF r, of c] by simp
  then show ?thesis using Again by (auto simp: specEnd_def push_def split: list.splits)
qed (use m in \<open>auto simp: push_def pop_def hold_def\<close>)

lemma order_run:
  "rel A st \<Longrightarrow> legals es A \<Longrightarrow> settled c A \<Longrightarrow> \<forall>cap. Make c cap \<notin> set es \<Longrightarrow>
     \<exists>rs st'. execs es st = okR (rs, st') \<and> content A c @ sent c es st = got c es st @ ringContents (chan st' c)"
proof (induction es arbitrary: A st)
  case Nil
  then have "ring_ok (chan st c) (content A c)" by (simp add: rel_def)
  then show ?case by (simp add: ring_contents)
next
  case (Cons e es)
  let ?A = "snd (spec e A)"
  have m: "\<forall>cap. e \<noteq> Make c cap" "\<forall>cap. Make c cap \<notin> set es" using Cons.prems(4) by auto
  obtain st1 where st1: "exec e st = okR (fst (spec e A), st1)" "rel ?A st1"
    using exec_refines[OF Cons.prems(1)] Cons.prems(2) by auto
  obtain rs st' where st': "execs es st1 = okR (rs, st')" "content ?A c @ sent c es st1 = got c es st1 @ ringContents (chan st' c)"
    using Cons.IH[OF st1(2) _ settled_step[OF Cons.prems(3) m(1)] m(2)] Cons.prems(2) by auto
  have "execs (e # es) st = okR (fst (spec e A) # rs, st')" using st1(1) st'(1) by (simp add: bindR_def okR_def)
  moreover have "content A c @ sent c (e # es) st = got c (e # es) st @ ringContents (chan st' c)"
  proof -
    have "content A c @ sent c (e # es) st = (content A c @ sentBy c e st) @ sent c es st1" using st1(1) by (simp add: okR_def)
    also have "\<dots> = gotBy c e (fst (spec e A)) st @ (content ?A c @ sent c es st1)"
      by (simp add: order_step[OF Cons.prems(1,3) m(1)])
    also have "\<dots> = got c (e # es) st @ ringContents (chan st' c)" using st1(1) st'(2) by (simp add: okR_def)
    finally show ?thesis .
  qed
  ultimately show ?case by blast
qed

lemma legals_append: "legals (xs @ ys) A \<longleftrightarrow> legals xs A \<and> legals ys (snd (specs xs A))"
  by (induction xs arbitrary: A) (auto split: prod.splits)

text \<open>
  C27. From its creation on, in every interleaving of senders, receivers and the closing thread, a channel
  delivers the values it accepts in the order in which it accepts them, each exactly once: the values accepted so
  far are those delivered, whether handed over directly or through the buffer, followed by those still in the
  ring buffer, read from its head.
\<close>

theorem channel_fifo:
  assumes "legals (pre @ Make c cap # es) specStart" "\<forall>cap'. Make c cap' \<notin> set es"
  shows "\<exists>rs0 st0 rs st. execs (pre @ [Make c cap]) schedStart = okR (rs0, st0) \<and> execs es st0 = okR (rs, st)
    \<and> sent c es st0 = got c es st0 @ ringContents (chan st c)"
proof -
  let ?A = "snd (specs (pre @ [Make c cap]) specStart)"
  have l: "legals (pre @ [Make c cap]) specStart" "legals es ?A"
    using assms(1) legals_append[of "pre @ [Make c cap]" es specStart] by simp_all
  obtain st0 where st0: "execs (pre @ [Make c cap]) schedStart = okR (fst (specs (pre @ [Make c cap]) specStart), st0)" "rel ?A st0"
    using execs_refine[OF rel_start l(1)] by blast
  have app: "snd (specs (xs @ [e]) A) = snd (spec e (snd (specs xs A)))" for xs e A
    by (induction xs arbitrary: A) (simp_all add: split_beta Let_def)
  have c: "content ?A c = []" by (simp add: app)
  then have "settled c ?A" by (simp add: settled_def)
  from order_run[OF st0(2) l(2) this assms(2)] st0(1) c show ?thesis by auto
qed


definition threeValues :: "event list" where
  "threeValues = [Recv 0x10 1 0x20, Send 0x10 7 0 0, Send 0x10 8 0 0, Send 0x10 9 0 0, Wake 0x20, Work,
     Recv 0x10 1 0x20, Recv 0x10 1 0x20]"

theorem channel_fifo_witness:
  "\<exists>st0 rs st. execs threeValues st0 = okR (rs, st) \<and> sent 0x10 threeValues st0 = got 0x10 threeValues st0 @ ringContents (chan st 0x10)
     \<and> legals ([Go 0x20, Work] @ Make 0x10 1 # threeValues) specStart"
proof -
  have l: "legals ([Go 0x20, Work] @ Make 0x10 1 # threeValues) specStart"
    by (simp add: threeValues_def specStart_def free_def noQueue_def push_def pop_def hold_def specRecv_def specEnd_def
        specSend_def front_def)
  have m: "\<forall>cap'. Make 0x10 cap' \<notin> set threeValues" by (simp add: threeValues_def)
  show ?thesis using channel_fifo[OF l m] l by blast
qed

section \<open>Progress\<close>

text \<open>
  An endless run: the events of all threads in the order in which they take their locks, with the abstract states
  they pass through. It is fair if the workers keep asking for tasks and no thread stops between taking a task
  out of a blocked queue and making it ready.
\<close>

definition runs :: "(nat \<Rightarrow> event) \<Rightarrow> (nat \<Rightarrow> Spec) \<Rightarrow> (nat \<Rightarrow> Sched) \<Rightarrow> bool" where
  "runs E A S \<longleftrightarrow> A 0 = specStart \<and> S 0 = schedStart
     \<and> (\<forall>i. legal (E i) (A i) \<and> A (Suc i) = snd (spec (E i) (A i)) \<and> (\<exists>r. exec (E i) (S i) = okR (r, S (Suc i))))"

definition fair :: "(nat \<Rightarrow> event) \<Rightarrow> (nat \<Rightarrow> Spec) \<Rightarrow> bool" where
  "fair E A \<longleftrightarrow> (\<forall>i. \<exists>j\<ge>i. E j = Work) \<and> (\<forall>i. \<forall>t \<in> held (A i). \<exists>j\<ge>i. E j = Wake t)"

lemma runs_rel: "runs E A S \<Longrightarrow> rel (A i) (S i)"
proof (induction i)
  case 0
  then show ?case by (simp add: runs_def rel_start)
next
  case (Suc i)
  then have "legal (E i) (A i)" and A: "A (Suc i) = snd (spec (E i) (A i))" and "\<exists>r. exec (E i) (S i) = okR (r, S (Suc i))"
    by (simp_all add: runs_def)
  then obtain st' r where "exec (E i) (S i) = okR (r, st')" "rel (snd (spec (E i) (A i))) st'" "exec (E i) (S i) = okR (r, S (Suc i))"
    using exec_refines[OF Suc.IH[OF Suc.prems], of "E i"] by auto
  then show ?case using A by simp
qed

lemma ready_grows:
  assumes "e \<noteq> Work"
  shows "\<exists>zs. queue (snd (spec e A)) Ready = queue A Ready @ zs"
  using assms
  by (cases e) (auto simp: push_def pop_def hold_def specSend_def specRecv_def specEnd_def Let_def split: list.splits)

lemma ready_until:
  assumes "runs E A S" "\<forall>k. i \<le> k \<and> k < j \<longrightarrow> E k \<noteq> Work" "i \<le> j"
  shows "\<exists>zs. queue (A j) Ready = queue (A i) Ready @ zs"
  using assms(3,2)
proof (induction j rule: dec_induct)
  case (step j)
  then obtain zs where "queue (A j) Ready = queue (A i) Ready @ zs" by auto
  moreover have "E j \<noteq> Work" using step.prems step.hyps by auto
  then obtain ys where "queue (snd (spec (E j) (A j))) Ready = queue (A j) Ready @ ys" using ready_grows by blast
  moreover have "A (Suc j) = snd (spec (E j) (A j))" using assms(1) by (simp add: runs_def)
  ultimately show ?case by simp
qed simp

lemma next_work:
  assumes "runs E A S" "fair E A"
  obtains j zs where "i \<le> j" "E j = Work" "queue (A j) Ready = queue (A i) Ready @ zs"
proof -
  obtain j0 where "i \<le> j0 \<and> E j0 = Work" using assms(2) unfolding fair_def by blast
  then obtain j where j: "i \<le> j \<and> E j = Work" "\<forall>k. k < j \<longrightarrow> \<not> (i \<le> k \<and> E k = Work)"
    using exists_least_iff[of "\<lambda>j. i \<le> j \<and> E j = Work"] by blast
  then show thesis using ready_until[OF assms(1), of i j] that by blast
qed

lemma served_at:
  "runs E A S \<Longrightarrow> fair E A \<Longrightarrow> queue (A i) Ready = xs @ t # ys \<Longrightarrow> \<exists>j\<ge>i. E j = Work \<and> fst (sched_dequeue (S j)) = t"
proof (induction xs arbitrary: i ys)
  case Nil
  obtain j zs where j: "i \<le> j" "E j = Work" "queue (A j) Ready = queue (A i) Ready @ zs" by (rule next_work[OF Nil(1,2)])
  obtain u st where "sched_dequeue (S j) = (u, st)" by fastforce
  moreover from this have "u = t" using rel_work(1)[OF runs_rel[OF Nil(1), of j]] j(3) Nil(3) by (simp add: front_def)
  ultimately have "fst (sched_dequeue (S j)) = t" by simp
  then show ?case using j(1,2) by blast
next
  case (Cons x xs)
  obtain j zs where j: "i \<le> j" "E j = Work" "queue (A j) Ready = queue (A i) Ready @ zs" by (rule next_work[OF Cons.prems(1,2)])
  have "A (Suc j) = pop Ready (A j)" using Cons.prems(1) j(2) by (simp add: runs_def)
  then have "queue (A (Suc j)) Ready = xs @ t # (ys @ zs)" using j(3) Cons.prems(3) by (simp add: pop_def)
  then obtain k where k: "Suc j \<le> k" "E k = Work" "fst (sched_dequeue (S k)) = t"
    using Cons.IH[OF Cons.prems(1,2)] by blast
  have "i \<le> k" using j(1) k(1) by simp
  then show ?case using k(2,3) by blast
qed

text \<open>
  C28. In a fair run every task that is in the ready queue, or that some thread has taken out of a blocked queue to
  make it ready, is at some later moment the task that a worker takes from the queue: no task starves behind
  others.
\<close>

theorem ready_served:
  assumes "runs E A S" "fair E A" "t \<in> set (queue (A i) Ready) \<or> t \<in> held (A i)"
  shows "\<exists>j\<ge>i. E j = Work \<and> fst (sched_dequeue (S j)) = t"
proof -
  obtain k where k: "i \<le> k" "t \<in> set (queue (A k) Ready)"
  proof (cases "t \<in> set (queue (A i) Ready)")
    case False
    then have "t \<in> held (A i)" using assms(3) by simp
    then obtain k where "i \<le> k" "E k = Wake t" using assms(2) unfolding fair_def by blast
    moreover from this have "A (Suc k) = (push Ready t (A k))\<lparr>held := held (A k) - {t}\<rparr>" using assms(1) by (simp add: runs_def)
    ultimately show thesis using that[of "Suc k"] by (simp add: push_def)
  qed (use that in blast)
  then obtain xs ys where "queue (A k) Ready = xs @ t # ys" by (meson split_list)
  then obtain j where j: "k \<le> j" "E j = Work" "fst (sched_dequeue (S j)) = t" using served_at[OF assms(1,2)] by blast
  have "i \<le> j" using k(1) j(1) by simp
  then show ?thesis using j(2,3) by blast
qed

lemma runs_exist:
  assumes "A 0 = specStart" "\<forall>i. legal (E i) (A i) \<and> A (Suc i) = snd (spec (E i) (A i))"
  shows "\<exists>S. runs E A S"
proof -
  define S where "S = rec_nat schedStart (\<lambda>i st. case exec (E i) st of Some (Inr (r, st')) \<Rightarrow> st' | _ \<Rightarrow> st)"
  have S: "rel (A i) (S i)" for i
  proof (induction i)
    case 0
    then show ?case using assms(1) by (simp add: S_def rel_start)
  next
    case (Suc i)
    then obtain st' where "exec (E i) (S i) = okR (fst (spec (E i) (A i)), st')" "rel (A (Suc i)) st'"
      using exec_refines[of "A i" "S i" "E i"] assms(2) by auto
    then show ?case by (simp add: S_def okR_def)
  qed
  have "\<exists>r. exec (E i) (S i) = okR (r, S (Suc i))" for i
    using exec_refines[OF S, of "E i" i] assms(2) by (auto simp: S_def okR_def)
  then show ?thesis using assms by (intro exI[of _ S]) (simp add: runs_def S_def)
qed

theorem ready_served_witness:
  "\<exists>E A S. runs E A S \<and> fair E A \<and> 0x20 \<in> set (queue (A 1) Ready) \<and> (\<exists>j\<ge>1. E j = Work \<and> fst (sched_dequeue (S j)) = 0x20)"
proof -
  define E where "E = (\<lambda>i::nat. if i = 0 then Go 0x20 else Work)"
  define A where "A = rec_nat specStart (\<lambda>i A. snd (spec (E i) A))"
  have A: "A 0 = specStart" "A (Suc i) = snd (spec (E i) (A i))" for i by (simp_all add: A_def)
  have "legal (E i) (A i)" for i by (simp add: E_def A(1) specStart_def free_def noQueue_def)
  then obtain S where S: "runs E A S" using runs_exist[of A E] A by blast
  have "held (A i) = {}" for i
    by (induction i) (simp_all add: A E_def specStart_def push_def pop_def)
  moreover have "\<exists>j\<ge>i. E j = Work" for i by (rule exI[of _ "Suc i"]) (simp add: E_def)
  ultimately have f: "fair E A" by (simp add: fair_def)
  have "0x20 \<in> set (queue (A 1) Ready)" using A(2)[of 0] by (simp add: A(1) E_def push_def)
  moreover from this have "\<exists>j\<ge>1. E j = Work \<and> fst (sched_dequeue (S j)) = 0x20" using ready_served[OF S f] by blast
  ultimately show ?thesis using S f by blast
qed


section \<open>Closing\<close>

text \<open>
  The two loops of closing differ only in the queue they empty: a loop that takes the front of one queue and makes
  it ready, until the queue is empty.
\<close>

locale draining =
  fixes deq :: "Sched \<Rightarrow> addr \<times> Sched" and W :: "Sched \<Rightarrow> Sched option" and q :: qid
  assumes W: "W st = (let (t, st) = deq st in if t = 0 then Some st else W (sched_enqueue t st))"
    and deq: "rel A st \<Longrightarrow> deq st = (t, st') \<Longrightarrow> t = front (queue A q) \<and> rel (hold t (pop q A)) st'"
    and q: "q \<noteq> Ready"
begin

lemma drains:
  "rel A st \<Longrightarrow> \<exists>st'. W st = Some st' \<and> rel (A\<lparr>queue := (queue A)(q := [], Ready := queue A Ready @ queue A q)\<rparr>) st'"
proof (induction "queue A q" arbitrary: A st)
  case Nil
  obtain t st1 where d: "deq st = (t, st1)" by fastforce
  have D: "t = front (queue A q)" "rel (hold t (pop q A)) st1" using deq[OF Nil.prems d] by blast+
  then have "t = 0" "rel A st1" using Nil.hyps pop_empty[of A q] by (simp_all add: front_def)
  moreover have "A\<lparr>queue := (queue A)(q := [], Ready := queue A Ready @ queue A q)\<rparr> = A"
    using Nil.hyps by (simp add: fun_upd_idem)
  ultimately show ?case by (subst W) (simp add: d)
next
  case (Cons x xs)
  obtain t st1 where d: "deq st = (t, st1)" by fastforce
  have D: "t = front (queue A q)" "rel (hold t (pop q A)) st1" using deq[OF Cons.prems d] by blast+
  have ok: "queues_ok st (queue A)" and held: "\<forall>y \<in> held A. noQueue y (queue A)" using Cons.prems by (simp_all add: rel_def)
  have x: "queue A q = x # xs" using Cons.hyps(2) by simp
  then have "x \<in> set (queue A q)" by simp
  then have "x \<notin> held A" using held unfolding noQueue_def by blast
  with x have t: "t = x" "x \<noteq> 0" "noQueue x ((queue A)(q := xs))" "x \<notin> held A"
    using D(1) front_free[OF ok, of q] by (simp_all add: front_def)
  let ?A = "A\<lparr>queue := (queue A)(q := xs, Ready := queue A Ready @ [x])\<rparr>"
  have "noQueue t (queue (hold t (pop q A)))" using t x by (simp add: hold_def pop_def)
  from rel_ready[OF D(2) this] have "rel ?A (sched_enqueue t st1)"
    using t x q by (simp add: push_def hold_def pop_def Diff_insert0)
  moreover have "xs = queue ?A q" using q by simp
  ultimately obtain st' where "W (sched_enqueue t st1) = Some st'"
    "rel (?A\<lparr>queue := (queue ?A)(q := [], Ready := queue ?A Ready @ queue ?A q)\<rparr>) st'"
    using Cons.hyps(1) by blast
  moreover have "(queue ?A)(q := [], Ready := queue ?A Ready @ queue ?A q) = (queue A)(q := [], Ready := queue A Ready @ queue A q)"
    using x q by (auto simp: fun_eq_iff)
  ultimately show ?case using t by (subst W) (simp add: d)
qed

end

interpretation receivers: draining "dequeue_receiver c" "wakeReceivers c" "Receivers c" for c
  by unfold_locales (simp_all add: wakeReceivers.simps[of c] rel_dequeue_receiver)

interpretation senders: draining "dequeue_sender c" "wakeSenders c" "Senders c" for c
  by unfold_locales (simp_all add: wakeSenders.simps[of c] rel_dequeue_sender)

text \<open>
  Closing a channel ends after finitely many steps and makes every task that waits on it ready: the tasks that
  wait to receive and then those that wait to send, each in the order in which they blocked, are appended to the
  ready queue, both blocked queues of the channel are empty, and nothing else is changed but the mark of the
  channel as closed.
\<close>

theorem close_wakes:
  assumes "legals es specStart" "execs es schedStart = okR (rs, st)" "c \<noteq> 0"
  defines "A \<equiv> snd (specs es specStart)"
  shows "\<exists>st'. chan_close c st = Some st' \<and> blocked_senders_head (chan st' c) = 0
    \<and> blocked_receivers_head (chan st' c) = 0 \<and> is_closed (chan st' c)
    \<and> rel (A\<lparr>shut := (shut A)(c := True), queue := (queue A)(Receivers c := [], Senders c := [],
                Ready := queue A Ready @ queue A (Receivers c) @ queue A (Senders c))\<rparr>) st'"
proof -
  have r: "rel A st" unfolding A_def by (rule sched_run[OF assms(1,2)])
  let ?A = "A\<lparr>shut := (shut A)(c := True)\<rparr>" and ?st = "set_chan c ((chan st c)\<lparr>is_closed := True\<rparr>) st"
  have "rel ?A ?st" using exec_refines[OF r, of "Shut c"] by simp
  then obtain st1 where st1: "wakeReceivers c ?st = Some st1"
    "rel (?A\<lparr>queue := (queue ?A)(Receivers c := [], Ready := queue ?A Ready @ queue ?A (Receivers c))\<rparr>) st1"
    using receivers.drains by blast
  then obtain st2 where st2: "wakeSenders c st1 = Some st2"
    "rel (?A\<lparr>queue := ((queue ?A)(Receivers c := [], Ready := queue ?A Ready @ queue ?A (Receivers c)))
       (Senders c := [], Ready := (queue ?A Ready @ queue ?A (Receivers c)) @ queue ?A (Senders c))\<rparr>) st2"
    using senders.drains[OF st1(2), of c] by auto
  let ?B = "A\<lparr>shut := (shut A)(c := True), queue := (queue A)(Receivers c := [], Senders c := [],
                Ready := queue A Ready @ queue A (Receivers c) @ queue A (Senders c))\<rparr>"
  have "((queue A)(Receivers c := [], Ready := queue A Ready @ queue A (Receivers c)))
       (Senders c := [], Ready := (queue A Ready @ queue A (Receivers c)) @ queue A (Senders c))
    = (queue A)(Receivers c := [], Senders c := [], Ready := queue A Ready @ queue A (Receivers c) @ queue A (Senders c))"
    by (auto simp: fun_eq_iff)
  then have B: "rel ?B st2" using st2(2) by simp
  from rel_linked[OF B, of "Senders c"] rel_linked[OF B, of "Receivers c"]
  have h: "blocked_senders_head (chan st2 c) = 0" "blocked_receivers_head (chan st2 c) = 0" by simp_all
  have "is_closed (chan st2 c)" using rel_count[OF B, of c] by simp
  then show ?thesis using h B st1(1) st2(1) assms(3) by (simp add: chan_close_def)
qed

definition twoWaiting :: "event list" where
  "twoWaiting = [Make 0x10 0, Go 0x20, Go 0x30, Work, Work, Recv 0x10 1 0x30, Recv 0x10 1 0x20]"

theorem close_wakes_witness:
  "\<exists>rs st st'. legals twoWaiting specStart \<and> execs twoWaiting schedStart = okR (rs, st) \<and> chan_close 0x10 st = Some st'
     \<and> rq_head st' = 0x30 \<and> blocked_receivers_head (chan st' 0x10) = 0"
proof -
  have l: "legals twoWaiting specStart"
    by (simp add: twoWaiting_def specStart_def free_def noQueue_def push_def pop_def hold_def specRecv_def specEnd_def front_def)
  have q: "queue (snd (specs twoWaiting specStart)) Ready = []" "queue (snd (specs twoWaiting specStart)) (Receivers 0x10) = [0x30, 0x20]"
    by (simp_all add: twoWaiting_def specStart_def push_def pop_def hold_def specRecv_def specEnd_def front_def)
  obtain rs st where st: "execs twoWaiting schedStart = okR (rs, st)" using execs_refine[OF rel_start l] by blast
  let ?A = "snd (specs twoWaiting specStart)"
  obtain st' where st': "chan_close 0x10 st = Some st'" "blocked_receivers_head (chan st' 0x10) = 0"
    "rel (?A\<lparr>shut := (shut ?A)(0x10 := True), queue := (queue ?A)(Receivers 0x10 := [], Senders 0x10 := [],
       Ready := queue ?A Ready @ queue ?A (Receivers 0x10) @ queue ?A (Senders 0x10))\<rparr>) st'"
    using close_wakes[OF l st, of "0x10"] by auto
  have "rq_head st' = 0x30" using rel_linked[OF st'(3), of Ready] q by simp
  then show ?thesis using l st st'(1,2) by blast
qed

section \<open>Channels without continuations\<close>

text \<open>
  Calls of one channel with null continuations: a value to send, or a receive.
\<close>

fun nullCalls :: "addr \<Rightarrow> 64 word option list \<Rightarrow> Sched \<Rightarrow> (64 word list \<times> Sched) run" where
  "nullCalls c [] st = okR ([], st)"
| "nullCalls c (Some v # xs) st = bindR (chan_send c v 0 0 st) (nullCalls c xs)"
| "nullCalls c (None # xs) st = bindR (chan_recv c 0 0 st) (\<lambda>(v, st). bindR (nullCalls c xs st) (\<lambda>(vs, st). okR (v # vs, st)))"

text \<open>A queue of bounded length that drops what does not fit and answers 0 when it is empty.\<close>

fun lossy :: "int \<Rightarrow> 64 word list \<Rightarrow> 64 word option list \<Rightarrow> 64 word list" where
  "lossy cap q [] = []"
| "lossy cap q (Some v # xs) = lossy cap (if int (length q) < cap then q @ [v] else q) xs"
| "lossy cap q (None # xs) = (case q of [] \<Rightarrow> 0 # lossy cap [] xs | v # vs \<Rightarrow> v # lossy cap vs xs)"

lemma null_send:
  assumes r: "rel A st" and c: "c \<noteq> 0" and A: "\<not> shut A c" "queue A (Receivers c) = []"
  shows "\<exists>st'. chan_send c v 0 0 st = okR st'
    \<and> rel (if int (length (content A c)) < limit A c then A\<lparr>content := (content A)(c := content A c @ [v])\<rparr> else A) st'"
  using send_refines[OF r, of 0 0 c v] c A by (auto simp: chan_send_def specSend_def wake_def bindR_def okR_def)

lemma null_recv:
  assumes r: "rel A st" and c: "c \<noteq> 0" and A: "queue A (Senders c) = []"
  shows "\<exists>st'. chan_recv c 0 0 st = okR (front (map id (content A c)), st')
    \<and> rel (A\<lparr>content := (content A)(c := tl (content A c))\<rparr>) st'"
  using recv_refines[OF r, of 0 0 c] c A
  by (auto simp: chan_recv_def specRecv_def specEnd_def wake_def bindR_def okR_def front_def Let_def fun_upd_idem
      split: list.splits)

lemma null_calls:
  "rel A st \<Longrightarrow> c \<noteq> 0 \<Longrightarrow> \<not> shut A c \<Longrightarrow> queue A (Receivers c) = [] \<Longrightarrow> queue A (Senders c) = [] \<Longrightarrow>
     \<exists>st'. nullCalls c xs st = okR (lossy (limit A c) (content A c) xs, st')"
proof (induction xs arbitrary: A st)
  case (Cons x xs)
  show ?case
  proof (cases x)
    case (Some v)
    let ?A = "if int (length (content A c)) < limit A c then A\<lparr>content := (content A)(c := content A c @ [v])\<rparr> else A"
    obtain st1 where st1: "chan_send c v 0 0 st = okR st1" "rel ?A st1" using null_send[OF Cons.prems(1-4)] by blast
    have "\<exists>st'. nullCalls c xs st1 = okR (lossy (limit ?A c) (content ?A c) xs, st')"
      using Cons.prems by (intro Cons.IH[OF st1(2)]) simp_all
    then show ?thesis using st1(1) Some by (simp add: bindR_def okR_def split: if_splits)
  next
    case None
    let ?A = "A\<lparr>content := (content A)(c := tl (content A c))\<rparr>"
    obtain st1 where st1: "chan_recv c 0 0 st = okR (front (map id (content A c)), st1)" "rel ?A st1"
      using null_recv[OF Cons.prems(1,2,5)] by blast
    have "\<exists>st'. nullCalls c xs st1 = okR (lossy (limit ?A c) (content ?A c) xs, st')"
      using Cons.prems by (intro Cons.IH[OF st1(2)]) simp_all
    then show ?thesis using st1(1) None by (cases "content A c") (auto simp: bindR_def okR_def front_def)
  qed
qed simp

lemma lossy_unbuffered: "cap \<le> 0 \<Longrightarrow> set (lossy cap [] xs) \<subseteq> {0}"
  by (induction cap "[] :: 64 word list" xs rule: lossy.induct) auto

text \<open>
  C29. When no caller passes a continuation, which is how the code generator compiles every send and receive, a
  channel is a queue of bounded length that drops values: a send to a full channel loses its value and a receive
  from an empty one answers 0 at once, neither waits. In particular nothing is ever delivered over an unbuffered
  channel, whose receives all answer 0.
\<close>

theorem null_channel:
  assumes "c \<noteq> 0" "cap < 2 ^ 61"
  shows "\<exists>st'. nullCalls c xs (set_chan c (chan_create cap) schedStart) = okR (lossy cap [] xs, st')
    \<and> (cap \<le> 0 \<longrightarrow> set (lossy cap [] xs) \<subseteq> {0})"
proof -
  let ?A = "snd (spec (Make c cap) specStart)"
  have r: "rel ?A (set_chan c (chan_create cap) schedStart)"
    using assms(2) by (intro make_refines[OF rel_start]) (simp add: specStart_def)
  have "limit ?A c = cap" "content ?A c = []" by simp_all
  then obtain st' where "nullCalls c xs (set_chan c (chan_create cap) schedStart) = okR (lossy cap [] xs, st')"
    using null_calls[OF r assms(1), of xs] by (auto simp: specStart_def)
  then show ?thesis using lossy_unbuffered by blast
qed

theorem null_channel_witness:
  "\<exists>st'. nullCalls 0x10 [Some 7, Some 8, None, None] (set_chan 0x10 (chan_create 1) schedStart) = okR ([7, 0], st')"
  using null_channel[of "0x10" 1 "[Some 7, Some 8, None, None]"] by auto

end
