(* ===== verification/Rt_Base.thy ===== *)
theory Rt_Base
  imports Vsl_Prelude "HOL-Library.Word"
begin

text \<open>
  What the parts of the runtime library (\<^verbatim>\<open>stdlib/runtime.c\<close>) share: outcomes, the ranges of the integer types, and
  the counting loops. A run of a library function ends with a result, ends the process with a message, accesses
  a cell that lies outside the object or was never written, or overflows a signed integer, which C leaves undefined.
  Values of type \<^verbatim>\<open>int64_t\<close> that count or index are integers, the values stored in lists are words.
\<close>

datatype rt_fault = RtExit string | Outside | Undefined

type_synonym 'a rt = "rt_fault + 'a"

definition bindT :: "'a rt \<Rightarrow> ('a \<Rightarrow> 'b rt) \<Rightarrow> 'b rt" where
  "bindT m f = (case m of Inl e \<Rightarrow> Inl e | Inr x \<Rightarrow> f x)"

lemma bindT_simps [simp]: "bindT (Inr x) f = f x" "bindT (Inl e) f = Inl e"
  by (simp_all add: bindT_def)

fun eachT :: "('a \<Rightarrow> 's \<Rightarrow> 's rt) \<Rightarrow> 'a list \<Rightarrow> 's \<Rightarrow> 's rt" where
  "eachT f [] s = Inr s"
| "eachT f (x # xs) s = bindT (f x s) (eachT f xs)"

lemma bindT_cong [fundef_cong]: "m = m' \<Longrightarrow> (\<And>x. m' = Inr x \<Longrightarrow> f x = f' x) \<Longrightarrow> bindT m f = bindT m' f'"
  by (simp add: bindT_def split: sum.split)

definition INT64_MAX :: int where
  "INT64_MAX = 2 ^ 63 - 1"

definition INT64_MIN :: int where
  "INT64_MIN = - (2 ^ 63)"

definition SIZE_MAX :: int where
  "SIZE_MAX = 2 ^ 64 - 1"

text \<open>
  The loops \<^verbatim>\<open>for (i = a; i < b; i += step)\<close> with a positive step and \<^verbatim>\<open>for (i = a; i > b; i += step)\<close> with a negative
  one, whose counter can overflow after the last round.
\<close>

function forUp :: "int \<Rightarrow> int \<Rightarrow> int \<Rightarrow> (int \<Rightarrow> 's \<Rightarrow> 's rt) \<Rightarrow> 's \<Rightarrow> 's rt" where
  "forUp i stop step body s =
     (if i < stop \<and> 0 < step then
        bindT (body i s) (\<lambda>s. if i + step > INT64_MAX then Inl Undefined else forUp (i + step) stop step body s)
      else Inr s)"
  by pat_completeness auto

termination forUp
  by (relation "measure (\<lambda>(i, stop, step, _). nat (stop - i))") auto

function forDown :: "int \<Rightarrow> int \<Rightarrow> int \<Rightarrow> (int \<Rightarrow> 's \<Rightarrow> 's rt) \<Rightarrow> 's \<Rightarrow> 's rt" where
  "forDown i stop step body s =
     (if i > stop \<and> step < 0 then
        bindT (body i s) (\<lambda>s. if i + step < INT64_MIN then Inl Undefined else forDown (i + step) stop step body s)
      else Inr s)"
  by pat_completeness auto

termination forDown
  by (relation "measure (\<lambda>(i, stop, step, _). nat (i - stop))") auto

declare forUp.simps [simp del] forDown.simps [simp del]

definition forStep :: "int \<Rightarrow> int \<Rightarrow> int \<Rightarrow> (int \<Rightarrow> 's \<Rightarrow> 's rt) \<Rightarrow> 's \<Rightarrow> 's rt" where
  "forStep i stop step body = (if step > 0 then forUp i stop step body else forDown i stop step body)"

section \<open>The rounds of a loop\<close>

text \<open>The values of the counter, for loops in which it does not overflow.\<close>

function upTo :: "int \<Rightarrow> int \<Rightarrow> int \<Rightarrow> int list" where
  "upTo i stop step = (if i < stop \<and> 0 < step then i # upTo (i + step) stop step else [])"
  by pat_completeness auto

termination upTo
  by (relation "measure (\<lambda>(i, stop, step). nat (stop - i))") auto

function downTo :: "int \<Rightarrow> int \<Rightarrow> int \<Rightarrow> int list" where
  "downTo i stop step = (if i > stop \<and> step < 0 then i # downTo (i + step) stop step else [])"
  by pat_completeness auto

termination downTo
  by (relation "measure (\<lambda>(i, stop, step). nat (i - stop))") auto

declare upTo.simps [simp del] downTo.simps [simp del]

lemma upTo_rounds:
  shows "\<not> (i < stop \<and> 0 < step) \<Longrightarrow> upTo i stop step = []"
    and "i < stop \<and> 0 < step \<Longrightarrow> upTo i stop step = i # upTo (i + step) stop step"
  by (subst upTo.simps; simp only: simp_thms if_True if_False)+

lemma downTo_rounds:
  shows "\<not> (i > stop \<and> step < 0) \<Longrightarrow> downTo i stop step = []"
    and "i > stop \<and> step < 0 \<Longrightarrow> downTo i stop step = i # downTo (i + step) stop step"
  by (subst downTo.simps; simp only: simp_thms if_True if_False)+

lemma forUp_each: "stop + step \<le> INT64_MAX + 1 \<Longrightarrow> forUp i stop step body s = eachT body (upTo i stop step) s"
proof (induction i stop step body s rule: forUp.induct)
  case (1 i stop step body s)
  show ?case
  proof (cases "i < stop \<and> 0 < step")
    case True
    then have n: "\<not> i + step > INT64_MAX" using 1(2) by linarith
    have "forUp i stop step body s = bindT (body i s) (forUp (i + step) stop step body)"
      by (subst forUp.simps) (simp only: True simp_thms if_True n if_False)
    also have "\<dots> = bindT (body i s) (eachT body (upTo (i + step) stop step))"
      by (rule bindT_cong) (use 1 True n in auto)
    finally show ?thesis by (simp only: upTo_rounds(2)[OF True] eachT.simps)
  next
    case False
    then show ?thesis by (subst forUp.simps) (simp only: if_False upTo_rounds(1)[OF False] eachT.simps)
  qed
qed

lemma forDown_each: "stop + step \<ge> INT64_MIN - 1 \<Longrightarrow> forDown i stop step body s = eachT body (downTo i stop step) s"
proof (induction i stop step body s rule: forDown.induct)
  case (1 i stop step body s)
  show ?case
  proof (cases "i > stop \<and> step < 0")
    case True
    then have n: "\<not> i + step < INT64_MIN" using 1(2) by linarith
    have "forDown i stop step body s = bindT (body i s) (forDown (i + step) stop step body)"
      by (subst forDown.simps) (simp only: True simp_thms if_True n if_False)
    also have "\<dots> = bindT (body i s) (eachT body (downTo (i + step) stop step))"
      by (rule bindT_cong) (use 1 True n in auto)
    finally show ?thesis by (simp only: downTo_rounds(2)[OF True] eachT.simps)
  next
    case False
    then show ?thesis by (subst forDown.simps) (simp only: if_False downTo_rounds(1)[OF False] eachT.simps)
  qed
qed

lemma upTo_one: "upTo i stop 1 = [i..stop - 1]"
proof (induction i stop "1 :: int" rule: upTo.induct)
  case (1 i stop)
  show ?case
  proof (cases "i < stop")
    case True
    then show ?thesis using 1 upTo_rounds(2)[of i stop 1] upto_rec1[of i "stop - 1"] by simp
  next
    case False
    then show ?thesis using upTo_rounds(1)[of i stop 1] by simp
  qed
qed

lemma upTo_set: "set (upTo i stop step) = {k. i \<le> k \<and> k < stop \<and> 0 < step \<and> step dvd k - i}"
proof (induction i stop step rule: upTo.induct)
  case (1 i stop step)
  show ?case
  proof (cases "i < stop \<and> 0 < step")
    case True
    have "k \<in> insert i {k. i + step \<le> k \<and> k < stop \<and> 0 < step \<and> step dvd k - (i + step)}
      \<longleftrightarrow> i \<le> k \<and> k < stop \<and> 0 < step \<and> step dvd k - i" for k
    proof -
      have "i + step \<le> k" if "i \<le> k" "step dvd k - i" "k \<noteq> i"
        using zdvd_imp_le[of step "k - i"] that by linarith
      moreover have "step dvd k - (i + step) \<longleftrightarrow> step dvd k - i"
        using dvd_add_left_iff[OF dvd_refl[of step], of "k - (i + step)"] by simp
      ultimately show ?thesis using True by auto
    qed
    then show ?thesis unfolding upTo_rounds(2)[OF True] list.set 1[OF True] by blast
  next
    case False
    then show ?thesis using upTo_rounds(1)[OF False] by auto
  qed
qed

lemma upTo_sorted: "sorted_wrt (<) (upTo i stop step)"
proof (induction i stop step rule: upTo.induct)
  case (1 i stop step)
  show ?case
  proof (cases "i < stop \<and> 0 < step")
    case True
    then have "i < k" if "k \<in> set (upTo (i + step) stop step)" for k
      using that True unfolding upTo_set mem_Collect_eq by linarith
    then show ?thesis unfolding upTo_rounds(2)[OF True] sorted_wrt.simps using 1[OF True] by blast
  next
    case False
    show ?thesis unfolding upTo_rounds(1)[OF False] by simp
  qed
qed

lemma downTo_upTo: "downTo i stop step = map uminus (upTo (- i) (- stop) (- step))"
proof (induction i stop step rule: downTo.induct)
  case (1 i stop step)
  show ?case
  proof (cases "i > stop \<and> step < 0")
    case True
    then have "- i < - stop \<and> 0 < - step" by simp
    then show ?thesis using 1[OF True] downTo_rounds(2)[OF True] upTo_rounds(2)[of "- i" "- stop" "- step"] by simp
  next
    case False
    then have "\<not> (- i < - stop \<and> 0 < - step)" by simp
    then show ?thesis using downTo_rounds(1)[OF False] upTo_rounds(1)[of "- i" "- stop" "- step"] by simp
  qed
qed

lemma downTo_set: "set (downTo i stop step) = {k. k \<le> i \<and> stop < k \<and> step < 0 \<and> step dvd i - k}"
proof -
  have "k \<in> set (downTo i stop step) \<longleftrightarrow> - k \<in> set (upTo (- i) (- stop) (- step))" for k
    by (auto simp: downTo_upTo image_iff) (metis minus_minus)
  then show ?thesis by (auto simp: upTo_set)
qed

lemma upTo_filter: "0 < step \<Longrightarrow> upTo i stop step = filter (\<lambda>k. step dvd k - i) [i..stop - 1]"
  by (rule strict_sorted_equal[OF _ upTo_sorted]) (auto simp: upTo_set strict_sorted_iff sorted_wrt_filter)

lemma downTo_filter: "step < 0 \<Longrightarrow> downTo i stop step = rev (filter (\<lambda>k. step dvd i - k) [stop + 1..i])"
proof -
  assume s: "step < 0"
  have "sorted_wrt (<) (rev (downTo i stop step))"
    by (simp add: downTo_upTo rev_map sorted_wrt_map sorted_wrt_rev) (rule upTo_sorted)
  then have "rev (downTo i stop step) = filter (\<lambda>k. step dvd i - k) [stop + 1..i]"
    using s by (intro strict_sorted_equal) (auto simp: downTo_set strict_sorted_iff sorted_wrt_filter)
  then show ?thesis by (metis rev_rev_ident)
qed

end
