(* ===== verification/Rt_Dict.thy ===== *)
theory Rt_Dict
  imports Rt_Base
begin

text \<open>
  The dictionaries of the runtime library (\<^verbatim>\<open>stdlib/runtime.c\<close>): a hash table with open addressing, linear probing
  and tombstones. Keys are C strings, lists of characters without the final zero; a null pointer is \<^verbatim>\<open>None\<close>.
\<close>

unbundle bit_operations_syntax

section \<open>The table\<close>

datatype DictEntry = Empty | Used string "64 word" | Deleted

record VisualDict =
  entries :: "DictEntry list"
  dict_length :: nat

abbreviation dictCap :: "VisualDict \<Rightarrow> nat" where
  "dictCap d \<equiv> length (entries d)"

definition DICT_INIT_CAP :: nat where
  "DICT_INIT_CAP = 16"

definition dict_hash :: "string \<Rightarrow> 64 word" where
  "dict_hash key = fold (\<lambda>c h. (h XOR of_nat (of_char c)) * 1099511628211) key 14695981039346656037"

definition dictSlots :: "string \<Rightarrow> nat \<Rightarrow> nat list" where
  "dictSlots key cap = (let idx = unat (dict_hash key) mod cap in map (\<lambda>i. (idx + i) mod cap) [0..<cap])"

fun scan :: "DictEntry list \<Rightarrow> string \<Rightarrow> nat list \<Rightarrow> nat option \<Rightarrow> nat option" where
  "scan es key [] first_deleted = first_deleted"
| "scan es key (slot # slots) first_deleted = (case es ! slot of
     Empty \<Rightarrow> (case first_deleted of None \<Rightarrow> Some slot | Some d \<Rightarrow> Some d)
   | Deleted \<Rightarrow> scan es key slots (case first_deleted of None \<Rightarrow> Some slot | Some d \<Rightarrow> Some d)
   | Used k v \<Rightarrow> if k = key then Some slot else scan es key slots first_deleted)"

definition dict_find_slot :: "DictEntry list \<Rightarrow> string \<Rightarrow> nat option" where
  "dict_find_slot es key = scan es key (dictSlots key (length es)) None"

definition dict_new :: VisualDict where
  "dict_new = \<lparr>entries = replicate DICT_INIT_CAP Empty, dict_length = 0\<rparr>"

section \<open>The operations\<close>

definition rehashEntry :: "DictEntry \<Rightarrow> VisualDict \<Rightarrow> VisualDict rt" where
  "rehashEntry e d = (case e of
     Used k v \<Rightarrow> (case dict_find_slot (entries d) k of
         None \<Rightarrow> Inl Outside
       | Some slot \<Rightarrow> Inr \<lparr>entries = (entries d)[slot := Used k v], dict_length = dict_length d + 1\<rparr>)
   | _ \<Rightarrow> Inr d)"

definition dict_resize :: "nat \<Rightarrow> VisualDict \<Rightarrow> VisualDict rt" where
  "dict_resize new_cap d = eachT rehashEntry (entries d) \<lparr>entries = replicate new_cap Empty, dict_length = 0\<rparr>"

text \<open>
  The test \<^verbatim>\<open>(double)(length + 1) > (double)capacity * 0.7\<close>: the literal is the fraction with the denominator \<^verbatim>\<open>2 ^ 53\<close>,
  and as capacities are powers of two the product is exact.
\<close>

definition tooFull :: "nat \<Rightarrow> nat \<Rightarrow> bool" where
  "tooFull n cap \<longleftrightarrow> (n + 1) * 2 ^ 53 > cap * 6305039478318694"

definition storeAt :: "string \<Rightarrow> 64 word \<Rightarrow> nat option \<Rightarrow> VisualDict \<Rightarrow> VisualDict rt" where
  "storeAt key value slot d = (case slot of
     None \<Rightarrow> Inl Outside
   | Some slot \<Rightarrow> (case entries d ! slot of
       Used k v \<Rightarrow> Inr (d\<lparr>entries := (entries d)[slot := Used k value]\<rparr>)
     | _ \<Rightarrow> Inr \<lparr>entries = (entries d)[slot := Used key value], dict_length = dict_length d + 1\<rparr>))"

definition dictPut :: "string \<Rightarrow> 64 word \<Rightarrow> VisualDict \<Rightarrow> VisualDict rt" where
  "dictPut key value d =
     bindT (if tooFull (dict_length d) (dictCap d) then
              if int (dictCap d) > INT64_MAX div 2 then Inl (RtExit ''dict capacity overflow'')
              else dict_resize (dictCap d * 2) d
            else Inr d)
       (\<lambda>d. case dict_find_slot (entries d) key of
              None \<Rightarrow> bindT (dict_resize (dictCap d * 2) d)
                        (\<lambda>d. storeAt key value (dict_find_slot (entries d) key) d)
            | Some slot \<Rightarrow> storeAt key value (Some slot) d)"

definition dict_set :: "VisualDict option \<Rightarrow> string option \<Rightarrow> 64 word \<Rightarrow> VisualDict option rt" where
  "dict_set d key value = (case (d, key) of
     (Some d, Some key) \<Rightarrow> bindT (dictPut key value d) (\<lambda>d. Inr (Some d)) | _ \<Rightarrow> Inr d)"

definition usedAt :: "VisualDict \<Rightarrow> nat option \<Rightarrow> 64 word option" where
  "usedAt d slot = (case slot of None \<Rightarrow> None
     | Some slot \<Rightarrow> (case entries d ! slot of Used k v \<Rightarrow> Some v | _ \<Rightarrow> None))"

definition dict_get :: "VisualDict option \<Rightarrow> string option \<Rightarrow> 64 word rt" where
  "dict_get d key = (case (d, key) of
     (Some d, Some key) \<Rightarrow> (case usedAt d (dict_find_slot (entries d) key) of
         Some v \<Rightarrow> Inr v | None \<Rightarrow> Inl (RtExit ''KeyError''))
   | _ \<Rightarrow> Inr 0)"

definition dict_has :: "VisualDict option \<Rightarrow> string option \<Rightarrow> bool" where
  "dict_has d key = (case (d, key) of
     (Some d, Some key) \<Rightarrow> usedAt d (dict_find_slot (entries d) key) \<noteq> None | _ \<Rightarrow> False)"

fun removeFrom :: "string \<Rightarrow> nat list \<Rightarrow> VisualDict \<Rightarrow> VisualDict" where
  "removeFrom key [] d = d"
| "removeFrom key (slot # slots) d = (case entries d ! slot of
     Empty \<Rightarrow> d
   | Used k v \<Rightarrow> if k = key then \<lparr>entries = (entries d)[slot := Deleted], dict_length = dict_length d - 1\<rparr>
                 else removeFrom key slots d
   | Deleted \<Rightarrow> removeFrom key slots d)"

definition dict_remove :: "VisualDict option \<Rightarrow> string option \<Rightarrow> VisualDict option" where
  "dict_remove d key = (case (d, key) of
     (Some d, Some key) \<Rightarrow>
       Some (removeFrom key (map (\<lambda>i. unat (dict_hash key + of_nat i) mod dictCap d) [0..<dictCap d]) d)
   | _ \<Rightarrow> d)"

definition dict_len :: "VisualDict option \<Rightarrow> nat" where
  "dict_len d = (case d of None \<Rightarrow> 0 | Some d \<Rightarrow> dict_length d)"

fun usedKeys :: "DictEntry list \<Rightarrow> string list" where
  "usedKeys [] = []"
| "usedKeys (Used k v # es) = k # usedKeys es"
| "usedKeys (e # es) = usedKeys es"

definition dict_keys :: "VisualDict option \<Rightarrow> string list" where
  "dict_keys d = (case d of None \<Rightarrow> [] | Some d \<Rightarrow> usedKeys (entries d))"

end
