(* ===== verification/Rt_Dict_Props.thy ===== *)
theory Rt_Dict_Props
  imports Rt_Dict
begin

text \<open>
  The dictionary of the runtime library implements a finite map: every sequence of insertions, removals and
  lookups answers as a map does, no probe leaves the table and no insertion fails for lack of a slot.
\<close>

section \<open>The invariant\<close>

definition homeOf :: "string \<Rightarrow> nat \<Rightarrow> nat" where
  "homeOf key cap = unat (dict_hash key) mod cap"

definition slotAt :: "string \<Rightarrow> nat \<Rightarrow> nat \<Rightarrow> nat" where
  "slotAt key cap i = (homeOf key cap + i) mod cap"

definition isUsed :: "DictEntry \<Rightarrow> bool" where
  "isUsed e \<longleftrightarrow> (\<exists>k v. e = Used k v)"

definition holds :: "DictEntry list \<Rightarrow> nat \<Rightarrow> string \<Rightarrow> 64 word \<Rightarrow> bool" where
  "holds es i k v \<longleftrightarrow> i < length es \<and> es ! i = Used k v"

text \<open>An entry is reached by its probe sequence before any empty slot.\<close>

definition reached :: "DictEntry list \<Rightarrow> string \<Rightarrow> nat \<Rightarrow> bool" where
  "reached es k i \<longleftrightarrow> (\<exists>j < length es. i = slotAt k (length es) j \<and> (\<forall>j' < j. es ! slotAt k (length es) j' \<noteq> Empty))"

definition table_inv :: "DictEntry list \<Rightarrow> bool" where
  "table_inv es \<longleftrightarrow> 0 < length es
     \<and> (\<forall>i k v. holds es i k v \<longrightarrow> reached es k i)
     \<and> (\<forall>i i' k v v'. holds es i k v \<longrightarrow> holds es i' k v' \<longrightarrow> i = i')"

definition dictMap :: "DictEntry list \<Rightarrow> string \<rightharpoonup> 64 word" where
  "dictMap es k = (if \<exists>i v. holds es i k v then Some (THE v. \<exists>i. holds es i k v) else None)"

definition usedCount :: "DictEntry list \<Rightarrow> nat" where
  "usedCount es = length (filter isUsed es)"

lemma dictSlots_eq: "dictSlots key cap = map (slotAt key cap) [0..<cap]"
  by (simp add: dictSlots_def slotAt_def homeOf_def Let_def)

lemma slotAt_less: "0 < cap \<Longrightarrow> slotAt key cap i < cap"
  by (simp add: slotAt_def)

lemma slotAt_all:
  assumes "i < cap"
  obtains j where "j < cap" "slotAt key cap j = i"
proof
  let ?h = "homeOf key cap"
  have h: "?h < cap" using assms by (simp add: homeOf_def)
  show "(i + cap - ?h) mod cap < cap" using assms by simp
  have "(?h + (i + cap - ?h)) mod cap = i" using h assms by simp
  then show "slotAt key cap ((i + cap - ?h) mod cap) = i" by (simp add: slotAt_def mod_simps)
qed

section \<open>Searching\<close>

lemma scan_found:
  "es ! s = Used k v \<Longrightarrow> \<forall>p \<in> set pre. es ! p \<noteq> Empty \<and> (\<forall>v. es ! p \<noteq> Used k v) \<Longrightarrow> scan es k (pre @ s # post) fd = Some s"
proof (induction pre arbitrary: fd)
  case (Cons p pre)
  then show ?case by (cases "es ! p") auto
qed simp

lemma scan_deleted: "\<forall>s \<in> set ss. \<forall>v. es ! s \<noteq> Used k v \<Longrightarrow> scan es k ss (Some d) = Some d"
proof (induction ss)
  case (Cons s ss)
  then show ?case by (cases "es ! s") auto
qed simp

lemma scan_absent:
  assumes "\<forall>s \<in> set ss. \<forall>v. es ! s \<noteq> Used k v"
  shows "(scan es k ss None = None \<and> (\<forall>s \<in> set ss. isUsed (es ! s)))
    \<or> (\<exists>pre s post. ss = pre @ s # post \<and> scan es k ss None = Some s \<and> \<not> isUsed (es ! s) \<and> (\<forall>p \<in> set pre. es ! p \<noteq> Empty))"
  using assms
proof (induction ss)
  case (Cons s ss)
  show ?case
  proof (cases "es ! s")
    case Empty
    then show ?thesis by (intro disjI2 exI[of _ "[]"] exI[of _ s] exI[of _ ss]) (simp add: isUsed_def)
  next
    case Deleted
    then have "scan es k (s # ss) None = Some s" using scan_deleted[of ss es k s] Cons.prems by simp
    then show ?thesis using Deleted by (intro disjI2 exI[of _ "[]"] exI[of _ s] exI[of _ ss]) (simp add: isUsed_def)
  next
    case (Used k' v')
    then have k: "k' \<noteq> k" using Cons.prems by auto
    from Cons have "(scan es k ss None = None \<and> (\<forall>s \<in> set ss. isUsed (es ! s)))
      \<or> (\<exists>pre t post. ss = pre @ t # post \<and> scan es k ss None = Some t \<and> \<not> isUsed (es ! t) \<and> (\<forall>p \<in> set pre. es ! p \<noteq> Empty))"
      by simp
    then show ?thesis
    proof (elim disjE exE conjE)
      assume "scan es k ss None = None" "\<forall>s \<in> set ss. isUsed (es ! s)"
      then show ?thesis using Used k by (simp add: isUsed_def)
    next
      fix pre t post
      assume "ss = pre @ t # post" "scan es k ss None = Some t" "\<not> isUsed (es ! t)" "\<forall>p \<in> set pre. es ! p \<noteq> Empty"
      then show ?thesis using Used k
        by (intro disjI2 exI[of _ "s # pre"] exI[of _ t] exI[of _ post]) simp
    qed
  qed
qed simp

lemma present_split:
  assumes inv: "table_inv es" and h: "holds es i k v"
  obtains pre post where "dictSlots k (length es) = pre @ i # post"
    "\<forall>p \<in> set pre. es ! p \<noteq> Empty \<and> (\<forall>v. es ! p \<noteq> Used k v)"
proof -
  let ?n = "length es"
  obtain j where j: "j < ?n" "i = slotAt k ?n j" "\<forall>j' < j. es ! slotAt k ?n j' \<noteq> Empty"
    using inv h unfolding table_inv_def reached_def by blast
  have uniq: "i' = i" if "holds es i' k v'" for i' v' using inv h that unfolding table_inv_def by blast
  have n: "0 < ?n" using inv by (simp add: table_inv_def)
  have "j0 < ?n" "\<exists>j0 \<le> j. slotAt k ?n j0 = i" if "j0 \<le> j" for j0 using that j by auto
  then obtain j0 where j0: "j0 \<le> j" "slotAt k ?n j0 = i" "\<forall>j' < j0. slotAt k ?n j' \<noteq> i"
    using exists_least_iff[of "\<lambda>j0. j0 \<le> j \<and> slotAt k ?n j0 = i"] j(2) by (metis le_trans less_imp_le order_refl)
  have split: "dictSlots k ?n = map (slotAt k ?n) [0..<j0] @ i # map (slotAt k ?n) [Suc j0..<?n]"
  proof -
    have "[0..<?n] = [0..<j0] @ j0 # [Suc j0..<?n]" using j0(1) j(1) upt_conv_Cons[of j0 ?n] upt_add_eq_append[of 0 j0 "?n - j0"]
      by (simp add: le_add_diff_inverse)
    then show ?thesis by (simp add: dictSlots_eq j0(2))
  qed
  have "\<forall>p \<in> set (map (slotAt k ?n) [0..<j0]). es ! p \<noteq> Empty \<and> (\<forall>v. es ! p \<noteq> Used k v)"
  proof
    fix p assume "p \<in> set (map (slotAt k ?n) [0..<j0])"
    then obtain j' where j': "j' < j0" "p = slotAt k ?n j'" by auto
    have "es ! p \<noteq> Used k v'" for v'
      using uniq[of p v'] j0(3) j' slotAt_less[OF n] by (auto simp: holds_def)
    then show "es ! p \<noteq> Empty \<and> (\<forall>v. es ! p \<noteq> Used k v)" using j(3) j' j0(1) by auto
  qed
  then show thesis using that[OF split] by blast
qed

lemma find_present:
  assumes "table_inv es" "holds es i k v"
  shows "dict_find_slot es k = Some i"
proof -
  obtain pre post where s: "dictSlots k (length es) = pre @ i # post"
    "\<forall>p \<in> set pre. es ! p \<noteq> Empty \<and> (\<forall>v. es ! p \<noteq> Used k v)"
    by (rule present_split[OF assms])
  show ?thesis using scan_found[of es i k v, OF _ s(2)] assms(2) unfolding dict_find_slot_def s(1) by (simp add: holds_def)
qed

lemma find_absent:
  assumes inv: "table_inv es" and no: "\<nexists>i v. holds es i k v" and room: "\<exists>i < length es. \<not> isUsed (es ! i)"
  obtains i where "dict_find_slot es k = Some i" "i < length es" "\<not> isUsed (es ! i)" "reached es k i"
proof -
  let ?n = "length es"
  have n: "0 < ?n" using inv by (simp add: table_inv_def)
  have absent: "\<forall>s \<in> set (dictSlots k ?n). \<forall>v. es ! s \<noteq> Used k v"
    using no slotAt_less[OF n] by (auto simp: dictSlots_eq holds_def)
  have "\<not> (\<forall>s \<in> set (dictSlots k ?n). isUsed (es ! s))"
  proof -
    obtain i where "i < ?n" "\<not> isUsed (es ! i)" using room by blast
    moreover obtain j where "j < ?n" "slotAt k ?n j = i" by (rule slotAt_all[OF calculation(1)])
    ultimately show ?thesis by (force simp: dictSlots_eq)
  qed
  then obtain pre s post where s: "dictSlots k ?n = pre @ s # post" "scan es k (dictSlots k ?n) None = Some s"
    "\<not> isUsed (es ! s)" "\<forall>p \<in> set pre. es ! p \<noteq> Empty"
    using scan_absent[OF absent] by blast
  let ?j = "length pre"
  have len: "?j < ?n" using arg_cong[OF s(1), of length] by (simp add: dictSlots_eq)
  have at: "dictSlots k ?n ! i = slotAt k ?n i" if "i < ?n" for i using that by (simp add: dictSlots_eq)
  have "s = slotAt k ?n ?j" using at[OF len] s(1) by simp
  moreover have "es ! slotAt k ?n j' \<noteq> Empty" if "j' < ?j" for j'
  proof -
    have "slotAt k ?n j' = pre ! j'" using at[of j'] len that s(1) by (simp add: nth_append)
    then show ?thesis using s(4) that nth_mem by auto
  qed
  ultimately have "reached es k s" using len by (auto simp: reached_def)
  moreover have "s < ?n" using \<open>s = slotAt k ?n ?j\<close> slotAt_less[OF n] by simp
  ultimately show thesis using that s(2,3) by (simp add: dict_find_slot_def)
qed


section \<open>Storing and removing\<close>

lemma dictMap_holds:
  assumes "table_inv es"
  shows "dictMap es k = Some v \<longleftrightarrow> (\<exists>i. holds es i k v)"
proof -
  have u: "v' = v''" if "holds es i k v'" "holds es i' k v''" for i i' v' v''
  proof -
    have "i = i'" using assms that unfolding table_inv_def by blast
    then show ?thesis using that by (simp add: holds_def)
  qed
  have "(THE v. \<exists>i. holds es i k v) = v'" if "holds es i k v'" for i v'
    using that u by (intro the_equality) blast+
  then show ?thesis unfolding dictMap_def by (metis option.inject option.distinct(1))
qed

lemma dictMap_None: "dictMap es k = None \<longleftrightarrow> (\<nexists>i v. holds es i k v)"
  by (simp add: dictMap_def)

lemma dictMap_eqI:
  assumes "table_inv es" "\<And>k v. m k = Some v \<longleftrightarrow> (\<exists>i. holds es i k v)"
  shows "dictMap es = m"
proof
  fix k
  have "dictMap es k = Some v \<longleftrightarrow> m k = Some v" for v using dictMap_holds[OF assms(1)] assms(2) by simp
  then show "dictMap es k = m k" by (metis not_None_eq)
qed

lemma reached_update:
  assumes "reached es k i" "e \<noteq> Empty"
  shows "reached (es[s := e]) k i"
proof -
  obtain j where j: "j < length es" "i = slotAt k (length es) j" "\<forall>j' < j. es ! slotAt k (length es) j' \<noteq> Empty"
    using assms(1) by (auto simp: reached_def)
  have "es[s := e] ! slotAt k (length es) j' \<noteq> Empty" if "j' < j" for j'
    using j(3) that assms(2) by (cases "s < length es") (auto simp: nth_list_update list_update_beyond)
  then show ?thesis using j by (auto simp: reached_def)
qed

lemma usedCount_update:
  assumes "i < length es"
  shows "usedCount (es[i := e]) + (if isUsed (es ! i) then 1 else 0) = usedCount es + (if isUsed e then 1 else 0)"
proof -
  have "filter isUsed (es[i := e]) = filter isUsed (take i es) @ filter isUsed [e] @ filter isUsed (drop (Suc i) es)"
    using upd_conv_take_nth_drop[OF assms, of e] by simp
  moreover have "filter isUsed es = filter isUsed (take i es) @ filter isUsed [es ! i] @ filter isUsed (drop (Suc i) es)"
    using id_take_nth_drop[OF assms] by (metis append_Cons append_Nil filter_append)
  ultimately show ?thesis by (simp add: usedCount_def)
qed

lemma store_table:
  assumes inv: "table_inv es" and s: "s < length es" "reached es k s"
    and at: "\<not> isUsed (es ! s) \<and> (\<nexists>i v. holds es i k v) \<or> (\<exists>v'. es ! s = Used k v')"
  shows "table_inv (es[s := Used k v])" and "dictMap (es[s := Used k v]) = (dictMap es)(k \<mapsto> v)"
proof -
  let ?es = "es[s := Used k v]"
  have h: "holds ?es i k' v' \<longleftrightarrow> (if i = s then k' = k \<and> v' = v else holds es i k' v')" for i k' v'
    using s(1) by (auto simp: holds_def nth_list_update)
  have other: "i = s" if "holds es i k v'" for i v'
    using at
  proof
    assume "\<exists>v'. es ! s = Used k v'"
    then obtain v'' where "holds es s k v''" using s(1) by (auto simp: holds_def)
    then show ?thesis using inv that unfolding table_inv_def by blast
  qed (use that in blast)
  show inv': "table_inv ?es"
    unfolding table_inv_def
  proof (intro conjI allI impI)
    show "0 < length ?es" using inv by (simp add: table_inv_def)
    fix i k' v' assume a: "holds ?es i k' v'"
    have "reached es k' i"
    proof (cases "i = s")
      case True
      then show ?thesis using a h s(2) by simp
    next
      case False
      then have "holds es i k' v'" using a h by simp
      then show ?thesis using inv unfolding table_inv_def by blast
    qed
    then show "reached ?es k' i" by (rule reached_update) simp
    fix i' v'' assume b: "holds ?es i' k' v''"
    show "i = i'"
    proof (cases "k' = k")
      case True
      then show ?thesis using a b h other by (metis)
    next
      case False
      then have "holds es i k' v'" "holds es i' k' v''" using a b h by (auto split: if_splits)
      then show ?thesis using inv unfolding table_inv_def by blast
    qed
  qed
  show "dictMap ?es = (dictMap es)(k \<mapsto> v)"
  proof (rule dictMap_eqI[OF inv'])
    fix k' v'
    show "((dictMap es)(k \<mapsto> v)) k' = Some v' \<longleftrightarrow> (\<exists>i. holds ?es i k' v')"
    proof (cases "k' = k")
      case True
      then show ?thesis using h other by (auto split: if_splits)
    next
      case False
      have "es ! s \<noteq> Used k' v''" for v'' using at False by (auto simp: isUsed_def)
      then have "\<not> holds es s k' v'" by (simp add: holds_def)
      then have "holds ?es i k' v' \<longleftrightarrow> holds es i k' v'" for i using False by (cases "i = s") (simp_all add: h)
      then show ?thesis using False dictMap_holds[OF inv, of k' v'] by simp
    qed
  qed
qed

lemma delete_table:
  assumes inv: "table_inv es" and h: "holds es s k v0"
  shows "table_inv (es[s := Deleted])" and "dictMap (es[s := Deleted]) = (dictMap es)(k := None)"
proof -
  let ?es = "es[s := Deleted]"
  have s: "s < length es" using h by (simp add: holds_def)
  have hd: "holds ?es i k' v' \<longleftrightarrow> i \<noteq> s \<and> holds es i k' v'" for i k' v'
    using s by (auto simp: holds_def nth_list_update)
  show inv': "table_inv ?es"
    unfolding table_inv_def
  proof (intro conjI allI impI)
    show "0 < length ?es" using inv by (simp add: table_inv_def)
    fix i k' v' assume a: "holds ?es i k' v'"
    then have "reached es k' i" using inv hd unfolding table_inv_def by blast
    then show "reached ?es k' i" by (rule reached_update) simp
    fix i' v'' assume "holds ?es i' k' v''"
    then show "i = i'" using a inv hd unfolding table_inv_def by blast
  qed
  have key: "i = s" if "holds es i k v'" for i v' using inv h that unfolding table_inv_def by blast
  show "dictMap ?es = (dictMap es)(k := None)"
  proof (rule dictMap_eqI[OF inv'])
    fix k' v'
    have "(\<exists>i. holds ?es i k' v') \<longleftrightarrow> k' \<noteq> k \<and> (\<exists>i. holds es i k' v')"
    proof
      assume "\<exists>i. holds ?es i k' v'"
      then show "k' \<noteq> k \<and> (\<exists>i. holds es i k' v')" using hd key by blast
    next
      assume a: "k' \<noteq> k \<and> (\<exists>i. holds es i k' v')"
      then obtain i where i: "holds es i k' v'" by blast
      have "i \<noteq> s" using a i h by (auto simp: holds_def)
      then show "\<exists>i. holds ?es i k' v'" using i hd by blast
    qed
    then show "((dictMap es)(k := None)) k' = Some v' \<longleftrightarrow> (\<exists>i. holds ?es i k' v')"
      using dictMap_holds[OF inv, of k' v'] by auto
  qed
qed

section \<open>Growing\<close>

lemma empty_table:
  shows "0 < n \<Longrightarrow> table_inv (replicate n Empty)" and "dictMap (replicate n Empty) = Map.empty"
    and "usedCount (replicate n Empty) = 0"
  by (auto simp: table_inv_def holds_def dictMap_def usedCount_def isUsed_def)

lemma usedCount_room: "usedCount es < length es \<Longrightarrow> \<exists>i < length es. \<not> isUsed (es ! i)"
proof (rule ccontr)
  assume a: "usedCount es < length es" "\<not> (\<exists>i < length es. \<not> isUsed (es ! i))"
  then have "filter isUsed es = es" by (auto simp: filter_id_conv in_set_conv_nth)
  then show False using a(1) by (simp add: usedCount_def)
qed

lemma rehash_entries:
  assumes "table_inv (entries d)" "dict_length d = usedCount (entries d)"
    and "dict_length d + usedCount es < length (entries d)"
    and "\<forall>i i' k v v'. holds es i k v \<longrightarrow> holds es i' k v' \<longrightarrow> i = i'"
    and "\<forall>i k v. holds es i k v \<longrightarrow> dictMap (entries d) k = None"
  shows "\<exists>d'. eachT rehashEntry es d = Inr d' \<and> table_inv (entries d') \<and> dict_length d' = usedCount (entries d')
    \<and> length (entries d') = length (entries d) \<and> dict_length d' = dict_length d + usedCount es
    \<and> (\<forall>k v. dictMap (entries d') k = Some v \<longleftrightarrow> dictMap (entries d) k = Some v \<or> (\<exists>i. holds es i k v))"
  using assms
proof (induction es arbitrary: d)
  case Nil
  then show ?case by (simp add: usedCount_def holds_def)
next
  case (Cons e es)
  have shift: "holds (e # es) (Suc i) k v \<longleftrightarrow> holds es i k v" for i k v by (simp add: holds_def)
  have uniq: "\<forall>i i' k v v'. holds es i k v \<longrightarrow> holds es i' k v' \<longrightarrow> i = i'" using Cons.prems(4) shift by (metis Suc_inject)
  have later: "\<forall>i k v. holds es i k v \<longrightarrow> dictMap (entries d) k = None" using Cons.prems(5) shift by blast
  have first: "(\<exists>i. holds (e # es) i k v) \<longleftrightarrow> e = Used k v \<or> (\<exists>i. holds es i k v)" for k v
  proof
    assume "\<exists>i. holds (e # es) i k v"
    then obtain i where i: "holds (e # es) i k v" by blast
    then show "e = Used k v \<or> (\<exists>i. holds es i k v)" by (cases i) (auto simp: holds_def)
  next
    assume "e = Used k v \<or> (\<exists>i. holds es i k v)"
    then show "\<exists>i. holds (e # es) i k v" using shift by (auto simp: holds_def intro: exI[of _ 0])
  qed
  show ?case
  proof (cases "isUsed e")
    case False
    then have "rehashEntry e d = Inr d" by (cases e) (simp_all add: rehashEntry_def isUsed_def)
    moreover have "usedCount (e # es) = usedCount es" "\<And>k v. e \<noteq> Used k v" using False by (auto simp: usedCount_def isUsed_def)
    ultimately show ?thesis using Cons.IH[OF Cons.prems(1,2) _ uniq later] Cons.prems(3) first by simp
  next
    case True
    then obtain k v where e: "e = Used k v" by (auto simp: isUsed_def)
    have h0: "holds (e # es) 0 k v" by (simp add: holds_def e)
    have none: "dictMap (entries d) k = None" using Cons.prems(5) h0 by blast
    have n: "usedCount (e # es) = Suc (usedCount es)" using True by (simp add: usedCount_def)
    have "usedCount (entries d) < length (entries d)" using Cons.prems(2,3) n by simp
    then obtain s where s: "dict_find_slot (entries d) k = Some s" "s < length (entries d)" "\<not> isUsed (entries d ! s)" "reached (entries d) k s"
      using find_absent[OF Cons.prems(1) none[unfolded dictMap_None] usedCount_room] by blast
    let ?d = "\<lparr>entries = (entries d)[s := Used k v], dict_length = dict_length d + 1\<rparr>"
    have st: "table_inv (entries ?d)" "dictMap (entries ?d) = (dictMap (entries d))(k \<mapsto> v)"
      using store_table[OF Cons.prems(1) s(2,4), of v] s(3) none dictMap_None by auto
    have count: "dict_length ?d = usedCount (entries ?d)"
      using usedCount_update[OF s(2), of "Used k v"] s(3) Cons.prems(2) by (simp add: isUsed_def)
    have fresh: "\<forall>i k' v'. holds es i k' v' \<longrightarrow> dictMap (entries ?d) k' = None"
    proof (intro allI impI)
      fix i k' v' assume a: "holds es i k' v'"
      then have "holds (e # es) (Suc i) k' v'" by (simp add: shift)
      then have "k' \<noteq> k" using Cons.prems(4) h0 by blast
      moreover have "dictMap (entries d) k' = None" using later a by blast
      ultimately show "dictMap (entries ?d) k' = None" by (simp add: st(2)[simplified])
    qed
    have "rehashEntry e d = Inr ?d" using s(1) by (simp add: rehashEntry_def e)
    moreover have "dict_length ?d + usedCount es < length (entries ?d)" using Cons.prems(3) n by simp
    then obtain d' where d': "eachT rehashEntry es ?d = Inr d'" "table_inv (entries d')" "dict_length d' = usedCount (entries d')"
      "length (entries d') = length (entries ?d)" "dict_length d' = dict_length ?d + usedCount es"
      "\<forall>k v. dictMap (entries d') k = Some v \<longleftrightarrow> dictMap (entries ?d) k = Some v \<or> (\<exists>i. holds es i k v)"
      using Cons.IH[OF st(1) count _ uniq fresh] by blast
    moreover have "dictMap (entries d') k' = Some v' \<longleftrightarrow> dictMap (entries d) k' = Some v' \<or> (\<exists>i. holds (e # es) i k' v')" for k' v'
      using d'(6) st(2) first[of k' v'] none e by auto
    ultimately show ?thesis using n by (intro exI[of _ d']) simp
  qed
qed

definition dict_ok :: "VisualDict \<Rightarrow> bool" where
  "dict_ok d \<longleftrightarrow> table_inv (entries d) \<and> dict_length d = usedCount (entries d) \<and> dict_length d < dictCap d
     \<and> (\<exists>n \<ge> 4. dictCap d = 2 ^ n)"

lemma resize_correct:
  assumes ok: "dict_ok d"
  obtains d' where "dict_resize (dictCap d * 2) d = Inr d'" "dict_ok d'" "dictMap (entries d') = dictMap (entries d)"
    "dict_length d' = dict_length d" "dictCap d' = dictCap d * 2"
proof -
  let ?e = "\<lparr>entries = replicate (dictCap d * 2) Empty, dict_length = 0\<rparr>"
  have inv: "table_inv (entries d)" and c: "0 < dictCap d * 2" using ok by (simp_all add: dict_ok_def table_inv_def)
  note E = empty_table(1)[OF c] empty_table(2,3)
  have r: "dict_length ?e + usedCount (entries d) < length (entries ?e)" using ok by (simp add: dict_ok_def)
  have p: "table_inv (entries ?e)" "dict_length ?e = usedCount (entries ?e)"
    "\<forall>i k v. holds (entries d) i k v \<longrightarrow> dictMap (entries ?e) k = None" using E by simp_all
  have u: "\<forall>i i' k v v'. holds (entries d) i k v \<longrightarrow> holds (entries d) i' k v' \<longrightarrow> i = i'"
    using inv unfolding table_inv_def by blast
  obtain d' where d': "eachT rehashEntry (entries d) ?e = Inr d'" "table_inv (entries d')" "dict_length d' = usedCount (entries d')"
    "length (entries d') = length (entries ?e)" "dict_length d' = dict_length ?e + usedCount (entries d)"
    "\<forall>k v. dictMap (entries d') k = Some v \<longleftrightarrow> dictMap (entries ?e) k = Some v \<or> (\<exists>i. holds (entries d) i k v)"
    using rehash_entries[OF p(1,2) r u p(3)] by blast
  have "dictMap (entries d') = dictMap (entries d)"
  proof
    fix k
    have "dictMap (entries d') k = Some v \<longleftrightarrow> dictMap (entries d) k = Some v" for v
      unfolding d'(6)[rule_format, of k v] dictMap_holds[OF inv] by (simp add: empty_table(2))
    then show "dictMap (entries d') k = dictMap (entries d) k" by (metis not_None_eq)
  qed
  moreover have "\<exists>n \<ge> 4. dictCap d' = 2 ^ n"
  proof -
    obtain n where "4 \<le> n" "dictCap d = 2 ^ n" using ok by (auto simp: dict_ok_def)
    then show ?thesis using d'(4) by (intro exI[of _ "Suc n"]) simp
  qed
  moreover have "dict_length d' = dict_length d" "dictCap d' = dictCap d * 2" "dict_length d < dictCap d"
    using d'(4,5) ok by (simp_all add: dict_ok_def)
  ultimately show thesis using that[of d'] d'(1,2,3) by (simp add: dict_resize_def dict_ok_def)
qed


section \<open>The operations on the map\<close>

lemma dict_new_correct: "dict_ok dict_new" "dictMap (entries dict_new) = Map.empty"
  using empty_table[of 16] by (auto simp: dict_ok_def dict_new_def DICT_INIT_CAP_def intro: exI[of _ 4])

lemma store_correct:
  assumes ok: "table_inv (entries d)" "dict_length d = usedCount (entries d)" and room: "dict_length d + 1 < dictCap d"
  obtains slot d' where "dict_find_slot (entries d) k = Some slot" "storeAt k v (Some slot) d = Inr d'"
    "table_inv (entries d')" "dict_length d' = usedCount (entries d')" "dictMap (entries d') = (dictMap (entries d))(k \<mapsto> v)"
    "dict_length d' \<le> dict_length d + 1" "dictCap d' = dictCap d"
proof (cases "dictMap (entries d) k")
  case None
  then have "\<nexists>i v. holds (entries d) i k v" by (simp add: dictMap_None)
  moreover have "\<exists>i < dictCap d. \<not> isUsed (entries d ! i)" using ok(2) room by (intro usedCount_room) simp
  ultimately obtain i where i: "dict_find_slot (entries d) k = Some i" "i < dictCap d" "\<not> isUsed (entries d ! i)" "reached (entries d) k i"
    using find_absent[OF ok(1)] by blast
  let ?d = "\<lparr>entries = (entries d)[i := Used k v], dict_length = dict_length d + 1\<rparr>"
  have at: "\<not> isUsed (entries d ! i) \<and> (\<nexists>i v. holds (entries d) i k v) \<or> (\<exists>v'. entries d ! i = Used k v')"
    using i(3) None dictMap_None by blast
  have "storeAt k v (Some i) d = Inr ?d" using i(3) by (cases "entries d ! i") (simp_all add: storeAt_def isUsed_def)
  moreover have "dict_length ?d = usedCount (entries ?d)"
    using usedCount_update[OF i(2), of "Used k v"] i(3) ok(2) by (simp add: isUsed_def)
  ultimately show thesis using that[OF i(1)] store_table[OF ok(1) i(2,4) at] by simp
next
  case (Some v0)
  then obtain i where i: "holds (entries d) i k v0" using dictMap_holds[OF ok(1)] by blast
  then have f: "dict_find_slot (entries d) k = Some i" and l: "i < dictCap d" "entries d ! i = Used k v0"
    using find_present[OF ok(1)] by (simp_all add: holds_def)
  have re: "reached (entries d) k i" using ok(1) i unfolding table_inv_def by blast
  let ?d = "d\<lparr>entries := (entries d)[i := Used k v]\<rparr>"
  have at: "\<not> isUsed (entries d ! i) \<and> (\<nexists>i v. holds (entries d) i k v) \<or> (\<exists>v'. entries d ! i = Used k v')" using l(2) by blast
  have "storeAt k v (Some i) d = Inr ?d" using l(2) by (simp add: storeAt_def)
  moreover have "dict_length ?d = usedCount (entries ?d)"
    using usedCount_update[OF l(1), of "Used k v"] l(2) ok(2) by (simp add: isUsed_def)
  ultimately show thesis using that[OF f] store_table[OF ok(1) l(1) re at] by simp
qed

lemma dict_put_correct:
  assumes ok: "dict_ok d" and room: "dictCap d \<le> 2 ^ 61"
  obtains d' where "dictPut k v d = Inr d'" "dict_ok d'" "dictMap (entries d') = (dictMap (entries d))(k \<mapsto> v)"
    "dict_length d' \<le> dict_length d + 1" "dictCap d' \<le> max (dictCap d) (4 * (dict_length d + 1))"
proof -
  let ?m = "if tooFull (dict_length d) (dictCap d) then
              if int (dictCap d) > INT64_MAX div 2 then Inl (RtExit ''dict capacity overflow'') else dict_resize (dictCap d * 2) d
            else Inr d"
  have small: "\<not> int (dictCap d) > INT64_MAX div 2"
  proof -
    have "int (dictCap d) \<le> 2 ^ 61" using room by (metis of_nat_le_iff of_nat_numeral of_nat_power)
    then show ?thesis by (simp add: INT64_MAX_def)
  qed
  obtain n where n: "4 \<le> n" "dictCap d = 2 ^ n" using ok by (auto simp: dict_ok_def)
  have c16: "16 \<le> dictCap d" unfolding n(2) using power_increasing[OF n(1), of "2::nat"] by simp
  obtain d1 where d1: "?m = Inr d1" "dict_ok d1" "dictMap (entries d1) = dictMap (entries d)" "dict_length d1 + 1 < dictCap d1"
    "dictCap d1 \<le> max (dictCap d) (4 * (dict_length d + 1))" "dict_length d1 = dict_length d"
  proof (cases "tooFull (dict_length d) (dictCap d)")
    case True
    obtain d1 where "dict_resize (dictCap d * 2) d = Inr d1" "dict_ok d1" "dictMap (entries d1) = dictMap (entries d)"
      "dict_length d1 = dict_length d" "dictCap d1 = dictCap d * 2"
      by (rule resize_correct[OF ok])
    moreover have "dict_length d < dictCap d" using ok by (simp add: dict_ok_def)
    moreover have "dictCap d * 6305039478318694 < (dict_length d + 1) * 2 ^ 53" using True by (simp add: tooFull_def)
    then have "dictCap d * 2 \<le> 4 * (dict_length d + 1)" by simp
    ultimately show thesis using that[of d1] True small c16 by simp
  next
    case False
    then have "(dict_length d + 1) * 2 ^ 53 \<le> dictCap d * 6305039478318694" by (simp add: tooFull_def)
    then have "dict_length d + 1 < dictCap d" using c16 by simp
    then show thesis using that[of d] False ok by simp
  qed
  have t: "table_inv (entries d1)" "dict_length d1 = usedCount (entries d1)" using d1(2) by (simp_all add: dict_ok_def)
  obtain slot d' where d': "dict_find_slot (entries d1) k = Some slot" "storeAt k v (Some slot) d1 = Inr d'"
    "table_inv (entries d')" "dict_length d' = usedCount (entries d')" "dictMap (entries d') = (dictMap (entries d1))(k \<mapsto> v)"
    "dict_length d' \<le> dict_length d1 + 1" "dictCap d' = dictCap d1"
    by (rule store_correct[OF t d1(4)])
  have "dictPut k v d = Inr d'" unfolding dictPut_def d1(1) using d'(1,2) by simp
  moreover have "dict_ok d'" using d'(3-7) d1(2,4) by (simp add: dict_ok_def)
  ultimately show thesis using that d'(5,6,7) d1(3,5,6) by simp
qed

lemma dict_get_correct:
  assumes "dict_ok d"
  shows "usedAt d (dict_find_slot (entries d) k) = dictMap (entries d) k"
proof -
  have inv: "table_inv (entries d)" and room: "usedCount (entries d) < length (entries d)" using assms by (simp_all add: dict_ok_def)
  show ?thesis
  proof (cases "dictMap (entries d) k")
    case None
    obtain i where "dict_find_slot (entries d) k = Some i" "\<not> isUsed (entries d ! i)"
      using find_absent[OF inv None[unfolded dictMap_None] usedCount_room[OF room]] by blast
    then show ?thesis using None by (cases "entries d ! i") (simp_all add: usedAt_def isUsed_def)
  next
    case (Some v)
    then obtain i where "holds (entries d) i k v" using dictMap_holds[OF inv] by blast
    then show ?thesis using find_present[OF inv] Some by (simp add: usedAt_def holds_def)
  qed
qed

lemma remove_slots:
  assumes "\<exists>n. cap = 2 ^ n \<and> n \<le> 64"
  shows "map (\<lambda>i. unat (dict_hash k + of_nat i) mod cap) [0..<cap] = dictSlots k cap"
proof -
  obtain n where n: "cap = 2 ^ n" "n \<le> 64" using assms by blast
  have "unat (dict_hash k + of_nat i) mod cap = slotAt k cap i" for i
  proof -
    have "unat (dict_hash k + of_nat i) = (unat (dict_hash k) + i) mod 2 ^ 64"
      by (simp add: unat_word_ariths unat_of_nat take_bit_eq_mod mod_simps)
    moreover have "cap dvd 2 ^ 64" unfolding n(1) using n(2) by (rule le_imp_power_dvd)
    ultimately show ?thesis by (simp add: slotAt_def homeOf_def mod_mod_cancel mod_simps)
  qed
  then show ?thesis by (simp add: dictSlots_eq)
qed

lemma removeFrom_found:
  "entries d ! s = Used k v \<Longrightarrow> \<forall>p \<in> set pre. entries d ! p \<noteq> Empty \<and> (\<forall>v. entries d ! p \<noteq> Used k v) \<Longrightarrow>
     removeFrom k (pre @ s # post) d = \<lparr>entries = (entries d)[s := Deleted], dict_length = dict_length d - 1\<rparr>"
proof (induction pre)
  case (Cons p pre)
  then show ?case by (cases "entries d ! p") auto
qed simp

lemma removeFrom_absent: "\<forall>s \<in> set ss. \<forall>v. entries d ! s \<noteq> Used k v \<Longrightarrow> removeFrom k ss d = d"
proof (induction ss)
  case (Cons s ss)
  then show ?case by (cases "entries d ! s") auto
qed simp


lemma dict_remove_correct:
  fixes k :: string
  assumes ok: "dict_ok d" and room: "dictCap d \<le> 2 ^ 61"
  defines "d' \<equiv> removeFrom k (map (\<lambda>i. unat (dict_hash k + of_nat i) mod dictCap d) [0..<dictCap d]) d"
  shows "dict_ok d'" "dictMap (entries d') = (dictMap (entries d))(k := None)" "dict_length d' \<le> dict_length d" "dictCap d' = dictCap d"
proof -
  have inv: "table_inv (entries d)" using ok by (simp add: dict_ok_def)
  obtain n where n: "dictCap d = 2 ^ n" using ok by (auto simp: dict_ok_def)
  have "n \<le> 64"
  proof (rule ccontr)
    assume "\<not> n \<le> 64"
    then have "(2::nat) ^ 61 < 2 ^ n" by (intro power_strict_increasing) simp_all
    then show False using room n by simp
  qed
  then have d': "d' = removeFrom k (dictSlots k (dictCap d)) d" using remove_slots[of "dictCap d" k] n by (auto simp: d'_def)
  have "dict_ok d' \<and> dictMap (entries d') = (dictMap (entries d))(k := None) \<and> dict_length d' \<le> dict_length d \<and> dictCap d' = dictCap d"
  proof (cases "dictMap (entries d) k")
    case None
    have "0 < dictCap d" using inv by (simp add: table_inv_def)
    then have "\<forall>s \<in> set (dictSlots k (dictCap d)). \<forall>v. entries d ! s \<noteq> Used k v"
      using None slotAt_less by (auto simp: dictSlots_eq dictMap_None holds_def)
    then have "d' = d" unfolding d' by (rule removeFrom_absent)
    then show ?thesis using ok None by (simp add: fun_upd_idem)
  next
    case (Some v)
    then obtain i where i: "holds (entries d) i k v" using dictMap_holds[OF inv] by blast
    obtain pre post where s: "dictSlots k (dictCap d) = pre @ i # post"
      "\<forall>p \<in> set pre. entries d ! p \<noteq> Empty \<and> (\<forall>v. entries d ! p \<noteq> Used k v)"
      by (rule present_split[OF inv i])
    have l: "i < dictCap d" "entries d ! i = Used k v" using i by (simp_all add: holds_def)
    have "d' = \<lparr>entries = (entries d)[i := Deleted], dict_length = dict_length d - 1\<rparr>"
      unfolding d' s(1) by (rule removeFrom_found[of d i k v, OF l(2) s(2)])
    moreover have "usedCount ((entries d)[i := Deleted]) = dict_length d - 1"
      using usedCount_update[OF l(1), of Deleted] l(2) ok by (simp add: isUsed_def dict_ok_def)
    moreover have "dict_length d - 1 < dictCap d" using ok unfolding dict_ok_def by linarith
    ultimately show ?thesis using delete_table[OF inv i] ok by (simp add: dict_ok_def)
  qed
  then show "dict_ok d'" "dictMap (entries d') = (dictMap (entries d))(k := None)" "dict_length d' \<le> dict_length d" "dictCap d' = dictCap d"
    by simp_all
qed

lemma usedKeys_holds: "k \<in> set (usedKeys es) \<longleftrightarrow> (\<exists>i v. holds es i k v)"
proof (induction es rule: usedKeys.induct[case_names none used empty deleted])
  case (used k' v' es)
  have "(\<exists>i v. holds (Used k' v' # es) i k v) \<longleftrightarrow> k = k' \<or> (\<exists>i v. holds es i k v)"
  proof
    assume "\<exists>i v. holds (Used k' v' # es) i k v"
    then obtain i v where "holds (Used k' v' # es) i k v" by blast
    then show "k = k' \<or> (\<exists>i v. holds es i k v)" by (cases i) (auto simp: holds_def)
  next
    assume "k = k' \<or> (\<exists>i v. holds es i k v)"
    then show "\<exists>i v. holds (Used k' v' # es) i k v"
    proof
      assume "k = k'"
      then have "holds (Used k' v' # es) 0 k v'" by (simp add: holds_def)
      then show ?thesis by blast
    next
      assume "\<exists>i v. holds es i k v"
      then obtain i v where "holds es i k v" by blast
      then have "holds (Used k' v' # es) (Suc i) k v" by (simp add: holds_def)
      then show ?thesis by blast
    qed
  qed
  then show ?case using used by auto
next
  case (empty es)
  have "holds (Empty # es) i k v \<longleftrightarrow> (\<exists>j. i = Suc j \<and> holds es j k v)" for i v by (cases i) (auto simp: holds_def)
  then show ?case using empty by auto
next
  case (deleted es)
  have "holds (Deleted # es) i k v \<longleftrightarrow> (\<exists>j. i = Suc j \<and> holds es j k v)" for i v by (cases i) (auto simp: holds_def)
  then show ?case using deleted by auto
qed (simp add: holds_def)

lemma usedKeys_distinct: "(\<forall>i i' k v v'. holds es i k v \<longrightarrow> holds es i' k v' \<longrightarrow> i = i') \<Longrightarrow> distinct (usedKeys es)"
proof (induction es rule: usedKeys.induct[case_names none used empty deleted])
  case (used k' v' es)
  have shift: "holds es i k v \<Longrightarrow> holds (Used k' v' # es) (Suc i) k v" for i k v by (simp add: holds_def)
  have "holds (Used k' v' # es) 0 k' v'" by (simp add: holds_def)
  then have "\<not> holds es i k' v" for i v using used(2) shift by (metis nat.distinct(1))
  then have "k' \<notin> set (usedKeys es)" by (simp add: usedKeys_holds)
  moreover have "\<forall>i i' k v v'. holds es i k v \<longrightarrow> holds es i' k v' \<longrightarrow> i = i'" using used(2) shift by (metis Suc_inject)
  ultimately show ?case using used(1) by simp
next
  case (empty es)
  have shift: "holds es i k v \<Longrightarrow> holds (Empty # es) (Suc i) k v" for i k v by (simp add: holds_def)
  then have "\<forall>i i' k v v'. holds es i k v \<longrightarrow> holds es i' k v' \<longrightarrow> i = i'" using empty(2) by (metis Suc_inject)
  then show ?case using empty(1) by simp
next
  case (deleted es)
  have shift: "holds es i k v \<Longrightarrow> holds (Deleted # es) (Suc i) k v" for i k v by (simp add: holds_def)
  then have "\<forall>i i' k v v'. holds es i k v \<longrightarrow> holds es i' k v' \<longrightarrow> i = i'" using deleted(2) by (metis Suc_inject)
  then show ?case using deleted(1) by simp
qed simp

lemma usedKeys_length: "length (usedKeys es) = usedCount es"
  by (induction es rule: usedKeys.induct) (simp_all add: usedCount_def isUsed_def)

lemma dict_keys_correct:
  assumes "dict_ok d"
  shows "distinct (usedKeys (entries d))" "set (usedKeys (entries d)) = dom (dictMap (entries d))"
    "dict_length d = card (dom (dictMap (entries d)))"
proof -
  have inv: "table_inv (entries d)" using assms by (simp add: dict_ok_def)
  show d: "distinct (usedKeys (entries d))" using inv unfolding table_inv_def by (intro usedKeys_distinct) blast
  have "k \<in> set (usedKeys (entries d)) \<longleftrightarrow> dictMap (entries d) k \<noteq> None" for k
    using usedKeys_holds[of k "entries d"] dictMap_None[of "entries d" k] by metis
  then show s: "set (usedKeys (entries d)) = dom (dictMap (entries d))" by (auto simp only: domIff)
  show "dict_length d = card (dom (dictMap (entries d)))"
    using distinct_card[OF d] usedKeys_length[of "entries d"] assms s by (simp add: dict_ok_def)
qed

section \<open>Runs\<close>

datatype DictOp = Put string "64 word" | Remove string

fun dictOp :: "DictOp \<Rightarrow> VisualDict option \<Rightarrow> VisualDict option rt" where
  "dictOp (Put k v) d = dict_set d (Some k) v"
| "dictOp (Remove k) d = Inr (dict_remove d (Some k))"

fun mapOp :: "DictOp \<Rightarrow> (string \<rightharpoonup> 64 word) \<Rightarrow> string \<rightharpoonup> 64 word" where
  "mapOp (Put k v) m = m(k \<mapsto> v)"
| "mapOp (Remove k) m = m(k := None)"

lemma dict_ops_correct:
  assumes "dict_ok d" "dictCap d \<le> max 16 (4 * n)" "dict_length d \<le> n" "n + length ops \<le> 2 ^ 58"
  shows "\<exists>d'. eachT dictOp ops (Some d) = Inr (Some d') \<and> dict_ok d' \<and> dictMap (entries d') = fold mapOp ops (dictMap (entries d))"
  using assms
proof (induction ops arbitrary: d n)
  case (Cons x ops)
  have n: "n + 1 + length ops \<le> 2 ^ 58" using Cons.prems(4) by simp
  then have room: "dictCap d \<le> 2 ^ 61" using Cons.prems(2) by simp
  show ?case
  proof (cases x)
    case (Put k v)
    obtain d1 where d1: "dictPut k v d = Inr d1" "dict_ok d1" "dictMap (entries d1) = (dictMap (entries d))(k \<mapsto> v)"
      "dict_length d1 \<le> dict_length d + 1" "dictCap d1 \<le> max (dictCap d) (4 * (dict_length d + 1))"
      by (rule dict_put_correct[OF Cons.prems(1) room])
    have "dictCap d1 \<le> max 16 (4 * (n + 1))" "dict_length d1 \<le> n + 1" using d1(4,5) Cons.prems(2,3) by auto
    from Cons.IH[OF d1(2) this n] show ?thesis using d1(1,3) Put by (auto simp: dict_set_def simp del: fun_upd_apply)
  next
    case (Remove k)
    let ?d = "removeFrom k (map (\<lambda>i. unat (dict_hash k + of_nat i) mod dictCap d) [0..<dictCap d]) d"
    note R = dict_remove_correct[OF Cons.prems(1) room, of k]
    have "dictCap ?d \<le> max 16 (4 * (n + 1))" "dict_length ?d \<le> n + 1" using R(3,4) Cons.prems(2,3) by auto
    from Cons.IH[OF R(1) this n] show ?thesis using R(2) Remove by (auto simp: dict_remove_def simp del: fun_upd_apply)
  qed
qed simp

text \<open>
  C31. After any sequence of at most \<^verbatim>\<open>2 ^ 58\<close> insertions and removals on a new dictionary, none of which fails or
  probes outside the table, the dictionary answers as the finite map that the sequence builds: a lookup gives the
  value last stored for its key, or the error for a missing key; membership, length and the list of keys, each
  listed once, are those of the map.
\<close>

theorem dict_refines:
  assumes "length ops \<le> 2 ^ 58"
  defines "m \<equiv> fold mapOp ops Map.empty"
  shows "\<exists>d. eachT dictOp ops (Some dict_new) = Inr (Some d)
    \<and> (\<forall>k. dict_get (Some d) (Some k) = (case m k of Some v \<Rightarrow> Inr v | None \<Rightarrow> Inl (RtExit ''KeyError''))
          \<and> dict_has (Some d) (Some k) = (m k \<noteq> None))
    \<and> dict_len (Some d) = card (dom m) \<and> set (dict_keys (Some d)) = dom m \<and> distinct (dict_keys (Some d))"
proof -
  obtain d where d: "eachT dictOp ops (Some dict_new) = Inr (Some d)" "dict_ok d" "dictMap (entries d) = m"
    using dict_ops_correct[OF dict_new_correct(1), of 0 ops] assms dict_new_correct(2) by (auto simp: dict_new_def DICT_INIT_CAP_def)
  show ?thesis
    using d(1) dict_get_correct[OF d(2)] dict_keys_correct[OF d(2)] d(3)
    by (intro exI[of _ d]) (simp add: dict_get_def dict_has_def dict_len_def dict_keys_def split: option.split)
qed

theorem dict_refines_witness:
  "\<exists>d. eachT dictOp [Put ''a'' 1, Put ''b'' 2, Put ''a'' 3, Remove ''b''] (Some dict_new) = Inr (Some d)
     \<and> dict_get (Some d) (Some ''a'') = Inr 3 \<and> dict_get (Some d) (Some ''b'') = Inl (RtExit ''KeyError'')"
  using dict_refines[of "[Put ''a'' 1, Put ''b'' 2, Put ''a'' 3, Remove ''b'']"] by (simp add: fun_upd_def) force

end
