(* ===== verification/Rt_List.thy ===== *)
theory Rt_List
  imports Rt_Base
begin

text \<open>
  The lists of the runtime library (\<^verbatim>\<open>stdlib/runtime.c\<close>) and what is built on them: tuples, slices, ranges, the
  builtins \<^verbatim>\<open>sorted\<close>, \<^verbatim>\<open>reversed\<close>, \<^verbatim>\<open>enumerate\<close> and \<^verbatim>\<open>zip\<close>, stacks, queues, sets and the random functions on lists.
  A null pointer is \<^verbatim>\<open>None\<close>; a cell of a buffer that was never written is \<^verbatim>\<open>None\<close>.
\<close>

section \<open>Lists\<close>

record VisualList =
  data :: "64 word option list"
  list_length :: int
  capacity :: int

definition mallocCells :: "int \<Rightarrow> 64 word option list" where
  "mallocCells n = replicate (nat (8 * n mod 2 ^ 64) div 8) None"

definition reallocCells :: "int \<Rightarrow> 64 word option list \<Rightarrow> 64 word option list" where
  "reallocCells n cells = (let m = nat (8 * n mod 2 ^ 64) div 8 in take m cells @ replicate (m - length cells) None)"

definition readAt :: "int \<Rightarrow> VisualList \<Rightarrow> 64 word rt" where
  "readAt i list =
     (if 0 \<le> i \<and> i < int (length (data list)) then
        case data list ! nat i of None \<Rightarrow> Inl Outside | Some v \<Rightarrow> Inr v
      else Inl Outside)"

definition writeAt :: "int \<Rightarrow> 64 word \<Rightarrow> VisualList \<Rightarrow> VisualList rt" where
  "writeAt i value list =
     (if 0 \<le> i \<and> i < int (length (data list)) then Inr (list\<lparr>data := (data list)[nat i := Some value]\<rparr>)
      else Inl Outside)"

definition list_new :: VisualList where
  "list_new = \<lparr>data = mallocCells 8, list_length = 0, capacity = 8\<rparr>"

definition grow :: "string \<Rightarrow> VisualList \<Rightarrow> VisualList rt" where
  "grow what list =
     (if list_length list \<ge> capacity list then
        if capacity list > INT64_MAX div 2 then Inl (RtExit (what @ '' capacity overflow''))
        else let cap = capacity list * 2 in
          if cap > SIZE_MAX div 8 then Inl (RtExit (what @ '' allocation size overflow''))
          else Inr (list\<lparr>data := reallocCells cap (data list), capacity := cap\<rparr>)
      else Inr list)"

definition storeLast :: "64 word \<Rightarrow> VisualList \<Rightarrow> VisualList rt" where
  "storeLast value list = bindT (writeAt (list_length list) value list)
     (\<lambda>list. Inr (list\<lparr>list_length := list_length list + 1\<rparr>))"

definition pushTo :: "64 word \<Rightarrow> VisualList \<Rightarrow> VisualList rt" where
  "pushTo value list = bindT (grow ''list'' list) (storeLast value)"

definition list_push :: "VisualList option \<Rightarrow> 64 word \<Rightarrow> VisualList option rt" where
  "list_push list value = (case list of None \<Rightarrow> Inr None | Some list \<Rightarrow> bindT (pushTo value list) (\<lambda>list. Inr (Some list)))"

definition list_get :: "VisualList option \<Rightarrow> int \<Rightarrow> 64 word rt" where
  "list_get list i = (case list of
     None \<Rightarrow> Inl (RtExit ''IndexError'')
   | Some list \<Rightarrow> if i < 0 \<or> i \<ge> list_length list then Inl (RtExit ''IndexError'') else readAt i list)"

definition list_set :: "VisualList option \<Rightarrow> int \<Rightarrow> 64 word \<Rightarrow> VisualList option rt" where
  "list_set list i value = (case list of
     None \<Rightarrow> Inl (RtExit ''IndexError'')
   | Some list \<Rightarrow> if i < 0 \<or> i \<ge> list_length list then Inl (RtExit ''IndexError'')
                  else bindT (writeAt i value list) (\<lambda>list. Inr (Some list)))"

definition shiftDown :: "int \<Rightarrow> VisualList \<Rightarrow> VisualList rt" where
  "shiftDown i list = bindT (readAt (i + 1) list) (\<lambda>v. writeAt i v list)"

definition list_remove :: "VisualList option \<Rightarrow> int \<Rightarrow> VisualList option rt" where
  "list_remove list index = (case list of
     None \<Rightarrow> Inl (RtExit ''IndexError'')
   | Some list \<Rightarrow> if index < 0 \<or> index \<ge> list_length list then Inl (RtExit ''IndexError'')
                  else bindT (forUp index (list_length list - 1) 1 shiftDown list)
                         (\<lambda>list. Inr (Some (list\<lparr>list_length := list_length list - 1\<rparr>))))"

definition list_len :: "VisualList option \<Rightarrow> int" where
  "list_len list = (case list of None \<Rightarrow> 0 | Some list \<Rightarrow> list_length list)"

definition tuple_new :: "int \<Rightarrow> VisualList" where
  "tuple_new count = (let cap = if count > 0 then count else 1 in
     \<lparr>data = mallocCells cap, list_length = 0, capacity = cap\<rparr>)"

text \<open>The body of the loops that append the elements of one list to another.\<close>

definition pushFrom :: "VisualList \<Rightarrow> int \<Rightarrow> VisualList \<Rightarrow> VisualList rt" where
  "pushFrom src i out = bindT (readAt i src) (\<lambda>v. pushTo v out)"

definition clampIndex :: "int \<Rightarrow> int \<Rightarrow> int" where
  "clampIndex len i =
     (let i = if i < 0 then (if i + len < 0 then 0 else i + len) else i in if i > len then len else i)"

definition list_slice :: "VisualList option \<Rightarrow> int \<Rightarrow> int \<Rightarrow> int \<Rightarrow> VisualList rt" where
  "list_slice list start stop step = (case list of
     None \<Rightarrow> Inr list_new
   | Some list \<Rightarrow>
       let len = list_length list; start = clampIndex len start; stop = clampIndex len stop;
           step = if step = 0 then 1 else step
       in forStep start stop step (pushFrom list) list_new)"

definition list_contains :: "VisualList option \<Rightarrow> 64 word \<Rightarrow> bool rt" where
  "list_contains list value = (case list of
     None \<Rightarrow> Inr False
   | Some list \<Rightarrow> forUp 0 (list_length list) 1
       (\<lambda>i found. if found then Inr True else bindT (readAt i list) (\<lambda>v. Inr (v = value))) False)"

section \<open>Builtins that make lists\<close>

definition list_range :: "int \<Rightarrow> int \<Rightarrow> int \<Rightarrow> VisualList rt" where
  "list_range start stop step =
     (if step = 0 then Inr list_new else forStep start stop step (\<lambda>i. pushTo (word_of_int i)) list_new)"

definition cmp_int64_asc :: "64 word \<Rightarrow> 64 word \<Rightarrow> int" where
  "cmp_int64_asc a b = of_bool (sint a > sint b) - of_bool (sint a < sint b)"

text \<open>
  \<^verbatim>\<open>qsort\<close> of the C library puts the first elements of the buffer into the order of the comparison. Values that
  compare as equal are equal, so the order of all of them is determined.
\<close>

fun insertBy :: "('a \<Rightarrow> 'a \<Rightarrow> int) \<Rightarrow> 'a \<Rightarrow> 'a list \<Rightarrow> 'a list" where
  "insertBy cmp x [] = [x]"
| "insertBy cmp x (y # ys) = (if cmp x y \<le> 0 then x # y # ys else y # insertBy cmp x ys)"

definition qsort :: "VisualList \<Rightarrow> VisualList rt" where
  "qsort list = (let n = nat (list_length list) in
     if n \<le> length (data list) \<and> None \<notin> set (take n (data list)) then
       Inr (list\<lparr>data := map Some (foldr (insertBy cmp_int64_asc) (map the (take n (data list))) []) @ drop n (data list)\<rparr>)
     else Inl Outside)"

definition list_sorted :: "VisualList option \<Rightarrow> VisualList rt" where
  "list_sorted src = (case src of
     None \<Rightarrow> Inr list_new
   | Some src \<Rightarrow> bindT (forUp 0 (list_length src) 1 (pushFrom src) list_new) qsort)"

definition list_reversed :: "VisualList option \<Rightarrow> VisualList rt" where
  "list_reversed src = (case src of
     None \<Rightarrow> Inr list_new
   | Some src \<Rightarrow> forDown (list_length src - 1) (- 1) (- 1) (pushFrom src) list_new)"

definition list_enumerate :: "VisualList option \<Rightarrow> VisualList rt" where
  "list_enumerate src = (case src of
     None \<Rightarrow> Inr list_new
   | Some src \<Rightarrow> forUp 0 (list_length src) 1
       (\<lambda>i out. bindT (pushTo (word_of_int i) out) (pushFrom src i)) list_new)"

definition list_zip :: "VisualList option \<Rightarrow> VisualList option \<Rightarrow> VisualList rt" where
  "list_zip a b = (case (a, b) of
     (Some a, Some b) \<Rightarrow>
       forUp 0 (if list_length a < list_length b then list_length a else list_length b) 1
         (\<lambda>i out. bindT (pushFrom a i out) (pushFrom b i)) list_new
   | _ \<Rightarrow> Inr list_new)"

section \<open>Stacks and queues\<close>

record VisualStack =
  stack_list :: VisualList

definition stack_new :: VisualStack where
  "stack_new = \<lparr>stack_list = list_new\<rparr>"

definition stack_push :: "VisualStack option \<Rightarrow> 64 word \<Rightarrow> VisualStack option rt" where
  "stack_push s val = (case s of
     None \<Rightarrow> Inr None
   | Some s \<Rightarrow> bindT (pushTo val (stack_list s)) (\<lambda>list. Inr (Some (s\<lparr>stack_list := list\<rparr>))))"

definition stack_pop :: "VisualStack option \<Rightarrow> (64 word \<times> VisualStack option) rt" where
  "stack_pop s = (case s of
     None \<Rightarrow> Inl (RtExit ''StackError'')
   | Some s \<Rightarrow> if list_length (stack_list s) = 0 then Inl (RtExit ''StackError'')
       else let list = stack_list s; n = list_length list - 1 in
         bindT (readAt n list) (\<lambda>v. Inr (v, Some (s\<lparr>stack_list := list\<lparr>list_length := n\<rparr>\<rparr>))))"

definition stack_peek :: "VisualStack option \<Rightarrow> 64 word rt" where
  "stack_peek s = (case s of
     None \<Rightarrow> Inl (RtExit ''StackError'')
   | Some s \<Rightarrow> if list_length (stack_list s) = 0 then Inl (RtExit ''StackError'')
       else readAt (list_length (stack_list s) - 1) (stack_list s))"

definition stack_is_empty :: "VisualStack option \<Rightarrow> bool" where
  "stack_is_empty s = (case s of None \<Rightarrow> True | Some s \<Rightarrow> list_length (stack_list s) = 0)"

definition stack_size :: "VisualStack option \<Rightarrow> int" where
  "stack_size s = (case s of None \<Rightarrow> 0 | Some s \<Rightarrow> list_length (stack_list s))"

record VisualQueue =
  queue_list :: VisualList
  front :: int

definition queue_new :: VisualQueue where
  "queue_new = \<lparr>queue_list = list_new, front = 0\<rparr>"

definition queue_enqueue :: "VisualQueue option \<Rightarrow> 64 word \<Rightarrow> VisualQueue option rt" where
  "queue_enqueue q val = (case q of
     None \<Rightarrow> Inr None
   | Some q \<Rightarrow> bindT (pushTo val (queue_list q)) (\<lambda>list. Inr (Some (q\<lparr>queue_list := list\<rparr>))))"

definition queue_dequeue :: "VisualQueue option \<Rightarrow> (64 word \<times> VisualQueue option) rt" where
  "queue_dequeue q = (case q of
     None \<Rightarrow> Inl (RtExit ''QueueError'')
   | Some q \<Rightarrow> if front q \<ge> list_length (queue_list q) then Inl (RtExit ''QueueError'')
       else bindT (readAt (front q) (queue_list q)) (\<lambda>v. Inr (v, Some (q\<lparr>front := front q + 1\<rparr>))))"

definition queue_is_empty :: "VisualQueue option \<Rightarrow> bool" where
  "queue_is_empty q = (case q of None \<Rightarrow> True | Some q \<Rightarrow> front q \<ge> list_length (queue_list q))"

definition queue_size :: "VisualQueue option \<Rightarrow> int" where
  "queue_size q = (case q of None \<Rightarrow> 0 | Some q \<Rightarrow> list_length (queue_list q) - front q)"

section \<open>Sets\<close>

text \<open>The structure has the fields of a list, in the same order.\<close>

type_synonym VisualSet = VisualList

definition set_new :: VisualSet where
  "set_new = \<lparr>data = mallocCells 8, list_length = 0, capacity = 8\<rparr>"

function findFrom :: "VisualSet \<Rightarrow> 64 word \<Rightarrow> int \<Rightarrow> int rt" where
  "findFrom s val i =
     (if i < list_length s then bindT (readAt i s) (\<lambda>v. if v = val then Inr i else findFrom s val (i + 1))
      else Inr (- 1))"
  by pat_completeness auto

termination findFrom
  by (relation "measure (\<lambda>(s, val, i). nat (list_length s - i))") auto

definition set_find_idx :: "VisualSet \<Rightarrow> 64 word \<Rightarrow> int rt" where
  "set_find_idx s val = findFrom s val 0"

definition addTo :: "64 word \<Rightarrow> VisualSet \<Rightarrow> VisualSet rt" where
  "addTo val s = bindT (set_find_idx s val)
     (\<lambda>idx. if idx \<ge> 0 then Inr s else bindT (grow ''set'' s) (storeLast val))"

definition set_add :: "VisualSet option \<Rightarrow> 64 word \<Rightarrow> VisualSet option rt" where
  "set_add s val = (case s of None \<Rightarrow> Inr None | Some s \<Rightarrow> bindT (addTo val s) (\<lambda>s. Inr (Some s)))"

definition set_remove :: "VisualSet option \<Rightarrow> 64 word \<Rightarrow> VisualSet option rt" where
  "set_remove s val = (case s of
     None \<Rightarrow> Inr None
   | Some s \<Rightarrow> bindT (set_find_idx s val)
       (\<lambda>idx. if idx < 0 then Inr (Some s)
              else let s = s\<lparr>list_length := list_length s - 1\<rparr> in
                bindT (readAt (list_length s) s) (\<lambda>v. bindT (writeAt idx v s) (\<lambda>s. Inr (Some s)))))"

definition set_contains :: "VisualSet option \<Rightarrow> 64 word \<Rightarrow> bool rt" where
  "set_contains s val = (case s of None \<Rightarrow> Inr False | Some s \<Rightarrow> bindT (set_find_idx s val) (\<lambda>idx. Inr (idx \<ge> 0)))"

definition set_size :: "VisualSet option \<Rightarrow> int" where
  "set_size s = (case s of None \<Rightarrow> 0 | Some s \<Rightarrow> list_length s)"

definition set_to_list :: "VisualSet option \<Rightarrow> VisualList rt" where
  "set_to_list s = (case s of
     None \<Rightarrow> Inr list_new | Some s \<Rightarrow> forUp 0 (list_length s) 1 (pushFrom s) list_new)"

definition addAll :: "VisualSet option \<Rightarrow> VisualSet \<Rightarrow> VisualSet rt" where
  "addAll a out = (case a of
     None \<Rightarrow> Inr out
   | Some a \<Rightarrow> forUp 0 (list_length a) 1 (\<lambda>i out. bindT (readAt i a) (\<lambda>v. addTo v out)) out)"

definition set_union :: "VisualSet option \<Rightarrow> VisualSet option \<Rightarrow> VisualSet rt" where
  "set_union a b = bindT (addAll a set_new) (addAll b)"

definition set_intersect :: "VisualSet option \<Rightarrow> VisualSet option \<Rightarrow> VisualSet rt" where
  "set_intersect a b = (case (a, b) of
     (Some a, Some b) \<Rightarrow> forUp 0 (list_length a) 1
       (\<lambda>i out. bindT (readAt i a) (\<lambda>v. bindT (set_contains (Some b) v)
          (\<lambda>c. if c then bindT (readAt i a) (\<lambda>v. addTo v out) else Inr out))) set_new
   | _ \<Rightarrow> Inr set_new)"

section \<open>Random choices\<close>

text \<open>
  \<^verbatim>\<open>rand\<close> of the C library is the parameter: the numbers that it still delivers. A conversion to \<^verbatim>\<open>int\<close> keeps the low
  32 bits, and a remainder with divisor zero is undefined.
\<close>

definition toInt :: "int \<Rightarrow> int" where
  "toInt x = sint (word_of_int x :: 32 word)"

definition randMod :: "int \<Rightarrow> int \<Rightarrow> int rt" where
  "randMod r m = (let m = toInt m in if m = 0 then Inl Undefined else Inr (sgn r * (\<bar>r\<bar> mod \<bar>m\<bar>)))"

definition random_randint :: "int \<Rightarrow> int \<Rightarrow> int \<Rightarrow> int rt" where
  "random_randint r lo hi =
     (if hi < lo then Inr lo
      else if hi - lo > INT64_MAX \<or> hi - lo + 1 > INT64_MAX then Inl Undefined
      else bindT (randMod r (hi - lo + 1)) (\<lambda>x. Inr (lo + x)))"

definition random_choice :: "int \<Rightarrow> VisualList option \<Rightarrow> 64 word rt" where
  "random_choice r lst = (case lst of
     None \<Rightarrow> Inl (RtExit ''RandomError'')
   | Some lst \<Rightarrow> if list_length lst = 0 then Inl (RtExit ''RandomError'')
       else bindT (randMod r (list_length lst)) (\<lambda>idx. readAt idx lst))"

definition swapStep :: "(int \<Rightarrow> int) \<Rightarrow> int \<Rightarrow> VisualList \<Rightarrow> VisualList rt" where
  "swapStep rnd i lst = bindT (randMod (rnd i) (i + 1))
     (\<lambda>j. bindT (readAt i lst) (\<lambda>tmp. bindT (readAt j lst) (\<lambda>v. bindT (writeAt i v lst) (writeAt j tmp))))"

definition random_shuffle :: "(int \<Rightarrow> int) \<Rightarrow> VisualList option \<Rightarrow> VisualList option rt" where
  "random_shuffle rnd lst = (case lst of
     None \<Rightarrow> Inr None
   | Some lst \<Rightarrow> bindT (forDown (list_length lst - 1) 0 (- 1) (swapStep rnd) lst) (\<lambda>lst. Inr (Some lst)))"

end
