(* ===== verification/Rt_List_Props.thy ===== *)
theory Rt_List_Props
  imports Rt_List
begin

text \<open>
  The lists of the runtime library implement sequences: what a list holds are the first cells of its buffer, and
  every operation acts on them as it should, as long as fewer than \<^verbatim>\<open>2 ^ 59\<close> elements are stored.
\<close>

section \<open>Appending\<close>

text \<open>What the loops that build a list rely on: appending a value never fails while there are few.\<close>

locale pushing =
  fixes push :: "'v \<Rightarrow> 'l \<Rightarrow> 'l rt" and elems :: "'l \<Rightarrow> 'v list" and small :: "nat \<Rightarrow> 'l \<Rightarrow> bool"
  assumes push_small: "small n l \<Longrightarrow> n < 2 ^ 59 \<Longrightarrow> \<exists>l'. push v l = Inr l' \<and> small (n + 1) l' \<and> elems l' = elems l @ [v]"
begin

lemma push_all:
  "small n l \<Longrightarrow> n + length vs \<le> 2 ^ 59 \<Longrightarrow>
     \<exists>l'. eachT push vs l = Inr l' \<and> small (n + length vs) l' \<and> elems l' = elems l @ vs"
proof (induction vs arbitrary: n l)
  case (Cons v vs)
  obtain l1 where l1: "push v l = Inr l1" "small (n + 1) l1" "elems l1 = elems l @ [v]"
    using push_small[OF Cons.prems(1), of v] Cons.prems(2) by auto
  have "n + 1 + length vs \<le> 2 ^ 59" using Cons.prems(2) by simp
  then show ?case using Cons.IH[OF l1(2)] l1(1,3) by auto
qed simp

lemma push_loop:
  assumes "small n l" "n + length (concat (map f is)) \<le> 2 ^ 59" "\<And>i l. i \<in> set is \<Longrightarrow> body i l = eachT push (f i) l"
  shows "\<exists>l'. eachT body is l = Inr l' \<and> small (n + length (concat (map f is))) l' \<and> elems l' = elems l @ concat (map f is)"
proof -
  have "eachT body is l = eachT push (concat (map f is)) l" using assms(3)
  proof (induction "is" arbitrary: l)
    case (Cons i "is")
    have app: "eachT push (xs @ ys) l = bindT (eachT push xs l) (eachT push ys)" for xs ys l
      by (induction xs arbitrary: l) (auto simp: bindT_def split: sum.split)
    have "eachT body is l = eachT push (concat (map f is)) l" for l using Cons by simp
    then show ?case using Cons.prems by (auto simp: app intro!: bindT_cong)
  qed simp
  then show ?thesis using push_all[OF assms(1,2)] by simp
qed

end

section \<open>The elements of a list\<close>

definition contents :: "VisualList \<Rightarrow> 64 word list" where
  "contents l = map the (take (nat (list_length l)) (data l))"

definition list_ok :: "VisualList \<Rightarrow> bool" where
  "list_ok l \<longleftrightarrow> 0 \<le> list_length l \<and> list_length l \<le> capacity l \<and> 1 \<le> capacity l
     \<and> capacity l = int (length (data l)) \<and> (\<forall>i < nat (list_length l). data l ! i \<noteq> None)"

definition sized :: "nat \<Rightarrow> VisualList \<Rightarrow> bool" where
  "sized n l \<longleftrightarrow> list_ok l \<and> list_length l \<le> int n \<and> capacity l \<le> max 8 (2 * int n)"

lemma sized_ok [simp]: "sized n l \<Longrightarrow> list_ok l"
  by (simp add: sized_def)

lemma sized_mono: "sized m l \<Longrightarrow> m \<le> n \<Longrightarrow> sized n l"
  by (auto simp: sized_def)

lemma contents_length [simp]: "list_ok l \<Longrightarrow> length (contents l) = nat (list_length l)"
  by (auto simp: contents_def list_ok_def)

lemma length_contents: "list_ok l \<Longrightarrow> list_length l = int (length (contents l))"
  by (simp add: list_ok_def)

lemma new_sized [simp]: "sized 0 list_new" "contents list_new = []" "list_length list_new = 0"
  by (simp_all add: sized_def list_ok_def list_new_def mallocCells_def contents_def)

lemma readAt_contents: "list_ok l \<Longrightarrow> 0 \<le> i \<Longrightarrow> i < list_length l \<Longrightarrow> readAt i l = Inr (contents l ! nat i)"
  by (auto simp: readAt_def list_ok_def contents_def nat_less_iff split: option.split)

lemma write_contents:
  assumes "list_ok l" "0 \<le> i" "i < list_length l"
  shows "\<exists>l'. writeAt i v l = Inr l' \<and> list_ok l' \<and> contents l' = (contents l)[nat i := v] \<and> capacity l' = capacity l
    \<and> list_length l' = list_length l"
  using assms by (auto simp: writeAt_def list_ok_def contents_def nth_list_update map_update take_update_swap nat_less_iff)

lemma grow_room:
  assumes "sized n l" "n < 2 ^ 59"
  shows "\<exists>l'. grow what l = Inr l' \<and> sized (n + 1) l' \<and> list_length l' < capacity l' \<and> contents l' = contents l
    \<and> list_length l' = list_length l"
proof (cases "list_length l \<ge> capacity l")
  case True
  have c: "capacity l = list_length l" "capacity l \<le> int n" using True assms(1) by (auto simp: sized_def list_ok_def)
  have n: "int n < 2 ^ 59" using assms(2) by simp
  have ok: "\<not> capacity l > INT64_MAX div 2" "\<not> capacity l * 2 > SIZE_MAX div 8"
    using c(2) n by (simp_all add: INT64_MAX_def SIZE_MAX_def)
  have cells: "nat (8 * (capacity l * 2) mod 2 ^ 64) div 8 = nat (capacity l * 2)"
  proof -
    have "0 \<le> capacity l" using assms(1) by (simp add: sized_def list_ok_def)
    moreover have "8 * (capacity l * 2) < 2 ^ 64" using c(2) n by simp
    ultimately have "8 * (capacity l * 2) mod 2 ^ 64 = 8 * (capacity l * 2)" by (intro mod_pos_pos_trivial) auto
    then show ?thesis by (simp add: nat_mult_distrib)
  qed
  have len: "length (data l) = nat (capacity l)" "1 \<le> capacity l" using assms(1) by (auto simp: sized_def list_ok_def)
  let ?l = "l\<lparr>data := reallocCells (capacity l * 2) (data l), capacity := capacity l * 2\<rparr>"
  have g: "grow what l = Inr ?l" using True ok by (simp add: grow_def Let_def)
  have d: "data ?l = data l @ replicate (nat (capacity l)) None"
    using len cells by (simp add: reallocCells_def Let_def nat_mult_distrib)
  have "contents ?l = contents l" using d len c(1) by (simp add: contents_def)
  moreover have "sized (n + 1) ?l" using d len c assms(1)
    by (auto simp: sized_def list_ok_def nth_append nat_mult_distrib)
  ultimately show ?thesis using g len c by auto
qed (use assms(1) in \<open>auto simp: grow_def sized_def\<close>)

lemma storeLast_room:
  assumes "sized n l" "list_length l < capacity l" "list_length l < int n"
  shows "\<exists>l'. storeLast v l = Inr l' \<and> sized n l' \<and> contents l' = contents l @ [v]"
proof -
  let ?l = "l\<lparr>data := (data l)[nat (list_length l) := Some v], list_length := list_length l + 1\<rparr>"
  have b: "0 \<le> list_length l" "list_length l < int (length (data l))" using assms by (auto simp: sized_def list_ok_def)
  then have "storeLast v l = Inr ?l" by (simp add: storeLast_def writeAt_def)
  moreover have "nat (list_length l + 1) = Suc (nat (list_length l))" "nat (list_length l) < length (data l)" using b by linarith+
  moreover from this have "contents ?l = contents l @ [v]" by (simp add: contents_def take_Suc_conv_app_nth)
  ultimately show ?thesis using assms by (auto simp: sized_def list_ok_def nth_list_update less_Suc_eq)
qed

lemma push_sized:
  assumes "sized n l" "n < 2 ^ 59"
  shows "\<exists>l'. pushTo v l = Inr l' \<and> sized (n + 1) l' \<and> contents l' = contents l @ [v]"
proof -
  obtain l1 where l1: "grow ''list'' l = Inr l1" "sized (n + 1) l1" "list_length l1 < capacity l1"
    "contents l1 = contents l" "list_length l1 = list_length l"
    using grow_room[OF assms, of "''list''"] by blast
  have "list_length l1 < int (n + 1)" using l1(5) assms(1) by (simp add: sized_def)
  then show ?thesis using storeLast_room[OF l1(2,3), of v] l1(1,4) by (simp add: pushTo_def)
qed

interpretation lists: pushing pushTo contents sized
  by unfold_locales (rule push_sized)

text \<open>Loops that append to a new list what they read.\<close>

lemma pushFrom_each: "list_ok src \<Longrightarrow> 0 \<le> i \<Longrightarrow> i < list_length src \<Longrightarrow> pushFrom src i l = eachT pushTo [contents src ! nat i] l"
  by (simp add: pushFrom_def readAt_contents bindT_def split: sum.split)

lemma copy_loop:
  assumes "list_ok src" "\<forall>i \<in> set is. 0 \<le> i \<and> i < list_length src" "length is \<le> 2 ^ 59"
  shows "\<exists>l. eachT (pushFrom src) is list_new = Inr l \<and> sized (length is) l \<and> contents l = map (\<lambda>i. contents src ! nat i) is"
proof -
  let ?f = "\<lambda>i. [contents src ! nat i]"
  have c: "concat (map ?f is) = map (\<lambda>i. contents src ! nat i) is" by simp
  show ?thesis
    using lists.push_loop[of 0 list_new ?f "is" "pushFrom src", OF new_sized(1)] assms pushFrom_each[OF assms(1)]
    unfolding c by auto
qed

lemma map_nth_upto: "map (\<lambda>i. xs ! nat i) [0..int (length xs) - 1] = xs"
  by (rule nth_equalityI) auto

lemma elements_loop:
  assumes "sized n src" "n \<le> 2 ^ 59"
  shows "\<exists>l. forUp 0 (list_length src) 1 (pushFrom src) list_new = Inr l \<and> sized n l \<and> contents l = contents src"
proof -
  have ok: "list_ok src" "list_length src \<le> int n" using assms(1) by (simp_all add: sized_def)
  have len: "list_length src = int (length (contents src))" by (rule length_contents[OF ok(1)])
  have few: "nat (list_length src) \<le> 2 ^ 59" using ok(2) assms(2) by linarith
  have "forUp 0 (list_length src) 1 (pushFrom src) list_new = eachT (pushFrom src) [0..list_length src - 1] list_new"
    using ok(2) assms(2) by (subst forUp_each) (auto simp: INT64_MAX_def upTo_one)
  moreover obtain l where l: "eachT (pushFrom src) [0..list_length src - 1] list_new = Inr l"
    "sized (length [0..list_length src - 1]) l" "contents l = map (\<lambda>i. contents src ! nat i) [0..list_length src - 1]"
    using copy_loop[OF ok(1), of "[0..list_length src - 1]"] few by auto
  moreover have "contents l = contents src" using l(3) map_nth_upto[of "contents src"] len by simp
  moreover have "sized n l" using l(2) ok(2) by (intro sized_mono[OF l(2)]) simp
  ultimately show ?thesis by simp
qed

section \<open>Removal\<close>

lemma shift_step:
  assumes "list_ok l" "0 \<le> i" "i < list_length l - 1"
  shows "\<exists>l'. shiftDown i l = Inr l' \<and> list_ok l' \<and> contents l' = (contents l)[nat i := contents l ! nat (i + 1)]
    \<and> capacity l' = capacity l \<and> list_length l' = list_length l"
  using write_contents[OF assms(1,2), of "contents l ! nat (i + 1)"] readAt_contents[OF assms(1), of "i + 1"] assms(2,3)
  by (simp add: shiftDown_def)

lemma shift_loop:
  assumes "list_ok l" "0 \<le> i" "i < list_length l"
  shows "\<exists>l'. eachT shiftDown [i..list_length l - 2] l = Inr l' \<and> list_ok l' \<and> capacity l' = capacity l
    \<and> list_length l' = list_length l
    \<and> contents l' = take (nat i) (contents l) @ drop (nat i + 1) (contents l) @ [last (contents l)]"
  using assms
proof (induction "nat (list_length l - 1 - i)" arbitrary: l i)
  case 0
  then have i: "i = list_length l - 1" by linarith
  then have n: "nat i + 1 = length (contents l)" using 0 contents_length[OF 0(2)] by simp
  then have "contents l \<noteq> []" by auto
  note n this
  moreover from this have "take (nat i) (contents l) @ [last (contents l)] = contents l"
    by (metis add_diff_cancel_right' append_butlast_last_id butlast_conv_take)
  ultimately show ?case using 0 i by simp
next
  case (Suc m)
  have i: "i < list_length l - 1" using Suc(2) by linarith
  let ?xs = "contents l"
  let ?ys = "?xs[nat i := ?xs ! nat (i + 1)]"
  obtain l1 where l1: "shiftDown i l = Inr l1" "list_ok l1" "contents l1 = ?ys" "capacity l1 = capacity l" "list_length l1 = list_length l"
    using shift_step[OF Suc.prems(1,2) i] by blast
  have m: "m = nat (list_length l1 - 1 - (i + 1))" "0 \<le> i + 1" "i + 1 < list_length l1" using Suc(2) Suc.prems i l1(5) by linarith+
  have n: "nat (i + 1) = Suc (nat i)" "Suc (nat i) < length ?xs" using Suc.prems i by auto
  have eq: "take (Suc (nat i)) ?ys @ drop (Suc (nat i) + 1) ?ys @ [last ?ys] = take (nat i) ?xs @ drop (nat i + 1) ?xs @ [last ?xs]"
  proof -
    have "take (Suc (nat i)) ?ys = take (nat i) ?xs @ [?xs ! Suc (nat i)]" using n by (simp add: take_Suc_conv_app_nth)
    moreover have "?xs \<noteq> []" "nat i \<noteq> length ?xs - 1" using n by auto
    then have "last ?ys = last ?xs" by (simp add: last_conv_nth)
    moreover have "drop (Suc (nat i) + 1) ?ys = drop (Suc (nat i) + 1) ?xs" by simp
    moreover have "drop (nat i + 1) ?xs = ?xs ! Suc (nat i) # drop (Suc (nat i) + 1) ?xs" using n by (simp add: Cons_nth_drop_Suc)
    ultimately show ?thesis by simp
  qed
  have up: "[i..list_length l - 2] = i # [i + 1..list_length l1 - 2]" using i l1(5) by (simp add: upto_rec1)
  obtain l2 where l2: "eachT shiftDown [i + 1..list_length l1 - 2] l1 = Inr l2" "list_ok l2" "capacity l2 = capacity l1"
    "list_length l2 = list_length l1" "contents l2 = take (nat (i + 1)) ?ys @ drop (nat (i + 1) + 1) ?ys @ [last ?ys]"
    using Suc.hyps(1)[OF m(1) l1(2) m(2,3)] unfolding l1(3) by blast
  have "contents l2 = take (nat i) ?xs @ drop (nat i + 1) ?xs @ [last ?xs]" by (rule trans[OF l2(5)[unfolded n(1)] eq[unfolded n(1)]])
  then show ?case using l2(1-4) l1(1,4,5) unfolding up by simp
qed

lemma remove_contents:
  assumes "sized n l" "n \<le> 2 ^ 59" "0 \<le> i" "i < list_length l"
  shows "\<exists>l'. list_remove (Some l) i = Inr (Some l') \<and> sized n l' \<and> contents l' = take (nat i) (contents l) @ drop (nat i + 1) (contents l)"
proof -
  have ok: "list_ok l" "list_length l \<le> int n" using assms(1) by (simp_all add: sized_def)
  obtain l1 where l1: "eachT shiftDown [i..list_length l - 2] l = Inr l1" "list_ok l1" "capacity l1 = capacity l"
    "list_length l1 = list_length l" "contents l1 = take (nat i) (contents l) @ drop (nat i + 1) (contents l) @ [last (contents l)]"
    using shift_loop[OF ok(1) assms(3,4)] by blast
  let ?l = "l1\<lparr>list_length := list_length l1 - 1\<rparr>"
  have "forUp i (list_length l - 1) 1 shiftDown l = Inr l1"
    using ok(2) assms(2) l1(1) by (subst forUp_each) (auto simp: INT64_MAX_def upTo_one)
  then have "list_remove (Some l) i = Inr (Some ?l)" using assms(3,4) by (simp add: list_remove_def)
  moreover have "nat (list_length l1) \<le> length (data l1)" "nat (list_length l1 - 1) = nat (list_length l1) - 1"
    using l1(2) by (auto simp: list_ok_def)
  then have "contents ?l = butlast (contents l1)" by (simp add: contents_def map_butlast[symmetric] butlast_take)
  moreover have "sized n ?l" using assms l1(2-4) by (auto simp: sized_def list_ok_def)
  ultimately show ?thesis using l1(5) by (simp add: butlast_append)
qed

section \<open>Runs\<close>

datatype ListOp = Push "64 word" | Get int | Put int "64 word" | Del int

fun listOp :: "ListOp \<Rightarrow> VisualList option \<times> 64 word list \<Rightarrow> (VisualList option \<times> 64 word list) rt" where
  "listOp (Push v) (l, out) = bindT (list_push l v) (\<lambda>l. Inr (l, out))"
| "listOp (Get i) (l, out) = bindT (list_get l i) (\<lambda>v. Inr (l, out @ [v]))"
| "listOp (Put i v) (l, out) = bindT (list_set l i v) (\<lambda>l. Inr (l, out))"
| "listOp (Del i) (l, out) = bindT (list_remove l i) (\<lambda>l. Inr (l, out))"

definition within :: "int \<Rightarrow> 'a list \<Rightarrow> 'b \<Rightarrow> 'b rt" where
  "within i xs r = (if 0 \<le> i \<and> i < int (length xs) then Inr r else Inl (RtExit ''IndexError''))"

fun seqOp :: "ListOp \<Rightarrow> 64 word list \<times> 64 word list \<Rightarrow> (64 word list \<times> 64 word list) rt" where
  "seqOp (Push v) (xs, out) = Inr (xs @ [v], out)"
| "seqOp (Get i) (xs, out) = within i xs (xs, out @ [xs ! nat i])"
| "seqOp (Put i v) (xs, out) = within i xs (xs[nat i := v], out)"
| "seqOp (Del i) (xs, out) = within i xs (take (nat i) xs @ drop (nat i + 1) xs, out)"

text \<open>A run on the lists of the runtime library and a run on sequences have the same outcome.\<close>

definition sameRun :: "nat \<Rightarrow> (VisualList option \<times> 64 word list) rt \<Rightarrow> (64 word list \<times> 64 word list) rt \<Rightarrow> bool" where
  "sameRun n r q = (case q of
     Inl e \<Rightarrow> r = Inl e
   | Inr (xs, out) \<Rightarrow> (\<exists>l. r = Inr (Some l, out) \<and> sized n l \<and> contents l = xs))"

lemma op_same:
  assumes "sized n l" "n < 2 ^ 59"
  shows "sameRun (n + 1) (listOp op (Some l, out)) (seqOp op (contents l, out))"
proof -
  have len: "int (length (contents l)) = list_length l" and ok: "list_ok l"
    using assms(1) length_contents[of l] by simp_all
  have mono: "sized (n + 1) l" by (rule sized_mono[OF assms(1)]) simp
  show ?thesis
  proof (cases op)
    case (Push v)
    obtain l' where "pushTo v l = Inr l'" "sized (n + 1) l'" "contents l' = contents l @ [v]" using push_sized[OF assms, of v] by blast
    then show ?thesis by (simp add: Push sameRun_def list_push_def)
  next
    case (Get i)
    then show ?thesis using mono readAt_contents[OF ok, of i] len
      by (auto simp: sameRun_def list_get_def within_def simp del: contents_length)
  next
    case (Put i v)
    show ?thesis
    proof (cases "0 \<le> i \<and> i < list_length l")
      case True
      then obtain l' where l': "writeAt i v l = Inr l'" "list_ok l'" "contents l' = (contents l)[nat i := v]"
        "capacity l' = capacity l" "list_length l' = list_length l"
        using write_contents[OF ok, of i v] by blast
      have "sized (n + 1) l'" using mono l'(2,4,5) by (simp add: sized_def)
      then show ?thesis using True l'(1,3) len by (simp add: Put sameRun_def list_set_def within_def del: contents_length)
    qed (use len in \<open>auto simp: Put sameRun_def list_set_def within_def simp del: contents_length\<close>)
  next
    case (Del i)
    show ?thesis
    proof (cases "0 \<le> i \<and> i < list_length l")
      case True
      then obtain l' where l': "list_remove (Some l) i = Inr (Some l')" "sized n l'"
        "contents l' = take (nat i) (contents l) @ drop (nat i + 1) (contents l)"
        using remove_contents[OF assms(1), of i] assms(2) by auto
      have "sized (n + 1) l'" by (rule sized_mono[OF l'(2)]) simp
      then show ?thesis using True l'(1,3) len by (simp add: Del sameRun_def within_def del: contents_length)
    qed (use len in \<open>auto simp: Del sameRun_def list_remove_def within_def simp del: contents_length\<close>)
  qed
qed

lemma run_same:
  "sized n l \<Longrightarrow> n + length ops \<le> 2 ^ 59 \<Longrightarrow>
     sameRun (n + length ops) (eachT listOp ops (Some l, out)) (eachT seqOp ops (contents l, out))"
proof (induction ops arbitrary: n l out)
  case (Cons op ops)
  have "sameRun (n + 1) (listOp op (Some l, out)) (seqOp op (contents l, out))" by (rule op_same) (use Cons.prems in auto)
  then show ?case
    using Cons.IH[of "n + 1"] Cons.prems(2) by (fastforce simp: sameRun_def split: sum.splits)
qed (simp add: sameRun_def)

text \<open>
  C32. Any sequence of at most \<^verbatim>\<open>2 ^ 59\<close> operations (append, read, write, delete) on a new list ends as the same
  sequence on a mathematical sequence: with the same elements, the same values read and the right length, or with
  the index error at the same operation; it never leaves the buffer, reads a cell never written, or overflows.
\<close>

theorem list_refines:
  assumes "length ops \<le> 2 ^ 59"
  shows "case eachT seqOp ops ([], []) of
      Inl e \<Rightarrow> eachT listOp ops (Some list_new, []) = Inl e \<and> e = RtExit ''IndexError''
    | Inr (xs, out) \<Rightarrow> \<exists>l. eachT listOp ops (Some list_new, []) = Inr (Some l, out) \<and> contents l = xs
        \<and> list_len (Some l) = int (length xs) \<and> capacity l = int (length (data l))"
proof -
  have e: "eachT seqOp ops q = Inl e \<Longrightarrow> e = RtExit ''IndexError''" for e q
  proof (induction ops arbitrary: q)
    case (Cons op ops)
    then show ?case by (cases "(op, q)" rule: seqOp.cases) (auto simp: within_def split: if_splits)
  qed simp
  have "sameRun (length ops) (eachT listOp ops (Some list_new, [])) (eachT seqOp ops ([], []))"
    using run_same[of 0 list_new ops "[]"] assms by simp
  then show ?thesis using e[of "([], [])"] length_contents
    by (auto simp: sameRun_def list_len_def sized_def list_ok_def split: sum.splits)
qed

theorem list_refines_witness:
  "\<exists>l. eachT listOp [Push 5, Push 6, Push 7, Put 0 9, Del 1, Get 1] (Some list_new, []) = Inr (Some l, [7]) \<and> contents l = [9, 7]"
  using list_refines[of "[Push 5, Push 6, Push 7, Put 0 9, Del 1, Get 1]"] by (auto simp: within_def)

end
