(* ===== verification/Rt_Slices.thy ===== *)
theory Rt_Slices
  imports Rt_List_Props "HOL-Library.Multiset"
begin

text \<open>What slices, ranges and the list builtins of the runtime library return.\<close>

section \<open>Positions\<close>

lemma upTo_length: "0 < step \<Longrightarrow> length (upTo i stop step) \<le> nat (stop - i)"
  using length_filter_le[of "\<lambda>k. step dvd k - i" "[i..stop - 1]"] by (simp add: upTo_filter)

definition pyIndex :: "int \<Rightarrow> int \<Rightarrow> int" where
  "pyIndex len i = max 0 (min len (if i < 0 then i + len else i))"

lemma clampIndex_python: "0 \<le> len \<Longrightarrow> clampIndex len i = pyIndex len i"
  by (auto simp: clampIndex_def pyIndex_def Let_def)

lemma pyIndex_bounds: "0 \<le> len \<Longrightarrow> 0 \<le> pyIndex len i \<and> pyIndex len i \<le> len"
  by (auto simp: pyIndex_def)

section \<open>Slices\<close>

text \<open>
  A slice with a positive step (or the step 0, taken as 1) holds the elements at the positions from the start to
  the stop, both counted from the end if negative and cut to the ends of the list, that are a multiple of the step
  away from the start, in order.
\<close>

theorem list_slice_spec:
  assumes "sized n l" "n \<le> 2 ^ 59" "0 \<le> step" "step \<le> 2 ^ 62"
  shows "\<exists>r. list_slice (Some l) start stop step = Inr r \<and> sized n r \<and>
    (let len = list_length l; a = pyIndex len start; b = pyIndex len stop in
      contents r = map (\<lambda>k. contents l ! nat k) (filter (\<lambda>k. (if step = 0 then 1 else step) dvd k - a) [a..b - 1]))"
proof -
  let ?a = "pyIndex (list_length l) start" and ?b = "pyIndex (list_length l) stop" and ?s = "if step = 0 then 1 else step"
  have ok: "list_ok l" "0 \<le> list_length l" "list_length l \<le> int n" using assms(1) by (simp_all add: sized_def list_ok_def)
  note b = pyIndex_bounds[OF ok(2), of start] pyIndex_bounds[OF ok(2), of stop]
  have s: "0 < ?s" "?s \<le> 2 ^ 62" using assms(3,4) by auto
  have "int n \<le> 2 ^ 59" using assms(2) by simp
  then have m: "list_length l \<le> 2 ^ 59" using ok(3) by linarith
  have len: "length (upTo ?a ?b ?s) \<le> n" using upTo_length[OF s(1), of ?a ?b] b ok(3) by linarith
  have "?b + ?s \<le> INT64_MAX + 1" using b s m by (simp add: INT64_MAX_def del: if_split)
  then have "list_slice (Some l) start stop step = eachT (pushFrom l) (upTo ?a ?b ?s) list_new"
    using s(1) by (simp only: list_slice_def Let_def option.case clampIndex_python[OF ok(2)] forStep_def if_True forUp_each)
  moreover have "\<forall>k \<in> set (upTo ?a ?b ?s). 0 \<le> k \<and> k < list_length l" using b by (auto simp: upTo_set)
  then obtain r where r: "eachT (pushFrom l) (upTo ?a ?b ?s) list_new = Inr r" "sized (length (upTo ?a ?b ?s)) r"
    "contents r = map (\<lambda>k. contents l ! nat k) (upTo ?a ?b ?s)"
    using copy_loop[OF ok(1)] len assms(2) by (meson le_trans)
  ultimately show ?thesis using sized_mono[OF r(2) len] upTo_filter[OF s(1)] by (simp add: Let_def)
qed

theorem list_slice_spec_witness:
  "\<exists>l r. list_range 10 16 1 = Inr l \<and> list_slice (Some l) (- 5) 100 2 = Inr r \<and> contents r = [11, 13, 15]"
proof -
  let ?l = "\<lparr>data = map Some [10, 11, 12, 13, 14, 15] @ [None, None], list_length = 6, capacity = 8\<rparr>"
  have l: "list_range 10 16 1 = Inr ?l" by code_simp
  have s: "sized 6 ?l" by code_simp
  obtain r where "list_slice (Some ?l) (- 5) 100 2 = Inr r"
    "contents r = map (\<lambda>k. contents ?l ! nat k) (filter (\<lambda>k. 2 dvd k - 1) [1..5])"
    using list_slice_spec[OF s, of 2 "- 5" 100] by (auto simp: pyIndex_def)
  moreover have "map (\<lambda>k. contents ?l ! nat k) (filter (\<lambda>k. 2 dvd k - 1) [1..5]) = [11, 13, 15]" by code_simp
  ultimately show ?thesis using l by auto
qed

lemma slice_past_end:
  assumes "sized n l" "n < 2 ^ 59" "step < 0" "INT64_MIN \<le> step"
    "pyIndex (list_length l) start = list_length l" "pyIndex (list_length l) stop < list_length l"
  shows "case readAt (list_length l) l of
     Inl e \<Rightarrow> list_slice (Some l) start stop step = Inl Outside
   | Inr v \<Rightarrow> \<exists>r. list_slice (Some l) start stop step = Inr r \<and> contents r \<noteq> [] \<and> hd (contents r) = v"
proof -
  let ?n = "list_length l" and ?b = "pyIndex (list_length l) stop"
  let ?ks = "downTo (?n + step) ?b step"
  have ok: "list_ok l" "0 \<le> ?n" "?n \<le> int n" using assms(1) by (simp_all add: sized_def list_ok_def)
  note b = pyIndex_bounds[OF ok(2), of stop]
  have ks: "downTo ?n ?b step = ?n # ?ks" using downTo_rounds(2)[of ?b ?n step] assms(3,6) by simp
  have "list_slice (Some l) start stop step = forDown ?n ?b step (pushFrom l) list_new"
    using assms(3,5) by (simp add: list_slice_def Let_def clampIndex_python[OF ok(2)] forStep_def)
  also have "\<dots> = eachT (pushFrom l) (?n # ?ks) list_new"
    using b assms(4) unfolding ks[symmetric] by (intro forDown_each) linarith
  finally have run: "list_slice (Some l) start stop step = eachT (pushFrom l) (?n # ?ks) list_new" .
  show ?thesis
  proof (cases "readAt ?n l")
    case (Inl e)
    then have "e = Outside" by (auto simp: readAt_def split: if_splits option.splits)
    then show ?thesis using run Inl by (simp add: pushFrom_def)
  next
    case (Inr v)
    let ?f = "\<lambda>k. [if k = ?n then v else contents l ! nat k]"
    have "length (downTo ?n ?b step) \<le> nat (?n - ?b)"
      using upTo_length[of "- step" "- ?n" "- ?b"] assms(3) by (simp add: downTo_upTo)
    then have "length (?n # ?ks) \<le> nat (?n - ?b)" unfolding ks .
    also have "\<dots> \<le> n" using b ok(3) by linarith
    finally have few: "0 + length (concat (map ?f (?n # ?ks))) \<le> 2 ^ 59"
      using assms(2) by (simp add: length_concat comp_def sum_list_triv)
    have body: "pushFrom l k out = eachT pushTo (?f k) out" if "k \<in> set (?n # ?ks)" for k out
    proof (cases "k = ?n")
      case True
      then show ?thesis using Inr by (simp add: pushFrom_def bindT_def split: sum.split)
    next
      case False
      then have "0 \<le> k" "k < ?n" using that b assms(3) by (auto simp: downTo_set)
      then show ?thesis using pushFrom_each[OF ok(1), of k out] False by simp
    qed
    show ?thesis using lists.push_loop[OF new_sized(1) few body] run Inr by auto
  qed
qed

lemma slice_inside:
  assumes "sized n l" "n < 2 ^ 59" "step < 0" "INT64_MIN \<le> step"
    "pyIndex (list_length l) start \<noteq> list_length l \<or> pyIndex (list_length l) stop = list_length l"
  shows "\<exists>r. list_slice (Some l) start stop step = Inr r \<and> contents r = map (\<lambda>k. contents l ! nat k)
    (rev (filter (\<lambda>k. step dvd pyIndex (list_length l) start - k) [pyIndex (list_length l) stop + 1..pyIndex (list_length l) start]))"
proof -
  let ?n = "list_length l" and ?a = "pyIndex (list_length l) start" and ?b = "pyIndex (list_length l) stop"
  have ok: "list_ok l" "0 \<le> ?n" "?n \<le> int n" using assms(1) by (simp_all add: sized_def list_ok_def)
  note ab = pyIndex_bounds[OF ok(2), of start] pyIndex_bounds[OF ok(2), of stop]
  have "INT64_MIN - 1 \<le> ?b + step" using ab assms(4) by linarith
  then have run: "list_slice (Some l) start stop step = eachT (pushFrom l) (downTo ?a ?b step) list_new"
    using assms(3) by (simp add: list_slice_def Let_def clampIndex_python[OF ok(2)] forStep_def forDown_each)
  have range: "\<forall>k \<in> set (downTo ?a ?b step). 0 \<le> k \<and> k < ?n" using ab assms(5) by (auto simp: downTo_set)
  have "length (downTo ?a ?b step) \<le> nat (?a - ?b)"
    using upTo_length[of "- step" "- ?a" "- ?b"] assms(3) by (simp add: downTo_upTo)
  also have "\<dots> \<le> n" using ab ok(3) by linarith
  finally have few: "length (downTo ?a ?b step) \<le> 2 ^ 59" using assms(2) by linarith
  show ?thesis using copy_loop[OF ok(1) range few] run downTo_filter[OF assms(3)] by auto
qed

text \<open>
  C33. A slice with a negative step of a list of fewer than \<^verbatim>\<open>2 ^ 59\<close> elements, its bounds counted from the end if negative and cut to the list. If the start
  is cut to the length of the list and the stop is less, the first cell that is read is the one behind the last
  element: it lies outside the buffer or was never written, or it gives the value of an element that was deleted
  before. In every other case the slice holds the elements at the positions down from the start that are
  a multiple of the step away from it and greater than the stop; it is empty if the stop is not less than the start,
  as with the length of the list, which the compiler passes for a missing stop.
\<close>

theorem list_slice_down:
  assumes "sized n l" "n < 2 ^ 59" "step < 0" "INT64_MIN \<le> step"
  shows "let len = list_length l; a = pyIndex len start; b = pyIndex len stop in
    if a = len \<and> b < len then
      (case readAt len l of
         Inl e \<Rightarrow> list_slice (Some l) start stop step = Inl Outside
       | Inr v \<Rightarrow> \<exists>r. list_slice (Some l) start stop step = Inr r \<and> contents r \<noteq> [] \<and> hd (contents r) = v)
    else \<exists>r. list_slice (Some l) start stop step = Inr r \<and>
      contents r = map (\<lambda>k. contents l ! nat k) (rev (filter (\<lambda>k. step dvd a - k) [b + 1..a]))"
proof (cases "pyIndex (list_length l) start = list_length l \<and> pyIndex (list_length l) stop < list_length l")
  case True
  then show ?thesis using slice_past_end[OF assms] unfolding Let_def by simp
next
  case False
  have "0 \<le> list_length l" using assms(1) by (simp add: sized_def list_ok_def)
  then have "pyIndex (list_length l) stop \<le> list_length l" using pyIndex_bounds by blast
  then show ?thesis using slice_inside[OF assms] False unfolding Let_def by auto
qed

theorem list_slice_down_witness:
  "\<exists>l r. list_range 0 8 1 = Inr l \<and> list_slice (Some l) 8 0 (- 1) = Inl Outside
     \<and> list_slice (Some l) (- 2) 0 (- 2) = Inr r \<and> contents r = [6, 4, 2]"
proof -
  let ?l = "\<lparr>data = map Some [0, 1, 2, 3, 4, 5, 6, 7], list_length = 8, capacity = 8\<rparr>"
  have l: "list_range 0 8 1 = Inr ?l" by code_simp
  have s: "sized 8 ?l" by code_simp
  have "readAt 8 ?l = Inl Outside" by code_simp
  then have out: "list_slice (Some ?l) 8 0 (- 1) = Inl Outside"
    using list_slice_down[OF s, of "- 1" 8 0] by (simp add: pyIndex_def INT64_MIN_def)
  obtain r where r: "list_slice (Some ?l) (- 2) 0 (- 2) = Inr r"
    "contents r = map (\<lambda>k. contents ?l ! nat k) (rev (filter (\<lambda>k. (- 2) dvd 6 - k) [0 + 1..6]))"
    using list_slice_down[OF s, of "- 2" "- 2" 0] by (auto simp: pyIndex_def INT64_MIN_def)
  have "map (\<lambda>k. contents ?l ! nat k) (rev (filter (\<lambda>k. (- 2) dvd 6 - k) [0 + 1..6])) = [6, 4, 2]" by code_simp
  then show ?thesis using l out r by auto
qed

section \<open>Builtins\<close>

lemma cmp_key: "cmp_int64_asc a b \<le> 0 \<longleftrightarrow> sint a \<le> sint b"
  by (auto simp: cmp_int64_asc_def)

lemma insertBy_key: "insertBy cmp_int64_asc x ys = insort_key sint x ys"
  by (induction ys) (simp_all add: cmp_key)

lemma qsort_contents:
  assumes "sized n l"
  shows "\<exists>r. qsort l = Inr r \<and> sized n r \<and> contents r = sort_key sint (contents l)"
proof -
  have ok: "list_ok l" using assms by simp
  let ?k = "nat (list_length l)"
  let ?l = "l\<lparr>data := map Some (sort_key sint (contents l)) @ drop ?k (data l)\<rparr>"
  have k: "?k \<le> length (data l)" using ok by (auto simp: list_ok_def)
  have "None \<notin> set (take ?k (data l))" using ok k by (auto simp: list_ok_def in_set_conv_nth)
  moreover have "foldr (insertBy cmp_int64_asc) xs [] = sort_key sint xs" for xs
    by (simp add: sort_key_def insertBy_key fun_eq_iff cong: foldr_cong)
  ultimately have q: "qsort l = Inr ?l" using k by (simp add: qsort_def Let_def contents_def)
  have len: "length (sort_key sint (contents l)) = ?k" using contents_length[OF ok] by simp
  have c: "contents ?l = sort_key sint (contents l)" using len by (simp add: contents_def)
  have "sized n ?l" using assms len k by (auto simp: sized_def list_ok_def nth_append)
  then show ?thesis using q c by blast
qed

lemma pair_loop:
  assumes "length is \<le> 2 ^ 58" "\<And>i out. i \<in> set is \<Longrightarrow> body i out = bindT (pushTo (f i) out) (pushTo (g i))"
  shows "\<exists>r. eachT body is list_new = Inr r \<and> contents r = concat (map (\<lambda>i. [f i, g i]) is)"
proof -
  have "length (concat (map (\<lambda>i. [f i, g i]) is)) = 2 * length is" by (induction "is") simp_all
  then have few: "0 + length (concat (map (\<lambda>i. [f i, g i]) is)) \<le> 2 ^ 59" using assms(1) by simp
  have "body i out = eachT pushTo [f i, g i] out" if "i \<in> set is" for i out
    using assms(2)[OF that] by (simp add: bindT_def split: sum.split)
  then show ?thesis using lists.push_loop[where body = body, OF new_sized(1) few] by auto
qed

lemma forUp_elements: "list_ok l \<Longrightarrow> list_length l \<le> 2 ^ 60 \<Longrightarrow> forUp 0 (list_length l) 1 body s = eachT body [0..list_length l - 1] s"
  by (subst forUp_each) (simp_all add: INT64_MAX_def upTo_one)

lemma bindT_pushFrom:
  "list_ok src \<Longrightarrow> 0 \<le> i \<Longrightarrow> i < list_length src \<Longrightarrow> pushFrom src i = pushTo (contents src ! nat i)"
  by (simp add: fun_eq_iff pushFrom_def readAt_contents)

lemma upto_ints: "[0..int n - 1] = map int [0..<n]"
  by (induction n) (simp_all add: upto_rec2)

lemma reversed_contents:
  assumes "sized n l" "n \<le> 2 ^ 59"
  shows "\<exists>r. list_reversed (Some l) = Inr r \<and> contents r = rev (contents l)"
proof -
  let ?ks = "downTo (list_length l - 1) (- 1) (- 1)" and ?xs = "contents l"
  have ok: "list_ok l" "list_length l \<le> int n" "0 \<le> list_length l" using assms(1) by (simp_all add: sized_def list_ok_def)
  have ks: "?ks = map uminus [1 - list_length l..0]" by (simp add: downTo_upTo upTo_one)
  have "nat (list_length l) \<le> n" using ok(2) by linarith
  then have few: "length ?ks \<le> 2 ^ 59" using assms(2) by (simp add: ks)
  have range: "\<forall>k \<in> set ?ks. 0 \<le> k \<and> k < list_length l" by (auto simp: downTo_set)
  have "list_reversed (Some l) = eachT (pushFrom l) ?ks list_new"
    by (simp add: list_reversed_def forDown_each INT64_MIN_def)
  moreover have "map (\<lambda>k. ?xs ! nat k) ?ks = rev ?xs"
    by (rule nth_equalityI) (use ok in \<open>auto simp: ks rev_nth nat_diff_distrib' Suc_nat_eq_nat_zadd1 intro!: arg_cong[where f = "(!) ?xs"]\<close>)
  ultimately show ?thesis using copy_loop[OF ok(1) range few] by auto
qed

lemma enumerate_contents:
  assumes "sized n l" "n \<le> 2 ^ 58"
  shows "\<exists>r. list_enumerate (Some l) = Inr r \<and> contents r = concat (map (\<lambda>i. [of_nat i, contents l ! i]) [0..<length (contents l)])"
proof -
  let ?is = "[0..list_length l - 1]" and ?body = "\<lambda>i out. bindT (pushTo (word_of_int i) out) (pushFrom l i)"
  have ok: "list_ok l" "list_length l \<le> int n" using assms(1) by (simp_all add: sized_def)
  have n: "int n \<le> 2 ^ 58" using assms(2) by simp
  then have few: "length ?is \<le> 2 ^ 58" "list_length l \<le> 2 ^ 60" using ok(2) by auto
  obtain r where r: "eachT ?body ?is list_new = Inr r" "contents r = concat (map (\<lambda>i. [word_of_int i, contents l ! nat i]) ?is)"
    using pair_loop[OF few(1), where body = ?body and f = word_of_int and g = "\<lambda>i. contents l ! nat i"] bindT_pushFrom[OF ok(1)] by auto
  have "list_enumerate (Some l) = Inr r" using r(1) by (simp add: list_enumerate_def forUp_elements[OF ok(1) few(2)])
  moreover have "?is = map int [0..<length (contents l)]" using upto_ints length_contents[OF ok(1)] by simp
  ultimately show ?thesis using r(2) by (simp add: comp_def)
qed

lemma zip_contents:
  assumes "sized n l" "sized n m" "n \<le> 2 ^ 58"
  shows "\<exists>r. list_zip (Some l) (Some m) = Inr r \<and> contents r = concat (map (\<lambda>(x, y). [x, y]) (zip (contents l) (contents m)))"
proof -
  let ?k = "if list_length l < list_length m then list_length l else list_length m"
  let ?is = "[0..?k - 1]" and ?body = "\<lambda>i out. bindT (pushFrom l i out) (pushFrom m i)"
  have ok: "list_ok l" "list_ok m" "list_length l \<le> int n" using assms(1,2) by (simp_all add: sized_def)
  have n: "int n \<le> 2 ^ 58" using assms(3) by simp
  then have few: "length ?is \<le> 2 ^ 58" "?k \<le> 2 ^ 60" using ok(3) by auto
  have body: "?body i out = bindT (pushTo (contents l ! nat i) out) (pushTo (contents m ! nat i))" if "i \<in> set ?is" for i out
    using that bindT_pushFrom[OF ok(1), of i] bindT_pushFrom[OF ok(2), of i] by (simp split: if_splits)
  obtain r where r: "eachT ?body ?is list_new = Inr r" "contents r = concat (map (\<lambda>i. [contents l ! nat i, contents m ! nat i]) ?is)"
    using pair_loop[OF few(1), where body = ?body and f = "\<lambda>i. contents l ! nat i" and g = "\<lambda>i. contents m ! nat i", OF body] by blast
  have "list_zip (Some l) (Some m) = Inr r" using r(1) few(2) by (simp add: list_zip_def forUp_each INT64_MAX_def upTo_one)
  moreover have k: "?k = int (length (zip (contents l) (contents m)))" using length_contents[OF ok(1)] length_contents[OF ok(2)] by simp
  have "?is = map int [0..<length (zip (contents l) (contents m))]" unfolding k by (rule upto_ints)
  moreover have "map (\<lambda>i. [contents l ! i, contents m ! i]) [0..<length (zip (contents l) (contents m))] = map (\<lambda>(x, y). [x, y]) (zip (contents l) (contents m))"
    by (rule nth_equalityI) auto
  ultimately show ?thesis using r(2) by (intro exI[of _ r]) (simp only: map_map comp_def nat_int simp_thms)
qed

lemma contains_loop:
  "\<forall>i \<in> set is. readAt i l = Inr (f i) \<Longrightarrow>
     eachT (\<lambda>i found. if found then Inr True else bindT (readAt i l) (\<lambda>x. Inr (x = v))) is b = Inr (b \<or> v \<in> f ` set is)"
  by (induction "is" arbitrary: b) auto

lemma contains_contents:
  assumes "sized n l" "n \<le> 2 ^ 59"
  shows "list_contains (Some l) v = Inr (v \<in> set (contents l))"
proof -
  have ok: "list_ok l" "list_length l \<le> int n" using assms(1) by (simp_all add: sized_def)
  have "int n \<le> 2 ^ 59" using assms(2) by simp
  then have few: "list_length l \<le> 2 ^ 60" using ok(2) by simp
  have "(\<lambda>i. contents l ! nat i) ` set [0..list_length l - 1] = set (contents l)"
    using arg_cong[OF map_nth_upto[of "contents l"], of set] length_contents[OF ok(1)] by simp
  then show ?thesis
    using contains_loop[of "[0..list_length l - 1]" l "\<lambda>i. contents l ! nat i" v False] readAt_contents[OF ok(1)]
    by (simp add: list_contains_def forUp_elements[OF ok(1) few])
qed

text \<open>
  On lists of at most \<^verbatim>\<open>2 ^ 58\<close> elements, \<^verbatim>\<open>reversed\<close> gives the elements in reverse order, \<^verbatim>\<open>sorted\<close> the same
  elements in ascending order as signed numbers, \<^verbatim>\<open>enumerate\<close> the flat list of the positions and elements, \<^verbatim>\<open>zip\<close>
  the flat list of the pairs up to the end of the shorter list, and the membership test decides membership; the
  argument is not changed and nothing fails.
\<close>

theorem list_builtins:
  assumes "sized n l" "sized n m" "n \<le> 2 ^ 58"
  shows "(\<exists>r. list_reversed (Some l) = Inr r \<and> contents r = rev (contents l))
    \<and> (\<exists>r. list_sorted (Some l) = Inr r \<and> sorted (map sint (contents r)) \<and> mset (contents r) = mset (contents l))
    \<and> (\<exists>r. list_enumerate (Some l) = Inr r \<and> contents r = concat (map (\<lambda>i. [of_nat i, contents l ! i]) [0..<length (contents l)]))
    \<and> (\<exists>r. list_zip (Some l) (Some m) = Inr r \<and> contents r = concat (map (\<lambda>(x, y). [x, y]) (zip (contents l) (contents m))))
    \<and> list_contains (Some l) v = Inr (v \<in> set (contents l))"
proof -
  have n: "n \<le> 2 ^ 59" using assms(3) by simp
  obtain o1 where o: "forUp 0 (list_length l) 1 (pushFrom l) list_new = Inr o1" "sized n o1" "contents o1 = contents l"
    using elements_loop[OF assms(1) n] by blast
  have "\<exists>r. list_sorted (Some l) = Inr r \<and> sorted (map sint (contents r)) \<and> mset (contents r) = mset (contents l)"
    using qsort_contents[OF o(2)] o(1,3) by (auto simp: list_sorted_def)
  then show ?thesis
    using reversed_contents[OF assms(1) n] enumerate_contents[OF assms(1,3)] zip_contents[OF assms] contains_contents[OF assms(1) n]
    by blast
qed

theorem list_builtins_witness:
  "\<exists>l r. list_range 3 0 (- 1) = Inr l \<and> list_sorted (Some l) = Inr r \<and> sorted (map sint (contents r))
     \<and> mset (contents r) = {#1, 2, 3#} \<and> list_contains (Some l) 2 = Inr True"
proof -
  let ?l = "\<lparr>data = map Some [3, 2, 1] @ replicate 5 None, list_length = 3, capacity = 8\<rparr>"
  have l: "list_range 3 0 (- 1) = Inr ?l" by code_simp
  have s: "sized 3 ?l" by code_simp
  have c: "contents ?l = [3, 2, 1]" by code_simp
  obtain r where r: "list_sorted (Some ?l) = Inr r" "sorted (map sint (contents r))" "mset (contents r) = mset (contents ?l)"
    "list_contains (Some ?l) 2 = Inr (2 \<in> set (contents ?l))"
    using list_builtins[OF s s, of 2] by auto
  then have "mset (contents r) = {#1, 2, 3#}" "list_contains (Some ?l) 2 = Inr True" unfolding c by simp_all
  then show ?thesis using l r(1,2) by blast
qed

text \<open>A range whose counter passes the largest integer after its last element is undefined.\<close>

lemma range_overflow: "list_range 0 INT64_MAX (2 ^ 62) = Inl Undefined"
  by code_simp

end
