(* ===== verification/Rt_Sets.thy ===== *)
theory Rt_Sets
  imports Rt_List_Props "HOL-Library.Multiset"
begin

text \<open>
  The sets, stacks and queues of the runtime library implement finite sets, last-in first-out and first-in
  first-out sequences, and the shuffle is a permutation.
\<close>

section \<open>Sets\<close>

declare findFrom.simps [simp del]

lemma findFrom_spec:
  assumes "list_ok s" "0 \<le> i"
  shows "\<exists>r. findFrom s v i = Inr r \<and>
    (r = - 1 \<and> (\<forall>k. i \<le> k \<longrightarrow> k < list_length s \<longrightarrow> contents s ! nat k \<noteq> v)
     \<or> i \<le> r \<and> r < list_length s \<and> contents s ! nat r = v)"
  using assms(2)
proof (induction "nat (list_length s - i)" arbitrary: i)
  case 0
  then show ?case by (subst findFrom.simps) auto
next
  case (Suc n)
  then have i: "i < list_length s" "n = nat (list_length s - (i + 1))" "0 \<le> i + 1" by linarith+
  show ?case
  proof (cases "contents s ! nat i = v")
    case True
    then show ?thesis using i(1) readAt_contents[OF assms(1) Suc.prems i(1)] by (subst findFrom.simps) simp
  next
    case False
    obtain r where r: "findFrom s v (i + 1) = Inr r"
      "r = - 1 \<and> (\<forall>k. i + 1 \<le> k \<longrightarrow> k < list_length s \<longrightarrow> contents s ! nat k \<noteq> v)
        \<or> i + 1 \<le> r \<and> r < list_length s \<and> contents s ! nat r = v"
      using Suc.hyps(1)[OF i(2,3)] by blast
    have "findFrom s v i = Inr r" using i(1) readAt_contents[OF assms(1) Suc.prems i(1)] False r(1) by (subst findFrom.simps) simp
    moreover have "contents s ! nat k \<noteq> v"
      if "\<forall>k. i + 1 \<le> k \<longrightarrow> k < list_length s \<longrightarrow> contents s ! nat k \<noteq> v" "i \<le> k" "k < list_length s" for k
      using that False by (cases "k = i") simp_all
    ultimately show ?thesis using r(2) by fastforce
  qed
qed

lemma find_idx:
  assumes "list_ok s"
  obtains (present) i where "set_find_idx s v = Inr i" "0 \<le> i" "i < list_length s" "contents s ! nat i = v" "v \<in> set (contents s)"
  | (absent) "set_find_idx s v = Inr (- 1)" "v \<notin> set (contents s)"
proof -
  obtain r where r: "set_find_idx s v = Inr r"
    "r = - 1 \<and> (\<forall>k. 0 \<le> k \<longrightarrow> k < list_length s \<longrightarrow> contents s ! nat k \<noteq> v) \<or> 0 \<le> r \<and> r < list_length s \<and> contents s ! nat r = v"
    using findFrom_spec[OF assms, of 0 v] by (auto simp: set_find_idx_def)
  have len: "list_length s = int (length (contents s))" by (rule length_contents[OF assms])
  from r(2) show ?thesis
  proof
    assume a: "r = - 1 \<and> (\<forall>k. 0 \<le> k \<longrightarrow> k < list_length s \<longrightarrow> contents s ! nat k \<noteq> v)"
    have "contents s ! j \<noteq> v" if "j < length (contents s)" for j
      using a spec[of "\<lambda>k. 0 \<le> k \<longrightarrow> k < list_length s \<longrightarrow> contents s ! nat k \<noteq> v" "int j"] that len by simp
    then show ?thesis using absent a r(1) by (auto simp: in_set_conv_nth)
  next
    assume a: "0 \<le> r \<and> r < list_length s \<and> contents s ! nat r = v"
    then have "nat r < length (contents s)" using len by linarith
    then have "v \<in> set (contents s)" using nth_mem a by blast
    then show ?thesis using present[OF r(1)] a by simp
  qed
qed

definition set_ok :: "nat \<Rightarrow> VisualSet \<Rightarrow> bool" where
  "set_ok n s \<longleftrightarrow> sized n s \<and> distinct (contents s)"

lemma set_new_ok [simp]: "set_ok 0 set_new" "contents set_new = []"
  using new_sized unfolding set_new_def list_new_def by (simp_all add: set_ok_def)

lemma add_contents:
  assumes "set_ok n s" "n < 2 ^ 59"
  shows "\<exists>s'. addTo v s = Inr s' \<and> set_ok (n + 1) s' \<and> set (contents s') = insert v (set (contents s))"
proof -
  have s: "sized n s" "list_ok s" "distinct (contents s)" using assms(1) by (auto simp: set_ok_def intro: sized_ok)
  show ?thesis
  proof (cases rule: find_idx[OF s(2), of v])
    case (1 i)
    then show ?thesis using s(3) sized_mono[OF s(1), of "n + 1"] by (auto simp: addTo_def set_ok_def)
  next
    case 2
    obtain s1 where s1: "grow ''set'' s = Inr s1" "sized (n + 1) s1" "list_length s1 < capacity s1" "contents s1 = contents s"
      "list_length s1 = list_length s"
      using grow_room[OF s(1) assms(2), of "''set''"] by blast
    have "list_length s1 < int (n + 1)" using s1(5) s(1) by (simp add: sized_def)
    then obtain s2 where "storeLast v s1 = Inr s2" "sized (n + 1) s2" "contents s2 = contents s @ [v]"
      using storeLast_room[OF s1(2,3), of v] s1(4) by auto
    then show ?thesis using 2 s(3) s1(1) by (auto simp: addTo_def set_ok_def)
  qed
qed

lemma drop_last_swap:
  assumes "i < length xs"
  shows "mset (butlast (xs[i := last xs])) = mset xs - {#xs ! i#}"
proof -
  have ne: "xs \<noteq> []" using assms by auto
  have "last (xs[i := last xs]) = last xs" using ne assms by (simp add: last_conv_nth nth_list_update)
  moreover have "mset (butlast ys) = mset ys - {#last ys#}" if "ys \<noteq> []" for ys :: "'a list"
  proof -
    have "add_mset (last ys) (mset (butlast ys)) = mset ys" using arg_cong[OF append_butlast_last_id[OF that], of mset] by simp
    then show ?thesis by (metis add_mset_remove_trivial)
  qed
  ultimately have "mset (butlast (xs[i := last xs])) = mset (xs[i := last xs]) - {#last xs#}" using ne by simp
  also have "\<dots> = mset xs - {#xs ! i#}" using assms by (simp add: mset_update)
  finally show ?thesis .
qed

lemma remove_set_contents:
  assumes "set_ok n s"
  shows "\<exists>s'. set_remove (Some s) v = Inr (Some s') \<and> set_ok n s' \<and> set (contents s') = set (contents s) - {v}"
proof -
  have s: "sized n s" "list_ok s" "distinct (contents s)" using assms by (auto simp: set_ok_def intro: sized_ok)
  let ?xs = "contents s"
  show ?thesis
  proof (cases rule: find_idx[OF s(2), of v])
    case (1 i)
    let ?n = "list_length s - 1"
    let ?s = "s\<lparr>data := (data s)[nat i := Some (last ?xs)], list_length := ?n\<rparr>"
    have ne: "?xs \<noteq> []" using 1(5) by auto
    have ok: "list_length s = int (length ?xs)" "length ?xs \<le> length (data s)" "nat i < length (data s)" "0 \<le> ?n"
      using s(2) 1(2,3) length_contents[OF s(2)] by (auto simp: list_ok_def simp del: contents_length)
    have "readAt ?n s = Inr (last ?xs)" using readAt_contents[OF s(2), of ?n] 1(2,3) ok(1) ne
      by (simp add: last_conv_nth nat_diff_distrib del: contents_length)
    moreover have "readAt ?n (s\<lparr>list_length := ?n\<rparr>) = readAt ?n s" by (simp add: readAt_def)
    ultimately have "readAt ?n (s\<lparr>list_length := ?n\<rparr>) = Inr (last ?xs)" by simp
    then have r: "set_remove (Some s) v = Inr (Some ?s)"
      using 1(1,2) ok(3) by (simp add: set_remove_def Let_def writeAt_def)
    have n: "nat (list_length s) = length ?xs" "nat ?n = length ?xs - 1" using ok(1) by simp_all
    have le: "nat (list_length s) \<le> length ((data s)[nat i := Some (last ?xs)])" using ok(2) n(1) by (simp del: contents_length)
    have "butlast (?xs[nat i := last ?xs]) = butlast (map the (take (nat (list_length s)) ((data s)[nat i := Some (last ?xs)])))"
      by (simp add: contents_def take_update_swap map_update)
    also have "\<dots> = map the (take (nat (list_length s) - 1) ((data s)[nat i := Some (last ?xs)]))"
      by (simp only: map_butlast[symmetric] butlast_take[OF le])
    also have "nat (list_length s) - 1 = nat ?n" using n by simp
    also have "map the (take (nat ?n) ((data s)[nat i := Some (last ?xs)])) = contents ?s" by (simp add: contents_def)
    finally have c: "contents ?s = butlast (?xs[nat i := last ?xs])" by (rule sym)
    have m: "mset (contents ?s) = mset ?xs - {#v#}" using drop_last_swap[of "nat i" ?xs] 1(2-4) ok(1) c by simp
    then have m': "mset (contents ?s) = mset (remove1 v ?xs)" by simp
    have "distinct (contents ?s)" using mset_eq_imp_distinct_iff[OF m'] s(3) by simp
    moreover have "set (contents ?s) = set ?xs - {v}" using mset_eq_setD[OF m'] s(3) by simp
    moreover have "(data s)[nat i := Some (last ?xs)] ! k \<noteq> None" if "k < nat ?n" for k
      using s(2) that ok(3) by (cases "k = nat i") (simp_all add: list_ok_def)
    then have "sized n ?s" using s(1) ok(4) by (simp add: sized_def list_ok_def)
    ultimately show ?thesis using r by (auto simp: set_ok_def)
  next
    case 2
    then show ?thesis using assms by (auto simp: set_remove_def)
  qed
qed

lemma add_loop:
  assumes "list_ok a" "list_length a \<le> 2 ^ 58" "set_ok n out" "n + nat (list_length a) \<le> 2 ^ 59"
    "\<And>i s. 0 \<le> i \<Longrightarrow> i < list_length a \<Longrightarrow> body i s = (if P (contents a ! nat i) then addTo (contents a ! nat i) s else Inr s)"
  shows "\<exists>s. forUp 0 (list_length a) 1 body out = Inr s \<and> set_ok (n + nat (list_length a)) s
    \<and> set (contents s) = set (contents out) \<union> {v \<in> set (contents a). P v}"
proof -
  let ?xs = "contents a"
  have len: "list_length a = int (length ?xs)" by (rule length_contents[OF assms(1)])
  have each: "\<exists>s. eachT body is out = Inr s \<and> set_ok (n + length is) s \<and> set (contents s) = set (contents out) \<union> {v \<in> (\<lambda>i. ?xs ! nat i) ` set is. P v}"
    if "set is \<subseteq> {0..<list_length a}" "n + length is \<le> 2 ^ 59" "set_ok n out" for "is" n out
    using that
  proof (induction "is" arbitrary: n out)
    case (Cons i "is")
    have i: "body i out = (if P (?xs ! nat i) then addTo (?xs ! nat i) out else Inr out)" using assms(5) Cons.prems(1) by simp
    obtain s where s: "body i out = Inr s" "set_ok (n + 1) s"
      "set (contents s) = set (contents out) \<union> {v \<in> {?xs ! nat i}. P v}"
    proof (cases "P (?xs ! nat i)")
      case True
      have "n < 2 ^ 59" using Cons.prems(2) by simp
      then obtain s where "addTo (?xs ! nat i) out = Inr s" "set_ok (n + 1) s" "set (contents s) = insert (?xs ! nat i) (set (contents out))"
        using add_contents[OF Cons.prems(3), of "?xs ! nat i"] by blast
      then show ?thesis using that[of s] True i by auto
    next
      case False
      have "set_ok (n + 1) out" using Cons.prems(3) sized_mono[of n out "n + 1"] by (simp add: set_ok_def)
      then show ?thesis using that[of out] False i by auto
    qed
    obtain s' where s': "eachT body is s = Inr s'" "set_ok (n + 1 + length is) s'"
      "set (contents s') = set (contents s) \<union> {v \<in> (\<lambda>i. ?xs ! nat i) ` set is. P v}"
      using Cons.IH[OF _ _ s(2)] Cons.prems(1,2) by auto
    have "set (contents s') = set (contents out) \<union> {v \<in> (\<lambda>i. ?xs ! nat i) ` set (i # is). P v}"
      unfolding s'(3) s(3) by auto
    then show ?case using s'(1,2) s(1) by (intro exI[of _ s']) simp
  qed simp
  have sub: "set [0..list_length a - 1] \<subseteq> {0..<list_length a}" by auto
  have k: "length [0..list_length a - 1] = nat (list_length a)" by simp
  obtain s where s: "eachT body [0..list_length a - 1] out = Inr s" "set_ok (n + nat (list_length a)) s"
    "set (contents s) = set (contents out) \<union> {v \<in> (\<lambda>i. ?xs ! nat i) ` set [0..list_length a - 1]. P v}"
    using each[OF sub _ assms(3)] assms(4) unfolding k by blast
  moreover have "(\<lambda>i. ?xs ! nat i) ` set [0..list_length a - 1] = set ?xs"
    using arg_cong[OF map_nth_upto[of ?xs], of set] len by simp
  moreover have "forUp 0 (list_length a) 1 body out = eachT body [0..list_length a - 1] out"
    using assms(2) by (simp add: forUp_each INT64_MAX_def upTo_one)
  ultimately show ?thesis by simp
qed

lemma addAll_contents:
  assumes "set_ok m a" "m \<le> 2 ^ 58" "set_ok n out" "n + m \<le> 2 ^ 59"
  shows "\<exists>s. addAll (Some a) out = Inr s \<and> set_ok (n + m) s \<and> set (contents s) = set (contents out) \<union> set (contents a)"
proof -
  have a: "list_ok a" "list_length a \<le> int m" using assms(1) by (auto simp: set_ok_def sized_def)
  have m: "int m \<le> 2 ^ 58" using assms(2) by simp
  have k: "nat (list_length a) \<le> m" using a(2) by linarith
  have few: "list_length a \<le> 2 ^ 58" "n + nat (list_length a) \<le> 2 ^ 59" using a(2) m k assms(4) by linarith+
  obtain s where s: "forUp 0 (list_length a) 1 (\<lambda>i out. bindT (readAt i a) (\<lambda>v. addTo v out)) out = Inr s"
    "set_ok (n + nat (list_length a)) s" "set (contents s) = set (contents out) \<union> {v \<in> set (contents a). True}"
    using add_loop[OF a(1) few(1) assms(3) few(2), where P = "\<lambda>_. True"
        and body = "\<lambda>i out. bindT (readAt i a) (\<lambda>v. addTo v out)"] readAt_contents[OF a(1)] by auto
  have "set_ok (n + m) s" using s(2) k sized_mono[of "n + nat (list_length a)" s "n + m"] by (simp add: set_ok_def)
  then show ?thesis using s(1,3) by (simp add: addAll_def)
qed

lemma contains_set: "list_ok s \<Longrightarrow> set_contains (Some s) v = Inr (v \<in> set (contents s))"
  by (cases rule: find_idx[of s v]) (auto simp: set_contains_def)

lemma union_contents:
  assumes "set_ok n a" "set_ok n b" "n \<le> 2 ^ 58"
  shows "\<exists>s. set_union (Some a) (Some b) = Inr s \<and> set_ok (n + n) s \<and> set (contents s) = set (contents a) \<union> set (contents b)"
proof -
  have n: "0 + n \<le> 2 ^ 59" "n + n \<le> 2 ^ 59" using assms(3) by simp_all
  obtain s where s: "addAll (Some a) set_new = Inr s" "set_ok (0 + n) s" "set (contents s) = set (contents a)"
    using addAll_contents[OF assms(1,3) set_new_ok(1) n(1)] by auto
  have "set_ok n s" using s(2) by simp
  then show ?thesis using addAll_contents[OF assms(2,3) _ n(2), of s] s(1,3) by (auto simp: set_union_def)
qed

lemma intersect_contents:
  assumes "set_ok n a" "set_ok n b" "n \<le> 2 ^ 58"
  shows "\<exists>s. set_intersect (Some a) (Some b) = Inr s \<and> distinct (contents s) \<and> set (contents s) = set (contents a) \<inter> set (contents b)"
proof -
  have a: "list_ok a" "list_ok b" "list_length a \<le> int n" using assms(1,2) by (auto simp: set_ok_def sized_def)
  have n: "int n \<le> 2 ^ 58" using assms(3) by simp
  have few: "list_length a \<le> 2 ^ 58" "0 + nat (list_length a) \<le> 2 ^ 59" using a(3) n by auto
  let ?body = "\<lambda>i out. bindT (readAt i a) (\<lambda>v. bindT (set_contains (Some b) v)
    (\<lambda>c. if c then bindT (readAt i a) (\<lambda>v. addTo v out) else Inr out))"
  have body: "?body i s = (if contents a ! nat i \<in> set (contents b) then addTo (contents a ! nat i) s else Inr s)"
    if "0 \<le> i" "i < list_length a" for i s
    using readAt_contents[OF a(1) that] by (simp add: contains_set[OF a(2)])
  obtain s where s: "forUp 0 (list_length a) 1 ?body set_new = Inr s" "set_ok (0 + nat (list_length a)) s"
    "set (contents s) = set (contents set_new) \<union> {v \<in> set (contents a). v \<in> set (contents b)}"
    using add_loop[OF a(1) few(1) set_new_ok(1) few(2), where P = "\<lambda>v. v \<in> set (contents b)" and body = ?body, OF body] by blast
  then show ?thesis by (auto simp: set_intersect_def set_ok_def)
qed

datatype SetOp = Add "64 word" | Discard "64 word"

fun setOp :: "SetOp \<Rightarrow> VisualSet option \<Rightarrow> VisualSet option rt" where
  "setOp (Add v) s = set_add s v"
| "setOp (Discard v) s = set_remove s v"

fun finOp :: "SetOp \<Rightarrow> 64 word set \<Rightarrow> 64 word set" where
  "finOp (Add v) A = insert v A"
| "finOp (Discard v) A = A - {v}"

lemma set_run:
  "set_ok n s \<Longrightarrow> n + length ops \<le> 2 ^ 59 \<Longrightarrow>
    \<exists>s'. eachT setOp ops (Some s) = Inr (Some s') \<and> set_ok (n + length ops) s' \<and> set (contents s') = fold finOp ops (set (contents s))"
proof (induction ops arbitrary: n s)
  case (Cons op ops)
  have n: "n < 2 ^ 59" "n + 1 + length ops \<le> 2 ^ 59" using Cons.prems(2) by simp_all
  obtain s1 where s1: "setOp op (Some s) = Inr (Some s1)" "set_ok (n + 1) s1" "set (contents s1) = finOp op (set (contents s))"
  proof (cases op)
    case (Add v)
    then show ?thesis using that add_contents[OF Cons.prems(1) n(1), of v] by (auto simp: set_add_def)
  next
    case (Discard v)
    obtain s' where s': "set_remove (Some s) v = Inr (Some s')" "set_ok n s'" "set (contents s') = set (contents s) - {v}"
      using remove_set_contents[OF Cons.prems(1), of v] by blast
    moreover have "set_ok (n + 1) s'" using s'(2) sized_mono[of n s' "n + 1"] by (simp add: set_ok_def)
    ultimately show ?thesis using that[of s'] Discard by simp
  qed
  show ?case using Cons.IH[OF s1(2) n(2)] s1(1,3) by auto
qed simp

text \<open>
  C34. Two sets built by at most \<^verbatim>\<open>2 ^ 58\<close> insertions and deletions each implement finite sets: membership, size and
  the list of elements, each once, are those of the mathematical set, and union and intersection are those of the
  two sets.
\<close>

theorem set_refines:
  assumes "length ops \<le> 2 ^ 58" "length ops' \<le> 2 ^ 58"
  defines "A \<equiv> fold finOp ops {}" and "B \<equiv> fold finOp ops' {}"
  shows "\<exists>a b. eachT setOp ops (Some set_new) = Inr (Some a) \<and> eachT setOp ops' (Some set_new) = Inr (Some b)
    \<and> (\<forall>v. set_contains (Some a) v = Inr (v \<in> A)) \<and> set_size (Some a) = int (card A)
    \<and> (\<exists>r. set_to_list (Some a) = Inr r \<and> distinct (contents r) \<and> set (contents r) = A)
    \<and> (\<exists>r. set_union (Some a) (Some b) = Inr r \<and> distinct (contents r) \<and> set (contents r) = A \<union> B)
    \<and> (\<exists>r. set_intersect (Some a) (Some b) = Inr r \<and> distinct (contents r) \<and> set (contents r) = A \<inter> B)"
proof -
  let ?n = "max (length ops) (length ops')"
  have n: "?n \<le> 2 ^ 58" "?n \<le> 2 ^ 59" using assms(1,2) by simp_all
  obtain a where a: "eachT setOp ops (Some set_new) = Inr (Some a)" "set_ok (0 + length ops) a" "set (contents a) = A"
    using set_run[OF set_new_ok(1), of ops] assms(1) by (auto simp: A_def)
  obtain b where b: "eachT setOp ops' (Some set_new) = Inr (Some b)" "set_ok (0 + length ops') b" "set (contents b) = B"
    using set_run[OF set_new_ok(1), of ops'] assms(2) by (auto simp: B_def)
  have ok: "set_ok ?n a" "set_ok ?n b"
    using a(2) b(2) sized_mono[of "length ops" a ?n] sized_mono[of "length ops'" b ?n] by (simp_all add: set_ok_def)
  have s: "sized ?n a" "distinct (contents a)" using ok(1) by (simp_all add: set_ok_def)
  have "set_size (Some a) = int (card A)"
    using length_contents[OF sized_ok[OF s(1)]] distinct_card[OF s(2)] a(3) by (simp add: set_size_def)
  moreover have "\<exists>r. set_to_list (Some a) = Inr r \<and> distinct (contents r) \<and> set (contents r) = A"
    using elements_loop[OF s(1) n(2)] s(2) a(3) by (auto simp: set_to_list_def)
  moreover have "\<exists>r. set_union (Some a) (Some b) = Inr r \<and> distinct (contents r) \<and> set (contents r) = A \<union> B"
    using union_contents[OF ok n(1)] a(3) b(3) by (auto simp: set_ok_def)
  ultimately show ?thesis
    using a(1,3) b(1,3) contains_set[OF sized_ok[OF s(1)]] intersect_contents[OF ok n(1)] by auto
qed

theorem set_refines_witness:
  "\<exists>a b r. eachT setOp [Add 1, Add 2, Add 1, Discard 1] (Some set_new) = Inr (Some a)
     \<and> eachT setOp [Add 2, Add 3] (Some set_new) = Inr (Some b)
     \<and> set_size (Some a) = 1 \<and> set_union (Some a) (Some b) = Inr r \<and> set (contents r) = {2, 3}"
  using set_refines[of "[Add 1, Add 2, Add 1, Discard 1]" "[Add 2, Add 3]"] by (auto simp: insert_Diff_if)

end
