(* ===== verification/Rt_Queues.thy ===== *)
theory Rt_Queues
  imports Rt_List_Props "HOL-Library.Multiset"
begin

text \<open>
  The stacks and queues of the runtime library implement sequences with one end and with two, and the random
  shuffle is a permutation.
\<close>

section \<open>Stacks and queues\<close>

datatype BagOp = Enter "64 word" | Leave

fun stackOp :: "BagOp \<Rightarrow> VisualStack option \<times> 64 word list \<Rightarrow> (VisualStack option \<times> 64 word list) rt" where
  "stackOp (Enter v) (s, out) = bindT (stack_push s v) (\<lambda>s. Inr (s, out))"
| "stackOp Leave (s, out) = bindT (stack_pop s) (\<lambda>(v, s). Inr (s, out @ [v]))"

fun lifoOp :: "BagOp \<Rightarrow> 64 word list \<times> 64 word list \<Rightarrow> (64 word list \<times> 64 word list) rt" where
  "lifoOp (Enter v) (xs, out) = Inr (xs @ [v], out)"
| "lifoOp Leave (xs, out) = (if xs = [] then Inl (RtExit ''StackError'') else Inr (butlast xs, out @ [last xs]))"

fun queueOp :: "BagOp \<Rightarrow> VisualQueue option \<times> 64 word list \<Rightarrow> (VisualQueue option \<times> 64 word list) rt" where
  "queueOp (Enter v) (q, out) = bindT (queue_enqueue q v) (\<lambda>q. Inr (q, out))"
| "queueOp Leave (q, out) = bindT (queue_dequeue q) (\<lambda>(v, q). Inr (q, out @ [v]))"

fun fifoOp :: "BagOp \<Rightarrow> 64 word list \<times> 64 word list \<Rightarrow> (64 word list \<times> 64 word list) rt" where
  "fifoOp (Enter v) (xs, out) = Inr (xs @ [v], out)"
| "fifoOp Leave (xs, out) = (if xs = [] then Inl (RtExit ''QueueError'') else Inr (tl xs, out @ [hd xs]))"

text \<open>A run on the concrete state and a run on sequences agree.\<close>

locale bag =
  fixes step :: "BagOp \<Rightarrow> 's \<times> 64 word list \<Rightarrow> ('s \<times> 64 word list) rt"
    and spec :: "BagOp \<Rightarrow> 64 word list \<times> 64 word list \<Rightarrow> (64 word list \<times> 64 word list) rt"
    and holds :: "nat \<Rightarrow> 64 word list \<Rightarrow> 's \<Rightarrow> bool"
  assumes step_holds: "holds n xs s \<Longrightarrow> n < 2 ^ 59 \<Longrightarrow>
    (case spec op (xs, out) of
       Inl e \<Rightarrow> step op (s, out) = Inl e
     | Inr (ys, out') \<Rightarrow> \<exists>t. step op (s, out) = Inr (t, out') \<and> holds (n + 1) ys t)"
begin

lemma run_holds:
  "holds n xs s \<Longrightarrow> n + length ops \<le> 2 ^ 59 \<Longrightarrow>
    (case eachT spec ops (xs, out) of
       Inl e \<Rightarrow> eachT step ops (s, out) = Inl e
     | Inr (ys, out') \<Rightarrow> \<exists>t. eachT step ops (s, out) = Inr (t, out') \<and> holds (n + length ops) ys t)"
proof (induction ops arbitrary: n xs s out)
  case (Cons op ops)
  have n: "n < 2 ^ 59" "n + 1 + length ops \<le> 2 ^ 59" using Cons.prems(2) by simp_all
  show ?case
  proof (cases "spec op (xs, out)")
    case (Inl e)
    then show ?thesis using step_holds[OF Cons.prems(1) n(1), of op out] by simp
  next
    case (Inr r)
    obtain ys out' where r: "r = (ys, out')" by (cases r)
    obtain t where t: "step op (s, out) = Inr (t, out')" "holds (n + 1) ys t"
      using step_holds[OF Cons.prems(1) n(1), of op out] Inr r by auto
    show ?thesis using Cons.IH[OF t(2) n(2), of out'] t(1) Inr r by (simp split: sum.splits prod.splits)
  qed
qed simp

end

definition stackHolds :: "nat \<Rightarrow> 64 word list \<Rightarrow> VisualStack option \<Rightarrow> bool" where
  "stackHolds n xs s \<longleftrightarrow> (case s of None \<Rightarrow> False | Some s \<Rightarrow> sized n (stack_list s) \<and> contents (stack_list s) = xs)"

lemma stack_step:
  assumes "stackHolds n xs s" "n < 2 ^ 59"
  shows "case lifoOp op (xs, out) of
       Inl e \<Rightarrow> stackOp op (s, out) = Inl e
     | Inr (ys, out') \<Rightarrow> \<exists>t. stackOp op (s, out) = Inr (t, out') \<and> stackHolds (n + 1) ys t"
proof -
  obtain l where s: "s = Some \<lparr>stack_list = l\<rparr>" "sized n l" "contents l = xs"
    using assms(1) by (cases s) (auto simp: stackHolds_def, metis VisualStack.surjective old.unit.exhaust)
  note len = length_contents[OF sized_ok[OF s(2)]]
  show ?thesis
  proof (cases op)
    case (Enter v)
    then show ?thesis using push_sized[OF s(2) assms(2), of v] s by (auto simp: stack_push_def stackHolds_def)
  next
    case Leave
    show ?thesis
    proof (cases "xs = []")
      case True
      then have "list_length l = 0" using len s(3) by simp
      then show ?thesis using True Leave s(1) by (simp add: stack_pop_def)
    next
      case False
      let ?n = "list_length l - 1"
      let ?l = "l\<lparr>list_length := ?n\<rparr>"
      have k: "list_length l = int (length xs)" "0 < length xs" using len s(3) False by auto
      then have "nat ?n = length xs - 1" by simp
      then have r: "readAt ?n l = Inr (last xs)"
        using readAt_contents[OF sized_ok[OF s(2)], of ?n] s(3) k False by (simp add: last_conv_nth)
      have "contents ?l = butlast xs"
      proof -
        have le: "nat (list_length l) \<le> length (data l)" using s(2) by (auto simp: sized_def list_ok_def)
        have "nat ?n = nat (list_length l) - 1" using k by linarith
        then have "contents ?l = map the (take (nat (list_length l) - 1) (data l))" by (simp add: contents_def)
        also have "\<dots> = butlast (contents l)" unfolding contents_def map_butlast[symmetric] butlast_take[OF le] ..
        finally show ?thesis using s(3) by simp
      qed
      moreover have "sized (n + 1) ?l" using s(2) k by (auto simp: sized_def list_ok_def)
      ultimately show ?thesis using r s(1) k False Leave by (simp add: stack_pop_def stackHolds_def Let_def)
    qed
  qed
qed

interpretation stacks: bag stackOp lifoOp stackHolds
  by unfold_locales (rule stack_step)

definition queueHolds :: "nat \<Rightarrow> 64 word list \<Rightarrow> VisualQueue option \<Rightarrow> bool" where
  "queueHolds n xs q \<longleftrightarrow> (case q of None \<Rightarrow> False | Some q \<Rightarrow>
     sized n (queue_list q) \<and> 0 \<le> front q \<and> front q \<le> list_length (queue_list q) \<and> drop (nat (front q)) (contents (queue_list q)) = xs)"

lemma queue_step:
  assumes "queueHolds n xs q" "n < 2 ^ 59"
  shows "case fifoOp op (xs, out) of
       Inl e \<Rightarrow> queueOp op (q, out) = Inl e
     | Inr (ys, out') \<Rightarrow> \<exists>t. queueOp op (q, out) = Inr (t, out') \<and> queueHolds (n + 1) ys t"
proof -
  obtain l f where q: "q = Some \<lparr>queue_list = l, front = f\<rparr>" "sized n l" "0 \<le> f" "f \<le> list_length l" "drop (nat f) (contents l) = xs"
    using assms(1) by (cases q) (auto simp: queueHolds_def, metis VisualQueue.surjective VisualQueue.select_convs old.unit.exhaust)
  note len = length_contents[OF sized_ok[OF q(2)]]
  have empty: "xs = [] \<longleftrightarrow> f \<ge> list_length l" using q(3,5) len by auto
  show ?thesis
  proof (cases op)
    case (Enter v)
    obtain l' where l': "pushTo v l = Inr l'" "sized (n + 1) l'" "contents l' = contents l @ [v]" using push_sized[OF q(2) assms(2), of v] by blast
    have "nat f \<le> length (contents l)" using q(3,4) len by simp
    moreover have "f \<le> list_length l'" using length_contents[OF sized_ok[OF l'(2)]] l'(3) len q(4) by simp
    ultimately show ?thesis using Enter q(1,3,5) l' by (simp add: queue_enqueue_def queueHolds_def)
  next
    case Leave
    show ?thesis
    proof (cases "xs = []")
      case False
      then have f: "f < list_length l" "nat f < length (contents l)" using empty q(3) len by simp_all
      have r: "readAt f l = Inr (hd xs)"
        using readAt_contents[OF sized_ok[OF q(2)] q(3) f(1)] q(5) hd_drop_conv_nth[OF f(2)] by simp
      have "tl xs = drop (nat (f + 1)) (contents l)" using q(3,5) by (auto simp: nat_add_distrib drop_Suc tl_drop)
      then show ?thesis using r q(1,3) f(1) False Leave sized_mono[OF q(2), of "n + 1"]
        by (simp add: queue_dequeue_def queueHolds_def)
    qed (use empty q(1) Leave in \<open>simp add: queue_dequeue_def\<close>)
  qed
qed

interpretation queues: bag queueOp fifoOp queueHolds
  by unfold_locales (rule queue_step)

text \<open>
  C35. Any sequence of at most \<^verbatim>\<open>2 ^ 59\<close> insertions and removals on a new stack returns what a last-in first-out
  sequence returns and on a new queue what a first-in first-out sequence returns, or ends with the error at the
  first removal from an empty one; the sizes are those of the sequences.
\<close>

theorem stack_queue_refine:
  assumes "length ops \<le> 2 ^ 59"
  shows "(case eachT lifoOp ops ([], []) of
      Inl e \<Rightarrow> eachT stackOp ops (Some stack_new, []) = Inl e
    | Inr (xs, out) \<Rightarrow> \<exists>s. eachT stackOp ops (Some stack_new, []) = Inr (s, out) \<and> stack_size s = int (length xs))
   \<and> (case eachT fifoOp ops ([], []) of
      Inl e \<Rightarrow> eachT queueOp ops (Some queue_new, []) = Inl e
    | Inr (xs, out) \<Rightarrow> \<exists>q. eachT queueOp ops (Some queue_new, []) = Inr (q, out) \<and> queue_size q = int (length xs))"
proof -
  have "stack_size s = int (length xs)" if "stackHolds n xs s" for n xs s
    using that length_contents by (auto simp: stackHolds_def stack_size_def split: option.splits dest!: sized_ok)
  moreover have "queue_size q = int (length xs)" if "queueHolds n xs q" for n xs q
    using that by (auto simp: queueHolds_def queue_size_def split: option.splits dest!: sized_ok)
  moreover have "stackHolds 0 [] (Some stack_new)" "queueHolds 0 [] (Some queue_new)"
    by (simp_all add: stackHolds_def stack_new_def queueHolds_def queue_new_def)
  ultimately show ?thesis
    using stacks.run_holds[of 0 "[]" "Some stack_new" ops "[]"] queues.run_holds[of 0 "[]" "Some queue_new" ops "[]"] assms
    by (fastforce split: sum.splits)
qed

theorem stack_queue_refine_witness:
  "\<exists>s q. eachT stackOp [Enter 1, Enter 2, Leave] (Some stack_new, []) = Inr (s, [2]) \<and> stack_size s = 1
     \<and> eachT queueOp [Enter 1, Enter 2, Leave] (Some queue_new, []) = Inr (q, [1]) \<and> queue_size q = 1"
  using stack_queue_refine[of "[Enter 1, Enter 2, Leave]"] by auto

section \<open>The shuffle\<close>

lemma randMod_bounds: "0 \<le> r \<Longrightarrow> 0 < m \<Longrightarrow> m < 2 ^ 31 \<Longrightarrow> \<exists>j. randMod r m = Inr j \<and> 0 \<le> j \<and> j < m"
proof -
  assume a: "0 \<le> r" "0 < m" "m < 2 ^ 31"
  then have "toInt m = m" by (simp add: toInt_def sint_sbintrunc' signed_take_bit_int_eq_self)
  then show ?thesis using a by (cases "r = 0") (auto simp: randMod_def Let_def sgn_if)
qed

lemma swap_contents:
  assumes "sized n l" "0 \<le> i" "i < list_length l" "i < 2 ^ 31 - 1" "0 \<le> rnd i"
  shows "\<exists>l'. swapStep rnd i l = Inr l' \<and> sized n l' \<and> list_length l' = list_length l \<and> mset (contents l') = mset (contents l)"
proof -
  let ?xs = "contents l"
  have ok: "list_ok l" by (rule sized_ok[OF assms(1)])
  have len: "list_length l = int (length ?xs)" by (rule length_contents[OF ok])
  obtain j where j: "randMod (rnd i) (i + 1) = Inr j" "0 \<le> j" "j < i + 1"
    using randMod_bounds[OF assms(5), of "i + 1"] assms(2,4) by auto
  have j': "j < list_length l" using j(3) assms(3) by simp
  obtain l1 where l1: "writeAt i (?xs ! nat j) l = Inr l1" "list_ok l1" "contents l1 = ?xs[nat i := ?xs ! nat j]"
    "capacity l1 = capacity l" "list_length l1 = list_length l"
    using write_contents[OF ok assms(2,3)] by blast
  obtain l2 where l2: "writeAt j (?xs ! nat i) l1 = Inr l2" "list_ok l2" "contents l2 = (contents l1)[nat j := ?xs ! nat i]"
    "capacity l2 = capacity l1" "list_length l2 = list_length l1"
    using write_contents[OF l1(2) j(2)] j' l1(5) by metis
  have "swapStep rnd i l = Inr l2"
    using j(1) readAt_contents[OF ok assms(2,3)] readAt_contents[OF ok j(2) j'] l1(1) l2(1) by (simp add: swapStep_def)
  moreover have "sized n l2" using assms(1) l1(4,5) l2(2,4,5) by (simp add: sized_def)
  moreover have "mset (contents l2) = mset ?xs" using mset_swap[of "nat j" ?xs "nat i"] assms(2,3) j(2) j' len l1(3) l2(3) by simp
  ultimately show ?thesis using l1(5) l2(5) by simp
qed

lemma shuffle_loop:
  assumes "\<forall>i. 0 \<le> rnd i" "\<forall>i \<in> set is. 0 \<le> i \<and> i < list_length l \<and> i < 2 ^ 31 - 1" "sized n l"
  shows "\<exists>l'. eachT (swapStep rnd) is l = Inr l' \<and> sized n l' \<and> list_length l' = list_length l \<and> mset (contents l') = mset (contents l)"
  using assms(2,3)
proof (induction "is" arbitrary: l)
  case (Cons i "is")
  obtain l1 where l1: "swapStep rnd i l = Inr l1" "sized n l1" "list_length l1 = list_length l" "mset (contents l1) = mset (contents l)"
    using swap_contents[OF Cons.prems(2), of i rnd] Cons.prems(1) assms(1) by auto
  have "\<forall>i \<in> set is. 0 \<le> i \<and> i < list_length l1 \<and> i < 2 ^ 31 - 1" using Cons.prems(1) l1(3) by simp
  from Cons.IH[OF this l1(2)] show ?case using l1 by auto
qed simp

text \<open>
  Whatever non-negative numbers the generator delivers, shuffling a list of fewer than \<^verbatim>\<open>2 ^ 31\<close> elements ends
  with a permutation of it and accesses no other cell.
\<close>

theorem shuffle_permutes:
  assumes "sized n l" "list_length l < 2 ^ 31" "\<forall>i. 0 \<le> rnd i"
  shows "\<exists>l'. random_shuffle rnd (Some l) = Inr (Some l') \<and> sized n l' \<and> mset (contents l') = mset (contents l)"
proof -
  let ?is = "downTo (list_length l - 1) 0 (- 1)"
  have "forDown (list_length l - 1) 0 (- 1) (swapStep rnd) l = eachT (swapStep rnd) ?is l" by (rule forDown_each) (simp add: INT64_MIN_def)
  moreover have "\<forall>i \<in> set ?is. 0 \<le> i \<and> i < list_length l \<and> i < 2 ^ 31 - 1" using assms(2) by (auto simp: downTo_set)
  from shuffle_loop[OF assms(3) this assms(1)] obtain l' where
    "eachT (swapStep rnd) ?is l = Inr l'" "sized n l'" "mset (contents l') = mset (contents l)" by blast
  ultimately show ?thesis by (simp add: random_shuffle_def)
qed

theorem shuffle_permutes_witness:
  "\<exists>l l'. contents l = [4, 5, 6] \<and> random_shuffle (\<lambda>i. 7) (Some l) = Inr (Some l') \<and> mset (contents l') = {#4, 5, 6#}"
proof -
  let ?l = "\<lparr>data = map Some [4, 5, 6] @ replicate 5 None, list_length = 3, capacity = 8\<rparr>"
  have s: "sized 3 ?l" by code_simp
  have c: "contents ?l = [4, 5, 6]" by code_simp
  obtain l' where "random_shuffle (\<lambda>i. 7) (Some ?l) = Inr (Some l')" "mset (contents l') = mset (contents ?l)"
    using shuffle_permutes[OF s, of "\<lambda>i. 7"] by auto
  then show ?thesis using c by (intro exI[of _ ?l] exI[of _ l']) simp
qed

lemma randint_bounds:
  "0 \<le> r \<Longrightarrow> lo \<le> hi \<Longrightarrow> hi - lo < 2 ^ 31 - 1 \<Longrightarrow> \<exists>x. random_randint r lo hi = Inr x \<and> lo \<le> x \<and> x \<le> hi"
  using randMod_bounds[of r "hi - lo + 1"] by (fastforce simp: random_randint_def INT64_MAX_def)

text \<open>The number of values is cut to 32 bits: with \<^verbatim>\<open>2 ^ 32\<close> of them the remainder is by zero.\<close>

lemma randint_wide: "random_randint r 0 (2 ^ 32 - 1) = Inl Undefined"
  by (simp add: random_randint_def randMod_def toInt_def INT64_MAX_def)

end
