(* ===== verification/Rt_Text.thy ===== *)
theory Rt_Text
  imports Rt_Base Parser_Literals
begin

text \<open>
  The strings of the runtime library (\<^verbatim>\<open>stdlib/runtime.c\<close>). A C string is the list of its characters without the
  final zero; a null pointer is \<^verbatim>\<open>None\<close>. A function that makes a string returns the object it allocates for it: the
  number of bytes it asks the collector for, and the text it writes into them. Writing past the object, the final
  zero included, is the fault \<^verbatim>\<open>Outside\<close>. Byte counts of type \<^verbatim>\<open>size_t\<close> are words.
\<close>

unbundle bit_operations_syntax

section \<open>Making strings\<close>

datatype StrObj = StrObj (so_bytes: "64 word") (so_text: string)

definition newString :: "64 word \<Rightarrow> string \<Rightarrow> StrObj rt" where
  "newString bytes s = (if length s < unat bytes then Inr (StrObj bytes s) else Inl Outside)"

text \<open>The copy of the empty string that is returned for null pointers.\<close>

definition newEmpty :: "StrObj rt" where
  "newEmpty = newString 1 []"

definition orEmpty :: "string option \<Rightarrow> string" where
  "orEmpty s = (case s of None \<Rightarrow> [] | Some s \<Rightarrow> s)"

definition vsl_strdup :: "string option \<Rightarrow> StrObj option rt" where
  "vsl_strdup s = (case s of
     None \<Rightarrow> Inr None | Some s \<Rightarrow> bindT (newString (of_nat (length s) + 1) s) (\<lambda>s. Inr (Some s)))"

definition str_concat :: "string option \<Rightarrow> string option \<Rightarrow> StrObj rt" where
  "str_concat a b = newString (of_nat (length (orEmpty a)) + of_nat (length (orEmpty b)) + 1) (orEmpty a @ orEmpty b)"

definition str_eq :: "string option \<Rightarrow> string option \<Rightarrow> bool" where
  "str_eq a b = (case (a, b) of (None, None) \<Rightarrow> True | (Some a, Some b) \<Rightarrow> a = b | _ \<Rightarrow> False)"

definition string_len :: "string option \<Rightarrow> int" where
  "string_len s = (case s of None \<Rightarrow> 0 | Some s \<Rightarrow> int (length s))"

section \<open>Numbers\<close>

definition int_to_str :: "int64 \<Rightarrow> string" where
  "int_to_str val = to_string (sint val)"

definition bool_to_str :: "int64 \<Rightarrow> string" where
  "bool_to_str val = (if val \<noteq> 0 then ''true'' else ''false'')"

text \<open>\<^verbatim>\<open>strtoll\<close> in base 10 is what \<^verbatim>\<open>std::stoll\<close> calls; the two errors are those of the exceptions.\<close>

definition str_to_int :: "string option \<Rightarrow> int64 rt" where
  "str_to_int s = (case s of
     None \<Rightarrow> Inr 0
   | Some s \<Rightarrow> (case stoll s of Inl e \<Rightarrow> Inl (RtExit ''ValueError'') | Inr v \<Rightarrow> Inr v))"

text \<open>The buffer \<^verbatim>\<open>tmp\<close> after the loop of \<^verbatim>\<open>fast_i64_to_buf\<close>, which writes the digits from the last to the first.\<close>

function tmpDigits :: "64 word \<Rightarrow> string" where
  "tmpDigits uv = char_of (48 + unat (uv mod 10)) # (if uv div 10 = 0 then [] else tmpDigits (uv div 10))"
  by pat_completeness auto

termination tmpDigits
proof (relation "measure unat")
  fix uv :: "64 word"
  assume "uv div 10 \<noteq> 0"
  then have "0 < unat uv" by (cases "uv = 0") (auto simp: unat_gt_0)
  then show "(uv div 10, uv) \<in> measure unat" by (simp add: unat_div)
qed simp

declare tmpDigits.simps [simp del]

definition fast_i64_to_buf :: "int64 \<Rightarrow> string" where
  "fast_i64_to_buf val =
     (let neg = val <s 0; uv = (if neg then word_of_int (- (sint val + 1)) + 1 else val)
      in (if neg then [CHR ''-''] else []) @ rev (tmpDigits uv))"

section \<open>The f-string builder\<close>

text \<open>
  A part is a word: with the lowest bit set it is an integer shifted left by one, otherwise the address of a
  string, which the function \<^verbatim>\<open>str\<close> reads, or null. At most 32 parts are looked at, and only 16 integers have a
  buffer.
\<close>

fun resolveParts :: "(64 word \<Rightarrow> string) \<Rightarrow> 64 word list \<Rightarrow> nat \<Rightarrow> string list rt" where
  "resolveParts str [] ibuf_idx = Inr []"
| "resolveParts str (raw # parts) ibuf_idx =
     (if raw AND 1 = 1 then
        if ibuf_idx < 16 \<and> length (fast_i64_to_buf (signed_drop_bit 1 raw)) < 24 then
          bindT (resolveParts str parts (ibuf_idx + 1)) (\<lambda>r. Inr (fast_i64_to_buf (signed_drop_bit 1 raw) # r))
        else Inl Outside
      else bindT (resolveParts str parts ibuf_idx) (\<lambda>r. Inr ((if raw \<noteq> 0 then str raw else []) # r)))"

definition fstring_build :: "(64 word \<Rightarrow> string) \<Rightarrow> 64 word list \<Rightarrow> StrObj rt" where
  "fstring_build str parts = bindT (resolveParts str (take 32 parts) 0)
     (\<lambda>r. newString (sum_list (map (\<lambda>s. of_nat (length s)) r) + 1) (concat r))"

text \<open>How the compiler passes an integer part.\<close>

definition fstringTag :: "int64 \<Rightarrow> 64 word" where
  "fstringTag val = push_bit 1 val OR 1"

section \<open>Slices and characters\<close>

definition charAt :: "string \<Rightarrow> int \<Rightarrow> char rt" where
  "charAt s i = (if 0 \<le> i \<and> i < int (length s) then Inr (s ! nat i) else Inl Outside)"

definition sliceBounds :: "int \<Rightarrow> int \<Rightarrow> int \<Rightarrow> int \<Rightarrow> int \<times> int" where
  "sliceBounds len start stop step =
     (let start = (if start < 0 then start + len else start);
          stop = (if stop < 0 then stop + len else stop)
      in if step > 0 then
           let start = (if start < 0 then 0 else start); start = (if start > len then len else start);
               stop = (if stop < 0 then 0 else stop); stop = (if stop > len then len else stop)
           in (start, stop)
         else
           let start = (if start \<ge> len then len - 1 else start); stop = (if stop < - 1 then - 1 else stop);
               start = (if start < 0 then - 1 else start)
           in (start, stop))"

definition string_slice :: "string option \<Rightarrow> int \<Rightarrow> int \<Rightarrow> int \<Rightarrow> StrObj rt" where
  "string_slice s start stop step = (case s of
     None \<Rightarrow> newEmpty
   | Some s \<Rightarrow>
       if step = 0 then Inl (RtExit ''ValueError'')
       else case sliceBounds (int (length s)) start stop step of (start, stop) \<Rightarrow>
         bindT (forStep start stop step (\<lambda>i count. Inr (count + 1)) (0 :: int))
           (\<lambda>count. if count \<le> 0 then newEmpty
              else bindT (forStep start stop step (\<lambda>i out. bindT (charAt s i) (\<lambda>c. Inr (out @ [c]))) [])
                     (newString (word_of_int (count + 1)))))"

definition string_index :: "string option \<Rightarrow> int \<Rightarrow> StrObj rt" where
  "string_index s i = (case s of
     None \<Rightarrow> Inl (RtExit ''IndexError'')
   | Some s \<Rightarrow>
       let len = int (length s); i = (if i < 0 then len + i else i)
       in if i < 0 \<or> i \<ge> len then Inl (RtExit ''IndexError'') else bindT (charAt s i) (\<lambda>c. newString 2 [c]))"

definition toupper :: "char \<Rightarrow> char" where
  "toupper c = (if 97 \<le> code c \<and> code c \<le> 122 then char_of (code c - 32) else c)"

definition tolower :: "char \<Rightarrow> char" where
  "tolower c = (if 65 \<le> code c \<and> code c \<le> 90 then char_of (code c + 32) else c)"

definition string_upper :: "string option \<Rightarrow> StrObj rt" where
  "string_upper s = newString (of_nat (length (orEmpty s)) + 1) (map toupper (orEmpty s))"

definition string_lower :: "string option \<Rightarrow> StrObj rt" where
  "string_lower s = newString (of_nat (length (orEmpty s)) + 1) (map tolower (orEmpty s))"

fun stripStart :: "string \<Rightarrow> nat \<Rightarrow> nat" where
  "stripStart [] start = start"
| "stripStart (c # cs) start = (if isspace c then stripStart cs (start + 1) else start)"

fun stripEnd :: "string \<Rightarrow> nat \<Rightarrow> nat \<Rightarrow> nat" where
  "stripEnd s start 0 = 0"
| "stripEnd s start (Suc e) = (if Suc e > start \<and> isspace (s ! e) then stripEnd s start e else Suc e)"

definition string_strip :: "string option \<Rightarrow> StrObj rt" where
  "string_strip s = (case s of
     None \<Rightarrow> newEmpty
   | Some s \<Rightarrow> let start = stripStart s 0; e = stripEnd s start (length s); new_len = e - start
               in newString (of_nat new_len + 1) (take new_len (drop start s)))"

definition string_lstrip :: "string option \<Rightarrow> StrObj rt" where
  "string_lstrip s = (case s of None \<Rightarrow> newEmpty | Some s \<Rightarrow> let p = dropWhile isspace s in newString (of_nat (length p) + 1) p)"

definition string_rstrip :: "string option \<Rightarrow> StrObj rt" where
  "string_rstrip s = (case s of
     None \<Rightarrow> newEmpty | Some s \<Rightarrow> let len = stripEnd s 0 (length s) in newString (of_nat len + 1) (take len s))"

section \<open>Searching, splitting and joining\<close>

text \<open>\<^verbatim>\<open>strstr\<close>: the position of the first occurrence.\<close>

definition startsWith :: "string \<Rightarrow> string \<Rightarrow> bool" where
  "startsWith s p \<longleftrightarrow> take (length p) s = p"

fun strstr :: "string \<Rightarrow> string \<Rightarrow> nat option" where
  "strstr s sub =
     (if startsWith s sub then Some 0
      else case s of [] \<Rightarrow> None | c # cs \<Rightarrow> map_option Suc (strstr cs sub))"

declare strstr.simps [simp del]

text \<open>The loops run on separators that are not empty; the guard makes the functions total.\<close>

lemma drop_past [simp]: "x \<noteq> [] \<Longrightarrow> k + length x \<le> n \<Longrightarrow> n - (k + length x) < n"
  by (cases x) auto

function splitFrom :: "string \<Rightarrow> string \<Rightarrow> string list" where
  "splitFrom p sep = (case strstr p sep of
     None \<Rightarrow> [p]
   | Some k \<Rightarrow> if sep = [] \<or> k + length sep > length p then [p]
               else take k p # splitFrom (drop (k + length sep) p) sep)"
  by pat_completeness auto

termination splitFrom
  by (relation "measure (\<lambda>(p, sep). length p)") (auto simp: not_less)

declare splitFrom.simps [simp del]

text \<open>Every part is copied into an object of its own.\<close>

fun newParts :: "string list \<Rightarrow> StrObj list rt" where
  "newParts [] = Inr []"
| "newParts (p # ps) = bindT (newString (of_nat (length p) + 1) p) (\<lambda>part. bindT (newParts ps) (\<lambda>parts. Inr (part # parts)))"

definition string_split :: "string option \<Rightarrow> string option \<Rightarrow> StrObj list rt" where
  "string_split s sep = (case s of
     None \<Rightarrow> Inr []
   | Some s \<Rightarrow> newParts (splitFrom s (case sep of None \<Rightarrow> '' '' | Some sep \<Rightarrow> if sep = [] then '' '' else sep)))"

fun joinBytes :: "nat \<Rightarrow> string option list \<Rightarrow> 64 word" where
  "joinBytes sep_len [] = 0"
| "joinBytes sep_len [part] = of_nat (length (orEmpty part))"
| "joinBytes sep_len (part # parts) = of_nat (length (orEmpty part)) + of_nat sep_len + joinBytes sep_len parts"

fun joinText :: "string \<Rightarrow> string option list \<Rightarrow> string" where
  "joinText sep [] = []"
| "joinText sep [part] = orEmpty part"
| "joinText sep (part # parts) = orEmpty part @ sep @ joinText sep parts"

definition string_join :: "string option \<Rightarrow> string option list option \<Rightarrow> StrObj rt" where
  "string_join sep parts = (case parts of
     None \<Rightarrow> newEmpty
   | Some parts \<Rightarrow> if parts = [] then newEmpty
       else newString (joinBytes (length (orEmpty sep)) parts + 1) (joinText (orEmpty sep) parts))"

function countFrom :: "string \<Rightarrow> string \<Rightarrow> 64 word" where
  "countFrom p old = (case strstr p old of
     None \<Rightarrow> 0
   | Some k \<Rightarrow> if old = [] \<or> k + length old > length p then 0 else 1 + countFrom (drop (k + length old) p) old)"
  by pat_completeness auto

termination countFrom
  by (relation "measure (\<lambda>(p, old). length p)") (auto simp: not_less)

declare countFrom.simps [simp del]

function replaceFrom :: "string \<Rightarrow> string \<Rightarrow> string \<Rightarrow> string" where
  "replaceFrom p old new = (case strstr p old of
     None \<Rightarrow> p
   | Some k \<Rightarrow> if old = [] \<or> k + length old > length p then p
               else take k p @ new @ replaceFrom (drop (k + length old) p) old new)"
  by pat_completeness auto

termination replaceFrom
  by (relation "measure (\<lambda>(p, old, new). length p)") (auto simp: not_less)

declare replaceFrom.simps [simp del]

definition string_replace :: "string option \<Rightarrow> string option \<Rightarrow> string option \<Rightarrow> StrObj rt" where
  "string_replace s old new = (case s of
     None \<Rightarrow> newEmpty
   | Some s \<Rightarrow>
       if orEmpty old = [] then newString (of_nat (length s) + 1) s
       else let out_len = of_nat (length s) + countFrom s (orEmpty old) * (of_nat (length (orEmpty new)) - of_nat (length (orEmpty old)))
            in newString (out_len + 1) (replaceFrom s (orEmpty old) (orEmpty new)))"

definition string_starts_with :: "string option \<Rightarrow> string option \<Rightarrow> bool" where
  "string_starts_with s p = (case (s, p) of
     (Some s, Some p) \<Rightarrow> if length p > length s then False else take (length p) s = p | _ \<Rightarrow> False)"

definition string_ends_with :: "string option \<Rightarrow> string option \<Rightarrow> bool" where
  "string_ends_with s x = (case (s, x) of
     (Some s, Some x) \<Rightarrow> if length x > length s then False else drop (length s - length x) s = x | _ \<Rightarrow> False)"

definition string_contains :: "string option \<Rightarrow> string option \<Rightarrow> bool" where
  "string_contains s sub = (case (s, sub) of (Some s, Some sub) \<Rightarrow> strstr s sub \<noteq> None | _ \<Rightarrow> False)"

definition string_find :: "string option \<Rightarrow> string option \<Rightarrow> int" where
  "string_find s sub = (case (s, sub) of
     (Some s, Some sub) \<Rightarrow> (case strstr s sub of None \<Rightarrow> - 1 | Some k \<Rightarrow> int k) | _ \<Rightarrow> - 1)"

definition string_repeat :: "string option \<Rightarrow> int \<Rightarrow> StrObj rt" where
  "string_repeat s n = (case s of
     None \<Rightarrow> newEmpty
   | Some s \<Rightarrow>
       if n \<le> 0 then newEmpty
       else if length s > 0 \<and> n > (SIZE_MAX - 1) div int (length s) then Inl (RtExit ''string repeat overflow'')
       else newString (of_nat (length s) * word_of_int n + 1) (concat (replicate (nat n) s)))"

section \<open>Format\<close>

function growBuf :: "nat \<Rightarrow> nat \<Rightarrow> nat" where
  "growBuf need buf_cap = (if need \<ge> buf_cap \<and> buf_cap > 0 then growBuf need (buf_cap * 2) else buf_cap)"
  by pat_completeness auto

termination growBuf
  by (relation "measure (\<lambda>(need, buf_cap). need + 1 - buf_cap)") auto

declare growBuf.simps [simp del]

fun formatLoop :: "string \<Rightarrow> int64 list \<Rightarrow> nat \<Rightarrow> string \<Rightarrow> string rt" where
  "formatLoop [] args buf_cap out = (if length out < buf_cap then Inr out else Inl Outside)"
| "formatLoop (c # cs) args buf_cap out =
     (if c = LCURLY \<and> (case cs of [] \<Rightarrow> False | d # _ \<Rightarrow> d = RCURLY) then
        (case args of
           [] \<Rightarrow> formatLoop (tl cs) [] buf_cap out
         | a # args \<Rightarrow>
             let s = int_to_str a; buf_cap = growBuf (length out + length s + 1) buf_cap
             in if length out + length s \<le> buf_cap then formatLoop (tl cs) args buf_cap (out @ s) else Inl Outside)
      else
        let buf_cap = (if length out + 2 \<ge> buf_cap then buf_cap * 2 else buf_cap)
        in if length out < buf_cap then formatLoop cs args buf_cap (out @ [c]) else Inl Outside)"

definition string_format :: "string option \<Rightarrow> int64 list option \<Rightarrow> StrObj rt" where
  "string_format template args = (case template of
     None \<Rightarrow> newEmpty
   | Some t \<Rightarrow> bindT (formatLoop t (case args of None \<Rightarrow> [] | Some args \<Rightarrow> args) (length t + 256) [])
       (\<lambda>buf. newString (of_nat (length buf) + 1) buf))"

end
