(* ===== verification/Rt_Text_Props.thy ===== *)
theory Rt_Text_Props
  imports Rt_Text
begin

text \<open>
  What the string functions of the runtime library return, and that what they write fits the objects they
  allocate for it.
\<close>

unbundle bit_operations_syntax

section \<open>Sizes\<close>

text \<open>A string fills its object exactly: the object has one byte more than the text, for the final zero.\<close>

definition exact :: "StrObj \<Rightarrow> string \<Rightarrow> bool" where
  "exact obj s \<longleftrightarrow> so_text obj = s \<and> unat (so_bytes obj) = length s + 1"

definition exactly :: "StrObj rt \<Rightarrow> string \<Rightarrow> bool" where
  "exactly r s \<longleftrightarrow> (case r of Inl e \<Rightarrow> False | Inr obj \<Rightarrow> exact obj s)"

lemma newString_fits: "unat bytes = length s + 1 \<Longrightarrow> newString bytes s = Inr (StrObj bytes s)"
  by (simp add: newString_def)

lemma exactly_new: "unat bytes = length s + 1 \<Longrightarrow> exactly (newString bytes s) s"
  by (simp add: newString_def exactly_def exact_def)

lemma exactly_empty [simp]: "exactly newEmpty []"
  by (simp add: newEmpty_def exactly_new)

lemma unat_length: "n + 1 < 2 ^ 64 \<Longrightarrow> unat (of_nat n + 1 :: 64 word) = n + 1"
proof -
  assume "n + 1 < 2 ^ 64"
  then have "unat (of_nat (n + 1) :: 64 word) = n + 1" by (simp only: unat_of_nat) simp
  then show ?thesis by (simp add: add.commute)
qed

lemma exactly_length: "length s + 1 < 2 ^ 64 \<Longrightarrow> exactly (newString (of_nat (length s) + 1) s) s"
  by (rule exactly_new[OF unat_length])

section \<open>Numbers\<close>

lemma showNat_length: "n < 10 ^ k \<Longrightarrow> 0 < k \<Longrightarrow> length (showNat n) \<le> k"
proof (induction k arbitrary: n)
  case (Suc k)
  show ?case
  proof (cases "n < 10")
    case True
    then show ?thesis by (subst showNat.simps) simp
  next
    case False
    then have "k \<noteq> 0" using Suc.prems(1) by (cases k) auto
    moreover have "n div 10 < 10 ^ k" using Suc.prems(1) by (simp add: less_mult_imp_div_less mult.commute)
    ultimately show ?thesis using Suc.IH[of "n div 10"] False by (subst showNat.simps) simp
  qed
qed simp

lemma tmpDigits_showNat: "rev (tmpDigits uv) = showNat (unat uv)"
proof (induction uv rule: tmpDigits.induct)
  case (1 uv)
  have d: "unat (uv div 10) = unat uv div 10" "unat (uv mod 10) = unat uv mod 10" by (simp_all add: unat_div unat_mod)
  have z: "uv div 10 = 0 \<longleftrightarrow> unat uv < 10" using d(1) by (auto simp: unat_eq_0[symmetric] div_eq_0_iff)
  show ?case
  proof (cases "uv div 10 = 0")
    case True
    then show ?thesis using z d(2) by (subst tmpDigits.simps, subst showNat.simps) (simp add: digitChar_def)
  next
    case False
    then show ?thesis using z d 1 by (subst tmpDigits.simps, subst showNat.simps) (simp add: digitChar_def)
  qed
qed

lemma stoll_to_string:
  assumes "LLONG_MIN \<le> v" "v \<le> LLONG_MAX"
  shows "stoll (to_string v) = Inr (word_of_int v)"
proof -
  have all: "takeWhile isdigit (showNat n) = showNat n" for n using showNat_digits[of n] by (simp add: list_all_iff)
  obtain c ds where c: "showNat (nat v) = c # ds" using showNat_nonempty by (cases "showNat (nat v)") auto
  have d: "isdigit c" using showNat_digits[of "nat v"] c by simp
  then have n: "\<not> isspace c" "c \<noteq> CHR ''-''" "c \<noteq> CHR ''+''" by (auto simp: char_class_defs)
  show ?thesis
  proof (cases "v < 0")
    case True
    have "\<not> isspace (CHR ''-'')" by (simp add: char_class_defs)
    then show ?thesis using assms True showNat_nonempty
      by (simp add: stoll_def to_string_def splitSign_def all decimalValue_showNat Let_def)
  next
    case False
    have "dropWhile isspace (showNat (nat v)) = showNat (nat v)" "splitSign (showNat (nat v)) = (False, showNat (nat v))"
      using n c by (simp_all add: splitSign_def)
    then show ?thesis using assms False showNat_nonempty
      by (simp add: stoll_def to_string_def all decimalValue_showNat Let_def)
  qed
qed

lemma sint_range: "LLONG_MIN \<le> sint (v :: int64)" "sint v \<le> LLONG_MAX"
  using sint_ge[of v] sint_lt[of v] by simp_all

lemma fast_shows: "fast_i64_to_buf v = to_string (sint v)"
proof (cases "sint v < 0")
  case True
  have "word_of_int (- (sint v + 1)) + 1 = - v" by (simp add: word_of_int_minus[symmetric])
  moreover have "uint (- v) = - sint v"
  proof -
    have "word_of_int (- sint v) = - v" by simp
    moreover have "uint (word_of_int (- sint v) :: 64 word) = - sint v"
      using True sint_range(1)[of v] by (subst uint_word_of_int) (intro mod_pos_pos_trivial, simp_all)
    ultimately show ?thesis by simp
  qed
  then have "unat (- v) = nat (- sint v)" by (metis unat_eq_nat_uint)
  ultimately show ?thesis using True by (simp add: fast_i64_to_buf_def Let_def word_sless_alt tmpDigits_showNat to_string_def)
next
  case False
  then have "uint v = sint v" using sint_range(2)[of v] by (subst uint_sint) (simp add: take_bit_int_eq_self)
  then have "unat v = nat (sint v)" by (metis unat_eq_nat_uint)
  then show ?thesis using False by (simp add: fast_i64_to_buf_def Let_def word_sless_alt tmpDigits_showNat to_string_def)
qed

lemma to_string_length: "LLONG_MIN \<le> v \<Longrightarrow> v \<le> LLONG_MAX \<Longrightarrow> length (to_string v) \<le> 20"
  using showNat_length[of "nat v" 19] showNat_length[of "nat (- v)" 19] by (auto simp: to_string_def nat_less_iff)

text \<open>
  C36. The text of a 64-bit integer reads back as the integer, the fast conversion writes the same text as the one
  with the C library, and it needs at most 20 characters, so neither its digits nor the text with the final zero
  pass the ends of their buffers of 21 and 24 bytes.
\<close>

theorem int_text_roundtrip:
  "str_to_int (Some (int_to_str v)) = Inr v \<and> fast_i64_to_buf v = int_to_str v \<and> length (int_to_str v) \<le> 20"
  using stoll_to_string[OF sint_range] to_string_length[OF sint_range] by (simp add: str_to_int_def int_to_str_def fast_shows)

text \<open>Text behind a number is ignored.\<close>

lemma trailing_text: "str_to_int (Some ''12abc'') = Inr 12"
  by code_simp

section \<open>Slices\<close>

lemma count_loop: "eachT (\<lambda>i count. Inr (count + 1)) is (n :: int) = Inr (n + int (length is))"
  by (induction "is" arbitrary: n) simp_all

lemma chars_loop:
  "\<forall>i \<in> set is. 0 \<le> i \<and> i < int (length s) \<Longrightarrow>
     eachT (\<lambda>i out. bindT (charAt s i) (\<lambda>c. Inr (out @ [c]))) is out = Inr (out @ map (\<lambda>i. s ! nat i) is)"
  by (induction "is" arbitrary: out) (simp_all add: charAt_def)

text \<open>The positions a slice visits, from the first to the last.\<close>

definition pyBound :: "int \<Rightarrow> int \<Rightarrow> int \<Rightarrow> int \<Rightarrow> int" where
  "pyBound len lo hi i = max lo (min hi (if i < 0 then i + len else i))"

definition slicePositions :: "int \<Rightarrow> int \<Rightarrow> int \<Rightarrow> int \<Rightarrow> int list" where
  "slicePositions len start stop step =
     (if step > 0 then let a = pyBound len 0 len start; b = pyBound len 0 len stop in filter (\<lambda>k. step dvd k - a) [a..b - 1]
      else let a = pyBound len (- 1) (len - 1) start; b = pyBound len (- 1) (len - 1) stop
           in rev (filter (\<lambda>k. step dvd a - k) [b + 1..a]))"

lemma pyBound_range: "lo \<le> pyBound len lo hi i" "lo \<le> hi \<Longrightarrow> pyBound len lo hi i \<le> hi"
  by (simp_all add: pyBound_def)

lemma sliceBounds_up: "0 \<le> len \<Longrightarrow> 0 < step \<Longrightarrow> sliceBounds len start stop step = (pyBound len 0 len start, pyBound len 0 len stop)"
  by (cases "start < 0"; cases "stop < 0") (simp_all add: sliceBounds_def pyBound_def Let_def max_def min_def)

lemma sliceBounds_down:
  assumes "0 \<le> len" "\<not> 0 < step"
  obtains b where "sliceBounds len start stop step = (pyBound len (- 1) (len - 1) start, b)" "- 1 \<le> b"
    "b = pyBound len (- 1) (len - 1) stop \<or> len - 1 \<le> b \<and> len - 1 \<le> pyBound len (- 1) (len - 1) stop"
proof -
  define t where "t = (if stop < 0 then stop + len else stop)"
  have "sliceBounds len start stop step = (pyBound len (- 1) (len - 1) start, if t < - 1 then - 1 else t)"
    using assms by (cases "start < 0") (simp_all add: sliceBounds_def pyBound_def Let_def max_def min_def t_def)
  moreover have "pyBound len (- 1) (len - 1) stop = max (- 1) (min (len - 1) t)" by (simp add: pyBound_def t_def)
  ultimately show ?thesis using that assms(1) by (cases "t < - 1"; cases "t \<le> len - 1") (simp_all add: max_def min_def)
qed

lemma slice_loops:
  assumes "step \<noteq> 0" "\<bar>step\<bar> \<le> 2 ^ 62" "int (length s) \<le> 2 ^ 62" "sliceBounds (int (length s)) start stop step = (a, b)"
  shows "forStep a b step body x = eachT body (slicePositions (int (length s)) start stop step) x \<and>
    (\<forall>i \<in> set (slicePositions (int (length s)) start stop step). 0 \<le> i \<and> i < int (length s))"
proof -
  let ?n = "int (length s)"
  show ?thesis
  proof (cases "0 < step")
    case True
    define a' b' where "a' = pyBound ?n 0 ?n start" and "b' = pyBound ?n 0 ?n stop"
    have ab: "a = a'" "b = b'" using assms(4) sliceBounds_up[of ?n step start stop] True by (simp_all add: a'_def b'_def)
    have pos: "slicePositions ?n start stop step = upTo a' b' step"
      using True by (simp add: slicePositions_def Let_def upTo_filter a'_def b'_def)
    have r: "0 \<le> a'" "b' \<le> ?n" using pyBound_range by (simp_all add: a'_def b'_def)
    have "b' + step \<le> INT64_MAX + 1" using r(2) assms(2,3) True by (simp add: INT64_MAX_def)
    then have "forStep a' b' step body x = eachT body (upTo a' b' step) x" using True by (simp add: forStep_def forUp_each)
    moreover have "\<forall>i \<in> set (upTo a' b' step). 0 \<le> i \<and> i < ?n" using r by (simp add: upTo_set)
    ultimately show ?thesis unfolding ab pos ..
  next
    case False
    define a' b' where "a' = pyBound ?n (- 1) (?n - 1) start" and "b' = pyBound ?n (- 1) (?n - 1) stop"
    obtain c where "sliceBounds ?n start stop step = (a', c)" and c: "- 1 \<le> c" "c = b' \<or> ?n - 1 \<le> c \<and> ?n - 1 \<le> b'"
      using sliceBounds_down[of ?n step start stop] False unfolding a'_def b'_def by auto
    then have ab: "a = a'" "b = c" using assms(4) by simp_all
    have r: "a' \<le> ?n - 1" using pyBound_range(2)[of "- 1" "?n - 1"] by (simp add: a'_def)
    have "downTo a' c step = downTo a' b' step"
    proof (cases "c = b'")
      case False
      then have "a' \<le> c" "a' \<le> b'" using c(2) r by auto
      then show ?thesis by (simp add: downTo_rounds)
    qed simp
    then have pos: "slicePositions ?n start stop step = downTo a' c step"
      using False assms(1) by (simp add: slicePositions_def Let_def downTo_filter a'_def b'_def)
    have "c + step \<ge> INT64_MIN - 1" using c(1) assms(2) by (simp add: INT64_MIN_def)
    then have "forStep a' c step body x = eachT body (downTo a' c step) x" using False by (simp add: forStep_def forDown_each)
    moreover have "0 \<le> i \<and> i < ?n" if "i \<in> set (downTo a' c step)" for i
    proof -
      have "i \<le> a'" "c < i" using that by (simp_all add: downTo_set)
      then show ?thesis using r c(1) by linarith
    qed
    ultimately show ?thesis unfolding ab pos by blast
  qed
qed

lemma slicePositions_length: "length (slicePositions (int n) start stop step) \<le> n"
proof -
  have few: "length (filter P [i..j]) \<le> n" if "0 \<le> i" "j \<le> int n - 1" for P i j
  proof -
    have "length (filter P [i..j]) \<le> nat (j - i + 1)" using length_filter_le[of P "[i..j]"] by simp
    then show ?thesis using that by linarith
  qed
  show ?thesis
  proof (cases "0 < step")
    case True
    have "0 \<le> pyBound (int n) 0 (int n) start" "pyBound (int n) 0 (int n) stop - 1 \<le> int n - 1"
      using pyBound_range(1)[of 0 "int n" "int n" start] pyBound_range(2)[of 0 "int n" "int n" stop] by simp_all
    from few[OF this] show ?thesis using True by (simp add: slicePositions_def Let_def)
  next
    case False
    have "0 \<le> pyBound (int n) (- 1) (int n - 1) stop + 1" "pyBound (int n) (- 1) (int n - 1) start \<le> int n - 1"
      using pyBound_range(1)[of "- 1" "int n" "int n - 1" stop] pyBound_range(2)[of "- 1" "int n - 1" "int n" start] by simp_all
    from few[OF this] show ?thesis using False by (simp add: slicePositions_def Let_def)
  qed
qed

text \<open>
  C37. For strings of at most \<^verbatim>\<open>2 ^ 62\<close> characters and steps of at most this size, a slice with explicit bounds and a
  step other than zero is the one of Python: negative bounds count
  from the end, bounds are cut to the string, and the characters at the positions that are a multiple of the step
  away from the start are taken upwards or downwards. No character outside is read, and the object allocated for the
  result has as many bytes as its characters and the final zero need, no more and no fewer.
\<close>

theorem string_slice_spec:
  assumes "step \<noteq> 0" "\<bar>step\<bar> \<le> 2 ^ 62" "int (length s) \<le> 2 ^ 62"
  shows "exactly (string_slice (Some s) start stop step) (map (\<lambda>k. s ! nat k) (slicePositions (int (length s)) start stop step))"
proof -
  let ?ks = "slicePositions (int (length s)) start stop step"
  obtain a b where ab: "sliceBounds (int (length s)) start stop step = (a, b)" by fastforce
  note loop = slice_loops[OF assms ab, THEN conjunct1]
  have "length s \<le> 2 ^ 62" using assms(3) by simp
  then have "length ?ks + 1 < 2 ^ 64" using slicePositions_length[of "length s" start stop step] by simp
  then have "exactly (newString (word_of_int (int (length ?ks) + 1)) (map (\<lambda>k. s ! nat k) ?ks)) (map (\<lambda>k. s ! nat k) ?ks)"
    by (intro exactly_new) (simp add: unat_length)
  then show ?thesis using assms(1) chars_loop[OF slice_loops[OF assms ab, THEN conjunct2], of "[]"]
    by (simp add: string_slice_def ab loop count_loop)
qed

theorem string_slice_spec_witness:
  "exactly (string_slice (Some ''visuall'') (- 1) (- 8) (- 2)) ''lasv'' \<and> exactly (string_slice (Some ''visuall'') 1 100 3) ''ia''"
proof -
  have "map (\<lambda>k. ''visuall'' ! nat k) (slicePositions 7 (- 1) (- 8) (- 2)) = ''lasv''"
    "map (\<lambda>k. ''visuall'' ! nat k) (slicePositions 7 1 100 3) = ''ia''" by code_simp+
  then show ?thesis using string_slice_spec[of "- 2" "''visuall''" "- 1" "- 8"] string_slice_spec[of 3 "''visuall''" 1 100] by simp
qed

end
