(* ===== verification/Rt_Text_Join.thy ===== *)
theory Rt_Text_Join
  imports Rt_Text_Props
begin

text \<open>Splitting, joining and replacing; the f-string builder; and the formatting of a template.\<close>

unbundle bit_operations_syntax

section \<open>Searching\<close>

lemma strstr_split: "strstr s sub = Some k \<Longrightarrow> s = take k s @ sub @ drop (k + length sub) s \<and> k + length sub \<le> length s"
proof (induction s sub arbitrary: k rule: strstr.induct)
  case (1 s sub)
  show ?case
  proof (cases "startsWith s sub")
    case True
    then have k: "k = 0" using 1(2) by (subst (asm) strstr.simps) simp
    have t: "take (length sub) s = sub" using True by (simp add: startsWith_def)
    then have "length sub \<le> length s" by (metis length_take min.absorb_iff2 nat_le_linear take_all)
    then show ?thesis using k t append_take_drop_id[of "length sub" s] by simp
  next
    case False
    then obtain c cs where s: "s = c # cs" using 1(2) by (cases s) (simp_all add: strstr.simps[of "[]"])
    then obtain j where "strstr cs sub = Some j" "k = Suc j" using 1(2) False by (subst (asm) strstr.simps) auto
    then show ?thesis using 1(1)[OF False s] s by simp
  qed
qed

lemma strstr_first: "strstr s sub = Some k \<Longrightarrow> j < k \<Longrightarrow> \<not> startsWith (drop j s) sub"
proof (induction s sub arbitrary: k j rule: strstr.induct)
  case (1 s sub)
  show ?case
  proof (cases "startsWith s sub")
    case True
    then show ?thesis using 1(2,3) by (subst (asm) strstr.simps) simp
  next
    case False
    then obtain c cs where s: "s = c # cs" using 1(2) by (cases s) (simp_all add: strstr.simps[of "[]"])
    then obtain i where "strstr cs sub = Some i" "k = Suc i" using 1(2) False by (subst (asm) strstr.simps) auto
    then show ?thesis using 1(1)[OF False s] s 1(3) False by (cases j) simp_all
  qed
qed

lemma strstr_None: "strstr s sub = None \<longleftrightarrow> (\<forall>j < Suc (length s). \<not> startsWith (drop j s) sub)"
proof (induction s sub rule: strstr.induct)
  case (1 s sub)
  show ?case
  proof (cases s)
    case Nil
    then show ?thesis by (subst strstr.simps) simp
  next
    case (Cons c cs)
    have all: "(\<forall>j < Suc (length s). \<not> startsWith (drop j s) sub) \<longleftrightarrow> \<not> startsWith s sub \<and> (\<forall>j < Suc (length cs). \<not> startsWith (drop j cs) sub)"
      unfolding Cons list.size add_Suc_right add_0_right All_less_Suc2 by simp
    have "strstr s sub = None \<longleftrightarrow> \<not> startsWith s sub \<and> strstr cs sub = None"
      using Cons by (subst strstr.simps) simp
    then show ?thesis using 1[OF _ Cons] unfolding all by blast
  qed
qed

lemma splitFrom_rounds:
  assumes "sep \<noteq> []"
  shows "splitFrom p sep = (case strstr p sep of None \<Rightarrow> [p] | Some k \<Rightarrow> take k p # splitFrom (drop (k + length sep) p) sep)"
    and "replaceFrom p sep new = (case strstr p sep of None \<Rightarrow> p | Some k \<Rightarrow> take k p @ new @ replaceFrom (drop (k + length sep) p) sep new)"
    and "countFrom p sep = (case strstr p sep of None \<Rightarrow> 0 | Some k \<Rightarrow> 1 + countFrom (drop (k + length sep) p) sep)"
  using assms strstr_split[of p sep]
  by (subst splitFrom.simps replaceFrom.simps countFrom.simps, fastforce split: option.split)+

lemma splitFrom_nonempty [simp]: "splitFrom p sep \<noteq> []"
  by (subst splitFrom.simps) (auto split: option.split)

lemma joinText_Cons: "parts \<noteq> [] \<Longrightarrow> joinText sep (part # parts) = orEmpty part @ sep @ joinText sep parts"
  by (cases parts) simp_all

section \<open>Splitting, joining and replacing\<close>

lemma length_past: "sep \<noteq> [] \<Longrightarrow> strstr p sep = Some k \<Longrightarrow> length (drop (k + length sep) p) < length p"
  using strstr_split[of p sep k] by (cases sep) auto

lemma join_split: "sep \<noteq> [] \<Longrightarrow> joinText sep (map Some (splitFrom p sep)) = p"
proof (induction "length p" arbitrary: p rule: less_induct)
  case less
  show ?case
  proof (cases "strstr p sep")
    case None
    then show ?thesis using splitFrom_rounds(1)[OF less(2), of p] by (simp add: orEmpty_def)
  next
    case (Some k)
    have "joinText sep (map Some (splitFrom (drop (k + length sep) p) sep)) = drop (k + length sep) p"
      by (rule less(1)[OF length_past[OF less(2) Some] less(2)])
    then show ?thesis using splitFrom_rounds(1)[OF less(2), of p] Some strstr_split[OF Some] by (simp add: joinText_Cons orEmpty_def)
  qed
qed

lemma replace_join: "old \<noteq> [] \<Longrightarrow> replaceFrom p old new = joinText new (map Some (splitFrom p old))"
proof (induction "length p" arbitrary: p rule: less_induct)
  case less
  show ?case
  proof (cases "strstr p old")
    case None
    then show ?thesis using splitFrom_rounds(1,2)[OF less(2), of p] by (simp add: orEmpty_def)
  next
    case (Some k)
    have "replaceFrom (drop (k + length old) p) old new = joinText new (map Some (splitFrom (drop (k + length old) p) old))"
      by (rule less(1)[OF length_past[OF less(2) Some] less(2)])
    then show ?thesis using splitFrom_rounds(1,2)[OF less(2), of p] Some by (simp add: joinText_Cons orEmpty_def)
  qed
qed

lemma replace_length:
  "old \<noteq> [] \<Longrightarrow> (of_nat (length (replaceFrom p old new)) :: 64 word)
     = of_nat (length p) + countFrom p old * (of_nat (length new) - of_nat (length old))"
proof (induction "length p" arbitrary: p rule: less_induct)
  case less
  show ?case
  proof (cases "strstr p old")
    case None
    then show ?thesis using splitFrom_rounds(2,3)[OF less(2), of p] by simp
  next
    case (Some k)
    let ?r = "drop (k + length old) p"
    have ih: "(of_nat (length (replaceFrom ?r old new)) :: 64 word) = of_nat (length ?r) + countFrom ?r old * (of_nat (length new) - of_nat (length old))"
      by (rule less(1)[OF length_past[OF less(2) Some] less(2)])
    have len: "length p = k + length old + length ?r" "length (take k p) = k" using strstr_split[OF Some] by simp_all
    have "replaceFrom p old new = take k p @ new @ replaceFrom ?r old new" "countFrom p old = 1 + countFrom ?r old"
      using splitFrom_rounds(2,3)[OF less(2), of p] Some by simp_all
    moreover have "(of_nat (length p) :: 64 word) = of_nat k + of_nat (length old) + of_nat (length ?r)"
      by (subst len(1)) (simp only: of_nat_add)
    moreover have "(of_nat (length (take k p @ new @ replaceFrom ?r old new)) :: 64 word)
      = of_nat k + of_nat (length new) + of_nat (length (replaceFrom ?r old new))"
      by (simp only: length_append len(2) of_nat_add add.assoc)
    ultimately show ?thesis using ih by (simp only: mult_1_left algebra_simps)
  qed
qed

lemma joinBytes_length: "joinBytes (length sep) parts = of_nat (length (joinText sep parts))"
  by (induction sep parts rule: joinText.induct) (simp_all add: algebra_simps)

lemma startsWith_take: "startsWith (drop j (take k p)) sep \<Longrightarrow> j \<le> k \<Longrightarrow> sep \<noteq> [] \<Longrightarrow> j < k \<and> startsWith (drop j p) sep"
proof -
  assume a: "startsWith (drop j (take k p)) sep" "j \<le> k" "sep \<noteq> []"
  then have t: "take (min (length sep) (k - j)) (drop j p) = sep" by (simp add: startsWith_def drop_take min.commute)
  have "length sep \<le> k - j" using arg_cong[OF t, of length] by simp
  then show ?thesis using t a(3) by (cases "j < k") (auto simp: startsWith_def min_def)
qed

lemma split_parts: "sep \<noteq> [] \<Longrightarrow> x \<in> set (splitFrom p sep) \<Longrightarrow> strstr x sep = None"
proof (induction "length p" arbitrary: p rule: less_induct)
  case less
  show ?case
  proof (cases "strstr p sep")
    case None
    then show ?thesis using splitFrom_rounds(1)[OF less(2), of p] less(3) by simp
  next
    case (Some k)
    have k: "length (take k p) = k" using strstr_split[OF Some] by simp
    have "strstr (take k p) sep = None"
      unfolding strstr_None k
    proof (intro allI impI notI)
      fix j assume j: "j < Suc k" "startsWith (drop j (take k p)) sep"
      then show False using startsWith_take[OF j(2) _ less(2)] strstr_first[OF Some, of j] by simp
    qed
    moreover have "x \<in> set (splitFrom (drop (k + length sep) p) sep) \<Longrightarrow> strstr x sep = None"
      by (rule less(1)[OF length_past[OF less(2) Some] less(2)])
    ultimately show ?thesis using less(3) splitFrom_rounds(1)[OF less(2), of p] Some by auto
  qed
qed

lemma part_length: "x \<in> set xs \<Longrightarrow> length x \<le> length (joinText sep (map Some xs))"
proof (induction xs)
  case (Cons y ys)
  then show ?case by (cases ys) (auto simp: orEmpty_def joinText_Cons)
qed simp

lemma newParts_exact:
  "\<forall>p \<in> set ps. length p + 1 < 2 ^ 64 \<Longrightarrow> \<exists>objs. newParts ps = Inr objs \<and> list_all2 exact objs ps"
proof (induction ps)
  case (Cons p ps)
  then obtain objs where "newParts ps = Inr objs" "list_all2 exact objs ps" by auto
  moreover obtain obj where "newString (of_nat (length p) + 1) p = Inr obj" "exact obj p"
    using exactly_length[of p] Cons.prems by (auto simp: exactly_def split: sum.splits)
  ultimately show ?case by simp
qed simp

lemma exact_part: "list_all2 exact objs ps \<Longrightarrow> obj \<in> set objs \<Longrightarrow> exact obj (so_text obj) \<and> so_text obj \<in> set ps"
  by (induction objs ps rule: list_all2_induct) (auto simp: exact_def)

lemma exact_texts: "list_all2 exact objs ps \<Longrightarrow> map (Some \<circ> so_text) objs = map Some ps"
  by (induction objs ps rule: list_all2_induct) (simp_all add: exact_def)

text \<open>
  C38. For a separator that is not empty and texts below \<^verbatim>\<open>2 ^ 64\<close> bytes, splitting gives parts in none of which it occurs and which joined with it
  give the string back; and replacing it by another string is joining those parts with the other string. The object
  of every part and of both results has as many bytes as its characters and the final zero need, no more and no
  fewer, although the size of a shorter replacement is computed by a subtraction that wraps around.
\<close>

theorem split_join_replace:
  assumes "old \<noteq> []" "length s + 1 < 2 ^ 64" "length (joinText new (map Some (splitFrom s old))) + 1 < 2 ^ 64"
  shows "\<exists>objs. string_split (Some s) (Some old) = Inr objs
    \<and> (\<forall>obj \<in> set objs. exact obj (so_text obj) \<and> strstr (so_text obj) old = None)
    \<and> exactly (string_join (Some old) (Some (map (Some \<circ> so_text) objs))) s
    \<and> exactly (string_replace (Some s) (Some old) (Some new)) (joinText new (map (Some \<circ> so_text) objs))"
proof -
  have "\<forall>p \<in> set (splitFrom s old). length p + 1 < 2 ^ 64"
    using part_length[of _ "splitFrom s old" old] join_split[OF assms(1), of s] assms(2) by fastforce
  then obtain objs where objs: "newParts (splitFrom s old) = Inr objs" "list_all2 exact objs (splitFrom s old)"
    using newParts_exact by blast
  have "string_split (Some s) (Some old) = Inr objs" using objs(1) assms(1) by (simp add: string_split_def)
  moreover have "exact obj (so_text obj) \<and> strstr (so_text obj) old = None" if obj: "obj \<in> set objs" for obj
    using exact_part[OF objs(2) obj] split_parts[OF assms(1), of "so_text obj" s] by blast
  moreover have "exactly (string_join (Some old) (Some (map Some (splitFrom s old)))) s"
    using exactly_length[OF assms(2)] join_split[OF assms(1), of s] by (simp add: string_join_def orEmpty_def joinBytes_length)
  moreover have "exactly (string_replace (Some s) (Some old) (Some new)) (joinText new (map Some (splitFrom s old)))"
    using exactly_length[OF assms(3)] assms(1)
    by (simp add: string_replace_def orEmpty_def Let_def replace_join flip: replace_length)
  ultimately show ?thesis using exact_texts[OF objs(2)] by auto
qed

theorem split_join_replace_witness:
  "\<exists>objs. string_split (Some ''a, b, c'') (Some '', '') = Inr objs \<and> map so_text objs = [''a'', ''b'', ''c'']
     \<and> exactly (string_replace (Some ''a, b, c'') (Some '', '') (Some ''/'')) ''a/b/c''"
proof -
  have sp: "splitFrom ''a, b, c'' '', '' = [''a'', ''b'', ''c'']" by code_simp
  let ?objs = "[StrObj 2 ''a'', StrObj 2 ''b'', StrObj 2 ''c'']"
  have o: "string_split (Some ''a, b, c'') (Some '', '') = Inr ?objs" by code_simp
  have texts: "map (Some \<circ> so_text) ?objs = map Some [''a'', ''b'', ''c'']" by simp
  have joined: "joinText ''/'' (map Some [''a'', ''b'', ''c'']) = ''a/b/c''" by code_simp
  have "length (joinText ''/'' (map Some (splitFrom ''a, b, c'' '', ''))) + 1 < 2 ^ 64" unfolding sp joined by simp
  note spec = split_join_replace[OF _ _ this]
  obtain objs where objs: "string_split (Some ''a, b, c'') (Some '', '') = Inr objs"
    "exactly (string_replace (Some ''a, b, c'') (Some '', '') (Some ''/'')) (joinText ''/'' (map (Some \<circ> so_text) objs))"
    using spec by force
  have "objs = ?objs" using objs(1) unfolding o by blast
  then have "exactly (string_replace (Some ''a, b, c'') (Some '', '') (Some ''/'')) ''a/b/c''"
    using objs(2) unfolding texts[symmetric] joined[symmetric] by simp
  then show ?thesis using o by (intro exI[of _ ?objs]) simp
qed

section \<open>F-strings\<close>

definition tagged :: "64 word \<Rightarrow> bool" where
  "tagged raw \<longleftrightarrow> raw AND 1 = 1"

definition partText :: "(64 word \<Rightarrow> string) \<Rightarrow> 64 word \<Rightarrow> string" where
  "partText str raw = (if tagged raw then int_to_str (signed_drop_bit 1 raw) else if raw \<noteq> 0 then str raw else [])"

lemma resolve_parts:
  "k \<le> 16 \<Longrightarrow> resolveParts str parts k =
     (if k + length (filter tagged parts) \<le> 16 then Inr (map (partText str) parts) else Inl Outside)"
proof (induction parts arbitrary: k)
  case (Cons raw parts)
  have l: "length (fast_i64_to_buf v) < 24" for v using int_text_roundtrip[of v] by simp
  have f: "fast_i64_to_buf v = int_to_str v" for v using int_text_roundtrip[of v] by simp
  show ?case
  proof (cases "tagged raw \<and> k < 16")
    case True
    then have "k + 1 \<le> 16" by simp
    then show ?thesis using True l[of "signed_drop_bit 1 raw"] f Cons.IH[of "k + 1"] by (simp add: tagged_def partText_def)
  next
    case False
    then show ?thesis using Cons by (auto simp: tagged_def partText_def)
  qed
qed simp

lemma sum_lengths: "sum_list (map (\<lambda>s. of_nat (length s)) r) = (of_nat (length (concat r)) :: 64 word)"
  by (induction r) simp_all

lemma tag_word: "signed_drop_bit 1 (fstringTag v) = v \<longleftrightarrow> - (2 ^ 62) \<le> sint v \<and> sint v < 2 ^ 62"
proof -
  have t: "bit (fstringTag v) n \<longleftrightarrow> n < 64 \<and> (n = 0 \<or> bit v (n - 1))" for n
    unfolding fstringTag_def bit_or_iff bit_push_bit_iff bit_1_iff possible_bit_word by (cases n) auto
  have "bit (sint (signed_drop_bit 1 (fstringTag v))) n \<longleftrightarrow> bit (signed_take_bit 62 (sint v)) n" for n
    by (cases "n = 62") (auto simp: bit_sint_iff bit_signed_drop_bit_iff bit_signed_take_bit_iff t min_def)
  then have "sint (signed_drop_bit 1 (fstringTag v)) = signed_take_bit 62 (sint v)" by (rule bit_eqI)
  then have "signed_drop_bit 1 (fstringTag v) = v \<longleftrightarrow> signed_take_bit 62 (sint v) = sint v" by (metis signed_word_eqI)
  then show ?thesis by (simp add: signed_take_bit_int_eq_self_iff)
qed

text \<open>
  C39. The f-string builder gives the texts of its first 32 parts, in an object of their exact size, and drops the
  others. With more than 16 integers
  among them it writes past its stack buffers. A part counts as an integer whenever its lowest bit is set, also if
  it is the odd address of a string literal, which has no alignment; and an integer keeps its value exactly if it
  fits into 63 bits.
\<close>

theorem fstring_build_spec:
  assumes "length (concat (map (partText str) (take 32 parts))) + 1 < 2 ^ 64"
  shows "(if length (filter tagged (take 32 parts)) \<le> 16
       then exactly (fstring_build str parts) (concat (map (partText str) (take 32 parts)))
       else fstring_build str parts = Inl Outside)
    \<and> partText str (fstringTag v) = int_to_str (signed_drop_bit 1 (fstringTag v))
    \<and> (partText str (fstringTag v) = int_to_str v \<longleftrightarrow> - (2 ^ 62) \<le> sint v \<and> sint v < 2 ^ 62)"
proof -
  have "if length (filter tagged (take 32 parts)) \<le> 16
       then exactly (fstring_build str parts) (concat (map (partText str) (take 32 parts)))
       else fstring_build str parts = Inl Outside"
    using resolve_parts[of 0 str "take 32 parts"] exactly_length[OF assms] by (simp add: fstring_build_def sum_lengths)
  moreover have "bit (fstringTag v AND 1) n \<longleftrightarrow> bit (1 :: 64 word) n" for n by (auto simp: fstringTag_def bit_simps)
  then have "tagged (fstringTag v)" unfolding tagged_def by (rule bit_eqI)
  then have "partText str (fstringTag v) = int_to_str (signed_drop_bit 1 (fstringTag v))" by (simp add: partText_def)
  moreover have "int_to_str a = int_to_str b \<longleftrightarrow> a = b" for a b by (metis int_text_roundtrip sum.inject(2))
  ultimately show ?thesis using tag_word[of v] by simp
qed

theorem fstring_build_spec_witness:
  "exactly (fstring_build (\<lambda>_. ''x = '') [4096, fstringTag 7]) ''x = 7'' \<and> fstring_build (\<lambda>_. []) (replicate 17 (fstringTag 0)) = Inl Outside"
proof -
  have "concat (map (partText (\<lambda>_. ''x = '')) (take 32 [4096, fstringTag 7])) = ''x = 7''"
    "length (filter tagged (take 32 [4096, fstringTag 7])) = 1"
    "length (concat (map (partText (\<lambda>_. [])) (take 32 (replicate 17 (fstringTag 0))))) = 17"
    "length (filter tagged (take 32 (replicate 17 (fstringTag 0)))) = 17"
    by code_simp+
  then show ?thesis
    using fstring_build_spec[of "\<lambda>_. ''x = ''" "[4096, fstringTag 7]"] fstring_build_spec[of "\<lambda>_. []" "replicate 17 (fstringTag 0)"]
    by simp
qed

section \<open>Templates\<close>

fun formatText :: "string \<Rightarrow> int64 list \<Rightarrow> string" where
  "formatText [] args = []"
| "formatText (c # cs) args =
     (if startsWith (c # cs) ''{}'' then
        (case args of [] \<Rightarrow> formatText (tl cs) [] | a # args \<Rightarrow> int_to_str a @ formatText (tl cs) args)
      else c # formatText cs args)"

lemma placeholder: "c = LCURLY \<and> (case cs of [] \<Rightarrow> False | d # _ \<Rightarrow> d = RCURLY) \<longleftrightarrow> startsWith (c # cs) ''{}''"
  by (cases cs) (auto simp: startsWith_def)

lemma growBuf_room: "0 < cap \<Longrightarrow> need < growBuf need cap \<and> cap \<le> growBuf need cap"
proof (induction need cap rule: growBuf.induct)
  case (1 need cap)
  then show ?case by (subst (1 2) growBuf.simps) force
qed

lemma formatLoop_text:
  "length out < cap \<Longrightarrow> 2 \<le> cap \<Longrightarrow> formatLoop t args cap out = Inr (out @ formatText t args)"
proof (induction t args cap out rule: formatLoop.induct)
  case (2 c cs args cap out)
  show ?case
  proof (cases "startsWith (c # cs) ''{}''")
    case True
    show ?thesis
    proof (cases args)
      case Nil
      then show ?thesis using 2(1)[OF placeholder[THEN iffD2, OF True] Nil 2(4,5)] True placeholder[of c cs] by simp
    next
      case (Cons a as)
      let ?cap = "growBuf (length out + length (int_to_str a) + 1) cap"
      have g: "length out + length (int_to_str a) + 1 < ?cap" "2 \<le> ?cap"
        using growBuf_room[of cap "length out + length (int_to_str a) + 1"] 2(5) by simp_all
      have "formatLoop (tl cs) as ?cap (out @ int_to_str a) = Inr ((out @ int_to_str a) @ formatText (tl cs) as)"
        by (rule 2(2)[OF placeholder[THEN iffD2, OF True] Cons refl refl]) (use g in simp_all)
      then show ?thesis using True placeholder[of c cs] Cons g by (simp add: Let_def)
    qed
  next
    case False
    let ?cap = "if length out + 2 \<ge> cap then cap * 2 else cap"
    have g: "length out < ?cap" "length (out @ [c]) < ?cap" "2 \<le> ?cap" using 2(4,5) by auto
    have "formatLoop cs args ?cap (out @ [c]) = Inr ((out @ [c]) @ formatText cs args)"
      by (rule 2(3)[OF _ refl g]) (use False placeholder in blast)
    moreover have "\<not> (c = LCURLY \<and> (case cs of [] \<Rightarrow> False | d # _ \<Rightarrow> d = RCURLY))" using False placeholder by blast
    ultimately show ?thesis using False g(1) by (simp only: formatLoop.simps formatText.simps Let_def if_False if_True) simp
  qed
qed simp

fun interleave :: "string list \<Rightarrow> int64 list \<Rightarrow> string" where
  "interleave [] args = []"
| "interleave [x] args = x"
| "interleave (x # xs) args = x @ (case args of [] \<Rightarrow> [] | a # _ \<Rightarrow> int_to_str a) @ interleave xs (tl args)"

lemma interleave_Cons: "xs \<noteq> [] \<Longrightarrow> interleave (x # xs) args = x @ (case args of [] \<Rightarrow> [] | a # _ \<Rightarrow> int_to_str a) @ interleave xs (tl args)"
  by (cases xs) simp_all

lemma split_skip: "\<not> startsWith (c # cs) sep \<Longrightarrow> sep \<noteq> [] \<Longrightarrow> splitFrom (c # cs) sep = (c # hd (splitFrom cs sep)) # tl (splitFrom cs sep)"
proof -
  assume a: "\<not> startsWith (c # cs) sep" "sep \<noteq> []"
  have "strstr (c # cs) sep = map_option Suc (strstr cs sep)" using a(1) by (subst strstr.simps) simp
  then show ?thesis using splitFrom_rounds(1)[OF a(2), of "c # cs"] splitFrom_rounds(1)[OF a(2), of cs] by (cases "strstr cs sep") simp_all
qed

lemma interleave_hd: "xs \<noteq> [] \<Longrightarrow> interleave ((c # hd xs) # tl xs) args = c # interleave xs args"
  by (cases xs; cases "tl xs") simp_all

lemma formatText_split: "formatText t args = interleave (splitFrom t ''{}'') args"
proof (induction t args rule: formatText.induct)
  case (1 args)
  have "splitFrom [] ''{}'' = [[]]" by code_simp
  then show ?case by simp
next
  case (2 c cs args)
  show ?case
  proof (cases "startsWith (c # cs) ''{}''")
    case True
    then have "strstr (c # cs) ''{}'' = Some 0" by (subst strstr.simps) simp
    then have "splitFrom (c # cs) ''{}'' = [] # splitFrom (tl cs) ''{}''" using splitFrom_rounds(1)[of "''{}''" "c # cs"] by (simp add: drop_Suc)
    then show ?thesis using True 2 by (cases args) (simp_all add: interleave_Cons)
  next
    case False
    then show ?thesis using 2(3) split_skip[OF False] by (simp add: interleave_hd)
  qed
qed

text \<open>
  C40. Formatting gives the parts of the template between its placeholders with the decimal texts of the arguments
  in between, nothing for missing arguments; the working buffer always has room for the next piece and the final
  zero, and the object that is returned has the exact size of the result (below \<^verbatim>\<open>2 ^ 64\<close> bytes).
\<close>

theorem format_spec:
  assumes "length (interleave (splitFrom t ''{}'') args) + 1 < 2 ^ 64"
  shows "exactly (string_format (Some t) (Some args)) (interleave (splitFrom t ''{}'') args)"
  using formatLoop_text[of "[]" "length t + 256" t args] exactly_length[OF assms] by (simp add: string_format_def formatText_split)

theorem format_spec_witness: "exactly (string_format (Some ''{} + {} = {}!'') (Some [1, 2])) ''1 + 2 = !''"
proof -
  have "interleave (splitFrom ''{} + {} = {}!'' ''{}'') [1, 2] = ''1 + 2 = !''" by code_simp
  then show ?thesis using format_spec[of "''{} + {} = {}!''" "[1, 2]"] by simp
qed

end
