(* ===== verification/Rt_Misc.thy ===== *)
theory Rt_Misc
  imports Rt_Base
begin

text \<open>
  The rest of the runtime library that is not a call of the C library: the builtins on integers, the names of the
  type tags, the stack of function names for tracebacks, and the state of generators.
\<close>

section \<open>Builtins\<close>

definition type_name :: "int \<Rightarrow> string" where
  "type_name tag =
     (if tag = 0 then ''int'' else if tag = 1 then ''float'' else if tag = 2 then ''str'' else if tag = 3 then ''bool''
      else if tag = 4 then ''list'' else if tag = 5 then ''dict'' else if tag = 6 then ''null''
      else if tag = 7 then ''tuple'' else ''unknown'')"

definition bool_to_int :: "int \<Rightarrow> int" where
  "bool_to_int v = (if v \<noteq> 0 then 1 else 0)"

definition abs_int :: "int \<Rightarrow> int rt" where
  "abs_int v = (if v < 0 then if - v > INT64_MAX then Inl Undefined else Inr (- v) else Inr v)"

definition min_int :: "int \<Rightarrow> int \<Rightarrow> int" where
  "min_int a b = (if a < b then a else b)"

definition max_int :: "int \<Rightarrow> int \<Rightarrow> int" where
  "max_int a b = (if a > b then a else b)"

lemma abs_int_range: "INT64_MIN \<le> v \<Longrightarrow> v \<le> INT64_MAX \<Longrightarrow> abs_int v = (if v = INT64_MIN then Inl Undefined else Inr \<bar>v\<bar>)"
  by (auto simp: abs_int_def INT64_MAX_def INT64_MIN_def)

section \<open>Tracebacks\<close>

definition VSL_TRACEBACK_DEPTH :: nat where
  "VSL_TRACEBACK_DEPTH = 128"

record Traceback =
  traceback_stack :: "string list"
  traceback_top :: nat

definition traceback_push :: "string \<Rightarrow> Traceback \<Rightarrow> Traceback" where
  "traceback_push name t =
     (if traceback_top t < VSL_TRACEBACK_DEPTH then
        t\<lparr>traceback_stack := (traceback_stack t)[traceback_top t := name], traceback_top := traceback_top t + 1\<rparr>
      else t)"

definition traceback_pop :: "Traceback \<Rightarrow> Traceback" where
  "traceback_pop t = (if traceback_top t > 0 then t\<lparr>traceback_top := traceback_top t - 1\<rparr> else t)"

definition print_traceback :: "Traceback \<Rightarrow> string list" where
  "print_traceback t = take (traceback_top t) (traceback_stack t)"

definition traceback_ok :: "Traceback \<Rightarrow> bool" where
  "traceback_ok t \<longleftrightarrow> length (traceback_stack t) = VSL_TRACEBACK_DEPTH \<and> traceback_top t \<le> VSL_TRACEBACK_DEPTH"

lemma push_prints:
  "traceback_ok t \<Longrightarrow> traceback_ok (traceback_push name t) \<and>
     print_traceback (traceback_push name t) = take VSL_TRACEBACK_DEPTH (print_traceback t @ [name])"
  by (auto simp: traceback_ok_def traceback_push_def print_traceback_def take_Suc_conv_app_nth)

lemma pop_prints:
  "traceback_ok t \<Longrightarrow> traceback_ok (traceback_pop t) \<and> print_traceback (traceback_pop t) = butlast (print_traceback t)"
  by (auto simp: traceback_ok_def traceback_pop_def print_traceback_def butlast_take)

lemma pushes_print:
  "traceback_ok t \<Longrightarrow> print_traceback t = take VSL_TRACEBACK_DEPTH xs \<Longrightarrow>
     traceback_ok (fold traceback_push names t) \<and> print_traceback (fold traceback_push names t) = take VSL_TRACEBACK_DEPTH (xs @ names)"
proof (induction names arbitrary: t xs)
  case (Cons name names)
  have "traceback_ok (traceback_push name t)" "print_traceback (traceback_push name t) = take VSL_TRACEBACK_DEPTH (xs @ [name])"
    using push_prints[OF Cons.prems(1), of name] Cons.prems(2) by (auto simp: min_def)
  from Cons.IH[OF this] show ?case by simp
qed simp

lemma pops_print:
  "traceback_ok t \<Longrightarrow> print_traceback ((traceback_pop ^^ m) t) = take (length (print_traceback t) - m) (print_traceback t)"
proof -
  assume ok: "traceback_ok t"
  have "traceback_ok ((traceback_pop ^^ m) t) \<and> print_traceback ((traceback_pop ^^ m) t) = take (length (print_traceback t) - m) (print_traceback t)"
    by (induction m) (use ok pop_prints in \<open>auto simp: butlast_take\<close>)
  then show ?thesis ..
qed

text \<open>
  After nested calls of the functions \<^verbatim>\<open>names\<close> of which the last \<^verbatim>\<open>m\<close> have returned, the traceback names the first
  calls, but too few of them once the nesting was deeper than 128: the calls that found no room still remove an
  entry when they return.
\<close>

lemma traceback_nested:
  assumes "traceback_ok t" "traceback_top t = 0"
  shows "print_traceback ((traceback_pop ^^ m) (fold traceback_push names t)) = take (min VSL_TRACEBACK_DEPTH (length names) - m) names"
proof -
  have "print_traceback t = take VSL_TRACEBACK_DEPTH []" using assms(2) by (simp add: print_traceback_def)
  then have p: "traceback_ok (fold traceback_push names t)" "print_traceback (fold traceback_push names t) = take VSL_TRACEBACK_DEPTH names"
    using pushes_print[OF assms(1), of "[]" names] by simp_all
  have "min (min VSL_TRACEBACK_DEPTH (length names) - m) VSL_TRACEBACK_DEPTH = min VSL_TRACEBACK_DEPTH (length names) - m"
    by (rule min_absorb1) simp
  then show ?thesis using pops_print[OF p(1), of m] by (simp add: p(2) min.commute)
qed

section \<open>Generators\<close>

record VisualGenerator =
  gen_state :: "32 word"
  num_slots :: "32 word"
  gen_value :: "64 word"
  resume_fn :: "64 word"
  gen_slots :: "64 word list"

text \<open>With a negative number of slots the size of the object wraps around, and clearing the slots leaves it.\<close>

definition gen_create :: "32 word \<Rightarrow> 64 word \<Rightarrow> VisualGenerator rt" where
  "gen_create n fn =
     (if sint n < 0 then Inl Outside
      else Inr \<lparr>gen_state = 0, num_slots = n, gen_value = 0, resume_fn = fn, gen_slots = replicate (nat (sint n)) 0\<rparr>)"

text \<open>Resuming calls the compiled body of the generator, which is the parameter.\<close>

definition gen_next :: "(64 word \<Rightarrow> VisualGenerator \<Rightarrow> 64 word \<times> VisualGenerator) \<Rightarrow> VisualGenerator option
    \<Rightarrow> 64 word \<times> VisualGenerator option" where
  "gen_next resume g = (case g of
     None \<Rightarrow> (word_of_int INT64_MIN, None)
   | Some g \<Rightarrow> if sint (gen_state g) < 0 then (word_of_int INT64_MIN, Some g) else map_prod id Some (resume (resume_fn g) g))"

definition gen_get_state :: "VisualGenerator option \<Rightarrow> 32 word" where
  "gen_get_state g = (case g of None \<Rightarrow> - 1 | Some g \<Rightarrow> gen_state g)"

definition gen_set_state :: "VisualGenerator option \<Rightarrow> 32 word \<Rightarrow> VisualGenerator option" where
  "gen_set_state g s = map_option (gen_state_update (\<lambda>_. s)) g"

definition gen_get_value :: "VisualGenerator option \<Rightarrow> 64 word" where
  "gen_get_value g = (case g of None \<Rightarrow> 0 | Some g \<Rightarrow> gen_value g)"

definition gen_set_value :: "VisualGenerator option \<Rightarrow> 64 word \<Rightarrow> VisualGenerator option" where
  "gen_set_value g v = map_option (gen_value_update (\<lambda>_. v)) g"

definition gen_get_slot :: "VisualGenerator option \<Rightarrow> 32 word \<Rightarrow> 64 word rt" where
  "gen_get_slot g idx = (case g of
     None \<Rightarrow> Inr 0
   | Some g \<Rightarrow> if sint idx < 0 \<or> sint idx \<ge> sint (num_slots g) then Inr 0
               else if nat (sint idx) < length (gen_slots g) then Inr (gen_slots g ! nat (sint idx)) else Inl Outside)"

definition gen_set_slot :: "VisualGenerator option \<Rightarrow> 32 word \<Rightarrow> 64 word \<Rightarrow> VisualGenerator option rt" where
  "gen_set_slot g idx val = (case g of
     None \<Rightarrow> Inr None
   | Some g \<Rightarrow> if sint idx < 0 \<or> sint idx \<ge> sint (num_slots g) then Inr (Some g)
               else if nat (sint idx) < length (gen_slots g) then Inr (Some (g\<lparr>gen_slots := (gen_slots g)[nat (sint idx) := val]\<rparr>))
               else Inl Outside)"

text \<open>The slots are memory cells: a write is seen by the reads of its slot and by no other, and no access leaves them.\<close>

definition gen_ok :: "VisualGenerator \<Rightarrow> bool" where
  "gen_ok g \<longleftrightarrow> length (gen_slots g) = nat (sint (num_slots g))"

lemma create_ok: "gen_create n fn = Inr g \<Longrightarrow> gen_ok g"
  by (auto simp: gen_ok_def gen_create_def split: if_splits)

lemma slot_cells:
  assumes "gen_ok g"
  shows "\<exists>g'. gen_set_slot (Some g) idx val = Inr (Some g') \<and> gen_ok g' \<and>
    gen_get_slot (Some g') j = (if j = idx \<and> 0 \<le> sint idx \<and> sint idx < sint (num_slots g) then Inr val else gen_get_slot (Some g) j)"
proof (cases "0 \<le> sint idx \<and> sint idx < sint (num_slots g)")
  case True
  then have i: "nat (sint idx) < length (gen_slots g)" using assms by (simp add: gen_ok_def)
  have j: "nat (sint j) = nat (sint idx) \<longleftrightarrow> j = idx" if "0 \<le> sint j" for j
  proof
    assume "nat (sint j) = nat (sint idx)"
    then have "sint j = sint idx" using that True by linarith
    then show "j = idx" by (rule signed_word_eqI)
  qed simp
  show ?thesis
    using True i assms j[of j] by (cases "0 \<le> sint j \<and> sint j < sint (num_slots g)")
      (auto simp: gen_set_slot_def gen_get_slot_def gen_ok_def nth_list_update)
qed (use assms in \<open>auto simp: gen_set_slot_def\<close>)

end
