(* ===== verification/Pkg_Resolver.thy ===== *)
theory Pkg_Resolver
  imports Vsl_Prelude
begin

text \<open>
  The package side of the compiler: manifests (\<^verbatim>\<open>vsl_manifest.h\<close>), the resolution of dependencies by minimal version
  selection (\<^verbatim>\<open>vsl_resolver.cpp\<close>) and the names of the package store (\<^verbatim>\<open>vsl_paths.cpp\<close>). The dependencies of a
  manifest are listed in the order in which its hash map yields them; fetching a manifest is a parameter.
\<close>

section \<open>Manifests\<close>

record ManifestPackage =
  pkg_name :: string
  pkg_version :: string
  pkg_description :: string
  pkg_license :: string
  pkg_entry :: string
  pkg_authors :: "string list"
  pkg_keywords :: "string list"

datatype Dependency = GitDep (gd_url: string) (gd_version: string) | PathDep string

record VslManifest =
  package :: ManifestPackage
  dependencies :: "(string \<times> Dependency) list"

record LockEntry =
  le_alias :: string
  le_url :: string
  le_version :: string
  le_dir :: string

section \<open>Versions\<close>

record Semver =
  major :: int
  minor :: int
  patch :: int

text \<open>Reading an \<^verbatim>\<open>int\<close> and a character from a stream, both of which skip white space first.\<close>

definition readInt :: "string \<Rightarrow> (int \<times> string) option" where
  "readInt s =
     (let s = dropWhile isspace s;
          neg = (s \<noteq> [] \<and> hd s = CHR ''-'');
          r = (if s \<noteq> [] \<and> (hd s = CHR ''-'' \<or> hd s = CHR ''+'') then tl s else s);
          digits = takeWhile isdigit r;
          v = (if neg then - int (decimalValue digits) else int (decimalValue digits))
      in if digits = [] \<or> v < - (2 ^ 31) \<or> v > 2 ^ 31 - 1 then None else Some (v, dropWhile isdigit r))"

definition readChar :: "string \<Rightarrow> (char \<times> string) option" where
  "readChar s = (case dropWhile isspace s of [] \<Rightarrow> None | c # r \<Rightarrow> Some (c, r))"

definition parseSemver :: "string \<Rightarrow> Semver option" where
  "parseSemver s = Option.bind (readInt s) (\<lambda>(mj, s). Option.bind (readChar s) (\<lambda>(sep1, s).
     Option.bind (readInt s) (\<lambda>(mi, s). Option.bind (readChar s) (\<lambda>(sep2, s).
     Option.bind (readInt s) (\<lambda>(pt, s).
       if sep1 \<noteq> CHR ''.'' \<or> sep2 \<noteq> CHR ''.'' then None else Some \<lparr>major = mj, minor = mi, patch = pt\<rparr>)))))"

definition semverGreater :: "Semver \<Rightarrow> Semver \<Rightarrow> bool" where
  "semverGreater a b =
     (if major a \<noteq> major b then major a > major b
      else if minor a \<noteq> minor b then minor a > minor b
      else patch a > patch b)"

section \<open>Resolution\<close>

datatype PackageError =
    InvalidSemver string string
  | MajorConflict string string string string
  | AliasConflict string
  | FetchError string string string string

type_synonym fetcher = "string \<Rightarrow> string \<Rightarrow> string + VslManifest"

record WorkItem =
  wi_gitUrl :: string
  wi_version :: string
  wi_requiredBy :: string

record Resolution =
  resolvedVersion :: "string \<rightharpoonup> string"
  urlToAlias :: "string \<rightharpoonup> string"
  queue :: "WorkItem list"
  seenUrlVersion :: "string set"

fun gitDeps :: "(string \<times> Dependency) list \<Rightarrow> (string \<times> string \<times> string) list" where
  "gitDeps [] = []"
| "gitDeps ((alias, GitDep url ver) # deps) = (alias, url, ver) # gitDeps deps"
| "gitDeps ((alias, PathDep p) # deps) = gitDeps deps"

definition rootAliases :: "VslManifest \<Rightarrow> string set" where
  "rootAliases root = fst ` set (gitDeps (dependencies root))"

definition startResolution :: "VslManifest \<Rightarrow> Resolution" where
  "startResolution root =
     fold (\<lambda>(alias, url, ver) st. st\<lparr>urlToAlias := (urlToAlias st)(url \<mapsto> alias),
             queue := queue st @ [\<lparr>wi_gitUrl = url, wi_version = ver, wi_requiredBy = ''root vsl.toml''\<rparr>]\<rparr>)
       (gitDeps (dependencies root))
       \<lparr>resolvedVersion = Map.empty, urlToAlias = Map.empty, queue = [], seenUrlVersion = {}\<rparr>"

definition mergeVersion :: "WorkItem \<Rightarrow> (string \<rightharpoonup> string) \<Rightarrow> PackageError + (string \<rightharpoonup> string)" where
  "mergeVersion item res =
     (let url = wi_gitUrl item; ver = wi_version item in
      case res url of
        None \<Rightarrow> Inr (res(url \<mapsto> ver))
      | Some old \<Rightarrow>
          (case (parseSemver old, parseSemver ver) of
             (Some existing, Some incoming) \<Rightarrow>
               if major existing \<noteq> major incoming then Inl (MajorConflict url old ver (wi_requiredBy item))
               else Inr (if semverGreater incoming existing then res(url \<mapsto> ver) else res)
           | (okE, okI) \<Rightarrow> Inl (InvalidSemver (if okE \<noteq> None then ver else old) (wi_requiredBy item))))"

definition itemKey :: "string \<Rightarrow> string \<Rightarrow> string" where
  "itemKey url ver = url @ ''@'' @ ver"

definition enqueueDep :: "string set \<Rightarrow> WorkItem \<Rightarrow> VslManifest \<Rightarrow> string \<times> string \<times> string \<Rightarrow> Resolution \<Rightarrow> PackageError + Resolution" where
  "enqueueDep roots item depManifest dep st = (case dep of (transAlias, url, ver) \<Rightarrow>
     let push = (\<lambda>st. Inr (st\<lparr>queue := queue st @ [\<lparr>wi_gitUrl = url, wi_version = ver,
                    wi_requiredBy = [SQUOTE] @ wi_gitUrl item @ [SQUOTE] @ '' @ '' @ wi_version item\<rparr>]\<rparr>))
     in if urlToAlias st url = None then
          let generatedAlias = pkg_name (package depManifest)
          in if generatedAlias \<in> roots then Inl (AliasConflict generatedAlias)
             else push (st\<lparr>urlToAlias := (urlToAlias st)(url \<mapsto> transAlias)\<rparr>)
        else push st)"

fun enqueueDeps :: "string set \<Rightarrow> WorkItem \<Rightarrow> VslManifest \<Rightarrow> (string \<times> string \<times> string) list \<Rightarrow> Resolution \<Rightarrow> PackageError + Resolution" where
  "enqueueDeps roots item m [] st = Inr st"
| "enqueueDeps roots item m (dep # deps) st =
     (case enqueueDep roots item m dep st of Inl e \<Rightarrow> Inl e | Inr st \<Rightarrow> enqueueDeps roots item m deps st)"

definition resolveItem :: "string set \<Rightarrow> fetcher \<Rightarrow> WorkItem \<Rightarrow> Resolution \<Rightarrow> PackageError + Resolution" where
  "resolveItem roots fetch item st =
     (let url = wi_gitUrl item; ver = wi_version item; key = itemKey url ver in
      case mergeVersion item (resolvedVersion st) of
        Inl e \<Rightarrow> Inl e
      | Inr res \<Rightarrow>
          let st = st\<lparr>resolvedVersion := res\<rparr> in
          if key \<in> seenUrlVersion st then Inr st
          else let st = st\<lparr>seenUrlVersion := insert key (seenUrlVersion st)\<rparr> in
            case fetch url ver of
              Inl msg \<Rightarrow> Inl (FetchError url ver (wi_requiredBy item) msg)
            | Inr m \<Rightarrow> enqueueDeps roots item m (gitDeps (dependencies m)) st)"

text \<open>The loop over the queue ends only if finitely many packages are reached.\<close>

partial_function (option) resolveLoop :: "string set \<Rightarrow> fetcher \<Rightarrow> Resolution \<Rightarrow> (PackageError + Resolution) option" where
  "resolveLoop roots fetch st = (case queue st of
     [] \<Rightarrow> Some (Inr st)
   | item # items \<Rightarrow> (case resolveItem roots fetch item (st\<lparr>queue := items\<rparr>) of
        Inl e \<Rightarrow> Some (Inl e)
      | Inr st \<Rightarrow> resolveLoop roots fetch st))"

definition lockEntry :: "Resolution \<Rightarrow> string \<Rightarrow> LockEntry" where
  "lockEntry st url = \<lparr>le_alias = (case urlToAlias st url of None \<Rightarrow> [] | Some a \<Rightarrow> a), le_url = url,
     le_version = the (resolvedVersion st url), le_dir = []\<rparr>"

text \<open>
  The result lists the keys of the hash map in the order \<^verbatim>\<open>hashOrder\<close>, and is then sorted by alias.
\<close>

definition resolveDeps :: "((string \<rightharpoonup> string) \<Rightarrow> string list) \<Rightarrow> VslManifest \<Rightarrow> fetcher \<Rightarrow> (PackageError + LockEntry list) option" where
  "resolveDeps hashOrder root fetch = map_option
     (\<lambda>r. case r of Inl e \<Rightarrow> Inl e | Inr st \<Rightarrow> Inr (sort_key le_alias (map (lockEntry st) (hashOrder (resolvedVersion st)))))
     (resolveLoop (rootAliases root) fetch (startResolution root))"

section \<open>The package store\<close>

definition safeChar :: "char \<Rightarrow> bool" where
  "safeChar c \<longleftrightarrow> isalnum c \<or> c = CHR ''.'' \<or> c = CHR ''_'' \<or> c = CHR ''-''"

fun afterScheme :: "string \<Rightarrow> string option" where
  "afterScheme [] = None"
| "afterScheme (c # cs) = (if take 3 (c # cs) = ''://'' then Some (drop 3 (c # cs)) else afterScheme cs)"

definition sanitizeUrlForCache :: "string \<Rightarrow> string" where
  "sanitizeUrlForCache url =
     (let s = (case afterScheme url of None \<Rightarrow> url | Some r \<Rightarrow> r)
      in take 200 (map (\<lambda>c. if safeChar c then c else CHR ''_'') s) @ ''.git'')"

text \<open>The environment variable and the password entry are parameters; none is modelled as \<^verbatim>\<open>None\<close>.\<close>

definition getVisuallDataDir :: "string option \<Rightarrow> string option \<Rightarrow> string option" where
  "getVisuallDataDir home pw_dir = (case home of
     Some (c # cs) \<Rightarrow> Some (c # cs @ ''/.visuall'')
   | _ \<Rightarrow> (case pw_dir of Some (c # cs) \<Rightarrow> Some (c # cs @ ''/.visuall'') | _ \<Rightarrow> None))"

definition getPackageCacheDir :: "string option \<Rightarrow> string option \<Rightarrow> string option" where
  "getPackageCacheDir home pw_dir = map_option (\<lambda>d. d @ ''/cache'') (getVisuallDataDir home pw_dir)"

definition getPackageStoreDir :: "string option \<Rightarrow> string option \<Rightarrow> string option" where
  "getPackageStoreDir home pw_dir = map_option (\<lambda>d. d @ ''/packages'') (getVisuallDataDir home pw_dir)"

end
