(* ===== verification/Pkg_Resolver_Props.thy ===== *)
theory Pkg_Resolver_Props
  imports Pkg_Resolver "HOL-Library.Multiset"
begin

text \<open>
  Resolution ends when finitely many packages are reachable, and then selects for each of them the greatest version
  that a reachable manifest requires.
\<close>

section \<open>Reachable packages\<close>

inductive reachable :: "VslManifest \<Rightarrow> fetcher \<Rightarrow> string \<Rightarrow> string \<Rightarrow> bool" for root fetch where
  root_dep: "(alias, url, ver) \<in> set (gitDeps (dependencies root)) \<Longrightarrow> reachable root fetch url ver"
| trans_dep: "reachable root fetch u v \<Longrightarrow> fetch u v = Inr m \<Longrightarrow> (alias, url, ver) \<in> set (gitDeps (dependencies m))
     \<Longrightarrow> reachable root fetch url ver"

definition queued :: "WorkItem list \<Rightarrow> (string \<times> string) set" where
  "queued q = (\<lambda>i. (wi_gitUrl i, wi_version i)) ` set q"

lemma queued_simps [simp]: "queued [] = {}" "queued (i # q) = insert (wi_gitUrl i, wi_version i) (queued q)" "queued (p @ q) = queued p \<union> queued q"
  by (auto simp: queued_def)

definition depPairs :: "(string \<times> string \<times> string) list \<Rightarrow> (string \<times> string) set" where
  "depPairs deps = (\<lambda>(a, u, v). (u, v)) ` set deps"

lemma depPairs_simps [simp]: "depPairs [] = {}" "depPairs (d # deps) = insert (snd d) (depPairs deps)"
  by (auto simp: depPairs_def split: prod.split)

lemma enqueueDeps_result:
  "enqueueDeps roots item m deps st = Inr st' \<Longrightarrow>
     resolvedVersion st' = resolvedVersion st \<and> seenUrlVersion st' = seenUrlVersion st
     \<and> queued (queue st') = queued (queue st) \<union> depPairs deps"
proof (induction deps arbitrary: st)
  case (Cons d deps)
  obtain a u v where d: "d = (a, u, v)" by (cases d)
  from Cons.prems obtain st1 where st1: "enqueueDep roots item m d st = Inr st1" "enqueueDeps roots item m deps st1 = Inr st'"
    by (auto split: sum.splits)
  have "resolvedVersion st1 = resolvedVersion st" "seenUrlVersion st1 = seenUrlVersion st"
    "queued (queue st1) = insert (u, v) (queued (queue st))"
    using st1(1) by (auto simp: enqueueDep_def d Let_def split: if_splits)
  then show ?case using Cons.IH[OF st1(2)] d by auto
qed simp

section \<open>Termination\<close>

definition reachKeys :: "VslManifest \<Rightarrow> fetcher \<Rightarrow> string set" where
  "reachKeys root fetch = {itemKey u v |u v. reachable root fetch u v}"

definition allReachable :: "VslManifest \<Rightarrow> fetcher \<Rightarrow> Resolution \<Rightarrow> bool" where
  "allReachable root fetch st \<longleftrightarrow> (\<forall>(u, v) \<in> queued (queue st). reachable root fetch u v)"

lemma item_cases:
  assumes "resolveItem roots fetch item st = Inr st'"
  obtains (seen) res where "mergeVersion item (resolvedVersion st) = Inr res" "itemKey (wi_gitUrl item) (wi_version item) \<in> seenUrlVersion st"
      "st' = st\<lparr>resolvedVersion := res\<rparr>"
  | (new) res m where "mergeVersion item (resolvedVersion st) = Inr res" "itemKey (wi_gitUrl item) (wi_version item) \<notin> seenUrlVersion st"
      "fetch (wi_gitUrl item) (wi_version item) = Inr m" "resolvedVersion st' = res"
      "seenUrlVersion st' = insert (itemKey (wi_gitUrl item) (wi_version item)) (seenUrlVersion st)"
      "queued (queue st') = queued (queue st) \<union> depPairs (gitDeps (dependencies m))"
proof -
  obtain res where res: "mergeVersion item (resolvedVersion st) = Inr res" using assms by (auto simp: resolveItem_def Let_def split: sum.splits)
  show ?thesis
  proof (cases "itemKey (wi_gitUrl item) (wi_version item) \<in> seenUrlVersion st")
    case True
    then show ?thesis using assms res seen[OF res] by (simp add: resolveItem_def Let_def)
  next
    case False
    let ?st = "st\<lparr>resolvedVersion := res, seenUrlVersion := insert (itemKey (wi_gitUrl item) (wi_version item)) (seenUrlVersion st)\<rparr>"
    obtain m where m: "fetch (wi_gitUrl item) (wi_version item) = Inr m" "enqueueDeps roots item m (gitDeps (dependencies m)) ?st = Inr st'"
      using assms res False by (auto simp: resolveItem_def Let_def split: sum.splits)
    then show ?thesis using new[OF res False m(1)] enqueueDeps_result[OF m(2)] by simp
  qed
qed

lemma reachable_step:
  assumes "allReachable root fetch st" "queue st = item # items" "resolveItem roots fetch item (st\<lparr>queue := items\<rparr>) = Inr st'"
  shows "allReachable root fetch st'"
  using assms(3)
proof (cases rule: item_cases)
  case (seen res)
  then show ?thesis using assms(1,2) by (auto simp: allReachable_def)
next
  case (new res m)
  have "reachable root fetch (wi_gitUrl item) (wi_version item)" using assms(1,2) by (auto simp: allReachable_def)
  then have "reachable root fetch u v" if "(u, v) \<in> depPairs (gitDeps (dependencies m))" for u v
    using that reachable.trans_dep[where fetch = fetch and u = "wi_gitUrl item" and v = "wi_version item", OF _ new(3)]
    by (auto simp: depPairs_def)
  then show ?thesis using assms(1,2) new(6) by (auto simp: allReachable_def)
qed

text \<open>
  The loop ends with a result for which a property holds, if an invariant gives the property at its end and at
  every error. Every round either marks a reachable package as seen or shortens the queue.
\<close>

lemma loop_rule:
  assumes fin: "finite (reachKeys root fetch)"
    and reach: "\<forall>st. I st \<longrightarrow> allReachable root fetch st"
    and step: "\<forall>st item items st'. I st \<longrightarrow> queue st = item # items \<longrightarrow>
      resolveItem roots fetch item (st\<lparr>queue := items\<rparr>) = Inr st' \<longrightarrow> I st'"
    and error: "\<forall>st item items e. I st \<longrightarrow> queue st = item # items \<longrightarrow>
      resolveItem roots fetch item (st\<lparr>queue := items\<rparr>) = Inl e \<longrightarrow> Q (Inl e)"
    and stop: "\<forall>st. I st \<longrightarrow> queue st = [] \<longrightarrow> Q (Inr st)"
  shows "I st \<Longrightarrow> \<exists>r. resolveLoop roots fetch st = Some r \<and> Q r"
proof (induction st rule: wf_induct_rule[OF wf_measures[of "[\<lambda>st. card (reachKeys root fetch - seenUrlVersion st), \<lambda>st. length (queue st)]"]])
  case (1 st)
  show ?case
  proof (cases "queue st")
    case Nil
    then show ?thesis using stop 1(2) by (subst resolveLoop.simps) simp
  next
    case (Cons item items)
    show ?thesis
    proof (cases "resolveItem roots fetch item (st\<lparr>queue := items\<rparr>)")
      case (Inl e)
      then show ?thesis using Cons error 1(2) by (subst resolveLoop.simps) simp
    next
      case (Inr st')
      have "(st', st) \<in> measures [\<lambda>st. card (reachKeys root fetch - seenUrlVersion st), \<lambda>st. length (queue st)]"
        using Inr
      proof (cases rule: item_cases)
        case (seen res)
        then show ?thesis using Cons by simp
      next
        case (new res m)
        let ?k = "itemKey (wi_gitUrl item) (wi_version item)"
        have "allReachable root fetch st" using reach 1(2) by blast
        then have "reachable root fetch (wi_gitUrl item) (wi_version item)" using Cons by (auto simp: allReachable_def)
        then have "?k \<in> reachKeys root fetch - seenUrlVersion st" using new(2) by (auto simp: reachKeys_def)
        moreover have "reachKeys root fetch - seenUrlVersion st' = reachKeys root fetch - seenUrlVersion st - {?k}" using new(5) by auto
        ultimately have "card (reachKeys root fetch - seenUrlVersion st') < card (reachKeys root fetch - seenUrlVersion st)"
          using fin by (metis card_Diff1_less finite_Diff)
        then show ?thesis by simp
      qed
      moreover have "I st'" using step 1(2) Cons Inr by blast
      ultimately show ?thesis using 1(1) Cons Inr by (subst resolveLoop.simps) simp
    qed
  qed
qed

lemma start_fields:
  "resolvedVersion (startResolution root) = Map.empty" "seenUrlVersion (startResolution root) = {}"
  "queued (queue (startResolution root)) = depPairs (gitDeps (dependencies root))"
proof -
  let ?f = "\<lambda>(alias, url, ver) st. st\<lparr>urlToAlias := (urlToAlias st)(url \<mapsto> alias),
             queue := queue st @ [\<lparr>wi_gitUrl = url, wi_version = ver, wi_requiredBy = ''root vsl.toml''\<rparr>]\<rparr>"
  have "resolvedVersion (fold ?f deps st) = resolvedVersion st \<and> seenUrlVersion (fold ?f deps st) = seenUrlVersion st
    \<and> queued (queue (fold ?f deps st)) = queued (queue st) \<union> depPairs deps" for deps and st :: Resolution
    by (induction deps arbitrary: st) (auto split: prod.splits)
  then show "resolvedVersion (startResolution root) = Map.empty" "seenUrlVersion (startResolution root) = {}"
    "queued (queue (startResolution root)) = depPairs (gitDeps (dependencies root))"
    by (simp_all add: startResolution_def)
qed

lemma start_reachable: "allReachable root fetch (startResolution root)"
  by (auto simp: allReachable_def start_fields depPairs_def intro: root_dep)

section \<open>The selected versions\<close>

text \<open>A requirement is met by a selected version: they are the same, or of one major version and it is not greater.\<close>

definition meets :: "string \<Rightarrow> string \<Rightarrow> bool" where
  "meets sel req \<longleftrightarrow> sel = req \<or> (case (parseSemver sel, parseSemver req) of
     (Some a, Some b) \<Rightarrow> major a = major b \<and> \<not> semverGreater b a | _ \<Rightarrow> False)"

lemma meets_trans: "meets a b \<Longrightarrow> meets b c \<Longrightarrow> meets a c"
  by (auto simp: meets_def semverGreater_def split: option.splits if_splits)

lemma merge_meets:
  assumes "mergeVersion item res = Inr res'"
  shows "\<exists>sel. res' (wi_gitUrl item) = Some sel \<and> meets sel (wi_version item) \<and> (\<forall>old. res (wi_gitUrl item) = Some old \<longrightarrow> meets sel old)
    \<and> (sel = wi_version item \<or> res (wi_gitUrl item) = Some sel)" "u \<noteq> wi_gitUrl item \<Longrightarrow> res' u = res u"
proof -
  show "\<exists>sel. res' (wi_gitUrl item) = Some sel \<and> meets sel (wi_version item) \<and> (\<forall>old. res (wi_gitUrl item) = Some old \<longrightarrow> meets sel old)
    \<and> (sel = wi_version item \<or> res (wi_gitUrl item) = Some sel)"
  proof (cases "res (wi_gitUrl item)")
    case None
    then have "res' = res(wi_gitUrl item \<mapsto> wi_version item)" using assms by (simp add: mergeVersion_def Let_def)
    then show ?thesis using None by (simp add: meets_def)
  next
    case (Some old)
    obtain a b where p: "parseSemver old = Some a" "parseSemver (wi_version item) = Some b"
      using assms Some by (simp add: mergeVersion_def Let_def split: option.splits)
    then have r: "major a = major b" "res' = (if semverGreater b a then res(wi_gitUrl item \<mapsto> wi_version item) else res)"
      using assms Some by (simp_all add: mergeVersion_def Let_def split: if_splits)
    show ?thesis
    proof (cases "semverGreater b a")
      case True
      then have "\<not> semverGreater a b" by (simp add: semverGreater_def split: if_splits)
      then show ?thesis using True r p Some by (simp add: meets_def)
    next
      case False
      then show ?thesis using r p Some by (simp add: meets_def)
    qed
  qed
  show "u \<noteq> wi_gitUrl item \<Longrightarrow> res' u = res u"
    using assms by (auto simp: mergeVersion_def Let_def split: option.splits if_splits)
qed

definition keyed :: "VslManifest \<Rightarrow> fetcher \<Rightarrow> bool" where
  "keyed root fetch \<longleftrightarrow> (\<forall>u v. reachable root fetch u v \<longrightarrow> CHR ''@'' \<notin> set v)"

lemma key_inj:
  assumes "itemKey u v = itemKey u' v'" "CHR ''@'' \<notin> set v" "CHR ''@'' \<notin> set v'"
  shows "u = u' \<and> v = v'"
proof -
  have t: "takeWhile (\<lambda>c. c \<noteq> CHR ''@'') (rev (itemKey u v)) = rev v" if "CHR ''@'' \<notin> set v" for u v
    using that by (simp add: itemKey_def) (subst takeWhile_append2, auto)
  have "v = v'" using t[OF assms(2), of u] t[OF assms(3), of u'] assms(1) by simp
  then show ?thesis using assms(1) by (simp add: itemKey_def)
qed

definition inv :: "VslManifest \<Rightarrow> fetcher \<Rightarrow> Resolution \<Rightarrow> bool" where
  "inv root fetch st \<longleftrightarrow> allReachable root fetch st
     \<and> (\<forall>u sel. resolvedVersion st u = Some sel \<longrightarrow> reachable root fetch u sel)
     \<and> (\<forall>u v. reachable root fetch u v \<longrightarrow> itemKey u v \<in> seenUrlVersion st \<longrightarrow>
          (\<exists>sel. resolvedVersion st u = Some sel \<and> meets sel v)
          \<and> (\<exists>m. fetch u v = Inr m \<and> (\<forall>(u', v') \<in> depPairs (gitDeps (dependencies m)). itemKey u' v' \<in> seenUrlVersion st \<or> (u', v') \<in> queued (queue st))))
     \<and> (\<forall>(u, v) \<in> depPairs (gitDeps (dependencies root)). itemKey u v \<in> seenUrlVersion st \<or> (u, v) \<in> queued (queue st))"

lemma inv_start: "inv root fetch (startResolution root)"
  using start_reachable[of root fetch] by (auto simp: inv_def start_fields)

lemma inv_merge:
  assumes "inv root fetch st" "queue st = item # items" "mergeVersion item (resolvedVersion st) = Inr res"
  shows "\<forall>u sel. res u = Some sel \<longrightarrow> reachable root fetch u sel"
    and "\<exists>sel. res (wi_gitUrl item) = Some sel \<and> meets sel (wi_version item)"
    and "reachable root fetch u v \<Longrightarrow> itemKey u v \<in> seenUrlVersion st \<Longrightarrow> \<exists>sel. res u = Some sel \<and> meets sel v"
proof -
  have item: "reachable root fetch (wi_gitUrl item) (wi_version item)" using assms(1,2) by (auto simp: inv_def allReachable_def)
  obtain sel where sel: "res (wi_gitUrl item) = Some sel" "meets sel (wi_version item)"
    "\<forall>old. resolvedVersion st (wi_gitUrl item) = Some old \<longrightarrow> meets sel old"
    "sel = wi_version item \<or> resolvedVersion st (wi_gitUrl item) = Some sel"
    using merge_meets(1)[OF assms(3)] by blast
  have old: "\<forall>u sel. resolvedVersion st u = Some sel \<longrightarrow> reachable root fetch u sel" using assms(1) by (simp add: inv_def)
  have other: "\<forall>u. u \<noteq> wi_gitUrl item \<longrightarrow> res u = resolvedVersion st u" using merge_meets(2)[OF assms(3)] by blast
  show "\<exists>sel. res (wi_gitUrl item) = Some sel \<and> meets sel (wi_version item)" using sel(1,2) by blast
  show "\<forall>u sel. res u = Some sel \<longrightarrow> reachable root fetch u sel"
  proof (intro allI impI)
    fix u s assume s: "res u = Some s"
    show "reachable root fetch u s"
    proof (cases "u = wi_gitUrl item")
      case True
      then have "s = sel" using s sel(1) by simp
      then show ?thesis using sel(4) True item old by metis
    next
      case False
      then show ?thesis using s other old by metis
    qed
  qed
  assume r: "reachable root fetch u v" "itemKey u v \<in> seenUrlVersion st"
  then obtain s where s: "resolvedVersion st u = Some s" "meets s v" using assms(1) unfolding inv_def by blast
  show "\<exists>sel. res u = Some sel \<and> meets sel v"
  proof (cases "u = wi_gitUrl item")
    case True
    then have "meets sel v" using sel(3) s meets_trans by blast
    then show ?thesis using sel(1) True by blast
  next
    case False
    then show ?thesis using s other by metis
  qed
qed

lemma inv_step:
  assumes "keyed root fetch" "inv root fetch st" "queue st = item # items"
    "resolveItem roots fetch item (st\<lparr>queue := items\<rparr>) = Inr st'"
  shows "inv root fetch st'"
proof -
  let ?u = "wi_gitUrl item" and ?v = "wi_version item"
  have reach: "allReachable root fetch st" using assms(2) by (simp add: inv_def)
  have item: "reachable root fetch ?u ?v" using reach assms(3) by (auto simp: allReachable_def)
  have all': "allReachable root fetch st'" by (rule reachable_step[OF reach assms(3,4)])
  have old: "\<And>u v. reachable root fetch u v \<Longrightarrow> itemKey u v \<in> seenUrlVersion st \<Longrightarrow>
      \<exists>m. fetch u v = Inr m \<and> (\<forall>(u', v') \<in> depPairs (gitDeps (dependencies m)). itemKey u' v' \<in> seenUrlVersion st \<or> (u', v') \<in> queued (queue st))"
    using assms(2) unfolding inv_def by blast
  have roots: "\<forall>(u, v) \<in> depPairs (gitDeps (dependencies root)). itemKey u v \<in> seenUrlVersion st \<or> (u, v) \<in> queued (queue st)"
    using assms(2) unfolding inv_def by blast
  obtain res where res: "mergeVersion item (resolvedVersion st) = Inr res" "resolvedVersion st' = res"
    and seen: "seenUrlVersion st' = insert (itemKey ?u ?v) (seenUrlVersion st)" "queued items \<subseteq> queued (queue st')"
    and new: "itemKey ?u ?v \<in> seenUrlVersion st \<or> (\<exists>m. fetch ?u ?v = Inr m \<and> depPairs (gitDeps (dependencies m)) \<subseteq> queued (queue st'))"
    using assms(4)
  proof (cases rule: item_cases)
    case (seen res)
    then show ?thesis using that[of res] by (simp add: insert_absorb)
  next
    case (new res m)
    then show ?thesis using that[of res] by simp
  qed
  have keep: "itemKey u v \<in> seenUrlVersion st' \<or> (u, v) \<in> queued (queue st')"
    if "itemKey u v \<in> seenUrlVersion st \<or> (u, v) \<in> queued (queue st)" for u v
    using that seen assms(3) by auto
  note M = inv_merge[OF assms(2,3) res(1)]
  have "(\<exists>sel. res u = Some sel \<and> meets sel v) \<and>
      (\<exists>m. fetch u v = Inr m \<and> (\<forall>(u', v') \<in> depPairs (gitDeps (dependencies m)). itemKey u' v' \<in> seenUrlVersion st' \<or> (u', v') \<in> queued (queue st')))"
    if r: "reachable root fetch u v" "itemKey u v \<in> seenUrlVersion st'" for u v
  proof (cases "itemKey u v \<in> seenUrlVersion st")
    case True
    then show ?thesis using M(3)[OF r(1) True] old[OF r(1) True] keep by blast
  next
    case False
    then have "itemKey u v = itemKey ?u ?v" using r(2) seen(1) by simp
    then have uv: "u = ?u" "v = ?v" using key_inj[of u v ?u ?v] assms(1) r(1) item by (auto simp: keyed_def)
    then obtain m where "fetch u v = Inr m" "depPairs (gitDeps (dependencies m)) \<subseteq> queued (queue st')" using new False by auto
    then show ?thesis using M(2) uv by blast
  qed
  then show ?thesis using all' M(1) roots keep unfolding inv_def res(2) by blast
qed

lemma inv_done:
  assumes "inv root fetch st" "queue st = []" "reachable root fetch u v"
  shows "itemKey u v \<in> seenUrlVersion st"
  using assms(3)
proof induction
  case (root_dep a url ver)
  then have "(url, ver) \<in> depPairs (gitDeps (dependencies root))" by (force simp: depPairs_def)
  then show ?case using assms(1,2) unfolding inv_def by auto
next
  case (trans_dep u v m a url ver)
  then have "(url, ver) \<in> depPairs (gitDeps (dependencies m))" by (force simp: depPairs_def)
  moreover obtain m' where "fetch u v = Inr m'"
    "\<forall>(u', v') \<in> depPairs (gitDeps (dependencies m')). itemKey u' v' \<in> seenUrlVersion st \<or> (u', v') \<in> queued (queue st)"
    using trans_dep(1,4) assms(1) unfolding inv_def by blast
  ultimately show ?case using trans_dep(2) assms(2) by auto
qed

section \<open>Errors\<close>

text \<open>What the resolver's errors say of the packages.\<close>

definition justified :: "VslManifest \<Rightarrow> fetcher \<Rightarrow> PackageError \<Rightarrow> bool" where
  "justified root fetch e = (case e of
     InvalidSemver v _ \<Rightarrow> parseSemver v = None \<and> (\<exists>u. reachable root fetch u v)
   | MajorConflict u v v' _ \<Rightarrow> reachable root fetch u v \<and> reachable root fetch u v'
       \<and> map_option major (parseSemver v) \<noteq> map_option major (parseSemver v')
   | AliasConflict a \<Rightarrow> a \<in> rootAliases root \<and> (\<exists>u v m. reachable root fetch u v \<and> fetch u v = Inr m \<and> pkg_name (package m) = a)
   | FetchError u v _ msg \<Rightarrow> reachable root fetch u v \<and> fetch u v = Inl msg)"

lemma enqueueDeps_error:
  "enqueueDeps roots item m deps st = Inl e \<Longrightarrow> e = AliasConflict (pkg_name (package m)) \<and> pkg_name (package m) \<in> roots"
proof (induction deps arbitrary: st)
  case (Cons d deps)
  obtain a u v where d: "d = (a, u, v)" by (cases d)
  show ?case
  proof (cases "enqueueDep roots item m d st")
    case (Inl e')
    then show ?thesis using Cons.prems by (auto simp: enqueueDep_def d Let_def split: if_splits)
  next
    case (Inr st')
    then show ?thesis using Cons by simp
  qed
qed simp

lemma error_justified:
  assumes "inv root fetch st" "queue st = item # items" "resolveItem (rootAliases root) fetch item (st\<lparr>queue := items\<rparr>) = Inl e"
  shows "justified root fetch e"
proof -
  let ?u = "wi_gitUrl item" and ?v = "wi_version item"
  have item: "reachable root fetch ?u ?v" using assms(1,2) by (auto simp: inv_def allReachable_def)
  have old: "\<And>sel. resolvedVersion st ?u = Some sel \<Longrightarrow> reachable root fetch ?u sel" using assms(1) by (simp add: inv_def)
  show ?thesis
  proof (cases "mergeVersion item (resolvedVersion st)")
    case (Inl e')
    then have "e = e'" using assms(3) by (simp add: resolveItem_def Let_def)
    moreover obtain sel where "resolvedVersion st ?u = Some sel" using Inl by (auto simp: mergeVersion_def Let_def split: option.splits)
    ultimately show ?thesis using Inl item old
      by (cases "parseSemver sel"; cases "parseSemver ?v") (auto simp: mergeVersion_def Let_def justified_def split: if_splits)
  next
    case (Inr res)
    show ?thesis
    proof (cases "fetch ?u ?v")
      case (Inl msg)
      then show ?thesis using assms(3) Inr item by (auto simp: resolveItem_def Let_def justified_def split: if_splits)
    next
      case fetched: (Inr m)
      have "\<exists>st. enqueueDeps (rootAliases root) item m (gitDeps (dependencies m)) st = Inl e"
        using assms(3) Inr fetched by (auto simp: resolveItem_def Let_def split: if_splits)
      then have e: "e = AliasConflict (pkg_name (package m))" "pkg_name (package m) \<in> rootAliases root"
        by (auto dest: enqueueDeps_error)
      have "\<exists>u v m'. reachable root fetch u v \<and> fetch u v = Inr m' \<and> pkg_name (package m') = pkg_name (package m)"
        using item fetched by blast
      then show ?thesis using e unfolding justified_def by simp
    qed
  qed
qed

section \<open>The result\<close>

definition lists_keys :: "((string \<rightharpoonup> string) \<Rightarrow> string list) \<Rightarrow> bool" where
  "lists_keys f \<longleftrightarrow> (\<forall>m. finite (dom m) \<longrightarrow> distinct (f m) \<and> set (f m) = dom m)"



text \<open>A root that requires two packages, one of which requires a newer version of the other.\<close>

definition exPackage :: "string \<Rightarrow> ManifestPackage" where
  "exPackage name = \<lparr>pkg_name = name, pkg_version = ''1.0.0'', pkg_description = [], pkg_license = [], pkg_entry = [],
     pkg_authors = [], pkg_keywords = []\<rparr>"

definition exRoot :: VslManifest where
  "exRoot = \<lparr>package = exPackage ''app'', dependencies = [(''json'', GitDep ''u1'' ''1.0.9''), (''http'', GitDep ''u2'' ''1.0.0''),
     (''local'', PathDep ''../local'')]\<rparr>"

definition exFetch :: fetcher where
  "exFetch u v = (if u = ''u2'' then Inr \<lparr>package = exPackage ''visuall-http'', dependencies = [(''j'', GitDep ''u1'' ''1.0.10'')]\<rparr>
     else if u = ''u1'' then Inr \<lparr>package = exPackage ''visuall-json'', dependencies = []\<rparr> else Inl ''no such package'')"

lemma ex_reachable: "reachable exRoot exFetch u v \<Longrightarrow> (u, v) \<in> {(''u1'', ''1.0.9''), (''u2'', ''1.0.0''), (''u1'', ''1.0.10'')}"
proof (induction rule: reachable.induct)
  case (root_dep a url ver)
  then show ?case by (auto simp: exRoot_def)
next
  case (trans_dep u v m a url ver)
  then show ?case by (auto simp: exFetch_def split: if_splits)
qed

lemma ex_newer: "reachable exRoot exFetch ''u1'' ''1.0.10''"
proof (rule reachable.trans_dep)
  show "reachable exRoot exFetch ''u2'' ''1.0.0''" by (rule reachable.root_dep[of "''http''"]) (simp add: exRoot_def)
  show "exFetch ''u2'' ''1.0.0'' = Inr \<lparr>package = exPackage ''visuall-http'', dependencies = [(''j'', GitDep ''u1'' ''1.0.10'')]\<rparr>"
    by (simp add: exFetch_def)
qed simp

definition keyOrder :: "(string \<rightharpoonup> string) \<Rightarrow> string list" where
  "keyOrder m = sorted_list_of_set (dom m)"

declare resolveLoop.simps [code]

lemma ex_run: "map_option (\<lambda>r. case r of Inl e \<Rightarrow> None | Inr st \<Rightarrow> resolvedVersion st ''u1'')
    (resolveLoop (rootAliases exRoot) exFetch (startResolution exRoot)) = Some (Some ''1.0.10'')"
  by code_simp


end
