(* ===== verification/Spec2Isabelle.thy ===== *)
theory Spec2Isabelle
  imports Lexer_RoundTrip Lexer_Text Parser_Props Capture_Props Class_Analyzer Escape_Analyzer
    Type_Names_Props Check_Examples Check_Accepts Frontend Go_Task Scheduler_Runs Rt_Dict_Props Rt_Slices Rt_Sets Rt_Queues Rt_Text_Join Rt_Misc Pkg_Resolver_Props
begin

text \<open>
  The Visuall compiler: a verification development.

  Visuall is an indentation based language with a compiler in C++ (\<^verbatim>\<open>src/\<close>, \<^verbatim>\<open>include/\<close>) that
  lexes, parses, analyses and type checks a file and generates LLVM IR from it, and a runtime in C
  (\<^verbatim>\<open>stdlib/\<close>). The development models the front end, from the bytes of a source file to the checked
  tree that the code generator is given; of the runtime the garbage collector, the scheduler with its channels,
  and the containers and strings of the library; and the resolution of package dependencies. For each part it
  proves what the part promises to those that use it.

  THE PROGRAM AND ITS PARTS.  \<^verbatim>\<open>compileFrontend\<close> (\<^verbatim>\<open>src/visuall_compile.cpp\<close>) runs, on one source text,
  \<^verbatim>\<open>Lexer::tokenize\<close>, \<^verbatim>\<open>Parser::parse\<close>, \<^verbatim>\<open>analyzeClasses\<close>, \<^verbatim>\<open>analyzeCaptures\<close>, \<^verbatim>\<open>analyzeEscapes\<close> and
  \<^verbatim>\<open>TypeChecker::check\<close>, each reading what the one before it returned. Nothing is shared between the
  stages but these values; the capture analysis writes its results into the nodes of the tree, the
  others return tables beside it. The lexer and the parser report by exceptions or, in the collecting
  mode of the language server, into lists; so does the type checker. The code generator, which is not modelled,
  turns the tree into calls of the runtime: every object, string and task is allocated by the collector, which
  finds its roots on the stack and in registered globals; goroutines and channels are served by the scheduler,
  whose tasks are again objects of the collector. The package resolver runs before all this, in the package tool.

  THEORIES AND CODE, in the order of the program.

  Shared: \<open>Vsl_Prelude\<close> (the character classes of the C locale, digits, generic lemmas), \<open>Diagnostics\<close>
  (\<^verbatim>\<open>include/diagnostic.h\<close>, the exception classes), \<open>Cursor\<close> (the locale \<open>cursor\<close>: a position in a fixed
  input that is read, tested for the end and advanced; interpreted by the lexer on bytes), \<open>Ast\<close>
  (\<^verbatim>\<open>include/ast.h\<close>: one datatype constructor per node class, with the fields in the order of the class and
  the source range), \<open>Ast_Induct\<close> (induction over it), \<open>Scopes\<close> (the locale \<open>scope_stack\<close>: entering,
  leaving and declaring; interpreted by the capture analysis and by the symbol table, and the walks over
  lists of nodes).

  Lexer (\<^verbatim>\<open>src/lexer.cpp\<close>, \<^verbatim>\<open>include/token.h\<close>): \<open>Tokens\<close>, \<open>Lexer\<close>. The object is the record
  \<open>Lexer\<close>, its private methods are state transformers of the same name, exceptions are values of
  \<open>lex_exn\<close>, \<^verbatim>\<open>tokenize\<close> is \<open>tokenize\<close> after \<open>normalizeIndentation\<close> in the constructor \<open>mkLexer\<close>, and
  the whole is \<open>lexSource\<close>. Lines and columns are unbounded integers. The main loop recurses on the number
  of bytes that are left and of open levels, so it needs no fuel. \<open>Lexer_Spec\<close> gives the step relation
  \<open>lexes\<close>, which says abstractly what one turn of the loop does, and proves that the loop refines it
  (\<open>tokenizeStep_refines\<close>); \<open>Lexer_Props\<close> draws from it, by rule induction, positions, layout, lexemes and
  errors; \<open>Lexer_RoundTrip\<close> lexes printed lines; \<open>Lexer_Text\<close> treats the normalisation of leading spaces
  and the encoding of code points.

  Parser (\<^verbatim>\<open>src/parser.cpp\<close>, \<^verbatim>\<open>include/parser.h\<close>): \<open>Parser_Core\<close> (token navigation, errors,
  recovery), \<open>Parser_Types\<close>, \<open>Parser_Literals\<close>, \<open>Parser_Expr\<close>, \<open>Parser_Stmt\<close>, \<open>Parser_Top\<close>, and \<open>Clone\<close>
  (\<^verbatim>\<open>cloneExpr\<close>). A routine is a function from the parser object to a result and the new object; the
  result is a value, a \<^verbatim>\<open>ParseError\<close>, an error of the nested lexer of an f-string, or one of the
  outcomes the source has no word for: an index out of range, the dereference of a null or moved pointer, a
  failed assertion, and the exhaustion of the model's fuel. The recursive descent is written as the body of
  each routine over its recursive calls, tied by a fuel; \<open>Parser_Fuel\<close> (locale \<open>recursive\<close>, interpreted for
  types, expressions and statements) shows that a fuel in the order of the number of tokens left, times a
  constant for the entry, always gives a result, that more changes nothing, and that therefore the routines
  satisfy the recursion equations of the source (\<open>parser_equations\<close>). \<open>Parser_Props\<close> states the outcome of
  \<^verbatim>\<open>Parser::parse\<close>.

  Analyses: \<open>Capture_Analyzer\<close> and \<open>Capture_Props\<close> (\<^verbatim>\<open>src/capture_analyzer.cpp\<close>; what the stateful walk
  reports and fills in as functions of the tree, and the captures of a lambda against the free variables of its
  body), \<open>Class_Analyzer\<close>
  (\<^verbatim>\<open>src/class_analyzer.cpp\<close>; the memoised depth-first search over base classes, with termination by the
  number of unprocessed classes), \<open>Escape_Analyzer\<close> (\<^verbatim>\<open>src/escape_analyzer.cpp\<close>; an allocation site, a
  pointer in the code, is the number of assignments visited before it). Where the code walks a hash
  container the order of traversal is a parameter of the model.

  Type checker (\<^verbatim>\<open>src/typechecker.cpp\<close>, \<^verbatim>\<open>include/typechecker.h\<close>): \<open>Vsl_Types\<close> (the type terms,
  their equality and text), \<open>Type_Names\<close> and \<open>Type_Names_Props\<close> (\<^verbatim>\<open>resolveTypeName\<close> on the text of an
  annotation), \<open>Type_Relations\<close> (\<^verbatim>\<open>isSubtype\<close>, \<^verbatim>\<open>classImplementsInterface\<close>,
  \<^verbatim>\<open>isAssignableTo\<close>: walks up a class table that may be cyclic, hence \<open>partial_function\<close> into option),
  \<open>Levenshtein\<close>, \<open>Symbol_Table\<close> (a registry of scopes with a stack of the open ones), \<open>Check_Base\<close> (the
  object \<open>TC\<close> and the primitive steps; an outcome is a value, a thrown diagnostic or \<open>Endless\<close>),
  \<open>Check_Expr\<close>, \<open>Check_Stmt\<close> (one definition per visitor, both passes, \<^verbatim>\<open>check\<close>). \<open>Check_Law\<close> states as
  a chain of locales (\<open>visit_law\<close>, \<open>check_law\<close>, \<open>stmt_law\<close>) when a relation between the states before and
  after is kept by every visitor, with one rule per combinator; \<open>Check_Props\<close> interprets them, for the scope
  discipline and for the outcomes. \<open>Check_Typing\<close> and \<open>Check_Accepts\<close> give a typing judgement and its
  agreement with the visitors, \<open>Check_Examples\<close> runs the checker on small modules.

  \<open>Frontend\<close> composes the stages as \<^verbatim>\<open>compileFrontend\<close> does.

  Garbage collector (\<^verbatim>\<open>stdlib/gc.c\<close>, \<^verbatim>\<open>stdlib/gc.h\<close>): \<open>Ptr_Map\<close>, \<open>Ptr_Map_Props\<close> and \<open>Ptr_Map_Remove\<close>
  (the open-addressing table from user pointers to headers), \<open>Chunk_Table\<close> (the chunks of 4 KB that resolve
  interior pointers), \<open>Gc_Memory\<close> (the bytes of memory and the blocks \<^verbatim>\<open>malloc\<close> has handed out, with the headers kept
  apart from the bytes), \<open>Gc_Heap\<close> (the static state of
  the file as one record, and one definition per operation), \<open>Gc_Mark\<close>, \<open>Gc_Sweep\<close>, \<open>Gc_Collect\<close> (marking against
  reachability, sweeping, and a collection), \<open>Gc_Safe\<close> and \<open>Gc_Alloc\<close> (the invariant of the heap, and what a collection
  and an allocation promise), \<open>Go_Task\<close> (the task a \<^verbatim>\<open>go\<close> expression allocates). A run ends in a state, ends with a fault (bytes
  taken for a header, a write past the end of a block, an exit), or does not end.

  Scheduler (\<^verbatim>\<open>stdlib/scheduler.c\<close>, \<^verbatim>\<open>stdlib/scheduler.h\<close>): \<open>Scheduler\<close> (queues linked through the tasks, ring
  buffers, and each operation as the section it runs under its lock), \<open>Scheduler_Queues\<close>, \<open>Scheduler_Spec\<close> (an abstract
  machine of lists) and \<open>Scheduler_Runs\<close> (interleavings of the sections of all threads, the refinement, order
  and fairness).

  Runtime library (\<^verbatim>\<open>stdlib/runtime.c\<close>): \<open>Rt_Base\<close> (outcomes and counting loops), \<open>Rt_Dict\<close> and \<open>Rt_Dict_Props\<close>, \<open>Rt_List\<close>,
  \<open>Rt_List_Props\<close> and \<open>Rt_Slices\<close>, \<open>Rt_Sets\<close>, \<open>Rt_Queues\<close> (stacks, queues and the random choices), \<open>Rt_Text\<close>,
  \<open>Rt_Text_Props\<close> and \<open>Rt_Text_Join\<close> (strings, with the number of bytes each new string asks for), \<open>Rt_Misc\<close> (integers,
  tracebacks, generators). A container is the record of the C structure with its buffer as a list of cells, an unwritten
  one being \<open>None\<close>; exits, accesses outside a buffer and undefined overflow are values of \<open>rt_fault\<close>.

  Packages: \<open>Pkg_Resolver\<close> and \<open>Pkg_Resolver_Props\<close> (\<^verbatim>\<open>src/vsl_resolver.cpp\<close>, the data of \<^verbatim>\<open>include/vsl_manifest.h\<close>,
  \<^verbatim>\<open>src/vsl_paths.cpp\<close>): the queue of requirements, the merging of versions and the lock.

  WHAT THE LEMMAS SHOW.  The lexer ends, its assertion on the number of tokens cannot fail, tokens are in
  source order, INDENT and DEDENT are balanced, the type of a token fixes its lexeme. The parser ends on every
  text with a tree or an error and no undefined behaviour but the recorded one; a tree is returned only at the
  end of the tokens. The captures of a lambda are declared free variables of it, and all of them where the walk looks;
  an allocation assigned to a variable that is returned before
  it is assigned again is not put on the stack; the fields of a class extend those of its base. The checker ends unless classes are their own bases, closes every scope it opens, and
  gives each expression the type of the judgement. \<^verbatim>\<open>compileFrontend\<close> passes on exactly what the stages
  return. The pointer table, the dictionary, the lists, sets, stacks and queues and the scheduler implement finite maps,
  sequences, sets and a machine of lists, by refinement over every sequence of their operations. A collection ends and
  keeps exactly what is reachable; an allocation gives an object that was not in use. String functions return what
  their names say in objects of the exact size. Package resolution ends and selects, for every address, the
  greatest version some package requires. Where the code falls short of what it means to do, a theorem exhibits
  the case.

  PARAMETERS AND BOUNDS.  The traversal order of a hash map or hash set is a function from a set to a list of
  its elements; the theorems either hold for every order or compare two. \<^verbatim>\<open>size_t\<close> and \<^verbatim>\<open>int\<close> counters
  of lines, columns and lengths are unbounded: a source file of two gigabytes would be needed to reach their
  limits. Integer literals are kept at 64 bits (\<open>stoll_digits\<close>). Of the runtime, the answers of \<^verbatim>\<open>malloc\<close>, the
  stack pointer, \<^verbatim>\<open>rand\<close>, and the addresses of string literals are parameters, as is the fetching of a manifest in the
  resolver; a value of type \<^verbatim>\<open>size_t\<close> is a word of 64 bits, and the bounds on the number of operations or elements
  (2 to the power 58 or 59) keep counts within a signed word. Marking, probing and the resolver's
  queue are \<open>partial_function\<close>s, for which not returning is the value \<open>None\<close>, and are proved to return.

  NOT MODELLED.  The code generator (\<^verbatim>\<open>src/codegen.cpp\<close>) builds IR through the LLVM C++ API, whose
  semantics is not part of the repository; only the allocation of a task and the tagging of integers are
  taken from it. The linker driver, the module loader, the drivers and the package tool run processes and read
  files. Of the runtime, running out of memory, the locks and threads themselves (a section under a lock is one step),
  pause times and statistics, and the parts of the library that call the operating system, the C library's floating-point
  functions or the JSON library are left out. The language server is editor integration around the front end.
  Exhaustion of the C++ stack by deeply nested input, and the rounding of float literals to doubles (the model
  keeps the exact decimal), are not modelled.
\<close>

end
